(* ===== verification/Prelude.thy ===== *)
theory Prelude
  imports Main "HOL-Library.Word" "HOL-Library.Char_ord" "HOL-Library.List_Lexorder"
begin

text \<open>
  Shared foundations: the result type of fallible engine calls and its sequencing
  combinators, loops that stop at the first error, ordered maps (the standard library's
  \<open>BTreeMap\<close>) as key-sorted association lists, and the lemma collections the component
  theories use.
\<close>

named_theorems res_simps \<open>equations of the result combinators\<close>
named_theorems bt_simps \<open>lookup equations of ordered maps\<close>
named_theorems bt_intros \<open>preservation of the ordered-map invariant\<close>

section \<open>Machine integers\<close>

type_synonym u64 = "64 word"

abbreviation u64_max :: u64 where "u64_max \<equiv> - 1"

lemma unat_u64: "unat (w :: u64) < 2 ^ 64"
  using unsigned_less [of w, where 'a = nat] by simp

text \<open>\<open>saturating_add\<close> of the standard library; plain \<open>+\<close> wraps (release profile).\<close>

definition saturating_add :: "u64 \<Rightarrow> u64 \<Rightarrow> u64" where
  "saturating_add a b = (if unat a + unat b < 2 ^ 64 then a + b else u64_max)"

lemma unat_saturating_add:
  "unat (saturating_add a b) = min (unat a + unat b) (2 ^ 64 - 1)"
proof (cases "unat a + unat b < 2 ^ 64")
  case True
  then have "unat (a + b) = unat a + unat b"
    by (simp add: unat_word_ariths)
  with True show ?thesis by (simp add: saturating_add_def)
next
  case False
  then show ?thesis
    by (simp add: saturating_add_def unsigned_minus_1_eq_mask mask_eq_exp_minus_1)
qed

section \<open>Engine errors and results\<close>

text \<open>
  \<open>CspError\<close> of \<open>error.rs\<close>. The payload is the message of the source; where the source
  formats values or the text of a foreign error into it, the payload is the static part.
  Two constructors are not errors of the source: \<open>Panic\<close> is a panicking operation
  (a slice whose bounds cross) and \<open>Diverge\<close> is a recursion that never returns.
\<close>

datatype csp_error =
    ObjectNotFound string
  | Malformed string
  | Io string
  | BadSignature string
  | ChannelBinding string
  | Unauthorized string
  | FoldVerify string
  | Protocol string
  | ScopeErr string
  | ConfigErr string
  | OtherErr string
  | Panic string
  | Diverge

type_synonym 'a res = "csp_error + 'a"

abbreviation Ok :: "'a \<Rightarrow> 'e + 'a" where "Ok \<equiv> Inr"
abbreviation Err :: "'e \<Rightarrow> 'e + 'a" where "Err \<equiv> Inl"

fun rbind :: "'e + 'a \<Rightarrow> ('a \<Rightarrow> 'e + 'b) \<Rightarrow> 'e + 'b" where
  "rbind (Inl e) f = Inl e"
| "rbind (Inr x) f = f x"

fun is_ok :: "'e + 'a \<Rightarrow> bool" where
  "is_ok (Inl e) = False"
| "is_ok (Inr x) = True"

fun ok_opt :: "'e + 'a \<Rightarrow> 'a option" where
  "ok_opt (Inl e) = None"
| "ok_opt (Inr x) = Some x"

fun ok_or :: "'e \<Rightarrow> 'a option \<Rightarrow> 'e + 'a" where
  "ok_or e None = Inl e"
| "ok_or e (Some x) = Inr x"

text \<open>A loop body with an early error return, over a list of items.\<close>

fun rfold :: "('s \<Rightarrow> 'a \<Rightarrow> 'e + 's) \<Rightarrow> 's \<Rightarrow> 'a list \<Rightarrow> 'e + 's" where
  "rfold f s [] = Inr s"
| "rfold f s (x # xs) = rbind (f s x) (\<lambda>s'. rfold f s' xs)"

text \<open>Collecting an iterator of results into a result of a list.\<close>

fun rmap :: "('a \<Rightarrow> 'e + 'b) \<Rightarrow> 'a list \<Rightarrow> 'e + 'b list" where
  "rmap f [] = Inr []"
| "rmap f (x # xs) = rbind (f x) (\<lambda>y. rbind (rmap f xs) (\<lambda>ys. Inr (y # ys)))"

lemma rbind_Inr_iff [res_simps]:
  "(rbind m f = Inr y) = (\<exists>x. m = Inr x \<and> f x = Inr y)"
  by (cases m) auto

lemma rbind_Inl_iff [res_simps]:
  "(rbind m f = Inl e) = (m = Inl e \<or> (\<exists>x. m = Inr x \<and> f x = Inl e))"
  by (cases m) auto

lemma rbind_assoc [simp]: "rbind (rbind m f) g = rbind m (\<lambda>x. rbind (f x) g)"
  by (cases m) auto

lemma rbind_return [simp]: "rbind m Inr = m"
  by (cases m) auto

lemma rbind_cong [fundef_cong]:
  "m = m' \<Longrightarrow> (\<And>x. m' = Inr x \<Longrightarrow> f x = f' x) \<Longrightarrow> rbind m f = rbind m' f'"
  by (cases m') auto

lemma rfold_cong [fundef_cong]:
  "s = s' \<Longrightarrow> xs = ys \<Longrightarrow> (\<And>a x. x \<in> set ys \<Longrightarrow> f a x = g a x) \<Longrightarrow> rfold f s xs = rfold g s' ys"
proof (induction ys arbitrary: s s' xs)
  case Nil
  then show ?case by simp
next
  case (Cons y ys)
  have "f s y = g s y" using Cons.prems(3) by simp
  moreover have "rfold f t ys = rfold g t ys" for t
    using Cons.IH [of t t ys] Cons.prems(3) by simp
  ultimately show ?case using Cons.prems(1,2) by simp
qed

lemma rmap_cong [fundef_cong]:
  "xs = ys \<Longrightarrow> (\<And>x. x \<in> set ys \<Longrightarrow> f x = g x) \<Longrightarrow> rmap f xs = rmap g ys"
proof -
  assume "xs = ys" and eq: "\<And>x. x \<in> set ys \<Longrightarrow> f x = g x"
  have "set zs \<subseteq> set ys \<Longrightarrow> rmap f zs = rmap g zs" for zs
  proof (induction zs)
    case Nil
    then show ?case by simp
  next
    case (Cons z zs)
    from Cons.prems have "z \<in> set ys" and sub: "set zs \<subseteq> set ys" by auto
    then have "f z = g z" by (intro eq)
    moreover have "rmap f zs = rmap g zs" using sub by (rule Cons.IH)
    ultimately show ?case by (simp only: rmap.simps)
  qed
  from this [of ys] \<open>xs = ys\<close> show ?thesis by (simp only: subset_refl)
qed

lemma rfold_append: "rfold f s (xs @ ys) = rbind (rfold f s xs) (\<lambda>t. rfold f t ys)"
  by (induction xs arbitrary: s) auto

lemma rmap_append:
  "rmap f (xs @ ys) = rbind (rmap f xs) (\<lambda>a. rbind (rmap f ys) (\<lambda>b. Inr (a @ b)))"
  by (induction xs) auto

lemma rmap_Inr_iff: "(rmap f xs = Inr ys) = (map f xs = map Inr ys)"
  by (induction xs arbitrary: ys) (auto simp: res_simps Cons_eq_map_conv)

lemma rmap_length: "rmap f xs = Inr ys \<Longrightarrow> length ys = length xs"
  by (metis length_map rmap_Inr_iff)

lemma rmap_all_ok: "(\<And>x. x \<in> set xs \<Longrightarrow> f x = Inr (g x)) \<Longrightarrow> rmap f xs = Inr (map g xs)"
  by (simp add: rmap_Inr_iff)

lemma rfold_invariant:
  assumes "rfold f s xs = Inr t" and "I s"
    and "\<And>s x s'. I s \<Longrightarrow> x \<in> set xs \<Longrightarrow> f s x = Inr s' \<Longrightarrow> I s'"
  shows "I t"
  using assms
proof (induction xs arbitrary: s)
  case Nil
  then show ?case by simp
next
  case (Cons x xs)
  from Cons.prems(1) obtain s' where "f s x = Inr s'" and "rfold f s' xs = Inr t"
    by (auto simp: res_simps)
  moreover have "I s'"
    by (rule Cons.prems(3) [OF Cons.prems(2) _ \<open>f s x = Inr s'\<close>]) simp
  ultimately show ?case
  proof (intro Cons.IH [of s'])
    fix a y a' assume "I a" "y \<in> set xs" "f a y = Inr a'"
    then show "I a'" by (intro Cons.prems(3) [of a y a']) simp_all
  qed
qed

section \<open>Stateful fallible calls\<close>

text \<open>
  A method on \<open>&mut self\<close> that returns a result: the state it leaves behind is returned
  with the error as well, since an early \<open>?\<close> keeps the writes already made.
\<close>

type_synonym ('s, 'a) seff = "'s \<Rightarrow> 's \<times> 'a res"

definition sbind :: "('s, 'a) seff \<Rightarrow> ('a \<Rightarrow> ('s, 'b) seff) \<Rightarrow> ('s, 'b) seff" where
  "sbind m f s = (case m s of (t, Inl e) \<Rightarrow> (t, Inl e) | (t, Inr x) \<Rightarrow> f x t)"

definition sret :: "'a \<Rightarrow> ('s, 'a) seff" where
  "sret x s = (s, Inr x)"

definition sread :: "('s \<Rightarrow> 'a res) \<Rightarrow> ('s, 'a) seff" where
  "sread f s = (s, f s)"

definition smodify :: "('s \<Rightarrow> 's) \<Rightarrow> ('s, unit) seff" where
  "smodify f s = (f s, Inr ())"

fun smapM :: "('a \<Rightarrow> ('s, unit) seff) \<Rightarrow> 'a list \<Rightarrow> ('s, unit) seff" where
  "smapM f [] = sret ()"
| "smapM f (x # xs) = sbind (f x) (\<lambda>_. smapM f xs)"

lemma sret_apply [simp]: "sret x s = (s, Inr x)"
  by (simp add: sret_def)

lemma sread_apply [simp]: "sread f s = (s, f s)"
  by (simp add: sread_def)

lemma smodify_apply [simp]: "smodify f s = (f s, Inr ())"
  by (simp add: smodify_def)

lemma sbind_apply: "m s = (t, Inr x) \<Longrightarrow> sbind m f s = f x t"
  by (simp add: sbind_def)

lemma sbind_error: "m s = (t, Inl e) \<Longrightarrow> sbind m f s = (t, Inl e)"
  by (simp add: sbind_def)

lemma sbind_cong [fundef_cong]:
  "s = s' \<Longrightarrow> m s' = m' s' \<Longrightarrow> (\<And>x t. m' s' = (t, Inr x) \<Longrightarrow> f x t = f' x t)
   \<Longrightarrow> sbind m f s = sbind m' f' s'"
  by (auto simp: sbind_def split: prod.splits sum.splits)

lemma sbind_Ok_iff:
  "(sbind m f s = (u, Inr y)) = (\<exists>t x. m s = (t, Inr x) \<and> f x t = (u, Inr y))"
  by (auto simp: sbind_def split: prod.splits sum.splits)

text \<open>What every run, failing or not, preserves.\<close>

definition keeps :: "('s \<Rightarrow> 's \<Rightarrow> bool) \<Rightarrow> ('s, 'a) seff \<Rightarrow> bool" where
  "keeps R m \<longleftrightarrow> (\<forall>s. R s (fst (m s)))"

lemma keepsD: "keeps R m \<Longrightarrow> R s (fst (m s))"
  by (simp add: keeps_def)

lemma keeps_sret: "reflp R \<Longrightarrow> keeps R (sret x)"
  by (simp add: keeps_def reflpD)

lemma keeps_sread: "reflp R \<Longrightarrow> keeps R (sread f)"
  by (simp add: keeps_def reflpD)

lemma keeps_sbind:
  assumes "transp R" and "keeps R m" and "\<And>x. keeps R (f x)"
  shows "keeps R (sbind m f)"
  unfolding keeps_def
proof
  fix s
  obtain t r where m: "m s = (t, r)" by fastforce
  then have "R s t" using assms(2) by (metis fst_conv keeps_def)
  then show "R s (fst (sbind m f s))"
    using m assms(1,3) by (cases r) (auto simp: sbind_def keeps_def dest: transpD)
qed

lemma keeps_smapM:
  assumes "reflp R" and "transp R" and "\<And>x. x \<in> set xs \<Longrightarrow> keeps R (f x)"
  shows "keeps R (smapM f xs)"
  using assms by (induction xs) (auto intro: keeps_sret keeps_sbind)

lemma smapM_cong [fundef_cong]:
  assumes "s = s'" and "xs = ys" and "\<And>x t. x \<in> set ys \<Longrightarrow> f x t = g x t"
  shows "smapM f xs s = smapM g ys s'"
proof -
  have "set zs \<subseteq> set ys \<Longrightarrow> smapM f zs t = smapM g zs t" for zs t
  proof (induction zs arbitrary: t)
    case Nil
    then show ?case by simp
  next
    case (Cons z zs)
    then have "f z u = g z u" and "smapM f zs u = smapM g zs u" for u
      using assms(3) by simp_all
    then show ?case by (simp add: sbind_def split: prod.splits sum.splits)
  qed
  then show ?thesis using assms(1,2) by simp
qed

lemma smapM_Ok_Cons:
  "(smapM f (x # xs) s = (u, Inr r)) = (\<exists>t. f x s = (t, Inr ()) \<and> smapM f xs t = (u, Inr r))"
  by (simp add: sbind_Ok_iff)

text \<open>A sequence of state changes that all go in one direction.\<close>

lemma keepsD2: "keeps R m \<Longrightarrow> m s = (t, r) \<Longrightarrow> R s t"
  by (metis fst_conv keepsD)

text \<open>Running a call on one component of a larger state.\<close>

definition on_fst :: "('s, 'a) seff \<Rightarrow> ('s \<times> 'r, 'a) seff" where
  "on_fst m st = (case m (fst st) of (s, r) \<Rightarrow> ((s, snd st), r))"

end
