(* ===== verification/Rust_Str.thy ===== *)
theory Rust_Str
  imports Prelude
begin

text \<open>
  The string functions of the Rust standard library that the engine uses. A Rust
  \<open>String\<close> is its UTF-8 byte sequence and a \<open>Vec<u8>\<close> is a byte sequence, so both are
  HOL strings (lists of 8-bit characters) and \<open>as_bytes\<close> is the identity. A Rust \<open>char\<close>
  is the byte string of one code point; \<open>str_chars\<close> is the \<open>chars()\<close> iterator.
\<close>

type_synonym bytes = string
type_synonym uchar = string

named_theorems str_simps \<open>evaluation of string functions on separators\<close>

abbreviation byte :: "char \<Rightarrow> nat" where "byte c \<equiv> of_char c"
abbreviation nl :: char where "nl \<equiv> CHR 0x0A"
abbreviation cr :: char where "cr \<equiv> CHR 0x0D"
abbreviation nul :: char where "nul \<equiv> CHR 0x00"

definition is_ascii_char :: "char \<Rightarrow> bool" where
  "is_ascii_char c = (byte c < 128)"

abbreviation is_ascii :: "string \<Rightarrow> bool" where
  "is_ascii s \<equiv> list_all is_ascii_char s"

section \<open>UTF-8\<close>

definition cont :: "char \<Rightarrow> bool" where
  "cont c = (128 \<le> byte c \<and> byte c < 192)"

text \<open>Which second bytes may follow a first byte of a three- or four-byte sequence.\<close>

definition second_ok :: "nat \<Rightarrow> char \<Rightarrow> bool" where
  "second_ok b d =
     (cont d \<and>
      (b = 224 \<longrightarrow> 160 \<le> byte d) \<and> (b = 237 \<longrightarrow> byte d < 160) \<and>
      (b = 240 \<longrightarrow> 144 \<le> byte d) \<and> (b = 244 \<longrightarrow> byte d < 144))"

text \<open>
  One step of the decoder: whether the next sequence is well formed, and its length (of
  the maximal well-formed prefix when it is not, as \<open>from_utf8_lossy\<close> skips it).
\<close>

fun utf8_next :: "string \<Rightarrow> bool \<times> nat" where
  "utf8_next [] = (True, 0)"
| "utf8_next (c # s) =
     (let b = byte c in
      if b < 128 then (True, 1)
      else if 194 \<le> b \<and> b < 224 then
        (case s of [] \<Rightarrow> (False, 1) | d # _ \<Rightarrow> if cont d then (True, 2) else (False, 1))
      else if 224 \<le> b \<and> b < 240 then
        (case s of [] \<Rightarrow> (False, 1)
         | d # s2 \<Rightarrow>
             if second_ok b d then
               (case s2 of [] \<Rightarrow> (False, 2) | e # _ \<Rightarrow> if cont e then (True, 3) else (False, 2))
             else (False, 1))
      else if 240 \<le> b \<and> b < 245 then
        (case s of [] \<Rightarrow> (False, 1)
         | d # s2 \<Rightarrow>
             if second_ok b d then
               (case s2 of [] \<Rightarrow> (False, 2)
                | e # s3 \<Rightarrow>
                    if cont e then
                      (case s3 of [] \<Rightarrow> (False, 3)
                       | f # _ \<Rightarrow> if cont f then (True, 4) else (False, 3))
                    else (False, 2))
             else (False, 1))
      else (False, 1))"

fun str_chars :: "string \<Rightarrow> uchar list" where
  "str_chars [] = []"
| "str_chars (c # s) =
     (let n = snd (utf8_next (c # s)) - 1 in (c # take n s) # str_chars (drop n s))"

fun from_utf8_ok :: "bytes \<Rightarrow> bool" where
  "from_utf8_ok [] = True"
| "from_utf8_ok (c # s) =
     (case utf8_next (c # s) of (ok, n) \<Rightarrow> ok \<and> from_utf8_ok (drop (n - 1) s))"

definition replacement :: string where
  "replacement = [CHR 0xEF, CHR 0xBF, CHR 0xBD]"

fun from_utf8_lossy :: "bytes \<Rightarrow> string" where
  "from_utf8_lossy [] = []"
| "from_utf8_lossy (c # s) =
     (case utf8_next (c # s) of
        (ok, n) \<Rightarrow> (if ok then c # take (n - 1) s else replacement) @ from_utf8_lossy (drop (n - 1) s))"

declare utf8_next.simps(2) [simp del]

lemma utf8_next_ascii: "is_ascii_char c \<Longrightarrow> utf8_next (c # s) = (True, 1)"
  by (simp add: utf8_next.simps is_ascii_char_def)

lemma utf8_next_bounds:
  "snd (utf8_next (c # s)) \<ge> 1 \<and> snd (utf8_next (c # s)) \<le> Suc (length s)"
  by (auto simp: utf8_next.simps Let_def split: list.splits)

lemma not_cont_ascii: "is_ascii_char c \<Longrightarrow> \<not> cont c"
  by (simp add: cont_def is_ascii_char_def)

lemma not_second_ascii: "is_ascii_char c \<Longrightarrow> \<not> second_ok b c"
  by (simp add: second_ok_def not_cont_ascii)

text \<open>An ASCII byte ends whatever precedes it: decoding splits there.\<close>

lemma utf8_next_append_ascii:
  "is_ascii_char a \<Longrightarrow> s \<noteq> [] \<Longrightarrow> utf8_next (s @ a # t) = utf8_next s"
  by (cases s)
    (auto simp: utf8_next.simps Let_def not_cont_ascii not_second_ascii Cons_eq_append_conv
       append_eq_Cons_conv split: list.splits)

lemma str_chars_append_ascii:
  "is_ascii_char a \<Longrightarrow> str_chars (s @ a # t) = str_chars s @ [a] # str_chars t"
proof (induction s rule: str_chars.induct)
  case 1
  then show ?case by (simp add: utf8_next_ascii)
next
  case (2 c s)
  let ?n = "snd (utf8_next (c # s)) - 1"
  have "utf8_next (c # s @ a # t) = utf8_next (c # s)"
    using utf8_next_append_ascii [of a "c # s" t] 2 by simp
  moreover have "?n \<le> length s" using utf8_next_bounds [of c s] by linarith
  ultimately show ?case using 2 by (simp add: Let_def)
qed

lemma from_utf8_ok_append_ascii:
  "is_ascii_char a \<Longrightarrow> from_utf8_ok (s @ a # t) = (from_utf8_ok s \<and> from_utf8_ok t)"
proof (induction s rule: from_utf8_ok.induct)
  case 1
  then show ?case by (simp add: utf8_next_ascii)
next
  case (2 c s)
  obtain ok n where u: "utf8_next (c # s) = (ok, n)" by fastforce
  have "utf8_next (c # s @ a # t) = (ok, n)"
    using utf8_next_append_ascii [of a "c # s" t] 2 u by simp
  moreover have "n - 1 \<le> length s" using utf8_next_bounds [of c s] u
    by (metis One_nat_def Suc_le_mono Suc_pred less_eq_Suc_le snd_conv)
  ultimately show ?case using 2 u by auto
qed

lemma from_utf8_lossy_id: "from_utf8_ok s \<Longrightarrow> from_utf8_lossy s = s"
  by (induction s rule: from_utf8_ok.induct) (auto split: prod.splits)

lemma from_utf8_ok_Cons_ascii:
  "is_ascii_char a \<Longrightarrow> from_utf8_ok (a # t) = from_utf8_ok t"
  using from_utf8_ok_append_ascii [of a "[]" t] by simp

lemma from_utf8_ok_ascii: "is_ascii s \<Longrightarrow> from_utf8_ok s"
  by (induction s) (simp_all add: from_utf8_ok_Cons_ascii del: from_utf8_ok.simps(2))

lemma from_utf8_ok_ascii_append:
  "is_ascii s \<Longrightarrow> from_utf8_ok (s @ t) = from_utf8_ok t"
  by (induction s) (simp_all add: from_utf8_ok_Cons_ascii del: from_utf8_ok.simps(2))

lemma str_chars_ascii: "is_ascii s \<Longrightarrow> str_chars s = map (\<lambda>c. [c]) s"
proof (induction s)
  case Nil
  then show ?case by simp
next
  case (Cons c s)
  then show ?case using str_chars_append_ascii [of c "[]" s] by simp
qed

lemma concat_str_chars [simp]: "concat (str_chars s) = s"
  by (induction s rule: str_chars.induct) (auto simp: Let_def)

lemma str_chars_eq_Nil [simp]: "str_chars s = [] \<longleftrightarrow> s = []"
  by (cases s) (auto simp: Let_def)

section \<open>White space, trimming and words\<close>

text \<open>The code points with the Unicode property \<open>White_Space\<close>, as UTF-8.\<close>

definition ws_chars :: "uchar list" where
  "ws_chars =
     [[CHR 0x09], [CHR 0x0A], [CHR 0x0B], [CHR 0x0C], [CHR 0x0D], '' '',
      [CHR 0xC2, CHR 0x85], [CHR 0xC2, CHR 0xA0], [CHR 0xE1, CHR 0x9A, CHR 0x80],
      [CHR 0xE2, CHR 0x80, CHR 0x80], [CHR 0xE2, CHR 0x80, CHR 0x81],
      [CHR 0xE2, CHR 0x80, CHR 0x82], [CHR 0xE2, CHR 0x80, CHR 0x83],
      [CHR 0xE2, CHR 0x80, CHR 0x84], [CHR 0xE2, CHR 0x80, CHR 0x85],
      [CHR 0xE2, CHR 0x80, CHR 0x86], [CHR 0xE2, CHR 0x80, CHR 0x87],
      [CHR 0xE2, CHR 0x80, CHR 0x88], [CHR 0xE2, CHR 0x80, CHR 0x89],
      [CHR 0xE2, CHR 0x80, CHR 0x8A], [CHR 0xE2, CHR 0x80, CHR 0xA8],
      [CHR 0xE2, CHR 0x80, CHR 0xA9], [CHR 0xE2, CHR 0x80, CHR 0xAF],
      [CHR 0xE2, CHR 0x81, CHR 0x9F], [CHR 0xE3, CHR 0x80, CHR 0x80]]"

definition is_ws :: "uchar \<Rightarrow> bool" where
  "is_ws u = (u \<in> set ws_chars)"

definition str_trim_start :: "string \<Rightarrow> string" where
  "str_trim_start s = concat (dropWhile is_ws (str_chars s))"

definition str_trim :: "string \<Rightarrow> string" where
  "str_trim s = concat (rev (dropWhile is_ws (rev (dropWhile is_ws (str_chars s)))))"

text \<open>\<open>trim_end_matches(c)\<close> and \<open>trim_start_matches(c)\<close> for one ASCII character.\<close>

definition trim_end_char :: "char \<Rightarrow> string \<Rightarrow> string" where
  "trim_end_char c s = rev (dropWhile (\<lambda>x. x = c) (rev s))"

definition trim_start_char :: "char \<Rightarrow> string \<Rightarrow> string" where
  "trim_start_char c s = dropWhile (\<lambda>x. x = c) s"

fun words_of :: "uchar list \<Rightarrow> string \<Rightarrow> string list" where
  "words_of [] acc = (if acc = [] then [] else [acc])"
| "words_of (u # us) acc =
     (if is_ws u then (if acc = [] then words_of us [] else acc # words_of us [])
      else words_of us (acc @ u))"

definition split_whitespace :: "string \<Rightarrow> string list" where
  "split_whitespace s = words_of (str_chars s) []"

definition solid :: "char \<Rightarrow> bool" where
  "solid c = (is_ascii_char c \<and> c \<notin> set [CHR 0x09, CHR 0x0A, CHR 0x0B, CHR 0x0C, CHR 0x0D, CHR '' ''])"

lemma is_ws_single: "is_ascii_char c \<Longrightarrow> is_ws [c] \<longleftrightarrow> \<not> solid c"
  by (auto simp: is_ws_def ws_chars_def solid_def)

lemma solid_ascii: "solid c \<Longrightarrow> is_ascii_char c"
  by (simp add: solid_def)

lemma str_trim_solid:
  assumes "solid a" and "solid z"
  shows "str_trim (a # s @ [z]) = a # s @ [z]"
proof -
  have "str_chars (a # s @ [z]) = [a] # str_chars s @ [[z]]"
    using assms solid_ascii str_chars_append_ascii [of a "[]" "s @ [z]"]
      str_chars_append_ascii [of z s "[]"] by simp
  then show ?thesis
    using assms by (simp add: str_trim_def is_ws_single solid_ascii)
qed

lemma str_trim_Nil [simp]: "str_trim [] = []"
  by (simp add: str_trim_def)

lemma str_trim_solid1: "solid a \<Longrightarrow> str_trim [a] = [a]"
  using str_chars_append_ascii [of a "[]" "[]"]
  by (simp add: str_trim_def is_ws_single solid_ascii)

lemma words_of_solid:
  "list_all solid w \<Longrightarrow> words_of (map (\<lambda>c. [c]) w @ us) acc = words_of us (acc @ w)"
  by (induction w arbitrary: acc) (auto simp: is_ws_single solid_ascii)

section \<open>Prefixes, splitting and joining\<close>

fun strip_prefix :: "string \<Rightarrow> string \<Rightarrow> string option" where
  "strip_prefix [] s = Some s"
| "strip_prefix (p # ps) [] = None"
| "strip_prefix (p # ps) (x # xs) = (if p = x then strip_prefix ps xs else None)"

definition strip_suffix :: "string \<Rightarrow> string \<Rightarrow> string option" where
  "strip_suffix p s = map_option rev (strip_prefix (rev p) (rev s))"

definition starts_with :: "string \<Rightarrow> string \<Rightarrow> bool" where
  "starts_with p s = (strip_prefix p s \<noteq> None)"

definition ends_with :: "string \<Rightarrow> string \<Rightarrow> bool" where
  "ends_with p s = (strip_suffix p s \<noteq> None)"

fun str_contains :: "string \<Rightarrow> string \<Rightarrow> bool" where
  "str_contains p [] = (p = [])"
| "str_contains p (x # xs) = (starts_with p (x # xs) \<or> str_contains p xs)"

fun str_find :: "char \<Rightarrow> string \<Rightarrow> nat option" where
  "str_find c [] = None"
| "str_find c (x # xs) = (if x = c then Some 0 else map_option Suc (str_find c xs))"

fun str_split :: "char \<Rightarrow> string \<Rightarrow> string list" where
  "str_split c [] = [[]]"
| "str_split c (x # xs) =
     (if x = c then [] # str_split c xs
      else (case str_split c xs of [] \<Rightarrow> [[x]] | w # ws \<Rightarrow> (x # w) # ws))"

definition split_once :: "char \<Rightarrow> string \<Rightarrow> (string \<times> string) option" where
  "split_once c s = map_option (\<lambda>i. (take i s, drop (Suc i) s)) (str_find c s)"

definition rsplit_once :: "char \<Rightarrow> string \<Rightarrow> (string \<times> string) option" where
  "rsplit_once c s = map_option (\<lambda>(a, b). (rev b, rev a)) (split_once c (rev s))"

fun str_join :: "string \<Rightarrow> string list \<Rightarrow> string" where
  "str_join sep [] = []"
| "str_join sep [w] = w"
| "str_join sep (w # ws) = w @ sep @ str_join sep ws"

definition strip_cr :: "string \<Rightarrow> string" where
  "strip_cr s = (case strip_suffix [cr] s of None \<Rightarrow> s | Some t \<Rightarrow> t)"

text \<open>\<open>lines()\<close>: an ended line loses one trailing carriage return, a final unended one does not.\<close>

definition str_lines :: "string \<Rightarrow> string list" where
  "str_lines s =
     (let ps = str_split nl s
      in map strip_cr (butlast ps) @ (if last ps = [] then [] else [last ps]))"

lemma strip_prefix_Some: "strip_prefix p s = Some t \<longleftrightarrow> s = p @ t"
  by (induction p s rule: strip_prefix.induct) auto

lemma strip_prefix_append [simp]: "strip_prefix p (p @ t) = Some t"
  by (simp add: strip_prefix_Some)

lemma starts_with_iff: "starts_with p s \<longleftrightarrow> (\<exists>t. s = p @ t)"
  unfolding starts_with_def by (metis not_None_eq strip_prefix_Some)

lemma strip_suffix_Some: "strip_suffix p s = Some t \<longleftrightarrow> s = t @ p"
  by (auto simp: strip_suffix_def strip_prefix_Some) (metis rev_append rev_rev_ident)+

lemma ends_with_iff: "ends_with p s \<longleftrightarrow> (\<exists>t. s = t @ p)"
  unfolding ends_with_def by (metis not_None_eq strip_suffix_Some)

lemma str_find_Some: "str_find c s = Some i \<longleftrightarrow> i < length s \<and> s ! i = c \<and> c \<notin> set (take i s)"
proof (induction s arbitrary: i)
  case Nil
  then show ?case by simp
next
  case (Cons x s)
  then show ?case by (cases i) auto
qed

lemma str_find_None: "str_find c s = None \<longleftrightarrow> c \<notin> set s"
  by (induction s) auto

lemma str_find_append: "c \<notin> set s \<Longrightarrow> str_find c (s @ c # t) = Some (length s)"
  by (simp add: str_find_Some)

lemma str_split_not_Nil [simp]: "str_split c s \<noteq> []"
  by (cases s) (auto split: list.splits)

lemma str_split_append: "c \<notin> set w \<Longrightarrow> str_split c (w @ c # s) = w # str_split c s"
  by (induction w) (auto split: list.splits)

lemma str_split_no_sep: "c \<notin> set w \<Longrightarrow> str_split c w = [w]"
  by (induction w) auto

lemma str_join_Cons: "ws \<noteq> [] \<Longrightarrow> str_join sep (w # ws) = w @ sep @ str_join sep ws"
  by (cases ws) auto

lemma str_join_split [simp]: "str_join [c] (str_split c s) = s"
proof (induction s)
  case Nil
  then show ?case by simp
next
  case (Cons x s)
  obtain w ws where "str_split c s = w # ws" by (meson list.exhaust str_split_not_Nil)
  with Cons show ?case by (cases ws) auto
qed

lemma str_split_join:
  "ws \<noteq> [] \<Longrightarrow> (\<And>w. w \<in> set ws \<Longrightarrow> c \<notin> set w) \<Longrightarrow> str_split c (str_join [c] ws) = ws"
  by (induction ws rule: list_nonempty_induct)
    (auto simp: str_split_no_sep str_join_Cons str_split_append)

lemma str_split_pieces: "w \<in> set (str_split c s) \<Longrightarrow> c \<notin> set w"
proof (induction s arbitrary: w)
  case Nil
  then show ?case by simp
next
  case (Cons x s)
  obtain v vs where "str_split c s = v # vs" by (meson list.exhaust str_split_not_Nil)
  with Cons show ?case by (auto split: if_splits)
qed

lemma strip_cr_id: "s = [] \<or> last s \<noteq> cr \<Longrightarrow> strip_cr s = s"
  by (auto simp: strip_cr_def split: option.splits simp: strip_suffix_Some)

lemma str_lines_Nil [simp]: "str_lines [] = []"
  by (simp add: str_lines_def)

lemma str_lines_Cons:
  "nl \<notin> set w \<Longrightarrow> str_lines (w @ nl # s) = strip_cr w # str_lines s"
  by (simp add: str_lines_def str_split_append Let_def)

lemma str_lines_last: "nl \<notin> set w \<Longrightarrow> w \<noteq> [] \<Longrightarrow> str_lines w = [w]"
  by (simp add: str_lines_def str_split_no_sep)

section \<open>Numbers\<close>

definition is_digit :: "char \<Rightarrow> bool" where
  "is_digit c = (48 \<le> byte c \<and> byte c \<le> 57)"

definition digits_val :: "string \<Rightarrow> nat" where
  "digits_val s = foldl (\<lambda>a c. a * 10 + (byte c - 48)) 0 s"

fun dec :: "nat \<Rightarrow> string" where
  "dec n = (if n < 10 then [char_of (48 + n)] else dec (n div 10) @ [char_of (48 + n mod 10)])"

declare dec.simps [simp del]

text \<open>\<open>format!\<close> with zero padding to a width.\<close>

definition dec_pad :: "nat \<Rightarrow> nat \<Rightarrow> string" where
  "dec_pad w n = replicate (w - length (dec n)) (CHR ''0'') @ dec n"

definition strip_plus :: "string \<Rightarrow> string" where
  "strip_plus s = (case s of [] \<Rightarrow> [] | c # t \<Rightarrow> if c = CHR ''+'' then t else s)"

definition parse_u64 :: "string \<Rightarrow> u64 option" where
  "parse_u64 s =
     (let d = strip_plus s
      in if d \<noteq> [] \<and> list_all is_digit d \<and> digits_val d < 2 ^ 64
         then Some (of_nat (digits_val d)) else None)"

definition parse_i64 :: "string \<Rightarrow> int option" where
  "parse_i64 s =
     (case s of
        [] \<Rightarrow> None
      | c # t \<Rightarrow>
          (let d = (if c = CHR ''-'' then t else strip_plus s);
               v = int (digits_val d); r = (if c = CHR ''-'' then - v else v)
           in if d \<noteq> [] \<and> list_all is_digit d \<and> - (2 ^ 63) \<le> r \<and> r < 2 ^ 63
              then Some r else None))"

definition hex_val :: "char \<Rightarrow> nat option" where
  "hex_val c =
     (if is_digit c then Some (byte c - 48)
      else if 97 \<le> byte c \<and> byte c \<le> 102 then Some (byte c - 87)
      else if 65 \<le> byte c \<and> byte c \<le> 70 then Some (byte c - 55)
      else None)"

text \<open>\<open>from_str_radix(_, 16)\<close> into an unsigned integer below a bound.\<close>

definition parse_radix16 :: "nat \<Rightarrow> string \<Rightarrow> nat option" where
  "parse_radix16 bound s =
     (let d = strip_plus s; v = foldl (\<lambda>a c. a * 16 + (case hex_val c of None \<Rightarrow> 0 | Some d \<Rightarrow> d)) 0 d
      in if d \<noteq> [] \<and> list_all (\<lambda>c. hex_val c \<noteq> None) d \<and> v < bound then Some v else None)"

definition ascii_lower :: "char \<Rightarrow> char" where
  "ascii_lower c = (if 65 \<le> byte c \<and> byte c \<le> 90 then char_of (byte c + 32) else c)"

abbreviation to_ascii_lowercase :: "string \<Rightarrow> string" where
  "to_ascii_lowercase \<equiv> map ascii_lower"

lemma digits_val_append: "digits_val (s @ [c]) = digits_val s * 10 + (byte c - 48)"
  by (simp add: digits_val_def)

lemma byte_digit: "n < 10 \<Longrightarrow> byte (char_of (48 + n)) = 48 + n"
  by simp

lemma dec_digits: "list_all is_digit (dec n)"
proof (induction n rule: dec.induct)
  case (1 n)
  have "n mod 10 < 10" by simp
  with 1 show ?case
    by (cases "n < 10") (simp_all add: dec.simps [of n] is_digit_def byte_digit)
qed

lemma dec_not_Nil [simp]: "dec n \<noteq> []"
  by (simp add: dec.simps [of n])

lemma digits_val_dec: "digits_val (dec n) = n"
proof (induction n rule: dec.induct)
  case (1 n)
  show ?case
  proof (cases "n < 10")
    case True
    then show ?thesis by (simp add: dec.simps [of n] digits_val_def byte_digit)
  next
    case False
    then show ?thesis
      using 1 byte_digit [of "n mod 10"]
      by (simp add: dec.simps [of n] digits_val_append)
  qed
qed

lemma digit_solid: "is_digit c \<Longrightarrow> solid c \<and> c \<noteq> CHR ''+'' \<and> c \<noteq> CHR ''-'' \<and> c \<noteq> nl"
  by (auto simp: is_digit_def solid_def is_ascii_char_def)

lemma strip_plus_digits: "list_all is_digit d \<Longrightarrow> strip_plus d = d"
  by (cases d) (auto simp: strip_plus_def dest: digit_solid)

lemma parse_u64_digits:
  "list_all is_digit d \<Longrightarrow> d \<noteq> [] \<Longrightarrow> digits_val d < 2 ^ 64 \<Longrightarrow> parse_u64 d = Some (of_nat (digits_val d))"
  by (simp add: parse_u64_def strip_plus_digits)

lemma parse_u64_dec: "parse_u64 (dec (unat w)) = Some (w :: u64)"
proof -
  have "unat w < 2 ^ 64" by (rule unat_u64)
  then show ?thesis
    by (simp add: parse_u64_digits dec_digits digits_val_dec)
qed

lemma dec_solid: "list_all solid (dec n)"
  using dec_digits [of n] by (auto simp: list_all_iff dest: digit_solid)

lemma is_ascii_solid: "list_all solid s \<Longrightarrow> is_ascii s"
  by (auto simp: list_all_iff solid_ascii)

section \<open>Well-formed code points\<close>

definition valid_char :: "uchar \<Rightarrow> bool" where
  "valid_char u \<longleftrightarrow> u \<noteq> [] \<and> utf8_next u = (True, length u)"

lemma valid_ascii: "is_ascii_char c \<Longrightarrow> valid_char [c]"
  by (simp add: valid_char_def utf8_next_ascii)

lemma valid_char_append:
  assumes "valid_char u"
  shows "utf8_next (u @ t) = (True, length u)"
proof -
  obtain c s where "u = c # s" using assms by (cases u) (auto simp: valid_char_def)
  with assms show ?thesis
    by (auto simp: valid_char_def utf8_next.simps Let_def split: list.splits if_splits)
qed

lemma str_chars_valid: "valid_char u \<Longrightarrow> str_chars (u @ t) = u # str_chars t"
  using valid_char_append [of u t] by (cases u) (auto simp: valid_char_def)

lemma str_chars_concat:
  "list_all valid_char us \<Longrightarrow> str_chars (concat us @ t) = us @ str_chars t"
  by (induction us) (simp_all add: str_chars_valid)

lemma utf8_next_take:
  "utf8_next (c # s) = (True, n) \<Longrightarrow> valid_char (take n (c # s)) \<and> length (take n (c # s)) = n"
  by (auto simp: valid_char_def utf8_next.simps Let_def split: list.splits if_splits)

lemma from_utf8_ok_chars: "from_utf8_ok s \<Longrightarrow> list_all valid_char (str_chars s)"
proof (induction s rule: from_utf8_ok.induct)
  case 1
  then show ?case by simp
next
  case (2 c s)
  obtain n where n: "utf8_next (c # s) = (True, n)"
    using 2(2) by (cases "utf8_next (c # s)") auto
  have "n \<ge> 1" using utf8_next_bounds [of c s] n by simp
  then have "take n (c # s) = c # take (n - 1) s" by (cases n) auto
  with utf8_next_take [OF n] have "valid_char (c # take (n - 1) s)" by simp
  moreover have "list_all valid_char (str_chars (drop (n - 1) s))"
    using 2(1) [OF n [symmetric]] 2(2) n by simp
  ultimately show ?case using n by (simp add: Let_def)
qed

lemma valid_char_cases:
  assumes "valid_char u"
  obtains c where "u = [c]" and "is_ascii_char c"
  | "length u > 1" and "\<And>c. c \<in> set u \<Longrightarrow> \<not> is_ascii_char c"
proof (cases "length u")
  case 0
  with assms show ?thesis by (simp add: valid_char_def)
next
  case (Suc n)
  then obtain c s where u: "u = c # s" by (cases u) auto
  show ?thesis
  proof (cases "byte c < 128")
    case True
    with assms u that(1) [of c] show ?thesis
      by (auto simp: valid_char_def utf8_next.simps is_ascii_char_def)
  next
    case False
    have "length u > 1" "d \<in> set u \<Longrightarrow> \<not> is_ascii_char d" for d
      using assms u False not_cont_ascii not_second_ascii
      by (auto simp: valid_char_def utf8_next.simps Let_def is_ascii_char_def cont_def second_ok_def
          length_Suc_conv split: list.splits if_splits)
    then show ?thesis using that(2) by blast
  qed
qed

end
