(* ===== verification/Ids.thy ===== *)
theory Ids
  imports Rust_Str
begin

text \<open>
  Object ids, node ids and the strict total order on primitives (\<open>oid.rs\<close>, \<open>order.rs\<close>),
  and the parameter record for the third-party crates. An \<open>[u8; 20]\<close> or \<open>[u8; 32]\<close>
  array is a 160- or 256-bit word read big-endian: the fixed length is then part of the
  type, and the bytewise order of the arrays is the numeric order of the words.
\<close>

section \<open>Big-endian byte arrays\<close>

fun be_bytes :: "nat \<Rightarrow> nat \<Rightarrow> bytes" where
  "be_bytes 0 v = []"
| "be_bytes (Suc n) v = be_bytes n (v div 256) @ [char_of v]"

definition be_val :: "bytes \<Rightarrow> nat" where
  "be_val s = foldl (\<lambda>a c. a * 256 + byte c) 0 s"

lemma length_be_bytes [simp]: "length (be_bytes n v) = n"
  by (induction n arbitrary: v) auto

lemma be_val_snoc: "be_val (s @ [c]) = be_val s * 256 + byte c"
  by (simp add: be_val_def)

lemma be_val_bytes: "be_val (be_bytes n v) = v mod 256 ^ n"
proof (induction n arbitrary: v)
  case 0
  then show ?case by (simp add: be_val_def)
next
  case (Suc n)
  have "v mod 256 ^ Suc n = (v div 256 mod 256 ^ n) * 256 + v mod 256"
    by (simp add: mod_mult2_eq mult.commute)
  with Suc show ?case by (simp add: be_val_snoc)
qed

lemma byte_less: "byte c < 256"
  by (metis mod_less_divisor of_char_mod_256 zero_less_numeral)

lemma be_bytes_val: "be_bytes (length s) (be_val s) = s"
proof (induction s rule: rev_induct)
  case Nil
  then show ?case by simp
next
  case (snoc c s)
  have "char_of (be_val s * 256 + byte c) = char_of ((be_val s * 256 + byte c) mod 256)"
    by (simp only: char_of_mod_256)
  also have "\<dots> = c"
    by (simp del: char_of_mod_256 add: byte_less)
  finally have "char_of (be_val s * 256 + byte c) = c" .
  moreover have "(be_val s * 256 + byte c) div 256 = be_val s"
    using byte_less [of c] by simp
  ultimately show ?case using snoc by (simp add: be_val_snoc)
qed

lemma be_val_Cons: "be_val (c # s) = byte c * 256 ^ length s + be_val s"
proof (induction s rule: rev_induct)
  case Nil
  then show ?case by (simp add: be_val_def)
next
  case (snoc d s)
  have "be_val (c # s @ [d]) = be_val (c # s) * 256 + byte d"
    using be_val_snoc [of "c # s" d] by simp
  with snoc show ?case by (simp add: be_val_snoc algebra_simps)
qed

lemma be_val_less: "be_val s < 256 ^ length s"
proof (induction s rule: rev_induct)
  case Nil
  then show ?case by (simp add: be_val_def)
next
  case (snoc c s)
  have "be_val s * 256 + byte c < be_val s * 256 + 256" using byte_less [of c] by simp
  also have "\<dots> = (be_val s + 1) * 256" by simp
  also have "\<dots> \<le> 256 ^ length s * 256" using snoc by (intro mult_le_mono1) simp
  finally show ?case by (simp add: be_val_snoc mult.commute)
qed

text \<open>Comparing two arrays of one length byte by byte compares their big-endian values.\<close>

lemma be_order: "length s = length t \<Longrightarrow> s < t \<longleftrightarrow> be_val s < be_val t"
proof (induction s t rule: list_induct2)
  case Nil
  then show ?case by simp
next
  case (Cons c s d t)
  have small: "be_val s < 256 ^ length t" "be_val t < 256 ^ length t"
    using be_val_less [of s] be_val_less [of t] Cons by simp_all
  consider "byte c < byte d" | "byte c = byte d" | "byte d < byte c" by linarith
  then show ?case
  proof cases
    case 1
    then have "(byte c + 1) * 256 ^ length t \<le> byte d * 256 ^ length t"
      by (intro mult_le_mono1) simp
    then have "be_val (c # s) < be_val (d # t)"
      using small Cons(1) by (simp add: be_val_Cons)
    with 1 show ?thesis by (simp add: less_char_def)
  next
    case 2
    then have "c = d" by simp
    then show ?thesis using Cons by (simp add: be_val_Cons)
  next
    case 3
    then have "(byte d + 1) * 256 ^ length t \<le> byte c * 256 ^ length t"
      by (intro mult_le_mono1) simp
    then have "\<not> be_val (c # s) < be_val (d # t)"
      using small Cons(1) by (simp add: be_val_Cons)
    moreover have "\<not> c < d" "c \<noteq> d" using 3 by (auto simp: less_char_def)
    ultimately show ?thesis by simp
  qed
qed

section \<open>Object ids and node ids\<close>

datatype oid = Oid (oid_word: "160 word")

datatype node_id = NodeId (node_word: "256 word")

definition oid_bytes :: "oid \<Rightarrow> bytes" where
  "oid_bytes x = be_bytes 20 (unat (oid_word x))"

definition oid_of_bytes :: "bytes \<Rightarrow> oid" where
  "oid_of_bytes b = Oid (of_nat (be_val b))"

definition node_bytes :: "node_id \<Rightarrow> bytes" where
  "node_bytes n = be_bytes 32 (unat (node_word n))"

definition node_of_bytes :: "bytes \<Rightarrow> node_id" where
  "node_of_bytes b = NodeId (of_nat (be_val b))"

lemma length_oid_bytes [simp]: "length (oid_bytes x) = 20"
  by (simp add: oid_bytes_def)

lemma length_node_bytes [simp]: "length (node_bytes n) = 32"
  by (simp add: node_bytes_def)

lemma be_val_oid: "be_val (oid_bytes x) = unat (oid_word x)"
  using unsigned_less [of "oid_word x", where 'a = nat]
  by (simp add: oid_bytes_def be_val_bytes)

lemma be_val_node: "be_val (node_bytes n) = unat (node_word n)"
  using unsigned_less [of "node_word n", where 'a = nat]
  by (simp add: node_bytes_def be_val_bytes)

lemma oid_of_bytes_bytes [simp]: "oid_of_bytes (oid_bytes x) = x"
  by (simp add: oid_of_bytes_def be_val_oid)

lemma node_of_bytes_bytes [simp]: "node_of_bytes (node_bytes n) = n"
  by (simp add: node_of_bytes_def be_val_node)

lemma oid_bytes_of_bytes: "length b = 20 \<Longrightarrow> oid_bytes (oid_of_bytes b) = b"
  using be_val_less [of b] be_bytes_val [of b]
  by (simp add: oid_of_bytes_def oid_bytes_def unat_of_nat)

lemma node_bytes_of_bytes: "length b = 32 \<Longrightarrow> node_bytes (node_of_bytes b) = b"
  using be_val_less [of b] be_bytes_val [of b]
  by (simp add: node_of_bytes_def node_bytes_def unat_of_nat)

lemma oid_bytes_inj: "oid_bytes a = oid_bytes b \<longleftrightarrow> a = b"
  by (metis oid_of_bytes_bytes)

lemma node_bytes_inj: "node_bytes a = node_bytes b \<longleftrightarrow> a = b"
  by (metis node_of_bytes_bytes)

text \<open>The derived orders of the tuple structs: bytewise lexicographic.\<close>

instantiation oid :: linorder
begin

definition less_eq_oid :: "oid \<Rightarrow> oid \<Rightarrow> bool" where
  "less_eq_oid a b = (oid_bytes a \<le> oid_bytes b)"

definition less_oid :: "oid \<Rightarrow> oid \<Rightarrow> bool" where
  "less_oid a b = (oid_bytes a < oid_bytes b)"

instance
  by intro_classes
    (auto simp: less_eq_oid_def less_oid_def simp flip: oid_bytes_inj)

end

instantiation node_id :: linorder
begin

definition less_eq_node_id :: "node_id \<Rightarrow> node_id \<Rightarrow> bool" where
  "less_eq_node_id a b = (node_bytes a \<le> node_bytes b)"

definition less_node_id :: "node_id \<Rightarrow> node_id \<Rightarrow> bool" where
  "less_node_id a b = (node_bytes a < node_bytes b)"

instance
  by intro_classes
    (auto simp: less_eq_node_id_def less_node_id_def simp flip: node_bytes_inj)

end

lemma oid_less_word: "a < b \<longleftrightarrow> oid_word a < oid_word b"
  by (simp add: less_oid_def be_order be_val_oid word_less_nat_alt)

lemma node_less_word: "a < b \<longleftrightarrow> node_word a < node_word b"
  by (simp add: less_node_id_def be_order be_val_node word_less_nat_alt)

text \<open>There are finitely many object ids: the bound of every walk over the object graph.\<close>

instance oid :: finite
proof
  have "UNIV = range Oid" by (metis oid.exhaust_sel surjI surj_def)
  moreover have "finite (range Oid)" by simp
  ultimately show "finite (UNIV :: oid set)" by simp
qed

section \<open>The strict total order\<close>

datatype order_key =
  OrderKey (key_counter: u64) (key_node: node_id) (key_sha: oid)

text \<open>\<open>cmp\<close>: counter, then node bytes, then commit SHA bytes.\<close>

definition key_less :: "order_key \<Rightarrow> order_key \<Rightarrow> bool" where
  "key_less a b =
     (key_counter a < key_counter b \<or>
      key_counter a = key_counter b \<and>
        (key_node a < key_node b \<or>
         key_node a = key_node b \<and> key_sha a < key_sha b))"

definition key_less_eq :: "order_key \<Rightarrow> order_key \<Rightarrow> bool" where
  "key_less_eq a b = (key_less a b \<or> a = b)"

lemma key_less_trans: "key_less a b \<Longrightarrow> key_less b c \<Longrightarrow> key_less a c"
  unfolding key_less_def by (elim disjE conjE) (auto dest: less_trans)

lemma key_less_asym: "key_less a b \<Longrightarrow> key_less b a \<Longrightarrow> False"
  unfolding key_less_def by (elim disjE conjE) (auto dest: less_asym)

lemma key_less_linear: "key_less a b \<or> a = b \<or> key_less b a"
  unfolding key_less_def by (cases a; cases b) (auto simp: not_less_iff_gr_or_eq)

text \<open>It is the linear order of the keys.\<close>

instantiation order_key :: linorder
begin

definition less_order_key :: "order_key \<Rightarrow> order_key \<Rightarrow> bool" where
  "less_order_key = key_less"

definition less_eq_order_key :: "order_key \<Rightarrow> order_key \<Rightarrow> bool" where
  "less_eq_order_key = key_less_eq"

instance
proof
  fix a b c :: order_key
  show "(a < b) = (a \<le> b \<and> \<not> b \<le> a)"
    using key_less_asym by (auto simp: less_eq_order_key_def less_order_key_def key_less_eq_def)
  show "a \<le> a" by (simp add: less_eq_order_key_def key_less_eq_def)
  show "a \<le> b \<Longrightarrow> b \<le> c \<Longrightarrow> a \<le> c"
    using key_less_trans by (auto simp: less_eq_order_key_def key_less_eq_def)
  show "a \<le> b \<Longrightarrow> b \<le> a \<Longrightarrow> a = b"
    using key_less_asym by (auto simp: less_eq_order_key_def key_less_eq_def)
  show "a \<le> b \<or> b \<le> a"
    using key_less_linear by (auto simp: less_eq_order_key_def key_less_eq_def)
qed

end

section \<open>Third-party crates\<close>

text \<open>
  What the engine takes from crates whose source is not in the repository: \<open>sha1\<close>,
  \<open>hex\<close>, \<open>base64\<close>, \<open>flate2\<close>, \<open>ed25519_dalek\<close> and \<open>similar\<close>. Each is a field of a
  parameter record; the definitions that use one take the record as an argument. Of a
  diff operation only the equal runs are read.
\<close>

datatype diff_op = DiffEqual nat nat nat | DiffOther

record crates =
  c_sha1 :: "bytes \<Rightarrow> oid"
  c_hexenc :: "bytes \<Rightarrow> string"
  c_hexdec :: "string \<Rightarrow> bytes option"
  c_b64enc :: "bytes \<Rightarrow> string"
  c_b64dec :: "string \<Rightarrow> bytes option"
  c_deflate :: "bytes \<Rightarrow> bytes"
  c_inflate :: "bytes \<Rightarrow> bytes option"
  c_pubkey :: "bytes \<Rightarrow> node_id"
  c_sign :: "bytes \<Rightarrow> bytes \<Rightarrow> bytes"
  c_vk_ok :: "node_id \<Rightarrow> bool"
  c_sig_ok :: "bytes \<Rightarrow> bool"
  c_verify :: "node_id \<Rightarrow> bytes \<Rightarrow> bytes \<Rightarrow> bool"
  c_diff :: "string list \<Rightarrow> string list \<Rightarrow> diff_op list"

definition hex_digits :: string where
  "hex_digits = ''0123456789abcdef''"

text \<open>Documented behaviour of the crates, as named hypotheses.\<close>

definition hex_laws :: "crates \<Rightarrow> bool" where
  "hex_laws C \<longleftrightarrow>
     (\<forall>b. c_hexdec C (c_hexenc C b) = Some b \<and> set (c_hexenc C b) \<subseteq> set hex_digits
        \<and> length (c_hexenc C b) = 2 * length b)"

definition b64_digits :: string where
  "b64_digits = ''ABCDEFGHIJKLMNOPQRSTUVWXYZabcdefghijklmnopqrstuvwxyz0123456789+/=''"

definition b64_laws :: "crates \<Rightarrow> bool" where
  "b64_laws C \<longleftrightarrow>
     (\<forall>b. c_b64dec C (c_b64enc C b) = Some b \<and> set (c_b64enc C b) \<subseteq> set b64_digits
        \<and> (b \<noteq> [] \<longrightarrow> c_b64enc C b \<noteq> [])
        \<and> (length b mod 3 = 0 \<longrightarrow> CHR ''='' \<notin> set (c_b64enc C b)))"

definition zlib_laws :: "crates \<Rightarrow> bool" where
  "zlib_laws C \<longleftrightarrow> (\<forall>b. c_inflate C (c_deflate C b) = Some b)"

definition ed_laws :: "crates \<Rightarrow> bool" where
  "ed_laws C \<longleftrightarrow>
     (\<forall>k m. c_vk_ok C (c_pubkey C k) \<and> c_sig_ok C (c_sign C k m)
        \<and> length (c_sign C k m) = 64 \<and> c_verify C (c_pubkey C k) m (c_sign C k m))"

section \<open>Hexadecimal forms\<close>

definition to_hex :: "crates \<Rightarrow> oid \<Rightarrow> string" where
  "to_hex C x = c_hexenc C (oid_bytes x)"

definition from_hex :: "crates \<Rightarrow> string \<Rightarrow> oid res" where
  "from_hex C s =
     (case c_hexdec C s of
        None \<Rightarrow> Err (Malformed ''bad oid hex'')
      | Some b \<Rightarrow>
          if length b \<noteq> 20 then Err (Malformed ''oid must be 20 bytes'') else Ok (oid_of_bytes b))"

definition node_to_hex :: "crates \<Rightarrow> node_id \<Rightarrow> string" where
  "node_to_hex C n = c_hexenc C (node_bytes n)"

definition node_from_hex :: "crates \<Rightarrow> string \<Rightarrow> node_id option" where
  "node_from_hex C s =
     (case c_hexdec C s of
        None \<Rightarrow> None
      | Some v \<Rightarrow> if length v \<noteq> 32 then None else Some (node_of_bytes v))"

lemma hexdec_enc [simp]: "hex_laws C \<Longrightarrow> c_hexdec C (c_hexenc C b) = Some b"
  by (simp add: hex_laws_def)

lemma hexenc_inj: "hex_laws C \<Longrightarrow> c_hexenc C a = c_hexenc C b \<longleftrightarrow> a = b"
  by (metis hexdec_enc option.inject)

lemma from_hex_to_hex [simp]: "hex_laws C \<Longrightarrow> from_hex C (to_hex C x) = Ok x"
  by (simp add: from_hex_def to_hex_def)

lemma to_hex_inj: "hex_laws C \<Longrightarrow> to_hex C a = to_hex C b \<longleftrightarrow> a = b"
  by (simp add: to_hex_def hexenc_inj oid_bytes_inj)

lemma node_from_hex_to_hex [simp]: "hex_laws C \<Longrightarrow> node_from_hex C (node_to_hex C n) = Some n"
  by (simp add: node_from_hex_def node_to_hex_def)

lemma hex_digits_solid: "c \<in> set hex_digits \<Longrightarrow> solid c"
  by (auto simp: hex_digits_def solid_def is_ascii_char_def)

lemma b64_digits_solid: "c \<in> set b64_digits \<Longrightarrow> solid c"
  by (auto simp: b64_digits_def solid_def is_ascii_char_def)

lemma hexenc_solid: "hex_laws C \<Longrightarrow> list_all solid (c_hexenc C b)"
  by (auto simp: hex_laws_def list_all_iff intro: hex_digits_solid)

lemma b64enc_solid: "b64_laws C \<Longrightarrow> list_all solid (c_b64enc C b)"
  by (auto simp: b64_laws_def list_all_iff intro: b64_digits_solid)

lemma solid_no_nl: "list_all solid s \<Longrightarrow> nl \<notin> set s"
  by (auto simp: list_all_iff solid_def)

lemma str_trim_all_solid: "list_all solid s \<Longrightarrow> str_trim s = s"
proof (cases s)
  case Nil
  then show ?thesis by simp
next
  case (Cons a t)
  assume s: "list_all solid s"
  show ?thesis
  proof (cases t rule: rev_cases)
    case Nil
    with Cons s show ?thesis by (simp add: str_trim_solid1)
  next
    case (snoc u z)
    with Cons s show ?thesis by (simp add: str_trim_solid)
  qed
qed

lemma length_to_hex: "hex_laws C \<Longrightarrow> length (to_hex C x) = 40"
  by (simp add: hex_laws_def to_hex_def)

lemma length_node_to_hex: "hex_laws C \<Longrightarrow> length (node_to_hex C n) = 64"
  by (simp add: hex_laws_def node_to_hex_def)

lemma to_hex_solid: "hex_laws C \<Longrightarrow> list_all solid (to_hex C x)"
  by (simp add: to_hex_def hexenc_solid)

lemma node_to_hex_solid: "hex_laws C \<Longrightarrow> list_all solid (node_to_hex C n)"
  by (simp add: node_to_hex_def hexenc_solid)

end
