(* ===== verification/BTree_Map.thy ===== *)
theory BTree_Map
  imports Prelude
begin

text \<open>
  The standard library's \<open>BTreeMap\<close>: a map iterated in ascending key order. The model
  is the key-sorted association list itself, so that iterating the map, comparing two
  maps and printing one are list operations; \<open>bt_wf\<close> is the representation invariant.
  The contract a client may rely on is the locale \<open>ordered_map\<close>.
\<close>

section \<open>The contract\<close>

locale ordered_map =
  fixes empty :: 'm
    and insert :: "'k::linorder \<Rightarrow> 'v \<Rightarrow> 'm \<Rightarrow> 'm"
    and remove :: "'k \<Rightarrow> 'm \<Rightarrow> 'm"
    and get :: "'m \<Rightarrow> 'k \<Rightarrow> 'v option"
    and keys :: "'m \<Rightarrow> 'k list"
    and inv :: "'m \<Rightarrow> bool"
  assumes get_empty: "get empty k = None"
    and get_insert: "inv m \<Longrightarrow> get (insert k v m) j = (if j = k then Some v else get m j)"
    and get_remove: "inv m \<Longrightarrow> get (remove k m) j = (if j = k then None else get m j)"
    and keys_sorted: "inv m \<Longrightarrow> sorted_wrt (<) (keys m)"
    and keys_get: "inv m \<Longrightarrow> set (keys m) = {k. get m k \<noteq> None}"
    and inv_empty: "inv empty"
    and inv_insert: "inv m \<Longrightarrow> inv (insert k v m)"
    and inv_remove: "inv m \<Longrightarrow> inv (remove k m)"
begin

text \<open>Filling a map from a list of bindings: the last binding of a key wins.\<close>

primrec fill :: "('k \<times> 'v) list \<Rightarrow> 'm \<Rightarrow> 'm" where
  "fill [] m = m"
| "fill (kv # kvs) m = fill kvs (insert (fst kv) (snd kv) m)"

lemma inv_fill: "inv m \<Longrightarrow> inv (fill kvs m)"
  by (induction kvs arbitrary: m) (simp_all add: inv_insert)

lemma get_fill:
  "inv m \<Longrightarrow> get (fill kvs m) j = (case map_of (rev kvs) j of None \<Rightarrow> get m j | Some v \<Rightarrow> Some v)"
  by (induction kvs arbitrary: m)
    (auto simp: inv_insert get_insert map_add_def split: option.splits)

lemma keys_distinct: "inv m \<Longrightarrow> distinct (keys m)"
  using keys_sorted strict_sorted_iff by blast

lemma same_lookups_same_keys:
  assumes "inv m" and "inv n" and "\<And>k. get m k = get n k"
  shows "keys m = keys n"
proof -
  have "set (keys m) = set (keys n)" using assms by (simp add: keys_get)
  then show ?thesis
    using keys_sorted [OF assms(1)] keys_sorted [OF assms(2)]
    by (metis sorted_distinct_set_unique strict_sorted_iff)
qed

end

section \<open>The implementation\<close>

fun bt_insert :: "'k::linorder \<Rightarrow> 'v \<Rightarrow> ('k \<times> 'v) list \<Rightarrow> ('k \<times> 'v) list" where
  "bt_insert k v [] = [(k, v)]"
| "bt_insert k v ((a, b) # m) =
     (if k < a then (k, v) # (a, b) # m
      else if k = a then (k, v) # m
      else (a, b) # bt_insert k v m)"

abbreviation bt_get :: "('k \<times> 'v) list \<Rightarrow> 'k \<Rightarrow> 'v option" where
  "bt_get \<equiv> map_of"

abbreviation bt_keys :: "('k \<times> 'v) list \<Rightarrow> 'k list" where
  "bt_keys \<equiv> map fst"

definition bt_remove :: "'k \<Rightarrow> ('k \<times> 'v) list \<Rightarrow> ('k \<times> 'v) list" where
  "bt_remove k m = filter (\<lambda>e. fst e \<noteq> k) m"

definition bt_contains :: "('k \<times> 'v) list \<Rightarrow> 'k \<Rightarrow> bool" where
  "bt_contains m k = (k \<in> set (bt_keys m))"

definition bt_wf :: "('k::linorder \<times> 'v) list \<Rightarrow> bool" where
  "bt_wf m = sorted_wrt (<) (bt_keys m)"

text \<open>\<open>collect\<close> into a map: insertion in list order.\<close>

definition bt_collect :: "('k::linorder \<times> 'v) list \<Rightarrow> ('k \<times> 'v) list" where
  "bt_collect kvs = foldl (\<lambda>m kv. bt_insert (fst kv) (snd kv) m) [] kvs"

lemma bt_wf_Nil [simp, bt_intros]: "bt_wf []"
  by (simp add: bt_wf_def)

lemma bt_wf_Cons: "bt_wf (e # m) \<longleftrightarrow> (\<forall>k \<in> set (bt_keys m). fst e < k) \<and> bt_wf m"
  by (simp add: bt_wf_def)

lemma bt_wf_distinct: "bt_wf m \<Longrightarrow> distinct (bt_keys m)"
  using bt_wf_def strict_sorted_iff by blast

lemma bt_contains_get: "bt_contains m k \<longleftrightarrow> bt_get m k \<noteq> None"
  by (metis bt_contains_def image_set map_of_eq_None_iff)

lemma keys_bt_insert [simp]: "set (bt_keys (bt_insert k v m)) = insert k (set (bt_keys m))"
  by (induction k v m rule: bt_insert.induct) auto

lemma image_keys_bt_insert [simp]: "fst ` set (bt_insert k v m) = insert k (fst ` set m)"
  using keys_bt_insert [of k v m] by (simp only: list.set_map)

lemma bt_wf_insert [bt_intros]: "bt_wf m \<Longrightarrow> bt_wf (bt_insert k v m)"
proof (induction k v m rule: bt_insert.induct)
  case (1 k v)
  then show ?case by (simp add: bt_wf_def)
next
  case (2 k v a b m)
  then show ?case
    using keys_bt_insert [of k v m] by (auto simp: bt_wf_Cons simp del: keys_bt_insert)
qed

lemma bt_wf_filter [bt_intros]: "bt_wf m \<Longrightarrow> bt_wf (filter P m)"
  by (induction m) (auto simp: bt_wf_Cons)

lemma bt_wf_remove [bt_intros]: "bt_wf m \<Longrightarrow> bt_wf (bt_remove k m)"
  by (simp add: bt_remove_def bt_wf_filter)

lemma bt_get_insert [bt_simps]:
  "bt_get (bt_insert k v m) j = (if j = k then Some v else bt_get m j)"
  by (induction k v m rule: bt_insert.induct) auto

lemma bt_get_remove [bt_simps]: "bt_get (bt_remove k m) j = (if j = k then None else bt_get m j)"
  by (induction m) (auto simp: bt_remove_def)

interpretation bt: ordered_map "[]" bt_insert bt_remove bt_get bt_keys bt_wf
proof unfold_locales
  fix m :: "('a \<times> 'b) list"
  show "bt_wf m \<Longrightarrow> sorted_wrt (<) (bt_keys m)" by (simp add: bt_wf_def)
  show "bt_wf m \<Longrightarrow> set (bt_keys m) = {k. bt_get m k \<noteq> None}"
    by (auto simp: map_of_eq_None_iff)
qed (auto simp: bt_simps intro: bt_intros)

section \<open>Derived facts\<close>

lemma bt_get_mem: "bt_wf m \<Longrightarrow> bt_get m k = Some v \<longleftrightarrow> (k, v) \<in> set m"
  by (simp add: bt_wf_distinct)

lemma bt_fill_eq: "bt.fill kvs m = foldl (\<lambda>m kv. bt_insert (fst kv) (snd kv) m) m kvs"
  by (induction kvs arbitrary: m) auto

lemma bt_wf_collect [simp, bt_intros]: "bt_wf (bt_collect kvs)"
  using bt.inv_fill [OF bt_wf_Nil] by (simp add: bt_collect_def bt_fill_eq)

lemma bt_get_collect [bt_simps]: "bt_get (bt_collect kvs) j = map_of (rev kvs) j"
  using bt.get_fill [OF bt_wf_Nil, of kvs j]
  by (simp add: bt_collect_def bt_fill_eq split: option.splits)

lemma map_of_rev: "distinct (map fst kvs) \<Longrightarrow> map_of (rev kvs) j = map_of kvs j"
proof (cases "map_of kvs j")
  case None
  then have "j \<notin> fst ` set (rev kvs)" by (simp add: map_of_eq_None_iff)
  then have "map_of (rev kvs) j = None" by (simp add: map_of_eq_None_iff)
  with None show ?thesis by simp
next
  case (Some v)
  assume d: "distinct (map fst kvs)"
  then have "distinct (map fst (rev kvs))" by (simp add: rev_map [symmetric])
  moreover have "(j, v) \<in> set (rev kvs)" using Some by (simp add: map_of_SomeD)
  ultimately show ?thesis using Some by (simp add: map_of_is_SomeI)
qed

lemma bt_get_collect_distinct [bt_simps]:
  "distinct (map fst kvs) \<Longrightarrow> bt_get (bt_collect kvs) j = map_of kvs j"
  by (simp add: bt_get_collect map_of_rev)

text \<open>Equal lookups mean equal maps: the representation is canonical.\<close>

lemma bt_ext:
  assumes "bt_wf m" and "bt_wf n" and "\<And>k. bt_get m k = bt_get n k"
  shows "m = n"
proof -
  have keys: "bt_keys m = bt_keys n"
    using assms by (rule bt.same_lookups_same_keys)
  have vals: "map snd m = map (\<lambda>k. the (bt_get m k)) (bt_keys m)" if "bt_wf m" for m :: "('a \<times> 'b) list"
    using bt_wf_distinct [OF that] by (auto simp: map_of_is_SomeI)
  have "map snd m = map (\<lambda>k. the (bt_get m k)) (bt_keys m)"
    and "map snd n = map (\<lambda>k. the (bt_get n k)) (bt_keys n)"
    using assms(1,2) by (simp_all only: vals)
  then have "map snd m = map snd n" using keys assms(3) by simp
  with keys show ?thesis by (metis zip_map_fst_snd)
qed

lemma bt_collect_id: "bt_wf m \<Longrightarrow> bt_collect m = m"
  by (rule bt_ext) (simp_all add: bt_get_collect_distinct bt_wf_distinct)

lemma bt_get_map: "bt_get (map (\<lambda>e. (fst e, f (fst e) (snd e))) m) k = map_option (f k) (bt_get m k)"
  by (induction m) auto

lemma bt_get_filter_key:
  "bt_get (filter (\<lambda>e. P (fst e)) m) k = (if P k then bt_get m k else None)"
  by (induction m) auto

text \<open>
  Building a map by walking a sorted list of distinct keys and keeping some values: the
  result is the filtered list itself.
\<close>

lemma bt_wf_snoc: "bt_wf m \<Longrightarrow> (\<And>a. a \<in> set (bt_keys m) \<Longrightarrow> a < k) \<Longrightarrow> bt_wf (m @ [(k, v)])"
  by (auto simp: bt_wf_def sorted_wrt_append)

lemma bt_insert_snoc:
  "(\<And>a. a \<in> set (bt_keys m) \<Longrightarrow> a < k) \<Longrightarrow> bt_insert k v m = m @ [(k, v)]"
proof (induction m)
  case Nil
  then show ?case by simp
next
  case (Cons e m)
  obtain a b where e: "e = (a, b)" by fastforce
  have "a < k" using Cons.prems e by simp
  then have "\<not> k < a" and "k \<noteq> a" by auto
  then show ?case using Cons e by auto
qed

end
