(* ===== verification/Object.thy ===== *)
theory Object
  imports Ids BTree_Map
begin

text \<open>
  Git objects (\<open>object.rs\<close>): the deterministic encoding whose SHA-1 is the object id, the
  parser of received frames with every error branch, and the conversion between a flat
  file map and nested tree objects.
\<close>

section \<open>Objects\<close>

definition FILE_MODE :: string where "FILE_MODE = ''100644''"
definition TREE_MODE :: string where "TREE_MODE = ''40000''"

record tree_entry =
  te_mode :: string
  te_name :: string
  te_oid :: oid

record commit_obj =
  co_tree :: oid
  co_parents :: "oid list"
  co_author :: string
  co_author_email :: string
  co_author_time :: u64
  co_committer :: string
  co_committer_email :: string
  co_committer_time :: u64
  co_message :: string

datatype git_object = Blob bytes | Tree "tree_entry list" | Commit commit_obj

fun kind :: "git_object \<Rightarrow> string" where
  "kind (Blob b) = ''blob''"
| "kind (Tree es) = ''tree''"
| "kind (Commit c) = ''commit''"

section \<open>Encoding\<close>

text \<open>Git orders a directory entry as if its name had a trailing slash.\<close>

definition tree_sort_key :: "tree_entry \<Rightarrow> bytes" where
  "tree_sort_key e = te_name e @ (if te_mode e = TREE_MODE then ''/'' else [])"

definition entry_bytes :: "tree_entry \<Rightarrow> bytes" where
  "entry_bytes e = te_mode e @ '' '' @ te_name e @ [nul] @ oid_bytes (te_oid e)"

definition ident_line :: "string \<Rightarrow> string \<Rightarrow> string \<Rightarrow> u64 \<Rightarrow> string" where
  "ident_line role name email t =
     role @ '' '' @ name @ '' <'' @ email @ ''> '' @ dec (unat t) @ '' +0000'' @ [nl]"

definition commit_bytes :: "crates \<Rightarrow> commit_obj \<Rightarrow> bytes" where
  "commit_bytes C c =
     ''tree '' @ to_hex C (co_tree c) @ [nl] @
     concat (map (\<lambda>p. ''parent '' @ to_hex C p @ [nl]) (co_parents c)) @
     ident_line ''author'' (co_author c) (co_author_email c) (co_author_time c) @
     ident_line ''committer'' (co_committer c) (co_committer_email c) (co_committer_time c) @
     [nl] @ co_message c"

fun payload :: "crates \<Rightarrow> git_object \<Rightarrow> bytes" where
  "payload C (Blob b) = b"
| "payload C (Tree es) = concat (map entry_bytes (sort_key tree_sort_key es))"
| "payload C (Commit c) = commit_bytes C c"

definition framed :: "crates \<Rightarrow> git_object \<Rightarrow> bytes" where
  "framed C ob =
     (let p = payload C ob in kind ob @ '' '' @ dec (length p) @ [nul] @ p)"

definition oid_of :: "crates \<Rightarrow> git_object \<Rightarrow> oid" where
  "oid_of C ob = c_sha1 C (framed C ob)"

definition compress :: "crates \<Rightarrow> git_object \<Rightarrow> bytes" where
  "compress C ob = c_deflate C (framed C ob)"

section \<open>Parsing\<close>

function parse_tree :: "bytes \<Rightarrow> tree_entry list res" where
  "parse_tree p =
     (if p = [] then Ok []
      else
        (case str_find (CHR '' '') p of
           None \<Rightarrow> Err (Malformed ''tree entry missing space'')
         | Some sp \<Rightarrow>
             if \<not> from_utf8_ok (take sp p) then Err (Malformed ''tree mode utf8'')
             else
               (case str_find nul (drop (Suc sp) p) of
                  None \<Rightarrow> Err (Malformed ''tree entry missing NUL'')
                | Some n \<Rightarrow>
                    (let name = take n (drop (Suc sp) p);
                         rest = drop (Suc n) (drop (Suc sp) p)
                     in if \<not> from_utf8_ok name then Err (Malformed ''tree name utf8'')
                        else if length rest < 20 then Err (Malformed ''tree entry truncated oid'')
                        else
                          rbind (parse_tree (drop 20 rest))
                            (\<lambda>es. Ok (\<lparr>te_mode = take sp p, te_name = name,
                                        te_oid = oid_of_bytes (take 20 rest)\<rparr> # es))))))"
  by pat_completeness auto
termination
  by (relation "measure length") auto

declare parse_tree.simps [simp del]

text \<open>
  \<open>parse_ident\<close>: the slice between the brackets panics when the first \<open>>\<close> stands
  before the first \<open><\<close>.
\<close>

definition parse_ident :: "string \<Rightarrow> (string \<times> string \<times> u64) res" where
  "parse_ident s =
     (case str_find (CHR ''<'') s of
        None \<Rightarrow> Err (Malformed ''ident missing <'')
      | Some lt \<Rightarrow>
          (case str_find (CHR ''>'') s of
             None \<Rightarrow> Err (Malformed ''ident missing >'')
           | Some gt \<Rightarrow>
               if gt < Suc lt then Err (Panic ''slice index'')
               else
                 (let name = str_trim (take lt s);
                      email = take (gt - Suc lt) (drop (Suc lt) s);
                      rest = str_trim (drop (Suc gt) s);
                      time = (case split_whitespace rest of
                                [] \<Rightarrow> 0
                              | w # _ \<Rightarrow> (case parse_u64 w of None \<Rightarrow> 0 | Some t \<Rightarrow> t))
                  in Ok (name, email, time))))"

text \<open>The header state of \<open>parse_commit\<close>: the tree once seen, and the fields so far.\<close>

fun parse_header :: "crates \<Rightarrow> oid option \<times> commit_obj \<Rightarrow> string \<Rightarrow> (oid option \<times> commit_obj) res" where
  "parse_header C (t, c) line =
     (case strip_prefix ''tree '' line of
        Some rest \<Rightarrow> rbind (from_hex C (str_trim rest)) (\<lambda>x. Ok (Some x, c))
      | None \<Rightarrow>
     (case strip_prefix ''parent '' line of
        Some rest \<Rightarrow>
          rbind (from_hex C (str_trim rest)) (\<lambda>x. Ok (t, c\<lparr>co_parents := co_parents c @ [x]\<rparr>))
      | None \<Rightarrow>
     (case strip_prefix ''author '' line of
        Some rest \<Rightarrow>
          rbind (parse_ident rest) (\<lambda>(n, e, u).
            Ok (t, c\<lparr>co_author := n, co_author_email := e, co_author_time := u\<rparr>))
      | None \<Rightarrow>
     (case strip_prefix ''committer '' line of
        Some rest \<Rightarrow>
          rbind (parse_ident rest) (\<lambda>(n, e, u).
            Ok (t, c\<lparr>co_committer := n, co_committer_email := e, co_committer_time := u\<rparr>))
      | None \<Rightarrow> Ok (t, c)))))"

fun parse_headers ::
  "crates \<Rightarrow> string list \<Rightarrow> oid option \<times> commit_obj \<Rightarrow> ((oid option \<times> commit_obj) \<times> string list) res"
where
  "parse_headers C [] h = Ok (h, [])"
| "parse_headers C (line # ls) h =
     (if line = [] then Ok (h, ls)
      else rbind (parse_header C h line) (parse_headers C ls))"

definition blank_commit :: commit_obj where
  "blank_commit =
     \<lparr>co_tree = Oid 0, co_parents = [], co_author = [], co_author_email = [], co_author_time = 0,
      co_committer = [], co_committer_email = [], co_committer_time = 0, co_message = []\<rparr>"

definition parse_commit :: "crates \<Rightarrow> bytes \<Rightarrow> commit_obj res" where
  "parse_commit C p =
     rbind (parse_headers C (str_split nl (from_utf8_lossy p)) (None, blank_commit))
       (\<lambda>((t, c), ls).
          (case t of
             None \<Rightarrow> Err (Malformed ''commit missing tree'')
           | Some x \<Rightarrow> Ok (c\<lparr>co_tree := x, co_message := str_join [nl] ls\<rparr>)))"

definition parse_framed :: "crates \<Rightarrow> bytes \<Rightarrow> git_object res" where
  "parse_framed C f =
     (case split_once nul f of
        None \<Rightarrow> Err (Malformed ''missing header NUL'')
      | Some (header, p) \<Rightarrow>
          if \<not> from_utf8_ok header then Err (Malformed ''non-utf8 header'')
          else
            (case split_once (CHR '' '') header of
               None \<Rightarrow> Err (Malformed ''bad header'')
             | Some (k, len) \<Rightarrow>
                 (case parse_u64 len of
                    None \<Rightarrow> Err (Malformed ''bad header length'')
                  | Some declared \<Rightarrow>
                      if unat declared \<noteq> length p then Err (Malformed ''framed length'')
                      else if k = ''blob'' then Ok (Blob p)
                      else if k = ''tree'' then rbind (parse_tree p) (\<lambda>es. Ok (Tree es))
                      else if k = ''commit'' then rbind (parse_commit C p) (\<lambda>c. Ok (Commit c))
                      else Err (Malformed ''unknown object kind''))))"

definition decompress_and_parse :: "crates \<Rightarrow> bytes \<Rightarrow> git_object res" where
  "decompress_and_parse C raw =
     (case c_inflate C raw of
        None \<Rightarrow> Err (Malformed ''zlib inflate'')
      | Some f \<Rightarrow> parse_framed C f)"

section \<open>File maps and trees\<close>

type_synonym files = "(string \<times> bytes) list"

text \<open>
  \<open>build_tree\<close>, one level: the files directly under a prefix, and the names of the
  sub-directories below it.
\<close>

definition tree_direct :: "string \<Rightarrow> files \<Rightarrow> files" where
  "tree_direct prefix files =
     bt_collect (concat (map (\<lambda>(path, content).
       case strip_prefix prefix path of
         None \<Rightarrow> []
       | Some rel \<Rightarrow>
           if rel = [] \<or> str_find (CHR ''/'') rel \<noteq> None then [] else [(rel, content)]) files))"

definition tree_subdirs :: "string \<Rightarrow> files \<Rightarrow> string list" where
  "tree_subdirs prefix files =
     bt_keys (bt_collect (concat (map (\<lambda>(path, content).
       case strip_prefix prefix path of
         None \<Rightarrow> []
       | Some rel \<Rightarrow>
           (case str_find (CHR ''/'') rel of
              None \<Rightarrow> []
            | Some i \<Rightarrow> [(take i rel, ())])) files)))"

definition max_path :: "files \<Rightarrow> nat" where
  "max_path files = foldr (\<lambda>e m. max (length (fst e)) m) files 0"

lemma max_path_ge: "e \<in> set files \<Longrightarrow> length (fst e) \<le> max_path files"
  unfolding max_path_def by (induction files) auto

lemma keys_bt_collect: "set (bt_keys (bt_collect kvs)) = fst ` set kvs"
proof -
  have "k \<in> set (bt_keys (bt_collect kvs)) \<longleftrightarrow> k \<in> fst ` set kvs" for k
    using bt_get_collect [of kvs k] by (metis image_set map_of_eq_None_iff set_rev)
  then show ?thesis by blast
qed

lemma tree_subdirs_iff:
  "name \<in> set (tree_subdirs prefix files) \<longleftrightarrow>
     CHR ''/'' \<notin> set name \<and> (\<exists>rest content. (prefix @ name @ ''/'' @ rest, content) \<in> set files)"
proof
  assume "name \<in> set (tree_subdirs prefix files)"
  then obtain path content rel i where
    "(path, content) \<in> set files" and "strip_prefix prefix path = Some rel"
    and i: "str_find (CHR ''/'') rel = Some i" and "name = take i rel"
    unfolding tree_subdirs_def keys_bt_collect
    by (clarsimp split: option.splits) (metis (no_types))
  moreover have "rel = take i rel @ ''/'' @ drop (Suc i) rel"
    using i by (metis append_Cons append_Nil id_take_nth_drop str_find_Some)
  ultimately show "CHR ''/'' \<notin> set name \<and>
      (\<exists>rest content. (prefix @ name @ ''/'' @ rest, content) \<in> set files)"
    by (metis str_find_Some strip_prefix_Some)
next
  assume "CHR ''/'' \<notin> set name \<and> (\<exists>rest content. (prefix @ name @ ''/'' @ rest, content) \<in> set files)"
  then obtain rest content where no: "CHR ''/'' \<notin> set name"
    and m: "(prefix @ name @ ''/'' @ rest, content) \<in> set files" by blast
  have "str_find (CHR ''/'') (name @ ''/'' @ rest) = Some (length name)"
    using str_find_append [OF no, of rest] by simp
  with m show "name \<in> set (tree_subdirs prefix files)"
    unfolding tree_subdirs_def keys_bt_collect by force
qed

function build_tree :: "crates \<Rightarrow> string \<Rightarrow> files \<Rightarrow> git_object list \<times> oid" where
  "build_tree C prefix files =
     (let direct = tree_direct prefix files;
          blobs = map (\<lambda>e. Blob (snd e)) direct;
          entries1 =
            map (\<lambda>e. \<lparr>te_mode = FILE_MODE, te_name = fst e, te_oid = oid_of C (Blob (snd e))\<rparr>) direct;
          subs =
            map (\<lambda>name. (name, build_tree C (prefix @ name @ ''/'') files)) (tree_subdirs prefix files);
          entries2 =
            map (\<lambda>r. \<lparr>te_mode = TREE_MODE, te_name = fst r, te_oid = snd (snd r)\<rparr>) subs;
          tree = Tree (entries1 @ entries2)
      in (blobs @ concat (map (\<lambda>r. fst (snd r)) subs) @ [tree], oid_of C tree))"
  by pat_completeness auto
termination
proof (relation "measure (\<lambda>(C, prefix, files). Suc (max_path files) - length prefix)")
  show "wf (measure (\<lambda>(C, prefix :: string, files). Suc (max_path files) - length prefix))" by simp
next
  fix C :: crates and prefix :: string and files :: files and direct blobs entries1 name
  assume "name \<in> set (tree_subdirs prefix files)"
  then obtain rest content where "(prefix @ name @ ''/'' @ rest, content) \<in> set files"
    by (auto simp: tree_subdirs_iff)
  from max_path_ge [OF this]
  show "((C, prefix @ name @ ''/'', files), (C, prefix, files))
          \<in> measure (\<lambda>(C, prefix, files). Suc (max_path files) - length prefix)"
    by simp
qed

declare build_tree.simps [simp del]

definition write_tree_from_files :: "crates \<Rightarrow> files \<Rightarrow> git_object list \<times> oid" where
  "write_tree_from_files C files = build_tree C [] files"

text \<open>
  \<open>walk_tree\<close>. The source recurses into sub-trees without a bound, so on a cyclic tree it
  never returns; \<open>path\<close> holds the trees being walked, and meeting one of them again is the
  value \<open>Diverge\<close>.
\<close>

function walk_tree ::
  "oid list \<Rightarrow> (oid \<Rightarrow> git_object res) \<Rightarrow> string \<Rightarrow> oid \<Rightarrow> files \<Rightarrow> files res" where
  "walk_tree path get prefix t out =
     (if t \<in> set path then Err Diverge
      else
        rbind (get t) (\<lambda>ob.
          case ob of
            Tree entries \<Rightarrow>
              rfold (\<lambda>out e.
                let p = prefix @ te_name e
                in if te_mode e = TREE_MODE
                   then walk_tree (t # path) get (p @ ''/'') (te_oid e) out
                   else
                     rbind (get (te_oid e)) (\<lambda>b.
                       case b of
                         Blob bs \<Rightarrow> Ok (bt_insert p bs out)
                       | _ \<Rightarrow> Err (Malformed ''is not a blob''))) out entries
          | _ \<Rightarrow> Err (Malformed ''is not a tree'')))"
  by pat_completeness auto
termination
proof (relation "measure (\<lambda>(path, get, prefix, t, out). card (UNIV - set path))")
  show "wf (measure (\<lambda>(path :: oid list, get :: oid \<Rightarrow> git_object res, prefix :: string, t :: oid,
          out :: files). card (UNIV - set path)))" by simp
next
  fix path :: "oid list" and get :: "oid \<Rightarrow> git_object res" and prefix p t out out' e
    and ob :: git_object and entries
  assume "t \<notin> set path"
  then have "UNIV - set (t # path) \<subset> UNIV - set path" by auto
  then have "card (UNIV - set (t # path)) < card (UNIV - set path)"
    by (intro psubset_card_mono) simp_all
  then show "((t # path, get, p @ ''/'', te_oid e, out'), (path, get, prefix, t, out))
      \<in> measure (\<lambda>(path, get, prefix, t, out). card (UNIV - set path))" by simp
qed

declare walk_tree.simps [simp del]

definition read_tree_to_files :: "oid \<Rightarrow> (oid \<Rightarrow> git_object res) \<Rightarrow> files res" where
  "read_tree_to_files root get = walk_tree [] get [] root []"

end
