(* ===== verification/Merge.thy ===== *)
theory Merge
  imports Object "HOL-Library.Product_Lexorder"
begin

text \<open>
  The three-way merge (\<open>merge.rs\<close>): line-level diff3 over the equal runs of a diff crate, with
  \<open>theirs\<close> winning a contended region and never a conflict marker, and the merge of two flat
  trees against their base. Slices and indexings that would panic are branches of the result.
\<close>

section \<open>Definitions\<close>

definition is_binary :: "bytes \<Rightarrow> bool" where
  "is_binary b = (\<not> from_utf8_ok b \<or> nul \<in> set b)"

function split_lines :: "string \<Rightarrow> string list" where
  "split_lines s =
     (case str_find nl s of
        None \<Rightarrow> if s = [] then [] else [s]
      | Some i \<Rightarrow> take (Suc i) s # split_lines (drop (Suc i) s))"
  by pat_completeness auto
termination
  by (relation "measure length") (auto simp: str_find_Some)

declare split_lines.simps [simp del]

definition equal_pairs :: "crates \<Rightarrow> string list \<Rightarrow> string list \<Rightarrow> (nat \<times> nat) list" where
  "equal_pairs C base x =
     concat (map (\<lambda>d. case d of
       DiffEqual i j n \<Rightarrow> map (\<lambda>k. (i + k, j + k)) [0..<n]
     | DiffOther \<Rightarrow> []) (c_diff C base x))"

definition slice :: "nat \<Rightarrow> nat \<Rightarrow> 'a list \<Rightarrow> 'a list res" where
  "slice a b xs =
     (if a \<le> b \<and> b \<le> length xs then Ok (take (b - a) (drop a xs)) else Err (Panic ''slice index''))"

definition slice_from :: "nat \<Rightarrow> 'a list \<Rightarrow> 'a list res" where
  "slice_from a xs = (if a \<le> length xs then Ok (drop a xs) else Err (Panic ''slice index''))"

definition index :: "'a list \<Rightarrow> nat \<Rightarrow> 'a res" where
  "index xs i = (if i < length xs then Ok (xs ! i) else Err (Panic ''index out of bounds''))"

definition push_chunk :: "string \<Rightarrow> string list \<Rightarrow> string list \<Rightarrow> string list \<Rightarrow> string" where
  "push_chunk out bc oc tc =
     (let bs = concat bc; os = concat oc; ts = concat tc
      in if os = ts then out @ os
         else if os = bs then out @ ts
         else if ts = bs then out @ os
         else out @ ts)"

definition diff3_anchors :: "crates \<Rightarrow> string list \<Rightarrow> string list \<Rightarrow> string list \<Rightarrow> (nat \<times> nat \<times> nat) list" where
  "diff3_anchors C b u t =
     (let ma = bt_collect (equal_pairs C b u);
          mb = bt_collect (equal_pairs C b t)
      in sort (concat (map (\<lambda>(bi, oi).
           case bt_get mb bi of None \<Rightarrow> [] | Some ti \<Rightarrow> [(bi, oi, ti)]) ma)))"

fun diff3_from ::
  "string list \<Rightarrow> string list \<Rightarrow> string list \<Rightarrow> nat \<times> nat \<times> nat \<Rightarrow> (nat \<times> nat \<times> nat) list
    \<Rightarrow> string \<Rightarrow> string res"
where
  "diff3_from b u t (pb, po, pt) [] out =
     rbind (slice_from pb b) (\<lambda>bc.
     rbind (slice_from po u) (\<lambda>oc.
     rbind (slice_from pt t) (\<lambda>tc.
     Ok (push_chunk out bc oc tc))))"
| "diff3_from b u t (pb, po, pt) ((bi, oi, ti) # anchors) out =
     rbind (slice pb bi b) (\<lambda>bc.
     rbind (slice po oi u) (\<lambda>oc.
     rbind (slice pt ti t) (\<lambda>tc.
     rbind (index b bi) (\<lambda>line.
     diff3_from b u t (Suc bi, Suc oi, Suc ti) anchors (push_chunk out bc oc tc @ line)))))"

definition diff3 :: "crates \<Rightarrow> string \<Rightarrow> string \<Rightarrow> string \<Rightarrow> string res" where
  "diff3 C base ours theirs =
     (let b = split_lines base; u = split_lines ours; t = split_lines theirs
      in diff3_from b u t (0, 0, 0) (diff3_anchors C b u t) [])"

definition merge_blob :: "crates \<Rightarrow> bytes \<Rightarrow> bytes \<Rightarrow> bytes \<Rightarrow> bytes res" where
  "merge_blob C base ours theirs =
     (if is_binary base \<or> is_binary ours \<or> is_binary theirs then Ok theirs
      else diff3 C base ours theirs)"

text \<open>The choice for one path, then the merge over all paths of the three trees.\<close>

definition merge_choice :: "crates \<Rightarrow> bytes option \<Rightarrow> bytes option \<Rightarrow> bytes option \<Rightarrow> bytes option res" where
  "merge_choice C b u t =
     (if u = t then Ok u
      else if u = b then Ok t
      else if t = b then Ok u
      else
        (case (b, u, t) of
           (Some bb, Some uu, Some tt) \<Rightarrow> rbind (merge_blob C bb uu tt) (\<lambda>m. Ok (Some m))
         | _ \<Rightarrow> Ok t))"

definition merge_paths :: "files \<Rightarrow> files \<Rightarrow> files \<Rightarrow> string list" where
  "merge_paths base ours theirs =
     remdups_adj (sort (bt_keys base @ bt_keys ours @ bt_keys theirs))"

definition merge_trees :: "crates \<Rightarrow> files \<Rightarrow> files \<Rightarrow> files \<Rightarrow> files res" where
  "merge_trees C base ours theirs =
     rfold (\<lambda>out p.
       rbind (merge_choice C (bt_get base p) (bt_get ours p) (bt_get theirs p)) (\<lambda>chosen.
         Ok (case chosen of None \<Rightarrow> out | Some c \<Rightarrow> bt_insert p c out)))
       [] (merge_paths base ours theirs)"

section \<open>Behaviour of the diff crate\<close>

text \<open>
  A diff is an alignment: its equal runs pair equal elements, inside both sequences and
  strictly ascending in both; and equal sequences are aligned in full.
\<close>

definition pairs_ok :: "'a list \<Rightarrow> 'a list \<Rightarrow> (nat \<times> nat) list \<Rightarrow> bool" where
  "pairs_ok a b ps \<longleftrightarrow>
     sorted_wrt (\<lambda>p q. fst p < fst q \<and> snd p < snd q) ps \<and>
     (\<forall>p \<in> set ps. fst p < length a \<and> snd p < length b \<and> a ! fst p = b ! snd p)"

definition diff_laws :: "crates \<Rightarrow> bool" where
  "diff_laws C \<longleftrightarrow>
     (\<forall>a b. pairs_ok a b (equal_pairs C a b)) \<and>
     (\<forall>a. equal_pairs C a a = map (\<lambda>k. (k, k)) [0..<length a])"

section \<open>Lines\<close>

lemma concat_split_lines [simp]: "concat (split_lines s) = s"
proof (induction s rule: split_lines.induct)
  case (1 s)
  show ?case
  proof (cases "str_find nl s")
    case None
    then show ?thesis by (simp add: split_lines.simps [of s])
  next
    case (Some i)
    with 1 show ?thesis by (simp add: split_lines.simps [of s])
  qed
qed

section \<open>Anchors\<close>

fun anchors_ok ::
  "string list \<Rightarrow> string list \<Rightarrow> string list \<Rightarrow> nat \<times> nat \<times> nat \<Rightarrow> (nat \<times> nat \<times> nat) list \<Rightarrow> bool"
where
  "anchors_ok b u t (pb, po, pt) [] = (pb \<le> length b \<and> po \<le> length u \<and> pt \<le> length t)"
| "anchors_ok b u t (pb, po, pt) ((bi, oi, ti) # as) =
     (pb \<le> bi \<and> po \<le> oi \<and> pt \<le> ti \<and> bi < length b \<and> oi < length u \<and> ti < length t \<and>
      u ! oi = b ! bi \<and> t ! ti = b ! bi \<and> anchors_ok b u t (Suc bi, Suc oi, Suc ti) as)"

lemma pairs_ok_wf: "pairs_ok a b ps \<Longrightarrow> bt_wf ps"
  unfolding pairs_ok_def bt_wf_def sorted_wrt_map
  by (metis (mono_tags, lifting) sorted_wrt_mono_rel)

text \<open>Two alignments of the base with ascending pairs give ascending anchors.\<close>

definition join_pairs :: "(nat \<times> nat) list \<Rightarrow> (nat \<times> nat) list \<Rightarrow> (nat \<times> nat \<times> nat) list" where
  "join_pairs ma mb =
     concat (map (\<lambda>(bi, oi). case bt_get mb bi of None \<Rightarrow> [] | Some ti \<Rightarrow> [(bi, oi, ti)]) ma)"

lemma join_pairs_simps [simp]:
  "join_pairs [] mb = []"
  "join_pairs ((bi, oi) # ma) mb =
     (case bt_get mb bi of None \<Rightarrow> join_pairs ma mb | Some ti \<Rightarrow> (bi, oi, ti) # join_pairs ma mb)"
  by (simp_all add: join_pairs_def split: option.splits)

lemma set_join_pairs:
  "(bi, oi, ti) \<in> set (join_pairs ma mb) \<Longrightarrow> (bi, oi) \<in> set ma \<and> (bi, ti) \<in> set mb"
  by (induction ma) (auto split: option.splits dest: map_of_SomeD)

lemma pairs_ok_less:
  assumes "pairs_ok a b ps" and "(i, j) \<in> set ps" and "(k, l) \<in> set ps" and "i < k"
  shows "j < l"
proof -
  let ?P = "\<lambda>p q :: nat \<times> nat. fst p < fst q \<and> snd p < snd q"
  obtain m n where m: "m < length ps" "ps ! m = (i, j)" and n: "n < length ps" "ps ! n = (k, l)"
    using assms(2,3) by (metis in_set_conv_nth)
  have s: "sorted_wrt ?P ps" using assms(1) by (simp add: pairs_ok_def)
  have "m < n"
  proof (rule ccontr)
    assume "\<not> m < n"
    then have "n = m \<or> ?P (ps ! n) (ps ! m)"
      using sorted_wrt_nth_less [OF s, of n m] m(1) by linarith
    with m n \<open>i < k\<close> show False by auto
  qed
  with sorted_wrt_nth_less [OF s this n(1)] m n show ?thesis by simp
qed

lemma join_pairs_sorted:
  assumes "pairs_ok b u ma" and "pairs_ok b t mb"
  shows "sorted_wrt (\<lambda>p q. fst p < fst q \<and> fst (snd p) < fst (snd q) \<and> snd (snd p) < snd (snd q))
           (join_pairs ma mb)"
  using assms(1)
proof (induction ma)
  case Nil
  then show ?case by simp
next
  case (Cons p ma)
  obtain bi oi where p: "p = (bi, oi)" by fastforce
  have tail: "pairs_ok b u ma" using Cons.prems by (simp add: pairs_ok_def)
  show ?case
  proof (cases "bt_get mb bi")
    case None
    with Cons.IH [OF tail] p show ?thesis by simp
  next
    case (Some ti)
    have "bi < fst q \<and> oi < fst (snd q) \<and> ti < snd (snd q)" if "q \<in> set (join_pairs ma mb)" for q
    proof -
      obtain x y z where q: "q = (x, y, z)" by (cases q)
      with that have "(x, y) \<in> set ma" and z: "(x, z) \<in> set mb" by (auto dest: set_join_pairs)
      with Cons.prems p have "bi < x" "oi < y" by (auto simp: pairs_ok_def)
      moreover have "ti < z"
        using pairs_ok_less [OF assms(2) map_of_SomeD [OF Some] z \<open>bi < x\<close>] .
      ultimately show ?thesis using q by simp
    qed
    with Cons.IH [OF tail] p Some show ?thesis by simp
  qed
qed

lemma anchors_ok_sorted:
  assumes "sorted_wrt (\<lambda>p q. fst p < fst q \<and> fst (snd p) < fst (snd q) \<and> snd (snd p) < snd (snd q)) as"
    and "\<And>bi oi ti. (bi, oi, ti) \<in> set as \<Longrightarrow>
       bi < length b \<and> oi < length u \<and> ti < length t \<and> u ! oi = b ! bi \<and> t ! ti = b ! bi
       \<and> pb \<le> bi \<and> po \<le> oi \<and> pt \<le> ti"
    and "pb \<le> length b" "po \<le> length u" "pt \<le> length t"
  shows "anchors_ok b u t (pb, po, pt) as"
  using assms
proof (induction as arbitrary: pb po pt)
  case Nil
  then show ?case by simp
next
  case (Cons a as)
  obtain bi oi ti where a: "a = (bi, oi, ti)" by (cases a)
  have h: "bi < length b \<and> oi < length u \<and> ti < length t \<and> u ! oi = b ! bi \<and> t ! ti = b ! bi
       \<and> pb \<le> bi \<and> po \<le> oi \<and> pt \<le> ti"
    using Cons.prems(2) [of bi oi ti] a by simp
  have "anchors_ok b u t (Suc bi, Suc oi, Suc ti) as"
  proof (rule Cons.IH)
    show "sorted_wrt (\<lambda>p q. fst p < fst q \<and> fst (snd p) < fst (snd q) \<and> snd (snd p) < snd (snd q)) as"
      using Cons.prems(1) by simp
    fix x y z assume m: "(x, y, z) \<in> set as"
    with Cons.prems(1) a have "bi < x" "oi < y" "ti < z" by auto
    with Cons.prems(2) [of x y z] m
    show "x < length b \<and> y < length u \<and> z < length t \<and> u ! y = b ! x \<and> t ! z = b ! x
       \<and> Suc bi \<le> x \<and> Suc oi \<le> y \<and> Suc ti \<le> z" by simp
  qed (use h in simp_all)
  with a h show ?case by simp
qed

lemma diff3_anchors_join:
  assumes "diff_laws C"
  shows "diff3_anchors C b u t = join_pairs (equal_pairs C b u) (equal_pairs C b t)"
proof -
  let ?j = "join_pairs (equal_pairs C b u) (equal_pairs C b t)"
  have ok: "pairs_ok b u (equal_pairs C b u)" "pairs_ok b t (equal_pairs C b t)"
    using assms by (simp_all add: diff_laws_def)
  have "sorted_wrt (\<le>) ?j"
    by (rule sorted_wrt_mono_rel [OF _ join_pairs_sorted [OF ok]]) (auto simp: less_eq_prod_def)
  then have "sort ?j = ?j" by (simp add: sort_key_id_if_sorted)
  then show ?thesis
    using ok by (simp add: diff3_anchors_def bt_collect_id pairs_ok_wf Let_def join_pairs_def)
qed

lemma diff3_anchors_ok:
  assumes "diff_laws C"
  shows "anchors_ok b u t (0, 0, 0) (diff3_anchors C b u t)"
proof -
  have ok: "pairs_ok b u (equal_pairs C b u)" "pairs_ok b t (equal_pairs C b t)"
    using assms by (simp_all add: diff_laws_def)
  show ?thesis
    unfolding diff3_anchors_join [OF assms]
  proof (rule anchors_ok_sorted [OF join_pairs_sorted [OF ok]])
    fix bi oi ti assume "(bi, oi, ti) \<in> set (join_pairs (equal_pairs C b u) (equal_pairs C b t))"
    from set_join_pairs [OF this] ok
    show "bi < length b \<and> oi < length u \<and> ti < length t \<and> u ! oi = b ! bi \<and> t ! ti = b ! bi
       \<and> 0 \<le> bi \<and> 0 \<le> oi \<and> 0 \<le> ti"
      by (auto simp: pairs_ok_def)
  qed simp_all
qed

section \<open>Diff3 as a weave of chunks around the agreed lines\<close>

text \<open>
  The abstract view: the three files are the same sequence of agreed lines with chunks in
  between; the merge keeps the agreed lines and picks one side of each chunk.
\<close>

type_synonym chunk = "string list \<times> string list \<times> string list"

fun pick :: "chunk \<Rightarrow> string list" where
  "pick (bc, oc, tc) =
     (if concat oc = concat tc then oc
      else if concat oc = concat bc then tc
      else if concat tc = concat bc then oc
      else tc)"

fun weave :: "'a list list \<Rightarrow> 'a list \<Rightarrow> 'a list" where
  "weave [] ls = ls"
| "weave (c # cs) [] = c"
| "weave (c # cs) (l # ls) = c @ l # weave cs ls"

lemma push_chunk_pick: "push_chunk out bc oc tc = out @ concat (pick (bc, oc, tc))"
  by (simp add: push_chunk_def Let_def)

lemma set_weave: "set (weave cs ls) \<subseteq> (\<Union>c \<in> set cs. set c) \<union> set ls"
  by (induction cs ls rule: weave.induct) auto

lemma pick_sides: "set (pick (bc, oc, tc)) \<subseteq> set oc \<union> set tc"
  by auto

lemma set_weave_pick:
  assumes "length cs = Suc (length ls)"
  shows "set (weave (map pick cs) ls)
           \<subseteq> set (weave (map (\<lambda>c. fst (snd c)) cs) ls) \<union> set (weave (map (\<lambda>c. snd (snd c)) cs) ls)"
  using assms
proof (induction ls arbitrary: cs)
  case Nil
  then obtain bc oc tc where "cs = [(bc, oc, tc)]" by (auto simp: length_Suc_conv)
  then show ?case by auto
next
  case (Cons l ls)
  then obtain bc oc tc cs' where cs: "cs = (bc, oc, tc) # cs'" "length cs' = Suc (length ls)"
    by (auto simp: length_Suc_conv)
  with Cons.IH [OF cs(2)] pick_sides [of bc oc tc] show ?case
    by (simp del: pick.simps) blast
qed

lemma pick_same_base: "concat oc = concat bc \<Longrightarrow> concat (pick (bc, oc, tc)) = concat tc"
  by auto

lemma pick_same_base': "concat tc = concat bc \<Longrightarrow> concat (pick (bc, oc, tc)) = concat oc"
  by auto

lemma concat_weave_cong:
  "map concat cs = map concat ds \<Longrightarrow> concat (weave cs ls) = concat (weave ds ls)"
proof (induction cs ls arbitrary: ds rule: weave.induct)
  case (1 ls)
  then show ?case by simp
next
  case (2 c cs)
  then obtain d ds' where "ds = d # ds'" "concat c = concat d" by (auto simp: Cons_eq_map_conv)
  then show ?case by simp
next
  case (3 c cs l ls)
  then obtain d ds' where d: "ds = d # ds'" "concat c = concat d" "map concat cs = map concat ds'"
    by (auto simp: Cons_eq_map_conv)
  with 3(1) [OF d(3)] show ?case by simp
qed

lemma slice_ok: "a \<le> b \<Longrightarrow> b < length xs \<Longrightarrow>
  \<exists>c. slice a b xs = Ok c \<and> drop a xs = c @ xs ! b # drop (Suc b) xs"
proof -
  assume ab: "a \<le> b" "b < length xs"
  then have "drop a xs = take (b - a) (drop a xs) @ drop b xs"
    by (metis append_take_drop_id drop_drop le_add_diff_inverse2)
  with ab show ?thesis by (simp add: slice_def Cons_nth_drop_Suc)
qed

lemma diff3_from_weave:
  assumes "anchors_ok b u t (pb, po, pt) as"
  shows "\<exists>cs ls. length cs = Suc (length ls)
    \<and> drop pb b = weave (map fst cs) ls
    \<and> drop po u = weave (map (\<lambda>c. fst (snd c)) cs) ls
    \<and> drop pt t = weave (map (\<lambda>c. snd (snd c)) cs) ls
    \<and> diff3_from b u t (pb, po, pt) as out = Ok (out @ concat (weave (map pick cs) ls))
    \<and> (b = u \<and> pb = po \<and> list_all (\<lambda>(bi, oi, ti). bi = oi) as
         \<longrightarrow> list_all (\<lambda>(bc, oc, tc). bc = oc) cs)
    \<and> (b = t \<and> pb = pt \<and> list_all (\<lambda>(bi, oi, ti). bi = ti) as
         \<longrightarrow> list_all (\<lambda>(bc, oc, tc). bc = tc) cs)"
  using assms
proof (induction as arbitrary: pb po pt out)
  case Nil
  then show ?case
    by (intro exI [of _ "[(drop pb b, drop po u, drop pt t)]"] exI [of _ "[]"])
      (simp add: slice_from_def push_chunk_pick del: pick.simps)
next
  case (Cons a as)
  obtain bi oi ti where a: "a = (bi, oi, ti)" by (cases a)
  have h: "pb \<le> bi" "po \<le> oi" "pt \<le> ti" "bi < length b" "oi < length u" "ti < length t"
    "u ! oi = b ! bi" "t ! ti = b ! bi" and rest: "anchors_ok b u t (Suc bi, Suc oi, Suc ti) as"
    using Cons.prems a by simp_all
  obtain bc where bc: "slice pb bi b = Ok bc" "drop pb b = bc @ b ! bi # drop (Suc bi) b"
    using slice_ok [OF h(1,4)] by blast
  obtain oc where oc: "slice po oi u = Ok oc" "drop po u = oc @ b ! bi # drop (Suc oi) u"
    using slice_ok [OF h(2,5)] h(7) by auto
  obtain tc where tc: "slice pt ti t = Ok tc" "drop pt t = tc @ b ! bi # drop (Suc ti) t"
    using slice_ok [OF h(3,6)] h(8) by auto
  obtain cs ls where ih: "length cs = Suc (length ls)"
      "drop (Suc bi) b = weave (map fst cs) ls"
      "drop (Suc oi) u = weave (map (\<lambda>c. fst (snd c)) cs) ls"
      "drop (Suc ti) t = weave (map (\<lambda>c. snd (snd c)) cs) ls"
      "diff3_from b u t (Suc bi, Suc oi, Suc ti) as (push_chunk out bc oc tc @ b ! bi) =
         Ok ((push_chunk out bc oc tc @ b ! bi) @ concat (weave (map pick cs) ls))"
      "b = u \<and> Suc bi = Suc oi \<and> list_all (\<lambda>(bi, oi, ti). bi = oi) as
         \<longrightarrow> list_all (\<lambda>(bc, oc, tc). bc = oc) cs"
      "b = t \<and> Suc bi = Suc ti \<and> list_all (\<lambda>(bi, oi, ti). bi = ti) as
         \<longrightarrow> list_all (\<lambda>(bc, oc, tc). bc = tc) cs"
    using Cons.IH [OF rest, of "push_chunk out bc oc tc @ b ! bi"] by (elim exE conjE) (rule that; assumption)
  have "diff3_from b u t (pb, po, pt) (a # as) out =
      Ok (out @ concat (weave (map pick ((bc, oc, tc) # cs)) (b ! bi # ls)))"
    using a bc(1) oc(1) tc(1) h(4) ih(5) by (simp add: index_def push_chunk_pick del: pick.simps)
  moreover have "b = u \<and> pb = po \<and> bi = oi \<Longrightarrow> bc = oc" using bc(1) oc(1) by auto
  moreover have "b = t \<and> pb = pt \<and> bi = ti \<Longrightarrow> bc = tc" using bc(1) tc(1) by auto
  ultimately show ?case
    using ih a bc(2) oc(2) tc(2)
    by (intro exI [of _ "(bc, oc, tc) # cs"] exI [of _ "b ! bi # ls"]) (simp del: pick.simps)
qed

lemma diff3_weave:
  assumes "diff_laws C"
  obtains cs ls where "length cs = Suc (length ls)"
    and "split_lines base = weave (map fst cs) ls"
    and "split_lines ours = weave (map (\<lambda>c. fst (snd c)) cs) ls"
    and "split_lines theirs = weave (map (\<lambda>c. snd (snd c)) cs) ls"
    and "diff3 C base ours theirs = Ok (concat (weave (map pick cs) ls))"
    and "base = ours \<Longrightarrow> list_all (\<lambda>(bc, oc, tc). bc = oc) cs"
    and "base = theirs \<Longrightarrow> list_all (\<lambda>(bc, oc, tc). bc = tc) cs"
proof -
  let ?b = "split_lines base" and ?u = "split_lines ours" and ?t = "split_lines theirs"
  let ?as = "diff3_anchors C ?b ?u ?t"
  have ident: "equal_pairs C ?b ?b = map (\<lambda>k. (k, k)) [0..<length ?b]"
    using assms by (simp add: diff_laws_def)
  have "list_all (\<lambda>(bi, oi, ti). bi = oi) ?as" if "base = ours"
    unfolding list_all_iff diff3_anchors_join [OF assms]
    using that ident by (auto dest!: set_join_pairs)
  moreover have "list_all (\<lambda>(bi, oi, ti). bi = ti) ?as" if "base = theirs"
    unfolding list_all_iff diff3_anchors_join [OF assms]
    using that ident by (auto dest!: set_join_pairs)
  ultimately show thesis
    using diff3_from_weave [OF diff3_anchors_ok [OF assms], of ?b ?u ?t "[]"] that
    unfolding diff3_def Let_def drop_0 append_Nil by blast
qed

lemma split_lines_inj: "split_lines a = split_lines b \<Longrightarrow> a = b"
  by (metis concat_split_lines)

lemma diff3_ours_base:
  assumes "diff_laws C"
  shows "diff3 C base base theirs = Ok theirs"
proof -
  obtain cs ls where w: "split_lines theirs = weave (map (\<lambda>c. snd (snd c)) cs) ls"
    "diff3 C base base theirs = Ok (concat (weave (map pick cs) ls))"
    "list_all (\<lambda>(bc, oc, tc). bc = oc) cs"
    using diff3_weave [OF assms, of base base theirs] by metis
  have "map concat (map pick cs) = map concat (map (\<lambda>c. snd (snd c)) cs)"
    using w(3) by (auto simp: list_all_iff)
  from concat_weave_cong [OF this, of ls] w(1,2) show ?thesis
    by (metis concat_split_lines)
qed

lemma diff3_theirs_base:
  assumes "diff_laws C"
  shows "diff3 C base ours base = Ok ours"
proof -
  obtain cs ls where w: "split_lines ours = weave (map (\<lambda>c. fst (snd c)) cs) ls"
    "diff3 C base ours base = Ok (concat (weave (map pick cs) ls))"
    "list_all (\<lambda>(bc, oc, tc). bc = tc) cs"
    using diff3_weave [OF assms, of base ours base] by metis
  have "map concat (map pick cs) = map concat (map (\<lambda>c. fst (snd c)) cs)"
    using w(3) by (auto simp: list_all_iff)
  from concat_weave_cong [OF this, of ls] w(1,2) show ?thesis
    by (metis concat_split_lines)
qed

lemma merge_blob_ok: "diff_laws C \<Longrightarrow> \<exists>m. merge_blob C base ours theirs = Ok m"
  by (metis merge_blob_def diff3_weave)

section \<open>Merging trees\<close>

lemma merge_choice_ok: "diff_laws C \<Longrightarrow> \<exists>c. merge_choice C b u t = Ok c"
  using merge_blob_ok [of C "the b" "the u" "the t"]
  by (auto simp: merge_choice_def split: option.splits)

lemma merge_choice_same [simp]: "merge_choice C b u u = Ok u"
  by (simp add: merge_choice_def)

lemma rfold_build_map:
  assumes "\<And>p. p \<in> set ps \<Longrightarrow> f p = Ok (g p)" and "distinct ps"
    and "\<And>p. p \<in> set ps \<Longrightarrow> bt_get out p = None" and "bt_wf out"
  shows "\<exists>out'. rfold (\<lambda>out p. rbind (f p) (\<lambda>chosen.
           Ok (case chosen of None \<Rightarrow> out | Some c \<Rightarrow> bt_insert p c out))) out ps = Ok out'
      \<and> bt_wf out' \<and> (\<forall>p. bt_get out' p = (if p \<in> set ps then g p else bt_get out p))"
  using assms
proof (induction ps arbitrary: out)
  case Nil
  then show ?case by simp
next
  case (Cons p ps)
  let ?out = "case g p of None \<Rightarrow> out | Some c \<Rightarrow> bt_insert p c out"
  have wf: "bt_wf ?out" using Cons.prems(4) by (auto intro: bt_wf_insert split: option.splits)
  have get: "bt_get ?out q = (if q = p then g p else bt_get out q)" for q
    using Cons.prems(3) [of p] by (auto simp: bt_simps split: option.splits)
  have "bt_get ?out q = None" if "q \<in> set ps" for q
    using that Cons.prems(2,3) by (auto simp: get)
  from Cons.IH [OF _ _ this wf] Cons.prems(1,2) obtain out' where out':
    "rfold (\<lambda>out p. rbind (f p) (\<lambda>chosen.
           Ok (case chosen of None \<Rightarrow> out | Some c \<Rightarrow> bt_insert p c out))) ?out ps = Ok out'"
    "bt_wf out'" "\<forall>q. bt_get out' q = (if q \<in> set ps then g q else bt_get ?out q)"
    by auto
  then show ?case using Cons.prems(1,2) get by (intro exI [of _ out']) auto
qed

lemma set_merge_paths:
  "set (merge_paths base ours theirs) =
     set (bt_keys base) \<union> set (bt_keys ours) \<union> set (bt_keys theirs)"
  by (simp add: merge_paths_def Un_assoc)

lemma distinct_remdups_adj: "sorted (xs :: 'a::linorder list) \<Longrightarrow> distinct (remdups_adj xs)"
  by (induction xs rule: remdups_adj.induct) (auto simp: order_antisym)

lemma distinct_merge_paths: "distinct (merge_paths base ours theirs)"
  unfolding merge_paths_def by (intro distinct_remdups_adj sorted_sort)

text \<open>
  The merge succeeds, is a well-formed map, and holds at every path exactly what the
  per-path choice gives.
\<close>

lemma merge_trees_lookup:
  assumes "diff_laws C"
  shows "\<exists>out. merge_trees C base ours theirs = Ok out \<and> bt_wf out \<and>
    (\<forall>p. merge_choice C (bt_get base p) (bt_get ours p) (bt_get theirs p) = Ok (bt_get out p))"
proof -
  let ?f = "\<lambda>p. merge_choice C (bt_get base p) (bt_get ours p) (bt_get theirs p)"
  define g where "g p = (case ?f p of Inr c \<Rightarrow> c | Inl e \<Rightarrow> None)" for p
  have g: "?f p = Ok (g p)" for p
    using merge_choice_ok [OF assms] unfolding g_def by (metis sum.simps(6))
  have none: "g p = None" if "p \<notin> set (merge_paths base ours theirs)" for p
    using that g [of p] by (auto simp: set_merge_paths map_of_eq_None_iff [symmetric])
  obtain out where "merge_trees C base ours theirs = Ok out" "bt_wf out"
    "\<forall>p. bt_get out p = (if p \<in> set (merge_paths base ours theirs) then g p else None)"
    using rfold_build_map [of "merge_paths base ours theirs" ?f g "[]"] g distinct_merge_paths
    unfolding merge_trees_def by auto
  then show ?thesis using g none by (intro exI [of _ out]) auto
qed

end
