(* ===== verification/Demo.thy ===== *)
theory Demo
  imports Merge
begin

text \<open>
  A concrete value of the crate parameters, on which the hypotheses about the crates hold: lower-case
  hexadecimal (also in the place of base64), the identity as compression, a two-sum checksum as digest, a toy
  signature that carries its key, and a diff that aligns a common prefix and a common suffix. It makes
  every definition of the library computable and serves to evaluate the properties on concrete inputs.
\<close>

section \<open>The crates\<close>

definition demo_digit :: "nat \<Rightarrow> char" where
  "demo_digit n = hex_digits ! n"

definition demo_value :: "char \<Rightarrow> nat option" where
  "demo_value c =
     (if 48 \<le> byte c \<and> byte c \<le> 57 then Some (byte c - 48)
      else if 97 \<le> byte c \<and> byte c \<le> 102 then Some (byte c - 87)
      else None)"

definition demo_hexenc :: "bytes \<Rightarrow> string" where
  "demo_hexenc b = concat (map (\<lambda>c. [demo_digit (byte c div 16), demo_digit (byte c mod 16)]) b)"

fun demo_hexdec :: "string \<Rightarrow> bytes option" where
  "demo_hexdec [] = Some []"
| "demo_hexdec [c] = None"
| "demo_hexdec (c # d # s) =
     (case (demo_value c, demo_value d, demo_hexdec s) of
        (Some x, Some y, Some t) \<Rightarrow> Some (char_of (x * 16 + y) # t)
      | _ \<Rightarrow> None)"

definition demo_digest :: "bytes \<Rightarrow> nat" where
  "demo_digest b =
     (case foldl (\<lambda>(a, s) c. (a + byte c + 1, s + a)) (1, 0) b of
        (a, s) \<Rightarrow> (s * 1048576 + a) * 256 + (case b of [] \<Rightarrow> 0 | c # _ \<Rightarrow> byte c))"

text \<open>The low byte of a digest is the first byte of the text, so objects of different kinds never collide.\<close>

definition demo_sign :: "bytes \<Rightarrow> bytes \<Rightarrow> bytes" where
  "demo_sign k m = node_bytes (node_of_bytes k) @ be_bytes 32 (demo_digest m)"

fun demo_common :: "string list \<Rightarrow> string list \<Rightarrow> nat" where
  "demo_common (x # xs) (y # ys) = (if x = y then Suc (demo_common xs ys) else 0)"
| "demo_common xs ys = 0"

definition demo_diff :: "string list \<Rightarrow> string list \<Rightarrow> diff_op list" where
  "demo_diff a b =
     (let n = demo_common a b;
          m = demo_common (rev (drop n a)) (rev (drop n b))
      in [DiffEqual 0 0 n, DiffOther, DiffEqual (length a - m) (length b - m) m])"

definition demo :: crates where
  "demo =
     \<lparr>c_sha1 = \<lambda>b. Oid (of_nat (demo_digest b)),
      c_hexenc = demo_hexenc, c_hexdec = demo_hexdec,
      c_b64enc = demo_hexenc, c_b64dec = demo_hexdec,
      c_deflate = \<lambda>b. b, c_inflate = Some,
      c_pubkey = node_of_bytes, c_sign = demo_sign,
      c_vk_ok = \<lambda>n. True, c_sig_ok = \<lambda>s. length s = 64,
      c_verify = \<lambda>n m s. s = node_bytes n @ be_bytes 32 (demo_digest m),
      c_diff = demo_diff\<rparr>"

lemma demo_sel [simp]:
  "c_sha1 demo b = Oid (of_nat (demo_digest b))"
  "c_hexenc demo = demo_hexenc" "c_hexdec demo = demo_hexdec"
  "c_b64enc demo = demo_hexenc" "c_b64dec demo = demo_hexdec"
  "c_deflate demo b = b" "c_inflate demo = Some"
  "c_pubkey demo = node_of_bytes" "c_sign demo = demo_sign"
  "c_vk_ok demo n" "c_sig_ok demo s = (length s = 64)"
  "c_verify demo n m s = (s = node_bytes n @ be_bytes 32 (demo_digest m))"
  "c_diff demo = demo_diff"
  by (simp_all add: demo_def)

section \<open>Its laws\<close>

lemma byte_div_16: "byte c div 16 < 16"
  using byte_less [of c] by (intro less_mult_imp_div_less) simp

lemma demo_digits:
  "list_all (\<lambda>n. demo_digit n \<in> set hex_digits \<and> demo_value (demo_digit n) = Some n) [0..<16]"
  by (simp add: demo_digit_def demo_value_def hex_digits_def upt_rec)

lemma demo_value_digit: "n < 16 \<Longrightarrow> demo_value (demo_digit n) = Some n"
  and demo_digit_cases: "n < 16 \<Longrightarrow> demo_digit n \<in> set hex_digits"
  using demo_digits by (simp_all add: list_all_iff)

lemma demo_hex_roundtrip: "demo_hexdec (demo_hexenc b) = Some b"
proof (induction b)
  case (Cons c b)
  have "byte c div 16 < 16" by (rule byte_div_16)
  moreover have "byte c div 16 * 16 + byte c mod 16 = byte c" by simp
  then have "char_of (byte c div 16 * 16 + byte c mod 16) = c" by (simp only: char_of_char)
  ultimately show ?case
    using Cons by (simp add: demo_hexenc_def demo_value_digit)
qed (simp add: demo_hexenc_def)

lemma demo_hexenc_digits: "set (demo_hexenc b) \<subseteq> set hex_digits"
  using byte_div_16 by (auto simp: demo_hexenc_def demo_digit_cases)

lemma length_demo_hexenc: "length (demo_hexenc b) = 2 * length b"
  by (induction b) (simp_all add: demo_hexenc_def)

lemma demo_hex_laws [simp]: "hex_laws demo"
  by (simp add: hex_laws_def demo_hex_roundtrip demo_hexenc_digits length_demo_hexenc)

lemma demo_b64_laws [simp]: "b64_laws demo"
proof -
  have "set hex_digits \<subseteq> set b64_digits" by (simp add: hex_digits_def b64_digits_def)
  then have "set (demo_hexenc b) \<subseteq> set b64_digits" for b using demo_hexenc_digits by blast
  moreover have "CHR ''='' \<notin> set (demo_hexenc b)" for b
    using demo_hexenc_digits [of b] by (auto simp: hex_digits_def)
  moreover have "b \<noteq> [] \<Longrightarrow> demo_hexenc b \<noteq> []" for b by (cases b) (simp_all add: demo_hexenc_def)
  ultimately show ?thesis by (simp add: b64_laws_def demo_hex_roundtrip)
qed

lemma demo_zlib_laws [simp]: "zlib_laws demo"
  by (simp add: zlib_laws_def)

lemma demo_ed_laws [simp]: "ed_laws demo"
  by (simp add: ed_laws_def demo_sign_def)

lemma demo_common_le: "demo_common a b \<le> length a \<and> demo_common a b \<le> length b"
  by (induction a b rule: demo_common.induct) auto

lemma demo_common_nth: "k < demo_common a b \<Longrightarrow> a ! k = b ! k"
proof (induction a b arbitrary: k rule: demo_common.induct)
  case (1 x xs y ys)
  then show ?case by (cases k) (auto split: if_splits)
qed simp_all

lemma demo_common_refl: "demo_common a a = length a"
  by (induction a) auto

lemma demo_pairs:
  "equal_pairs demo a b =
     (let n = demo_common a b; m = demo_common (rev (drop n a)) (rev (drop n b))
      in map (\<lambda>k. (k, k)) [0..<n] @ map (\<lambda>k. (length a - m + k, length b - m + k)) [0..<m])"
  by (simp add: equal_pairs_def demo_diff_def Let_def)

lemma demo_pairs_ok: "pairs_ok a b (equal_pairs demo a b)"
proof -
  define n where "n = demo_common a b"
  define m where "m = demo_common (rev (drop n a)) (rev (drop n b))"
  have n: "n \<le> length a" "n \<le> length b" using demo_common_le [of a b] by (simp_all add: n_def)
  have m: "m \<le> length a - n" "m \<le> length b - n"
    using demo_common_le [of "rev (drop n a)" "rev (drop n b)"] by (simp_all add: m_def)
  have suffix: "a ! (length a - m + k) = b ! (length b - m + k)" if "k < m" for k
  proof -
    have "rev (drop n a) ! (m - Suc k) = rev (drop n b) ! (m - Suc k)"
      using that by (intro demo_common_nth) (simp add: m_def)
    moreover have "rev (drop n a) ! (m - Suc k) = a ! (length a - m + k)"
      using that n m by (simp add: rev_nth)
    moreover have "rev (drop n b) ! (m - Suc k) = b ! (length b - m + k)"
      using that n m by (simp add: rev_nth)
    ultimately show ?thesis by simp
  qed
  have "sorted_wrt (\<lambda>p q. fst p < fst q \<and> snd p < snd q)
      (map (\<lambda>k. (k, k)) [0..<n] @ map (\<lambda>k. (length a - m + k, length b - m + k)) [0..<m])"
    using n m by (auto simp: sorted_wrt_append sorted_wrt_map intro: sorted_wrt_mono_rel [OF _ sorted_wrt_upt])
  moreover have "a ! k = b ! k" if "k < n" for k
    using that by (simp add: n_def demo_common_nth)
  ultimately show ?thesis
    unfolding demo_pairs Let_def n_def [symmetric] m_def [symmetric] pairs_ok_def
    using suffix n m by auto
qed

lemma demo_diff_laws [simp]: "diff_laws demo"
  unfolding diff_laws_def by (simp add: demo_pairs_ok) (simp add: demo_pairs demo_common_refl Let_def)

section \<open>Object ids\<close>

lemma demo_digest_low: "demo_digest (c # b) mod 256 = byte c"
proof -
  have "(n * 256 + byte c) mod 256 = byte c" for n using byte_less [of c] by simp
  then show ?thesis by (simp only: demo_digest_def list.case split: prod.split) simp
qed

definition demo_low :: "oid \<Rightarrow> nat" where
  "demo_low x = unat (oid_word x) mod 256"

lemma demo_oid_low: "demo_low (oid_of demo ob) = byte (hd (kind ob))"
proof -
  obtain c b where f: "framed demo ob = c # b" and c: "c = hd (kind ob)"
    by (cases ob) (simp_all add: framed_def Let_def)
  have "demo_low (oid_of demo ob) = demo_digest (framed demo ob) mod 2 ^ 160 mod 256"
    by (simp add: demo_low_def oid_of_def unat_of_nat)
  also have "\<dots> = demo_digest (framed demo ob) mod 256"
    by (rule mod_mod_cancel) simp
  finally show ?thesis by (simp add: f c demo_digest_low)
qed

end
