(* ===== verification/Scope.thy ===== *)
theory Scope
  imports Merge
begin

text \<open>
  The synced set (\<open>scope.rs\<close>): compilation and matching of gitignore patterns, the include and
  ignore layers with the unconditional exclusion of the engine's own directory, and the
  canonical set of directory sentinels of a commit. Text is matched code point by code point.
\<close>

section \<open>Patterns\<close>

definition CONTEXT_DIR :: string where "CONTEXT_DIR = ''.context''"
definition CONTEXTIGNORE :: string where "CONTEXTIGNORE = ''.contextignore''"
definition KEEP :: string where "KEEP = ''.keep''"

definition DEFAULT_CONTEXTIGNORE :: string where
  "DEFAULT_CONTEXTIGNORE =
     ''# CSP scope (synced, last-match-wins gitignore syntax).'' @ [nl] @
     ''# Default: sync markdown files only. Edit to taste.'' @ [nl] @
     ''*'' @ [nl] @ ''!*.md'' @ [nl] @ ''!.contextignore'' @ [nl]"

record scope =
  sc_include :: "string list"
  sc_ignore :: "string list"
  sc_allow_binary :: bool

definition default_scope :: scope where
  "default_scope = \<lparr>sc_include = [''**''], sc_ignore = [], sc_allow_binary = False\<rparr>"

datatype tok = Lit uchar | Any | Star | DStar

record glob =
  gl_negated :: bool
  gl_anchored :: bool
  gl_toks :: "tok list"

abbreviation slash :: uchar where "slash \<equiv> ''/''"

text \<open>The token loop: \<open>**\<close> also swallows one following slash.\<close>

function tokens :: "uchar list \<Rightarrow> tok list" where
  "tokens [] = []"
| "tokens (c # cs) =
     (if c = ''*'' then
        (case cs of
           [] \<Rightarrow> [Star]
         | c2 # rest \<Rightarrow>
             if c2 = ''*'' then
               DStar # tokens (case rest of [] \<Rightarrow> [] | c3 # rest' \<Rightarrow> if c3 = slash then rest' else rest)
             else Star # tokens cs)
      else if c = ''?'' then Any # tokens cs
      else Lit c # tokens cs)"
  by pat_completeness auto
termination
  by (relation "measure length") (auto split: list.splits)

definition compile :: "string \<Rightarrow> glob option" where
  "compile pat =
     (let p = trim_end_char cr pat
      in if str_trim p = [] \<or> starts_with ''#'' (str_trim_start p) then None
         else
           (let negated = starts_with ''!'' p;
                p = (if negated then drop 1 p else p);
                dir_only = ends_with ''/'' p;
                p = (if dir_only then butlast p else p);
                anchored = CHR ''/'' \<in> set p;
                body = trim_start_char (CHR ''/'') p
            in Some \<lparr>gl_negated = negated, gl_anchored = anchored, gl_toks = tokens (str_chars body)\<rparr>))"

text \<open>\<open>body_match\<close> on the rest of the text; a starred token tries every extent in turn.\<close>

function body_match :: "tok list \<Rightarrow> uchar list \<Rightarrow> bool" where
  "body_match [] t = (case t of [] \<Rightarrow> True | x # xs \<Rightarrow> x = slash)"
| "body_match (Lit c # ts) t = (case t of [] \<Rightarrow> False | x # xs \<Rightarrow> x = c \<and> body_match ts xs)"
| "body_match (Any # ts) t = (case t of [] \<Rightarrow> False | x # xs \<Rightarrow> x \<noteq> slash \<and> body_match ts xs)"
| "body_match (Star # ts) t =
     (body_match ts t \<or> (case t of [] \<Rightarrow> False | x # xs \<Rightarrow> x \<noteq> slash \<and> body_match (Star # ts) xs))"
| "body_match (DStar # ts) t =
     (body_match ts t \<or> (case t of [] \<Rightarrow> False | x # xs \<Rightarrow> body_match (DStar # ts) xs))"
  by pat_completeness auto
termination
  by (relation "measure (\<lambda>(ts, t). length ts + length t)") auto

text \<open>The body may start at the beginning or just after any slash.\<close>

fun match_after_slash :: "tok list \<Rightarrow> uchar list \<Rightarrow> bool" where
  "match_after_slash ts [] = False"
| "match_after_slash ts (x # xs) = (x = slash \<and> body_match ts xs \<or> match_after_slash ts xs)"

definition is_match :: "glob \<Rightarrow> string \<Rightarrow> bool" where
  "is_match g text =
     (let t = str_chars text
      in if gl_anchored g then body_match (gl_toks g) t
         else body_match (gl_toks g) t \<or> match_after_slash (gl_toks g) t)"

definition matches_any :: "string list \<Rightarrow> string \<Rightarrow> bool" where
  "matches_any globs rel =
     foldl (\<lambda>decision g.
       case compile g of
         None \<Rightarrow> decision
       | Some gl \<Rightarrow> if is_match gl rel then \<not> gl_negated gl else decision) False globs"

section \<open>The scope\<close>

definition path_in_scope :: "scope \<Rightarrow> string \<Rightarrow> bool" where
  "path_in_scope sc rel =
     (if rel = CONTEXT_DIR \<or> starts_with (CONTEXT_DIR @ ''/'') rel then False
      else if \<not> list_ex (\<lambda>g. case compile g of None \<Rightarrow> False | Some gl \<Rightarrow> is_match gl rel) (sc_include sc)
      then False
      else \<not> matches_any (sc_ignore sc) rel)"

definition content_in_scope :: "scope \<Rightarrow> string \<Rightarrow> bytes \<Rightarrow> bool" where
  "content_in_scope sc rel content =
     (if \<not> path_in_scope sc rel then False
      else if \<not> sc_allow_binary sc \<and> is_binary content then False
      else True)"

definition is_keep :: "string \<Rightarrow> bool" where
  "is_keep p = (p = KEEP \<or> ends_with ''/.keep'' p)"

definition keep_dir :: "string \<Rightarrow> string" where
  "keep_dir p = (if p = KEEP then [] else take (length p - length ''/.keep'') p)"

definition real_files :: "scope \<Rightarrow> files \<Rightarrow> files" where
  "real_files sc files =
     foldl (\<lambda>out (p, c).
       if is_keep p then out
       else if content_in_scope sc p c then bt_insert p c out else out) [] files"

definition occupied :: "string \<Rightarrow> files \<Rightarrow> bool" where
  "occupied d out =
     (if d = [] then out \<noteq> [] else list_ex (starts_with (d @ ''/'')) (bt_keys out))"

definition add_keeps :: "scope \<Rightarrow> string list \<Rightarrow> files \<Rightarrow> files" where
  "add_keeps sc ps out =
     foldl (\<lambda>out p.
       if \<not> is_keep p \<or> \<not> path_in_scope sc p then out
       else if \<not> occupied (keep_dir p) out then bt_insert p [] out else out) out ps"

definition canonicalize_keeps :: "files \<Rightarrow> scope \<Rightarrow> files" where
  "canonicalize_keeps files sc = add_keeps sc (bt_keys files) (real_files sc files)"

section \<open>The meaning of a pattern\<close>

text \<open>What a token list stands for, as the regular expression it was translated from.\<close>

inductive denotes :: "tok list \<Rightarrow> uchar list \<Rightarrow> bool" where
  nil: "denotes [] []"
| lit: "denotes ts w \<Longrightarrow> denotes (Lit c # ts) (c # w)"
| any: "denotes ts w \<Longrightarrow> x \<noteq> slash \<Longrightarrow> denotes (Any # ts) (x # w)"
| star: "denotes ts w \<Longrightarrow> slash \<notin> set u \<Longrightarrow> denotes (Star # ts) (u @ w)"
| dstar: "denotes ts w \<Longrightarrow> denotes (DStar # ts) (u @ w)"

inductive_simps denotes_simps [simp]:
  "denotes [] w" "denotes (Lit c # ts) w" "denotes (Any # ts) w" "denotes (Star # ts) w"
  "denotes (DStar # ts) w"

definition at_boundary :: "uchar list \<Rightarrow> bool" where
  "at_boundary rest \<longleftrightarrow> rest = [] \<or> hd rest = slash"

lemma body_match_iff:
  "body_match ts t \<longleftrightarrow> (\<exists>w rest. t = w @ rest \<and> denotes ts w \<and> at_boundary rest)"
proof (induction ts t rule: body_match.induct)
  case (1 t)
  then show ?case by (cases t) (auto simp: at_boundary_def)
next
  case (2 c ts t)
  show ?case
  proof (cases t)
    case (Cons x xs)
    have "(\<exists>w rest. t = w @ rest \<and> denotes (Lit c # ts) w \<and> at_boundary rest) \<longleftrightarrow>
        x = c \<and> (\<exists>w rest. xs = w @ rest \<and> denotes ts w \<and> at_boundary rest)"
      unfolding Cons denotes_simps by (metis append_Cons list.inject)
    with 2 [OF Cons] Cons show ?thesis by simp
  qed simp
next
  case (3 ts t)
  show ?case
  proof (cases t)
    case (Cons x xs)
    have "(\<exists>w rest. t = w @ rest \<and> denotes (Any # ts) w \<and> at_boundary rest) \<longleftrightarrow>
        x \<noteq> slash \<and> (\<exists>w rest. xs = w @ rest \<and> denotes ts w \<and> at_boundary rest)"
      unfolding Cons denotes_simps by (metis append_Cons list.inject)
    with 3 [OF Cons] Cons show ?thesis by simp
  qed simp
next
  case (4 ts t)
  have "(\<exists>w rest. t = w @ rest \<and> denotes (Star # ts) w \<and> at_boundary rest) \<longleftrightarrow>
    (\<exists>w rest. t = w @ rest \<and> denotes ts w \<and> at_boundary rest) \<or>
    (\<exists>x xs. t = x # xs \<and> x \<noteq> slash \<and>
       (\<exists>w rest. xs = w @ rest \<and> denotes (Star # ts) w \<and> at_boundary rest))" (is "?l = (?a \<or> ?b)")
  proof
    assume ?l
    then obtain u w rest where t: "t = u @ w @ rest" "slash \<notin> set u" "denotes ts w" "at_boundary rest"
      by auto
    show "?a \<or> ?b"
    proof (cases u)
      case Nil
      with t show ?thesis by auto
    next
      case (Cons x u')
      with t have "t = x # ((u' @ w) @ rest)" "x \<noteq> slash" "denotes (Star # ts) (u' @ w)" by auto
      with t(4) show ?thesis by blast
    qed
  next
    assume "?a \<or> ?b"
    then show ?l
    proof
      assume ?a
      then show ?l by (metis denotes.star append_Nil empty_iff empty_set)
    next
      assume ?b
      then obtain x u w rest where "t = x # (u @ w) @ rest" "x \<noteq> slash" "slash \<notin> set u"
        "denotes ts w" "at_boundary rest" by auto
      moreover from this have "denotes (Star # ts) ((x # u) @ w)" by (intro denotes.star) auto
      ultimately show ?l by (metis append_Cons)
    qed
  qed
  with 4 show ?case by (cases t) auto
next
  case (5 ts t)
  have "(\<exists>w rest. t = w @ rest \<and> denotes (DStar # ts) w \<and> at_boundary rest) \<longleftrightarrow>
    (\<exists>w rest. t = w @ rest \<and> denotes ts w \<and> at_boundary rest) \<or>
    (\<exists>x xs. t = x # xs \<and>
       (\<exists>w rest. xs = w @ rest \<and> denotes (DStar # ts) w \<and> at_boundary rest))" (is "?l = (?a \<or> ?b)")
  proof
    assume ?l
    then obtain u w rest where t: "t = u @ w @ rest" "denotes ts w" "at_boundary rest"
      by auto
    show "?a \<or> ?b"
    proof (cases u)
      case Nil
      with t show ?thesis by auto
    next
      case (Cons x u')
      with t have "t = x # ((u' @ w) @ rest)" "denotes (DStar # ts) (u' @ w)" by auto
      with t(3) show ?thesis by blast
    qed
  next
    assume "?a \<or> ?b"
    then show ?l
    proof
      assume ?a
      then show ?l by (metis denotes.dstar append_Nil)
    next
      assume ?b
      then obtain x u w rest where "t = x # (u @ w) @ rest" "denotes ts w" "at_boundary rest" by auto
      moreover from this have "denotes (DStar # ts) ((x # u) @ w)" by (intro denotes.dstar) auto
      ultimately show ?l by (metis append_Cons)
    qed
  qed
  with 5 show ?case by (cases t) auto
qed

lemma match_after_slash_iff:
  "match_after_slash ts t \<longleftrightarrow> (\<exists>pre rest. t = pre @ slash # rest \<and> body_match ts rest)"
proof (induction t)
  case Nil
  then show ?case by simp
next
  case (Cons x t)
  have "(\<exists>pre rest. x # t = pre @ slash # rest \<and> body_match ts rest) \<longleftrightarrow>
    x = slash \<and> body_match ts t \<or> (\<exists>pre rest. t = pre @ slash # rest \<and> body_match ts rest)" (is "?l = ?r")
  proof
    assume ?l
    then obtain pre rest where "x # t = pre @ slash # rest" "body_match ts rest" by blast
    then show ?r by (cases pre) auto
  next
    assume ?r
    then show ?l by (metis append_Cons append_Nil)
  qed
  with Cons show ?case by simp
qed

section \<open>Canonical commit sets\<close>

lemma bt_wf_real_files: "bt_wf (real_files sc files)"
proof -
  have "bt_wf out \<Longrightarrow> bt_wf (foldl (\<lambda>out (p, c).
       if is_keep p then out
       else if content_in_scope sc p c then bt_insert p c out else out) out files)" for out
    by (induction files arbitrary: out) (auto simp: bt_wf_insert)
  then show ?thesis by (simp add: real_files_def)
qed

lemma real_files_get:
  assumes "bt_wf files"
  shows "bt_get (real_files sc files) p =
    (case bt_get files p of
       None \<Rightarrow> None
     | Some c \<Rightarrow> if \<not> is_keep p \<and> content_in_scope sc p c then Some c else None)"
proof -
  let ?f = "\<lambda>out (p, c). if is_keep p then out
       else if content_in_scope sc p c then bt_insert p c out else out"
  have gen: "bt_get (foldl ?f out fs) p =
    (case bt_get fs p of
       None \<Rightarrow> bt_get out p
     | Some c \<Rightarrow> if \<not> is_keep p \<and> content_in_scope sc p c then Some c else bt_get out p)"
    if "distinct (bt_keys fs)" for out fs
    using that
  proof (induction fs arbitrary: out)
    case Nil
    then show ?case by simp
  next
    case (Cons e fs)
    obtain q c where e: "e = (q, c)" by fastforce
    have "bt_get fs p = None" if "p = q"
      using Cons.prems e that by (simp add: map_of_eq_None_iff)
    with Cons e show ?case by (auto simp: bt_simps split: option.splits)
  qed
  show ?thesis
    unfolding real_files_def gen [OF bt_wf_distinct [OF assms], of "[]"]
    by (simp split: option.splits)
qed

lemma add_keeps_props:
  assumes "bt_wf out"
  shows "bt_wf (add_keeps sc ps out)"
    and "\<And>p. \<not> is_keep p \<Longrightarrow> bt_get (add_keeps sc ps out) p = bt_get out p"
    and "\<And>p c. is_keep p \<Longrightarrow> bt_get (add_keeps sc ps out) p = Some c \<Longrightarrow>
       bt_get out p = Some c \<or> c = [] \<and> p \<in> set ps \<and> path_in_scope sc p"
    and "set (bt_keys out) \<subseteq> set (bt_keys (add_keeps sc ps out))"
proof -
  have all: "bt_wf (add_keeps sc ps out) \<and>
    (\<forall>p. \<not> is_keep p \<longrightarrow> bt_get (add_keeps sc ps out) p = bt_get out p) \<and>
    (\<forall>p c. is_keep p \<longrightarrow> bt_get (add_keeps sc ps out) p = Some c \<longrightarrow>
       bt_get out p = Some c \<or> c = [] \<and> p \<in> set ps \<and> path_in_scope sc p) \<and>
    set (bt_keys out) \<subseteq> set (bt_keys (add_keeps sc ps out))"
    using assms
  proof (induction ps arbitrary: out)
    case Nil
    then show ?case by (simp add: add_keeps_def)
  next
    case (Cons q ps)
    let ?out = "if \<not> is_keep q \<or> \<not> path_in_scope sc q then out
       else if \<not> occupied (keep_dir q) out then bt_insert q [] out else out"
    have step: "add_keeps sc (q # ps) out = add_keeps sc ps ?out" by (simp add: add_keeps_def)
    have wf: "bt_wf ?out" using Cons.prems by (simp add: bt_wf_insert)
    have keys: "set (bt_keys out) \<subseteq> set (bt_keys ?out)" by auto
    have other: "bt_get ?out p = bt_get out p" if "\<not> is_keep p" for p
      using that by (auto simp: bt_simps)
    have kept: "bt_get out p = Some c \<or> c = [] \<and> p = q \<and> path_in_scope sc p"
      if "bt_get ?out p = Some c" "is_keep p" for p c
      using that by (auto simp: bt_simps split: if_splits)
    note ih = Cons.IH [OF wf]
    note all = ih [THEN conjunct2, THEN conjunct1, rule_format]
      ih [THEN conjunct2, THEN conjunct2, THEN conjunct1, rule_format]
    show ?case
      unfolding step
    proof (intro conjI allI impI)
      show "bt_wf (add_keeps sc ps ?out)" by (rule ih [THEN conjunct1])
      show "\<And>p. \<not> is_keep p \<Longrightarrow> bt_get (add_keeps sc ps ?out) p = bt_get out p"
        using all(1) other by simp
      show "set (bt_keys out) \<subseteq> set (bt_keys (add_keeps sc ps ?out))"
        using keys ih [THEN conjunct2, THEN conjunct2, THEN conjunct2] by (rule subset_trans)
      fix p c assume k: "is_keep p" and "bt_get (add_keeps sc ps ?out) p = Some c"
      from all(2) [OF this] kept [OF _ k, of c]
      show "bt_get out p = Some c \<or> c = [] \<and> p \<in> set (q # ps) \<and> path_in_scope sc p" by auto
    qed
  qed
  show "bt_wf (add_keeps sc ps out)" by (rule all [THEN conjunct1])
  show "\<And>p. \<not> is_keep p \<Longrightarrow> bt_get (add_keeps sc ps out) p = bt_get out p"
    by (rule all [THEN conjunct2, THEN conjunct1, rule_format])
  show "\<And>p c. is_keep p \<Longrightarrow> bt_get (add_keeps sc ps out) p = Some c \<Longrightarrow>
       bt_get out p = Some c \<or> c = [] \<and> p \<in> set ps \<and> path_in_scope sc p"
    by (rule all [THEN conjunct2, THEN conjunct2, THEN conjunct1, rule_format])
  show "set (bt_keys out) \<subseteq> set (bt_keys (add_keeps sc ps out))"
    by (rule all [THEN conjunct2, THEN conjunct2, THEN conjunct2])
qed

lemma add_keeps_filter: "add_keeps sc ps out = add_keeps sc (filter is_keep ps) out"
  by (induction ps arbitrary: out) (simp_all add: add_keeps_def)

lemma add_keeps_Cons:
  "add_keeps sc (q # ps) out =
     add_keeps sc ps
       (if \<not> is_keep q \<or> \<not> path_in_scope sc q then out
        else if \<not> occupied (keep_dir q) out then bt_insert q [] out else out)"
  by (simp add: add_keeps_def)

text \<open>A second pass over the sentinels that were kept keeps exactly those again.\<close>

lemma add_keeps_again:
  assumes "distinct ps" and "bt_wf out" and "\<And>p. p \<in> set ps \<Longrightarrow> is_keep p \<and> bt_get out p = None"
  shows "add_keeps sc (filter (bt_contains (add_keeps sc ps out)) ps) out = add_keeps sc ps out"
  using assms
proof (induction ps arbitrary: out)
  case Nil
  then show ?case by simp
next
  case (Cons q ps)
  let ?take = "path_in_scope sc q \<and> \<not> occupied (keep_dir q) out"
  let ?out = "if ?take then bt_insert q [] out else out"
  have q: "is_keep q" "bt_get out q = None" using Cons.prems(3) by simp_all
  have step: "add_keeps sc (q # ps') out = add_keeps sc ps' ?out" for ps'
    using q(1) by (simp add: add_keeps_Cons)
  have wf: "bt_wf ?out" using Cons.prems(2) by (simp add: bt_wf_insert)
  have none: "is_keep p \<and> bt_get ?out p = None" if "p \<in> set ps" for p
    using that Cons.prems by (auto simp: bt_simps)
  let ?final = "add_keeps sc ps ?out"
  have ih: "add_keeps sc (filter (bt_contains ?final) ps) ?out = ?final"
    using Cons.IH [OF _ wf none] Cons.prems(1) by simp
  have "bt_contains ?final q \<longleftrightarrow> ?take"
  proof
    assume "bt_contains ?final q"
    then obtain c where "bt_get ?final q = Some c" using bt_contains_get by fastforce
    from add_keeps_props(3) [OF wf q(1) this] Cons.prems(1) have "bt_get ?out q = Some c" by simp
    with q(2) show ?take by (auto split: if_splits)
  next
    assume ?take
    then have "q \<in> set (bt_keys ?out)" by simp
    with add_keeps_props(4) [OF wf] show "bt_contains ?final q" unfolding bt_contains_def by blast
  qed
  then show ?case using ih step by (cases ?take) simp_all
qed

lemma canonicalize_keeps_wf: "bt_wf (canonicalize_keeps files sc)"
  unfolding canonicalize_keeps_def by (rule add_keeps_props(1) [OF bt_wf_real_files])

lemma real_files_canonicalize:
  assumes "bt_wf files"
  shows "real_files sc (canonicalize_keeps files sc) = real_files sc files"
proof (rule bt_ext [OF bt_wf_real_files bt_wf_real_files])
  fix p
  have "\<not> is_keep p \<Longrightarrow> bt_get (canonicalize_keeps files sc) p = bt_get (real_files sc files) p"
    unfolding canonicalize_keeps_def by (rule add_keeps_props(2) [OF bt_wf_real_files])
  then show "bt_get (real_files sc (canonicalize_keeps files sc)) p = bt_get (real_files sc files) p"
    by (auto simp: real_files_get [OF canonicalize_keeps_wf] real_files_get [OF assms] split: option.splits)
qed

lemma canonicalize_idem:
  assumes "bt_wf files"
  shows "canonicalize_keeps (canonicalize_keeps files sc) sc = canonicalize_keeps files sc"
proof -
  let ?r = "real_files sc files" and ?out = "canonicalize_keeps files sc"
  let ?ps = "filter is_keep (bt_keys files)"
  have out: "?out = add_keeps sc ?ps ?r"
    by (simp add: canonicalize_keeps_def add_keeps_filter [of sc "bt_keys files"])
  have sorted: "sorted_wrt (<) (filter is_keep (bt_keys ?out))" "sorted_wrt (<) (filter (bt_contains ?out) ?ps)"
    using canonicalize_keeps_wf assms by (simp_all add: bt_wf_def sorted_wrt_filter)
  have same: "set (filter is_keep (bt_keys ?out)) = set (filter (bt_contains ?out) ?ps)"
  proof (rule set_eqI)
    fix p
    have "is_keep p \<Longrightarrow> bt_contains ?out p \<Longrightarrow> p \<in> set (bt_keys files)"
    proof -
      assume k: "is_keep p" and "bt_contains ?out p"
      then obtain c where "bt_get (add_keeps sc ?ps ?r) p = Some c"
        unfolding out using bt_contains_get by fastforce
      from add_keeps_props(3) [OF bt_wf_real_files k this]
      have "bt_get ?r p = Some c \<or> p \<in> set ?ps" by blast
      with k show ?thesis
        by (auto simp: real_files_get [OF assms] split: option.splits if_splits dest: map_of_SomeD)
    qed
    then show "p \<in> set (filter is_keep (bt_keys ?out)) \<longleftrightarrow> p \<in> set (filter (bt_contains ?out) ?ps)"
      unfolding bt_contains_def by auto
  qed
  have ps: "filter is_keep (bt_keys ?out) = filter (bt_contains ?out) ?ps"
    by (rule strict_sorted_equal [OF sorted(2,1) same])
  have "distinct ?ps" using bt_wf_distinct [OF assms] by (rule distinct_filter)
  moreover have "is_keep p \<and> bt_get ?r p = None" if "p \<in> set ?ps" for p
    using that by (auto simp: real_files_get [OF assms] split: option.splits)
  ultimately have "add_keeps sc (filter (bt_contains (add_keeps sc ?ps ?r)) ?ps) ?r = add_keeps sc ?ps ?r"
    by (intro add_keeps_again bt_wf_real_files)
  then show ?thesis
    unfolding canonicalize_keeps_def [of ?out] real_files_canonicalize [OF assms]
      add_keeps_filter [of sc "bt_keys ?out"] ps
    unfolding out .
qed

lemma path_in_scope_context:
  "path_in_scope sc rel \<Longrightarrow> rel \<noteq> CONTEXT_DIR \<and> \<not> starts_with (CONTEXT_DIR @ ''/'') rel"
  by (simp add: path_in_scope_def split: if_splits)

lemma canonicalize_in_scope:
  assumes "bt_wf files" and "bt_get (canonicalize_keeps files sc) p = Some c"
  shows "path_in_scope sc p \<and> (if is_keep p then c = [] else bt_get files p = Some c \<and> content_in_scope sc p c)"
proof (cases "is_keep p")
  case True
  from add_keeps_props(3) [OF bt_wf_real_files True] assms(2)
  have "bt_get (real_files sc files) p = Some c \<or> c = [] \<and> path_in_scope sc p"
    unfolding canonicalize_keeps_def by blast
  with True show ?thesis by (auto simp: real_files_get [OF assms(1)] split: option.splits if_splits)
next
  case False
  with assms add_keeps_props(2) [OF bt_wf_real_files False, of sc "bt_keys files" sc files]
  have "bt_get (real_files sc files) p = Some c" by (simp add: canonicalize_keeps_def)
  with False show ?thesis
    by (auto simp: real_files_get [OF assms(1)] content_in_scope_def split: option.splits if_splits)
qed

end
