(* ===== verification/Merge_Properties.thy ===== *)
theory Merge_Properties
  imports Demo Scope
begin

text \<open>
  Properties of the total order on primitives, of the three-way merge and of the scope of a vault
  (order.rs, merge.rs and scope.rs of crates/csp-core/src).
\<close>

section \<open>The order on primitives\<close>

definition order_value :: "order_key \<Rightarrow> nat" where
  "order_value k =
     (unat (key_counter k) * 2 ^ 256 + unat (node_word (key_node k))) * 2 ^ 160 + unat (oid_word (key_sha k))"

text \<open>The order on primitives is the numeric order of one big-endian number: the counter, then the
  node id, then the commit id; so every replica sorts the same primitives the same way.\<close>
theorem order_key_numeric: "a < b \<longleftrightarrow> order_value a < order_value b"
proof -
  have lex: "x * k + u < y * k + v \<longleftrightarrow> x < y \<or> x = y \<and> u < v" if "u < k" "v < k" for x y u v k :: nat
  proof (cases x y rule: linorder_cases)
    case less
    then have "(x + 1) * k \<le> y * k" by (intro mult_le_mono1) simp
    with that less show ?thesis by simp
  next
    case greater
    then have "(y + 1) * k \<le> x * k" by (intro mult_le_mono1) simp
    with that greater show ?thesis by simp
  qed simp
  have node: "unat (n :: 256 word) < 2 ^ 256" and oid: "unat (w :: 160 word) < 2 ^ 160" for n w
    using unsigned_less [of n, where 'a = nat] unsigned_less [of w, where 'a = nat] by simp_all
  have lex_eq: "x * k + u = y * k + v \<longleftrightarrow> x = y \<and> u = v" if "u < k" "v < k" for x y u v k :: nat
    using lex [OF that, of x y] lex [OF that(2,1), of y x] by auto
  have eq: "unat c = unat d \<longleftrightarrow> c = d" for c d :: u64
    by (simp only: word_unat_eq_iff)
  have node_eq: "unat (node_word m) = unat (node_word n) \<longleftrightarrow> m = n" for m n
    by (cases m; cases n) (simp add: word_unat_eq_iff)
  show ?thesis
    unfolding order_value_def lex [OF oid oid] lex [OF node node] lex_eq [OF node node] less_order_key_def key_less_def
      node_less_word oid_less_word word_less_nat_alt [symmetric] eq node_eq
    by blast
qed

section \<open>Three-way merge\<close>

text \<open>C18. The tree merge never fails, and decides each path on its own: equal sides stay, a side that
  did not change from the base yields to the other (so a one-sided edit, addition or delete survives), a
  path changed on both sides is merged as text when all three versions exist, and otherwise the second
  side wins.\<close>
theorem merge_trees_table:
  assumes "diff_laws C"
  shows "\<exists>out. merge_trees C base ours theirs = Ok out \<and> bt_wf out \<and>
    (\<forall>p. let b = bt_get base p; u = bt_get ours p; t = bt_get theirs p in
       (u = t \<longrightarrow> bt_get out p = u) \<and>
       (u = b \<longrightarrow> bt_get out p = t) \<and>
       (t = b \<longrightarrow> bt_get out p = u) \<and>
       (u \<noteq> t \<longrightarrow> u \<noteq> b \<longrightarrow> t \<noteq> b \<longrightarrow>
          (case (b, u, t) of
             (Some bb, Some uu, Some tt) \<Rightarrow> \<exists>m. merge_blob C bb uu tt = Ok m \<and> bt_get out p = Some m
           | _ \<Rightarrow> bt_get out p = t)))"
proof -
  obtain out where out: "merge_trees C base ours theirs = Ok out" "bt_wf out"
    and all: "\<And>p. merge_choice C (bt_get base p) (bt_get ours p) (bt_get theirs p) = Ok (bt_get out p)"
    using merge_trees_lookup [OF assms] by blast
  have "let b = bt_get base p; u = bt_get ours p; t = bt_get theirs p in
       (u = t \<longrightarrow> bt_get out p = u) \<and>
       (u = b \<longrightarrow> bt_get out p = t) \<and>
       (t = b \<longrightarrow> bt_get out p = u) \<and>
       (u \<noteq> t \<longrightarrow> u \<noteq> b \<longrightarrow> t \<noteq> b \<longrightarrow>
          (case (b, u, t) of
             (Some bb, Some uu, Some tt) \<Rightarrow> \<exists>m. merge_blob C bb uu tt = Ok m \<and> bt_get out p = Some m
           | _ \<Rightarrow> bt_get out p = t))" for p
    using all [of p]
    by (auto simp: merge_choice_def Let_def res_simps split: if_splits option.splits)
  with out show ?thesis by blast
qed

lemma merge_trees_table_witness:
  "\<exists>out. merge_trees demo [(''f'', ''a''), (''g'', ''b'')] [(''f'', ''a'')] [(''f'', ''c''), (''g'', ''b'')] = Ok out
     \<and> bt_get out ''f'' = Some ''c'' \<and> bt_get out ''g'' = None"
proof -
  obtain out where
    "merge_trees demo [(''f'', ''a''), (''g'', ''b'')] [(''f'', ''a'')] [(''f'', ''c''), (''g'', ''b'')] = Ok out"
    and "\<forall>p. let b = bt_get [(''f'', ''a''), (''g'', ''b'')] p; u = bt_get [(''f'', ''a'')] p;
        t = bt_get [(''f'', ''c''), (''g'', ''b'')] p in
       (u = t \<longrightarrow> bt_get out p = u) \<and> (u = b \<longrightarrow> bt_get out p = t) \<and> (t = b \<longrightarrow> bt_get out p = u) \<and>
       (u \<noteq> t \<longrightarrow> u \<noteq> b \<longrightarrow> t \<noteq> b \<longrightarrow>
          (case (b, u, t) of
             (Some bb, Some uu, Some tt) \<Rightarrow> \<exists>m. merge_blob demo bb uu tt = Ok m \<and> bt_get out p = Some m
           | _ \<Rightarrow> bt_get out p = t))"
    using merge_trees_table [OF demo_diff_laws] by blast
  from this(1) this(2) [THEN spec, of "''f''"] this(2) [THEN spec, of "''g''"] show ?thesis
    by (simp add: Let_def)
qed

text \<open>C19. The line merge is a weave: base, ours and theirs are cut into matching chunks around lines all
  three share, the shared lines are kept, and of each chunk the output takes the side that changed it, or
  theirs when both did. It never fails and never writes a line that neither side has.\<close>
theorem diff3_is_weave:
  assumes "diff_laws C"
  shows "\<exists>cs ls. length cs = Suc (length ls)
    \<and> split_lines base = weave (map fst cs) ls
    \<and> split_lines ours = weave (map (\<lambda>c. fst (snd c)) cs) ls
    \<and> split_lines theirs = weave (map (\<lambda>c. snd (snd c)) cs) ls
    \<and> diff3 C base ours theirs = Ok (concat (weave (map pick cs) ls))
    \<and> set (weave (map pick cs) ls) \<subseteq> set (split_lines ours) \<union> set (split_lines theirs)"
proof -
  obtain cs ls where w: "length cs = Suc (length ls)" "split_lines base = weave (map fst cs) ls"
    "split_lines ours = weave (map (\<lambda>c. fst (snd c)) cs) ls"
    "split_lines theirs = weave (map (\<lambda>c. snd (snd c)) cs) ls"
    "diff3 C base ours theirs = Ok (concat (weave (map pick cs) ls))"
    using diff3_weave [OF assms, of base ours theirs] by metis
  from set_weave_pick [OF w(1)] w show ?thesis by metis
qed

lemma diff3_is_weave_witness:
  "\<exists>cs ls. length cs = Suc (length ls)
    \<and> diff3 demo [CHR ''a'', nl, CHR ''b'', nl, CHR ''c'', nl] [CHR ''x'', nl, CHR ''b'', nl, CHR ''c'', nl]
        [CHR ''a'', nl, CHR ''b'', nl, CHR ''y'', nl] = Ok (concat (weave (map pick cs) ls))"
  using diff3_is_weave [OF demo_diff_laws] by blast

text \<open>A side equal to the base contributes nothing: the merge is exactly the other side.\<close>
theorem diff3_one_sided:
  assumes "diff_laws C"
  shows "diff3 C base base other = Ok other \<and> diff3 C base other base = Ok other"
  using diff3_ours_base [OF assms] diff3_theirs_base [OF assms] by blast

lemma diff3_one_sided_witness:
  "diff3 demo ''a'' ''a'' ''b'' = Ok ''b'' \<and> diff3 demo ''a'' ''b'' ''a'' = Ok ''b''"
  using diff3_one_sided [OF demo_diff_laws, of "''a''" "''b''"] .

section \<open>The scope of a vault\<close>


text \<open>The vault's own directory is never in scope, whatever the include and ignore patterns say.\<close>
theorem context_never_in_scope:
  "path_in_scope sc CONTEXT_DIR = False \<and> path_in_scope sc (CONTEXT_DIR @ ''/'' @ rest) = False"
  using path_in_scope_context [of sc] by (auto simp: starts_with_iff)

text \<open>Canonicalizing the sentinels keeps every real in-scope file as it was, adds nothing that is out
  of scope, makes every sentinel empty, and doing it again changes nothing.\<close>
theorem canonicalize_keeps_canonical:
  assumes "bt_wf files"
  shows "canonicalize_keeps (canonicalize_keeps files sc) sc = canonicalize_keeps files sc
    \<and> (\<forall>p c. bt_get (canonicalize_keeps files sc) p = Some c \<longrightarrow>
         path_in_scope sc p \<and> (if is_keep p then c = [] else bt_get files p = Some c \<and> content_in_scope sc p c))
    \<and> (\<forall>p c. \<not> is_keep p \<longrightarrow> bt_get files p = Some c \<longrightarrow> content_in_scope sc p c \<longrightarrow>
         bt_get (canonicalize_keeps files sc) p = Some c)"
proof (intro conjI allI impI)
  show "canonicalize_keeps (canonicalize_keeps files sc) sc = canonicalize_keeps files sc"
    by (rule canonicalize_idem [OF assms])
next
  fix p c assume "bt_get (canonicalize_keeps files sc) p = Some c"
  note in_scope = canonicalize_in_scope [OF assms this]
  then show "path_in_scope sc p" and "if is_keep p then c = [] else bt_get files p = Some c \<and> content_in_scope sc p c"
    by blast+
next
  fix p c assume "\<not> is_keep p" "bt_get files p = Some c" "content_in_scope sc p c"
  then show "bt_get (canonicalize_keeps files sc) p = Some c"
    using add_keeps_props(2) [OF bt_wf_real_files] real_files_get [OF assms, of sc p]
    by (simp add: canonicalize_keeps_def)
qed

lemma canonicalize_keeps_canonical_witness:
  "canonicalize_keeps (canonicalize_keeps [(''d/.keep'', ''x'')] default_scope) default_scope =
     canonicalize_keeps [(''d/.keep'', ''x'')] default_scope"
  using canonicalize_keeps_canonical [of "[(''d/.keep'', ''x'')]" default_scope] by (simp add: bt_wf_def)

end
