(* ===== verification/Store.thy ===== *)
theory Store
  imports Object
begin

text \<open>
  Object stores (\<open>store.rs\<close>). The trait \<open>Store\<close> is a dictionary of operations, passed to
  the engine definitions that write; its contract is the locale \<open>object_store\<close>, which the
  in-memory store and the stock-git loose-object store both satisfy.
\<close>

section \<open>The trait\<close>

record 's store_ops =
  so_get :: "'s \<Rightarrow> oid \<Rightarrow> git_object res"
  so_has :: "'s \<Rightarrow> oid \<Rightarrow> bool"
  so_put :: "git_object \<Rightarrow> ('s, oid) seff"

definition get_raw :: "crates \<Rightarrow> 's store_ops \<Rightarrow> 's \<Rightarrow> oid \<Rightarrow> bytes res" where
  "get_raw C ops s x = rbind (so_get ops s x) (\<lambda>ob. Ok (compress C ob))"

definition put_raw :: "crates \<Rightarrow> 's store_ops \<Rightarrow> bytes \<Rightarrow> ('s, oid) seff" where
  "put_raw C ops raw = sbind (sread (\<lambda>_. decompress_and_parse C raw)) (so_put ops)"

definition put_all :: "'s store_ops \<Rightarrow> git_object list \<Rightarrow> ('s, unit) seff" where
  "put_all ops = smapM (\<lambda>ob. sbind (so_put ops ob) (\<lambda>_. sret ()))"

text \<open>One store has everything another has.\<close>

definition get_le :: "(oid \<Rightarrow> git_object res) \<Rightarrow> (oid \<Rightarrow> git_object res) \<Rightarrow> bool" where
  "get_le g g' \<longleftrightarrow> (\<forall>x ob. g x = Ok ob \<longrightarrow> g' x = Ok ob)"

lemma get_leD: "get_le g g' \<Longrightarrow> g x = Ok ob \<Longrightarrow> g' x = Ok ob"
  by (simp add: get_le_def)

lemma get_le_refl [simp]: "get_le g g"
  by (simp add: get_le_def)

lemma get_le_trans: "get_le a b \<Longrightarrow> get_le b c \<Longrightarrow> get_le a c"
  by (simp add: get_le_def)

section \<open>The contract\<close>

text \<open>
  \<open>reread\<close> is what reading back an object stored for the first time gives. A store may
  already hold another object under the same id; then \<open>put\<close> changes nothing.
\<close>

locale object_store =
  fixes get :: "'s \<Rightarrow> oid \<Rightarrow> git_object res"
    and has :: "'s \<Rightarrow> oid \<Rightarrow> bool"
    and put :: "git_object \<Rightarrow> ('s, oid) seff"
    and oid_of :: "git_object \<Rightarrow> oid"
    and reread :: "git_object \<Rightarrow> git_object res"
    and inv :: "'s \<Rightarrow> bool"
  assumes put_ok: "snd (put ob s) = Ok (oid_of ob)"
    and put_inv: "inv s \<Longrightarrow> inv (fst (put ob s))"
    and put_present: "inv s \<Longrightarrow> has s (oid_of ob) \<Longrightarrow> get (fst (put ob s)) = get s"
    and put_new: "inv s \<Longrightarrow> \<not> has s (oid_of ob) \<Longrightarrow>
           get (fst (put ob s)) x = (if x = oid_of ob then reread ob else get s x)"
    and has_put: "inv s \<Longrightarrow> has (fst (put ob s)) x \<longleftrightarrow> x = oid_of ob \<or> has s x"
    and get_has: "inv s \<Longrightarrow> get s x = Ok ob \<Longrightarrow> has s x"
begin

lemma put_eq: "put ob s = (fst (put ob s), Ok (oid_of ob))"
  using put_ok [of ob s] by (cases "put ob s") simp

lemma put_get_le:
  assumes "inv s"
  shows "get_le (get s) (get (fst (put ob s)))"
proof (cases "has s (oid_of ob)")
  case True
  with assms show ?thesis by (simp add: put_present)
next
  case False
  with assms show ?thesis using get_has by (auto simp: get_le_def put_new)
qed

lemma put_get_other:
  "inv s \<Longrightarrow> x \<noteq> oid_of ob \<Longrightarrow> get (fst (put ob s)) x = get s x"
  by (cases "has s (oid_of ob)") (simp_all add: put_present put_new)

lemma put_twice:
  assumes "inv s"
  shows "get (fst (put ob (fst (put ob s)))) = get (fst (put ob s))"
  using assms by (intro put_present) (simp_all add: put_inv has_put)

end

section \<open>The in-memory store\<close>

type_synonym mem_store = "(oid \<times> git_object) list"

definition mem_new :: mem_store where "mem_new = []"

definition mem_len :: "mem_store \<Rightarrow> nat" where "mem_len s = length s"

definition mem_oids :: "mem_store \<Rightarrow> oid list" where "mem_oids s = bt_keys s"

definition mem_get :: "crates \<Rightarrow> mem_store \<Rightarrow> oid \<Rightarrow> git_object res" where
  "mem_get C s x =
     (case bt_get s x of None \<Rightarrow> Err (ObjectNotFound (to_hex C x)) | Some ob \<Rightarrow> Ok ob)"

definition mem_has :: "mem_store \<Rightarrow> oid \<Rightarrow> bool" where
  "mem_has s x = (bt_get s x \<noteq> None)"

definition mem_put :: "crates \<Rightarrow> git_object \<Rightarrow> (mem_store, oid) seff" where
  "mem_put C ob s =
     (let x = oid_of C ob
      in (case bt_get s x of None \<Rightarrow> bt_insert x ob s | Some _ \<Rightarrow> s, Ok x))"

definition mem_ops :: "crates \<Rightarrow> mem_store store_ops" where
  "mem_ops C = \<lparr>so_get = mem_get C, so_has = mem_has, so_put = mem_put C\<rparr>"

lemma mem_ops_sel [simp]:
  "so_get (mem_ops C) = mem_get C" "so_has (mem_ops C) = mem_has" "so_put (mem_ops C) = mem_put C"
  by (simp_all add: mem_ops_def)

lemma mem_get_Ok_iff: "mem_get C s x = Ok ob \<longleftrightarrow> bt_get s x = Some ob"
  by (simp add: mem_get_def split: option.splits)

interpretation mem: object_store "mem_get C" mem_has "mem_put C" "oid_of C" Ok bt_wf
  for C
proof unfold_locales
  fix ob s x ob'
  show "snd (mem_put C ob s) = Ok (oid_of C ob)" by (simp add: mem_put_def Let_def)
  show "bt_wf s \<Longrightarrow> bt_wf (fst (mem_put C ob s))"
    by (auto simp: mem_put_def Let_def bt_wf_insert split: option.splits)
  show "mem_has s (oid_of C ob) \<Longrightarrow> mem_get C (fst (mem_put C ob s)) = mem_get C s"
    by (auto simp: mem_put_def mem_has_def Let_def)
  show "\<not> mem_has s (oid_of C ob) \<Longrightarrow>
      mem_get C (fst (mem_put C ob s)) x = (if x = oid_of C ob then Ok ob else mem_get C s x)"
    by (auto simp: mem_put_def mem_has_def Let_def mem_get_def bt_simps)
  show "mem_has (fst (mem_put C ob s)) x \<longleftrightarrow> x = oid_of C ob \<or> mem_has s x"
    by (auto simp: mem_put_def mem_has_def Let_def bt_simps split: option.splits)
  show "mem_get C s x = Ok ob' \<Longrightarrow> mem_has s x" by (simp add: mem_get_Ok_iff mem_has_def)
qed

section \<open>The loose-object store\<close>

text \<open>
  The files and directories below the engine's git directory, by path relative to it. The
  operating system's own failures (no space, no permission) are not modelled.
\<close>

record disk =
  d_files :: "string \<rightharpoonup> bytes"
  d_dirs :: "string set"

definition mkdir :: "string \<Rightarrow> disk \<Rightarrow> disk" where
  "mkdir p d = d\<lparr>d_dirs := insert p (d_dirs d)\<rparr>"

definition write_file :: "string \<Rightarrow> bytes \<Rightarrow> disk \<Rightarrow> disk" where
  "write_file p b d = d\<lparr>d_files := (d_files d)(p \<mapsto> b)\<rparr>"

definition rename_file :: "string \<Rightarrow> string \<Rightarrow> disk \<Rightarrow> disk" where
  "rename_file p q d = d\<lparr>d_files := ((d_files d)(p := None))(q := d_files d p)\<rparr>"

definition disk_init :: "string \<Rightarrow> disk \<Rightarrow> disk" where
  "disk_init work_tree d =
     (let d = mkdir ''refs/tags'' (mkdir ''refs/heads'' (mkdir ''objects'' d));
          d = (if d_files d ''HEAD'' = None
               then write_file ''HEAD'' (''ref: refs/heads/main'' @ [nl]) d else d)
      in write_file ''config''
           (''[core]'' @ [nl] @ [CHR 0x09] @ ''repositoryformatversion = 0'' @ [nl] @
            [CHR 0x09] @ ''bare = false'' @ [nl] @ [CHR 0x09] @ ''worktree = '' @ work_tree @ [nl]) d)"

definition disk_open :: "disk \<Rightarrow> disk res" where
  "disk_open d = (if ''objects'' \<notin> d_dirs d then Err (Io ''no engine repo'') else Ok d)"

definition loose_dir :: "crates \<Rightarrow> oid \<Rightarrow> string" where
  "loose_dir C x = ''objects/'' @ take 2 (to_hex C x)"

definition loose_path :: "crates \<Rightarrow> oid \<Rightarrow> string" where
  "loose_path C x = loose_dir C x @ ''/'' @ drop 2 (to_hex C x)"

definition tmp_path :: "crates \<Rightarrow> oid \<Rightarrow> string" where
  "tmp_path C x = loose_path C x @ ''.tmp''"

definition disk_get :: "crates \<Rightarrow> disk \<Rightarrow> oid \<Rightarrow> git_object res" where
  "disk_get C d x =
     (case d_files d (loose_path C x) of
        None \<Rightarrow> Err (ObjectNotFound (to_hex C x))
      | Some raw \<Rightarrow> decompress_and_parse C raw)"

definition disk_has :: "crates \<Rightarrow> disk \<Rightarrow> oid \<Rightarrow> bool" where
  "disk_has C d x = (d_files d (loose_path C x) \<noteq> None)"

text \<open>
  The file operations of one \<open>put\<close>, in order, and the states a reader or a crash can
  meet on the way: after none, one, two or all of them.
\<close>

definition disk_put_steps :: "crates \<Rightarrow> git_object \<Rightarrow> disk \<Rightarrow> (disk \<Rightarrow> disk) list" where
  "disk_put_steps C ob d =
     (let x = oid_of C ob
      in if disk_has C d x then []
         else [mkdir (loose_dir C x), write_file (tmp_path C x) (compress C ob),
               rename_file (tmp_path C x) (loose_path C x)])"

definition disk_put :: "crates \<Rightarrow> git_object \<Rightarrow> (disk, oid) seff" where
  "disk_put C ob d = (foldl (\<lambda>d f. f d) d (disk_put_steps C ob d), Ok (oid_of C ob))"

definition disk_ops :: "crates \<Rightarrow> disk store_ops" where
  "disk_ops C = \<lparr>so_get = disk_get C, so_has = disk_has C, so_put = disk_put C\<rparr>"

lemma disk_ops_sel [simp]:
  "so_get (disk_ops C) = disk_get C" "so_has (disk_ops C) = disk_has C"
  "so_put (disk_ops C) = disk_put C"
  by (simp_all add: disk_ops_def)

lemma loose_path_inj: "hex_laws C \<Longrightarrow> loose_path C x = loose_path C y \<longleftrightarrow> x = y"
proof
  assume h: "hex_laws C" and eq: "loose_path C x = loose_path C y"
  have "length (take 2 (to_hex C x)) = length (take 2 (to_hex C y))"
    using h by (simp add: length_to_hex)
  with eq have "take 2 (to_hex C x) = take 2 (to_hex C y)" "drop 2 (to_hex C x) = drop 2 (to_hex C y)"
    by (simp_all add: loose_path_def loose_dir_def)
  then have "to_hex C x = to_hex C y" by (metis append_take_drop_id)
  with h show "x = y" by (simp add: to_hex_inj)
qed simp

lemma tmp_path_loose: "hex_laws C \<Longrightarrow> tmp_path C x \<noteq> loose_path C y"
proof
  assume h: "hex_laws C" and eq: "tmp_path C x = loose_path C y"
  have "length (tmp_path C x) = length (loose_path C y) + 4"
    using h by (simp add: tmp_path_def loose_path_def loose_dir_def length_to_hex)
  with eq show False by simp
qed

definition disk_inv :: "crates \<Rightarrow> disk \<Rightarrow> bool" where
  "disk_inv C d \<longleftrightarrow> hex_laws C \<and> zlib_laws C"

lemma disk_put_files:
  assumes "hex_laws C"
  shows "d_files (fst (disk_put C ob d)) (loose_path C x) =
    (if x = oid_of C ob \<and> \<not> disk_has C d x then Some (compress C ob)
     else d_files d (loose_path C x))"
  using assms tmp_path_loose [OF assms, of "oid_of C ob" x] loose_path_inj [OF assms, of x "oid_of C ob"]
  by (auto simp: disk_put_def disk_put_steps_def Let_def mkdir_def write_file_def rename_file_def
        disk_has_def)

interpretation dsk: object_store "disk_get C" "disk_has C" "disk_put C" "oid_of C"
  "\<lambda>ob. parse_framed C (framed C ob)" "disk_inv C"
  for C
proof unfold_locales
  fix ob d x ob'
  show "snd (disk_put C ob d) = Ok (oid_of C ob)" by (simp add: disk_put_def)
  assume inv: "disk_inv C d"
  then have h: "hex_laws C" and z: "zlib_laws C" by (simp_all add: disk_inv_def)
  show "disk_inv C (fst (disk_put C ob d))" using inv by (simp add: disk_inv_def)
  show "disk_has C d (oid_of C ob) \<Longrightarrow> disk_get C (fst (disk_put C ob d)) = disk_get C d"
    by (rule ext) (auto simp: disk_get_def disk_put_files [OF h])
  show "\<not> disk_has C d (oid_of C ob) \<Longrightarrow>
      disk_get C (fst (disk_put C ob d)) x =
        (if x = oid_of C ob then parse_framed C (framed C ob) else disk_get C d x)"
    using z by (auto simp: disk_get_def disk_put_files [OF h] compress_def
        decompress_and_parse_def zlib_laws_def)
  show "disk_has C (fst (disk_put C ob d)) x \<longleftrightarrow> x = oid_of C ob \<or> disk_has C d x"
    by (auto simp: disk_has_def disk_put_files [OF h])
  show "disk_get C d x = Ok ob' \<Longrightarrow> disk_has C d x"
    by (auto simp: disk_get_def disk_has_def split: option.splits)
qed

text \<open>The intermediate states of a \<open>put\<close>, as seen by a reader.\<close>

definition disk_states :: "crates \<Rightarrow> git_object \<Rightarrow> disk \<Rightarrow> disk list" where
  "disk_states C ob d =
     map (\<lambda>n. foldl (\<lambda>d f. f d) d (take n (disk_put_steps C ob d)))
       [0..<Suc (length (disk_put_steps C ob d))]"

lemma disk_states_cases:
  assumes h: "hex_laws C" and "d' \<in> set (disk_states C ob d)"
  shows "(\<forall>x. disk_get C d' x = disk_get C d x)
    \<or> (\<forall>x. disk_get C d' x = disk_get C (fst (disk_put C ob d)) x)"
proof (cases "disk_has C d (oid_of C ob)")
  case True
  with assms(2) show ?thesis
    by (simp add: disk_states_def disk_put_steps_def Let_def disk_put_def)
next
  case False
  let ?x = "oid_of C ob"
  let ?m = "mkdir (loose_dir C ?x)" and ?w = "write_file (tmp_path C ?x) (compress C ob)"
    and ?r = "rename_file (tmp_path C ?x) (loose_path C ?x)"
  have steps: "disk_put_steps C ob d = [?m, ?w, ?r]"
    using False by (simp add: disk_put_steps_def Let_def)
  have "disk_states C ob d = [d, ?m d, ?w (?m d), ?r (?w (?m d))]"
    unfolding disk_states_def steps by (simp add: upt_rec)
  with assms(2) consider "d' = d" | "d' = ?m d" | "d' = ?w (?m d)" | "d' = ?r (?w (?m d))" by auto
  then show ?thesis
  proof cases
    case 3
    have "loose_path C y \<noteq> tmp_path C z" for y z
      using tmp_path_loose [OF h, of z y] by simp
    with 3 show ?thesis by (simp add: disk_get_def write_file_def mkdir_def)
  next
    case 4
    then show ?thesis by (simp add: disk_put_def steps)
  qed (auto simp: disk_get_def mkdir_def)
qed

end
