(* ===== verification/Fold.thy ===== *)
theory Fold
  imports Store Merge
begin

text \<open>
  The deterministic fold (\<open>fold.rs\<close>): primitives and their trailers, the walk over the commit
  graph, ghost-add classification, the frontier, the merge base, the left fold of the
  frontier into synthetic fold commits, and the verification of a received fold commit.
  Readers take the store's \<open>get\<close> as a function; writers take the whole dictionary. Walks of
  the object graph are bounded by the finitely many object ids.
\<close>

section \<open>Constants and trailers\<close>

definition FOLD_NAME :: string where "FOLD_NAME = ''csp''"
definition FOLD_EMAIL :: string where "FOLD_EMAIL = ''csp@localhost''"
definition GENESIS_MSG :: string where "GENESIS_MSG = ''csp: genesis'' @ [nl]"
definition FOLD_MSG :: string where "FOLD_MSG = ''csp: fold'' @ [nl]"
definition READD_TRAILER :: string where "READD_TRAILER = ''CSP-Readd: ''"

type_synonym getter = "oid \<Rightarrow> git_object res"

fun meta_line :: "crates \<Rightarrow> u64 option \<times> node_id option \<Rightarrow> string \<Rightarrow> u64 option \<times> node_id option" where
  "meta_line C (counter, node) line =
     (case strip_prefix ''CSP-Counter: '' line of
        Some v \<Rightarrow> (parse_u64 (str_trim v), node)
      | None \<Rightarrow>
          (case strip_prefix ''CSP-Node: '' line of
             Some v \<Rightarrow> (counter, node_from_hex C (str_trim v))
           | None \<Rightarrow> (counter, node)))"

definition parse_primitive_meta :: "crates \<Rightarrow> commit_obj \<Rightarrow> (u64 \<times> node_id) option" where
  "parse_primitive_meta C c =
     (case foldl (meta_line C) (None, None) (str_lines (co_message c)) of
        (Some counter, Some node) \<Rightarrow> Some (counter, node)
      | _ \<Rightarrow> None)"

definition is_primitive :: "crates \<Rightarrow> commit_obj \<Rightarrow> bool" where
  "is_primitive C c = (parse_primitive_meta C c \<noteq> None)"

definition parse_primitive_readds :: "crates \<Rightarrow> commit_obj \<Rightarrow> oid list" where
  "parse_primitive_readds C c =
     concat (map (\<lambda>line.
       case strip_prefix READD_TRAILER line of
         None \<Rightarrow> []
       | Some v \<Rightarrow> (case from_hex C (str_trim v) of Inl _ \<Rightarrow> [] | Inr x \<Rightarrow> [x]))
       (str_lines (co_message c)))"

definition load_commit :: "getter \<Rightarrow> oid \<Rightarrow> commit_obj res" where
  "load_commit get x =
     rbind (get x) (\<lambda>ob. case ob of Commit c \<Rightarrow> Ok c | _ \<Rightarrow> Err (Malformed ''is not a commit''))"

section \<open>The commit graph\<close>

text \<open>The head of \<open>stack\<close> is the next commit popped.\<close>

function ancestors_loop :: "getter \<Rightarrow> bool \<Rightarrow> oid list \<Rightarrow> oid list \<Rightarrow> oid list res" where
  "ancestors_loop get first [] seen = Ok seen"
| "ancestors_loop get first (x # stack) seen =
     (if \<not> first \<and> x \<in> set seen then ancestors_loop get first stack seen
      else
        (let seen' = (if first then seen else x # seen)
         in rbind (load_commit get x) (\<lambda>c.
              ancestors_loop get False (rev (filter (\<lambda>p. p \<notin> set seen') (co_parents c)) @ stack) seen')))"
  by pat_completeness auto
termination
proof (relation "measures [\<lambda>(get, first, stack, seen). if first then 1 else 0,
    \<lambda>(get, first, stack, seen). card (UNIV - set seen), \<lambda>(get, first, stack, seen). length stack]")
  fix get :: getter and first x and stack seen seen' :: "oid list" and c
  assume "\<not> (\<not> first \<and> x \<in> set seen)" and s: "seen' = (if first then seen else x # seen)"
  then have "\<not> first \<Longrightarrow> UNIV - set seen' \<subset> UNIV - set seen" by auto
  then have "\<not> first \<Longrightarrow> card (UNIV - set seen') < card (UNIV - set seen)"
    by (intro psubset_card_mono) simp_all
  then show "((get, False, rev (filter (\<lambda>p. p \<notin> set seen') (co_parents c)) @ stack, seen'),
      get, first, x # stack, seen)
      \<in> measures [\<lambda>(get, first, stack, seen). if first then 1 else 0,
          \<lambda>(get, first, stack, seen). card (UNIV - set seen),
          \<lambda>(get, first, stack, seen). length stack]"
    by (cases first) simp_all
qed simp_all

definition ancestors :: "getter \<Rightarrow> oid \<Rightarrow> oid list res" where
  "ancestors get start = ancestors_loop get True [start] []"

definition order_key :: "crates \<Rightarrow> getter \<Rightarrow> oid \<Rightarrow> order_key res" where
  "order_key C get x =
     rbind (load_commit get x) (\<lambda>c.
       case parse_primitive_meta C c of
         None \<Rightarrow> Err (FoldVerify ''is not a primitive'')
       | Some (counter, node) \<Rightarrow> Ok (OrderKey counter node x))"

section \<open>Ghost-add classification\<close>

datatype touch_kind = Add | Delete

text \<open>\<open>segs\<close> is the rest of the path; the last segment must be a file.\<close>

fun path_walk :: "getter \<Rightarrow> oid \<Rightarrow> string list \<Rightarrow> bool res" where
  "path_walk get cur [] = Ok False"
| "path_walk get cur (seg # segs) =
     rbind (get cur) (\<lambda>ob.
       case ob of
         Tree entries \<Rightarrow>
           (case find (\<lambda>e. te_name e = seg) entries of
              None \<Rightarrow> Ok False
            | Some e \<Rightarrow>
                if segs = [] then Ok (te_mode e \<noteq> TREE_MODE)
                else if te_mode e \<noteq> TREE_MODE then Ok False
                else path_walk get (te_oid e) segs)
       | _ \<Rightarrow> Ok False)"

definition path_present_in_tree :: "getter \<Rightarrow> oid \<Rightarrow> string \<Rightarrow> bool res" where
  "path_present_in_tree get t path = path_walk get t (str_split (CHR ''/'') path)"

text \<open>What one commit of the walk did to the path.\<close>

definition touch_of :: "crates \<Rightarrow> getter \<Rightarrow> string \<Rightarrow> oid \<Rightarrow> commit_obj \<Rightarrow> (order_key \<times> oid \<times> touch_kind) option res" where
  "touch_of C get path x c =
     (if \<not> is_primitive C c then Ok None
      else
        (case (co_parents c, parse_primitive_meta C c) of
           (parent # others, Some (counter, node)) \<Rightarrow>
             if others \<noteq> [] then Ok None
             else
               rbind (path_present_in_tree get (co_tree c) path) (\<lambda>in_p.
               rbind (load_commit get parent) (\<lambda>pc.
               rbind (path_present_in_tree get (co_tree pc) path) (\<lambda>in_parent.
                 Ok (if \<not> in_parent \<and> in_p then Some (OrderKey counter node x, x, Add)
                     else if in_parent \<and> \<not> in_p then Some (OrderKey counter node x, x, Delete)
                     else None))))
         | _ \<Rightarrow> Ok None))"

fun better :: "(order_key \<times> oid \<times> touch_kind) option \<Rightarrow> (order_key \<times> oid \<times> touch_kind) option
    \<Rightarrow> (order_key \<times> oid \<times> touch_kind) option" where
  "better best None = best"
| "better None (Some t) = Some t"
| "better (Some b) (Some t) = (if fst b \<ge> fst t then Some b else Some t)"

function touch_loop ::
  "crates \<Rightarrow> getter \<Rightarrow> string \<Rightarrow> bool \<Rightarrow> oid list \<Rightarrow> oid list
    \<Rightarrow> (order_key \<times> oid \<times> touch_kind) option \<Rightarrow> (order_key \<times> oid \<times> touch_kind) option res"
where
  "touch_loop C get path first [] seen best = Ok best"
| "touch_loop C get path first (x # stack) seen best =
     (if \<not> first \<and> x \<in> set seen then touch_loop C get path first stack seen best
      else
        (let seen' = (if first then seen else x # seen)
         in rbind (load_commit get x) (\<lambda>c.
            rbind (touch_of C get path x c) (\<lambda>t.
              touch_loop C get path False
                (rev (filter (\<lambda>p. p \<notin> set seen') (co_parents c)) @ stack) seen' (better best t)))))"
  by pat_completeness auto
termination
proof (relation "measures [\<lambda>(C, get, path, first, stack, seen, best). if first then 1 else 0,
    \<lambda>(C, get, path, first, stack, seen, best). card (UNIV - set seen),
    \<lambda>(C, get, path, first, stack, seen, best). length stack]")
  fix C :: crates and get :: getter and path :: string and first x
    and stack seen seen' :: "oid list" and best b c t
  assume "\<not> (\<not> first \<and> x \<in> set seen)" and s: "seen' = (if first then seen else x # seen)"
  then have "\<not> first \<Longrightarrow> UNIV - set seen' \<subset> UNIV - set seen" by auto
  then have "\<not> first \<Longrightarrow> card (UNIV - set seen') < card (UNIV - set seen)"
    by (intro psubset_card_mono) simp_all
  then show "((C, get, path, False, rev (filter (\<lambda>p. p \<notin> set seen') (co_parents c)) @ stack,
        seen', better best t), C, get, path, first, x # stack, seen, best)
      \<in> measures [\<lambda>(C, get, path, first, stack, seen, best). if first then 1 else 0,
          \<lambda>(C, get, path, first, stack, seen, best). card (UNIV - set seen),
          \<lambda>(C, get, path, first, stack, seen, best). length stack]"
    by (cases first) simp_all
qed simp_all

definition most_recent_touch_uncached ::
  "crates \<Rightarrow> getter \<Rightarrow> oid \<Rightarrow> string \<Rightarrow> (oid \<times> touch_kind) option res" where
  "most_recent_touch_uncached C get start path =
     rbind (touch_loop C get path True [start] [] None) (\<lambda>best. Ok (map_option snd best))"

text \<open>
  \<open>tree_paths_added\<close>. As in \<open>walk_tree\<close>, the recursion of the source has no bound on a cyclic
  tree: \<open>path\<close> holds the pairs of trees being compared, and meeting one again is \<open>Diverge\<close>.
\<close>

function tree_paths_added ::
  "(oid option \<times> oid) list \<Rightarrow> getter \<Rightarrow> string \<Rightarrow> oid option \<Rightarrow> oid \<Rightarrow> string list \<Rightarrow> string list res"
where
  "tree_paths_added path get prefix parent child out =
     (if (parent, child) \<in> set path then Err Diverge
      else if Some child = parent then Ok out
      else
        rbind (get child) (\<lambda>cob.
          case cob of
            Tree child_entries \<Rightarrow>
              rbind (case parent of
                       None \<Rightarrow> Ok []
                     | Some x \<Rightarrow> rbind (get x) (\<lambda>pob. Ok (case pob of Tree es \<Rightarrow> es | _ \<Rightarrow> [])))
                (\<lambda>parent_entries.
                  rfold (\<lambda>out ce.
                    let p = prefix @ te_name ce;
                        pe = find (\<lambda>e. te_name e = te_name ce) parent_entries
                    in if te_mode ce = TREE_MODE
                       then
                         (let parent_sub =
                            (case pe of
                               None \<Rightarrow> None
                             | Some e \<Rightarrow> if te_mode e = TREE_MODE then Some (te_oid e) else None)
                          in tree_paths_added ((parent, child) # path) get (p @ ''/'') parent_sub
                               (te_oid ce) out)
                       else
                         (case pe of
                            Some e \<Rightarrow> Ok (if te_mode e \<noteq> TREE_MODE then out else out @ [p])
                          | None \<Rightarrow> Ok (out @ [p]))) out child_entries)
          | _ \<Rightarrow> Ok out))"
  by pat_completeness auto
termination
proof (relation "measure (\<lambda>(path, get, prefix, parent, child, out). card (UNIV - set path))")
  show "wf (measure (\<lambda>(path :: (oid option \<times> oid) list, get :: getter, prefix :: string,
      parent :: oid option, child :: oid, out :: string list). card (UNIV - set path)))" by simp
next
  fix path :: "(oid option \<times> oid) list" and get :: getter and prefix p :: string
    and parent parent_sub :: "oid option" and child :: oid and out out' :: "string list"
    and ce :: tree_entry
  assume "(parent, child) \<notin> set path"
  then have "UNIV - set ((parent, child) # path) \<subset> UNIV - set path" by auto
  then have "card (UNIV - set ((parent, child) # path)) < card (UNIV - set path)"
    by (intro psubset_card_mono) simp_all
  then show "(((parent, child) # path, get, p @ ''/'', parent_sub, te_oid ce, out'),
      (path, get, prefix, parent, child, out))
      \<in> measure (\<lambda>(path, get, prefix, parent, child, out). card (UNIV - set path))" by simp
qed

declare tree_paths_added.simps [simp del]

text \<open>The first added path whose latest touch is a delete that no trailer names.\<close>

fun ghost_paths :: "(string \<Rightarrow> (oid \<times> touch_kind) option res) \<Rightarrow> oid list \<Rightarrow> string list \<Rightarrow> bool res" where
  "ghost_paths touch readds [] = Ok False"
| "ghost_paths touch readds (p # ps) =
     rbind (touch p) (\<lambda>t.
       case t of
         Some (d, Delete) \<Rightarrow> if d \<notin> set readds then Ok True else ghost_paths touch readds ps
       | _ \<Rightarrow> ghost_paths touch readds ps)"

definition is_ghost_add_uncached :: "crates \<Rightarrow> getter \<Rightarrow> oid \<Rightarrow> bool res" where
  "is_ghost_add_uncached C get prim =
     rbind (get prim) (\<lambda>ob.
       case ob of
         Commit c \<Rightarrow>
           if \<not> is_primitive C c then Ok False
           else
             (case co_parents c of
                [parent] \<Rightarrow>
                  rbind (load_commit get parent) (\<lambda>pc.
                  rbind (tree_paths_added [] get [] (Some (co_tree pc)) (co_tree c) []) (\<lambda>added.
                    if added = [] then Ok False
                    else ghost_paths (most_recent_touch_uncached C get parent)
                           (parse_primitive_readds C c) added))
              | _ \<Rightarrow> Ok False)
       | _ \<Rightarrow> Ok False)"

text \<open>An incomplete closure keeps the primitive.\<close>

definition is_ghost_add_closure_only :: "crates \<Rightarrow> getter \<Rightarrow> oid \<Rightarrow> bool res" where
  "is_ghost_add_closure_only C get prim =
     (case is_ghost_add_uncached C get prim of
        Inr b \<Rightarrow> Ok b
      | Inl (ObjectNotFound m) \<Rightarrow> Ok False
      | Inl e \<Rightarrow> Err e)"

fun effective_known :: "crates \<Rightarrow> getter \<Rightarrow> oid list \<Rightarrow> oid list res" where
  "effective_known C get [] = Ok []"
| "effective_known C get (x # known) =
     rbind (is_ghost_add_closure_only C get x) (\<lambda>ghost.
     rbind (effective_known C get known) (\<lambda>out. Ok (if ghost then out else x # out)))"

section \<open>The per-thread caches\<close>

text \<open>
  Both predicates are memoised per thread. A verdict derived from an incomplete closure is
  not stored. The rest of the model uses the pure readers; that the caches never change an
  answer is proved below.
\<close>

record caches =
  touch_cache :: "oid \<times> string \<Rightarrow> (oid \<times> touch_kind) option option"
  verdict_cache :: "oid \<Rightarrow> bool option"

definition most_recent_touch ::
  "crates \<Rightarrow> getter \<Rightarrow> oid \<Rightarrow> string \<Rightarrow> (caches, (oid \<times> touch_kind) option) seff" where
  "most_recent_touch C get start path =
     (\<lambda>k. case touch_cache k (start, path) of
        Some hit \<Rightarrow> (k, Ok hit)
      | None \<Rightarrow>
          sbind (sread (\<lambda>_. most_recent_touch_uncached C get start path)) (\<lambda>result.
          sbind (smodify (\<lambda>k. k\<lparr>touch_cache := (touch_cache k)((start, path) \<mapsto> result)\<rparr>)) (\<lambda>_.
          sret result)) k)"

fun ghost_paths_cached ::
  "(string \<Rightarrow> (caches, (oid \<times> touch_kind) option) seff) \<Rightarrow> oid list \<Rightarrow> string list \<Rightarrow> (caches, bool) seff"
where
  "ghost_paths_cached touch readds [] = sret False"
| "ghost_paths_cached touch readds (p # ps) =
     sbind (touch p) (\<lambda>t.
       case t of
         Some (d, Delete) \<Rightarrow>
           if d \<notin> set readds then sret True else ghost_paths_cached touch readds ps
       | _ \<Rightarrow> ghost_paths_cached touch readds ps)"

definition ghost_add_cached_inner :: "crates \<Rightarrow> getter \<Rightarrow> oid \<Rightarrow> (caches, bool) seff" where
  "ghost_add_cached_inner C get prim =
     sbind (sread (\<lambda>_. get prim)) (\<lambda>ob.
       case ob of
         Commit c \<Rightarrow>
           if \<not> is_primitive C c then sret False
           else
             (case co_parents c of
                [parent] \<Rightarrow>
                  sbind (sread (\<lambda>_. load_commit get parent)) (\<lambda>pc.
                  sbind (sread (\<lambda>_. tree_paths_added [] get [] (Some (co_tree pc)) (co_tree c) []))
                    (\<lambda>added.
                      if added = [] then sret False
                      else ghost_paths_cached (most_recent_touch C get parent)
                             (parse_primitive_readds C c) added))
              | _ \<Rightarrow> sret False)
       | _ \<Rightarrow> sret False)"

definition is_ghost_add_cached :: "crates \<Rightarrow> getter \<Rightarrow> oid \<Rightarrow> (caches, bool) seff" where
  "is_ghost_add_cached C get prim =
     (\<lambda>k. case verdict_cache k prim of
        Some hit \<Rightarrow> (k, Ok hit)
      | None \<Rightarrow>
          (case ghost_add_cached_inner C get prim k of
             (k', Inr result) \<Rightarrow>
               (k'\<lparr>verdict_cache := (verdict_cache k')(prim \<mapsto> result)\<rparr>, Ok result)
           | (k', Inl (ObjectNotFound m)) \<Rightarrow> (k', Ok False)
           | (k', Inl e) \<Rightarrow> (k', Err e)))"

section \<open>Frontier and merge base\<close>

definition frontier :: "crates \<Rightarrow> getter \<Rightarrow> oid list \<Rightarrow> oid list res" where
  "frontier C get known0 =
     rbind (effective_known C get known0) (\<lambda>known.
       let prims = filter (\<lambda>x. case load_commit get x of Inr c \<Rightarrow> is_primitive C c | Inl _ \<Rightarrow> False) known
       in rbind (rmap (\<lambda>q. rbind (ancestors get q) (\<lambda>a. Ok (q, a))) prims) (\<lambda>anc.
            let f = filter (\<lambda>p. \<not> list_ex (\<lambda>(q, a). p \<noteq> q \<and> p \<in> set a) anc) prims
            in rbind (rmap (\<lambda>x. rbind (order_key C get x) (\<lambda>k. Ok (k, x))) f) (\<lambda>keyed.
                 Ok (map snd (sort_key fst keyed)))))"

definition merge_base :: "getter \<Rightarrow> oid \<Rightarrow> oid \<Rightarrow> oid res" where
  "merge_base get a b =
     rbind (ancestors get a) (\<lambda>anc_a.
     rbind (ancestors get b) (\<lambda>anc_b.
       let common = filter (\<lambda>x. x \<in> set (List.insert b anc_b)) (List.insert a anc_a)
       in if common = [] then Err (FoldVerify ''no merge base'')
          else
            rbind (rmap (\<lambda>c. rbind (ancestors get c) (\<lambda>s. Ok (c, s))) common) (\<lambda>anc_of.
              let maximal = filter (\<lambda>c. \<not> list_ex (\<lambda>(d, s). c \<noteq> d \<and> c \<in> set s) anc_of) common
              in index (sort maximal) 0)))"

definition commit_tree :: "getter \<Rightarrow> oid \<Rightarrow> oid res" where
  "commit_tree get x = rbind (load_commit get x) (\<lambda>c. Ok (co_tree c))"

definition tree_files :: "getter \<Rightarrow> oid \<Rightarrow> files res" where
  "tree_files get t = read_tree_to_files t get"

section \<open>The fold\<close>

definition fold_commit :: "oid \<Rightarrow> oid list \<Rightarrow> u64 \<Rightarrow> string \<Rightarrow> commit_obj" where
  "fold_commit t parents time msg =
     \<lparr>co_tree = t, co_parents = parents,
      co_author = FOLD_NAME, co_author_email = FOLD_EMAIL, co_author_time = time,
      co_committer = FOLD_NAME, co_committer_email = FOLD_EMAIL, co_committer_time = time,
      co_message = msg\<rparr>"

definition parents_time :: "getter \<Rightarrow> oid list \<Rightarrow> u64 res" where
  "parents_time get parents =
     rfold (\<lambda>t p. rbind (load_commit get p) (\<lambda>c. Ok (max t (co_committer_time c)))) 0 parents"

definition make_fold_commit :: "'s store_ops \<Rightarrow> oid \<Rightarrow> oid list \<Rightarrow> string \<Rightarrow> ('s, oid) seff" where
  "make_fold_commit ops t parents msg =
     sbind (sread (\<lambda>s. parents_time (so_get ops s) parents)) (\<lambda>time.
       so_put ops (Commit (fold_commit t parents time msg)))"

definition genesis :: "crates \<Rightarrow> 's store_ops \<Rightarrow> ('s, oid) seff" where
  "genesis C ops =
     sbind (so_put ops (Tree [])) (\<lambda>_.
       so_put ops (Commit (fold_commit (oid_of C (Tree [])) [] 0 GENESIS_MSG)))"

definition thin_wrapper :: "'s store_ops \<Rightarrow> oid \<Rightarrow> ('s, oid) seff" where
  "thin_wrapper ops tip =
     sbind (sread (\<lambda>s. commit_tree (so_get ops s) tip)) (\<lambda>t.
       make_fold_commit ops t [tip] FOLD_MSG)"

text \<open>The files of a commit, and the merged tree of one binary step.\<close>

definition commit_files :: "getter \<Rightarrow> oid \<Rightarrow> files res" where
  "commit_files get x = rbind (commit_tree get x) (tree_files get)"

definition merged_files :: "crates \<Rightarrow> getter \<Rightarrow> oid \<Rightarrow> oid \<Rightarrow> files res" where
  "merged_files C get acc tk =
     rbind (merge_base get acc tk) (\<lambda>base.
     rbind (commit_files get base) (\<lambda>base_tree.
     rbind (commit_files get acc) (\<lambda>ours_tree.
     rbind (commit_files get tk) (\<lambda>theirs_tree.
       merge_trees C base_tree ours_tree theirs_tree))))"

definition fold_step :: "crates \<Rightarrow> 's store_ops \<Rightarrow> oid \<Rightarrow> oid \<Rightarrow> ('s, oid) seff" where
  "fold_step C ops acc tk =
     sbind (sread (\<lambda>s. merged_files C (so_get ops s) acc tk)) (\<lambda>merged.
       let (to_put, root) = write_tree_from_files C merged
       in sbind (put_all ops to_put) (\<lambda>_. make_fold_commit ops root [acc, tk] FOLD_MSG))"

fun fold_tips :: "crates \<Rightarrow> 's store_ops \<Rightarrow> oid \<Rightarrow> oid list \<Rightarrow> ('s, oid) seff" where
  "fold_tips C ops acc [] = sret acc"
| "fold_tips C ops acc (tk # tks) = sbind (fold_step C ops acc tk) (\<lambda>acc. fold_tips C ops acc tks)"

definition compute_main :: "crates \<Rightarrow> 's store_ops \<Rightarrow> oid list \<Rightarrow> ('s, oid) seff" where
  "compute_main C ops known =
     sbind (sread (\<lambda>s. frontier C (so_get ops s) known)) (\<lambda>f.
       case f of
         [] \<Rightarrow> genesis C ops
       | [tip] \<Rightarrow> thin_wrapper ops tip
       | acc # tips \<Rightarrow> fold_tips C ops acc tips)"

section \<open>Verifying a received fold commit\<close>

definition reproduce :: "crates \<Rightarrow> 's store_ops \<Rightarrow> oid \<Rightarrow> commit_obj \<Rightarrow> ('s, unit) seff" where
  "reproduce C ops x c =
     sbind (case co_parents c of
              [tip] \<Rightarrow>
                sbind (sread (\<lambda>s. commit_tree (so_get ops s) tip)) (\<lambda>t.
                  make_fold_commit ops t [tip] FOLD_MSG)
            | [acc, tk] \<Rightarrow> fold_step C ops acc tk
            | _ \<Rightarrow> sread (\<lambda>_. Err (FoldVerify ''expected 1 or 2 parents'')))
       (\<lambda>recomputed. sread (\<lambda>_.
          if recomputed \<noteq> x then Err (FoldVerify ''does not reproduce'') else Ok ()))"

definition check_genesis :: "crates \<Rightarrow> oid \<Rightarrow> unit res" where
  "check_genesis C x =
     rbind (snd (genesis C (mem_ops C) mem_new)) (\<lambda>g.
       if g \<noteq> x then Err (FoldVerify ''genesis mismatch'') else Ok ())"

text \<open>
  \<open>verify_inner\<close> on the store and the set of visited ids. \<open>path\<close> holds the commits under
  verification, all of them visited, so the test on it never decides anything: it shows
  that the recursion ends.
\<close>

function verify_inner ::
  "crates \<Rightarrow> 's store_ops \<Rightarrow> oid list \<Rightarrow> oid \<Rightarrow> 's \<times> oid list \<Rightarrow> ('s \<times> oid list) \<times> unit res"
where
  "verify_inner C ops path x (s, seen) =
     (if x \<in> set seen \<or> x \<in> set path then ((s, seen), Ok ())
      else
        (case load_commit (so_get ops s) x of
           Inl e \<Rightarrow> ((s, x # seen), Err e)
         | Inr c \<Rightarrow>
             if is_primitive C c then ((s, x # seen), Ok ())
             else if co_parents c = [] then ((s, x # seen), check_genesis C x)
             else
               sbind (smapM (\<lambda>p st. verify_inner C ops (x # path) p st) (co_parents c))
                 (\<lambda>_. on_fst (reproduce C ops x c)) (s, x # seen)))"
  by pat_completeness auto
termination
proof (relation "measure (\<lambda>(C, ops, path, x, st). card (UNIV - set path))")
  show "wf (measure (\<lambda>(C :: crates, ops :: 's store_ops, path :: oid list, x :: oid,
      st :: 's \<times> oid list). card (UNIV - set path)))" by simp
next
  fix C :: crates and ops :: "'s store_ops" and path and x p :: oid and s :: 's
    and seen :: "oid list" and st :: "'s \<times> oid list"
  assume "\<not> (x \<in> set seen \<or> x \<in> set path)"
  then have "UNIV - set (x # path) \<subset> UNIV - set path" by auto
  then have "card (UNIV - set (x # path)) < card (UNIV - set path)"
    by (intro psubset_card_mono) simp_all
  then show "((C, ops, x # path, p, st), C, ops, path, x, s, seen)
      \<in> measure (\<lambda>(C, ops, path, x, st). card (UNIV - set path))" by simp
qed

declare verify_inner.simps [simp del]

definition verify_fold_commit :: "crates \<Rightarrow> 's store_ops \<Rightarrow> oid \<Rightarrow> ('s, unit) seff" where
  "verify_fold_commit C ops x s =
     (case verify_inner C ops [] x (s, []) of ((s', seen), r) \<Rightarrow> (s', r))"

section \<open>Everything reachable\<close>

fun object_refs :: "git_object \<Rightarrow> oid list" where
  "object_refs (Commit c) = co_tree c # co_parents c"
| "object_refs (Tree es) = map te_oid es"
| "object_refs (Blob b) = []"

function reachable_loop :: "getter \<Rightarrow> oid list \<Rightarrow> oid list \<Rightarrow> oid list res" where
  "reachable_loop get [] out = Ok out"
| "reachable_loop get (x # stack) out =
     (if x \<in> set out then reachable_loop get stack out
      else rbind (get x) (\<lambda>ob. reachable_loop get (rev (object_refs ob) @ stack) (x # out)))"
  by pat_completeness auto
termination
proof (relation "measures [\<lambda>(get, stack, out). card (UNIV - set out), \<lambda>(get, stack, out). length stack]")
  fix get :: getter and x and stack out :: "oid list" and ob
  assume "x \<notin> set out"
  then have "UNIV - set (x # out) \<subset> UNIV - set out" by auto
  then have "card (UNIV - set (x # out)) < card (UNIV - set out)"
    by (intro psubset_card_mono) simp_all
  then show "((get, rev (object_refs ob) @ stack, x # out), get, x # stack, out)
      \<in> measures [\<lambda>(get, stack, out). card (UNIV - set out), \<lambda>(get, stack, out). length stack]"
    by simp
qed simp_all

definition reachable :: "getter \<Rightarrow> oid list \<Rightarrow> oid list res" where
  "reachable get roots = rbind (reachable_loop get (rev roots) []) (\<lambda>out. Ok (sort out))"

end
