(* ===== verification/Identity.thy ===== *)
theory Identity
  imports Fold
begin

text \<open>
  Node identity and signed primitives (\<open>identity.rs\<close>): the OpenSSH form of a key, the
  construction of a primitive commit with its trailers, and the verification of the
  signature carried in its last trailer.
\<close>

section \<open>Keys\<close>

record identity =
  id_seed :: bytes

definition id_node :: "crates \<Rightarrow> identity \<Rightarrow> node_id" where
  "id_node C i = c_pubkey C (id_seed i)"

definition id_sign :: "crates \<Rightarrow> identity \<Rightarrow> bytes \<Rightarrow> bytes" where
  "id_sign C i msg = c_sign C (id_seed i) msg"

definition ssh_algo :: string where "ssh_algo = ''ssh-ed25519''"

definition ssh_pubkey_string :: "crates \<Rightarrow> node_id \<Rightarrow> string \<Rightarrow> string" where
  "ssh_pubkey_string C node comment =
     (let blob = be_bytes 4 (length ssh_algo) @ ssh_algo @ be_bytes 4 32 @ node_bytes node
      in ''ssh-ed25519 '' @ c_b64enc C blob @ '' '' @ comment)"

definition to_ssh_string :: "crates \<Rightarrow> identity \<Rightarrow> string" where
  "to_ssh_string C i = ssh_pubkey_string C (id_node C i) ''csp''"

text \<open>\<open>get\<close> on a range of a slice.\<close>

definition get_range :: "nat \<Rightarrow> nat \<Rightarrow> bytes \<Rightarrow> bytes option" where
  "get_range a b xs = (if a \<le> b \<and> b \<le> length xs then Some (take (b - a) (drop a xs)) else None)"

definition parse_ssh_pubkey :: "crates \<Rightarrow> string \<Rightarrow> node_id option" where
  "parse_ssh_pubkey C line =
     (case split_whitespace line of
        [] \<Rightarrow> None
      | w # ws \<Rightarrow>
          if w \<noteq> ssh_algo then None
          else
            (case ws of
               [] \<Rightarrow> None
             | b # _ \<Rightarrow>
                 (case c_b64dec C b of
                    None \<Rightarrow> None
                  | Some blob \<Rightarrow>
                      (case get_range 0 4 blob of
                         None \<Rightarrow> None
                       | Some h \<Rightarrow>
                           (let key_off = 4 + be_val h + 4
                            in map_option node_of_bytes (get_range key_off (key_off + 32) blob))))))"

definition verifying_key :: "crates \<Rightarrow> node_id \<Rightarrow> node_id res" where
  "verifying_key C node = (if c_vk_ok C node then Ok node else Err (BadSignature ''verifying key''))"

definition check_signature :: "crates \<Rightarrow> node_id \<Rightarrow> bytes \<Rightarrow> bytes \<Rightarrow> unit res" where
  "check_signature C vk msg sig =
     (if c_verify C vk msg sig then Ok () else Err (BadSignature ''signature error''))"

definition verify_detached :: "crates \<Rightarrow> node_id \<Rightarrow> bytes \<Rightarrow> bytes \<Rightarrow> unit res" where
  "verify_detached C node msg sig =
     (if \<not> c_sig_ok C sig then Err (BadSignature ''signature length'')
      else rbind (verifying_key C node) (\<lambda>vk. check_signature C vk msg sig))"

section \<open>Primitives\<close>

definition SIG_TRAILER :: string where "SIG_TRAILER = ''CSP-Signature: ''"

definition primitive_body :: "crates \<Rightarrow> node_id \<Rightarrow> u64 \<Rightarrow> string \<Rightarrow> oid list \<Rightarrow> string" where
  "primitive_body C node counter subject readds =
     subject @ [nl, nl] @ ''CSP-Counter: '' @ dec (unat counter) @ [nl] @
     ''CSP-Node: '' @ node_to_hex C node @ [nl] @
     concat (map (\<lambda>r. READD_TRAILER @ to_hex C r @ [nl]) readds)"

definition build_primitive_with_readd ::
  "crates \<Rightarrow> identity \<Rightarrow> oid \<Rightarrow> oid \<Rightarrow> u64 \<Rightarrow> u64 \<Rightarrow> string \<Rightarrow> oid list \<Rightarrow> git_object" where
  "build_primitive_with_readd C i t parent counter wall_time subject readds =
     (let node = id_node C i;
          hex = node_to_hex C node;
          email = take 16 hex @ ''@csp'';
          unsigned =
            \<lparr>co_tree = t, co_parents = [parent],
             co_author = hex, co_author_email = email, co_author_time = wall_time,
             co_committer = hex, co_committer_email = email, co_committer_time = wall_time,
             co_message = primitive_body C node counter subject readds\<rparr>;
          sig = c_b64enc C (id_sign C i (payload C (Commit unsigned)))
      in Commit (unsigned\<lparr>co_message := co_message unsigned @ SIG_TRAILER @ sig @ [nl]\<rparr>))"

definition build_primitive ::
  "crates \<Rightarrow> identity \<Rightarrow> oid \<Rightarrow> oid \<Rightarrow> u64 \<Rightarrow> u64 \<Rightarrow> string \<Rightarrow> git_object" where
  "build_primitive C i t parent counter wall_time subject =
     build_primitive_with_readd C i t parent counter wall_time subject []"

definition verify_primitive :: "crates \<Rightarrow> commit_obj \<Rightarrow> node_id res" where
  "verify_primitive C c =
     (case parse_primitive_meta C c of
        None \<Rightarrow> Err (BadSignature ''not a primitive (no CSP-Node)'')
      | Some (counter, node) \<Rightarrow>
          (case find (starts_with SIG_TRAILER) (rev (str_lines (co_message c))) of
             None \<Rightarrow> Err (BadSignature ''missing CSP-Signature'')
           | Some sig_line \<Rightarrow>
               (let sig_b64 = drop (length SIG_TRAILER) sig_line
                in case c_b64dec C (str_trim sig_b64) of
                     None \<Rightarrow> Err (BadSignature ''signature base64'')
                   | Some sig \<Rightarrow>
                       if \<not> c_sig_ok C sig then Err (BadSignature ''signature length'')
                       else
                         (case strip_suffix (SIG_TRAILER @ sig_b64 @ [nl]) (co_message c) of
                            None \<Rightarrow> Err (BadSignature ''signature not final trailer'')
                          | Some pre \<Rightarrow>
                              rbind (verifying_key C node) (\<lambda>vk.
                              rbind (check_signature C vk (payload C (Commit (c\<lparr>co_message := pre\<rparr>))) sig)
                                (\<lambda>_. Ok node))))))"

section \<open>Lines of a message\<close>

lemma str_lines_append: "str_lines (s @ nl # t) = map strip_cr (str_split nl s) @ str_lines t"
proof (induction s rule: length_induct)
  case (1 s)
  show ?case
  proof (cases "str_find nl s")
    case None
    then have "nl \<notin> set s" by (simp add: str_find_None)
    then show ?thesis by (simp add: str_lines_Cons str_split_no_sep)
  next
    case (Some i)
    then have i: "i < length s" "s ! i = nl" and no: "nl \<notin> set (take i s)"
      by (simp_all add: str_find_Some)
    let ?u = "drop (Suc i) s"
    have s: "s = take i s @ nl # ?u" using i by (metis id_take_nth_drop)
    have "str_lines (?u @ nl # t) = map strip_cr (str_split nl ?u) @ str_lines t"
      using 1 i by simp
    moreover have "str_lines (s @ nl # t) = strip_cr (take i s) # str_lines (?u @ nl # t)"
      using str_lines_Cons [OF no, of "?u @ nl # t"] by (metis append.assoc append_Cons s)
    moreover have "str_split nl s = take i s # str_split nl ?u"
      using str_split_append [OF no, of ?u] s by simp
    ultimately show ?thesis by simp
  qed
qed

lemma str_lines_solid_line:
  assumes "list_all solid v" and "nl \<notin> set p" and "v \<noteq> [] \<or> p \<noteq> [] \<and> last p \<noteq> cr"
  shows "str_lines (p @ v @ nl # s) = (p @ v) # str_lines s"
proof -
  have "nl \<notin> set (p @ v)" using assms solid_no_nl by auto
  moreover have "strip_cr (p @ v) = p @ v"
  proof (rule strip_cr_id)
    have "v \<noteq> [] \<Longrightarrow> solid (last v)" using assms(1) by (simp add: list_all_iff)
    then show "p @ v = [] \<or> last (p @ v) \<noteq> cr"
      using assms(3) by (cases "v = []") (auto simp: solid_def)
  qed
  ultimately show ?thesis using str_lines_Cons [of "p @ v" s] by simp
qed

section \<open>A built primitive\<close>

abbreviation trailer_counter :: string where "trailer_counter \<equiv> ''CSP-Counter: ''"
abbreviation trailer_node :: string where "trailer_node \<equiv> ''CSP-Node: ''"

lemma body_lines:
  assumes "hex_laws C"
  shows "str_lines (primitive_body C node counter subject readds @ SIG_TRAILER @ sig @ [nl]) =
    map strip_cr (str_split nl subject) @ [[], trailer_counter @ dec (unat counter),
      trailer_node @ node_to_hex C node] @ map (\<lambda>r. READD_TRAILER @ to_hex C r) readds
      @ str_lines (SIG_TRAILER @ sig @ [nl])"
proof -
  have readd: "str_lines (concat (map (\<lambda>r. READD_TRAILER @ to_hex C r @ [nl]) readds) @ s) =
      map (\<lambda>r. READD_TRAILER @ to_hex C r) readds @ str_lines s" for s
  proof (induction readds)
    case Nil
    then show ?case by simp
  next
    case (Cons r readds)
    have "str_lines (READD_TRAILER @ to_hex C r @ nl # u) = (READD_TRAILER @ to_hex C r) # str_lines u" for u
      by (rule str_lines_solid_line [OF to_hex_solid [OF assms]]) (simp_all add: READD_TRAILER_def)
    with Cons show ?case by simp
  qed
  have counter: "str_lines (trailer_counter @ dec (unat counter) @ nl # s) =
      (trailer_counter @ dec (unat counter)) # str_lines s" for s
    by (rule str_lines_solid_line [OF dec_solid]) simp_all
  have node: "str_lines (trailer_node @ node_to_hex C node @ nl # s) =
      (trailer_node @ node_to_hex C node) # str_lines s" for s
    by (rule str_lines_solid_line [OF node_to_hex_solid [OF assms]]) simp_all
  have blank: "str_lines (nl # s) = [] # str_lines s" for s
    using str_lines_Cons [of "[]" s] by (simp add: strip_cr_def strip_suffix_def)
  show ?thesis
    unfolding primitive_body_def
    using str_lines_append [of subject] blank counter node readd by simp
qed

lemma meta_line_readd: "meta_line C st (READD_TRAILER @ s) = st"
  by (cases st) (simp add: READD_TRAILER_def)

lemma meta_line_sig: "meta_line C st (SIG_TRAILER @ s) = st"
  by (cases st) (simp add: SIG_TRAILER_def)

lemma foldl_readds: "foldl (meta_line C) st (map (\<lambda>r. READD_TRAILER @ f r) rs) = st"
  by (induction rs) (simp_all add: meta_line_readd)

lemma sig_line: "list_all solid sig \<Longrightarrow> str_lines (SIG_TRAILER @ sig @ [nl]) = [SIG_TRAILER @ sig]"
  using str_lines_solid_line [of sig SIG_TRAILER "[]"] by (simp add: SIG_TRAILER_def)

lemma built_meta:
  assumes "hex_laws C" and "list_all solid sig"
    and "co_message c = primitive_body C node counter subject readds @ SIG_TRAILER @ sig @ [nl]"
  shows "parse_primitive_meta C c = Some (counter, node)"
proof -
  have step: "foldl (meta_line C) st [[], trailer_counter @ dec (unat counter),
      trailer_node @ node_to_hex C node] = (Some counter, Some node)" for st
    using assms(1) by (cases st)
      (simp add: str_trim_all_solid dec_solid node_to_hex_solid parse_u64_dec)
  show ?thesis
    unfolding parse_primitive_meta_def assms(3) body_lines [OF assms(1)] sig_line [OF assms(2)]
    by (simp only: foldl_append step foldl_readds) (simp add: meta_line_sig)
qed

lemma built_readds:
  assumes "hex_laws C" and "list_all solid sig"
    and "co_message c = primitive_body C node counter subject readds @ SIG_TRAILER @ sig @ [nl]"
  shows "\<exists>pre. parse_primitive_readds C c = pre @ readds \<and>
    (list_all (\<lambda>l. \<not> starts_with READD_TRAILER (strip_cr l)) (str_split nl subject) \<longrightarrow> pre = [])"
proof -
  let ?f = "\<lambda>line. case strip_prefix READD_TRAILER line of
         None \<Rightarrow> []
       | Some v \<Rightarrow> (case from_hex C (str_trim v) of Inl _ \<Rightarrow> [] | Inr x \<Rightarrow> [x])"
  have readd: "concat (map ?f (map (\<lambda>r. READD_TRAILER @ to_hex C r) readds)) = readds"
    using assms(1) by (induction readds) (simp_all add: str_trim_all_solid to_hex_solid)
  have others: "?f [] = []" "?f (trailer_counter @ s) = []" "?f (trailer_node @ s) = []"
    "?f (SIG_TRAILER @ s) = []" for s
    by (simp_all add: READD_TRAILER_def SIG_TRAILER_def)
  let ?pre = "concat (map ?f (map strip_cr (str_split nl subject)))"
  have "parse_primitive_readds C c = ?pre @ readds"
    unfolding parse_primitive_readds_def assms(3) body_lines [OF assms(1)] sig_line [OF assms(2)]
    by (simp only: map_append concat_append list.map concat.simps others readd append_Nil append_Nil2)
  moreover have "list_all (\<lambda>l. \<not> starts_with READD_TRAILER (strip_cr l)) (str_split nl subject) \<Longrightarrow> ?pre = []"
    by (auto simp: list_all_iff starts_with_def)
  ultimately show ?thesis by blast
qed

lemma built_verifies:
  assumes h: "hex_laws C" and b: "b64_laws C" and e: "ed_laws C"
    and build: "build_primitive_with_readd C i t parent counter wall_time subject readds = Commit c"
  shows "verify_primitive C c = Ok (id_node C i)"
    and "parse_primitive_meta C c = Some (counter, id_node C i)"
    and "co_parents c = [parent]" and "co_tree c = t"
proof -
  define node where "node = id_node C i"
  define body where "body = primitive_body C node counter subject readds"
  define u where "u = \<lparr>co_tree = t, co_parents = [parent],
             co_author = node_to_hex C node, co_author_email = take 16 (node_to_hex C node) @ ''@csp'',
             co_author_time = wall_time, co_committer = node_to_hex C node,
             co_committer_email = take 16 (node_to_hex C node) @ ''@csp'',
             co_committer_time = wall_time, co_message = body\<rparr>"
  define raw where "raw = id_sign C i (payload C (Commit u))"
  define sig where "sig = c_b64enc C raw"
  have c: "c = u\<lparr>co_message := body @ SIG_TRAILER @ sig @ [nl]\<rparr>"
    using build by (simp add: build_primitive_with_readd_def Let_def u_def raw_def sig_def body_def node_def)
  have solid: "list_all solid sig" unfolding sig_def using b by (rule b64enc_solid)
  have msg: "co_message c = primitive_body C node counter subject readds @ SIG_TRAILER @ sig @ [nl]"
    by (simp add: c body_def)
  show meta: "parse_primitive_meta C c = Some (counter, id_node C i)"
    using built_meta [OF h solid msg] by (simp add: node_def)
  show "co_parents c = [parent]" "co_tree c = t" by (simp_all add: c u_def)
  have lines: "str_lines (co_message c) = ls @ [SIG_TRAILER @ sig] \<Longrightarrow>
      find (starts_with SIG_TRAILER) (rev (str_lines (co_message c))) = Some (SIG_TRAILER @ sig)" for ls
    by (simp add: starts_with_def)
  have find: "find (starts_with SIG_TRAILER) (rev (str_lines (co_message c))) = Some (SIG_TRAILER @ sig)"
    using msg body_lines [OF h, of node counter subject readds sig] sig_line [OF solid]
    by (intro lines) simp
  have "strip_suffix (SIG_TRAILER @ sig @ [nl]) (co_message c) = Some body"
    by (simp add: c strip_suffix_Some)
  moreover have "c\<lparr>co_message := body\<rparr> = u" by (simp add: c u_def)
  moreover have "c_b64dec C sig = Some raw" using b by (simp add: b64_laws_def sig_def)
  moreover have "c_sig_ok C raw" "c_vk_ok C (id_node C i)" "c_verify C (id_node C i) (payload C (Commit u)) raw"
    using e by (simp_all add: ed_laws_def raw_def id_sign_def id_node_def)
  ultimately show "verify_primitive C c = Ok (id_node C i)"
    using meta find solid
    by (simp add: verify_primitive_def str_trim_all_solid verifying_key_def check_signature_def
        del: payload.simps)
qed

text \<open>What acceptance means: the claimed node's key verifies a signature over all the rest.\<close>

lemma verify_primitive_Ok:
  assumes "verify_primitive C c = Ok node"
  shows "\<exists>counter pre sig raw. parse_primitive_meta C c = Some (counter, node)
    \<and> co_message c = pre @ SIG_TRAILER @ sig @ [nl] \<and> c_b64dec C (str_trim sig) = Some raw
    \<and> c_sig_ok C raw \<and> c_vk_ok C node \<and> c_verify C node (payload C (Commit (c\<lparr>co_message := pre\<rparr>))) raw"
proof -
  from assms obtain counter n line raw pre where
    m: "parse_primitive_meta C c = Some (counter, n)"
    and raw: "c_b64dec C (str_trim (drop (length SIG_TRAILER) line)) = Some raw" "c_sig_ok C raw"
    and pre: "strip_suffix (SIG_TRAILER @ drop (length SIG_TRAILER) line @ [nl]) (co_message c) = Some pre"
    and v: "rbind (verifying_key C n) (\<lambda>vk. rbind (check_signature C vk
        (payload C (Commit (c\<lparr>co_message := pre\<rparr>))) raw) (\<lambda>_. Ok n)) = Ok node"
    by (auto simp: verify_primitive_def Let_def simp del: payload.simps split: option.splits if_splits)
  from v have "n = node" "c_vk_ok C node" "c_verify C node (payload C (Commit (c\<lparr>co_message := pre\<rparr>))) raw"
    by (auto simp: res_simps verifying_key_def check_signature_def simp del: payload.simps
        split: if_splits)
  moreover have "co_message c = pre @ SIG_TRAILER @ drop (length SIG_TRAILER) line @ [nl]"
    using pre by (simp add: strip_suffix_Some)
  ultimately show ?thesis using m raw by blast
qed

section \<open>The OpenSSH form\<close>

lemma split_whitespace_word:
  assumes "list_all solid w" and "w \<noteq> []"
  shows "split_whitespace (w @ CHR '' '' # s) = w # split_whitespace s"
proof -
  have "str_chars (w @ CHR '' '' # s) = str_chars w @ [CHR '' ''] # str_chars s"
    by (rule str_chars_append_ascii) (simp add: is_ascii_char_def)
  moreover have "str_chars w = map (\<lambda>c. [c]) w"
    using assms(1) is_ascii_solid str_chars_ascii by blast
  moreover have "is_ws [CHR '' '']" by (simp add: is_ws_def ws_chars_def)
  ultimately show ?thesis
    using words_of_solid [OF assms(1), of "[CHR '' ''] # str_chars s" "[]"] assms(2)
    by (simp add: split_whitespace_def)
qed

lemma be_val_be_bytes4: "n < 2 ^ 32 \<Longrightarrow> be_val (be_bytes 4 n) = n"
  by (simp add: be_val_bytes)

definition ssh_blob :: "node_id \<Rightarrow> bytes" where
  "ssh_blob node = be_bytes 4 (length ssh_algo) @ ssh_algo @ be_bytes 4 32 @ node_bytes node"

lemma ssh_blob_b64:
  assumes "b64_laws C"
  shows "c_b64enc C (ssh_blob node) \<noteq> []" and "c_b64dec C (c_b64enc C (ssh_blob node)) = Some (ssh_blob node)"
proof -
  have "ssh_blob node \<noteq> []" by (simp add: ssh_blob_def ssh_algo_def)
  with assms show "c_b64enc C (ssh_blob node) \<noteq> []"
    and "c_b64dec C (c_b64enc C (ssh_blob node)) = Some (ssh_blob node)"
    by (auto simp: b64_laws_def)
qed

lemma ssh_blob_no_pad: "b64_laws C \<Longrightarrow> CHR ''='' \<notin> set (c_b64enc C (ssh_blob node))"
  unfolding b64_laws_def by (simp add: ssh_blob_def ssh_algo_def)

lemma parse_ssh_words:
  assumes "b64_laws C" and "split_whitespace line = ssh_algo # c_b64enc C (ssh_blob node) # ws"
  shows "parse_ssh_pubkey C line = Some node"
proof -
  have "get_range 0 4 (ssh_blob node) = Some (be_bytes 4 (length ssh_algo))"
    by (simp add: get_range_def ssh_blob_def)
  moreover have "be_val (be_bytes 4 (length ssh_algo)) = 11"
    by (simp add: be_val_bytes ssh_algo_def)
  moreover have "get_range 19 51 (ssh_blob node) = Some (node_bytes node)"
    by (simp add: get_range_def ssh_blob_def ssh_algo_def)
  ultimately show ?thesis
    using assms(2) ssh_blob_b64 [OF assms(1)] by (simp add: parse_ssh_pubkey_def)
qed

lemma ssh_algo_solid: "list_all solid ssh_algo" "ssh_algo \<noteq> []"
  by (simp_all add: ssh_algo_def solid_def is_ascii_char_def)

lemma ssh_roundtrip:
  assumes "b64_laws C"
  shows "parse_ssh_pubkey C (ssh_pubkey_string C node comment) = Some node"
proof (rule parse_ssh_words [OF assms])
  show "split_whitespace (ssh_pubkey_string C node comment) =
      ssh_algo # c_b64enc C (ssh_blob node) # split_whitespace comment"
    using split_whitespace_word [OF ssh_algo_solid, of "c_b64enc C (ssh_blob node) @ CHR '' '' # comment"]
      split_whitespace_word [OF b64enc_solid [OF assms] ssh_blob_b64(1) [OF assms], of node comment]
    by (simp add: ssh_pubkey_string_def ssh_blob_def Let_def) (simp add: ssh_algo_def)
qed

text \<open>Words joined by single spaces are read back as they were.\<close>

lemma split_whitespace_last:
  assumes "list_all solid w" and "w \<noteq> []"
  shows "split_whitespace w = [w]"
  using words_of_solid [OF assms(1), of "[]" "[]"] assms str_chars_ascii [OF is_ascii_solid [OF assms(1)]]
  by (simp add: split_whitespace_def)

lemma split_whitespace_join:
  assumes "list_all (\<lambda>w. list_all solid w \<and> w \<noteq> []) ws"
  shows "split_whitespace (str_join '' '' ws) = ws"
  using assms
proof (induction ws)
  case Nil
  then show ?case by (simp add: split_whitespace_def)
next
  case (Cons w ws)
  then show ?case
    using split_whitespace_last [of w] split_whitespace_word [of w "str_join '' '' ws"]
    by (cases "ws = []") (simp_all add: str_join_Cons)
qed

end
