(* ===== verification/Authkeys.thy ===== *)
theory Authkeys
  imports Identity
begin

text \<open>
  The authorized keys file (\<open>authkeys.rs\<close>): lines, their expiry tokens, the civil calendar, and
  the lines written back. Seconds are 64-bit words, so products and sums wrap as in the
  release build; calendar arithmetic is on \<open>i64\<close>, whose range the day numbers never leave.
\<close>

section \<open>The calendar\<close>

definition TOK_EXPIRES :: string where "TOK_EXPIRES = ''expires=''"
definition TOK_TTL :: string where "TOK_TTL = ''ttl=''"
definition TOK_ADDED :: string where "TOK_ADDED = ''added=''"
definition NEVER :: string where "NEVER = ''never''"
definition SECS_PER_DAY :: u64 where "SECS_PER_DAY = 86400"

text \<open>Division of \<open>i64\<close> by a positive constant truncates towards zero.\<close>

definition tdiv :: "int \<Rightarrow> int \<Rightarrow> int" where
  "tdiv a b = (if a \<ge> 0 then a div b else - ((- a) div b))"

definition days_from_civil :: "int \<Rightarrow> int \<Rightarrow> int \<Rightarrow> int" where
  "days_from_civil y m d =
     (let yy = (if m \<le> 2 then y - 1 else y);
          era = tdiv (if yy \<ge> 0 then yy else yy - 399) 400;
          yoe = yy - era * 400;
          doy = tdiv (153 * (if m > 2 then m - 3 else m + 9) + 2) 5 + d - 1;
          doe = yoe * 365 + tdiv yoe 4 - tdiv yoe 100 + doy
      in era * 146097 + doe - 719468)"

definition civil_from_days :: "int \<Rightarrow> int \<times> int \<times> int" where
  "civil_from_days days =
     (let z = days + 719468;
          era = tdiv (if z \<ge> 0 then z else z - 146096) 146097;
          doe = z - era * 146097;
          yoe = tdiv (doe - tdiv doe 1460 + tdiv doe 36524 - tdiv doe 146096) 365;
          y = yoe + era * 400;
          doy = doe - (365 * yoe + tdiv yoe 4 - tdiv yoe 100);
          mp = tdiv (5 * doy + 2) 153;
          d = doy - tdiv (153 * mp + 2) 5 + 1;
          m = (if mp < 10 then mp + 3 else mp - 9)
      in (y + (if m \<le> 2 then 1 else 0), m, d))"

definition parse_date_ymd_utc :: "string \<Rightarrow> u64 option" where
  "parse_date_ymd_utc s =
     (case str_split (CHR ''-'') s of
        [ys, ms, ds] \<Rightarrow>
          (case (parse_i64 ys, parse_i64 ms, parse_i64 ds) of
             (Some y, Some mo, Some d) \<Rightarrow>
               if \<not> (1 \<le> mo \<and> mo \<le> 12) \<or> \<not> (1 \<le> d \<and> d \<le> 31) \<or> \<not> (1970 \<le> y \<and> y \<le> 9999)
               then None
               else
                 (let secs = days_from_civil y mo d * 86400
                  in if secs < 0 then None else Some (of_int secs))
           | _ \<Rightarrow> None)
      | _ \<Rightarrow> None)"

definition format_date_ymd_utc :: "u64 \<Rightarrow> string" where
  "format_date_ymd_utc t =
     (case civil_from_days (int (unat (t div SECS_PER_DAY))) of
        (y, m, d) \<Rightarrow> dec_pad 4 (nat y) @ ''-'' @ dec_pad 2 (nat m) @ ''-'' @ dec_pad 2 (nat d))"

text \<open>\<open>None\<close> is also the answer for \<open>never\<close> and \<open>0\<close>.\<close>

definition parse_duration_days :: "string \<Rightarrow> u64 option" where
  "parse_duration_days s =
     (let s = to_ascii_lowercase (str_trim s)
      in if s = NEVER \<or> s = ''0'' then None
         else
           (case strip_suffix ''d'' s of
              Some n \<Rightarrow> parse_u64 n
            | None \<Rightarrow>
                (case strip_suffix ''w'' s of
                   Some n \<Rightarrow> map_option (\<lambda>w. w * 7) (parse_u64 n)
                 | None \<Rightarrow>
                     (case strip_suffix ''y'' s of
                        Some n \<Rightarrow> map_option (\<lambda>y. y * 365) (parse_u64 n)
                      | None \<Rightarrow> parse_u64 s))))"

definition expiry_from_ttl_days :: "u64 \<Rightarrow> u64 \<Rightarrow> u64" where
  "expiry_from_ttl_days now ttl_days =
     (let target = saturating_add now (ttl_days * SECS_PER_DAY)
      in (target div SECS_PER_DAY + 1) * SECS_PER_DAY)"

section \<open>Entries\<close>

datatype expiry = At u64 | Never | Unset

fun is_valid :: "expiry \<Rightarrow> u64 \<Rightarrow> bool" where
  "is_valid (At t) now = (now < t)"
| "is_valid Never now = True"
| "is_valid Unset now = True"

record key_entry =
  ke_raw :: string
  ke_node :: "node_id option"
  ke_expiry :: expiry

text \<open>One token, on the values of \<open>expires=\<close>, \<open>ttl=\<close> and \<open>added=\<close> seen so far.\<close>

fun expiry_token ::
  "expiry option \<times> u64 option \<times> u64 option \<Rightarrow> string \<Rightarrow> expiry option \<times> u64 option \<times> u64 option"
where
  "expiry_token (expires, ttl, added) tok =
     (case strip_prefix TOK_EXPIRES tok of
        Some v \<Rightarrow>
          if v = NEVER then (Some Never, ttl, added)
          else
            (case parse_date_ymd_utc v of
               Some t \<Rightarrow> (Some (At t), ttl, added)
             | None \<Rightarrow> (expires, ttl, added))
      | None \<Rightarrow>
          (case strip_prefix TOK_TTL tok of
             Some v \<Rightarrow>
               (case parse_duration_days v of
                  Some days \<Rightarrow> (expires, Some days, added)
                | None \<Rightarrow> (expires, ttl, added))
           | None \<Rightarrow>
               (case strip_prefix TOK_ADDED tok of
                  Some v \<Rightarrow>
                    (case parse_date_ymd_utc v of
                       Some t \<Rightarrow> (expires, ttl, Some t)
                     | None \<Rightarrow> (expires, ttl, added))
                | None \<Rightarrow> (expires, ttl, added))))"

definition parse_expiry_tokens :: "string \<Rightarrow> expiry" where
  "parse_expiry_tokens line =
     (case foldl expiry_token (None, None, None) (drop 2 (split_whitespace line)) of
        (Some e, _, _) \<Rightarrow> e
      | (None, Some days, Some start) \<Rightarrow> At (saturating_add start (days * SECS_PER_DAY))
      | _ \<Rightarrow> Unset)"

definition parse_line :: "crates \<Rightarrow> string \<Rightarrow> key_entry" where
  "parse_line C line =
     (let raw = trim_end_char cr (trim_end_char nl line);
          trimmed = str_trim raw
      in if trimmed = [] \<or> starts_with ''#'' trimmed
         then \<lparr>ke_raw = raw, ke_node = None, ke_expiry = Unset\<rparr>
         else
           (let node = parse_ssh_pubkey C trimmed
            in \<lparr>ke_raw = raw, ke_node = node,
                ke_expiry = (if node \<noteq> None then parse_expiry_tokens trimmed else Unset)\<rparr>))"

definition parse_file :: "crates \<Rightarrow> string \<Rightarrow> key_entry list" where
  "parse_file C s = map (parse_line C) (str_lines s)"

definition serialize :: "key_entry list \<Rightarrow> string" where
  "serialize entries =
     (let s = str_join [nl] (map ke_raw entries) in if s = [] then s else s @ [nl])"

definition expiry_tok :: "string \<Rightarrow> bool" where
  "expiry_tok t = (starts_with TOK_EXPIRES t \<or> starts_with TOK_TTL t \<or> starts_with TOK_ADDED t)"

definition strip_expiry_tokens :: "string \<Rightarrow> string" where
  "strip_expiry_tokens line = str_join '' '' (filter (\<lambda>t. \<not> expiry_tok t) (split_whitespace line))"

definition build_line :: "string \<Rightarrow> expiry \<Rightarrow> string" where
  "build_line ssh_line e =
     (let head = strip_expiry_tokens (str_trim ssh_line)
      in case e of
           At t \<Rightarrow> head @ '' '' @ TOK_EXPIRES @ format_date_ymd_utc t
         | Never \<Rightarrow> head @ '' '' @ TOK_EXPIRES @ NEVER
         | Unset \<Rightarrow> head)"

section \<open>The calendar is exact\<close>

text \<open>The first day of year \<open>y\<close> of a 400-year era, and the year a day falls in.\<close>

definition year_start :: "int \<Rightarrow> int" where
  "year_start y = 365 * y + y div 4 - y div 100"

definition year_of :: "int \<Rightarrow> int" where
  "year_of d = (d - d div 1460 + d div 36524 - d div 146096) div 365"

definition year_end :: "int \<Rightarrow> int" where
  "year_end y = (if y = 399 then 146096 else year_start (y + 1) - 1)"

definition year_ok :: "int \<Rightarrow> bool" where
  "year_ok y \<longleftrightarrow> year_of (year_start y) = y \<and> year_of (year_end y) = y
      \<and> year_start y \<le> year_end y \<and> year_end y - year_start y \<le> 365"

lemmas year_defs = year_ok_def year_of_def year_start_def year_end_def

lemma years_0: "list_all year_ok [0..99]"
  by (simp add: upto_rec1 year_defs)

lemma years_1: "list_all year_ok [100..199]"
  by (simp add: upto_rec1 year_defs)

lemma years_2: "list_all year_ok [200..299]"
  by (simp add: upto_rec1 year_defs)

lemma years_3: "list_all year_ok [300..399]"
  by (simp add: upto_rec1 year_defs)

lemma year_facts:
  assumes "0 \<le> y" and "y < 400"
  shows "year_of (year_start y) = y" and "year_of (year_end y) = y"
    and "year_start y \<le> year_end y" and "year_end y - year_start y \<le> 365"
proof -
  consider "y \<in> set [0..99]" | "y \<in> set [100..199]" | "y \<in> set [200..299]" | "y \<in> set [300..399]"
    unfolding set_upto atLeastAtMost_iff using assms by linarith
  then have "year_ok y"
    using years_0 years_1 years_2 years_3 unfolding list_all_iff by cases blast+
  then show "year_of (year_start y) = y" "year_of (year_end y) = y"
    "year_start y \<le> year_end y" "year_end y - year_start y \<le> 365"
    unfolding year_ok_def by blast+
qed

lemma div_plus1:
  assumes "0 < (k::int)"
  shows "(d + 1) div k = d div k + (if k dvd d + 1 then 1 else 0)"
proof -
  define q r where "q = (d + 1) div k" and "r = (d + 1) mod k"
  have d: "d + 1 = k * q + r" by (simp add: q_def r_def)
  have r: "0 \<le> r" "r < k" using assms by (simp_all add: r_def)
  show ?thesis
  proof (cases "k dvd d + 1")
    case True
    then have "r = 0" by (simp add: r_def dvd_eq_mod_eq_0)
    with d assms have "d div k = q - 1"
      by (intro int_div_pos_eq [where r = "k - 1"]) (simp_all add: algebra_simps)
    with True show ?thesis by (simp add: q_def)
  next
    case False
    then have "r \<noteq> 0" by (simp add: r_def dvd_eq_mod_eq_0)
    with d r have "d div k = q" by (intro int_div_pos_eq [where r = "r - 1"]) simp_all
    with False show ?thesis by (simp add: q_def)
  qed
qed

lemma year_step_arith: "a' \<le> a + 1 \<Longrightarrow> c' - c \<le> b' - b \<Longrightarrow> d - a + b - c \<le> d + 1 - a' + b' - (c' :: int)"
  by simp

lemma year_of_step:
  assumes "0 \<le> d"
  shows "year_of d \<le> year_of (d + 1)"
proof -
  have dvd: "(146096 :: int) dvd d + 1 \<Longrightarrow> 36524 dvd d + 1"
    by (rule dvd_trans [of _ 146096]) simp_all
  have "d - d div 1460 + d div 36524 - d div 146096
      \<le> d + 1 - (d + 1) div 1460 + (d + 1) div 36524 - (d + 1) div 146096"
  proof (rule year_step_arith)
    show "(d + 1) div 1460 \<le> d div 1460 + 1" by (simp add: div_plus1 [of 1460 d])
    show "(d + 1) div 146096 - d div 146096 \<le> (d + 1) div 36524 - d div 36524"
      using dvd by (simp add: div_plus1 [of 36524 d] div_plus1 [of 146096 d])
  qed
  then show ?thesis unfolding year_of_def by (intro zdiv_mono1) simp_all
qed

lemma year_of_mono: "0 \<le> a \<Longrightarrow> a \<le> b \<Longrightarrow> year_of a \<le> year_of b"
proof (induction "nat (b - a)" arbitrary: b)
  case 0
  then show ?case by simp
next
  case (Suc n)
  then have "year_of a \<le> year_of (b - 1)" by (intro Suc.hyps(1)) linarith+
  moreover have "year_of (b - 1) \<le> year_of (b - 1 + 1)"
    using Suc by (intro year_of_step) linarith
  ultimately show ?case by simp
qed

lemma year_of_bounds:
  assumes "0 \<le> d" and "d \<le> 146096"
  shows "0 \<le> year_of d" and "year_of d < 400"
proof -
  have "year_of 0 \<le> year_of d" "year_of d \<le> year_of 146096" using assms by (simp_all add: year_of_mono)
  then show "0 \<le> year_of d" "year_of d < 400" by (simp_all add: year_of_def)
qed

lemma year_range:
  assumes "0 \<le> d" and "d \<le> 146096"
  shows "year_start (year_of d) \<le> d" and "d \<le> year_end (year_of d)"
proof -
  let ?y = "year_of d"
  note y = year_of_bounds [OF assms]
  show "year_start ?y \<le> d"
  proof (rule ccontr)
    assume "\<not> year_start ?y \<le> d"
    then have lt: "d < year_start ?y" by simp
    then have "?y \<noteq> 0" using assms(1) by (auto simp: year_start_def)
    then have p: "0 \<le> ?y - 1" "?y - 1 < 400" using y by linarith+
    have "year_end (?y - 1) = year_start ?y - 1" using y by (simp add: year_end_def)
    with lt have "d \<le> year_end (?y - 1)" by simp
    then have "?y \<le> year_of (year_end (?y - 1))" using assms(1) by (intro year_of_mono)
    with year_facts(2) [OF p] show False by simp
  qed
  show "d \<le> year_end ?y"
  proof (rule ccontr)
    assume "\<not> d \<le> year_end ?y"
    then have gt: "year_end ?y < d" by simp
    then have "?y \<noteq> 399" using assms(2) by (auto simp: year_end_def)
    then have p: "0 \<le> ?y + 1" "?y + 1 < 400" using y by linarith+
    have "year_end ?y = year_start (?y + 1) - 1" using \<open>?y \<noteq> 399\<close> by (simp add: year_end_def)
    with gt have le: "year_start (?y + 1) \<le> d" by simp
    have "0 \<le> year_start (?y + 1)"
    proof -
      have "(?y + 1) div 100 \<le> (?y + 1) div 4" using p by (intro zdiv_mono2) simp_all
      with p show ?thesis unfolding year_start_def by simp
    qed
    from year_of_mono [OF this le] year_facts(1) [OF p] show False by simp
  qed
qed

lemma tdiv_nonneg [simp]: "0 \<le> a \<Longrightarrow> tdiv a b = a div b"
  by (simp add: tdiv_def)

lemma civil_roundtrip:
  assumes "0 \<le> days"
  obtains y m d where "civil_from_days days = (y, m, d)" and "days_from_civil y m d = days"
    and "1 \<le> m" and "m \<le> 12" and "1 \<le> d" and "d \<le> 31"
    and "y = (days + 719468) div 146097 * 400 + year_of ((days + 719468) mod 146097)
         + (if m \<le> 2 then 1 else 0)"
    and "m \<le> 2 \<longleftrightarrow> year_start (year_of ((days + 719468) mod 146097)) + 306 \<le> (days + 719468) mod 146097"
proof -
  define z where "z = days + 719468"
  define era where "era = z div 146097"
  define doe where "doe = z mod 146097"
  define yoe where "yoe = year_of doe"
  define doy where "doy = doe - year_start yoe"
  define mp where "mp = (5 * doy + 2) div 153"
  define d where "d = doy - (153 * mp + 2) div 5 + 1"
  define m where "m = (if mp < 10 then mp + 3 else mp - 9)"
  define y where "y = yoe + era * 400 + (if m \<le> 2 then 1 else 0)"
  have z: "0 \<le> z" using assms by (simp add: z_def)
  have doe: "0 \<le> doe" "doe \<le> 146096" by (simp_all add: doe_def)
  have doe_eq: "doe = z - era * 146097" by (simp add: doe_def era_def minus_mult_div_eq_mod [symmetric])
  have era: "0 \<le> era" using z by (simp add: era_def pos_imp_zdiv_nonneg_iff)
  note yoe = year_of_bounds [OF doe, folded yoe_def]
  have doy: "0 \<le> doy" "doy \<le> 365"
    using year_range [OF doe] year_facts(4) [OF yoe] unfolding doy_def yoe_def by linarith+
  have mp: "0 \<le> mp" "mp \<le> 11" using doy by (simp_all add: mp_def) 
  have d: "1 \<le> d" "d \<le> 31"
  proof -
    define q where "q = (153 * mp + 2) div 5"
    have "153 * mp \<le> 5 * doy + 2" "5 * doy + 2 < 153 * mp + 153" "5 * q \<le> 153 * mp + 2"
      "153 * mp + 2 < 5 * q + 5"
      unfolding mp_def q_def by presburger+
    then show "1 \<le> d" "d \<le> 31" unfolding d_def q_def [symmetric] by linarith+
  qed
  have m: "1 \<le> m" "m \<le> 12" using mp by (auto simp: m_def)
  have num: "0 \<le> doe - doe div 1460 + doe div 36524 - doe div 146096"
  proof -
    have "doe div 146096 \<le> doe div 36524" using doe by (intro zdiv_mono2) simp_all
    moreover have "doe div 1460 \<le> doe div 1" using doe by (intro zdiv_mono2) simp_all
    ultimately show ?thesis by simp
  qed
  have civil: "civil_from_days days = (y, m, d)"
  proof -
    have "tdiv (doe - tdiv doe 1460 + tdiv doe 36524 - tdiv doe 146096) 365 = yoe"
      using doe num by (simp add: yoe_def year_of_def)
    moreover have "doe - (365 * yoe + tdiv yoe 4 - tdiv yoe 100) = doy"
      using yoe by (simp add: doy_def year_start_def)
    moreover have "tdiv (if z \<ge> 0 then z else z - 146096) 146097 = era" using z by (simp add: era_def)
    moreover have "tdiv (5 * doy + 2) 153 = mp" using doy by (simp add: mp_def)
    moreover have "tdiv (153 * mp + 2) 5 = (153 * mp + 2) div 5" using mp by simp
    ultimately show ?thesis
      unfolding civil_from_days_def Let_def z_def [symmetric] doe_eq [symmetric]
      by (simp only: doe_eq [symmetric] m_def d_def y_def)
  qed
  have inv_eq: "days_from_civil y m d = days"
  proof -
    define yy where "yy = (if m \<le> 2 then y - 1 else y)"
    have yy: "yy = yoe + era * 400" by (simp add: yy_def y_def)
    have "yy div 400 = era" using yoe by (simp add: yy)
    moreover have "0 \<le> yy" using yoe era by (simp add: yy)
    moreover have "(if m > 2 then m - 3 else m + 9) = mp" using mp by (auto simp: m_def)
    moreover have "tdiv (153 * mp + 2) 5 + d - 1 = doy" using mp by (simp add: d_def)
    ultimately show ?thesis
      using yoe era doe_eq z_def
      by (simp add: days_from_civil_def Let_def yy_def [symmetric] yy doy_def year_start_def)
  qed
  have early: "m \<le> 2 \<longleftrightarrow> 306 \<le> doy"
  proof -
    have "153 * mp \<le> 5 * doy + 2" "5 * doy + 2 < 153 * mp + 153" unfolding mp_def by presburger+
    then have "mp < 10 \<longleftrightarrow> doy < 306" by linarith
    with mp show ?thesis by (auto simp: m_def)
  qed
  show thesis
  proof (rule that [OF civil inv_eq m d])
    show "y = (days + 719468) div 146097 * 400 + year_of ((days + 719468) mod 146097)
         + (if m \<le> 2 then 1 else 0)"
      by (simp add: y_def yoe_def doe_def era_def z_def)
    have "306 \<le> doy \<longleftrightarrow> year_start yoe + 306 \<le> doe" by (simp only: doy_def le_diff_eq add.commute)
    with early show "m \<le> 2 \<longleftrightarrow>
        year_start (year_of ((days + 719468) mod 146097)) + 306 \<le> (days + 719468) mod 146097"
      unfolding yoe_def doe_def z_def by blast
  qed
qed

text \<open>Every instant from 1970 to the end of 9999 has a year in the parser's range.\<close>

lemma civil_year_range:
  assumes "0 \<le> days" and "days \<le> 2932896" and "civil_from_days days = (y, m, d)"
  shows "1970 \<le> y" and "y \<le> 9999"
proof -
  define z where "z = days + 719468"
  define era where "era = z div 146097"
  define doe where "doe = z mod 146097"
  obtain y' m' d' where c: "civil_from_days days = (y', m', d')"
    and y': "y' = era * 400 + year_of doe + (if m' \<le> 2 then 1 else 0)"
    and m': "m' \<le> 2 \<longleftrightarrow> year_start (year_of doe) + 306 \<le> doe"
    using civil_roundtrip [OF assms(1)] unfolding era_def doe_def z_def by metis
  with assms(3) have y: "y = era * 400 + year_of doe + (if m \<le> 2 then 1 else 0)"
    and m: "m \<le> 2 \<longleftrightarrow> year_start (year_of doe) + 306 \<le> doe" by simp_all
  have z: "719468 \<le> z" "z \<le> 3652364" using assms(1,2) by (simp_all add: z_def)
  have zeq: "z = era * 146097 + doe" by (simp add: era_def doe_def)
  have doe: "0 \<le> doe" "doe \<le> 146096" by (simp_all add: doe_def)
  note yo = year_of_bounds [OF doe]
  have era: "4 \<le> era" "era \<le> 24" using z zeq doe by linarith+
  show "1970 \<le> y"
  proof (cases "era = 4")
    case True
    then have "135080 \<le> doe" using z zeq by linarith
    then have ge: "year_of 135080 \<le> year_of doe" by (intro year_of_mono) simp_all
    have v: "year_of 135080 = 369" by (simp add: year_of_def)
    show ?thesis
    proof (cases "year_of doe = 369")
      case True
      then have "m \<le> 2" using m \<open>135080 \<le> doe\<close> by (simp add: year_start_def)
      with True \<open>era = 4\<close> y show ?thesis by simp
    next
      case False
      with ge v \<open>era = 4\<close> y show ?thesis by simp
    qed
  next
    case False
    with era yo y show ?thesis by simp
  qed
  show "y \<le> 9999"
  proof (cases "era = 24 \<and> year_of doe = 399")
    case True
    then have "doe \<le> 146036" using z zeq by linarith
    with True m have "\<not> m \<le> 2" by (simp add: year_start_def)
    with True y show ?thesis by simp
  next
    case False
    with era yo y show ?thesis by (auto split: if_splits)
  qed
qed

lemma digits_val_zeros: "digits_val (replicate k (CHR ''0'') @ d) = digits_val d"
proof -
  have "foldl (\<lambda>a c. a * 10 + (byte c - 48)) 0 (replicate k (CHR ''0'')) = 0"
    by (induction k) simp_all
  then show ?thesis by (simp add: digits_val_def)
qed

lemma dec_pad_digits: "list_all is_digit (dec_pad w n)"
  using dec_digits [of n] by (auto simp: dec_pad_def list_all_iff is_digit_def)

lemma dec_pad_not_Nil: "dec_pad w n \<noteq> []"
  by (simp add: dec_pad_def)

lemma digits_val_dec_pad: "digits_val (dec_pad w n) = n"
  by (simp add: dec_pad_def digits_val_zeros digits_val_dec)

lemma parse_i64_dec_pad:
  assumes "n < 2 ^ 63"
  shows "parse_i64 (dec_pad w n) = Some (int n)"
proof -
  obtain c t where ct: "dec_pad w n = c # t" using dec_pad_not_Nil by (cases "dec_pad w n") auto
  then have "is_digit c" using dec_pad_digits [of w n] by simp
  then have c: "c \<noteq> CHR ''-''" using digit_solid by blast
  have "strip_plus (c # t) = c # t"
    using strip_plus_digits dec_pad_digits [of w n] ct by simp
  with c ct show ?thesis
    using assms dec_pad_digits [of w n] digits_val_dec_pad [of w n]
    by (simp add: parse_i64_def Let_def)
qed

lemma digits_no_dash: "list_all is_digit s \<Longrightarrow> CHR ''-'' \<notin> set s"
  using digit_solid by (auto simp: list_all_iff)

lemma SECS_unat: "unat SECS_PER_DAY = 86400"
  by (simp add: SECS_PER_DAY_def)

lemma unat_day: "unat (t div SECS_PER_DAY) = unat t div 86400"
  by (simp add: unat_div SECS_unat)

lemma date_roundtrip:
  assumes "unat t < 253402300800"
  shows "parse_date_ymd_utc (format_date_ymd_utc t) = Some (t div SECS_PER_DAY * SECS_PER_DAY)"
proof -
  define days where "days = int (unat t div 86400)"
  have days: "0 \<le> days" "days \<le> 2932896" using assms by (simp_all add: days_def)
  obtain y m d where c: "civil_from_days days = (y, m, d)" and inv: "days_from_civil y m d = days"
    and m: "1 \<le> m" "m \<le> 12" and d: "1 \<le> d" "d \<le> 31"
    using civil_roundtrip [OF days(1)] by metis
  note y = civil_year_range [OF days c]
  have parts: "str_split (CHR ''-'') (format_date_ymd_utc t) =
      [dec_pad 4 (nat y), dec_pad 2 (nat m), dec_pad 2 (nat d)]"
    using c digits_no_dash [OF dec_pad_digits]
    by (simp add: format_date_ymd_utc_def unat_day days_def str_split_append str_split_no_sep)
  have "parse_i64 (dec_pad 4 (nat y)) = Some y" "parse_i64 (dec_pad 2 (nat m)) = Some m"
    "parse_i64 (dec_pad 2 (nat d)) = Some d"
    using y m d by (simp_all add: parse_i64_dec_pad)
  then have "parse_date_ymd_utc (format_date_ymd_utc t) = Some (of_int (days * 86400))"
    using parts y m d inv days by (simp add: parse_date_ymd_utc_def Let_def)
  moreover have "(of_int (days * 86400) :: u64) = t div SECS_PER_DAY * SECS_PER_DAY"
  proof -
    have "(of_int (days * 86400) :: u64) = of_nat (unat t div 86400 * 86400)"
      by (simp add: days_def)
    also have "\<dots> = of_nat (unat t div 86400) * 86400" by simp
    also have "of_nat (unat t div 86400) = t div SECS_PER_DAY"
      by (simp add: unat_day [symmetric])
    finally show ?thesis by (simp add: SECS_PER_DAY_def)
  qed
  ultimately show ?thesis by simp
qed

section \<open>Lines\<close>

abbreviation plain_words :: "string list \<Rightarrow> bool" where
  "plain_words ws \<equiv> list_all (\<lambda>w. list_all solid w \<and> w \<noteq> []) ws"

lemma str_join_snoc: "ws \<noteq> [] \<Longrightarrow> str_join sep (ws @ [w]) = str_join sep ws @ sep @ w"
  by (induction ws rule: list_nonempty_induct) (simp_all add: str_join_Cons)

lemma join_ends:
  assumes "plain_words ws" and "ws \<noteq> []"
  obtains a where "str_join '' '' ws = [a]" and "solid a"
  | a s z where "str_join '' '' ws = a # s @ [z]" and "solid a" and "solid z"
proof -
  let ?j = "str_join '' '' ws"
  obtain w ws' where w: "ws = w # ws'" using assms(2) by (cases ws) auto
  have "solid (hd ?j)" "?j \<noteq> []"
    using assms(1) w by (cases "ws' = []"; cases w; simp add: str_join_Cons)+
  moreover have "solid (last ?j)"
    using assms(2,1)
  proof (induction ws rule: list_nonempty_induct)
    case (single x)
    then show ?case by (simp add: list_all_iff)
  next
    case (cons x xs)
    then have "str_join '' '' xs \<noteq> []" by (cases xs; cases "tl xs = []") (auto simp: str_join_Cons)
    with cons show ?case by (simp add: str_join_Cons)
  qed
  ultimately show thesis
  proof (cases "tl ?j" rule: rev_cases)
    case Nil
    then have "?j = [hd ?j]" using \<open>?j \<noteq> []\<close> by (metis list.collapse)
    then show ?thesis using that(1) \<open>solid (hd ?j)\<close> by blast
  next
    case (snoc s z)
    then have "?j = hd ?j # s @ [z]" using \<open>?j \<noteq> []\<close> by (metis list.collapse)
    moreover from this have "solid z" using \<open>solid (last ?j)\<close> by (metis last.simps last_snoc snoc_eq_iff_butlast)
    ultimately show ?thesis using that(2) \<open>solid (hd ?j)\<close> by blast
  qed
qed

lemma join_trim: "plain_words ws \<Longrightarrow> ws \<noteq> [] \<Longrightarrow> str_trim (str_join '' '' ws) = str_join '' '' ws"
  by (erule (1) join_ends) (simp_all add: str_trim_solid str_trim_solid1)

lemma join_trim_end:
  assumes "plain_words ws" and "ws \<noteq> []" and "\<not> solid c"
  shows "trim_end_char c (str_join '' '' ws) = str_join '' '' ws"
  using join_ends [OF assms(1,2)] assms(3)
  by cases (auto simp: trim_end_char_def)

lemma date_solid: "list_all solid (format_date_ymd_utc t)"
proof -
  have "list_all solid (dec_pad w n)" for w n
    using dec_pad_digits [of w n] digit_solid by (auto simp: list_all_iff)
  moreover have "solid (CHR ''-'')" by (simp add: solid_def is_ascii_char_def)
  ultimately show ?thesis by (simp add: format_date_ymd_utc_def split: prod.splits)
qed

lemma token_plain:
  "list_all solid (TOK_EXPIRES @ format_date_ymd_utc t)" "TOK_EXPIRES @ format_date_ymd_utc t \<noteq> []"
  using date_solid [of t] by (simp_all add: TOK_EXPIRES_def solid_def is_ascii_char_def)

lemma build_line_At:
  assumes "plain_words ws" and "\<not> expiry_tok (hd ws)" and "ws \<noteq> []"
  shows "build_line (str_join '' '' ws) (At t) =
    str_join '' '' (filter (\<lambda>w. \<not> expiry_tok w) ws @ [TOK_EXPIRES @ format_date_ymd_utc t])"
proof -
  have "filter (\<lambda>w. \<not> expiry_tok w) ws \<noteq> []" using assms(2,3) by (cases ws) auto
  then show ?thesis
    using assms by (simp add: build_line_def Let_def strip_expiry_tokens_def join_trim
        split_whitespace_join str_join_snoc)
qed

lemma foldl_no_tokens: "list_all (\<lambda>w. \<not> expiry_tok w) ws \<Longrightarrow> foldl expiry_token st ws = st"
  by (induction ws arbitrary: st)
    (auto simp: expiry_tok_def starts_with_def split: option.splits)

text \<open>
  Reading back a line built for a key with an absolute expiry gives that key and the midnight
  its date names, whatever expiry tokens the key line carried before.
\<close>

lemma built_line_parses:
  assumes "b64_laws C" and "plain_words ws" and "unat t < 253402300800"
    and line: "line = str_join '' '' (ssh_algo # c_b64enc C (ssh_blob node) # ws)"
  shows "parse_line C (build_line line (At t)) =
    \<lparr>ke_raw = build_line line (At t), ke_node = Some node, ke_expiry = At (t div SECS_PER_DAY * SECS_PER_DAY)\<rparr>"
proof -
  let ?b64 = "c_b64enc C (ssh_blob node)"
  let ?tok = "TOK_EXPIRES @ format_date_ymd_utc t"
  define keep where "keep = filter (\<lambda>w. \<not> expiry_tok w) ws"
  define words where "words = ssh_algo # ?b64 # keep @ [?tok]"
  have b: "list_all solid ?b64" "?b64 \<noteq> []"
    using b64enc_solid [OF assms(1)] ssh_blob_b64(1) [OF assms(1)] by simp_all
  have plain: "plain_words (ssh_algo # ?b64 # ws)" using b ssh_algo_solid assms(2) by simp
  have algo: "\<not> expiry_tok ssh_algo"
    by (simp add: expiry_tok_def ssh_algo_def starts_with_def TOK_EXPIRES_def TOK_TTL_def TOK_ADDED_def)
  have "\<not> expiry_tok ?b64"
    using ssh_blob_no_pad [OF assms(1), of node]
    by (auto simp: expiry_tok_def starts_with_iff TOK_EXPIRES_def TOK_TTL_def TOK_ADDED_def)
  with algo have built: "build_line line (At t) = str_join '' '' words"
    using build_line_At [OF plain] by (simp add: line words_def keep_def)
  have words: "plain_words words" "words \<noteq> []"
    using b ssh_algo_solid assms(2) token_plain [of t]
    by (auto simp: words_def keep_def list_all_iff)
  have raw: "trim_end_char cr (trim_end_char nl (str_join '' '' words)) = str_join '' '' words"
    using words by (simp add: join_trim_end solid_def)
  have split: "split_whitespace (str_join '' '' words) = words"
    using words(1) by (rule split_whitespace_join)
  have node: "parse_ssh_pubkey C (str_join '' '' words) = Some node"
    by (rule parse_ssh_words [OF assms(1), of _ _ "keep @ [?tok]"]) (simp add: split, simp add: words_def)
  have "parse_expiry_tokens (str_join '' '' words) = At (t div SECS_PER_DAY * SECS_PER_DAY)"
  proof -
    have "foldl expiry_token (None, None, None) keep = (None, None, None)"
      by (rule foldl_no_tokens) (simp add: keep_def list_all_iff)
    moreover have "format_date_ymd_utc t \<noteq> NEVER"
      using date_roundtrip [OF assms(3)]
      by (auto simp: NEVER_def parse_date_ymd_utc_def)
    ultimately show ?thesis
      unfolding parse_expiry_tokens_def split
      using date_roundtrip [OF assms(3)] by (simp add: words_def)
  qed
  moreover have "\<not> starts_with ''#'' (str_join '' '' words)" "str_join '' '' words \<noteq> []"
    by (simp_all add: words_def ssh_algo_def str_join_Cons starts_with_def)
  ultimately show ?thesis
    using node words by (simp add: parse_line_def built raw join_trim Let_def)
qed

text \<open>A default lifetime expires after the requested number of days, at most a day later.\<close>

lemma expiry_from_ttl_bounds:
  assumes "unat now + unat ttl * 86400 + 86400 < 2 ^ 64"
  shows "unat now + unat ttl * 86400 < unat (expiry_from_ttl_days now ttl)"
    and "unat (expiry_from_ttl_days now ttl) \<le> unat now + unat ttl * 86400 + 86400"
    and "expiry_from_ttl_days now ttl div SECS_PER_DAY * SECS_PER_DAY = expiry_from_ttl_days now ttl"
proof -
  define n where "n = unat now + unat ttl * 86400"
  have prod: "unat (ttl * SECS_PER_DAY) = unat ttl * 86400"
    using assms by (simp add: unat_word_ariths SECS_unat)
  then have "unat (saturating_add now (ttl * SECS_PER_DAY)) = n"
    using assms by (simp add: unat_saturating_add n_def)
  then have d: "unat (saturating_add now (ttl * SECS_PER_DAY) div SECS_PER_DAY) = n div 86400"
    by (simp add: unat_day)
  have le: "n div 86400 * 86400 \<le> n" "n < n div 86400 * 86400 + 86400" by simp_all
  have "(n div 86400 + 1) * 86400 \<le> n + 86400" using le(1) by simp
  also have "\<dots> < 2 ^ 64" using assms by (simp add: n_def)
  finally have small: "(n div 86400 + 1) * 86400 < 2 ^ 64" .
  define q where "q = saturating_add now (ttl * SECS_PER_DAY) div SECS_PER_DAY"
  have "unat q = n div 86400" using d by (simp add: q_def)
  then have q1: "unat (q + 1) = n div 86400 + 1" using small by (simp add: unat_word_ariths(1))
  have "unat ((q + 1) * SECS_PER_DAY) = (n div 86400 + 1) * 86400"
    unfolding unat_word_ariths(2) q1 SECS_unat using small by simp
  then have e: "unat (expiry_from_ttl_days now ttl) = (n div 86400 + 1) * 86400"
    by (simp add: expiry_from_ttl_days_def q_def)
  show "unat now + unat ttl * 86400 < unat (expiry_from_ttl_days now ttl)"
    and "unat (expiry_from_ttl_days now ttl) \<le> unat now + unat ttl * 86400 + 86400"
    unfolding e n_def [symmetric] using le by (simp_all add: add_mult_distrib)
  have "unat (expiry_from_ttl_days now ttl div SECS_PER_DAY * SECS_PER_DAY) = unat (expiry_from_ttl_days now ttl)"
    unfolding unat_word_ariths unat_day SECS_unat e using small by simp
  then show "expiry_from_ttl_days now ttl div SECS_PER_DAY * SECS_PER_DAY = expiry_from_ttl_days now ttl"
    by (simp add: word_unat_eq_iff)
qed

end
