(* ===== verification/Config.thy ===== *)
theory Config
  imports Rust_Str
begin

text \<open>
  The vault configuration and its hand-written TOML codec (\<open>config.rs\<close>): escaping, the printer,
  and the tolerant line parser with comments and multi-line arrays. Errors of the parser are
  \<open>ConfigErr\<close> values. Loops over characters work on the list of code points.
\<close>

section \<open>The configuration\<close>

record vault_config =
  vc_vault_id :: string
  vc_name :: string
  vc_peers :: "string list"
  vc_listen :: "string option"
  vc_no_tofu :: bool
  vc_no_tls :: bool
  vc_log :: "string option"
  vc_debounce_ms :: u64
  vc_allow_binary :: bool
  vc_include :: "string list"
  vc_auth_keys :: "string list"
  vc_default_key_ttl_days :: "u64 option"

definition default_debounce_ms :: u64 where "default_debounce_ms = 1000"
definition default_include :: "string list" where "default_include = [''**'']"
definition BUILTIN_DEFAULT_TTL_DAYS :: u64 where "BUILTIN_DEFAULT_TTL_DAYS = 90"

abbreviation dquote :: char where "dquote \<equiv> CHR 0x22"
abbreviation bslash :: char where "bslash \<equiv> CHR 0x5C"
abbreviation tab :: char where "tab \<equiv> CHR 0x09"

section \<open>Escaping\<close>

definition hex_digit_upper :: "nat \<Rightarrow> char" where
  "hex_digit_upper d = char_of (if d < 10 then 48 + d else 55 + d)"

definition hex4 :: "nat \<Rightarrow> string" where
  "hex4 n = map (\<lambda>k. hex_digit_upper (n div 16 ^ k mod 16)) [3, 2, 1, 0]"

definition esc_char :: "uchar \<Rightarrow> string" where
  "esc_char u =
     (case u of
        [c] \<Rightarrow>
          if c = bslash then [bslash, bslash]
          else if c = dquote then [bslash, dquote]
          else if c = nl then [bslash, CHR ''n'']
          else if c = tab then [bslash, CHR ''t'']
          else if c = cr then [bslash, CHR ''r'']
          else if byte c < 32 then [bslash, CHR ''u''] @ hex4 (byte c)
          else u
      | _ \<Rightarrow> u)"

definition esc :: "string \<Rightarrow> string" where
  "esc s = concat (map esc_char (str_chars s))"

definition utf8_encode :: "nat \<Rightarrow> uchar" where
  "utf8_encode n =
     (if n < 128 then [char_of n]
      else if n < 2048 then [char_of (192 + n div 64), char_of (128 + n mod 64)]
      else if n < 65536 then
        [char_of (224 + n div 4096), char_of (128 + n div 64 mod 64), char_of (128 + n mod 64)]
      else
        [char_of (240 + n div 262144), char_of (128 + n div 4096 mod 64),
         char_of (128 + n div 64 mod 64), char_of (128 + n mod 64)])"

definition char_from_u32 :: "nat \<Rightarrow> uchar option" where
  "char_from_u32 n =
     (if n < 1114112 \<and> \<not> (55296 \<le> n \<and> n < 57344) then Some (utf8_encode n) else None)"

text \<open>A \<open>\\u\<close> or \<open>\\U\<close> escape with so many digits.\<close>

definition unesc_hex :: "uchar list \<Rightarrow> uchar res" where
  "unesc_hex ds =
     (case parse_radix16 (2 ^ 32) (concat ds) of
        None \<Rightarrow> Err (ConfigErr ''bad unicode escape'')
      | Some n \<Rightarrow> ok_or (ConfigErr ''bad unicode scalar'') (char_from_u32 n))"

function unesc :: "uchar list \<Rightarrow> string res" where
  "unesc [] = Ok []"
| "unesc (c # cs) =
     (if c \<noteq> [bslash] then rbind (unesc cs) (\<lambda>t. Ok (c @ t))
      else
        (case cs of
           [] \<Rightarrow> Err (ConfigErr ''trailing backslash'')
         | e # rest \<Rightarrow>
             if e = ''n'' then rbind (unesc rest) (\<lambda>t. Ok (nl # t))
             else if e = ''t'' then rbind (unesc rest) (\<lambda>t. Ok (tab # t))
             else if e = ''r'' then rbind (unesc rest) (\<lambda>t. Ok (cr # t))
             else if e = [dquote] then rbind (unesc rest) (\<lambda>t. Ok (dquote # t))
             else if e = [bslash] then rbind (unesc rest) (\<lambda>t. Ok (bslash # t))
             else if e = ''b'' then rbind (unesc rest) (\<lambda>t. Ok (CHR 0x08 # t))
             else if e = ''f'' then rbind (unesc rest) (\<lambda>t. Ok (CHR 0x0C # t))
             else if e = ''u'' then
               rbind (unesc_hex (take 4 rest)) (\<lambda>u. rbind (unesc (drop 4 rest)) (\<lambda>t. Ok (u @ t)))
             else if e = ''U'' then
               rbind (unesc_hex (take 8 rest)) (\<lambda>u. rbind (unesc (drop 8 rest)) (\<lambda>t. Ok (u @ t)))
             else Err (ConfigErr ''invalid escape'')))"
  by pat_completeness auto
termination
  by (relation "measure length") auto

section \<open>Printing\<close>

definition fmt_str :: "string \<Rightarrow> string \<Rightarrow> string" where
  "fmt_str key v = key @ '' = '' @ [dquote] @ esc v @ [dquote, nl]"

definition fmt_arr :: "string \<Rightarrow> string list \<Rightarrow> string" where
  "fmt_arr key v =
     (case v of
        [] \<Rightarrow> key @ '' = []'' @ [nl]
      | [x] \<Rightarrow> key @ '' = ['' @ [dquote] @ esc x @ [dquote] @ '']'' @ [nl]
      | _ \<Rightarrow>
          key @ '' = ['' @ [nl] @
          concat (map (\<lambda>e. ''    '' @ [dquote] @ esc e @ [dquote] @ '','' @ [nl]) v) @ '']'' @ [nl])"

definition fmt_bool :: "bool \<Rightarrow> string" where
  "fmt_bool b = (if b then ''true'' else ''false'')"

definition to_toml_string :: "vault_config \<Rightarrow> string" where
  "to_toml_string c =
     fmt_str ''vault_id'' (vc_vault_id c) @
     fmt_str ''name'' (vc_name c) @
     fmt_arr ''peers'' (vc_peers c) @
     (case vc_listen c of None \<Rightarrow> [] | Some l \<Rightarrow> fmt_str ''listen'' l) @
     ''no_tofu = '' @ fmt_bool (vc_no_tofu c) @ [nl] @
     ''no_tls = '' @ fmt_bool (vc_no_tls c) @ [nl] @
     (case vc_log c of None \<Rightarrow> [] | Some l \<Rightarrow> fmt_str ''log'' l) @
     ''debounce_ms = '' @ dec (unat (vc_debounce_ms c)) @ [nl] @
     ''allow_binary = '' @ fmt_bool (vc_allow_binary c) @ [nl] @
     fmt_arr ''include'' (vc_include c) @
     (if vc_auth_keys c \<noteq> [] then fmt_arr ''auth_keys'' (vc_auth_keys c) else []) @
     (case vc_default_key_ttl_days c of
        None \<Rightarrow> []
      | Some d \<Rightarrow> ''default_key_ttl_days = '' @ dec (unat d) @ [nl])"

section \<open>Parsing\<close>

text \<open>The scan for a comment, with the byte before the current one.\<close>

fun strip_comment_from :: "char option \<Rightarrow> bool \<Rightarrow> string \<Rightarrow> string" where
  "strip_comment_from prev in_str [] = []"
| "strip_comment_from prev in_str (c # s) =
     (if c = dquote \<and> prev \<noteq> Some bslash then c # strip_comment_from (Some c) (\<not> in_str) s
      else if c = CHR ''#'' \<and> \<not> in_str then []
      else c # strip_comment_from (Some c) in_str s)"

definition strip_comment :: "string \<Rightarrow> string" where
  "strip_comment line = strip_comment_from None False line"

definition parse_str :: "string \<Rightarrow> string res" where
  "parse_str rhs =
     (let r = str_trim rhs
      in if 2 \<le> length r \<and> starts_with [dquote] r \<and> ends_with [dquote] r
         then unesc (str_chars (take (length r - 2) (drop 1 r)))
         else Err (ConfigErr ''expected quoted string''))"

text \<open>The rest after a string body, or \<open>None\<close> when it is not closed.\<close>

function skip_string :: "uchar list \<Rightarrow> uchar list option" where
  "skip_string [] = None"
| "skip_string (c # cs) =
     (if c = [bslash] then skip_string (drop 1 cs)
      else if c = [dquote] then Some cs
      else skip_string cs)"
  by pat_completeness auto
termination
  by (relation "measure length") auto

lemma skip_string_length: "skip_string cs = Some r \<Longrightarrow> length r < length cs"
  by (induction cs rule: skip_string.induct) (auto split: if_splits)

function arr_scan :: "int \<Rightarrow> bool \<Rightarrow> uchar list \<Rightarrow> bool" where
  "arr_scan depth started [] = (started \<and> depth \<le> 0)"
| "arr_scan depth started (c # cs) =
     (if c = [dquote] then
        (case skip_string cs of None \<Rightarrow> False | Some rest \<Rightarrow> arr_scan depth started rest)
      else if c = ''['' then arr_scan (depth + 1) True cs
      else if c = '']'' then arr_scan (depth - 1) started cs
      else arr_scan depth started cs)"
  by pat_completeness auto
termination
  by (relation "measure (\<lambda>(d, s, cs). length cs)") (auto dest: skip_string_length)

definition arr_complete :: "string \<Rightarrow> bool" where
  "arr_complete s = arr_scan 0 False (str_chars s)"

function string_body :: "uchar list \<Rightarrow> (uchar list \<times> uchar list) option" where
  "string_body [] = None"
| "string_body (c # cs) =
     (if c = [bslash] then
        (case cs of
           [] \<Rightarrow> None
         | e # rest \<Rightarrow> map_option (\<lambda>(b, r). (c # e # b, r)) (string_body rest))
      else if c = [dquote] then Some ([], cs)
      else map_option (\<lambda>(b, r). (c # b, r)) (string_body cs))"
  by pat_completeness auto
termination
  by (relation "measure length") auto

lemma string_body_length: "string_body cs = Some (b, r) \<Longrightarrow> length r < length cs"
  by (induction cs arbitrary: b r rule: string_body.induct)
    (force split: if_splits list.splits)+

function arr_items :: "uchar list \<Rightarrow> string list res" where
  "arr_items [] = Ok []"
| "arr_items (c # cs) =
     (if c \<noteq> [dquote] then arr_items cs
      else
        (case string_body cs of
           None \<Rightarrow> Err (ConfigErr ''unterminated string in array'')
         | Some (body, rest) \<Rightarrow>
             rbind (unesc body) (\<lambda>x. rbind (arr_items rest) (\<lambda>xs. Ok (x # xs)))))"
  by pat_completeness auto
termination
  by (relation "measure length") (auto dest: string_body_length)

definition parse_arr :: "string \<Rightarrow> string list res" where
  "parse_arr rhs =
     (case strip_prefix ''['' (str_trim rhs) of
        None \<Rightarrow> Err (ConfigErr ''expected array'')
      | Some x \<Rightarrow>
          (case strip_suffix '']'' x of
             None \<Rightarrow> Err (ConfigErr ''expected array'')
           | Some inner \<Rightarrow> arr_items (str_chars inner)))"

fun replace_crlf :: "string \<Rightarrow> string" where
  "replace_crlf [] = []"
| "replace_crlf [c] = [c]"
| "replace_crlf (c # d # s) = (if c = cr \<and> d = nl then nl # replace_crlf s else c # replace_crlf (d # s))"

text \<open>The fields read so far.\<close>

record toml_state =
  ts_vault_id :: "string option"
  ts_name :: string
  ts_peers :: "string list"
  ts_listen :: "string option"
  ts_no_tofu :: bool
  ts_no_tls :: bool
  ts_log :: "string option"
  ts_debounce_ms :: u64
  ts_allow_binary :: bool
  ts_include :: "string list option"
  ts_auth_keys :: "string list"
  ts_default_key_ttl_days :: "u64 option"

definition toml_start :: toml_state where
  "toml_start =
     \<lparr>ts_vault_id = None, ts_name = [], ts_peers = [], ts_listen = None, ts_no_tofu = False,
      ts_no_tls = False, ts_log = None, ts_debounce_ms = default_debounce_ms,
      ts_allow_binary = False, ts_include = None, ts_auth_keys = [],
      ts_default_key_ttl_days = None\<rparr>"

fun collect_array :: "string \<Rightarrow> string list \<Rightarrow> (string \<times> string list) res" where
  "collect_array rhs [] = (if arr_complete rhs then Ok (rhs, []) else Err (ConfigErr ''unterminated array''))"
| "collect_array rhs (l # ls) =
     (if arr_complete rhs then Ok (rhs, l # ls)
      else collect_array (rhs @ '' '' @ str_trim (strip_comment l)) ls)"

lemma collect_array_length: "collect_array rhs ls = Ok (r, ls') \<Longrightarrow> length ls' \<le> length ls"
  by (induction rhs ls rule: collect_array.induct) (auto split: if_splits)

definition set_field :: "string \<Rightarrow> string \<Rightarrow> toml_state \<Rightarrow> toml_state res" where
  "set_field key rhs st =
     (if key = ''vault_id'' then rbind (parse_str rhs) (\<lambda>v. Ok (st\<lparr>ts_vault_id := Some v\<rparr>))
      else if key = ''name'' then rbind (parse_str rhs) (\<lambda>v. Ok (st\<lparr>ts_name := v\<rparr>))
      else if key = ''peers'' then rbind (parse_arr rhs) (\<lambda>v. Ok (st\<lparr>ts_peers := v\<rparr>))
      else if key = ''listen'' then rbind (parse_str rhs) (\<lambda>v. Ok (st\<lparr>ts_listen := Some v\<rparr>))
      else if key = ''no_tofu'' then Ok (st\<lparr>ts_no_tofu := rhs = ''true''\<rparr>)
      else if key = ''no_tls'' then Ok (st\<lparr>ts_no_tls := rhs = ''true''\<rparr>)
      else if key = ''log'' then rbind (parse_str rhs) (\<lambda>v. Ok (st\<lparr>ts_log := Some v\<rparr>))
      else if key = ''debounce_ms'' then
        rbind (ok_or (ConfigErr ''bad debounce_ms'') (parse_u64 rhs)) (\<lambda>v. Ok (st\<lparr>ts_debounce_ms := v\<rparr>))
      else if key = ''allow_binary'' then Ok (st\<lparr>ts_allow_binary := rhs = ''true''\<rparr>)
      else if key = ''include'' then rbind (parse_arr rhs) (\<lambda>v. Ok (st\<lparr>ts_include := Some v\<rparr>))
      else if key = ''auth_keys'' then rbind (parse_arr rhs) (\<lambda>v. Ok (st\<lparr>ts_auth_keys := v\<rparr>))
      else if key = ''default_key_ttl_days'' then
        rbind (ok_or (ConfigErr ''bad default_key_ttl_days'') (parse_u64 rhs))
          (\<lambda>v. Ok (st\<lparr>ts_default_key_ttl_days := Some v\<rparr>))
      else Ok st)"

function toml_lines :: "string list \<Rightarrow> toml_state \<Rightarrow> toml_state res" where
  "toml_lines [] st = Ok st"
| "toml_lines (raw # ls) st =
     (let line = str_trim (strip_comment raw)
      in if line = [] \<or> starts_with ''['' line \<and> ends_with '']'' line then toml_lines ls st
         else
           (case split_once (CHR ''='') line of
              None \<Rightarrow> Err (ConfigErr ''malformed'')
            | Some (l, r) \<Rightarrow>
                (let key = str_trim l; rhs = str_trim r
                 in if starts_with ''['' rhs
                    then
                      rbind (collect_array rhs ls) (\<lambda>p.
                      rbind (set_field key (fst p) st) (\<lambda>st'. toml_lines (snd p) st'))
                    else rbind (set_field key rhs st) (\<lambda>st'. toml_lines ls st'))))"
  by pat_completeness auto
termination
  by (relation "measure (\<lambda>(ls, st). length ls)") (auto dest: collect_array_length)

declare toml_lines.simps [simp del]

definition from_toml_str :: "string \<Rightarrow> vault_config res" where
  "from_toml_str s =
     rbind (toml_lines (str_lines (replace_crlf s)) toml_start) (\<lambda>st.
       case ts_vault_id st of
         None \<Rightarrow> Err (ConfigErr ''missing field vault_id'')
       | Some v \<Rightarrow>
           Ok \<lparr>vc_vault_id = v, vc_name = ts_name st, vc_peers = ts_peers st,
               vc_listen = ts_listen st, vc_no_tofu = ts_no_tofu st, vc_no_tls = ts_no_tls st,
               vc_log = ts_log st, vc_debounce_ms = ts_debounce_ms st,
               vc_allow_binary = ts_allow_binary st,
               vc_include = (case ts_include st of None \<Rightarrow> default_include | Some v \<Rightarrow> v),
               vc_auth_keys = ts_auth_keys st,
               vc_default_key_ttl_days = ts_default_key_ttl_days st\<rparr>)"

section \<open>Escaping is inverted\<close>

text \<open>The code points an escaped code point is made of.\<close>

definition esc_toks :: "uchar \<Rightarrow> uchar list" where
  "esc_toks u = (if length u = 1 then map (\<lambda>c. [c]) (esc_char u) else [u])"

lemma esc_char_long: "length u > 1 \<Longrightarrow> esc_char u = u"
  by (cases u rule: remdups_adj.cases) (simp_all add: esc_char_def)

lemma hex_digit_ascii:
  assumes "d < 16"
  shows "is_ascii_char (hex_digit_upper d)" and "hex_val (hex_digit_upper d) = Some d"
    and "byte (hex_digit_upper d) \<in> {48..57} \<union> {65..70}"
proof -
  have b: "byte (hex_digit_upper d) = (if d < 10 then 48 + d else 55 + d)"
    using assms by (simp add: hex_digit_upper_def)
  then show "is_ascii_char (hex_digit_upper d)" "hex_val (hex_digit_upper d) = Some d"
    "byte (hex_digit_upper d) \<in> {48..57} \<union> {65..70}"
    using assms by (auto simp: is_ascii_char_def hex_val_def is_digit_def)
qed

lemma hex_digit_plain:
  assumes "d < 16"
  shows "hex_digit_upper d \<noteq> CHR ''+''" and "hex_digit_upper d \<noteq> bslash"
    and "hex_digit_upper d \<noteq> dquote" and "hex_digit_upper d \<noteq> nl" and "hex_digit_upper d \<noteq> cr"
  using hex_digit_ascii(3) [OF assms] by auto

lemma hex4_ascii: "is_ascii (hex4 n)"
  by (simp add: hex4_def hex_digit_ascii)

lemma parse_hex4:
  assumes "n < 2 ^ 16"
  shows "parse_radix16 (2 ^ 32) (hex4 n) = Some n"
proof -
  have d: "n div 4096 mod 16 < 16" "n div 256 mod 16 < 16" "n div 16 mod 16 < 16" "n mod 16 < 16"
    by simp_all
  have "n div 4096 * 16 + n div 256 mod 16 = n div 256"
    using div_mult_mod_eq [of "n div 256" 16] by (simp add: div_mult2_eq [symmetric])
  moreover have "n div 256 * 16 + n div 16 mod 16 = n div 16"
    using div_mult_mod_eq [of "n div 16" 16] by (simp add: div_mult2_eq [symmetric])
  moreover have "n div 16 * 16 + n mod 16 = n" by simp
  moreover have "n div 4096 mod 16 = n div 4096" using assms by simp
  ultimately have v: "((n div 4096 mod 16 * 16 + n div 256 mod 16) * 16 + n div 16 mod 16) * 16 + n mod 16 = n"
    by simp
  have plus: "strip_plus (hex4 n) = hex4 n"
    using hex_digit_plain(1) [OF d(1)] by (simp add: hex4_def strip_plus_def)
  have "foldl (\<lambda>a c. a * 16 + (case hex_val c of None \<Rightarrow> 0 | Some d \<Rightarrow> d)) 0
      (map hex_digit_upper [p3, p2, p1, p0]) = ((p3 * 16 + p2) * 16 + p1) * 16 + p0"
    if "p3 < 16" "p2 < 16" "p1 < 16" "p0 < 16" for p3 p2 p1 p0
    using that by (simp add: hex_digit_ascii(2))
  note digits = trans [OF this [OF d] v]
  have hx: "hex4 n = map hex_digit_upper [n div 4096 mod 16, n div 256 mod 16, n div 16 mod 16, n mod 16]"
    by (simp add: hex4_def)
  have "foldl (\<lambda>a c. a * 16 + (case hex_val c of None \<Rightarrow> 0 | Some d \<Rightarrow> d)) 0 (hex4 n) = n"
    unfolding hx by (rule digits)
  moreover have "list_all (\<lambda>c. hex_val c \<noteq> None) (hex4 n)"
    by (simp add: hex4_def hex_digit_ascii(2))
  moreover have "hex4 n \<noteq> []" by (simp add: hex4_def)
  moreover have "n < 2 ^ 32" using assms by simp
  ultimately show ?thesis unfolding parse_radix16_def plus Let_def by simp
qed

lemma esc_char_ascii: "is_ascii_char c \<Longrightarrow> is_ascii (esc_char [c])"
  using hex4_ascii by (auto simp: esc_char_def is_ascii_char_def)

lemma esc_toks_valid:
  assumes "valid_char u"
  shows "list_all valid_char (esc_toks u)" and "concat (esc_toks u) = esc_char u"
proof -
  from assms have "list_all valid_char (esc_toks u) \<and> concat (esc_toks u) = esc_char u"
  proof (cases rule: valid_char_cases)
    case (1 c)
    then show ?thesis
      using esc_char_ascii [of c] by (simp add: esc_toks_def list_all_iff valid_ascii)
  next
    case 2
    then show ?thesis using assms by (simp add: esc_toks_def esc_char_long)
  qed
  then show "list_all valid_char (esc_toks u)" and "concat (esc_toks u) = esc_char u" by blast+
qed

lemma str_chars_esc:
  assumes "from_utf8_ok v"
  shows "str_chars (esc v @ t) = concat (map esc_toks (str_chars v)) @ str_chars t"
proof -
  have v: "list_all valid_char (str_chars v)" using assms by (rule from_utf8_ok_chars)
  have "list_all valid_char us \<Longrightarrow> concat (map esc_char us) = concat (concat (map esc_toks us))" for us
    by (induction us) (simp_all add: esc_toks_valid(2))
  then have "esc v = concat (concat (map esc_toks (str_chars v)))" using v by (simp add: esc_def)
  moreover have "list_all valid_char (concat (map esc_toks (str_chars v)))"
    using v esc_toks_valid(1) by (auto simp: list_all_iff)
  ultimately show ?thesis by (simp add: str_chars_concat)
qed

text \<open>What one code point becomes: itself, a two-character escape, or a \<open>\\u\<close> escape.\<close>

lemma esc_toks_cases:
  assumes "valid_char u"
  obtains (plain) "esc_toks u = [u]" and "u \<noteq> [bslash]" and "u \<noteq> [dquote]"
  | (pair) e where "esc_toks u = [[bslash], e]" and "unesc (esc_toks u @ r) = rbind (unesc r) (\<lambda>t. Ok (u @ t))"
      and "length e = 1"
  | (code) n where "u = [char_of n]" and "n < 32" and "esc_toks u = [bslash] # ''u'' # map (\<lambda>c. [c]) (hex4 n)"
proof -
  from assms show thesis
  proof (cases rule: valid_char_cases)
    case (1 c)
    consider "c \<in> {bslash, dquote, nl, tab, cr}" | "c \<notin> {bslash, dquote, nl, tab, cr}" "byte c < 32"
      | "c \<notin> {bslash, dquote, nl, tab, cr}" "\<not> byte c < 32" by blast
    then show thesis
    proof cases
      case special: 1
      then show thesis using 1(1) pair by (auto simp: esc_toks_def esc_char_def)
    next
      case 2
      then show thesis using 1(1) code [of "byte c"] by (simp add: esc_toks_def esc_char_def)
    next
      case 3
      then show thesis using 1(1) plain by (simp add: esc_toks_def esc_char_def)
    qed
  next
    case 2
    then show thesis using plain by (cases u) (auto simp: esc_toks_def)
  qed
qed

lemma unesc_toks:
  assumes "valid_char u"
  shows "unesc (esc_toks u @ r) = rbind (unesc r) (\<lambda>t. Ok (u @ t))"
  using assms
proof (cases rule: esc_toks_cases [where r = r])
  case (code n)
  have "unesc_hex (map (\<lambda>c. [c]) (hex4 n)) = Ok u"
    using code parse_hex4 [of n]
    by (simp add: unesc_hex_def char_from_u32_def utf8_encode_def)
  moreover have "length (map (\<lambda>c. [c]) (hex4 n)) = 4" by (simp add: hex4_def)
  ultimately show ?thesis using code(3) by simp
qed simp_all

lemma unesc_esc: "list_all valid_char us \<Longrightarrow> unesc (concat (map esc_toks us)) = Ok (concat us)"
  by (induction us) (simp_all add: unesc_toks)

lemma hex4_plain: "list_all (\<lambda>c. c \<noteq> bslash \<and> c \<noteq> dquote \<and> c \<noteq> nl \<and> c \<noteq> cr) (hex4 n)"
  by (simp add: hex4_def hex_digit_plain)

lemma skip_string_toks:
  "list_all valid_char us \<Longrightarrow> skip_string (concat (map esc_toks us) @ [dquote] # r) = Some r"
proof (induction us)
  case Nil
  then show ?case by simp
next
  case (Cons u us)
  from Cons.prems have "valid_char u" by simp
  then show ?case
  proof (cases rule: esc_toks_cases [where r = "[]"])
    case (code n)
    have "list_all (\<lambda>c. c \<noteq> bslash \<and> c \<noteq> dquote \<and> c \<noteq> nl \<and> c \<noteq> cr) cs \<Longrightarrow>
        skip_string (map (\<lambda>c. [c]) cs @ t) = skip_string t" for cs t
      by (induction cs) simp_all
    from this [OF hex4_plain] Cons code show ?thesis by simp
  qed (use Cons in auto)
qed

lemma string_body_toks:
  "list_all valid_char us \<Longrightarrow>
     string_body (concat (map esc_toks us) @ [dquote] # r) = Some (concat (map esc_toks us), r)"
proof (induction us)
  case Nil
  then show ?case by simp
next
  case (Cons u us)
  from Cons.prems have "valid_char u" by simp
  then show ?case
  proof (cases rule: esc_toks_cases [where r = "[]"])
    case (code n)
    have "list_all (\<lambda>c. c \<noteq> bslash \<and> c \<noteq> dquote \<and> c \<noteq> nl \<and> c \<noteq> cr) cs \<Longrightarrow>
        string_body (map (\<lambda>c. [c]) cs @ t) = map_option (\<lambda>(b, r). (map (\<lambda>c. [c]) cs @ b, r)) (string_body t)"
      for cs t
      by (cases "string_body t"; induction cs) auto
    from this [OF hex4_plain] Cons code show ?thesis by simp
  qed (use Cons in auto)
qed

section \<open>One line\<close>

text \<open>A scan inside a string passes the whole escaped body; outside, a line without \<open>#\<close>.\<close>

lemma strip_comment_none:
  "CHR ''#'' \<notin> set s \<Longrightarrow> strip_comment_from prev b s = s"
  by (induction s arbitrary: prev b) auto

lemma strip_comment_key:
  "CHR ''#'' \<notin> set k \<Longrightarrow> dquote \<notin> set k \<Longrightarrow>
     strip_comment_from prev b (k @ s) =
       k @ strip_comment_from (if k = [] then prev else Some (last k)) b s"
  by (induction k arbitrary: prev) auto

lemma esc_char_scan:
  assumes "valid_char u"
  shows "\<exists>p. strip_comment_from prev True (esc_char u @ s) = esc_char u @ strip_comment_from p True s"
proof -
  have plain: "dquote \<notin> set w \<Longrightarrow> \<exists>p. strip_comment_from prev True (w @ s) = w @ strip_comment_from p True s"
    for w prev
    by (induction w arbitrary: prev) auto
  from assms show ?thesis
  proof (cases rule: valid_char_cases)
    case (1 c)
    show ?thesis
    proof (cases "c = dquote")
      case True
      then have "esc_char u = [bslash, dquote]" using 1 by (simp add: esc_char_def)
      then show ?thesis by auto
    next
      case False
      have "dquote \<notin> set (hex4 (byte c))" using hex4_plain by (auto simp: list_all_iff)
      then have "dquote \<notin> set (esc_char u)" using 1 False by (auto simp: esc_char_def)
      then show ?thesis by (rule plain)
    qed
  next
    case 2
    then have "dquote \<notin> set u" using 2(2) [of dquote] by (auto simp: is_ascii_char_def)
    with 2 show ?thesis by (simp add: esc_char_long plain)
  qed
qed

lemma esc_scan:
  assumes "from_utf8_ok v" and "CHR ''#'' \<notin> set s"
  shows "strip_comment_from prev True (esc v @ s) = esc v @ s"
proof -
  have "list_all valid_char us \<Longrightarrow>
      strip_comment_from prev True (concat (map esc_char us) @ s) = concat (map esc_char us) @ s" for us prev
  proof (induction us arbitrary: prev)
    case Nil
    then show ?case using strip_comment_none [OF assms(2)] by simp
  next
    case (Cons u us)
    then have "valid_char u" by simp
    from esc_char_scan [OF this, of prev "concat (map esc_char us) @ s"] Cons
    show ?case by auto
  qed
  then show ?thesis using from_utf8_ok_chars [OF assms(1)] by (simp add: esc_def)
qed

lemma strip_comment_quoted:
  assumes "from_utf8_ok v" and "CHR ''#'' \<notin> set k" and "dquote \<notin> set k" and "bslash \<notin> set k"
    and "CHR ''#'' \<notin> set t"
  shows "strip_comment (k @ [dquote] @ esc v @ t) = k @ [dquote] @ esc v @ t"
proof -
  have "(if k = [] then None else Some (last k)) \<noteq> Some bslash"
    using assms(4) last_in_set [of k] by (metis option.distinct(1) option.inject)
  then show ?thesis
    using strip_comment_key [OF assms(2,3), of None False "[dquote] @ esc v @ t"]
      esc_scan [OF assms(1,5)] by (simp add: strip_comment_def)
qed

lemma esc_no_breaks: "from_utf8_ok v \<Longrightarrow> nl \<notin> set (esc v) \<and> cr \<notin> set (esc v)"
proof -
  assume "from_utf8_ok v"
  then have "list_all valid_char (str_chars v)" by (rule from_utf8_ok_chars)
  moreover have "nl \<notin> set (esc_char u) \<and> cr \<notin> set (esc_char u)" if "valid_char u" for u
    using that
  proof (cases rule: valid_char_cases)
    case (1 c)
    have "nl \<notin> set (hex4 (byte c))" "cr \<notin> set (hex4 (byte c))" using hex4_plain by (auto simp: list_all_iff)
    then show ?thesis using 1 by (auto simp: esc_char_def)
  next
    case 2
    then have "nl \<notin> set u \<and> cr \<notin> set u"
      using 2(2) [of nl] 2(2) [of cr] by (auto simp: is_ascii_char_def)
    with 2 show ?thesis by (simp add: esc_char_long)
  qed
  ultimately show ?thesis by (auto simp: esc_def list_all_iff)
qed

lemma parse_str_quoted:
  assumes "from_utf8_ok v"
  shows "parse_str ([dquote] @ esc v @ [dquote]) = Ok v"
proof -
  have "str_trim (dquote # esc v @ [dquote]) = dquote # esc v @ [dquote]"
    by (rule str_trim_solid) (simp_all add: solid_def is_ascii_char_def)
  moreover have "unesc (str_chars (esc v)) = Ok v"
    using str_chars_esc [OF assms, of "[]"] unesc_esc [OF from_utf8_ok_chars [OF assms]] by simp
  ultimately show ?thesis
    by (simp add: parse_str_def Let_def starts_with_def ends_with_iff)
qed

text \<open>The arrays of the printer, as they stand once collected on one line.\<close>

definition arr_text :: "string list \<Rightarrow> string" where
  "arr_text v = (case v of
     [] \<Rightarrow> ''[]''
   | [x] \<Rightarrow> ''['' @ [dquote] @ esc x @ [dquote] @ '']''
   | _ \<Rightarrow> ''['' @ concat (map (\<lambda>e. '' '' @ [dquote] @ esc e @ [dquote] @ '','') v) @ '' ]'')"

definition item_toks :: "string \<Rightarrow> uchar list" where
  "item_toks e = [[dquote]] @ concat (map esc_toks (str_chars e)) @ [[dquote]]"

lemma str_chars_item:
  assumes "from_utf8_ok e"
  shows "str_chars ([dquote] @ esc e @ [dquote] @ t) = item_toks e @ str_chars t"
proof -
  have q: "str_chars (dquote # t) = [dquote] # str_chars t" for t
    using str_chars_valid [OF valid_ascii, of dquote t] by (simp add: is_ascii_char_def)
  show ?thesis
    using str_chars_esc [OF assms, of "[dquote] @ t"]
    by (simp add: item_toks_def q del: str_chars.simps)
qed

lemma str_chars_plain: "is_ascii k \<Longrightarrow> str_chars (k @ t) = map (\<lambda>c. [c]) k @ str_chars t"
  using str_chars_concat [of "map (\<lambda>c. [c]) k" t] by (simp add: list_all_iff valid_ascii comp_def)

lemma arr_items_item:
  assumes "from_utf8_ok e"
  shows "arr_items (item_toks e @ r) = rbind (arr_items r) (\<lambda>xs. Ok (e # xs))"
proof -
  note v = from_utf8_ok_chars [OF assms]
  have "string_body (concat (map esc_toks (str_chars e)) @ [dquote] # r) =
      Some (concat (map esc_toks (str_chars e)), r)"
    by (rule string_body_toks [OF v])
  then show ?thesis using unesc_esc [OF v] by (simp add: item_toks_def)
qed

lemma arr_scan_item:
  assumes "from_utf8_ok e"
  shows "arr_scan d st (item_toks e @ r) = arr_scan d st r"
  using skip_string_toks [OF from_utf8_ok_chars [OF assms], of r] by (simp add: item_toks_def)

end
