(* ===== verification/Config_Facts.thy ===== *)
theory Config_Facts
  imports Config
begin

text \<open>
  The printed form of a vault configuration reads back to the configuration: the facts about the lines,
  the quoted strings and the arrays that \<^verbatim>\<open>to_toml_string\<close> writes and \<^verbatim>\<open>from_toml_str\<close> reads
  (crates/csp-core/src/config.rs).
\<close>

section \<open>Reading back what was printed\<close>

abbreviation quoted :: "string \<Rightarrow> string" where
  "quoted v \<equiv> [dquote] @ esc v @ [dquote]"

lemma is_ws_space: "is_ws '' ''"
  by (simp add: is_ws_def ws_chars_def)

lemma str_trim_space: "str_trim (CHR '' '' # s) = str_trim s"
  using str_chars_plain [of "'' ''" s] is_ws_space
  by (simp add: str_trim_def is_ascii_char_def del: str_chars.simps)

lemma str_trim_space_end: "str_trim (s @ '' '') = str_trim s"
proof -
  have "str_chars (s @ '' '') = str_chars s @ ['' '']"
    using str_chars_append_ascii [of "CHR '' ''" s "[]"] by (simp add: is_ascii_char_def)
  moreover have "concat (rev (dropWhile is_ws (rev (dropWhile is_ws (cs @ ['' '']))))) =
      concat (rev (dropWhile is_ws (rev (dropWhile is_ws cs))))" for cs
  proof (cases "\<forall>c\<in>set cs. is_ws c")
    case True
    then have "dropWhile is_ws cs = []" by simp
    moreover have "dropWhile is_ws (cs @ ['' '']) = []" using True is_ws_space by simp
    ultimately show ?thesis by (simp only:)
  next
    case False
    then obtain c where "c \<in> set cs" "\<not> is_ws c" by blast
    then show ?thesis using is_ws_space dropWhile_append1 [of c cs is_ws "['' '']"] by simp
  qed
  ultimately show ?thesis by (simp only: str_trim_def)
qed

text \<open>A value as the parser sees it: no white space at either end.\<close>

definition tight :: "string \<Rightarrow> bool" where
  "tight s \<longleftrightarrow> (\<exists>a. s = [a] \<and> solid a) \<or> (\<exists>a m z. s = a # m @ [z] \<and> solid a \<and> solid z)"

lemma tight_trim: "tight s \<Longrightarrow> str_trim s = s"
  by (auto simp: tight_def str_trim_solid str_trim_solid1)

lemma tight_solid: "list_all solid s \<Longrightarrow> s \<noteq> [] \<Longrightarrow> tight s"
proof (cases s)
  case (Cons a t)
  assume "list_all solid s"
  with Cons show ?thesis
    by (cases t rule: rev_cases) (auto simp: tight_def)
qed simp

lemma tight_ends: "solid a \<Longrightarrow> solid z \<Longrightarrow> tight (a # m @ [z])"
  by (auto simp: tight_def)

lemma tight_append: "tight k \<Longrightarrow> tight v \<Longrightarrow> tight (k @ m @ v)"
proof -
  assume k: "tight k" and v: "tight v"
  then obtain a k' where "k = a # k'" "solid a" by (auto simp: tight_def)
  moreover have "\<exists>z v'. v = v' @ [z] \<and> solid z"
    using v by (auto simp: tight_def intro: exI [of _ "x # y" for x y])
  then obtain z v' where "v = v' @ [z]" "solid z" by blast
  ultimately show ?thesis using tight_ends [of a z "k' @ m @ v'"] by simp
qed

lemma solid_punct [simp]:
  "solid dquote" "solid (CHR ''['')" "solid (CHR '']'')" "solid (CHR '','')"
  by (simp_all add: solid_def is_ascii_char_def)

definition key_ok :: "string \<Rightarrow> bool" where
  "key_ok k \<longleftrightarrow> k \<noteq> [] \<and> list_all (\<lambda>c. solid c \<and> c \<noteq> CHR ''='' \<and> c \<noteq> CHR ''#'' \<and> c \<noteq> dquote
     \<and> c \<noteq> bslash \<and> c \<noteq> CHR ''['') k"

lemma key_ok_head: "key_ok k \<Longrightarrow> \<not> starts_with ''['' (k @ t) \<and> k @ t \<noteq> []"
  by (cases k) (auto simp: key_ok_def starts_with_def)

lemma toml_line:
  assumes "str_trim (strip_comment raw) = line" and "line \<noteq> []" and "\<not> starts_with ''['' line"
    and "split_once (CHR ''='') line = Some (l, r)" and "str_trim l = key" and "str_trim r = val"
  shows "toml_lines (raw # ls) st =
    (if starts_with ''['' val
     then rbind (collect_array val ls) (\<lambda>p. rbind (set_field key (fst p) st) (\<lambda>st'. toml_lines (snd p) st'))
     else rbind (set_field key val st) (\<lambda>st'. toml_lines ls st'))"
  by (simp add: toml_lines.simps(2) assms)

lemma toml_field:
  assumes k: "key_ok key" and v: "tight val" and sc: "strip_comment (key @ '' = '' @ val) = key @ '' = '' @ val"
  shows "toml_lines ((key @ '' = '' @ val) # ls) st =
    (if starts_with ''['' val
     then rbind (collect_array val ls) (\<lambda>p. rbind (set_field key (fst p) st) (\<lambda>st'. toml_lines (snd p) st'))
     else rbind (set_field key val st) (\<lambda>st'. toml_lines ls st'))"
proof -
  have key: "tight key" using k by (intro tight_solid) (auto simp: key_ok_def list_all_iff)
  have line: "str_trim (key @ '' = '' @ val) = key @ '' = '' @ val"
    by (rule tight_trim [OF tight_append [OF key v]])
  have no: "CHR ''='' \<notin> set (key @ '' '')" using k by (auto simp: key_ok_def list_all_iff)
  have "split_once (CHR ''='') (key @ '' = '' @ val) = Some (key @ '' '', '' '' @ val)"
    using str_find_append [OF no, of "'' '' @ val"] by (simp add: split_once_def)
  moreover have "\<not> starts_with ''['' (key @ '' = '' @ val)" "key @ '' = '' @ val \<noteq> []"
    using key_ok_head [OF k] by blast+
  moreover have "str_trim (key @ '' '') = key" "str_trim ('' '' @ val) = val"
    using str_trim_space_end [of key] str_trim_space [of val] tight_trim [OF key] tight_trim [OF v]
    by (simp_all only: append_Cons append_Nil)
  ultimately show ?thesis
    using toml_line [of "key @ '' = '' @ val" "key @ '' = '' @ val" "key @ '' ''" "'' '' @ val" key val]
    by (simp only: sc line simp_thms)
qed

lemma str_lines_line: "nl \<notin> set w \<Longrightarrow> cr \<notin> set w \<Longrightarrow> str_lines (w @ nl # t) = w # str_lines t"
proof -
  assume "nl \<notin> set w" "cr \<notin> set w"
  moreover from this have "strip_cr w = w" using last_in_set [of w] by (intro strip_cr_id) metis
  ultimately show ?thesis by (simp add: str_lines_Cons)
qed

lemma key_ok_facts:
  assumes "key_ok k"
  shows "CHR ''#'' \<notin> set (k @ '' = '')" "dquote \<notin> set (k @ '' = '')" "bslash \<notin> set (k @ '' = '')"
    "nl \<notin> set k" "cr \<notin> set k"
  using assms by (auto simp: key_ok_def list_all_iff solid_def)

lemma tight_quoted: "tight (quoted v)"
  using tight_ends [of dquote dquote "esc v"] by simp

lemma toml_str:
  assumes "key_ok key" and "from_utf8_ok v"
  shows "toml_lines (str_lines (fmt_str key v @ t)) st =
    rbind (set_field key (quoted v) st) (\<lambda>st'. toml_lines (str_lines t) st')"
proof -
  note k = key_ok_facts [OF assms(1)]
  have "str_lines (fmt_str key v @ t) = (key @ '' = '' @ quoted v) # str_lines t"
    using str_lines_line [of "key @ '' = '' @ quoted v" t] k esc_no_breaks [OF assms(2)]
    by (simp add: fmt_str_def)
  moreover have "strip_comment (key @ '' = '' @ quoted v) = key @ '' = '' @ quoted v"
    using strip_comment_quoted [OF assms(2) k(1-3), of "[dquote]"] by simp
  ultimately show ?thesis
    using toml_field [OF assms(1) tight_quoted] by (simp add: starts_with_def)
qed

lemma toml_plain:
  assumes "key_ok key" and "list_all solid v" and "v \<noteq> []" and "CHR ''#'' \<notin> set v" and "dquote \<notin> set v"
    and "CHR ''['' \<notin> set v"
  shows "toml_lines (str_lines (key @ '' = '' @ v @ nl # t)) st =
    rbind (set_field key v st) (\<lambda>st'. toml_lines (str_lines t) st')"
proof -
  note k = key_ok_facts [OF assms(1)]
  have "nl \<notin> set v" "cr \<notin> set v" using assms(2) by (auto simp: list_all_iff solid_def)
  then have "str_lines (key @ '' = '' @ v @ nl # t) = (key @ '' = '' @ v) # str_lines t"
    using str_lines_line [of "key @ '' = '' @ v" t] k by simp
  moreover have "strip_comment (key @ '' = '' @ v) = key @ '' = '' @ v"
    unfolding strip_comment_def using k assms(4) by (intro strip_comment_none) simp
  moreover have "\<not> starts_with ''['' v" using assms(3,6) by (cases v) (auto simp: starts_with_def)
  ultimately show ?thesis
    using toml_field [OF assms(1) tight_solid [OF assms(2,3)]] by simp
qed

lemma arr_items_plain: "dquote \<notin> set k \<Longrightarrow> arr_items (map (\<lambda>c. [c]) k @ r) = arr_items r"
  by (induction k) auto

lemma arr_scan_plain:
  "list_all (\<lambda>c. c \<noteq> dquote \<and> c \<noteq> CHR ''['' \<and> c \<noteq> CHR '']'') k \<Longrightarrow>
     arr_scan d st (map (\<lambda>c. [c]) k @ r) = arr_scan d st r"
  by (induction k) auto

abbreviation items_text :: "string list \<Rightarrow> string" where
  "items_text v \<equiv> concat (map (\<lambda>e. '' '' @ quoted e @ '','') v)"

lemma items_text_toks:
  assumes "list_all from_utf8_ok v"
  shows "arr_items (str_chars (items_text v @ t)) = rbind (arr_items (str_chars t)) (\<lambda>xs. Ok (v @ xs))"
    and "arr_scan d s (str_chars (items_text v @ t)) = arr_scan d s (str_chars t)"
proof -
  have step: "str_chars (items_text (e # v) @ t) =
      map (\<lambda>c. [c]) '' '' @ item_toks e @ map (\<lambda>c. [c]) '','' @ str_chars (items_text v @ t)"
    if "from_utf8_ok e" for e v
  proof -
    have "str_chars (items_text (e # v) @ t) =
        map (\<lambda>c. [c]) '' '' @ str_chars (quoted e @ '','' @ items_text v @ t)"
      using str_chars_plain [of "'' ''" "quoted e @ '','' @ items_text v @ t"]
      by (simp add: is_ascii_char_def del: str_chars.simps)
    also have "str_chars (quoted e @ '','' @ items_text v @ t) =
        item_toks e @ str_chars ('','' @ items_text v @ t)"
      using str_chars_item [OF that] by (simp del: str_chars.simps)
    also have "str_chars ('','' @ items_text v @ t) = map (\<lambda>c. [c]) '','' @ str_chars (items_text v @ t)"
      by (rule str_chars_plain) (simp add: is_ascii_char_def)
    finally show ?thesis .
  qed
  show "arr_items (str_chars (items_text v @ t)) = rbind (arr_items (str_chars t)) (\<lambda>xs. Ok (v @ xs))"
    using assms
  proof (induction v)
    case (Cons e v)
    then show ?case
      using arr_items_plain [of "'' ''"] arr_items_plain [of "'',''"] arr_items_item [of e]
      by (simp only: step list.pred_inject) simp
  qed simp
  show "arr_scan d s (str_chars (items_text v @ t)) = arr_scan d s (str_chars t)"
    using assms
  proof (induction v)
    case (Cons e v)
    then show ?case
      using arr_scan_plain [of "'' ''"] arr_scan_plain [of "'',''"] arr_scan_item [of e]
      by (simp only: step list.pred_inject) simp
  qed simp
qed

lemma strip_prefix_self [simp]: "strip_prefix p (p @ t) = Some t"
  by (induction p) auto

lemma strip_suffix_self [simp]: "strip_suffix p (t @ p) = Some t"
  by (simp add: strip_suffix_def)

lemma str_chars_quoted: "from_utf8_ok e \<Longrightarrow> str_chars (quoted e) = item_toks e"
  using str_chars_item [of e "[]"] by simp

lemma arr_text_many:
  "arr_text (e # f # v) = ''['' @ items_text (e # f # v) @ '' ]''"
  by (simp add: arr_text_def)

lemma arr_items_spaced:
  "list_all from_utf8_ok v \<Longrightarrow> arr_items (str_chars (items_text v @ '' '')) = Ok v"
  using items_text_toks(1) [of v "'' ''"] by (simp add: is_ascii_char_def)

lemma parse_arr_text:
  assumes "list_all from_utf8_ok v"
  shows "parse_arr (arr_text v) = Ok v"
proof -
  have "parse_arr (''['' @ m @ '']'') = arr_items (str_chars m)" for m
    using tight_trim [OF tight_ends [of "CHR ''[''" "CHR '']''" m]] strip_prefix_self [of "''[''" "m @ '']''"]
    by (simp add: parse_arr_def del: strip_prefix_self)
  note inner = this
  consider "v = []" | e where "v = [e]" | e f w where "v = e # f # w"
    by (cases v rule: remdups_adj.cases)
  then show ?thesis
  proof cases
    case 1
    then show ?thesis using inner [of "[]"] by (simp add: arr_text_def)
  next
    case 2
    then show ?thesis using assms inner [of "quoted e"] str_chars_quoted [of e] arr_items_item [of e "[]"]
      by (simp add: arr_text_def del: str_chars.simps)
  next
    case 3
    then show ?thesis using assms inner [of "items_text v @ '' ''"] arr_items_spaced [OF assms]
      by (simp only: arr_text_many append_assoc append_Cons append_Nil)
  qed
qed

lemma arr_open: "list_all from_utf8_ok v \<Longrightarrow> \<not> arr_complete (''['' @ items_text v)"
  using items_text_toks(2) [of v 1 True "[]"] str_chars_plain [of "''[''" "items_text v"]
  by (simp add: arr_complete_def is_ascii_char_def del: str_chars.simps(2))

lemma arr_closed: "list_all from_utf8_ok v \<Longrightarrow> arr_complete (''['' @ items_text v @ '' ]'')"
  using items_text_toks(2) [of v 1 True "'' ]''"] str_chars_plain [of "''[''" "items_text v @ '' ]''"]
    str_chars_plain [of "'' ]''" "[]"]
  by (simp add: arr_complete_def is_ascii_char_def del: str_chars.simps(2))

lemma arr_closed1: "from_utf8_ok e \<Longrightarrow> arr_complete (''['' @ quoted e @ '']'')"
  using arr_scan_item [of e 1 True "str_chars '']''"] str_chars_plain [of "''[''" "quoted e @ '']''"]
    str_chars_plain [of "'']''" "[]"] str_chars_item [of e "'']''"]
  by (simp add: arr_complete_def is_ascii_char_def del: str_chars.simps(2))

lemma collect_closed: "arr_complete rhs \<Longrightarrow> collect_array rhs ls = Ok (rhs, ls)"
  by (cases ls) simp_all

definition item_line :: "string \<Rightarrow> string" where
  "item_line e = ''    '' @ quoted e @ '',''"

lemma item_line_trim:
  assumes "from_utf8_ok e"
  shows "str_trim (strip_comment (item_line e)) = quoted e @ '',''"
proof -
  have "strip_comment (item_line e) = item_line e"
    using strip_comment_quoted [OF assms, of "''    ''" "[dquote] @ '',''"]
    by (simp add: item_line_def)
  moreover have "str_trim (item_line e) = quoted e @ '',''"
    using tight_trim [OF tight_ends [of dquote "CHR '',''" "esc e @ [dquote]"]]
    by (simp add: item_line_def str_trim_space)
  ultimately show ?thesis by simp
qed

lemma collect_items:
  "list_all from_utf8_ok u \<Longrightarrow> list_all from_utf8_ok v \<Longrightarrow>
     collect_array (''['' @ items_text u) (map item_line v @ '']'' # ls) =
       Ok (''['' @ items_text (u @ v) @ '' ]'', ls)"
proof (induction v arbitrary: u)
  case Nil
  have "str_trim (strip_comment '']'') = '']''"
    by (simp add: strip_comment_def str_trim_solid1)
  then show ?case
    using arr_open [OF Nil(1)] collect_closed [OF arr_closed [OF Nil(1)], of ls] by simp
next
  case (Cons e v)
  then have "collect_array (''['' @ items_text u) (map item_line (e # v) @ '']'' # ls) =
      collect_array (''['' @ items_text (u @ [e])) (map item_line v @ '']'' # ls)"
    using arr_open [OF Cons(2)] item_line_trim [of e] by simp
  then show ?case using Cons(1) [of "u @ [e]"] Cons(2,3) by simp
qed

lemma str_lines_items:
  "list_all from_utf8_ok v \<Longrightarrow>
     str_lines (concat (map (\<lambda>e. item_line e @ [nl]) v) @ t) = map item_line v @ str_lines t"
proof (induction v)
  case (Cons e v)
  then have "str_lines (item_line e @ nl # concat (map (\<lambda>e. item_line e @ [nl]) v) @ t) =
      item_line e # str_lines (concat (map (\<lambda>e. item_line e @ [nl]) v) @ t)"
    using esc_no_breaks [of e] by (intro str_lines_line) (auto simp: item_line_def)
  with Cons show ?case by simp
qed simp

lemma toml_open:
  assumes "key_ok key" and "tight val" and "starts_with ''['' val"
    and "strip_comment (key @ '' = '' @ val) = key @ '' = '' @ val"
    and "collect_array val ls = Ok (w, ls')"
  shows "toml_lines ((key @ '' = '' @ val) # ls) st =
    rbind (set_field key w st) (\<lambda>st'. toml_lines ls' st')"
  using toml_field [OF assms(1,2,4)] assms(3,5) by simp

lemma fmt_arr_many:
  "fmt_arr key (e # f # v) =
     (key @ '' = '' @ ''['') @ nl # concat (map (\<lambda>e. item_line e @ [nl]) (e # f # v)) @ '']'' @ [nl]"
  by (simp add: fmt_arr_def item_line_def)

lemma toml_arr:
  assumes "key_ok key" and "list_all from_utf8_ok v"
  shows "toml_lines (str_lines (fmt_arr key v @ t)) st =
    rbind (set_field key (arr_text v) st) (\<lambda>st'. toml_lines (str_lines t) st')"
proof -
  note k = key_ok_facts [OF assms(1)]
  have opened: "starts_with ''['' (''['' @ m)" for m
    by (simp add: starts_with_def)
  have plain: "strip_comment (key @ '' = '' @ m) = key @ '' = '' @ m" if "CHR ''#'' \<notin> set m" for m
    unfolding strip_comment_def using k that by (intro strip_comment_none) simp
  consider "v = []" | e where "v = [e]" | e f w where "v = e # f # w"
    by (cases v rule: remdups_adj.cases)
  then show ?thesis
  proof cases
    case 1
    have "str_lines (fmt_arr key v @ t) = (key @ '' = '' @ ''[]'') # str_lines t"
      using str_lines_line [of "key @ '' = '' @ ''[]''" t] k 1 by (simp add: fmt_arr_def)
    moreover have "tight ''[]''" "arr_complete ''[]''"
      using tight_ends [of "CHR ''[''" "CHR '']''" "[]"] str_chars_plain [of "''[]''" "[]"]
      by (simp_all add: arr_complete_def is_ascii_char_def del: str_chars.simps(2))
    ultimately show ?thesis
      using toml_open [OF assms(1) _ opened [of "'']''"] plain collect_closed, of "str_lines t" st] 1
      by (simp add: arr_text_def)
  next
    case 2
    then have e: "from_utf8_ok e" using assms by simp
    let ?val = "''['' @ quoted e @ '']''"
    have "str_lines (fmt_arr key v @ t) = (key @ '' = '' @ ?val) # str_lines t"
      using str_lines_line [of "key @ '' = '' @ ?val" t] k 2 esc_no_breaks [OF e] by (simp add: fmt_arr_def)
    moreover have "strip_comment ((key @ '' = ['') @ [dquote] @ esc e @ dquote # '']'') =
        (key @ '' = ['') @ [dquote] @ esc e @ dquote # '']''"
      using k by (intro strip_comment_quoted [OF e]) simp_all
    then have "strip_comment (key @ '' = '' @ ?val) = key @ '' = '' @ ?val" by simp
    moreover have "tight ?val"
      using tight_ends [of "CHR ''[''" "CHR '']''" "quoted e"] by simp
    moreover note collect_closed [OF arr_closed1 [OF e], of "str_lines t"]
    ultimately show ?thesis
      using toml_open [OF assms(1) _ opened [of "quoted e @ '']''"], of "str_lines t" ?val "str_lines t" st] 2
      by (simp add: arr_text_def)
  next
    case 3
    have "str_lines (fmt_arr key v @ t) =
        (key @ '' = '' @ ''['') # str_lines (concat (map (\<lambda>e. item_line e @ [nl]) v) @ '']'' @ nl # t)"
      using str_lines_line [of "key @ '' = '' @ ''[''"] k 3 by (simp add: fmt_arr_many)
    also have "str_lines (concat (map (\<lambda>e. item_line e @ [nl]) v) @ '']'' @ nl # t) =
        map item_line v @ '']'' # str_lines t"
      using str_lines_items [OF assms(2)] str_lines_line [of "'']''" t] by simp
    finally have lines: "str_lines (fmt_arr key v @ t) =
        (key @ '' = '' @ ''['') # map item_line v @ '']'' # str_lines t" .
    have "collect_array ''['' (map item_line v @ '']'' # str_lines t) = Ok (arr_text v, str_lines t)"
      using collect_items [of "[]" v "str_lines t"] assms(2) 3 by (simp add: arr_text_many)
    moreover have "tight ''[''" by (auto simp: tight_def)
    ultimately show ?thesis
      unfolding lines using opened [of "[]"] plain [of "''[''"] by (intro toml_open [OF assms(1)]) simp_all
  qed
qed

section \<open>The whole file\<close>

definition strings_ok :: "vault_config \<Rightarrow> bool" where
  "strings_ok c \<longleftrightarrow>
     from_utf8_ok (vc_vault_id c) \<and> from_utf8_ok (vc_name c) \<and> list_all from_utf8_ok (vc_peers c)
     \<and> (case vc_listen c of None \<Rightarrow> True | Some l \<Rightarrow> from_utf8_ok l)
     \<and> (case vc_log c of None \<Rightarrow> True | Some l \<Rightarrow> from_utf8_ok l)
     \<and> list_all from_utf8_ok (vc_include c) \<and> list_all from_utf8_ok (vc_auth_keys c)"

lemma replace_crlf_id: "cr \<notin> set s \<Longrightarrow> replace_crlf s = s"
  by (induction s rule: replace_crlf.induct) auto

lemma dec_plain: "cr \<notin> set (dec n)" "CHR ''#'' \<notin> set (dec n)" "dquote \<notin> set (dec n)" "CHR ''['' \<notin> set (dec n)"
  using dec_digits [of n] by (auto simp: list_all_iff is_digit_def)

lemma fmt_bool_plain:
  "list_all solid (fmt_bool b)" "fmt_bool b \<noteq> []"
  "cr \<notin> set (fmt_bool b)" "CHR ''#'' \<notin> set (fmt_bool b)" "dquote \<notin> set (fmt_bool b)" "CHR ''['' \<notin> set (fmt_bool b)"
  by (cases b; simp add: fmt_bool_def solid_def is_ascii_char_def)+

lemma no_cr_str: "from_utf8_ok v \<Longrightarrow> cr \<notin> set key \<Longrightarrow> cr \<notin> set (fmt_str key v)"
  using esc_no_breaks [of v] by (simp add: fmt_str_def)

lemma no_cr_arr:
  assumes "list_all from_utf8_ok v" and "cr \<notin> set key"
  shows "cr \<notin> set (fmt_arr key v)"
proof -
  have "cr \<notin> set (esc e)" if "e \<in> set v" for e
    using assms esc_no_breaks that by (auto simp: list_all_iff)
  then show ?thesis
    using assms(2) by (cases v rule: remdups_adj.cases) (auto simp: fmt_arr_def)
qed

lemma no_cr_config:
  assumes "strings_ok c"
  shows "cr \<notin> set (to_toml_string c)"
proof -
  note s = assms [unfolded strings_ok_def]
  have "cr \<notin> set (if vc_auth_keys c \<noteq> [] then fmt_arr ''auth_keys'' (vc_auth_keys c) else [])"
    using s by (simp add: no_cr_arr)
  moreover have "cr \<notin> set (case vc_default_key_ttl_days c of None \<Rightarrow> []
      | Some d \<Rightarrow> ''default_key_ttl_days = '' @ dec (unat d) @ [nl])"
    using dec_plain(1) by (simp split: option.splits)
  moreover have "cr \<notin> set (fmt_str ''vault_id'' (vc_vault_id c))" "cr \<notin> set (fmt_str ''name'' (vc_name c))"
    using s by (simp_all add: no_cr_str)
  moreover have "cr \<notin> set (fmt_arr ''peers'' (vc_peers c))" "cr \<notin> set (fmt_arr ''include'' (vc_include c))"
    using s by (simp_all add: no_cr_arr)
  moreover have "cr \<notin> set (case vc_listen c of None \<Rightarrow> [] | Some l \<Rightarrow> fmt_str ''listen'' l)"
    "cr \<notin> set (case vc_log c of None \<Rightarrow> [] | Some l \<Rightarrow> fmt_str ''log'' l)"
    using s by (simp_all add: no_cr_str split: option.splits)
  ultimately show ?thesis
    unfolding to_toml_string_def using dec_plain(1) fmt_bool_plain(3) by simp
qed

lemma toml_bool:
  assumes "key_ok key"
  shows "toml_lines (str_lines (key @ '' = '' @ fmt_bool b @ nl # t)) st =
    rbind (set_field key (fmt_bool b) st) (\<lambda>st'. toml_lines (str_lines t) st')"
  using fmt_bool_plain by (intro toml_plain [OF assms])

lemma toml_num:
  assumes "key_ok key"
  shows "toml_lines (str_lines (key @ '' = '' @ dec n @ nl # t)) st =
    rbind (set_field key (dec n) st) (\<lambda>st'. toml_lines (str_lines t) st')"
  using dec_plain dec_solid dec_not_Nil by (intro toml_plain [OF assms])

lemma keys_ok:
  "key_ok ''vault_id''" "key_ok ''name''" "key_ok ''peers''" "key_ok ''listen''" "key_ok ''no_tofu''"
  "key_ok ''no_tls''" "key_ok ''log''" "key_ok ''debounce_ms''" "key_ok ''allow_binary''"
  "key_ok ''include''" "key_ok ''auth_keys''" "key_ok ''default_key_ttl_days''"
  by (simp_all add: key_ok_def solid_def is_ascii_char_def)

abbreviation reads :: "string \<Rightarrow> toml_state \<Rightarrow> toml_state res" where
  "reads t st \<equiv> toml_lines (str_lines t) st"

lemma reads_strings:
  "from_utf8_ok v \<Longrightarrow> reads (fmt_str ''vault_id'' v @ t) st = reads t (st\<lparr>ts_vault_id := Some v\<rparr>)"
  "from_utf8_ok v \<Longrightarrow> reads (fmt_str ''name'' v @ t) st = reads t (st\<lparr>ts_name := v\<rparr>)"
  "from_utf8_ok v \<Longrightarrow> reads (fmt_str ''listen'' v @ t) st = reads t (st\<lparr>ts_listen := Some v\<rparr>)"
  "from_utf8_ok v \<Longrightarrow> reads (fmt_str ''log'' v @ t) st = reads t (st\<lparr>ts_log := Some v\<rparr>)"
  using keys_ok(1,2,4,7) [THEN toml_str, of v t st] parse_str_quoted [of v] by (simp_all add: set_field_def)

lemma reads_arrays:
  "list_all from_utf8_ok v \<Longrightarrow> reads (fmt_arr ''peers'' v @ t) st = reads t (st\<lparr>ts_peers := v\<rparr>)"
  "list_all from_utf8_ok v \<Longrightarrow> reads (fmt_arr ''include'' v @ t) st = reads t (st\<lparr>ts_include := Some v\<rparr>)"
  "list_all from_utf8_ok v \<Longrightarrow> reads (fmt_arr ''auth_keys'' v @ t) st = reads t (st\<lparr>ts_auth_keys := v\<rparr>)"
  using keys_ok(3,10,11) [THEN toml_arr, of v t st] parse_arr_text [of v] by (simp_all add: set_field_def)

lemma fmt_bool_true: "(fmt_bool b = ''true'') = b"
  by (simp add: fmt_bool_def)

lemma reads_bools:
  "reads (''no_tofu = '' @ fmt_bool b @ [nl] @ t) st = reads t (st\<lparr>ts_no_tofu := b\<rparr>)"
  "reads (''no_tls = '' @ fmt_bool b @ [nl] @ t) st = reads t (st\<lparr>ts_no_tls := b\<rparr>)"
  "reads (''allow_binary = '' @ fmt_bool b @ [nl] @ t) st = reads t (st\<lparr>ts_allow_binary := b\<rparr>)"
  using keys_ok(5,6,9) [THEN toml_bool, of b t st] by (simp_all add: set_field_def fmt_bool_true)

lemma reads_numbers:
  "reads (''debounce_ms = '' @ dec (unat w) @ [nl] @ t) st = reads t (st\<lparr>ts_debounce_ms := w\<rparr>)"
  "reads (''default_key_ttl_days = '' @ dec (unat w) @ [nl] @ t) st =
     reads t (st\<lparr>ts_default_key_ttl_days := Some w\<rparr>)"
  using keys_ok(8,12) [THEN toml_num, of "unat w" t st] by (simp_all add: set_field_def parse_u64_dec)

lemma reads_options:
  "(case v of None \<Rightarrow> True | Some l \<Rightarrow> from_utf8_ok l) \<Longrightarrow>
     reads ((case v of None \<Rightarrow> [] | Some l \<Rightarrow> fmt_str ''listen'' l) @ t) st =
     reads t (case v of None \<Rightarrow> st | Some l \<Rightarrow> st\<lparr>ts_listen := Some l\<rparr>)"
  "(case v of None \<Rightarrow> True | Some l \<Rightarrow> from_utf8_ok l) \<Longrightarrow>
     reads ((case v of None \<Rightarrow> [] | Some l \<Rightarrow> fmt_str ''log'' l) @ t) st =
     reads t (case v of None \<Rightarrow> st | Some l \<Rightarrow> st\<lparr>ts_log := Some l\<rparr>)"
  "list_all from_utf8_ok ks \<Longrightarrow>
     reads ((if ks \<noteq> [] then fmt_arr ''auth_keys'' ks else []) @ t) st =
     reads t (if ks \<noteq> [] then st\<lparr>ts_auth_keys := ks\<rparr> else st)"
    apply (cases v; simp only: option.case append_Nil reads_strings)
   apply (cases v; simp only: option.case append_Nil reads_strings)
  apply (simp add: reads_arrays)
  done

lemma reads_ttl:
  "reads (case d of None \<Rightarrow> [] | Some d \<Rightarrow> ''default_key_ttl_days = '' @ dec (unat d) @ [nl]) st =
     Ok (case d of None \<Rightarrow> st | Some d \<Rightarrow> st\<lparr>ts_default_key_ttl_days := Some d\<rparr>)"
  using reads_numbers(2) [of _ "[]"] by (cases d) (simp_all add: toml_lines.simps(1))

lemma reads_config:
  assumes "strings_ok c"
  shows "from_toml_str (to_toml_string c) = Ok c"
proof -
  note s = assms [unfolded strings_ok_def]
  have r: "reads (to_toml_string c) toml_start =
    Ok ((\<lambda>st. case vc_default_key_ttl_days c of None \<Rightarrow> st | Some d \<Rightarrow> st\<lparr>ts_default_key_ttl_days := Some d\<rparr>)
     ((\<lambda>st. if vc_auth_keys c \<noteq> [] then st\<lparr>ts_auth_keys := vc_auth_keys c\<rparr> else st)
     ((\<lambda>st. case vc_log c of None \<Rightarrow> st | Some l \<Rightarrow> st\<lparr>ts_log := Some l\<rparr>)
       ((\<lambda>st. case vc_listen c of None \<Rightarrow> st | Some l \<Rightarrow> st\<lparr>ts_listen := Some l\<rparr>)
         (toml_start\<lparr>ts_vault_id := Some (vc_vault_id c), ts_name := vc_name c, ts_peers := vc_peers c\<rparr>)
        \<lparr>ts_no_tofu := vc_no_tofu c, ts_no_tls := vc_no_tls c\<rparr>)
      \<lparr>ts_debounce_ms := vc_debounce_ms c, ts_allow_binary := vc_allow_binary c,
       ts_include := Some (vc_include c)\<rparr>)))"
    using s by (simp only: to_toml_string_def reads_strings reads_arrays reads_bools reads_numbers
      reads_options reads_ttl)
  show ?thesis
    unfolding from_toml_str_def replace_crlf_id [OF no_cr_config [OF assms]] r
    by (cases "vc_listen c"; cases "vc_log c"; cases "vc_default_key_ttl_days c"; cases c)
      (simp_all add: toml_start_def)
qed

end
