(* ===== verification/State.thy ===== *)
theory State
  imports Ids BTree_Map
begin

text \<open>
  The durable engine state (\<open>state.rs\<close>): the logical counter, the set of known primitives, what
  was materialised at each path, the snapshots, and the merge a save does with the state
  another process may have written meanwhile.
\<close>

section \<open>Definitions\<close>

record snapshot =
  sn_label :: string
  sn_frontier :: "string list"
  sn_created :: u64

record engine_state =
  es_vault_id :: string
  es_counter :: u64
  es_observed :: u64
  es_known :: "string list"
  es_materialized :: "(string \<times> string) list"
  es_snapshots :: "(string \<times> snapshot) list"
  es_bootstrap_pending :: bool

definition default_state :: engine_state where
  "default_state =
     \<lparr>es_vault_id = [], es_counter = 0, es_observed = 0, es_known = [], es_materialized = [],
      es_snapshots = [], es_bootstrap_pending = False\<rparr>"

definition known_oids :: "crates \<Rightarrow> engine_state \<Rightarrow> oid list res" where
  "known_oids C st = rmap (from_hex C) (es_known st)"

definition add_known :: "crates \<Rightarrow> oid \<Rightarrow> engine_state \<Rightarrow> engine_state" where
  "add_known C x st =
     (let h = to_hex C x
      in if h \<in> set (es_known st) then st else st\<lparr>es_known := es_known st @ [h]\<rparr>)"

text \<open>The addition wraps: overflow checks are off in the release profile.\<close>

definition next_counter :: "engine_state \<Rightarrow> engine_state \<times> u64" where
  "next_counter st =
     (let c = es_observed st + 1
      in (st\<lparr>es_counter := c, es_observed := max (es_observed st) c\<rparr>, c))"

definition observe :: "u64 \<Rightarrow> engine_state \<Rightarrow> engine_state" where
  "observe c st = st\<lparr>es_observed := max (es_observed st) c\<rparr>"

text \<open>
  \<open>save\<close>: under the cross-process lock, the state about to be written takes in what is on
  disk. \<open>disk\<close> is \<open>None\<close> when the file does not parse.
\<close>

definition merge_snapshots :: "(string \<times> snapshot) list \<Rightarrow> (string \<times> snapshot) list \<Rightarrow> (string \<times> snapshot) list" where
  "merge_snapshots mine disk =
     foldl (\<lambda>m (k, v). if bt_contains m k then m else bt_insert k v m) mine disk"

definition merge_known :: "string list \<Rightarrow> string list \<Rightarrow> string list" where
  "merge_known mine disk = foldl (\<lambda>ks h. if h \<in> set ks then ks else ks @ [h]) mine disk"

definition merge_on_save :: "engine_state \<Rightarrow> engine_state option \<Rightarrow> engine_state" where
  "merge_on_save st disk =
     (case disk of
        None \<Rightarrow> st
      | Some d \<Rightarrow>
          st\<lparr>es_snapshots := merge_snapshots (es_snapshots st) (es_snapshots d),
             es_known := merge_known (es_known st) (es_known d),
             es_observed := max (es_observed st) (es_observed d),
             es_counter := max (es_counter st) (es_counter d)\<rparr>)"

section \<open>Known primitives\<close>

text \<open>The list of known ids holds hex ids without repetition.\<close>

definition known_wf :: "crates \<Rightarrow> engine_state \<Rightarrow> bool" where
  "known_wf C st \<longleftrightarrow> distinct (es_known st) \<and> (\<forall>h \<in> set (es_known st). \<exists>x. h = to_hex C x)"

lemma add_known_sel [simp]:
  "es_vault_id (add_known C x st) = es_vault_id st"
  "es_counter (add_known C x st) = es_counter st"
  "es_observed (add_known C x st) = es_observed st"
  "es_materialized (add_known C x st) = es_materialized st"
  "es_snapshots (add_known C x st) = es_snapshots st"
  "es_bootstrap_pending (add_known C x st) = es_bootstrap_pending st"
  "set (es_known (add_known C x st)) = insert (to_hex C x) (set (es_known st))"
  by (auto simp: add_known_def Let_def)

lemma known_wf_add: "known_wf C st \<Longrightarrow> known_wf C (add_known C x st)"
  by (auto simp: known_wf_def add_known_def Let_def)

lemma known_wf_cong: "es_known st = es_known st' \<Longrightarrow> known_wf C st = known_wf C st'"
  by (simp add: known_wf_def)

lemma known_oids_wf:
  assumes "hex_laws C" and "known_wf C st"
  obtains xs where "known_oids C st = Ok xs" and "distinct xs" and "es_known st = map (to_hex C) xs"
proof -
  define xs where "xs = map (\<lambda>h. SOME x. h = to_hex C x) (es_known st)"
  have hex: "to_hex C (SOME x. h = to_hex C x) = h" if "h \<in> set (es_known st)" for h
  proof -
    have "\<exists>x. h = to_hex C x" using assms(2) that by (simp add: known_wf_def)
    then show ?thesis by (metis (mono_tags, lifting) someI_ex)
  qed
  then have eq: "es_known st = map (to_hex C) xs"
    by (simp add: xs_def comp_def map_idI)
  have "distinct (map (to_hex C) xs)" using assms(2) eq by (simp add: known_wf_def)
  then have "distinct xs" by (simp add: distinct_map)
  moreover have "known_oids C st = Ok xs"
    unfolding known_oids_def eq rmap_Inr_iff using assms(1) by simp
  ultimately show thesis using that eq by blast
qed

section \<open>Saving\<close>

lemma set_merge_known: "set (merge_known mine disk) = set mine \<union> set disk"
proof -
  have "set (foldl (\<lambda>ks h. if h \<in> set ks then ks else ks @ [h]) ks disk) = set ks \<union> set disk" for ks
    by (induction disk arbitrary: ks) auto
  then show ?thesis by (simp add: merge_known_def)
qed

lemma distinct_merge_known: "distinct mine \<Longrightarrow> distinct (merge_known mine disk)"
proof -
  have "distinct ks \<Longrightarrow> distinct (foldl (\<lambda>ks h. if h \<in> set ks then ks else ks @ [h]) ks disk)" for ks
    by (induction disk arbitrary: ks) auto
  then show "distinct mine \<Longrightarrow> distinct (merge_known mine disk)" by (simp add: merge_known_def)
qed

lemma merge_snapshots_get:
  "bt_wf mine \<Longrightarrow> bt_wf (merge_snapshots mine disk) \<and>
     bt_get (merge_snapshots mine disk) k =
       (case bt_get mine k of Some v \<Rightarrow> Some v | None \<Rightarrow> bt_get disk k)"
proof -
  let ?f = "\<lambda>m (k, v). if bt_contains m k then m else bt_insert k v m"
  have "bt_wf m \<Longrightarrow> bt_wf (foldl ?f m disk) \<and>
     bt_get (foldl ?f m disk) k = (case bt_get m k of Some v \<Rightarrow> Some v | None \<Rightarrow> bt_get disk k)" for m
  proof (induction disk arbitrary: m)
    case Nil
    then show ?case by (simp split: option.splits)
  next
    case (Cons e disk)
    obtain a b where e: "e = (a, b)" by fastforce
    show ?case
    proof (cases "bt_contains m a")
      case True
      then have "bt_get m a \<noteq> None" using bt_contains_get by metis
      with Cons e True show ?thesis by (auto split: option.splits)
    next
      case False
      then have "bt_get m a = None" using bt_contains_get by metis
      with Cons.IH [OF bt_wf_insert [OF Cons.prems, of a b]] e False show ?thesis
        by (auto simp: bt_simps split: option.splits)
    qed
  qed
  then show "bt_wf mine \<Longrightarrow> ?thesis" by (simp add: merge_snapshots_def)
qed

end
