(* ===== verification/Trust_Properties.thy ===== *)
theory Trust_Properties
  imports Demo Authkeys Config_Facts State
begin

text \<open>
  Properties of signed primitives, ssh keys, authorized-key lines, the configuration file and the engine
  state (identity.rs, authkeys.rs, config.rs and state.rs of crates/csp-core/src).
\<close>

section \<open>Signed primitives and keys\<close>

text \<open>A primitive that an identity builds verifies as that identity's, and carries the counter, the
  tree and the parent it was built with.\<close>
theorem built_primitive_verifies:
  assumes "hex_laws C" and "b64_laws C" and "ed_laws C"
    and "build_primitive_with_readd C i t parent counter wall_time subject readds = Commit c"
  shows "verify_primitive C c = Ok (id_node C i)
    \<and> parse_primitive_meta C c = Some (counter, id_node C i) \<and> co_parents c = [parent] \<and> co_tree c = t"
  using built_verifies [OF assms] by blast

lemma built_primitive_verifies_witness:
  "\<exists>c. build_primitive_with_readd demo \<lparr>id_seed = ''k''\<rparr> (Oid 3) (Oid 4) 7 100 ''edit'' [Oid 9] = Commit c
     \<and> verify_primitive demo c = Ok (id_node demo \<lparr>id_seed = ''k''\<rparr>)"
proof -
  obtain c where c: "build_primitive_with_readd demo \<lparr>id_seed = ''k''\<rparr> (Oid 3) (Oid 4) 7 100 ''edit'' [Oid 9] = Commit c"
    by (simp add: build_primitive_with_readd_def Let_def)
  with built_primitive_verifies [OF demo_hex_laws demo_b64_laws demo_ed_laws c] show ?thesis by blast
qed

text \<open>A commit that verifies as a primitive carries a signature of the node its trailer names, over the
  commit as it was before the signature trailer was appended.\<close>
theorem verified_primitive_signed:
  assumes "verify_primitive C c = Ok node"
  shows "\<exists>counter pre sig raw. parse_primitive_meta C c = Some (counter, node)
    \<and> co_message c = pre @ SIG_TRAILER @ sig @ [nl] \<and> c_b64dec C (str_trim sig) = Some raw
    \<and> c_verify C node (payload C (Commit (c\<lparr>co_message := pre\<rparr>))) raw"
  using verify_primitive_Ok [OF assms] by blast

lemma verified_primitive_signed_witness:
  "\<exists>c pre sig raw. co_message c = pre @ SIG_TRAILER @ sig @ [nl]
     \<and> c_verify demo (id_node demo \<lparr>id_seed = ''k''\<rparr>) (payload demo (Commit (c\<lparr>co_message := pre\<rparr>))) raw"
proof -
  obtain c where c: "build_primitive_with_readd demo \<lparr>id_seed = ''k''\<rparr> (Oid 3) (Oid 4) 7 100 ''edit'' [Oid 9] = Commit c"
    by (simp add: build_primitive_with_readd_def Let_def)
  from verified_primitive_signed [OF built_verifies(1) [OF demo_hex_laws demo_b64_laws demo_ed_laws c]]
  show ?thesis by blast
qed

text \<open>A public key printed as an ssh line reads back, whatever the comment.\<close>
theorem ssh_line_roundtrip:
  assumes "b64_laws C"
  shows "parse_ssh_pubkey C (ssh_pubkey_string C node comment) = Some node"
  by (rule ssh_roundtrip [OF assms])

lemma ssh_line_roundtrip_witness:
  "parse_ssh_pubkey demo (ssh_pubkey_string demo (NodeId 42) ''me @host'') = Some (NodeId 42)"
  by (rule ssh_line_roundtrip [OF demo_b64_laws])

section \<open>Authorized-key lines and their expiry\<close>

text \<open>The calendar conversion is inverted: every day since the epoch comes back from its civil date,
  whose month and day are in range.\<close>
theorem civil_date_roundtrip:
  assumes "0 \<le> days"
  shows "case civil_from_days days of (y, m, d) \<Rightarrow>
    days_from_civil y m d = days \<and> 1 \<le> m \<and> m \<le> 12 \<and> 1 \<le> d \<and> d \<le> 31"
proof (rule civil_roundtrip [OF assms])
  fix y m d
  assume "civil_from_days days = (y, m, d)" "days_from_civil y m d = days" "1 \<le> m" "m \<le> 12" "1 \<le> d"
    "d \<le> 31"
  then show ?thesis by simp
qed

lemma civil_date_roundtrip_witness: "days_from_civil 2024 2 29 = 19782"
proof -
  have "civil_from_days 19782 = (2024, 2, 29)" by code_simp
  with civil_date_roundtrip [of 19782] show ?thesis by simp
qed

text \<open>A key line printed with an expiry date parses back to the same key and to the expiry, cut to the
  start of its day, whatever words the line held before.\<close>
theorem key_line_roundtrip:
  assumes "b64_laws C" and "plain_words ws" and "unat t < 253402300800"
    and "line = str_join '' '' (ssh_algo # c_b64enc C (ssh_blob node) # ws)"
  shows "parse_line C (build_line line (At t)) =
    \<lparr>ke_raw = build_line line (At t), ke_node = Some node, ke_expiry = At (t div SECS_PER_DAY * SECS_PER_DAY)\<rparr>"
  by (rule built_line_parses [OF assms])

lemma key_line_roundtrip_witness:
  "ke_expiry (parse_line demo (build_line
      (str_join '' '' (ssh_algo # c_b64enc demo (ssh_blob (NodeId 9)) # [''me@host''])) (At 1700000000)))
     = At (1700000000 div SECS_PER_DAY * SECS_PER_DAY)"
proof -
  have "plain_words [''me@host'']" by (simp add: solid_def is_ascii_char_def)
  from key_line_roundtrip [OF demo_b64_laws this _ refl, of 1700000000 "NodeId 9"] show ?thesis by simp
qed

text \<open>A default time to live never ends before its full number of days, ends on a day boundary at most
  one day later, and so a fresh key is valid now, provided the sum does not leave 64 bits.\<close>
theorem ttl_expiry_bounds:
  assumes "unat now + unat ttl * 86400 + 86400 < 2 ^ 64"
  shows "unat now + unat ttl * 86400 < unat (expiry_from_ttl_days now ttl)
    \<and> unat (expiry_from_ttl_days now ttl) \<le> unat now + unat ttl * 86400 + 86400
    \<and> expiry_from_ttl_days now ttl div SECS_PER_DAY * SECS_PER_DAY = expiry_from_ttl_days now ttl"
  using expiry_from_ttl_bounds [OF assms] by blast

lemma ttl_expiry_bounds_witness:
  "1700000000 + 90 * 86400 < unat (expiry_from_ttl_days 1700000000 90)"
  using ttl_expiry_bounds [of 1700000000 90] by simp

section \<open>The configuration file\<close>

text \<open>C34. A configuration printed as TOML reads back as it was: every option, list and string, with
  quotes, control characters and comment signs escaped, for strings that are UTF-8 (as a Rust string is).\<close>
theorem config_roundtrip:
  assumes "strings_ok c"
  shows "from_toml_str (to_toml_string c) = Ok c"
  by (rule reads_config [OF assms])

lemma config_roundtrip_witness:
  "let c = \<lparr>vc_vault_id = ''v'', vc_name = ''a # b'', vc_peers = [''p'', ''q''], vc_listen = Some ''l'', vc_no_tofu = True,
      vc_no_tls = False, vc_log = None, vc_debounce_ms = 5, vc_allow_binary = True, vc_include = [''**''],
      vc_auth_keys = [], vc_default_key_ttl_days = Some 30\<rparr>
   in from_toml_str (to_toml_string c) = Ok c"
  using config_roundtrip
    [of "\<lparr>vc_vault_id = ''v'', vc_name = ''a # b'', vc_peers = [''p'', ''q''], vc_listen = Some ''l'', vc_no_tofu = True,
      vc_no_tls = False, vc_log = None, vc_debounce_ms = 5, vc_allow_binary = True, vc_include = [''**''],
      vc_auth_keys = [], vc_default_key_ttl_days = Some 30\<rparr>"]
  by (simp add: strings_ok_def from_utf8_ok_ascii Let_def is_ascii_char_def del: from_utf8_ok.simps)

section \<open>The engine state\<close>

text \<open>Saving merges with the state another handle saved: no known primitive and no snapshot of either
  side is lost, the saving side's snapshots win, and neither counter goes back.\<close>
theorem save_merges:
  assumes "bt_wf (es_snapshots st)"
  shows "set (es_known (merge_on_save st (Some d))) = set (es_known st) \<union> set (es_known d)
    \<and> (\<forall>k. bt_get (es_snapshots (merge_on_save st (Some d))) k =
         (case bt_get (es_snapshots st) k of Some v \<Rightarrow> Some v | None \<Rightarrow> bt_get (es_snapshots d) k))
    \<and> es_observed st \<le> es_observed (merge_on_save st (Some d))
    \<and> es_observed d \<le> es_observed (merge_on_save st (Some d))
    \<and> es_counter d \<le> es_counter (merge_on_save st (Some d))"
  using merge_snapshots_get [OF assms] by (simp add: merge_on_save_def set_merge_known)

lemma save_merges_witness:
  "set (es_known (merge_on_save (default_state\<lparr>es_known := [''a'']\<rparr>) (Some (default_state\<lparr>es_known := [''b'']\<rparr>))))
     = {''a'', ''b''}"
  using save_merges [of "default_state\<lparr>es_known := [''a'']\<rparr>" "default_state\<lparr>es_known := [''b'']\<rparr>"]
  by (auto simp: default_state_def bt_wf_def)

text \<open>The next counter is above every counter observed so far, until the observed counter is the largest
  64-bit value, where the addition wraps and the next counter is 0.\<close>
theorem next_counter_fresh:
  "if es_observed st = - 1 then snd (next_counter st) = 0
   else es_observed st < snd (next_counter st) \<and> es_observed (fst (next_counter st)) = snd (next_counter st)"
proof (cases "es_observed st = - 1")
  case False
  then have "es_observed st < es_observed st + 1"
    using unatSuc [of "es_observed st"] by (simp add: word_less_nat_alt eq_neg_iff_add_eq_0 add.commute)
  with False show ?thesis by (simp add: next_counter_def Let_def)
qed (simp add: next_counter_def Let_def)

end
