(* ===== verification/Graph_Facts.thy ===== *)
theory Graph_Facts
  imports Fold
begin

text \<open>
  Facts about the readers of the object graph: what \<open>ancestors\<close> and \<open>reachable\<close> compute, and
  that an answer found in a store stays the answer as the store grows.
\<close>

section \<open>Parents and ancestors\<close>

definition edge :: "getter \<Rightarrow> oid \<Rightarrow> oid \<Rightarrow> bool" where
  "edge get x y \<longleftrightarrow> (\<exists>c. load_commit get x = Ok c \<and> y \<in> set (co_parents c))"

abbreviation is_commit :: "getter \<Rightarrow> oid \<Rightarrow> bool" where
  "is_commit get x \<equiv> is_ok (load_commit get x)"

lemma is_ok_iff: "is_ok m \<longleftrightarrow> (\<exists>x. m = Inr x)"
  by (cases m) auto

lemma rbind_case_tree_Ok:
  "(rbind m (\<lambda>ob. case ob of Blob b \<Rightarrow> Err e | Tree es \<Rightarrow> f es | Commit c \<Rightarrow> Err e') = Ok r)
     = (\<exists>es. m = Ok (Tree es) \<and> f es = Ok r)"
proof (cases m)
  case (Inr ob)
  then show ?thesis by (cases ob) simp_all
qed simp

lemma rbind_case_blob_Ok:
  "(rbind m (\<lambda>ob. case ob of Blob b \<Rightarrow> f b | Tree es \<Rightarrow> Err e | Commit c \<Rightarrow> Err e') = Ok r)
     = (\<exists>b. m = Ok (Blob b) \<and> f b = Ok r)"
proof (cases m)
  case (Inr ob)
  then show ?thesis by (cases ob) simp_all
qed simp

lemma load_commit_Ok: "load_commit get x = Ok c \<longleftrightarrow> get x = Ok (Commit c)"
proof (cases "get x")
  case (Inr ob)
  then show ?thesis by (cases ob) (simp_all add: load_commit_def)
qed (simp add: load_commit_def)

text \<open>The loop collects a closed set of commits that the stack reaches.\<close>

lemma ancestors_loop_Ok:
  assumes "ancestors_loop get False stack seen = Ok S"
    and "\<forall>y z. y \<in> set seen \<longrightarrow> edge get y z \<longrightarrow> z \<in> set seen \<union> set stack"
    and "distinct seen"
  shows "set seen \<subseteq> set S \<and> set stack \<subseteq> set S
    \<and> (\<forall>y z. y \<in> set S \<longrightarrow> edge get y z \<longrightarrow> z \<in> set S)
    \<and> (\<forall>z \<in> set S. z \<in> set seen \<or> is_commit get z \<and> (\<exists>y \<in> set stack. (edge get)\<^sup>*\<^sup>* y z))
    \<and> distinct S"
  using assms
proof (induction get False stack seen rule: ancestors_loop.induct)
  case (1 get seen)
  then show ?case by auto
next
  case (2 get x stack seen)
  show ?case
  proof (cases "x \<in> set seen")
    case True
    have run: "ancestors_loop get False stack seen = Ok S" using 2(3) True by simp
    have closed: "\<forall>y z. y \<in> set seen \<longrightarrow> edge get y z \<longrightarrow> z \<in> set seen \<union> set stack"
      using 2(4) True by fastforce
    show ?thesis using 2(1) [OF _ run closed 2(5)] True by auto
  next
    case False
    obtain c where c: "load_commit get x = Ok c"
      and rec: "ancestors_loop get False
        (rev (filter (\<lambda>p. p \<notin> set (x # seen)) (co_parents c)) @ stack) (x # seen) = Ok S"
      using 2(3) False by (auto simp: res_simps)
    have closed: "\<forall>y z. y \<in> set (x # seen) \<longrightarrow> edge get y z \<longrightarrow>
        z \<in> set (x # seen) \<union> set (rev (filter (\<lambda>p. p \<notin> set (x # seen)) (co_parents c)) @ stack)"
      using 2(4) c by (fastforce simp: edge_def)
    have ih: "set (x # seen) \<subseteq> set S
       \<and> set (rev (filter (\<lambda>p. p \<notin> set (x # seen)) (co_parents c)) @ stack) \<subseteq> set S
       \<and> (\<forall>y z. y \<in> set S \<longrightarrow> edge get y z \<longrightarrow> z \<in> set S)
       \<and> (\<forall>z \<in> set S. z \<in> set (x # seen) \<or> is_commit get z \<and>
           (\<exists>y \<in> set (rev (filter (\<lambda>p. p \<notin> set (x # seen)) (co_parents c)) @ stack).
              (edge get)\<^sup>*\<^sup>* y z))
       \<and> distinct S"
      using 2(2) [OF _ refl c] False rec closed 2(5) by simp
    have reach: "(edge get)\<^sup>*\<^sup>* x z" if "p \<in> set (co_parents c)" "(edge get)\<^sup>*\<^sup>* p z" for p z
      using that c by (meson converse_rtranclp_into_rtranclp edge_def)
    have "\<forall>z \<in> set S. z \<in> set seen \<or> is_commit get z \<and> (\<exists>y \<in> set (x # stack). (edge get)\<^sup>*\<^sup>* y z)"
    proof
      fix z assume "z \<in> set S"
      with ih consider "z = x" | "z \<in> set seen"
        | p where "is_commit get z" "p \<in> set (co_parents c)" "(edge get)\<^sup>*\<^sup>* p z"
        | y where "is_commit get z" "y \<in> set stack" "(edge get)\<^sup>*\<^sup>* y z"
        by auto
      then show "z \<in> set seen \<or> is_commit get z \<and> (\<exists>y \<in> set (x # stack). (edge get)\<^sup>*\<^sup>* y z)"
        using c reach by cases (auto simp: is_ok_iff)
    qed
    with ih show ?thesis by auto
  qed
qed

lemma ancestors_Ok:
  assumes "ancestors get x = Ok S"
  shows "set S = {y. (edge get)\<^sup>+\<^sup>+ x y}" and "distinct S"
    and "\<And>y. (edge get)\<^sup>*\<^sup>* x y \<Longrightarrow> is_commit get y"
proof -
  obtain c where c: "load_commit get x = Ok c"
    and loop: "ancestors_loop get False (rev (co_parents c)) [] = Ok S"
    using assms by (auto simp: ancestors_def res_simps)
  have r: "set (co_parents c) \<subseteq> set S" "\<forall>y z. y \<in> set S \<longrightarrow> edge get y z \<longrightarrow> z \<in> set S"
    "\<forall>z \<in> set S. is_commit get z \<and> (\<exists>y \<in> set (co_parents c). (edge get)\<^sup>*\<^sup>* y z)" "distinct S"
    using ancestors_loop_Ok [OF loop] by auto
  have parent: "edge get x y \<longleftrightarrow> y \<in> set (co_parents c)" for y
    using c by (auto simp: edge_def)
  have sub: "y \<in> set S" if "(edge get)\<^sup>+\<^sup>+ x y" for y
    using that
  proof (induction rule: tranclp_induct)
    case (base y)
    then show ?case using r(1) parent by blast
  next
    case (step y z)
    then show ?case using r(2) by blast
  qed
  show "set S = {y. (edge get)\<^sup>+\<^sup>+ x y}"
  proof (intro equalityI subsetI CollectI)
    fix z assume "z \<in> set S"
    with r(3) obtain y where "edge get x y" "(edge get)\<^sup>*\<^sup>* y z" using parent by blast
    then show "(edge get)\<^sup>+\<^sup>+ x z" by (rule rtranclp_into_tranclp2)
  qed (use sub in simp)
  show "distinct S" by (rule r(4))
  fix y assume "(edge get)\<^sup>*\<^sup>* x y"
  then have "y = x \<or> (edge get)\<^sup>+\<^sup>+ x y" by (metis rtranclpD)
  then show "is_commit get y" using sub r(3) c by (auto simp: is_ok_iff)
qed

section \<open>Growing stores\<close>

text \<open>A reader whose answers survive the growth of the store.\<close>

definition mono_read :: "(getter \<Rightarrow> 'a res) \<Rightarrow> bool" where
  "mono_read f \<longleftrightarrow> (\<forall>g g' r. get_le g g' \<longrightarrow> f g = Ok r \<longrightarrow> f g' = Ok r)"

named_theorems mono_reads \<open>readers that are stable under growth\<close>

lemma mono_readI: "(\<And>g g' r. get_le g g' \<Longrightarrow> f g = Ok r \<Longrightarrow> f g' = Ok r) \<Longrightarrow> mono_read f"
  by (simp add: mono_read_def)

lemma mono_readD: "mono_read f \<Longrightarrow> get_le g g' \<Longrightarrow> f g = Ok r \<Longrightarrow> f g' = Ok r"
  by (simp add: mono_read_def)

lemma mono_const [mono_reads]: "mono_read (\<lambda>g. r)"
  by (simp add: mono_read_def)

lemma mono_get [mono_reads]: "mono_read (\<lambda>g. g x)"
  by (simp add: mono_read_def get_le_def)

lemma mono_rbind [mono_reads]:
  "mono_read m \<Longrightarrow> (\<And>x. mono_read (\<lambda>g. f g x)) \<Longrightarrow> mono_read (\<lambda>g. rbind (m g) (f g))"
  unfolding mono_read_def rbind_Inr_iff by blast

lemma mono_rmap [mono_reads]:
  "(\<And>x. mono_read (\<lambda>g. f g x)) \<Longrightarrow> mono_read (\<lambda>g. rmap (f g) xs)"
  by (induction xs) (simp_all add: mono_reads)

lemma mono_rfold [mono_reads]:
  "(\<And>s x. mono_read (\<lambda>g. f g s x)) \<Longrightarrow> mono_read (\<lambda>g. rfold (f g) s xs)"
  by (induction xs arbitrary: s) (simp_all add: mono_reads)

lemma mono_if [mono_reads]:
  "mono_read f \<Longrightarrow> mono_read f' \<Longrightarrow> mono_read (\<lambda>g. if b then f g else f' g)"
  by (cases b) simp_all

lemma mono_case_object [mono_reads]:
  "(\<And>b. mono_read (\<lambda>g. f1 g b)) \<Longrightarrow> (\<And>es. mono_read (\<lambda>g. f2 g es)) \<Longrightarrow>
   (\<And>c. mono_read (\<lambda>g. f3 g c)) \<Longrightarrow>
   mono_read (\<lambda>g. case ob of Blob b \<Rightarrow> f1 g b | Tree es \<Rightarrow> f2 g es | Commit c \<Rightarrow> f3 g c)"
  by (cases ob) simp_all

lemma mono_case_option [mono_reads]:
  "mono_read f1 \<Longrightarrow> (\<And>x. mono_read (\<lambda>g. f2 g x)) \<Longrightarrow>
   mono_read (\<lambda>g. case t of None \<Rightarrow> f1 g | Some x \<Rightarrow> f2 g x)"
  by (cases t) simp_all

lemma mono_case_list [mono_reads]:
  "mono_read f1 \<Longrightarrow> (\<And>x xs. mono_read (\<lambda>g. f2 g x xs)) \<Longrightarrow>
   mono_read (\<lambda>g. case l of [] \<Rightarrow> f1 g | x # xs \<Rightarrow> f2 g x xs)"
  by (cases l) simp_all

lemma mono_case_prod [mono_reads]:
  "(\<And>x y. mono_read (\<lambda>g. f g x y)) \<Longrightarrow> mono_read (\<lambda>g. case p of (x, y) \<Rightarrow> f g x y)"
  by (cases p) simp

lemma mono_case_touch [mono_reads]:
  "mono_read f1 \<Longrightarrow> mono_read f2 \<Longrightarrow> mono_read (\<lambda>g. case k of Add \<Rightarrow> f1 g | Delete \<Rightarrow> f2 g)"
  by (cases k) simp_all

lemma mono_load_commit [mono_reads]: "mono_read (\<lambda>g. load_commit g x)"
  unfolding load_commit_def by (intro mono_reads)

lemma load_commit_mono: "get_le g g' \<Longrightarrow> load_commit g x = Ok c \<Longrightarrow> load_commit g' x = Ok c"
  by (rule mono_readD [OF mono_load_commit])

lemma ancestors_loop_mono:
  "get_le g g' \<Longrightarrow> ancestors_loop g first stack seen = Ok S \<Longrightarrow> ancestors_loop g' first stack seen = Ok S"
  by (induction g first stack seen rule: ancestors_loop.induct)
    (auto simp: res_simps Let_def split: if_splits dest: load_commit_mono)

lemma mono_ancestors [mono_reads]: "mono_read (\<lambda>g. ancestors g x)"
  unfolding ancestors_def by (rule mono_readI) (rule ancestors_loop_mono)

lemma mono_order_key [mono_reads]: "mono_read (\<lambda>g. order_key C g x)"
  unfolding order_key_def by (intro mono_reads)

lemma mono_path_walk [mono_reads]: "mono_read (\<lambda>g. path_walk g cur segs)"
proof (induction segs arbitrary: cur)
  case Nil
  then show ?case by (simp add: mono_reads)
next
  case (Cons s segs)
  show ?case unfolding path_walk.simps by (intro mono_reads Cons)
qed

lemma mono_path_present [mono_reads]: "mono_read (\<lambda>g. path_present_in_tree g t path)"
  unfolding path_present_in_tree_def by (intro mono_reads)

lemma mono_touch_of [mono_reads]: "mono_read (\<lambda>g. touch_of C g path x c)"
  unfolding touch_of_def by (intro mono_reads)

lemma touch_loop_mono:
  assumes "get_le g g'" and "touch_loop C g path first stack seen best = Ok S"
  shows "touch_loop C g' path first stack seen best = Ok S"
  using assms
proof (induction C g path first stack seen best rule: touch_loop.induct)
  case (1 C get path first seen best)
  then show ?case by simp
next
  case (2 C get path first x stack seen best)
  show ?case
  proof (cases "\<not> first \<and> x \<in> set seen")
    case True
    with 2 show ?thesis by simp
  next
    case False
    let ?seen = "if first then seen else x # seen"
    from 2(4) False obtain c t where c: "load_commit get x = Ok c"
      and t: "touch_of C get path x c = Ok t"
      and rec: "touch_loop C get path False (rev (filter (\<lambda>p. p \<notin> set ?seen) (co_parents c)) @ stack)
        ?seen (better best t) = Ok S"
      by (auto simp: res_simps Let_def)
    have "touch_loop C g' path False (rev (filter (\<lambda>p. p \<notin> set ?seen) (co_parents c)) @ stack)
        ?seen (better best t) = Ok S"
      using 2(2) [OF False refl c t 2(3)] rec by simp
    then show ?thesis
      using False load_commit_mono [OF 2(3) c] mono_readD [OF mono_touch_of 2(3) t]
      by (auto simp: Let_def)
  qed
qed

lemma mono_most_recent_touch [mono_reads]:
  "mono_read (\<lambda>g. most_recent_touch_uncached C g start path)"
proof -
  have "mono_read (\<lambda>g. touch_loop C g path True [start] [] None)"
    by (rule mono_readI) (rule touch_loop_mono)
  then show ?thesis unfolding most_recent_touch_uncached_def by (intro mono_reads)
qed

lemma rfold_mono:
  assumes "rfold f s xs = Inr t" and "\<And>s x s'. x \<in> set xs \<Longrightarrow> f s x = Inr s' \<Longrightarrow> f' s x = Inr s'"
  shows "rfold f' s xs = Inr t"
  using assms
proof (induction xs arbitrary: s)
  case Nil
  then show ?case by simp
next
  case (Cons x xs)
  from Cons.prems(1) obtain s' where s': "f s x = Inr s'" "rfold f s' xs = Inr t"
    by (auto simp: res_simps)
  have "rfold f' s' xs = Inr t" using Cons.IH [OF s'(2)] Cons.prems(2) by simp
  then show ?case using Cons.prems(2) [OF _ s'(1)] by simp
qed

lemma walk_tree_mono:
  assumes "get_le g g'" and "walk_tree path g prefix t out = Ok r"
  shows "walk_tree path g' prefix t out = Ok r"
  using assms
proof (induction path g prefix t out arbitrary: r rule: walk_tree.induct)
  case (1 path g prefix t out)
  from 1(3) obtain entries where t: "t \<notin> set path" and ob: "g t = Ok (Tree entries)"
    and run: "rfold (\<lambda>out e.
                let p = prefix @ te_name e
                in if te_mode e = TREE_MODE
                   then walk_tree (t # path) g (p @ ''/'') (te_oid e) out
                   else
                     rbind (g (te_oid e)) (\<lambda>b.
                       case b of
                         Blob bs \<Rightarrow> Ok (bt_insert p bs out)
                       | _ \<Rightarrow> Err (Malformed ''is not a blob''))) out entries = Ok r"
    unfolding walk_tree.simps [of path g prefix t out] rbind_case_tree_Ok
    by (auto simp: rbind_case_tree_Ok split: if_splits)
  have "rfold (\<lambda>out e.
                let p = prefix @ te_name e
                in if te_mode e = TREE_MODE
                   then walk_tree (t # path) g' (p @ ''/'') (te_oid e) out
                   else
                     rbind (g' (te_oid e)) (\<lambda>b.
                       case b of
                         Blob bs \<Rightarrow> Ok (bt_insert p bs out)
                       | _ \<Rightarrow> Err (Malformed ''is not a blob''))) out entries = Ok r"
    using 1(1) [OF t ob refl _ refl _ 1(2)] 1(2)
    by (intro rfold_mono [OF run])
      (auto simp: Let_def rbind_case_blob_Ok split: if_splits dest: get_leD)
  then show ?case
    unfolding walk_tree.simps [of path g' prefix t out]
    using t get_leD [OF 1(2) ob] by simp
qed

lemma mono_tree_files [mono_reads]: "mono_read (\<lambda>g. tree_files g t)"
  unfolding tree_files_def read_tree_to_files_def by (rule mono_readI) (rule walk_tree_mono)

lemma mono_commit_tree [mono_reads]: "mono_read (\<lambda>g. commit_tree g x)"
  unfolding commit_tree_def by (intro mono_reads)

lemma mono_commit_files [mono_reads]: "mono_read (\<lambda>g. commit_files g x)"
  unfolding commit_files_def by (intro mono_reads)

lemma mono_merge_base [mono_reads]: "mono_read (\<lambda>g. merge_base g a b)"
  unfolding merge_base_def Let_def by (intro mono_reads)

lemma mono_merged_files [mono_reads]: "mono_read (\<lambda>g. merged_files C g acc tk)"
  unfolding merged_files_def by (intro mono_reads)

lemma mono_parents_time [mono_reads]: "mono_read (\<lambda>g. parents_time g ps)"
  unfolding parents_time_def by (intro mono_reads)

lemma tree_paths_added_mono:
  assumes "get_le g g'" and "tree_paths_added path g prefix parent child out = Ok r"
  shows "tree_paths_added path g' prefix parent child out = Ok r"
  using assms
proof (induction path g prefix parent child out arbitrary: r rule: tree_paths_added.induct)
  case (1 path g prefix parent child out)
  let ?body = "\<lambda>g parent_entries out ce.
                    let p = prefix @ te_name ce;
                        pe = find (\<lambda>e. te_name e = te_name ce) parent_entries
                    in if te_mode ce = TREE_MODE
                       then
                         (let parent_sub =
                            (case pe of
                               None \<Rightarrow> None
                             | Some e \<Rightarrow> if te_mode e = TREE_MODE then Some (te_oid e) else None)
                          in tree_paths_added ((parent, child) # path) g (p @ ''/'') parent_sub
                               (te_oid ce) out)
                       else
                         (case pe of
                            Some e \<Rightarrow> Ok (if te_mode e \<noteq> TREE_MODE then out else out @ [p])
                          | None \<Rightarrow> Ok (out @ [p]))"
  let ?entries = "\<lambda>g. case parent of
                       None \<Rightarrow> Ok []
                     | Some x \<Rightarrow> rbind (g x) (\<lambda>pob. Ok (case pob of Tree es \<Rightarrow> es | _ \<Rightarrow> []))"
  have entries: "mono_read ?entries" by (intro mono_reads)
  show ?case
  proof (cases "(parent, child) \<in> set path \<or> Some child = parent")
    case True
    with 1(3) show ?thesis by (auto simp: tree_paths_added.simps [of path])
  next
    case False
    with 1(3) obtain cob where cob: "g child = Ok cob"
      by (auto simp: tree_paths_added.simps [of path g] res_simps)
    show ?thesis
    proof (cases cob)
      case (Tree es)
      with 1(3) False cob obtain pes where pes: "?entries g = Ok pes"
        and run: "rfold (?body g pes) out es = Ok r"
        by (auto simp: tree_paths_added.simps [of path g] res_simps simp del: rfold.simps)
      have "rfold (?body g' pes) out es = Ok r"
        using 1(1) [OF _ _ cob Tree pes _ refl refl _ refl 1(2)] False
        by (intro rfold_mono [OF run]) (auto simp: Let_def split: if_splits)
      then show ?thesis
        using False Tree get_leD [OF 1(2) cob] mono_readD [OF entries 1(2) pes]
        by (simp add: tree_paths_added.simps [of path g'])
    qed (use 1(3) False cob get_leD [OF 1(2) cob] in
        \<open>auto simp: tree_paths_added.simps [of path]\<close>)
  qed
qed

lemma mono_tree_paths_added [mono_reads]:
  "mono_read (\<lambda>g. tree_paths_added path g prefix parent child out)"
  by (rule mono_readI) (rule tree_paths_added_mono)

lemma mono_ghost_paths [mono_reads]:
  assumes "\<And>p. mono_read (\<lambda>g. touch g p)"
  shows "mono_read (\<lambda>g. ghost_paths (touch g) readds ps)"
proof (induction ps)
  case Nil
  then show ?case by (simp add: mono_reads)
next
  case (Cons p ps)
  then show ?case unfolding ghost_paths.simps by (intro mono_reads assms)
qed

lemma mono_ghost_add [mono_reads]: "mono_read (\<lambda>g. is_ghost_add_uncached C g prim)"
  unfolding is_ghost_add_uncached_def by (intro mono_reads)

lemma mono_reachable_loop [mono_reads]: "mono_read (\<lambda>g. reachable_loop g stack out)"
proof (rule mono_readI)
  fix g g' r assume "get_le g g'" "reachable_loop g stack out = Ok r"
  then show "reachable_loop g' stack out = Ok r"
    by (induction g stack out rule: reachable_loop.induct)
      (auto simp: res_simps split: if_splits dest: get_leD)
qed

lemma mono_reachable [mono_reads]: "mono_read (\<lambda>g. reachable g roots)"
  unfolding reachable_def by (intro mono_reads)

end
