(* ===== verification/Frontier.thy ===== *)
theory Frontier
  imports Graph_Facts
begin

text \<open>
  What \<open>frontier\<close> returns: the maximal known primitives in the strict total order, a function
  of the set of known primitives alone; and that the per-thread caches never change an answer.
\<close>

section \<open>The set and the order of the frontier\<close>

definition live_prims :: "crates \<Rightarrow> getter \<Rightarrow> oid list \<Rightarrow> oid set" where
  "live_prims C get known =
     {x \<in> set known. is_ghost_add_closure_only C get x = Ok False \<and>
        (\<exists>c. load_commit get x = Ok c \<and> is_primitive C c)}"

definition dominated :: "getter \<Rightarrow> oid set \<Rightarrow> oid \<Rightarrow> bool" where
  "dominated get P p \<longleftrightarrow> (\<exists>q \<in> P. p \<noteq> q \<and> (edge get)\<^sup>+\<^sup>+ q p)"

definition key_before :: "crates \<Rightarrow> getter \<Rightarrow> oid \<Rightarrow> oid \<Rightarrow> bool" where
  "key_before C get x y \<longleftrightarrow>
     (case (order_key C get x, order_key C get y) of (Inr a, Inr b) \<Rightarrow> a < b | _ \<Rightarrow> False)"

lemma effective_known_Ok:
  "effective_known C get known = Ok out \<longleftrightarrow>
     (\<forall>x \<in> set known. is_ok (is_ghost_add_closure_only C get x)) \<and>
     out = filter (\<lambda>x. is_ghost_add_closure_only C get x = Ok False) known"
proof (induction known arbitrary: out)
  case Nil
  then show ?case by auto
next
  case (Cons x known)
  show ?case
  proof (cases "is_ghost_add_closure_only C get x")
    case (Inr b)
    then show ?thesis by (cases b) (auto simp: rbind_Inr_iff Cons)
  qed simp
qed

lemma loads_prim_iff:
  "(case load_commit get x of Inr c \<Rightarrow> is_primitive C c | Inl e \<Rightarrow> False) \<longleftrightarrow>
     (\<exists>c. load_commit get x = Ok c \<and> is_primitive C c)"
  by (cases "load_commit get x") auto

lemma rmap_pair_Ok:
  "rmap (\<lambda>q. rbind (f q) (\<lambda>a. Ok (q, a))) xs = Ok ys \<longleftrightarrow>
     (\<forall>x \<in> set xs. is_ok (f x)) \<and> ys = map (\<lambda>x. (x, projr (f x))) xs"
  by (induction xs arbitrary: ys) (auto simp: res_simps is_ok_iff)

lemma rmap_key_Ok:
  "rmap (\<lambda>x. rbind (f x) (\<lambda>k. Ok (k, x))) xs = Ok ys \<longleftrightarrow>
     (\<forall>x \<in> set xs. is_ok (f x)) \<and> ys = map (\<lambda>x. (projr (f x), x)) xs"
  by (induction xs arbitrary: ys) (auto simp: res_simps is_ok_iff)

lemma order_key_prim:
  "load_commit get x = Ok c \<Longrightarrow> is_primitive C c \<Longrightarrow>
     \<exists>n v. parse_primitive_meta C c = Some (n, v) \<and> order_key C get x = Ok (OrderKey n v x)"
  by (auto simp: order_key_def is_primitive_def)

lemma order_key_sha: "order_key C get x = Ok k \<Longrightarrow> key_sha k = x"
  by (auto simp: order_key_def res_simps split: option.splits prod.splits)

abbreviation prim_list :: "crates \<Rightarrow> getter \<Rightarrow> oid list \<Rightarrow> oid list" where
  "prim_list C get known \<equiv>
     filter (\<lambda>x. case load_commit get x of Inr c \<Rightarrow> is_primitive C c | Inl _ \<Rightarrow> False)
       (filter (\<lambda>x. is_ghost_add_closure_only C get x = Ok False) known)"

lemma set_prim_list: "set (prim_list C get known) = live_prims C get known"
  by (simp add: live_prims_def loads_prim_iff set_eq_iff conj_commute)

text \<open>The frontier as one expression, and exactly when it is computed.\<close>

lemma frontier_eq:
  "frontier C get known = Ok f \<longleftrightarrow>
     (\<forall>x \<in> set known. is_ok (is_ghost_add_closure_only C get x)) \<and>
     (\<forall>q \<in> live_prims C get known. is_ok (ancestors get q)) \<and>
     f = sort_key (\<lambda>x. projr (order_key C get x))
           (filter (\<lambda>p. \<not> dominated get (live_prims C get known) p) (prim_list C get known))"
  (is "?l = (?g \<and> ?a \<and> ?f)")
proof -
  let ?P = "prim_list C get known"
  let ?k = "\<lambda>x. projr (order_key C get x)"
  let ?anc = "map (\<lambda>q. (q, projr (ancestors get q))) ?P"
  have anc: "list_ex (\<lambda>(q, a). p \<noteq> q \<and> p \<in> set a) ?anc \<longleftrightarrow> dominated get (live_prims C get known) p"
    if ?a for p
  proof -
    have "p \<in> set (projr (ancestors get q)) \<longleftrightarrow> (edge get)\<^sup>+\<^sup>+ q p"
      if "q \<in> live_prims C get known" for q
    proof -
      have "is_ok (ancestors get q)" using \<open>?a\<close> \<open>q \<in> live_prims C get known\<close> by blast
      then obtain S where "ancestors get q = Ok S" unfolding is_ok_iff by blast
      with ancestors_Ok(1) [OF this] show ?thesis by simp
    qed
    then show ?thesis unfolding list_ex_iff dominated_def set_prim_list [symmetric] by auto
  qed
  have keys: "is_ok (order_key C get x)" if "x \<in> set ?P" for x
    using that order_key_prim [of get x _ C] unfolding set_prim_list
    by (fastforce simp: live_prims_def is_ok_iff)
  have sort: "map snd (sort_key fst (map (\<lambda>x. (?k x, x)) xs)) = sort_key ?k xs" for xs
  proof -
    have "insort_key fst (?k x, x) (map (\<lambda>x. (?k x, x)) ys) = map (\<lambda>x. (?k x, x)) (insort_key ?k x ys)"
      for x ys by (induction ys) simp_all
    then have "sort_key fst (map (\<lambda>x. (?k x, x)) xs) = map (\<lambda>x. (?k x, x)) (sort_key ?k xs)"
      by (induction xs) simp_all
    then show ?thesis by (simp add: comp_def)
  qed
  show ?thesis
  proof
    assume ?l
    then obtain known1 where known1: "effective_known C get known = Ok known1"
      and g: "\<forall>x \<in> set known. is_ok (is_ghost_add_closure_only C get x)"
      and a: "\<forall>q \<in> set ?P. is_ok (ancestors get q)"
      and f: "rbind (rmap (\<lambda>x. rbind (order_key C get x) (\<lambda>k. Ok (k, x)))
          (filter (\<lambda>p. \<not> list_ex (\<lambda>(q, a). p \<noteq> q \<and> p \<in> set a) ?anc) ?P)) (\<lambda>keyed.
                 Ok (map snd (sort_key fst keyed))) = Ok f"
      unfolding frontier_def Let_def rbind_Inr_iff effective_known_Ok rmap_pair_Ok by blast
    have a': ?a using a unfolding set_prim_list .
    from f have "f = sort_key ?k (filter (\<lambda>p. \<not> dominated get (live_prims C get known) p) ?P)"
      unfolding rbind_Inr_iff rmap_key_Ok anc [OF a'] using sort by auto
    with g a' show "?g \<and> ?a \<and> ?f" by blast
  next
    assume r: "?g \<and> ?a \<and> ?f"
    then have a': ?a by blast
    have "effective_known C get known = Ok (filter (\<lambda>x. is_ghost_add_closure_only C get x = Ok False) known)"
      using r by (simp add: effective_known_Ok)
    moreover have "rmap (\<lambda>q. rbind (ancestors get q) (\<lambda>a. Ok (q, a))) ?P = Ok ?anc"
      using a' unfolding rmap_pair_Ok set_prim_list by blast
    moreover have "rmap (\<lambda>x. rbind (order_key C get x) (\<lambda>k. Ok (k, x)))
          (filter (\<lambda>p. \<not> dominated get (live_prims C get known) p) ?P) =
        Ok (map (\<lambda>x. (?k x, x)) (filter (\<lambda>p. \<not> dominated get (live_prims C get known) p) ?P))"
      unfolding rmap_key_Ok using keys by (meson filter_is_subset subsetD)
    ultimately show ?l
      unfolding frontier_def Let_def using r by (simp only: rbind.simps anc [OF a'] sort)
  qed
qed

lemma frontier_set:
  assumes "frontier C get known = Ok f"
  shows "set f = {p \<in> live_prims C get known. \<not> dominated get (live_prims C get known) p}"
  using assms unfolding frontier_eq set_prim_list [symmetric] by auto

lemma frontier_key:
  assumes "x \<in> live_prims C get known"
  obtains k where "order_key C get x = Ok k" and "key_sha k = x"
proof -
  from assms obtain c where "load_commit get x = Ok c" "is_primitive C c"
    by (auto simp: live_prims_def)
  from order_key_prim [OF this] show thesis using that by auto
qed

lemma frontier_sorted:
  assumes "frontier C get known = Ok f" and "distinct known"
  shows "sorted_wrt (key_before C get) f"
proof -
  let ?k = "\<lambda>x. projr (order_key C get x)"
  have f: "sorted (map ?k f)" "distinct f" "set f \<subseteq> live_prims C get known"
    using assms frontier_set [OF assms(1)] unfolding frontier_eq by auto
  have key: "order_key C get x = Ok (?k x) \<and> key_sha (?k x) = x" if "x \<in> set f" for x
  proof -
    from that f(3) have "x \<in> live_prims C get known" by blast
    then obtain k where "order_key C get x = Ok k" "key_sha k = x" by (rule frontier_key)
    then show ?thesis by simp
  qed
  have "inj_on ?k (set f)"
  proof (rule inj_onI)
    fix x y assume "x \<in> set f" "y \<in> set f" and eq: "?k x = ?k y"
    then have "key_sha (?k x) = x" "key_sha (?k y) = y" using key by blast+
    with eq show "x = y" by argo
  qed
  with f(1,2) have "sorted_wrt (<) (map ?k f)"
    by (simp add: strict_sorted_iff distinct_map)
  then have "sorted_wrt (\<lambda>x y. ?k x < ?k y) f" by (simp add: sorted_wrt_map)
  then show ?thesis
  proof (rule sorted_wrt_mono_rel [rotated])
    fix x y assume "x \<in> set f" "y \<in> set f" "?k x < ?k y"
    moreover from this obtain a b where "order_key C get x = Ok a" "order_key C get y = Ok b"
      using key by blast
    ultimately show "key_before C get x y"
      by (simp add: key_before_def)
  qed
qed

text \<open>Sorted lists over one set, with keys that determine the element, are equal.\<close>

lemma sorted_key_before_unique:
  assumes "sorted_wrt (key_before C get) f" and "sorted_wrt (key_before C get) f'"
    and "set f = set f'"
  shows "f = f'"
proof -
  have irr: "\<not> key_before C get x x" for x
    by (simp add: key_before_def split: sum.splits)
  have asym: "key_before C get x y \<Longrightarrow> \<not> key_before C get y x" for x y
    by (auto simp: key_before_def split: sum.splits)
  show ?thesis
    using assms
  proof (induction f arbitrary: f')
    case Nil
    then show ?case by simp
  next
    case (Cons x f)
    then obtain y g where f': "f' = y # g" by (cases f') auto
    have "x = y"
    proof (rule ccontr)
      assume "x \<noteq> y"
      with Cons.prems f' have "y \<in> set f" "x \<in> set g" by auto
      with Cons.prems f' asym show False by auto
    qed
    moreover have "x \<notin> set f" "y \<notin> set g" using Cons.prems f' irr by auto
    ultimately have "set f = set g" using Cons.prems(3) f' by auto
    with Cons f' \<open>x = y\<close> show ?case by auto
  qed
qed

lemma live_prims_cong: "set known = set known' \<Longrightarrow> live_prims C get known = live_prims C get known'"
  by (simp add: live_prims_def)

lemma frontier_same_set:
  assumes "frontier C get known = Ok f" and "set known = set known'"
    and "distinct known" and "distinct known'"
  shows "frontier C get known' = Ok f"
proof -
  obtain f' where f': "frontier C get known' = Ok f'"
    using assms(1,2) live_prims_cong [OF assms(2)] unfolding frontier_eq by auto
  have "set f = set f'"
    using frontier_set [OF assms(1)] frontier_set [OF f'] live_prims_cong [OF assms(2)] by simp
  with frontier_sorted [OF assms(1,3)] frontier_sorted [OF f' assms(4)] have "f = f'"
    by (intro sorted_key_before_unique)
  with f' show ?thesis by simp
qed

text \<open>Every live primitive is below some tip, when the commit graph has no cycle.\<close>

lemma frontier_covers:
  assumes "frontier C get known = Ok f" and "p \<in> live_prims C get known"
    and acyclic: "\<And>x. \<not> (edge get)\<^sup>+\<^sup>+ x x"
  shows "\<exists>q \<in> set f. (edge get)\<^sup>*\<^sup>* q p"
proof -
  let ?R = "{(x, y). (edge get)\<^sup>+\<^sup>+ x y}"
  have "trans ?R" by (auto intro!: transI elim: tranclp_trans)
  then have "acyclic ?R" using acyclic by (simp add: acyclic_def trancl_id)
  then have "wf ?R" by (intro finite_acyclic_wf) simp_all
  then show ?thesis
    using assms(2)
  proof (induction p rule: wf_induct_rule)
    case (less p)
    show ?case
    proof (cases "dominated get (live_prims C get known) p")
      case True
      then obtain q where q: "q \<in> live_prims C get known" "(edge get)\<^sup>+\<^sup>+ q p"
        by (auto simp: dominated_def)
      with less.IH [of q] obtain t where "t \<in> set f" "(edge get)\<^sup>*\<^sup>* t q" by auto
      with q(2) show ?thesis by (meson rtranclp_trans tranclp_into_rtranclp)
    next
      case False
      with less.prems frontier_set [OF assms(1)] show ?thesis by auto
    qed
  qed
qed

section \<open>The caches are transparent\<close>

definition caches_ok :: "crates \<Rightarrow> getter \<Rightarrow> caches \<Rightarrow> bool" where
  "caches_ok C get k \<longleftrightarrow>
     (\<forall>x p r. touch_cache k (x, p) = Some r \<longrightarrow> most_recent_touch_uncached C get x p = Ok r) \<and>
     (\<forall>x b. verdict_cache k x = Some b \<longrightarrow> is_ghost_add_uncached C get x = Ok b)"

text \<open>A call that only adds valid cache entries and returns a fixed answer.\<close>

definition answers :: "crates \<Rightarrow> getter \<Rightarrow> (caches, 'a) seff \<Rightarrow> 'a res \<Rightarrow> bool" where
  "answers C get m r \<longleftrightarrow>
     (\<forall>k. caches_ok C get k \<longrightarrow> snd (m k) = r \<and> caches_ok C get (fst (m k)))"

lemma answersD: "answers C get m r \<Longrightarrow> caches_ok C get k \<Longrightarrow> \<exists>k'. m k = (k', r) \<and> caches_ok C get k'"
  by (cases "m k") (auto simp: answers_def)

lemma answers_sret: "answers C get (sret x) (Ok x)"
  by (simp add: answers_def)

lemma answers_pair: "answers C get (\<lambda>k. (k, Ok x)) (Ok x)"
  by (simp add: answers_def)

lemma answers_sread: "answers C get (sread (\<lambda>_. r)) r"
  by (simp add: answers_def)

lemma answers_sbind:
  assumes "answers C get m r" and "\<And>x. answers C get (f x) (g x)"
  shows "answers C get (sbind m f) (rbind r g)"
  unfolding answers_def
proof (intro allI impI)
  fix k assume k: "caches_ok C get k"
  obtain k' where m: "m k = (k', r)" and k': "caches_ok C get k'"
    using answersD [OF assms(1) k] by blast
  show "snd (sbind m f k) = rbind r g \<and> caches_ok C get (fst (sbind m f k))"
  proof (cases r)
    case (Inl e)
    with m k' show ?thesis by (simp add: sbind_def)
  next
    case (Inr x)
    with assms(2) [of x] m k' show ?thesis by (simp add: sbind_def answers_def)
  qed
qed

lemma answers_touch:
  "answers C get (most_recent_touch C get start path) (most_recent_touch_uncached C get start path)"
  unfolding answers_def
proof (intro allI impI)
  fix k assume k: "caches_ok C get k"
  show "snd (most_recent_touch C get start path k) = most_recent_touch_uncached C get start path
    \<and> caches_ok C get (fst (most_recent_touch C get start path k))"
  proof (cases "touch_cache k (start, path)")
    case None
    then show ?thesis
      using k by (cases "most_recent_touch_uncached C get start path")
        (auto simp: most_recent_touch_def sbind_def caches_ok_def)
  next
    case (Some r)
    then show ?thesis using k by (simp add: most_recent_touch_def caches_ok_def)
  qed
qed

lemma answers_ghost_paths:
  assumes "\<And>p. answers C get (touch p) (t p)"
  shows "answers C get (ghost_paths_cached touch readds ps) (ghost_paths t readds ps)"
proof (induction ps)
  case Nil
  show ?case by (simp add: answers_pair)
next
  case (Cons p ps)
  then show ?case
    unfolding ghost_paths_cached.simps ghost_paths.simps
    by (intro answers_sbind assms)
      (auto split: option.splits touch_kind.splits intro: answers_sret answers_pair)
qed

lemma answers_ghost_inner: "answers C get (ghost_add_cached_inner C get prim) (is_ghost_add_uncached C get prim)"
  unfolding ghost_add_cached_inner_def is_ghost_add_uncached_def
proof (intro answers_sbind answers_sread)
  fix ob :: git_object
  show "answers C get
     (case ob of
         Commit c \<Rightarrow>
           if \<not> is_primitive C c then sret False
           else
             (case co_parents c of
                [parent] \<Rightarrow>
                  sbind (sread (\<lambda>_. load_commit get parent)) (\<lambda>pc.
                  sbind (sread (\<lambda>_. tree_paths_added [] get [] (Some (co_tree pc)) (co_tree c) []))
                    (\<lambda>added.
                      if added = [] then sret False
                      else ghost_paths_cached (most_recent_touch C get parent)
                             (parse_primitive_readds C c) added))
              | _ \<Rightarrow> sret False)
       | _ \<Rightarrow> sret False)
     (case ob of
         Commit c \<Rightarrow>
           if \<not> is_primitive C c then Ok False
           else
             (case co_parents c of
                [parent] \<Rightarrow>
                  rbind (load_commit get parent) (\<lambda>pc.
                  rbind (tree_paths_added [] get [] (Some (co_tree pc)) (co_tree c) []) (\<lambda>added.
                    if added = [] then Ok False
                    else ghost_paths (most_recent_touch_uncached C get parent)
                           (parse_primitive_readds C c) added))
              | _ \<Rightarrow> Ok False)
       | _ \<Rightarrow> Ok False)"
    by (auto split: git_object.splits list.splits
        intro!: answers_sret answers_sbind answers_sread answers_ghost_paths answers_touch)
qed

lemma answers_ghost_add:
  "answers C get (is_ghost_add_cached C get prim) (is_ghost_add_closure_only C get prim)"
  unfolding answers_def
proof (intro allI impI)
  fix k assume k: "caches_ok C get k"
  obtain k' where inner: "ghost_add_cached_inner C get prim k = (k', is_ghost_add_uncached C get prim)"
    and k': "caches_ok C get k'"
    using answersD [OF answers_ghost_inner k] by blast
  show "snd (is_ghost_add_cached C get prim k) = is_ghost_add_closure_only C get prim
    \<and> caches_ok C get (fst (is_ghost_add_cached C get prim k))"
  proof (cases "verdict_cache k prim")
    case (Some b)
    then show ?thesis
      using k by (simp add: is_ghost_add_cached_def is_ghost_add_closure_only_def caches_ok_def)
  next
    case None
    note defs = is_ghost_add_cached_def is_ghost_add_closure_only_def
    show ?thesis
    proof (cases "is_ghost_add_uncached C get prim")
      case (Inl e)
      with None inner k' show ?thesis by (cases e) (simp_all add: defs)
    next
      case (Inr b)
      with k' have "caches_ok C get (k'\<lparr>verdict_cache := (verdict_cache k')(prim \<mapsto> b)\<rparr>)"
        by (simp add: caches_ok_def)
      with Inr None inner show ?thesis by (simp add: defs)
    qed
  qed
qed

lemma caches_ok_mono:
  assumes "caches_ok C g k" and "get_le g g'"
  shows "caches_ok C g' k"
  using assms(1) mono_readD [OF mono_most_recent_touch assms(2)]
    mono_readD [OF mono_ghost_add assms(2)]
  unfolding caches_ok_def by blast

text \<open>A proven verdict survives the growth of the store; an unproven one keeps the primitive.\<close>

lemma ghost_add_grows:
  assumes "get_le g g'" and "is_ok (is_ghost_add_uncached C g x)"
  shows "is_ghost_add_closure_only C g' x = is_ghost_add_closure_only C g x"
proof -
  from assms(2) obtain b where b: "is_ghost_add_uncached C g x = Ok b" by (auto simp: is_ok_iff)
  with mono_readD [OF mono_ghost_add assms(1) b] show ?thesis
    by (simp add: is_ghost_add_closure_only_def)
qed

lemma live_prims_grow:
  assumes "get_le g g'" and "\<forall>x \<in> set known. is_ok (is_ghost_add_uncached C g x)"
  shows "live_prims C g' known = live_prims C g known"
proof -
  have "(\<exists>c. load_commit g' x = Ok c \<and> is_primitive C c) =
      (\<exists>c. load_commit g x = Ok c \<and> is_primitive C c)" if "x \<in> set known" for x
  proof -
    have "is_ok (is_ghost_add_uncached C g x)" using assms(2) that by blast
    then obtain ob where ob: "g x = Ok ob"
      by (cases "g x") (auto simp: is_ghost_add_uncached_def)
    then show ?thesis
      using get_leD [OF assms(1) ob] by (simp add: load_commit_def)
  qed
  then show ?thesis
    using ghost_add_grows [OF assms(1)] assms(2) by (auto simp: live_prims_def)
qed

lemma frontier_grows:
  assumes le: "get_le g g'" and proven: "\<forall>x \<in> set known. is_ok (is_ghost_add_uncached C g x)"
    and f: "frontier C g known = Ok f" and "distinct known"
  shows "frontier C g' known = Ok f"
proof -
  have live: "live_prims C g' known = live_prims C g known"
    by (rule live_prims_grow [OF le proven])
  have anc: "ancestors g q = Ok S \<Longrightarrow> ancestors g' q = Ok S" for q S
    by (rule mono_readD [OF mono_ancestors le])
  have reach: "(edge g')\<^sup>+\<^sup>+ q p = (edge g)\<^sup>+\<^sup>+ q p" if "q \<in> live_prims C g known" for q p
  proof -
    from f that have "is_ok (ancestors g q)" unfolding frontier_eq by blast
    then obtain S where S: "ancestors g q = Ok S" unfolding is_ok_iff by blast
    from ancestors_Ok(1) [OF S] ancestors_Ok(1) [OF anc [OF S]] show ?thesis by auto
  qed
  have dom: "dominated g' (live_prims C g known) p = dominated g (live_prims C g known) p" for p
    using reach by (auto simp: dominated_def)
  have "\<forall>x \<in> set known. is_ok (is_ghost_add_closure_only C g' x)"
    using f proven ghost_add_grows [OF le] unfolding frontier_eq by auto
  moreover have "\<forall>q \<in> live_prims C g' known. is_ok (ancestors g' q)"
    using f anc unfolding frontier_eq live is_ok_iff by blast
  ultimately obtain f' where f': "frontier C g' known = Ok f'" unfolding frontier_eq by blast
  have "set f' = set f"
    using frontier_set [OF f] frontier_set [OF f'] live dom by auto
  moreover have key: "order_key C g x = Ok k \<Longrightarrow> order_key C g' x = Ok k" for x k
    by (rule mono_readD [OF mono_order_key le])
  have "sorted_wrt (key_before C g') f"
  proof (rule sorted_wrt_mono_rel [OF _ frontier_sorted [OF f \<open>distinct known\<close>]])
    fix x y assume "key_before C g x y"
    then show "key_before C g' x y"
      by (auto simp: key_before_def key split: sum.splits dest: key)
  qed
  ultimately have "f' = f"
    using frontier_sorted [OF f' \<open>distinct known\<close>] by (intro sorted_key_before_unique)
  with f' show ?thesis by simp
qed

end
