(* ===== verification/Fold_Facts.thy ===== *)
theory Fold_Facts
  imports Frontier
begin

text \<open>
  What the writers of the fold do to any store that keeps the contract: they only grow it,
  the id they return depends on what they read, and a fold commit they wrote passes
  verification later. The contract of a store is extended by the engine's use of it.
\<close>

section \<open>The ghost log of writes\<close>

text \<open>A store that also records what was put into it, in order.\<close>

definition logged :: "'s store_ops \<Rightarrow> ('s \<times> git_object list) store_ops" where
  "logged ops =
     \<lparr>so_get = (\<lambda>(s, l). so_get ops s), so_has = (\<lambda>(s, l). so_has ops s),
      so_put = (\<lambda>ob (s, l). case so_put ops ob s of (t, r) \<Rightarrow> ((t, l @ [ob]), r))\<rparr>"

definition fold_writes :: "crates \<Rightarrow> 's store_ops \<Rightarrow> oid list \<Rightarrow> 's \<Rightarrow> git_object list" where
  "fold_writes C ops known s = snd (fst (compute_main C (logged ops) known (s, [])))"

lemma logged_sel [simp]:
  "so_get (logged ops) (s, l) = so_get ops s"
  "so_put (logged ops) ob (s, l) = (case so_put ops ob s of (t, r) \<Rightarrow> ((t, l @ [ob]), r))"
  by (simp_all add: logged_def)

text \<open>The log is a ghost: it changes neither the store nor the result, and only grows.\<close>

definition logs :: "('s, 'a) seff \<Rightarrow> ('s \<times> git_object list, 'a) seff \<Rightarrow> bool" where
  "logs m m' \<longleftrightarrow> (\<forall>s l. \<exists>new. m' (s, l) = ((fst (m s), l @ new), snd (m s)))"

named_theorems log_intros \<open>calls that agree with their logged form\<close>

lemma logsD: "logs m m' \<Longrightarrow> m s = (t, r) \<Longrightarrow> \<exists>new. m' (s, l) = ((t, l @ new), r)"
  by (metis fst_conv logs_def snd_conv)

lemma logsD': "logs m m' \<Longrightarrow> m' (s, l) = ((t, l'), r) \<Longrightarrow> m s = (t, r) \<and> set l \<subseteq> set l'"
  unfolding logs_def by (metis Pair_inject Un_upper1 prod.collapse set_append)

lemma logs_put [log_intros]: "logs (so_put ops ob) (so_put (logged ops) ob)"
  by (auto simp: logs_def split: prod.splits)

lemma logs_sread [log_intros]:
  "(\<And>s l. f' (s, l) = f s) \<Longrightarrow> logs (sread f) (sread f')"
  by (auto simp: logs_def)

lemma logs_sret [log_intros]: "logs (sret x) (sret x)"
  by (auto simp: logs_def)

lemma logs_sbind [log_intros]:
  assumes "logs m m'" and "\<And>x. logs (f x) (f' x)"
  shows "logs (sbind m f) (sbind m' f')"
  unfolding logs_def
proof (intro allI)
  fix s l
  obtain t r where m: "m s = (t, r)" by fastforce
  obtain new where m': "m' (s, l) = ((t, l @ new), r)" using logsD [OF assms(1) m] by blast
  show "\<exists>new. sbind m' f' (s, l) = ((fst (sbind m f s), l @ new), snd (sbind m f s))"
  proof (cases r)
    case (Inl e)
    with m m' show ?thesis by (simp add: sbind_def)
  next
    case (Inr x)
    obtain u q where f: "f x t = (u, q)" by fastforce
    obtain new' where "f' x (t, l @ new) = ((u, (l @ new) @ new'), q)"
      using logsD [OF assms(2) f] by blast
    with m m' f Inr show ?thesis by (simp add: sbind_def)
  qed
qed

lemma logs_smapM [log_intros]:
  "(\<And>x. logs (f x) (f' x)) \<Longrightarrow> logs (smapM f xs) (smapM f' xs)"
  by (induction xs) (auto intro: log_intros)

lemma logs_make_fold_commit [log_intros]:
  "logs (make_fold_commit ops t ps msg) (make_fold_commit (logged ops) t ps msg)"
  unfolding make_fold_commit_def by (intro log_intros) simp

lemma logs_put_all [log_intros]: "logs (put_all ops obs) (put_all (logged ops) obs)"
  unfolding put_all_def by (intro log_intros)

lemma logs_genesis [log_intros]: "logs (genesis C ops) (genesis C (logged ops))"
  unfolding genesis_def by (intro log_intros)

lemma logs_thin_wrapper [log_intros]: "logs (thin_wrapper ops tip) (thin_wrapper (logged ops) tip)"
  unfolding thin_wrapper_def by (intro log_intros) simp

lemma logs_fold_step [log_intros]: "logs (fold_step C ops acc tk) (fold_step C (logged ops) acc tk)"
  unfolding fold_step_def by (auto intro!: log_intros split: prod.splits)

lemma logs_fold_tips [log_intros]: "logs (fold_tips C ops acc tks) (fold_tips C (logged ops) acc tks)"
  by (induction tks arbitrary: acc) (auto intro!: log_intros)

lemma logs_compute_main: "logs (compute_main C ops known) (compute_main C (logged ops) known)"
  unfolding compute_main_def
  by (intro log_intros) (auto intro!: log_intros split: list.splits)

section \<open>The engine over a store\<close>

locale engine_store =
  object_store "so_get ops" "so_has ops" "so_put ops" "oid_of C" reread inv
  for C :: crates and ops :: "'s store_ops" and reread and inv
begin

definition grows :: "'s \<Rightarrow> 's \<Rightarrow> bool" where
  "grows s t \<longleftrightarrow> (inv s \<longrightarrow> inv t \<and> get_le (so_get ops s) (so_get ops t))"

lemma grows_refl: "reflp grows"
  by (simp add: reflp_def grows_def)

lemma grows_trans: "transp grows"
  by (auto simp: transp_def grows_def intro: get_le_trans)

lemmas grow_rules = keeps_sread [OF grows_refl] keeps_sret [OF grows_refl]
  keeps_sbind [OF grows_trans] keeps_smapM [OF grows_refl grows_trans]

lemma keeps_put: "keeps grows (so_put ops ob)"
  by (simp add: keeps_def grows_def put_inv put_get_le)

lemma keeps_put_all: "keeps grows (put_all ops obs)"
  unfolding put_all_def by (intro grow_rules keeps_put)

lemma keeps_make_fold_commit: "keeps grows (make_fold_commit ops t ps msg)"
  unfolding make_fold_commit_def by (intro grow_rules keeps_put)

lemma keeps_genesis: "keeps grows (genesis C ops)"
  unfolding genesis_def by (intro grow_rules keeps_put)

lemma keeps_thin_wrapper: "keeps grows (thin_wrapper ops tip)"
  unfolding thin_wrapper_def by (intro grow_rules keeps_make_fold_commit)

lemma keeps_fold_step: "keeps grows (fold_step C ops acc tk)"
  unfolding fold_step_def
  by (intro grow_rules) (auto split: prod.splits intro!: grow_rules keeps_put_all keeps_make_fold_commit)

lemma keeps_fold_tips: "keeps grows (fold_tips C ops acc tks)"
proof (induction tks arbitrary: acc)
  case Nil
  show ?case unfolding fold_tips.simps by (intro grow_rules)
next
  case (Cons tk tks)
  show ?case unfolding fold_tips.simps by (intro grow_rules keeps_fold_step Cons)
qed

lemma keeps_compute_main: "keeps grows (compute_main C ops known)"
  unfolding compute_main_def
proof (intro grow_rules)
  fix f :: "oid list"
  show "keeps grows (case f of [] \<Rightarrow> genesis C ops | [tip] \<Rightarrow> thin_wrapper ops tip
     | acc # y # ys \<Rightarrow> fold_tips C ops acc (y # ys))"
    by (cases f rule: remdups_adj.cases)
      (simp_all add: keeps_genesis keeps_thin_wrapper keeps_fold_tips del: fold_tips.simps)
qed

lemma put_all_ok: "snd (put_all ops obs s) = Ok ()"
proof (induction obs arbitrary: s)
  case Nil
  show ?case by (simp add: put_all_def)
next
  case (Cons ob obs)
  obtain t where "so_put ops ob s = (t, Ok (oid_of C ob))" using put_eq by blast
  with Cons [of t] show ?case by (simp add: put_all_def sbind_def)
qed

text \<open>What a fold commit is made from: only what the store answered.\<close>

lemma make_fold_commit_iff:
  "snd (make_fold_commit ops t ps msg s) = Ok r \<longleftrightarrow>
     (\<exists>u. parents_time (so_get ops s) ps = Ok u \<and> r = oid_of C (Commit (fold_commit t ps u msg)))"
  by (cases "parents_time (so_get ops s) ps") (auto simp: make_fold_commit_def sbind_def put_ok)

lemma fold_step_merged:
  assumes "merged_files C (so_get ops s) acc tk = Ok m"
  shows "\<exists>u. parents_time (so_get ops s) [acc, tk] = Ok u"
  using assms by (auto simp: merged_files_def commit_files_def commit_tree_def parents_time_def res_simps)

definition fold_result :: "'s \<Rightarrow> oid \<Rightarrow> oid \<Rightarrow> commit_obj res" where
  "fold_result s acc tk =
     rbind (merged_files C (so_get ops s) acc tk) (\<lambda>m.
     rbind (parents_time (so_get ops s) [acc, tk]) (\<lambda>u.
       Ok (fold_commit (snd (write_tree_from_files C m)) [acc, tk] u FOLD_MSG)))"

lemma fold_step_result:
  assumes "inv s"
  shows "snd (fold_step C ops acc tk s) = rbind (fold_result s acc tk) (\<lambda>c. Ok (oid_of C (Commit c)))"
proof (cases "merged_files C (so_get ops s) acc tk")
  case (Inl e)
  then show ?thesis by (simp add: fold_step_def fold_result_def sbind_def)
next
  case (Inr m)
  obtain u where u: "parents_time (so_get ops s) [acc, tk] = Ok u"
    using fold_step_merged [OF Inr] by blast
  obtain objs root where w: "write_tree_from_files C m = (objs, root)" by fastforce
  obtain t where t: "put_all ops objs s = (t, Ok ())" using put_all_ok [of objs s] by (cases "put_all ops objs s") auto
  have "get_le (so_get ops s) (so_get ops t)"
    using keepsD2 [OF keeps_put_all t] assms by (simp add: grows_def)
  from mono_readD [OF mono_parents_time this u]
  have "snd (make_fold_commit ops root [acc, tk] FOLD_MSG t)
      = Ok (oid_of C (Commit (fold_commit root [acc, tk] u FOLD_MSG)))"
    by (simp add: make_fold_commit_iff)
  with Inr u w t show ?thesis by (simp add: fold_step_def fold_result_def sbind_def)
qed

lemma fold_result_mono:
  "get_le (so_get ops s) (so_get ops t) \<Longrightarrow> fold_result s acc tk = Ok c \<Longrightarrow> fold_result t acc tk = Ok c"
  unfolding fold_result_def rbind_Inr_iff
  by (blast intro: mono_readD [OF mono_merged_files] mono_readD [OF mono_parents_time])

end

section \<open>A fold commit is accepted\<close>

lemma fold_msg_synthetic: "co_message c = FOLD_MSG \<Longrightarrow> \<not> is_primitive C c"
proof -
  assume "co_message c = FOLD_MSG"
  then have "str_lines (co_message c) = [''csp: fold'']"
    by (simp add: FOLD_MSG_def str_lines_def strip_cr_def strip_suffix_def)
  then show ?thesis by (simp add: is_primitive_def parse_primitive_meta_def)
qed

lemma fold_commit_sel [simp]:
  "co_tree (fold_commit t ps u m) = t" "co_parents (fold_commit t ps u m) = ps"
  "co_committer_time (fold_commit t ps u m) = u" "co_message (fold_commit t ps u m) = m"
  by (simp_all add: fold_commit_def)

context engine_store
begin

text \<open>Verification from any larger store, with any set of visited commits, succeeds.\<close>

definition accepts :: "'s \<Rightarrow> oid \<Rightarrow> bool" where
  "accepts s x \<longleftrightarrow>
     (\<forall>t path seen. inv t \<longrightarrow> get_le (so_get ops s) (so_get ops t) \<longrightarrow>
        (\<exists>u seen'. verify_inner C ops path x (t, seen) = ((u, seen'), Ok ()) \<and> grows t u))"

lemma acceptsD:
  "accepts s x \<Longrightarrow> inv t \<Longrightarrow> get_le (so_get ops s) (so_get ops t) \<Longrightarrow>
     \<exists>u seen'. verify_inner C ops path x (t, seen) = ((u, seen'), Ok ()) \<and> grows t u"
  by (simp add: accepts_def)

lemma accepts_primitive:
  assumes "load_commit (so_get ops s) x = Ok c" and "is_primitive C c"
  shows "accepts s x"
  unfolding accepts_def
proof (intro allI impI)
  fix t path seen
  assume "get_le (so_get ops s) (so_get ops t)"
  from load_commit_mono [OF this assms(1)] assms(2)
  show "\<exists>u seen'. verify_inner C ops path x (t, seen) = ((u, seen'), Ok ()) \<and> grows t u"
    using grows_refl by (auto simp: verify_inner.simps [of C ops path] reflp_def)
qed

lemma grows_le: "grows s t \<Longrightarrow> inv s \<Longrightarrow> inv t \<and> get_le (so_get ops s) (so_get ops t)"
  by (simp add: grows_def)

lemma accepts_fold:
  assumes c: "load_commit (so_get ops s) x = Ok c" and syn: "\<not> is_primitive C c"
    and ps: "co_parents c \<noteq> []" "\<And>p. p \<in> set (co_parents c) \<Longrightarrow> accepts s p"
    and rep: "\<And>t. inv t \<Longrightarrow> get_le (so_get ops s) (so_get ops t) \<Longrightarrow>
         \<exists>u. reproduce C ops x c t = (u, Ok ()) \<and> grows t u"
  shows "accepts s x"
  unfolding accepts_def
proof (intro allI impI)
  fix t path seen
  assume t: "inv t" "get_le (so_get ops s) (so_get ops t)"
  let ?v = "\<lambda>p st. verify_inner C ops (x # path) p st"
  have loop: "\<exists>u seen'. smapM ?v qs (w, sn) = ((u, seen'), Ok ()) \<and> grows w u"
    if "set qs \<subseteq> set (co_parents c)" "inv w" "get_le (so_get ops s) (so_get ops w)" for qs w sn
    using that
  proof (induction qs arbitrary: w sn)
    case Nil
    then show ?case using grows_refl by (auto simp: reflp_def)
  next
    case (Cons q qs)
    then have "accepts s q" using ps(2) by simp
    from acceptsD [OF this Cons.prems(2,3)] obtain u sn' where
      q: "?v q (w, sn) = ((u, sn'), Ok ())" and "grows w u" by blast
    with Cons.prems(2) have u: "inv u" "get_le (so_get ops w) (so_get ops u)"
      using grows_le by blast+
    obtain u' sn'' where "smapM ?v qs (u, sn') = ((u', sn''), Ok ())" and "grows u u'"
      using Cons.IH [of u sn'] Cons.prems(1) u get_le_trans [OF Cons.prems(3) u(2)] by auto
    moreover have "grows w u'" using \<open>grows w u\<close> \<open>grows u u'\<close> grows_trans by (blast dest: transpD)
    ultimately show ?case using q by (simp add: sbind_def)
  qed
  obtain w sn where w: "smapM ?v (co_parents c) (t, x # seen) = ((w, sn), Ok ())" and tw: "grows t w"
    using loop [OF subset_refl t] by blast
  from grows_le [OF tw t(1)] have "inv w" "get_le (so_get ops s) (so_get ops w)"
    using get_le_trans [OF t(2)] by blast+
  from rep [OF this] obtain u where u: "reproduce C ops x c w = (u, Ok ())" "grows w u" by blast
  then have "grows t u" using tw grows_trans by (blast dest: transpD)
  moreover have "reflp grows" by (rule grows_refl)
  ultimately show "\<exists>u seen'. verify_inner C ops path x (t, seen) = ((u, seen'), Ok ()) \<and> grows t u"
    using load_commit_mono [OF t(2) c] syn ps(1) w u
    by (auto simp: verify_inner.simps [of C ops path] sbind_def on_fst_def reflp_def)
qed

lemma accepts_fold_step:
  assumes s: "inv s" and r: "fold_result s acc tk = Ok c"
    and le: "get_le (so_get ops s) (so_get ops t)"
    and load: "load_commit (so_get ops t) x = Ok c" and x: "x = oid_of C (Commit c)"
    and "accepts t acc" and "accepts t tk"
  shows "accepts t x"
proof (rule accepts_fold [OF load])
  have c: "co_parents c = [acc, tk]" "co_message c = FOLD_MSG"
    using r by (auto simp: fold_result_def res_simps)
  show "\<not> is_primitive C c" using c(2) by (rule fold_msg_synthetic)
  show "co_parents c \<noteq> []" using c(1) by simp
  show "\<And>p. p \<in> set (co_parents c) \<Longrightarrow> accepts t p" using c(1) assms(6,7) by auto
  fix w assume w: "inv w" "get_le (so_get ops t) (so_get ops w)"
  have "fold_result w acc tk = Ok c"
    using fold_result_mono [OF get_le_trans [OF le w(2)] r] .
  then have "snd (fold_step C ops acc tk w) = Ok x"
    using fold_step_result [OF w(1)] x by simp
  moreover have "grows w (fst (fold_step C ops acc tk w))"
    by (rule keepsD [OF keeps_fold_step])
  ultimately show "\<exists>u. reproduce C ops x c w = (u, Ok ()) \<and> grows w u"
    using c(1) by (cases "fold_step C ops acc tk w") (simp add: reproduce_def sbind_def)
qed

lemma accepts_thin:
  assumes s: "inv s" and run: "thin_wrapper ops tip s = (t, Ok x)"
    and load: "\<And>c. x = oid_of C (Commit c) \<Longrightarrow> Commit c \<in> set writes \<Longrightarrow>
         load_commit (so_get ops t) x = Ok c"
    and wr: "thin_wrapper (logged ops) tip (s, []) = ((t, writes), Ok x)"
    and tip: "accepts t tip"
  shows "accepts t x"
proof -
  obtain tr where tr: "commit_tree (so_get ops s) tip = Ok tr"
    and mk: "make_fold_commit ops tr [tip] FOLD_MSG s = (t, Ok x)"
    using run by (auto simp: thin_wrapper_def sbind_Ok_iff)
  obtain u where u: "parents_time (so_get ops s) [tip] = Ok u"
    and x: "x = oid_of C (Commit (fold_commit tr [tip] u FOLD_MSG))"
    using mk make_fold_commit_iff [of tr "[tip]" FOLD_MSG s x] by auto
  let ?c = "fold_commit tr [tip] u FOLD_MSG"
  have "Commit ?c \<in> set writes"
    using wr tr u by (auto simp: thin_wrapper_def sbind_def make_fold_commit_def split: prod.splits)
  then have c: "load_commit (so_get ops t) x = Ok ?c" using load x by blast
  have le: "get_le (so_get ops s) (so_get ops t)"
    using keepsD2 [OF keeps_thin_wrapper run] s by (simp add: grows_def)
  show ?thesis
  proof (rule accepts_fold [OF c])
    show "\<not> is_primitive C ?c" by (simp add: fold_msg_synthetic)
    fix w assume w: "inv w" "get_le (so_get ops t) (so_get ops w)"
    have le': "get_le (so_get ops s) (so_get ops w)" using le w(2) by (rule get_le_trans)
    have tr': "commit_tree (so_get ops w) tip = Ok tr"
      by (rule mono_readD [OF mono_commit_tree le' tr])
    have "parents_time (so_get ops w) [tip] = Ok u"
      by (rule mono_readD [OF mono_parents_time le' u])
    then have "snd (make_fold_commit ops tr [tip] FOLD_MSG w) = Ok x"
      unfolding make_fold_commit_iff x by blast
    moreover have "grows w (fst (make_fold_commit ops tr [tip] FOLD_MSG w))"
      by (rule keepsD [OF keeps_make_fold_commit])
    ultimately show "\<exists>v. reproduce C ops x ?c w = (v, Ok ()) \<and> grows w v"
      using tr' by (cases "make_fold_commit ops tr [tip] FOLD_MSG w")
        (simp add: reproduce_def sbind_def)
  qed (use tip in simp_all)
qed

text \<open>The chain of binary steps, given that every commit written reads back.\<close>

lemma fold_step_writes:
  assumes "inv s" and "fold_step C (logged ops) acc tk (s, l) = ((t, l'), Ok r)"
  shows "\<exists>c. fold_result s acc tk = Ok c \<and> r = oid_of C (Commit c) \<and> Commit c \<in> set l'"
proof -
  have run: "fold_step C ops acc tk s = (t, Ok r)"
    using logsD' [OF logs_fold_step assms(2)] by blast
  then obtain c where c: "fold_result s acc tk = Ok c" "r = oid_of C (Commit c)"
    using fold_step_result [OF assms(1), of acc tk] by (cases "fold_result s acc tk") auto
  then obtain m u where m: "merged_files C (so_get ops s) acc tk = Ok m"
    and u: "parents_time (so_get ops s) [acc, tk] = Ok u"
    and ceq: "c = fold_commit (snd (write_tree_from_files C m)) [acc, tk] u FOLD_MSG"
    by (auto simp: fold_result_def res_simps)
  obtain objs root where w: "write_tree_from_files C m = (objs, root)" by fastforce
  obtain s1 where s1: "put_all ops objs s = (s1, Ok ())"
    using put_all_ok [of objs s] by (cases "put_all ops objs s") auto
  obtain new where s1': "put_all (logged ops) objs (s, l) = ((s1, l @ new), Ok ())"
    using logsD [OF logs_put_all s1] by blast
  have "get_le (so_get ops s) (so_get ops s1)"
    using keepsD2 [OF keeps_put_all s1] assms(1) by (simp add: grows_def)
  then have "parents_time (so_get ops s1) [acc, tk] = Ok u"
    using mono_readD [OF mono_parents_time _ u] by blast
  then have "Commit c \<in> set l'"
    using assms(2) m w s1' ceq
    by (auto simp: fold_step_def sbind_def make_fold_commit_def split: prod.splits)
  with c show ?thesis by blast
qed

lemma accepts_fold_tips:
  assumes "inv s" and "fold_tips C (logged ops) acc tks (s, l) = ((t, l'), Ok x)"
    and "\<And>c. Commit c \<in> set l' \<Longrightarrow> load_commit (so_get ops t) (oid_of C (Commit c)) = Ok c"
    and "accepts t acc" and "\<And>tk. tk \<in> set tks \<Longrightarrow> accepts t tk"
  shows "accepts t x"
  using assms
proof (induction tks arbitrary: s l acc)
  case Nil
  then show ?case by simp
next
  case (Cons tk tks)
  from Cons.prems(2) obtain s1 l1 r where
    st: "fold_step C (logged ops) acc tk (s, l) = ((s1, l1), Ok r)"
    and rest: "fold_tips C (logged ops) r tks (s1, l1) = ((t, l'), Ok x)"
    by (auto simp: sbind_Ok_iff)
  obtain c where c: "fold_result s acc tk = Ok c" "r = oid_of C (Commit c)" "Commit c \<in> set l1"
    using fold_step_writes [OF Cons.prems(1) st] by blast
  have run1: "fold_step C ops acc tk s = (s1, Ok r)"
    using logsD' [OF logs_fold_step st] by blast
  have run2: "fold_tips C ops r tks s1 = (t, Ok x)" "set l1 \<subseteq> set l'"
    using logsD' [OF logs_fold_tips rest] by blast+
  have s1: "inv s1" "get_le (so_get ops s) (so_get ops s1)"
    using keepsD2 [OF keeps_fold_step run1] Cons.prems(1) by (simp_all add: grows_def)
  have "get_le (so_get ops s1) (so_get ops t)"
    using keepsD2 [OF keeps_fold_tips run2(1)] s1(1) by (simp add: grows_def)
  then have le: "get_le (so_get ops s) (so_get ops t)" by (rule get_le_trans [OF s1(2)])
  have "load_commit (so_get ops t) r = Ok c" using Cons.prems(3) c(2,3) run2(2) by blast
  then have "accepts t r"
    using accepts_fold_step [OF Cons.prems(1) c(1) le _ c(2)] Cons.prems(4,5) by simp
  then show ?case
    using Cons.IH [OF s1(1) rest Cons.prems(3)] Cons.prems(5) by simp
qed

end

section \<open>The main ref\<close>

context engine_store
begin

lemma accepts_genesis:
  assumes run: "genesis C ops s = (t, Ok x)"
    and load: "load_commit (so_get ops t) x = Ok (fold_commit (oid_of C (Tree [])) [] 0 GENESIS_MSG)"
    and syn: "\<not> is_primitive C (fold_commit (oid_of C (Tree [])) [] 0 GENESIS_MSG)"
  shows "accepts t x"
proof -
  let ?c = "fold_commit (oid_of C (Tree [])) [] 0 GENESIS_MSG"
  have x: "x = oid_of C (Commit ?c)"
    using run put_ok by (auto simp: genesis_def sbind_Ok_iff) (metis snd_conv sum.inject(2))
  have "check_genesis C x = Ok ()"
    unfolding x by (simp add: check_genesis_def genesis_def sbind_def mem_put_def Let_def)
  with load_commit_mono [OF _ load] syn show ?thesis
    unfolding accepts_def using grows_refl
    by (auto simp: verify_inner.simps [of C ops] reflp_def)
qed

lemma genesis_msg_synthetic: "\<not> is_primitive C (fold_commit t ps u GENESIS_MSG)"
proof -
  have "str_lines GENESIS_MSG = [''csp: genesis'']"
    by (simp add: GENESIS_MSG_def str_lines_def strip_cr_def strip_suffix_def)
  then show ?thesis by (simp add: is_primitive_def parse_primitive_meta_def)
qed

lemma compute_main_Ok_cases:
  assumes "compute_main C ops known s = (t, Ok x)"
  obtains "frontier C (so_get ops s) known = Ok []" and "genesis C ops s = (t, Ok x)"
  | tip where "frontier C (so_get ops s) known = Ok [tip]" and "thin_wrapper ops tip s = (t, Ok x)"
  | acc tk tks where "frontier C (so_get ops s) known = Ok (acc # tk # tks)"
      and "fold_tips C ops acc (tk # tks) s = (t, Ok x)"
proof -
  from assms obtain f where f: "frontier C (so_get ops s) known = Ok f"
    and run: "(case f of [] \<Rightarrow> genesis C ops | [tip] \<Rightarrow> thin_wrapper ops tip
        | acc # y # ys \<Rightarrow> fold_tips C ops acc (y # ys)) s = (t, Ok x)"
    unfolding compute_main_def sbind_Ok_iff by auto
  show thesis
    using f run that by (cases f rule: remdups_adj.cases) auto
qed

lemma tips_primitive:
  assumes "frontier C (so_get ops s) known = Ok f" and "p \<in> set f"
    and "get_le (so_get ops s) (so_get ops t)"
  shows "accepts t p"
proof -
  obtain c where "load_commit (so_get ops s) p = Ok c" "is_primitive C c"
    using frontier_set [OF assms(1)] assms(2) by (auto simp: live_prims_def)
  with load_commit_mono [OF assms(3)] show ?thesis by (blast intro: accepts_primitive)
qed

lemma accepts_compute_main:
  assumes s: "inv s" and run: "compute_main C ops known s = (t, Ok x)"
    and reads: "\<And>c. Commit c \<in> set (fold_writes C ops known s) \<Longrightarrow>
        load_commit (so_get ops t) (oid_of C (Commit c)) = Ok c"
  shows "accepts t x"
proof -
  obtain l where run': "compute_main C (logged ops) known (s, []) = ((t, l), Ok x)"
    using logsD [OF logs_compute_main run] by fastforce
  then have l: "fold_writes C ops known s = l" by (simp add: fold_writes_def)
  have le: "get_le (so_get ops s) (so_get ops t)"
    using keepsD2 [OF keeps_compute_main run] s by (simp add: grows_def)
  from run show ?thesis
  proof (cases rule: compute_main_Ok_cases)
    case 1
    let ?c = "fold_commit (oid_of C (Tree [])) [] 0 GENESIS_MSG"
    have "genesis C (logged ops) (s, []) = ((t, l), Ok x)"
      using run' 1(1) by (simp add: compute_main_def sbind_def)
    then have "Commit ?c \<in> set l"
      by (auto simp: genesis_def sbind_def split: prod.splits sum.splits)
    with reads l have "load_commit (so_get ops t) (oid_of C (Commit ?c)) = Ok ?c" by blast
    moreover have "x = oid_of C (Commit ?c)"
      using 1(2) put_ok by (auto simp: genesis_def sbind_Ok_iff) (metis snd_conv sum.inject(2))
    ultimately show ?thesis
      using accepts_genesis [OF 1(2)] genesis_msg_synthetic by blast
  next
    case (2 tip)
    have "thin_wrapper (logged ops) tip (s, []) = ((t, l), Ok x)"
      using run' 2(1) by (simp add: compute_main_def sbind_def)
    then show ?thesis
      using accepts_thin [OF s 2(2), of l] reads l tips_primitive [OF 2(1) _ le] by auto
  next
    case (3 acc tk tks)
    have "fold_tips C (logged ops) acc (tk # tks) (s, []) = ((t, l), Ok x)"
      using run' 3(1) by (simp add: compute_main_def sbind_def)
    then show ?thesis
      using accepts_fold_tips [OF s, of acc "tk # tks" "[]" t l x] reads l
        tips_primitive [OF 3(1) _ le] by auto
  qed
qed

lemma verify_compute_main:
  assumes "inv s" and "compute_main C ops known s = (t, Ok x)"
    and "\<And>c. Commit c \<in> set (fold_writes C ops known s) \<Longrightarrow>
        load_commit (so_get ops t) (oid_of C (Commit c)) = Ok c"
  shows "snd (verify_fold_commit C ops x t) = Ok ()"
proof -
  have "inv t" using keepsD2 [OF keeps_compute_main assms(2)] assms(1) by (simp add: grows_def)
  from acceptsD [OF accepts_compute_main [OF assms] this get_le_refl, of "[]" "[]"]
  show ?thesis by (auto simp: verify_fold_commit_def)
qed

section \<open>Verification is sound\<close>

lemma keeps_reproduce: "keeps grows (reproduce C ops x c)"
  unfolding reproduce_def
  by (intro grow_rules)
    (auto split: list.splits
      intro!: grow_rules keeps_make_fold_commit keeps_fold_step keeps_thin_wrapper)

lemma keeps_verify_inner:
  "keeps (\<lambda>a b. grows (fst a) (fst b)) (verify_inner C ops path x)"
proof (induction "card (UNIV - set path)" arbitrary: path x rule: less_induct)
  case less
  let ?G = "\<lambda>a b :: 's \<times> oid list. grows (fst a) (fst b)"
  have refl: "reflp ?G" and trans: "transp ?G"
    using grows_refl grows_trans by (auto simp: reflp_def transp_def)
  show ?case
    unfolding keeps_def
  proof
    fix st :: "'s \<times> oid list"
    obtain s seen where st: "st = (s, seen)" by fastforce
    show "grows (fst st) (fst (fst (verify_inner C ops path x st)))"
    proof (cases "x \<in> set seen \<or> x \<in> set path")
      case True
      then show ?thesis
        using grows_refl st by (simp add: verify_inner.simps [of C ops path] reflp_def)
    next
      case False
      then have "UNIV - set (x # path) \<subset> UNIV - set path" by auto
      then have "card (UNIV - set (x # path)) < card (UNIV - set path)"
        by (intro psubset_card_mono) simp_all
      then have "keeps ?G (verify_inner C ops (x # path) p)" for p by (rule less)
      then have loop: "keeps ?G (smapM (\<lambda>p st. verify_inner C ops (x # path) p st) ps)" for ps
        by (intro keeps_smapM refl trans) simp
      have "keeps ?G (on_fst (reproduce C ops x c))" for c
        using keeps_reproduce by (auto simp: keeps_def on_fst_def split: prod.splits) (metis fst_conv)
      then have "keeps ?G (sbind (smapM (\<lambda>p st. verify_inner C ops (x # path) p st) (co_parents c))
                 (\<lambda>_. on_fst (reproduce C ops x c)))" for c
        by (intro keeps_sbind trans loop)
      then have "?G (s, x # seen) (fst (sbind (smapM (\<lambda>p st. verify_inner C ops (x # path) p st)
                 (co_parents c)) (\<lambda>_. on_fst (reproduce C ops x c)) (s, x # seen)))" for c
        unfolding keeps_def by blast
      then show ?thesis
        using False st grows_refl
        by (auto simp: verify_inner.simps [of C ops path] reflp_def split: sum.splits)
    qed
  qed
qed

text \<open>
  Whatever verification accepts is a primitive, the genesis commit, or a commit that the
  fold reproduces bit for bit from its own parents in the store at that time.
\<close>

lemma verify_Ok_cases:
  assumes "snd (verify_fold_commit C ops x s) = Ok ()" and "inv s"
  shows "\<exists>c. load_commit (so_get ops s) x = Ok c \<and>
    (is_primitive C c \<or>
     co_parents c = [] \<and> x = oid_of C (Commit (fold_commit (oid_of C (Tree [])) [] 0 GENESIS_MSG)) \<or>
     (\<exists>t. inv t \<and> get_le (so_get ops s) (so_get ops t) \<and> snd (reproduce C ops x c t) = Ok ()))"
proof -
  obtain st where v: "verify_inner C ops [] x (s, []) = (st, Ok ())"
    using assms(1) by (cases "verify_inner C ops [] x (s, [])") (auto simp: verify_fold_commit_def)
  then obtain c where c: "load_commit (so_get ops s) x = Ok c"
    by (cases "load_commit (so_get ops s) x") (auto simp: verify_inner.simps [of C ops "[]"])
  consider (prim) "is_primitive C c" | (gen) "\<not> is_primitive C c" "co_parents c = []"
    | (fold) "\<not> is_primitive C c" "co_parents c \<noteq> []" by blast
  then show ?thesis
  proof cases
    case prim
    with c show ?thesis by blast
  next
    case gen
    with v c have "check_genesis C x = Ok ()" by (simp add: verify_inner.simps [of C ops "[]"])
    then have "x = oid_of C (Commit (fold_commit (oid_of C (Tree [])) [] 0 GENESIS_MSG))"
      by (simp add: check_genesis_def genesis_def sbind_def mem_put_def Let_def split: if_splits)
    with c gen(2) show ?thesis by blast
  next
    case fold
    let ?loop = "smapM (\<lambda>p st. verify_inner C ops [x] p st) (co_parents c)"
    from v c fold obtain u seen where loop: "?loop (s, [x]) = ((u, seen), Ok ())"
      and rep: "snd (on_fst (reproduce C ops x c) (u, seen)) = Ok ()"
      by (auto simp: verify_inner.simps [of C ops "[]"] sbind_Ok_iff)
    have "keeps (\<lambda>a b. grows (fst a) (fst b)) ?loop"
      using grows_refl grows_trans keeps_verify_inner
      by (intro keeps_smapM) (auto simp: reflp_def transp_def)
    from keepsD2 [OF this loop] have "grows s u" by simp
    then have "inv u" "get_le (so_get ops s) (so_get ops u)" using assms(2) by (simp_all add: grows_def)
    moreover have "snd (reproduce C ops x c u) = Ok ()"
      using rep by (auto simp: on_fst_def split: prod.splits)
    ultimately show ?thesis using c by blast
  qed
qed

end

section \<open>Two stores\<close>

text \<open>
  \<open>L\<close> lists what a run writes. A store agrees with it when nothing else sits under the ids
  of \<open>L\<close>; the log is coherent when no two of its objects share an id.
\<close>

context engine_store
begin

definition agrees :: "'s \<Rightarrow> git_object list \<Rightarrow> bool" where
  "agrees s L \<longleftrightarrow> (\<forall>ob \<in> set L. so_has ops s (oid_of C ob) \<longrightarrow> so_get ops s (oid_of C ob) = reread ob)"

definition coherent :: "git_object list \<Rightarrow> bool" where
  "coherent L \<longleftrightarrow> (\<forall>a \<in> set L. \<forall>b \<in> set L. oid_of C a = oid_of C b \<longrightarrow> reread a = reread b)"

definition paired :: "'s \<Rightarrow> 's \<Rightarrow> git_object list \<Rightarrow> bool" where
  "paired s t L \<longleftrightarrow> inv s \<and> inv t \<and> get_le (so_get ops s) (so_get ops t) \<and> agrees t L"

lemma paired_put:
  assumes "paired s t L" and "coherent L" and "ob \<in> set L"
  shows "paired (fst (so_put ops ob s)) (fst (so_put ops ob t)) L"
proof -
  let ?s = "fst (so_put ops ob s)" and ?t = "fst (so_put ops ob t)"
  have s: "inv s" and t: "inv t" and le: "get_le (so_get ops s) (so_get ops t)" and ag: "agrees t L"
    using assms(1) by (simp_all add: paired_def)
  have new: "so_get ops ?t (oid_of C ob) = reread ob"
    using t ag assms(3) by (cases "so_has ops t (oid_of C ob)") (simp_all add: put_present put_new agrees_def)
  have "get_le (so_get ops ?s) (so_get ops ?t)"
  proof (cases "so_has ops s (oid_of C ob)")
    case True
    then show ?thesis
      using s put_present get_le_trans [OF le put_get_le [OF t]] by simp
  next
    case False
    show ?thesis
      unfolding get_le_def
    proof (intro allI impI)
      fix x b assume b: "so_get ops ?s x = Ok b"
      show "so_get ops ?t x = Ok b"
      proof (cases "x = oid_of C ob")
        case True
        with b False s new show ?thesis by (simp add: put_new)
      next
        case neq: False
        with b s have "so_get ops s x = Ok b" by (simp add: put_get_other)
        from get_leD [OF le this] neq t show ?thesis by (simp add: put_get_other)
      qed
    qed
  qed
  moreover have "agrees ?t L"
    unfolding agrees_def
  proof (intro ballI impI)
    fix b assume b: "b \<in> set L" and has: "so_has ops ?t (oid_of C b)"
    show "so_get ops ?t (oid_of C b) = reread b"
    proof (cases "oid_of C b = oid_of C ob")
      case True
      then have "reread b = reread ob" using assms(2,3) b unfolding coherent_def by blast
      with True new show ?thesis by simp
    next
      case False
      then show ?thesis using has b ag t by (auto simp: has_put put_get_other agrees_def)
    qed
  qed
  ultimately show ?thesis using s t by (simp add: paired_def put_inv)
qed

text \<open>A call whose successful run in one store is repeated in a larger one.\<close>

definition repeats :: "git_object list \<Rightarrow> ('s \<times> git_object list, 'a) seff \<Rightarrow> ('s, 'a) seff \<Rightarrow> bool" where
  "repeats L m' m \<longleftrightarrow>
     (\<forall>s l u l' r t. paired s t L \<longrightarrow> m' (s, l) = ((u, l'), Ok r) \<longrightarrow> set l' \<subseteq> set L \<longrightarrow>
        (\<exists>v. m t = (v, Ok r) \<and> paired u v L))"

lemma repeatsD:
  "repeats L m' m \<Longrightarrow> paired s t L \<Longrightarrow> m' (s, l) = ((u, l'), Ok r) \<Longrightarrow> set l' \<subseteq> set L \<Longrightarrow>
     \<exists>v. m t = (v, Ok r) \<and> paired u v L"
  unfolding repeats_def by blast

lemma repeats_sread:
  "mono_read f \<Longrightarrow> repeats L (sread (\<lambda>s. f (so_get (logged ops) s))) (sread (\<lambda>s. f (so_get ops s)))"
  by (auto simp: repeats_def paired_def dest: mono_readD)

lemma repeats_sret: "repeats L (sret x) (sret x)"
  by (auto simp: repeats_def)

lemma repeats_put: "coherent L \<Longrightarrow> repeats L (so_put (logged ops) ob) (so_put ops ob)"
  unfolding repeats_def
proof (intro allI impI)
  fix s l u l' r t
  assume L: "coherent L" and p: "paired s t L" and sub: "set l' \<subseteq> set L"
    and run: "so_put (logged ops) ob (s, l) = ((u, l'), Ok r)"
  have l': "l' = l @ [ob]" and u: "u = fst (so_put ops ob s)" and r: "r = oid_of C ob"
    using run put_ok [of ob s] by (auto split: prod.splits)
  show "\<exists>v. so_put ops ob t = (v, Ok r) \<and> paired u v L"
    using paired_put [OF p L, of ob] l' sub u r put_eq [of ob t]
    by (intro exI [of _ "fst (so_put ops ob t)"]) simp
qed

lemma repeats_sbind:
  assumes "repeats L m' m" and "\<And>x. repeats L (f' x) (f x)"
    and "\<And>x. logs (f x) (f' x)"
  shows "repeats L (sbind m' f') (sbind m f)"
  unfolding repeats_def
proof (intro allI impI)
  fix s l u l' r t
  assume p: "paired s t L" and run: "sbind m' f' (s, l) = ((u, l'), Ok r)" and sub: "set l' \<subseteq> set L"
  from run obtain u1 l1 x where m: "m' (s, l) = ((u1, l1), Ok x)" and f: "f' x (u1, l1) = ((u, l'), Ok r)"
    by (auto simp: sbind_Ok_iff)
  have "set l1 \<subseteq> set l'" using logsD' [OF assms(3) f] by blast
  with sub have "set l1 \<subseteq> set L" by blast
  from repeatsD [OF assms(1) p m this] obtain v where v: "m t = (v, Ok x)" "paired u1 v L" by blast
  from repeatsD [OF assms(2) v(2) f sub] v(1) show "\<exists>v. sbind m f t = (v, Ok r) \<and> paired u v L"
    by (auto simp: sbind_def)
qed

lemmas repeat_rules = repeats_sbind repeats_put repeats_sret repeats_sread log_intros

lemma repeats_make_fold_commit:
  "coherent L \<Longrightarrow> repeats L (make_fold_commit (logged ops) t ps msg) (make_fold_commit ops t ps msg)"
  unfolding make_fold_commit_def
  by (intro repeats_sbind repeats_sread [of "\<lambda>g. parents_time g ps"] repeats_put mono_reads logs_put)

lemma repeats_put_all: "coherent L \<Longrightarrow> repeats L (put_all (logged ops) obs) (put_all ops obs)"
proof (induction obs)
  case Nil
  then show ?case by (simp add: put_all_def repeats_def)
next
  case (Cons ob obs)
  have "repeats L (sbind (so_put (logged ops) ob) (\<lambda>_. sret ())) (sbind (so_put ops ob) (\<lambda>_. sret ()))"
    by (intro repeats_sbind repeats_put Cons.prems repeats_sret logs_sret)
  with Cons show ?case
    unfolding put_all_def smapM.simps
    by (intro repeats_sbind repeats_put repeats_sret log_intros) auto
qed

lemma repeats_genesis: "coherent L \<Longrightarrow> repeats L (genesis C (logged ops)) (genesis C ops)"
  unfolding genesis_def by (intro repeats_sbind repeats_put logs_put)

lemma repeats_thin_wrapper: "coherent L \<Longrightarrow> repeats L (thin_wrapper (logged ops) tip) (thin_wrapper ops tip)"
  unfolding thin_wrapper_def
  by (intro repeats_sbind repeats_sread [of "\<lambda>g. commit_tree g tip"] repeats_make_fold_commit
      mono_reads logs_make_fold_commit)

lemma repeats_fold_step: "coherent L \<Longrightarrow> repeats L (fold_step C (logged ops) acc tk) (fold_step C ops acc tk)"
  unfolding fold_step_def
  by (intro repeats_sbind repeats_sread [of "\<lambda>g. merged_files C g acc tk"] mono_reads)
    (auto split: prod.splits intro!: repeats_sbind repeats_put_all repeats_make_fold_commit log_intros)

lemma repeats_fold_tips:
  "coherent L \<Longrightarrow> repeats L (fold_tips C (logged ops) acc tks) (fold_tips C ops acc tks)"
proof (induction tks arbitrary: acc)
  case Nil
  then show ?case unfolding fold_tips.simps by (intro repeats_sret)
next
  case (Cons tk tks)
  show ?case
    unfolding fold_tips.simps
    by (intro repeats_sbind repeats_fold_step Cons log_intros)
qed

lemma compute_main_converges:
  assumes "inv s" and "inv t" and le: "get_le (so_get ops s) (so_get ops t)"
    and proven: "\<forall>x \<in> set known. is_ok (is_ghost_add_uncached C (so_get ops s) x)"
    and known: "distinct known" "distinct known'" "set known = set known'"
    and run: "snd (compute_main C ops known s) = Ok m"
    and L: "coherent (fold_writes C ops known s)" "agrees t (fold_writes C ops known s)"
  shows "snd (compute_main C ops known' t) = Ok m"
proof -
  let ?L = "fold_writes C ops known s"
  obtain u where run1: "compute_main C ops known s = (u, Ok m)"
    using run by (cases "compute_main C ops known s") simp
  obtain l where run2: "compute_main C (logged ops) known (s, []) = ((u, l), Ok m)"
    using logsD [OF logs_compute_main run1] by fastforce
  then have l: "set l \<subseteq> set ?L" by (simp add: fold_writes_def)
  have p: "paired s t ?L" using assms by (simp add: paired_def)
  obtain f where f: "frontier C (so_get ops s) known = Ok f"
    using run1 by (auto simp: compute_main_def sbind_Ok_iff)
  have f': "frontier C (so_get ops t) known' = Ok f"
    using frontier_same_set [OF frontier_grows [OF le proven f known(1)] known(3,1,2)] .
  have rep: "repeats ?L
      (case f of [] \<Rightarrow> genesis C (logged ops) | [tip] \<Rightarrow> thin_wrapper (logged ops) tip
         | acc # y # ys \<Rightarrow> fold_tips C (logged ops) acc (y # ys))
      (case f of [] \<Rightarrow> genesis C ops | [tip] \<Rightarrow> thin_wrapper ops tip
         | acc # y # ys \<Rightarrow> fold_tips C ops acc (y # ys))"
    using L(1) by (cases f rule: remdups_adj.cases)
      (simp_all add: repeats_genesis repeats_thin_wrapper repeats_fold_tips del: fold_tips.simps)
  have go: "(case f of [] \<Rightarrow> genesis C (logged ops) | [tip] \<Rightarrow> thin_wrapper (logged ops) tip
         | acc # y # ys \<Rightarrow> fold_tips C (logged ops) acc (y # ys)) (s, []) = ((u, l), Ok m)"
    using run2 f by (simp add: compute_main_def sbind_def)
  obtain v where "(case f of [] \<Rightarrow> genesis C ops | [tip] \<Rightarrow> thin_wrapper ops tip
         | acc # y # ys \<Rightarrow> fold_tips C ops acc (y # ys)) t = (v, Ok m)"
    using repeatsD [OF rep p go l] by blast
  with f' show ?thesis by (simp add: compute_main_def sbind_def)
qed

end

section \<open>The engine over the two stores of the program\<close>

interpretation memE: engine_store C "mem_ops C" Ok bt_wf
  for C
  by unfold_locales
    (auto simp: mem.put_ok mem.put_inv mem.put_present mem.put_new mem.has_put mem.get_has)

interpretation dskE: engine_store C "disk_ops C" "\<lambda>ob. parse_framed C (framed C ob)" "disk_inv C"
  for C
  by unfold_locales
    (auto simp: dsk.put_ok dsk.put_inv dsk.put_present dsk.put_new dsk.has_put dsk.get_has)

end
