(* ===== verification/Demo_Vault.thy ===== *)
theory Demo_Vault
  imports Demo Fold_Facts Identity
begin

text \<open>
  A concrete vault for evaluating the fold: one genesis commit and two concurrent primitives, each of
  which adds one file, in an in-memory store over the demonstration crates.
\<close>

definition demo_prim :: "string \<Rightarrow> u64 \<Rightarrow> oid \<Rightarrow> commit_obj" where
  "demo_prim who n t =
     (case build_primitive demo \<lparr>id_seed = who\<rparr> t (Oid 2) n 100 ''edit'' of Commit c \<Rightarrow> c | _ \<Rightarrow> blank_commit)"

definition demo_file :: "string \<Rightarrow> oid \<Rightarrow> git_object" where
  "demo_file name x = Tree [\<lparr>te_mode = FILE_MODE, te_name = name, te_oid = x\<rparr>]"

definition demo_store :: mem_store where
  "demo_store =
     [(Oid 1, Tree []), (Oid 2, Commit (fold_commit (Oid 1) [] 0 GENESIS_MSG)),
      (Oid 3, Blob ''a''), (Oid 4, demo_file ''f'' (Oid 3)), (Oid 5, Commit (demo_prim ''A'' 1 (Oid 4))),
      (Oid 6, Blob ''b''), (Oid 7, demo_file ''g'' (Oid 6)), (Oid 8, Commit (demo_prim ''B'' 2 (Oid 7)))]"

lemma demo_prim_facts [simp]:
  "parse_primitive_meta demo (demo_prim who n t) = Some (n, id_node demo \<lparr>id_seed = who\<rparr>)"
  "is_primitive demo (demo_prim who n t)"
  "co_parents (demo_prim who n t) = [Oid 2]" "co_tree (demo_prim who n t) = t"
  "co_committer_time (demo_prim who n t) = 100"
proof -
  obtain c where c: "build_primitive_with_readd demo \<lparr>id_seed = who\<rparr> t (Oid 2) n 100 ''edit'' [] = Commit c"
    and time: "co_committer_time c = 100"
    by (simp add: build_primitive_with_readd_def Let_def)
  then have p: "demo_prim who n t = c" by (simp add: demo_prim_def build_primitive_def)
  note b = built_verifies [OF demo_hex_laws demo_b64_laws demo_ed_laws c]
  from b(2) show meta: "parse_primitive_meta demo (demo_prim who n t) = Some (n, id_node demo \<lparr>id_seed = who\<rparr>)"
    by (simp only: p)
  then show "is_primitive demo (demo_prim who n t)" by (simp add: is_primitive_def)
  show "co_parents (demo_prim who n t) = [Oid 2]" "co_tree (demo_prim who n t) = t"
    "co_committer_time (demo_prim who n t) = 100"
    using b(3,4) time by (simp_all only: p)
qed

lemma demo_store_wf [simp]: "bt_wf demo_store"
  by (simp add: bt_wf_def demo_store_def oid_less_word)

lemma demo_get [simp]:
  "mem_get demo demo_store (Oid 1) = Ok (Tree [])"
  "mem_get demo demo_store (Oid 2) = Ok (Commit (fold_commit (Oid 1) [] 0 GENESIS_MSG))"
  "mem_get demo demo_store (Oid 3) = Ok (Blob ''a'')"
  "mem_get demo demo_store (Oid 4) = Ok (demo_file ''f'' (Oid 3))"
  "mem_get demo demo_store (Oid 5) = Ok (Commit (demo_prim ''A'' 1 (Oid 4)))"
  "mem_get demo demo_store (Oid 6) = Ok (Blob ''b'')"
  "mem_get demo demo_store (Oid 7) = Ok (demo_file ''g'' (Oid 6))"
  "mem_get demo demo_store (Oid 8) = Ok (Commit (demo_prim ''B'' 2 (Oid 7)))"
  by (simp_all add: mem_get_def demo_store_def)

lemma demo_genesis_synthetic [simp]: "\<not> is_primitive demo (fold_commit t ps u GENESIS_MSG)"
  by (rule memE.genesis_msg_synthetic)

lemma demo_load [simp]:
  "load_commit (mem_get demo demo_store) (Oid 2) = Ok (fold_commit (Oid 1) [] 0 GENESIS_MSG)"
  "load_commit (mem_get demo demo_store) (Oid 5) = Ok (demo_prim ''A'' 1 (Oid 4))"
  "load_commit (mem_get demo demo_store) (Oid 8) = Ok (demo_prim ''B'' 2 (Oid 7))"
  by (simp_all add: load_commit_def)

lemma demo_ancestors [simp]:
  "ancestors (mem_get demo demo_store) (Oid 2) = Ok []"
  "ancestors (mem_get demo demo_store) (Oid 5) = Ok [Oid 2]"
  "ancestors (mem_get demo demo_store) (Oid 8) = Ok [Oid 2]"
  by (simp_all add: ancestors_def)

lemma demo_added:
  "tree_paths_added [] (mem_get demo demo_store) [] (Some (Oid 1)) (Oid 4) [] = Ok [''f'']"
  "tree_paths_added [] (mem_get demo demo_store) [] (Some (Oid 1)) (Oid 7) [] = Ok [''g'']"
  by (simp_all add: tree_paths_added.simps demo_file_def FILE_MODE_def TREE_MODE_def)

lemma demo_not_ghost [simp]:
  "is_ghost_add_uncached demo (mem_get demo demo_store) (Oid 5) = Ok False"
  "is_ghost_add_uncached demo (mem_get demo demo_store) (Oid 8) = Ok False"
  by (simp_all add: is_ghost_add_uncached_def demo_added most_recent_touch_uncached_def touch_of_def)

lemma demo_not_ghost' [simp]:
  "is_ghost_add_closure_only demo (mem_get demo demo_store) (Oid 5) = Ok False"
  "is_ghost_add_closure_only demo (mem_get demo demo_store) (Oid 8) = Ok False"
  by (simp_all add: is_ghost_add_closure_only_def)

lemma demo_frontier:
  "frontier demo (mem_get demo demo_store) [Oid 5, Oid 8] = Ok [Oid 5, Oid 8]"
  by (simp add: frontier_def order_key_def less_order_key_def less_eq_order_key_def key_less_def key_less_eq_def)

lemma demo_files [simp]:
  "commit_files (mem_get demo demo_store) (Oid 2) = Ok []"
  "commit_files (mem_get demo demo_store) (Oid 5) = Ok [(''f'', ''a'')]"
  "commit_files (mem_get demo demo_store) (Oid 8) = Ok [(''g'', ''b'')]"
  by (simp_all add: commit_files_def commit_tree_def tree_files_def read_tree_to_files_def walk_tree.simps
      demo_file_def FILE_MODE_def TREE_MODE_def)

lemma demo_base: "merge_base (mem_get demo demo_store) (Oid 5) (Oid 8) = Ok (Oid 2)"
  by (simp add: merge_base_def index_def List.insert_def)

lemma demo_merged: "merged_files demo (mem_get demo demo_store) (Oid 5) (Oid 8) = Ok [(''f'', ''a''), (''g'', ''b'')]"
  by (simp add: merged_files_def demo_base merge_trees_def merge_paths_def merge_choice_def)

text \<open>The fold of the two: one binary step, which writes two blobs, a tree and a commit.\<close>

definition demo_merged_tree :: git_object where
  "demo_merged_tree =
     Tree [\<lparr>te_mode = FILE_MODE, te_name = ''f'', te_oid = oid_of demo (Blob ''a'')\<rparr>,
           \<lparr>te_mode = FILE_MODE, te_name = ''g'', te_oid = oid_of demo (Blob ''b'')\<rparr>]"

definition demo_main :: commit_obj where
  "demo_main = fold_commit (oid_of demo demo_merged_tree) [Oid 5, Oid 8] 100 FOLD_MSG"

lemma demo_write_tree:
  "write_tree_from_files demo [(''f'', ''a''), (''g'', ''b'')] =
     ([Blob ''a'', Blob ''b'', demo_merged_tree], oid_of demo demo_merged_tree)"
proof -
  have "tree_subdirs [] [(''f'', ''a''), (''g'', ''b'')] = []"
    and "tree_direct [] [(''f'', ''a''), (''g'', ''b'')] = [(''f'', ''a''), (''g'', ''b'')]"
    by (simp_all add: tree_subdirs_def tree_direct_def bt_collect_def)
  then show ?thesis
    unfolding write_tree_from_files_def by (subst build_tree.simps) (simp add: demo_merged_tree_def Let_def)
qed

abbreviation demo_writes :: "git_object list" where
  "demo_writes \<equiv> [Blob ''a'', Blob ''b'', demo_merged_tree, Commit demo_main]"

lemma demo_oid_small [simp]: "oid_of demo ob \<noteq> Oid 1" "oid_of demo ob \<noteq> Oid 2" "oid_of demo ob \<noteq> Oid 3"
  "oid_of demo ob \<noteq> Oid 4" "oid_of demo ob \<noteq> Oid 5" "oid_of demo ob \<noteq> Oid 6" "oid_of demo ob \<noteq> Oid 7"
  "oid_of demo ob \<noteq> Oid 8"
proof -
  have "98 \<le> demo_low (oid_of demo ob)" unfolding demo_oid_low by (cases ob) simp_all
  moreover have "demo_low (Oid n) < 98" if "unat n < 98" for n
    using that by (simp add: demo_low_def)
  ultimately have "demo_low (Oid n) \<noteq> demo_low (oid_of demo ob)" if "unat n < 98" for n
    using that by fastforce
  from this [of 1] this [of 2] this [of 3] this [of 4] this [of 5] this [of 6] this [of 7] this [of 8]
  show "oid_of demo ob \<noteq> Oid 1" "oid_of demo ob \<noteq> Oid 2" "oid_of demo ob \<noteq> Oid 3"
    "oid_of demo ob \<noteq> Oid 4" "oid_of demo ob \<noteq> Oid 5" "oid_of demo ob \<noteq> Oid 6" "oid_of demo ob \<noteq> Oid 7"
    "oid_of demo ob \<noteq> Oid 8" by auto
qed

lemma demo_kinds: "hd (kind a) \<noteq> hd (kind b) \<Longrightarrow> oid_of demo a \<noteq> oid_of demo b"
  using demo_oid_low [of a] demo_oid_low [of b] by auto

lemma demo_blobs: "oid_of demo (Blob ''a'') \<noteq> oid_of demo (Blob ''b'')"
  by (simp add: oid_of_def framed_def dec.simps demo_digest_def Let_def)

lemma demo_no_collision:
  "\<forall>a \<in> set demo_writes. \<forall>b \<in> set demo_writes. oid_of demo a = oid_of demo b \<longrightarrow> a = b"
proof -
  have kinds: "hd (kind (Blob x)) = CHR ''b''" "hd (kind demo_merged_tree) = CHR ''t''" "hd (kind (Commit c)) = CHR ''c''"
    for x c by (simp_all add: demo_merged_tree_def)
  have "oid_of demo (Blob x) \<noteq> oid_of demo demo_merged_tree" "oid_of demo (Blob x) \<noteq> oid_of demo (Commit c)"
    "oid_of demo demo_merged_tree \<noteq> oid_of demo (Commit c)" for x c
    by (rule demo_kinds, simp only: kinds, simp)+
  note distinct = this this [symmetric] demo_blobs demo_blobs [symmetric]
  show ?thesis by (simp add: distinct)
qed

lemma demo_fresh: "\<not> mem_has demo_store (oid_of demo ob)"
  by (simp add: mem_has_def demo_store_def)

end
