(* ===== verification/Fold_Properties.thy ===== *)
theory Fold_Properties
  imports Demo_Vault
begin

text \<open>
  Properties of the deterministic fold and of the stores it writes to (fold.rs and store.rs of
  crates/csp-core/src).
\<close>

section \<open>Convergence\<close>

text \<open>What the fold of the demonstration vault does, step by step.\<close>

lemma demo_time: "parents_time (mem_get demo demo_store) [Oid 5, Oid 8] = Ok 100"
  by (simp add: parents_time_def)

lemma demo_result: "memE.fold_result demo demo_store (Oid 5) (Oid 8) = Ok demo_main"
  by (simp add: memE.fold_result_def demo_merged demo_time demo_write_tree demo_main_def)

lemma demo_step: "snd (fold_step demo (mem_ops demo) (Oid 5) (Oid 8) demo_store) = Ok (oid_of demo (Commit demo_main))"
  using memE.fold_step_result [of demo_store demo "Oid 5" "Oid 8"] by (simp add: demo_result)

lemma demo_run:
  "snd (compute_main demo (mem_ops demo) [Oid 5, Oid 8] demo_store) = Ok (oid_of demo (Commit demo_main))"
  using demo_step
  by (cases "fold_step demo (mem_ops demo) (Oid 5) (Oid 8) demo_store")
    (simp add: compute_main_def sbind_def demo_frontier sret_def)

lemma logged_put_all:
  "put_all (logged (mem_ops C)) obs (s, l) = ((fst (put_all (mem_ops C) obs s), l @ obs), Ok ())"
proof (induction obs arbitrary: s l)
  case (Cons ob obs)
  then show ?case by (simp add: put_all_def sbind_def mem_put_def Let_def split: prod.splits)
qed (simp add: put_all_def)

lemma demo_fold_writes:
  "fold_writes demo (mem_ops demo) [Oid 5, Oid 8] demo_store = demo_writes"
proof -
  let ?s = "fst (put_all (mem_ops demo) [Blob ''a'', Blob ''b'', demo_merged_tree] demo_store)"
  have "put_all (mem_ops demo) [Blob ''a'', Blob ''b'', demo_merged_tree] demo_store = (?s, Ok ())"
    using memE.put_all_ok [of demo] by (metis prod.collapse)
  from keepsD2 [OF memE.keeps_put_all this]
  have "get_le (mem_get demo demo_store) (mem_get demo ?s)" by (simp add: memE.grows_def)
  from mono_readD [OF mono_parents_time this demo_time]
  have time: "parents_time (mem_get demo ?s) [Oid 5, Oid 8] = Ok 100" .
  show ?thesis
    by (simp add: fold_writes_def compute_main_def sbind_def demo_frontier fold_step_def demo_merged
        demo_write_tree logged_put_all make_fold_commit_def time demo_main_def mem_put_def Let_def)
qed

text \<open>C1. Replicas converge: a replica that holds at least the objects of another, and knows the same
  primitives in whatever order, computes the same main commit, provided the run meets no SHA-1 collision
  and every ghost verdict was decided from a complete history.\<close>
theorem replicas_converge:
  assumes "bt_wf s" and "bt_wf t" and "get_le (mem_get C s) (mem_get C t)"
    and "\<forall>x \<in> set known. is_ok (is_ghost_add_uncached C (mem_get C s) x)"
    and "distinct known" and "distinct known'" and "set known = set known'"
    and "snd (compute_main C (mem_ops C) known s) = Ok m"
    and "\<forall>a \<in> set (fold_writes C (mem_ops C) known s). \<forall>b \<in> set (fold_writes C (mem_ops C) known s).
           oid_of C a = oid_of C b \<longrightarrow> a = b"
    and "\<forall>ob \<in> set (fold_writes C (mem_ops C) known s). mem_has t (oid_of C ob) \<longrightarrow> mem_get C t (oid_of C ob) = Ok ob"
  shows "snd (compute_main C (mem_ops C) known' t) = Ok m"
proof (rule memE.compute_main_converges [where s = s and t = t])
  show "memE.coherent C (fold_writes C (mem_ops C) known s)"
    using assms(9) by (simp add: memE.coherent_def)
  show "memE.agrees C t (fold_writes C (mem_ops C) known s)"
    using assms(10) by (simp add: memE.agrees_def)
qed (use assms in simp_all)

lemma replicas_converge_witness:
  "snd (compute_main demo (mem_ops demo) [Oid 8, Oid 5] demo_store) = Ok (oid_of demo (Commit demo_main))"
  by (rule replicas_converge [where s = demo_store and known = "[Oid 5, Oid 8]"])
    (use demo_no_collision demo_fresh demo_run in \<open>auto simp: demo_fold_writes is_ok_iff\<close>)

text \<open>C4. What a replica computes, a replica verifies: the main commit a fold returns passes the
  verification of received fold commits in the store the fold leaves.\<close>
theorem fold_verifies:
  assumes "bt_wf s" and "compute_main C (mem_ops C) known s = (t, Ok x)"
    and "\<forall>c. Commit c \<in> set (fold_writes C (mem_ops C) known s) \<longrightarrow>
        load_commit (mem_get C t) (oid_of C (Commit c)) = Ok c"
  shows "snd (verify_fold_commit C (mem_ops C) x t) = Ok ()"
  using memE.verify_compute_main [OF assms(1,2)] assms(3) by simp

lemma demo_distinct:
  "oid_of demo (Commit demo_main) \<noteq> oid_of demo (Blob x)" "oid_of demo (Commit demo_main) \<noteq> oid_of demo demo_merged_tree"
  by (rule demo_kinds, simp add: demo_merged_tree_def)+

lemma mem_has_put_all:
  "bt_wf s \<Longrightarrow> mem_has (fst (put_all (mem_ops C) obs s)) x \<longleftrightarrow> x \<in> oid_of C ` set obs \<or> mem_has s x"
proof (induction obs arbitrary: s)
  case (Cons ob obs)
  obtain t where t: "mem_put C ob s = (t, Ok (oid_of C ob))" using mem.put_eq by blast
  then have "bt_wf t" "mem_has t x \<longleftrightarrow> x = oid_of C ob \<or> mem_has s x"
    using mem.put_inv [OF Cons.prems, of C ob] mem.has_put [OF Cons.prems, of C ob x] by simp_all
  with Cons.IH [of t] t show ?case by (auto simp: put_all_def sbind_def sret_def)
qed (simp add: put_all_def)

lemma demo_final:
  obtains t where "compute_main demo (mem_ops demo) [Oid 5, Oid 8] demo_store = (t, Ok (oid_of demo (Commit demo_main)))"
    and "load_commit (mem_get demo t) (oid_of demo (Commit demo_main)) = Ok demo_main"
proof -
  obtain s1 where put: "put_all (mem_ops demo) [Blob ''a'', Blob ''b'', demo_merged_tree] demo_store = (s1, Ok ())"
    using memE.put_all_ok [of demo] by (metis prod.collapse)
  from keepsD2 [OF memE.keeps_put_all put]
  have "get_le (mem_get demo demo_store) (mem_get demo s1)" and wf: "bt_wf s1"
    by (simp_all add: memE.grows_def)
  from mono_readD [OF mono_parents_time this(1) demo_time]
  have time: "parents_time (mem_get demo s1) [Oid 5, Oid 8] = Ok 100" .
  have "\<not> mem_has s1 (oid_of demo (Commit demo_main))"
    using mem_has_put_all [OF demo_store_wf, of demo "[Blob ''a'', Blob ''b'', demo_merged_tree]"] put demo_distinct demo_fresh by auto
  then have "mem_get demo (fst (mem_put demo (Commit demo_main) s1)) (oid_of demo (Commit demo_main)) = Ok (Commit demo_main)"
    using mem.put_new [OF wf] by simp
  moreover have "make_fold_commit (mem_ops demo) (oid_of demo demo_merged_tree) [Oid 5, Oid 8] FOLD_MSG s1 =
      (fst (mem_put demo (Commit demo_main) s1), Ok (oid_of demo (Commit demo_main)))"
    using mem.put_eq [of demo "Commit demo_main" s1]
    by (simp only: make_fold_commit_def sbind_def sread_def mem_ops_sel time demo_main_def) simp
  then have "compute_main demo (mem_ops demo) [Oid 5, Oid 8] demo_store =
      (fst (mem_put demo (Commit demo_main) s1), Ok (oid_of demo (Commit demo_main)))"
    by (simp add: compute_main_def sbind_def demo_frontier fold_step_def demo_merged demo_write_tree put sret_def)
  ultimately show thesis using that by (simp add: load_commit_def)
qed

lemma fold_verifies_witness:
  "\<exists>t. snd (verify_fold_commit demo (mem_ops demo) (oid_of demo (Commit demo_main)) t) = Ok ()"
proof (rule demo_final)
  fix t
  assume run: "compute_main demo (mem_ops demo) [Oid 5, Oid 8] demo_store = (t, Ok (oid_of demo (Commit demo_main)))"
    and load: "load_commit (mem_get demo t) (oid_of demo (Commit demo_main)) = Ok demo_main"
  have "Commit c \<in> set demo_writes \<Longrightarrow> c = demo_main" for c by (auto simp: demo_merged_tree_def)
  with fold_verifies [OF demo_store_wf run] load show ?thesis unfolding demo_fold_writes by blast
qed



section \<open>The frontier\<close>

text \<open>C14. The frontier is the set of known, non-ghost primitives that no other one has among its ancestors,
  in strictly ascending order of the total order on primitives.\<close>
theorem frontier_is_maximal_antichain:
  assumes "frontier C get known = Ok f" and "distinct known"
  shows "set f = {p \<in> live_prims C get known. \<not> (\<exists>q \<in> live_prims C get known. p \<noteq> q \<and> (edge get)\<^sup>+\<^sup>+ q p)}
    \<and> sorted_wrt (key_before C get) f"
  using frontier_set [OF assms(1)] frontier_sorted [OF assms] by (simp add: dominated_def)

lemma frontier_is_maximal_antichain_witness: "sorted_wrt (key_before demo (mem_get demo demo_store)) [Oid 5, Oid 8]"
  using frontier_is_maximal_antichain [OF demo_frontier] by simp

text \<open>The frontier depends only on the set of known primitives, not on the order they arrived in.\<close>
theorem frontier_order_independent:
  assumes "frontier C get known = Ok f" and "set known = set known'" and "distinct known" and "distinct known'"
  shows "frontier C get known' = Ok f"
  by (rule frontier_same_set [OF assms])

lemma frontier_order_independent_witness:
  "frontier demo (mem_get demo demo_store) [Oid 8, Oid 5] = Ok [Oid 5, Oid 8]"
  by (rule frontier_order_independent [OF demo_frontier]) auto

text \<open>No live edit is lost from the fold: every known, non-ghost primitive is on the frontier or an
  ancestor of a primitive that is.\<close>
theorem frontier_reaches_all:
  assumes "frontier C get known = Ok f" and "p \<in> live_prims C get known" and "\<And>x. \<not> (edge get)\<^sup>+\<^sup>+ x x"
  shows "\<exists>q \<in> set f. (edge get)\<^sup>*\<^sup>* q p"
  by (rule frontier_covers [OF assms])

lemma demo_edge: "edge (mem_get demo demo_store) x y \<Longrightarrow> (x = Oid 5 \<or> x = Oid 8) \<and> y = Oid 2"
  by (auto simp: edge_def load_commit_def mem_get_def demo_store_def demo_file_def split: if_splits)

lemma demo_acyclic: "\<not> (edge (mem_get demo demo_store))\<^sup>+\<^sup>+ x x"
proof -
  have "(x = Oid 5 \<or> x = Oid 8) \<and> y = Oid 2" if "(edge (mem_get demo demo_store))\<^sup>+\<^sup>+ x y" for x y
    using that by (induction rule: tranclp_induct) (auto dest: demo_edge)
  from this [of x x] show ?thesis by auto
qed

lemma frontier_reaches_all_witness: "\<exists>q \<in> set [Oid 5, Oid 8]. (edge (mem_get demo demo_store))\<^sup>*\<^sup>* q (Oid 5)"
  by (rule frontier_reaches_all [OF demo_frontier _ demo_acyclic]) (simp add: live_prims_def)

text \<open>The ancestor walk returns each proper ancestor exactly once, in any commit graph, cyclic or not.\<close>
theorem ancestors_complete:
  assumes "ancestors get x = Ok S"
  shows "set S = {y. (edge get)\<^sup>+\<^sup>+ x y} \<and> distinct S"
  using ancestors_Ok [OF assms] by blast

lemma ancestors_complete_witness: "{y. (edge (mem_get demo demo_store))\<^sup>+\<^sup>+ (Oid 5) y} = {Oid 2}"
  using ancestors_complete [OF demo_ancestors(2)] by simp

section \<open>Ghost verdicts and their caches\<close>

text \<open>The per-thread caches are invisible: from valid caches the cached verdict is the uncached one, and
  the caches stay valid.\<close>
theorem cached_ghost_verdict:
  assumes "caches_ok C get k"
  shows "snd (is_ghost_add_cached C get prim k) = is_ghost_add_closure_only C get prim
    \<and> caches_ok C get (fst (is_ghost_add_cached C get prim k))"
  using answers_ghost_add [unfolded answers_def] assms by blast

lemma demo_no_caches: "caches_ok C get \<lparr>touch_cache = \<lambda>_. None, verdict_cache = \<lambda>_. None\<rparr>"
  by (simp add: caches_ok_def)

lemma cached_ghost_verdict_witness:
  "snd (is_ghost_add_cached demo (mem_get demo demo_store) (Oid 5)
     \<lparr>touch_cache = \<lambda>_. None, verdict_cache = \<lambda>_. None\<rparr>) = Ok False"
  using cached_ghost_verdict [OF demo_no_caches, of demo "mem_get demo demo_store" "Oid 5"] by simp

text \<open>Verdicts are stable: once the verdict on a primitive was decided from the objects present, it never
  changes as objects arrive, and caches filled before stay valid after.\<close>
theorem ghost_verdict_stable:
  assumes "get_le g g'"
  shows "(is_ok (is_ghost_add_uncached C g x) \<longrightarrow> is_ghost_add_closure_only C g' x = is_ghost_add_closure_only C g x)
    \<and> (caches_ok C g k \<longrightarrow> caches_ok C g' k)"
  using ghost_add_grows [OF assms] caches_ok_mono [OF _ assms] by blast

lemma ghost_verdict_stable_witness:
  "is_ghost_add_closure_only demo (mem_get demo (fst (mem_put demo (Blob ''new'') demo_store))) (Oid 5) = Ok False"
  using ghost_verdict_stable [OF mem.put_get_le [OF demo_store_wf, of demo "Blob ''new''"], where C = demo and x = "Oid 5"]
  by (simp add: is_ok_iff exI [of _ False])

section \<open>Stores\<close>

text \<open>The fold only adds objects: whatever was readable before is readable, unchanged, after, on the
  in-memory store.\<close>
theorem fold_only_adds:
  assumes "bt_wf s" and "compute_main C (mem_ops C) known s = (t, r)"
  shows "bt_wf t \<and> get_le (mem_get C s) (mem_get C t)"
  using keepsD2 [OF memE.keeps_compute_main assms(2)] assms(1) by (simp add: memE.grows_def)

lemma fold_only_adds_witness:
  "\<exists>t. compute_main demo (mem_ops demo) [Oid 5, Oid 8] demo_store = (t, Ok (oid_of demo (Commit demo_main)))
     \<and> mem_get demo t (Oid 3) = Ok (Blob ''a'')"
proof (rule demo_final)
  fix t
  assume run: "compute_main demo (mem_ops demo) [Oid 5, Oid 8] demo_store = (t, Ok (oid_of demo (Commit demo_main)))"
  from fold_only_adds [OF demo_store_wf run] have "mem_get demo t (Oid 3) = Ok (Blob ''a'')"
    by (auto intro: get_leD)
  with run show ?thesis by blast
qed

text \<open>Writing a loose object is atomic for readers: in every intermediate state of the write, whatever
  object is read, the reader sees the store as it was before or as it is after.\<close>
theorem disk_put_atomic:
  assumes "hex_laws C" and "d' \<in> set (disk_states C ob d)"
  shows "(\<forall>x. disk_get C d' x = disk_get C d x) \<or> (\<forall>x. disk_get C d' x = disk_get C (fst (disk_put C ob d)) x)"
  by (rule disk_states_cases [OF assms])

lemma disk_put_atomic_witness:
  "let d = \<lparr>d_files = \<lambda>_. None, d_dirs = {}\<rparr>; d' = disk_states demo (Blob ''a'') d ! 2 in
   (\<forall>x. disk_get demo d' x = disk_get demo d x) \<or>
   (\<forall>x. disk_get demo d' x = disk_get demo (fst (disk_put demo (Blob ''a'') d)) x)"
  unfolding Let_def
  by (rule disk_put_atomic [OF demo_hex_laws])
    (simp add: disk_states_def disk_put_steps_def disk_has_def Let_def upt_rec)

end
