(* ===== verification/Session.thy ===== *)
theory Session
  imports Identity
begin

text \<open>
  The replication session (\<open>session.rs\<close>) and its messages (\<open>wire.rs\<close>): the protocol state machine
  that consumes decoded messages and emits messages and side effects. The engine it drives is the
  trait \<open>SessionVault\<close>, here a dictionary of operations over a vault state.
\<close>

section \<open>Messages\<close>

definition PROTO_VERSION :: nat where "PROTO_VERSION = 5"

datatype msg =
    Hello (hello_vault_id: string) (hello_name: string) (hello_node_ssh: string) (hello_nonce: bytes)
      (hello_cb: bytes) (hello_proto: nat)
  | AuthProof bytes
  | FrontierDigest "string list"
  | WantTips "string list"
  | Objects "bytes list"
  | ObjectsBatch "bytes list" bool
  | Live "bytes list"
  | Ping
  | Pong

section \<open>The engine behind a session\<close>

record 'v vault_ops =
  vo_vault_id :: "'v \<Rightarrow> string"
  vo_name :: "'v \<Rightarrow> string"
  vo_identity_ssh :: "'v \<Rightarrow> string"
  vo_sign :: "'v \<Rightarrow> bytes \<Rightarrow> bytes"
  vo_frontier_tips :: "'v \<Rightarrow> oid list res"
  vo_known :: "'v \<Rightarrow> oid list res"
  vo_has :: "'v \<Rightarrow> oid \<Rightarrow> bool"
  vo_export_closure :: "'v \<Rightarrow> oid list \<Rightarrow> bytes list res"
  vo_integrate :: "bytes list \<Rightarrow> ('v, nat) seff"
  vo_admit_peer :: "string \<Rightarrow> bool \<Rightarrow> ('v, bool) seff"
  vo_mark_bootstrap_complete :: "'v \<Rightarrow> 'v"

section \<open>Session state\<close>

datatype role = Listener | Connector

datatype phase =
    AwaitHello
  | AwaitAuth (ph_script: bytes) (ph_peer_ssh: string)
  | Established

record session =
  se_role :: role
  se_channel_binding :: bytes
  se_my_nonce :: bytes
  se_phase :: phase
  se_peer_ssh :: "string option"
  se_enrollment_authorized :: bool
  se_pending_batch :: "bytes list"

record step =
  st_out :: "msg list"
  st_relay :: "bytes list"
  st_integrated :: nat

definition no_step :: step where
  "no_step = \<lparr>st_out = [], st_relay = [], st_integrated = 0\<rparr>"

definition AUTH_CTX :: bytes where "AUTH_CTX = ''csp-auth-v1''"

definition transcript :: "bytes \<Rightarrow> bytes \<Rightarrow> bytes \<Rightarrow> bytes" where
  "transcript client_nonce server_nonce channel_binding =
     AUTH_CTX @ client_nonce @ server_nonce @ channel_binding"

definition is_binding_disabled :: "bytes \<Rightarrow> bool" where
  "is_binding_disabled cb = (cb = [] \<or> list_all (\<lambda>b. b = nul) cb)"

definition session_new :: "role \<Rightarrow> bytes \<Rightarrow> bytes \<Rightarrow> session" where
  "session_new r cb nonce =
     \<lparr>se_role = r, se_channel_binding = cb, se_my_nonce = nonce, se_phase = AwaitHello,
      se_peer_ssh = None, se_enrollment_authorized = False, se_pending_batch = []\<rparr>"

definition set_enrollment_authorized :: "bool \<Rightarrow> session \<Rightarrow> session" where
  "set_enrollment_authorized ok s = s\<lparr>se_enrollment_authorized := ok\<rparr>"

definition established :: "session \<Rightarrow> bool" where
  "established s = (se_phase s = Established)"

definition session_start :: "'v vault_ops \<Rightarrow> session \<Rightarrow> 'v \<Rightarrow> msg" where
  "session_start V s v =
     Hello (vo_vault_id V v) (vo_name V v) (vo_identity_ssh V v) (se_my_nonce s)
       (case se_role s of Listener \<Rightarrow> se_channel_binding s | Connector \<Rightarrow> []) PROTO_VERSION"

definition on_relay :: "session \<Rightarrow> bytes list \<Rightarrow> msg list" where
  "on_relay s raws = [Live raws]"

section \<open>Chunked catch-up\<close>

definition CATCHUP_CHUNK_BYTES :: nat where "CATCHUP_CHUNK_BYTES = 256 * 1024"

fun chunk_loop :: "nat \<Rightarrow> bytes list \<Rightarrow> nat \<Rightarrow> bytes list \<Rightarrow> bytes list list" where
  "chunk_loop limit current n [] = (if current \<noteq> [] then [current] else [])"
| "chunk_loop limit current n (r # rs) =
     (if current \<noteq> [] \<and> n + length r > limit then current # chunk_loop limit [r] (length r) rs
      else chunk_loop limit (current @ [r]) (n + length r) rs)"

definition chunk_objects :: "bytes list \<Rightarrow> nat \<Rightarrow> bytes list list" where
  "chunk_objects raws limit = chunk_loop limit [] 0 raws"

text \<open>The frames of a catch-up response; only the last one is marked.\<close>

definition batch_frames :: "bytes list \<Rightarrow> msg list" where
  "batch_frames raws =
     (let chunks = chunk_objects raws CATCHUP_CHUNK_BYTES; n = length chunks
      in if n = 0 then [ObjectsBatch [] True]
         else map (\<lambda>(i, chunk). ObjectsBatch chunk (i + 1 = n)) (enumerate 0 chunks))"

section \<open>The handlers\<close>

text \<open>The session and the vault together are the state of a handler.\<close>

definition on_vault :: "('v, 'a) seff \<Rightarrow> (session \<times> 'v, 'a) seff" where
  "on_vault m st = (case m (snd st) of (v, r) \<Rightarrow> ((fst st, v), r))"

definition put_session :: "(session \<Rightarrow> session) \<Rightarrow> (session \<times> 'v, unit) seff" where
  "put_session f = smodify (\<lambda>(s, v). (f s, v))"

definition fail :: "csp_error \<Rightarrow> ('s, 'a) seff" where
  "fail e = sread (\<lambda>_. Err e)"

definition agreed_binding :: "session \<Rightarrow> bytes \<Rightarrow> bytes res" where
  "agreed_binding s peer_cb =
     (case se_role s of
        Listener \<Rightarrow> Ok (se_channel_binding s)
      | Connector \<Rightarrow>
          if is_binding_disabled peer_cb then Ok peer_cb
          else if se_channel_binding s = [] then Ok peer_cb
          else if se_channel_binding s \<noteq> peer_cb
          then Err (ChannelBinding ''advertised TLS cert fingerprint does not match'')
          else Ok peer_cb)"

definition on_hello :: "'v vault_ops \<Rightarrow> msg \<Rightarrow> (session \<times> 'v, step) seff" where
  "on_hello V m = (\<lambda>(s, v).
     case m of
       Hello peer_vault _ peer_ssh peer_nonce peer_cb peer_proto \<Rightarrow>
         (if peer_proto \<noteq> PROTO_VERSION then fail (Protocol ''protocol version mismatch'')
          else if peer_vault \<noteq> vo_vault_id V v then fail (Protocol ''vault id mismatch'')
          else
            (let (client_nonce, server_nonce) =
               (case se_role s of
                  Connector \<Rightarrow> (se_my_nonce s, peer_nonce)
                | Listener \<Rightarrow> (peer_nonce, se_my_nonce s))
             in sbind (sread (\<lambda>_. agreed_binding s peer_cb)) (\<lambda>binding.
                let script = transcript client_nonce server_nonce binding;
                    sig = vo_sign V v script
                in sbind (put_session (\<lambda>s. s\<lparr>se_phase := AwaitAuth script peer_ssh\<rparr>)) (\<lambda>_.
                   sret (no_step\<lparr>st_out := [AuthProof sig]\<rparr>))))) (s, v)
     | _ \<Rightarrow> fail (Protocol ''expected Hello'') (s, v))"

definition on_auth :: "crates \<Rightarrow> 'v vault_ops \<Rightarrow> bytes \<Rightarrow> string \<Rightarrow> msg \<Rightarrow> (session \<times> 'v, step) seff" where
  "on_auth C V script peer_ssh m = (\<lambda>(s, v).
     case m of
       AuthProof peer_sig \<Rightarrow>
         sbind (sread (\<lambda>_. ok_or (BadSignature ''bad peer ssh key'') (parse_ssh_pubkey C peer_ssh))) (\<lambda>peer_node.
         sbind (sread (\<lambda>_. verify_detached C peer_node script peer_sig)) (\<lambda>_.
         sbind (if se_role s = Listener
                then on_vault (vo_admit_peer V peer_ssh (se_enrollment_authorized s))
                else sret True) (\<lambda>admitted.
         if \<not> admitted then fail (Unauthorized ''peer not authorized'')
         else
           sbind (sread (\<lambda>(_, v). vo_frontier_tips V v)) (\<lambda>tips.
           sbind (put_session (\<lambda>s. s\<lparr>se_peer_ssh := Some peer_ssh, se_phase := Established\<rparr>)) (\<lambda>_.
           sret (no_step\<lparr>st_out := [FrontierDigest (map (to_hex C) tips)]\<rparr>)))))) (s, v)
     | _ \<Rightarrow> fail (Protocol ''expected AuthProof'') (s, v))"

text \<open>The tips of a peer's digest that are missing here, or here but not known.\<close>

definition wanted_tips :: "crates \<Rightarrow> 'v vault_ops \<Rightarrow> 'v \<Rightarrow> oid list \<Rightarrow> string list \<Rightarrow> string list" where
  "wanted_tips C V v known tips =
     filter (\<lambda>hex. case from_hex C hex of
       Inr x \<Rightarrow> \<not> vo_has V v x \<or> x \<notin> set known
     | Inl _ \<Rightarrow> False) tips"

definition parsed_tips :: "crates \<Rightarrow> string list \<Rightarrow> oid list" where
  "parsed_tips C tips =
     concat (map (\<lambda>h. case from_hex C h of Inr x \<Rightarrow> [x] | Inl _ \<Rightarrow> []) tips)"

definition integrate_step :: "'v vault_ops \<Rightarrow> bool \<Rightarrow> bytes list \<Rightarrow> (session \<times> 'v, step) seff" where
  "integrate_step V catch_up raws =
     sbind (on_vault (vo_integrate V raws)) (\<lambda>admitted.
     sbind (if catch_up then smodify (\<lambda>(s, v). (s, vo_mark_bootstrap_complete V v)) else sret ()) (\<lambda>_.
     sret (no_step\<lparr>st_integrated := admitted, st_relay := (if admitted > 0 then raws else [])\<rparr>)))"

fun on_established :: "crates \<Rightarrow> 'v vault_ops \<Rightarrow> msg \<Rightarrow> (session \<times> 'v, step) seff" where
  "on_established C V (FrontierDigest tips) =
     sbind (sread (\<lambda>(_, v). vo_known V v)) (\<lambda>known. \<lambda>(s, v).
       (let want = wanted_tips C V v known tips
        in sret (no_step\<lparr>st_out := (if want \<noteq> [] then [WantTips want] else [])\<rparr>)) (s, v))"
| "on_established C V (WantTips tips) =
     sbind (sread (\<lambda>(_, v). vo_export_closure V v (parsed_tips C tips))) (\<lambda>raws.
       sret (no_step\<lparr>st_out := batch_frames raws\<rparr>))"
| "on_established C V (Objects raws) = integrate_step V True raws"
| "on_established C V (Live raws) = integrate_step V False raws"
| "on_established C V (ObjectsBatch raws is_last) =
     sbind (put_session (\<lambda>s. s\<lparr>se_pending_batch := se_pending_batch s @ raws\<rparr>)) (\<lambda>_.
       if is_last
       then
         (\<lambda>(s, v).
           sbind (put_session (\<lambda>s. s\<lparr>se_pending_batch := []\<rparr>)) (\<lambda>_.
             integrate_step V True (se_pending_batch s)) (s, v))
       else sret no_step)"
| "on_established C V Ping = sret (no_step\<lparr>st_out := [Pong]\<rparr>)"
| "on_established C V Pong = sret no_step"
| "on_established C V (Hello a b c d e f) = fail (Protocol ''unexpected handshake msg mid-session'')"
| "on_established C V (AuthProof sig) = fail (Protocol ''unexpected handshake msg mid-session'')"

definition on_msg :: "crates \<Rightarrow> 'v vault_ops \<Rightarrow> msg \<Rightarrow> (session \<times> 'v, step) seff" where
  "on_msg C V m = (\<lambda>(s, v).
     case se_phase s of
       AwaitHello \<Rightarrow> on_hello V m (s, v)
     | AwaitAuth script peer_ssh \<Rightarrow> on_auth C V script peer_ssh m (s, v)
     | Established \<Rightarrow> on_established C V m (s, v))"

end
