(* ===== verification/Session_Facts.thy ===== *)
theory Session_Facts
  imports Session
begin

text \<open>
  Facts about the session: chunking of a catch-up response and its delivery as one batch, the shape of every
  step, the authentication invariant over all runs, and the contract under which no session step loses a
  known primitive.
\<close>

section \<open>Chunking\<close>

lemma concat_chunk_loop: "concat (chunk_loop limit current n rs) = current @ rs"
  by (induction limit current n rs rule: chunk_loop.induct) auto

lemma chunk_loop_sizes:
  assumes "n = sum_list (map length current)" and "n \<le> limit \<or> length current = 1 \<or> current = []"
    and "chunk \<in> set (chunk_loop limit current n rs)"
  shows "chunk \<noteq> [] \<and> (sum_list (map length chunk) \<le> limit \<or> length chunk = 1)"
  using assms
proof (induction limit current n rs rule: chunk_loop.induct)
  case (1 limit current n)
  then show ?case by (auto split: if_splits)
next
  case (2 limit current n r rs)
  show ?case
  proof (cases "current \<noteq> [] \<and> n + length r > limit")
    case True
    with 2(5) have "chunk = current \<or> chunk \<in> set (chunk_loop limit [r] (length r) rs)" by simp
    then show ?thesis
    proof
      assume "chunk = current"
      with True 2(3,4) show ?thesis by simp
    next
      assume "chunk \<in> set (chunk_loop limit [r] (length r) rs)"
      with 2(1) [OF True] show ?thesis by simp
    qed
  next
    case False
    have "n + length r \<le> limit \<or> length (current @ [r]) = 1 \<or> current @ [r] = []"
      using False by (cases "current = []") simp_all
    moreover from 2(5) have "chunk \<in> set (chunk_loop limit (current @ [r]) (n + length r) rs)"
      unfolding chunk_loop.simps(2) if_not_P [OF False] .
    moreover have "n + length r = sum_list (map length (current @ [r]))" using 2(3) by simp
    ultimately show ?thesis using 2(2) [OF False] by blast
  qed
qed

lemma chunk_objects_facts:
  "concat (chunk_objects raws limit) = raws"
  "chunk \<in> set (chunk_objects raws limit) \<Longrightarrow>
     chunk \<noteq> [] \<and> (sum_list (map length chunk) \<le> limit \<or> length chunk = 1)"
  using concat_chunk_loop [of limit "[]" 0 raws] chunk_loop_sizes [of 0 "[]" limit chunk raws]
  by (simp_all add: chunk_objects_def)

text \<open>The frames as a list of unmarked ones and a marked last one.\<close>

lemma batch_frames_split:
  obtains cs c where "batch_frames raws = map (\<lambda>c. ObjectsBatch c False) cs @ [ObjectsBatch c True]"
    and "concat cs @ c = raws"
proof (cases "chunk_objects raws CATCHUP_CHUNK_BYTES" rule: rev_cases)
  case Nil
  then have "raws = []" using chunk_objects_facts(1) [of raws CATCHUP_CHUNK_BYTES] by simp
  with Nil that [of "[]" "[]"] show thesis by (simp add: batch_frames_def)
next
  case (snoc cs c)
  have "map (\<lambda>(i, chunk). ObjectsBatch chunk (i + 1 = Suc (length cs))) (enumerate k ds) =
      map (\<lambda>c. ObjectsBatch c False) ds" if "k + length ds \<le> length cs" for k ds
    using that by (induction ds arbitrary: k) auto
  from this [of 0 cs] have "batch_frames raws = map (\<lambda>c. ObjectsBatch c False) cs @ [ObjectsBatch c True]"
    using snoc by (simp add: batch_frames_def enumerate_append_eq)
  moreover have "concat cs @ c = raws"
    using chunk_objects_facts(1) [of raws CATCHUP_CHUNK_BYTES] snoc by simp
  ultimately show thesis using that by blast
qed

section \<open>Delivering a batch\<close>

fun feed :: "crates \<Rightarrow> 'v vault_ops \<Rightarrow> msg list \<Rightarrow> (session \<times> 'v, step list) seff" where
  "feed C V [] = sret []"
| "feed C V (m # ms) = sbind (on_msg C V m) (\<lambda>x. sbind (feed C V ms) (\<lambda>xs. sret (x # xs)))"

lemma feed_append:
  "feed C V (ms @ ns) = sbind (feed C V ms) (\<lambda>xs. sbind (feed C V ns) (\<lambda>ys. sret (xs @ ys)))"
proof (induction ms)
  case Nil
  show ?case by (rule ext) (simp add: sbind_def split: prod.splits sum.splits)
next
  case (Cons m ms)
  show ?case by (rule ext) (simp add: Cons sbind_def split: prod.splits sum.splits)
qed

lemma feed_unmarked:
  "se_phase s = Established \<Longrightarrow>
     feed C V (map (\<lambda>c. ObjectsBatch c False) cs) (s, v) =
       ((s\<lparr>se_pending_batch := se_pending_batch s @ concat cs\<rparr>, v), Ok (map (\<lambda>_. no_step) cs))"
  by (induction cs arbitrary: s) (simp_all add: on_msg_def sbind_def put_session_def)

lemma feed_batch:
  assumes "se_phase s = Established" and "se_pending_batch s = []"
  shows "feed C V (batch_frames raws) (s, v) =
    (case vo_integrate V raws v of
       (v', Inl e) \<Rightarrow> ((s, v'), Err e)
     | (v', Inr n) \<Rightarrow>
         ((s, vo_mark_bootstrap_complete V v'),
          Ok (replicate (length (batch_frames raws) - 1) no_step @
              [no_step\<lparr>st_integrated := n, st_relay := (if n > 0 then raws else [])\<rparr>])))"
proof (rule batch_frames_split [of raws])
  fix cs c
  assume frames: "batch_frames raws = map (\<lambda>c. ObjectsBatch c False) cs @ [ObjectsBatch c True]"
    and raws: "concat cs @ c = raws"
  show ?thesis
    unfolding frames feed_append sbind_def [of "feed C V (map (\<lambda>c. ObjectsBatch c False) cs)"]
    using assms raws feed_unmarked [OF assms(1), of C V cs v]
    by (simp add: on_msg_def sbind_def put_session_def integrate_step_def on_vault_def map_replicate_const
        split: prod.splits sum.splits)
qed

section \<open>Authentication\<close>

text \<open>The runs of one session: messages arrive, and between two messages the vault may change by local
  edits and other sessions.\<close>

inductive reaches :: "crates \<Rightarrow> 'v vault_ops \<Rightarrow> session \<times> 'v \<Rightarrow> msg list \<Rightarrow> session \<times> 'v \<Rightarrow> bool"
  for C V st where
  init: "reaches C V st [] st"
| message: "reaches C V st ms st' \<Longrightarrow> on_msg C V m st' = (st'', r) \<Longrightarrow> reaches C V st (ms @ [m]) st''"
| elsewhere: "reaches C V st ms (s, v) \<Longrightarrow> reaches C V st ms (s, v')"

text \<open>What the signed transcript of a session is: both nonces in the order of the roles, and the binding.\<close>

definition signed_script :: "session \<Rightarrow> bytes \<Rightarrow> bytes \<Rightarrow> bytes" where
  "signed_script s peer_nonce binding =
     (case se_role s of
        Connector \<Rightarrow> transcript (se_my_nonce s) peer_nonce binding
      | Listener \<Rightarrow> transcript peer_nonce (se_my_nonce s) binding)"

lemma on_hello_cases:
  assumes "on_hello V m (s, v) = ((s', v'), r)"
  shows "v' = v \<and> (s' = s \<and> (\<exists>e. r = Err e) \<or>
    (\<exists>vid name peer nonce cb binding. m = Hello vid name peer nonce cb PROTO_VERSION \<and> vid = vo_vault_id V v
       \<and> agreed_binding s cb = Ok binding
       \<and> s' = s\<lparr>se_phase := AwaitAuth (signed_script s nonce binding) peer\<rparr>
       \<and> r = Ok (no_step\<lparr>st_out := [AuthProof (vo_sign V v (signed_script s nonce binding))]\<rparr>)))"
proof (cases m)
  case (Hello vid name peer nonce cb proto)
  show ?thesis
  proof (cases "agreed_binding s cb")
    case (Inl e)
    with assms Hello show ?thesis
      by (auto simp: on_hello_def fail_def sbind_def split: if_splits role.splits)
  next
    case (Inr binding)
    with assms Hello show ?thesis
      by (cases "se_role s")
        (auto simp: on_hello_def fail_def sbind_def put_session_def signed_script_def Let_def split: if_splits)
  qed
qed (use assms in \<open>auto simp: on_hello_def fail_def\<close>)

lemma on_auth_cases:
  assumes "on_auth C V script peer m (s, v) = ((s', v'), r)"
  shows "s' = s \<and> (\<exists>e. r = Err e)
      \<and> (v' = v \<or> (\<exists>sig node. m = AuthProof sig \<and> parse_ssh_pubkey C peer = Some node
            \<and> verify_detached C node script sig = Ok ()))
    \<or> (\<exists>sig node tips. m = AuthProof sig \<and> parse_ssh_pubkey C peer = Some node
       \<and> verify_detached C node script sig = Ok ()
       \<and> (se_role s = Listener \<longrightarrow> vo_admit_peer V peer (se_enrollment_authorized s) v = (v', Ok True))
       \<and> (se_role s = Connector \<longrightarrow> v' = v)
       \<and> vo_frontier_tips V v' = Ok tips
       \<and> s' = s\<lparr>se_peer_ssh := Some peer, se_phase := Established\<rparr>
       \<and> r = Ok (no_step\<lparr>st_out := [FrontierDigest (map (to_hex C) tips)]\<rparr>))"
proof (cases m)
  case (AuthProof sig)
  show ?thesis
  proof (cases "parse_ssh_pubkey C peer")
    case None
    with assms AuthProof show ?thesis by (auto simp: on_auth_def sbind_def ok_or.simps)
  next
    case (Some node)
    show ?thesis
    proof (cases "verify_detached C node script sig")
      case (Inl e)
      with Some assms AuthProof show ?thesis by (auto simp: on_auth_def sbind_def ok_or.simps)
    next
      case (Inr u)
      with Some assms AuthProof show ?thesis
        by (cases "se_role s")
          (auto simp: on_auth_def sbind_def ok_or.simps fail_def on_vault_def put_session_def
            split: if_splits prod.splits sum.splits)
    qed
  qed
qed (use assms in \<open>auto simp: on_auth_def fail_def\<close>)

text \<open>The invariant of a session that started with its own \<open>Hello\<close> sent: what has been received so far.\<close>

definition hello_seen :: "session \<Rightarrow> msg list \<Rightarrow> bytes \<Rightarrow> string \<Rightarrow> bool" where
  "hello_seen s ms script peer \<longleftrightarrow>
     (\<exists>vid name nonce cb binding. Hello vid name peer nonce cb PROTO_VERSION \<in> set ms
        \<and> agreed_binding s cb = Ok binding \<and> script = signed_script s nonce binding)"

definition proved_by :: "crates \<Rightarrow> session \<Rightarrow> msg list \<Rightarrow> string \<Rightarrow> bool" where
  "proved_by C s ms peer \<longleftrightarrow>
     (\<exists>script sig node. hello_seen s ms script peer \<and> AuthProof sig \<in> set ms
        \<and> parse_ssh_pubkey C peer = Some node \<and> verify_detached C node script sig = Ok ())"

definition auth_inv :: "crates \<Rightarrow> session \<Rightarrow> msg list \<Rightarrow> session \<Rightarrow> bool" where
  "auth_inv C s0 ms s \<longleftrightarrow>
     se_role s = se_role s0 \<and> se_my_nonce s = se_my_nonce s0 \<and> se_channel_binding s = se_channel_binding s0
     \<and> (case se_phase s of
          AwaitHello \<Rightarrow> True
        | AwaitAuth script peer \<Rightarrow> hello_seen s0 ms script peer
        | Established \<Rightarrow> \<exists>peer. se_peer_ssh s = Some peer \<and> proved_by C s0 ms peer)"

lemma signed_script_cong:
  "se_role s = se_role s0 \<Longrightarrow> se_my_nonce s = se_my_nonce s0 \<Longrightarrow> signed_script s n b = signed_script s0 n b"
  by (cases "se_role s0") (simp_all add: signed_script_def)

lemma agreed_binding_cong:
  "se_role s = se_role s0 \<Longrightarrow> se_channel_binding s = se_channel_binding s0 \<Longrightarrow>
     agreed_binding s cb = agreed_binding s0 cb"
  by (cases "se_role s0") (simp_all add: agreed_binding_def)

lemma hello_seen_mono: "hello_seen s0 ms script peer \<Longrightarrow> hello_seen s0 (ms @ [m]) script peer"
  by (fastforce simp: hello_seen_def)

lemma proved_by_mono: "proved_by C s0 ms peer \<Longrightarrow> proved_by C s0 (ms @ [m]) peer"
  unfolding proved_by_def using hello_seen_mono by fastforce

text \<open>Once established, a session keeps its phase and its peer.\<close>

definition same_peer :: "session \<times> 'v \<Rightarrow> session \<times> 'v \<Rightarrow> bool" where
  "same_peer st st' \<longleftrightarrow>
     (\<exists>batch. fst st' = (fst st)\<lparr>se_pending_batch := batch\<rparr>)"

lemma same_peer_refl: "reflp same_peer"
  unfolding reflp_def same_peer_def by (metis session.surjective session.update_convs(7))

lemma same_peer_trans: "transp same_peer"
  by (auto simp: transp_def same_peer_def)

lemma same_peer_vault: "same_peer (s, v) (s, v')"
  using same_peer_refl by (auto simp: same_peer_def reflp_def)

lemmas peer_rules = keeps_sbind keeps_sret keeps_sread same_peer_refl same_peer_trans

lemma peer_on_vault: "keeps same_peer (on_vault m)"
  by (simp add: keeps_def on_vault_def same_peer_vault split: prod.splits)

lemma peer_integrate_step: "keeps same_peer (integrate_step V catch_up raws)"
  unfolding integrate_step_def
  by (intro peer_rules peer_on_vault) (auto simp: keeps_def same_peer_vault)

lemma peer_batch: "keeps same_peer (put_session (\<lambda>s. s\<lparr>se_pending_batch := f s\<rparr>))"
  by (auto simp: keeps_def put_session_def same_peer_def)

lemma peer_on_established: "keeps same_peer (on_established C V m)"
proof (cases m)
  case (ObjectsBatch raws is_last)
  have "keeps same_peer (\<lambda>(s, v). sbind (put_session (\<lambda>s. s\<lparr>se_pending_batch := []\<rparr>)) (\<lambda>_.
             integrate_step V True (se_pending_batch s)) (s, v))"
    unfolding keeps_def
  proof
    fix st :: "session \<times> 'a"
    have "keeps same_peer (sbind (put_session (\<lambda>s. s\<lparr>se_pending_batch := []\<rparr>))
        (\<lambda>_. integrate_step V True (se_pending_batch (fst st))))"
      by (intro peer_rules peer_batch [of "\<lambda>_. []"] peer_integrate_step)
    from keepsD [OF this, of st] show "same_peer st (fst ((\<lambda>(s, v). sbind (put_session (\<lambda>s. s\<lparr>se_pending_batch := []\<rparr>))
        (\<lambda>_. integrate_step V True (se_pending_batch s)) (s, v)) st))"
      by (cases st) simp
  qed
  with ObjectsBatch show ?thesis
    by (auto intro!: peer_rules peer_batch)
next
  case (FrontierDigest tips)
  have "keeps same_peer (\<lambda>(s, v). (let want = wanted_tips C V v known tips
        in sret (no_step\<lparr>st_out := (if want \<noteq> [] then [WantTips want] else [])\<rparr>)) (s, v))" for known
    using same_peer_refl by (auto simp: keeps_def reflp_def Let_def)
  with FrontierDigest show ?thesis by (auto intro!: peer_rules)
qed (auto simp: fail_def intro!: peer_rules peer_integrate_step)

lemma auth_inv_step:
  assumes inv: "auth_inv C s0 ms s" and run: "on_msg C V m (s, v) = ((s', v'), r)"
  shows "auth_inv C s0 (ms @ [m]) s'"
proof (cases "se_phase s")
  case AwaitHello
  with run have hello: "on_hello V m (s, v) = ((s', v'), r)" by (simp add: on_msg_def)
  show ?thesis
  proof (cases "s' = s")
    case True
    with inv AwaitHello show ?thesis by (simp add: auth_inv_def)
  next
    case False
    then obtain vid name peer nonce cb binding where m: "m = Hello vid name peer nonce cb PROTO_VERSION"
      and b: "agreed_binding s cb = Ok binding"
      and s': "s' = s\<lparr>se_phase := AwaitAuth (signed_script s nonce binding) peer\<rparr>"
      using on_hello_cases [OF hello] by blast
    have "hello_seen s0 (ms @ [m]) (signed_script s nonce binding) peer"
      using inv b m signed_script_cong [of s s0] agreed_binding_cong [of s s0]
      by (fastforce simp: hello_seen_def auth_inv_def)
    with inv s' show ?thesis by (simp add: auth_inv_def)
  qed
next
  case (AwaitAuth script peer)
  with run have auth: "on_auth C V script peer m (s, v) = ((s', v'), r)" by (simp add: on_msg_def)
  have seen: "hello_seen s0 ms script peer" using inv AwaitAuth by (simp add: auth_inv_def)
  from on_auth_cases [OF auth] show ?thesis
  proof (elim disjE)
    assume "s' = s \<and> (\<exists>e. r = Err e) \<and> (v' = v \<or> (\<exists>sig node. m = AuthProof sig \<and> parse_ssh_pubkey C peer = Some node
        \<and> verify_detached C node script sig = Ok ()))"
    with inv AwaitAuth hello_seen_mono [OF seen, of m] show ?thesis by (simp add: auth_inv_def)
  next
    assume "\<exists>sig node tips. m = AuthProof sig \<and> parse_ssh_pubkey C peer = Some node
       \<and> verify_detached C node script sig = Ok ()
       \<and> (se_role s = Listener \<longrightarrow> vo_admit_peer V peer (se_enrollment_authorized s) v = (v', Ok True))
       \<and> (se_role s = Connector \<longrightarrow> v' = v)
       \<and> vo_frontier_tips V v' = Ok tips
       \<and> s' = s\<lparr>se_peer_ssh := Some peer, se_phase := Established\<rparr>
       \<and> r = Ok (no_step\<lparr>st_out := [FrontierDigest (map (to_hex C) tips)]\<rparr>)"
    then obtain sig node where p: "m = AuthProof sig" "parse_ssh_pubkey C peer = Some node"
      "verify_detached C node script sig = Ok ()" and s': "s' = s\<lparr>se_peer_ssh := Some peer, se_phase := Established\<rparr>"
      by blast
    have "proved_by C s0 (ms @ [m]) peer"
      unfolding proved_by_def using p hello_seen_mono [OF seen, of m] by auto
    with inv s' show ?thesis by (simp add: auth_inv_def)
  qed
next
  case Established
  with run have "on_established C V m (s, v) = ((s', v'), r)" by (simp add: on_msg_def)
  with keepsD2 [OF peer_on_established this] obtain batch where "s' = s\<lparr>se_pending_batch := batch\<rparr>"
    by (auto simp: same_peer_def)
  with inv Established proved_by_mono show ?thesis by (auto simp: auth_inv_def)
qed

lemma reaches_auth_inv:
  assumes "reaches C V (s0, v0) ms st" and "se_phase s0 = AwaitHello"
  shows "auth_inv C s0 ms (fst st)"
  using assms(1)
proof (induction rule: reaches.induct)
  case init
  with assms(2) show ?case by (simp add: auth_inv_def)
next
  case (message ms st' m st'' r)
  obtain s v s' v' where "st' = (s, v)" "st'' = (s', v')" by fastforce
  with message auth_inv_step [of C s0 ms s V m v s' v' r] show ?case by simp
next
  case (elsewhere ms s v v')
  then show ?case by simp
qed

section \<open>What every step keeps of the vault\<close>

text \<open>
  The contract a session relies on: a relation between the vault before and after that the three calls a
  session can make to change it respect. No message of a peer then leads out of it.
\<close>

locale session_vault =
  fixes V :: "'v vault_ops" and le :: "'v \<Rightarrow> 'v \<Rightarrow> bool"
  assumes le_refl: "reflp le" and le_trans: "transp le"
    and keeps_vault_integrate: "keeps le (vo_integrate V raws)"
    and keeps_vault_admit: "keeps le (vo_admit_peer V peer flag)"
    and keeps_vault_mark: "le v (vo_mark_bootstrap_complete V v)"
begin

definition le_snd :: "session \<times> 'v \<Rightarrow> session \<times> 'v \<Rightarrow> bool" where
  "le_snd st st' \<longleftrightarrow> le (snd st) (snd st')"

lemma le_snd_refl: "reflp le_snd"
  using le_refl by (simp add: reflp_def le_snd_def)

lemma le_snd_trans: "transp le_snd"
  using le_trans unfolding transp_def le_snd_def by blast

lemmas le_rules = keeps_sbind [OF le_snd_trans] keeps_sret [OF le_snd_refl] keeps_sread [OF le_snd_refl]

lemma keeps_on_vault: "keeps le m \<Longrightarrow> keeps le_snd (on_vault m)"
  unfolding keeps_def le_snd_def on_vault_def by (simp split: prod.splits) (metis fst_conv)

lemma keeps_put_session: "keeps le_snd (put_session f)"
  using le_refl by (simp add: keeps_def le_snd_def put_session_def reflp_def split: prod.splits)

lemma keeps_state_pair: "(\<And>s. keeps R (m s)) \<Longrightarrow> keeps R (\<lambda>(s, v). m s (s, v))"
  by (simp add: keeps_def)

lemma keeps_integrate_step: "keeps le_snd (integrate_step V catch_up raws)"
  unfolding integrate_step_def
  using keeps_vault_mark
  by (intro le_rules keeps_on_vault keeps_vault_integrate)
    (auto simp: le_rules keeps_def le_snd_def intro: reflpD [OF le_refl])

lemma keeps_on_established: "keeps le_snd (on_established C V m)"
proof (cases m)
  case (FrontierDigest tips)
  have "keeps le_snd (\<lambda>(s, v). (let want = wanted_tips C V v known tips
        in sret (no_step\<lparr>st_out := (if want \<noteq> [] then [WantTips want] else [])\<rparr>)) (s, v))" for known
    using le_snd_refl by (simp add: keeps_def Let_def reflp_def)
  with FrontierDigest show ?thesis by (auto intro!: le_rules)
next
  case (ObjectsBatch raws is_last)
  have "keeps le_snd (\<lambda>(s, v). sbind (put_session (\<lambda>s. s\<lparr>se_pending_batch := []\<rparr>)) (\<lambda>_.
             integrate_step V True (se_pending_batch s)) (s, v))"
    by (intro keeps_state_pair le_rules keeps_put_session keeps_integrate_step)
  with ObjectsBatch show ?thesis by (auto intro!: le_rules keeps_put_session)
qed (auto simp: fail_def intro!: le_rules keeps_integrate_step)

lemma on_msg_le:
  assumes "on_msg C V m (s, v) = ((s', v'), r)"
  shows "le v v'"
proof (cases "se_phase s")
  case AwaitHello
  with assms on_hello_cases [of V m s v s' v' r] le_refl show ?thesis by (auto simp: on_msg_def reflp_def)
next
  case (AwaitAuth script peer)
  have "keeps le_snd (on_auth C V script peer m)"
  proof (cases "\<exists>sig. m = AuthProof sig")
    case True
    then show ?thesis
      unfolding on_auth_def
      by (intro keeps_state_pair)
        (auto simp: fail_def intro!: le_rules keeps_put_session keeps_on_vault keeps_vault_admit)
  next
    case False
    then have "on_auth C V script peer m = fail (Protocol ''expected AuthProof'')"
      unfolding on_auth_def by (intro ext, cases m) (auto simp: fail_def)
    then show ?thesis by (simp only: fail_def le_rules)
  qed
  from keepsD2 [OF this, of "(s, v)"] assms AwaitAuth show ?thesis by (simp add: on_msg_def le_snd_def)
next
  case Established
  with assms keepsD2 [OF keeps_on_established, of C m "(s, v)"] show ?thesis by (simp add: on_msg_def le_snd_def)
qed

lemma feed_le: "feed C V ms (s, v) = ((s', v'), r) \<Longrightarrow> le v v'"
proof (induction ms arbitrary: s v r)
  case Nil
  then show ?case using le_refl by (simp add: reflp_def)
next
  case (Cons m ms)
  obtain s1 v1 q where step: "on_msg C V m (s, v) = ((s1, v1), q)" by (metis prod.exhaust)
  then have first: "le v v1" by (rule on_msg_le)
  show ?case
  proof (cases q)
    case (Inl e)
    with Cons.prems step first show ?thesis by (simp add: sbind_def)
  next
    case (Inr x)
    obtain w where "feed C V ms (s1, v1) = ((s', v'), w)"
      using Cons.prems step Inr by (cases "feed C V ms (s1, v1)") (auto simp: sbind_def split: sum.splits)
    with Cons.IH first le_trans show ?thesis unfolding transp_def by blast
  qed
qed

end

end
