(* ===== verification/Engine.thy ===== *)
theory Engine
  imports Session Scope State Authkeys Config
begin

text \<open>
  The in-memory engine (\<open>engine.rs\<close>): staged working files, the commit of a change as a signed
  primitive with the ghost-add guard, the integration of received objects, the no-clobber materialize
  plan, admission of peers, snapshots and restores. The clock is an argument. The codecs of serde (the
  MessagePack frame and the JSON of the state) are not in the repository: a saved engine is the record
  the codec is applied to.
\<close>

section \<open>Names and hashes\<close>

definition blob_hash :: "crates \<Rightarrow> bytes \<Rightarrow> string" where
  "blob_hash C content = to_hex C (oid_of C (Blob content))"

definition CONTEXT_ORPHANS_DIR :: string where "CONTEXT_ORPHANS_DIR = ''.context/orphans''"

text \<open>The engine's own copy of the calendar conversion.\<close>

definition engine_civil_from_days :: "int \<Rightarrow> int \<times> int \<times> int" where
  "engine_civil_from_days z =
     (let z = z + 719468;
          era = tdiv (if z \<ge> 0 then z else z - 146096) 146097;
          doe = z - era * 146097;
          yoe = (doe - doe div 1460 + doe div 36524 - doe div 146096) div 365;
          y = yoe + era * 400;
          doy = doe - (365 * yoe + yoe div 4 - yoe div 100);
          mp = (5 * doy + 2) div 153;
          d = doy - (153 * mp + 2) div 5 + 1;
          m = (if mp < 10 then mp + 3 else mp - 9);
          y = (if m \<le> 2 then y + 1 else y)
      in (y, m, d))"

definition orphans_bucket :: "u64 \<Rightarrow> string" where
  "orphans_bucket t =
     (let days = unat t div 86400;
          secs = unat t mod 86400;
          (y, m, d) = engine_civil_from_days (int days)
      in dec_pad 4 (nat y) @ ''-'' @ dec_pad 2 (nat m) @ ''-'' @ dec_pad 2 (nat d) @ ''T'' @
         dec_pad 2 (secs div 3600) @ ''-'' @ dec_pad 2 (secs mod 3600 div 60) @ ''-'' @
         dec_pad 2 (secs mod 60) @ ''Z'')"

datatype materialize_op =
    Write string bytes
  | Remove string
  | Defer string
  | Quarantine string string

section \<open>The engine\<close>

record mem_engine =
  me_store :: mem_store
  me_state :: engine_state
  me_scope :: scope
  me_identity :: identity
  me_authorized :: string
  me_main :: "oid option"
  me_config :: vault_config
  me_working :: files
  me_quarantines :: "materialize_op list"

abbreviation me_get :: "crates \<Rightarrow> mem_engine \<Rightarrow> getter" where
  "me_get C e \<equiv> mem_get C (me_store e)"

text \<open>A call on the store, and a change of the state, of an engine.\<close>

definition on_store :: "(mem_store, 'a) seff \<Rightarrow> (mem_engine, 'a) seff" where
  "on_store m e = (case m (me_store e) of (s, r) \<Rightarrow> (e\<lparr>me_store := s\<rparr>, r))"

definition on_state :: "(engine_state \<Rightarrow> engine_state) \<Rightarrow> mem_engine \<Rightarrow> mem_engine" where
  "on_state f e = e\<lparr>me_state := f (me_state e)\<rparr>"

definition rebuild_scope :: "vault_config \<Rightarrow> string list \<Rightarrow> scope" where
  "rebuild_scope config ignore =
     \<lparr>sc_include = vc_include config, sc_ignore = ignore, sc_allow_binary = vc_allow_binary config\<rparr>"

definition engine_create :: "crates \<Rightarrow> identity \<Rightarrow> string \<Rightarrow> string \<Rightarrow> mem_engine res" where
  "engine_create C ident vault_id name =
     (case genesis C (mem_ops C) mem_new of
        (store, Inl e) \<Rightarrow> Err e
      | (store, Inr m0) \<Rightarrow>
          (let config =
             \<lparr>vc_vault_id = vault_id, vc_name = name, vc_peers = [], vc_listen = None, vc_no_tofu = False,
              vc_no_tls = False, vc_log = None, vc_debounce_ms = 1000, vc_allow_binary = False,
              vc_include = [''**''], vc_auth_keys = [], vc_default_key_ttl_days = None\<rparr>
           in Ok \<lparr>me_store = store, me_state = default_state\<lparr>es_vault_id := vault_id\<rparr>,
                 me_scope = rebuild_scope config [], me_identity = ident, me_authorized = [],
                 me_main = Some m0, me_config = config, me_working = [], me_quarantines = []\<rparr>))"

definition set_ignore :: "string list \<Rightarrow> mem_engine \<Rightarrow> mem_engine" where
  "set_ignore ignore e = e\<lparr>me_scope := rebuild_scope (me_config e) ignore\<rparr>"

definition mark_bootstrap_pending :: "mem_engine \<Rightarrow> mem_engine" where
  "mark_bootstrap_pending = on_state (\<lambda>st. st\<lparr>es_bootstrap_pending := True\<rparr>)"

definition mark_bootstrap_complete :: "mem_engine \<Rightarrow> mem_engine" where
  "mark_bootstrap_complete = on_state (\<lambda>st. st\<lparr>es_bootstrap_pending := False\<rparr>)"

definition is_bootstrap_pending :: "mem_engine \<Rightarrow> bool" where
  "is_bootstrap_pending e = es_bootstrap_pending (me_state e)"

definition engine_write_tree :: "crates \<Rightarrow> files \<Rightarrow> (mem_engine, oid) seff" where
  "engine_write_tree C files =
     (let (objs, root) = write_tree_from_files C files
      in sbind (on_store (put_all (mem_ops C) objs)) (\<lambda>_. sret root))"

text \<open>The tree of a commit, and the files of the current main.\<close>

definition main_tree :: "getter \<Rightarrow> oid \<Rightarrow> oid res" where
  "main_tree get x =
     rbind (get x) (\<lambda>ob. case ob of Commit c \<Rightarrow> Ok (co_tree c) | _ \<Rightarrow> Err (Malformed ''main is not a commit''))"

definition files_at_main :: "crates \<Rightarrow> mem_engine \<Rightarrow> files res" where
  "files_at_main C e =
     (case me_main e of
        None \<Rightarrow> Ok []
      | Some m \<Rightarrow> rbind (main_tree (me_get C e) m) (\<lambda>t. read_tree_to_files t (me_get C e)))"

section \<open>Saving and restoring\<close>

record persisted =
  pe_config_toml :: string
  pe_state :: engine_state
  pe_authorized :: string
  pe_objects :: "bytes list"
  pe_main :: "string option"

definition persist :: "crates \<Rightarrow> mem_engine \<Rightarrow> persisted res" where
  "persist C e =
     rbind (rmap (get_raw C (mem_ops C) (me_store e)) (mem_oids (me_store e))) (\<lambda>objects.
       Ok \<lparr>pe_config_toml = to_toml_string (me_config e), pe_state = me_state e,
           pe_authorized = me_authorized e, pe_objects = objects,
           pe_main = map_option (to_hex C) (me_main e)\<rparr>)"

definition put_raws :: "crates \<Rightarrow> bytes list \<Rightarrow> (mem_store, unit) seff" where
  "put_raws C = smapM (\<lambda>raw. sbind (put_raw C (mem_ops C) raw) (\<lambda>_. sret ()))"

definition unpersist :: "crates \<Rightarrow> identity \<Rightarrow> persisted \<Rightarrow> string list \<Rightarrow> mem_engine res" where
  "unpersist C ident p ignore =
     (case put_raws C (pe_objects p) mem_new of
        (store, Inl e) \<Rightarrow> Err e
      | (store, Inr _) \<Rightarrow>
          rbind (from_toml_str (pe_config_toml p)) (\<lambda>config.
          rbind (case pe_main p of None \<Rightarrow> Ok None | Some h \<Rightarrow> rbind (from_hex C h) (\<lambda>x. Ok (Some x))) (\<lambda>main.
          let e = \<lparr>me_store = store, me_state = pe_state p, me_scope = rebuild_scope config ignore,
                   me_identity = ident, me_authorized = pe_authorized p, me_main = main,
                   me_config = config, me_working = [], me_quarantines = []\<rparr>
          in rbind (files_at_main C e) (\<lambda>w. Ok (e\<lparr>me_working := w\<rparr>)))))"

section \<open>Staging and committing\<close>

definition stage_write :: "string \<Rightarrow> bytes \<Rightarrow> mem_engine \<Rightarrow> mem_engine" where
  "stage_write path content e = e\<lparr>me_working := bt_insert path content (me_working e)\<rparr>"

definition stage_remove :: "string \<Rightarrow> mem_engine \<Rightarrow> mem_engine" where
  "stage_remove path e = e\<lparr>me_working := bt_remove path (me_working e)\<rparr>"

text \<open>What the guard does with one path: the tree to publish, the deletes re-added, the quarantined paths.\<close>

definition classify_path ::
  "crates \<Rightarrow> getter \<Rightarrow> oid \<Rightarrow> oid \<Rightarrow> (string \<times> string) list \<Rightarrow> string
    \<Rightarrow> files \<times> oid list \<times> materialize_op list \<Rightarrow> string \<times> bytes
    \<Rightarrow> (files \<times> oid list \<times> materialize_op list) res"
where
  "classify_path C get parent parent_tree materialized ts acc pb =
     (case acc of (filtered, readds, quarantines) \<Rightarrow>
      case pb of (path, content) \<Rightarrow>
        rbind (path_present_in_tree get parent_tree path) (\<lambda>present.
          if present then Ok (bt_insert path content filtered, readds, quarantines)
          else
            rbind (most_recent_touch_uncached C get parent path) (\<lambda>touch.
              case touch of
                None \<Rightarrow> Ok (bt_insert path content filtered, readds, quarantines)
              | Some (_, Add) \<Rightarrow> Ok (bt_insert path content filtered, readds, quarantines)
              | Some (delete_oid, Delete) \<Rightarrow>
                  if bt_contains materialized path
                  then Ok (filtered, readds,
                           quarantines @ [Quarantine path (CONTEXT_ORPHANS_DIR @ ''/'' @ ts @ ''/'' @ path)])
                  else Ok (bt_insert path content filtered,
                           if delete_oid \<in> set readds then readds else readds @ [delete_oid],
                           quarantines))))"

definition drop_path :: "string \<Rightarrow> mem_engine \<Rightarrow> mem_engine" where
  "drop_path p e =
     e\<lparr>me_working := bt_remove p (me_working e),
       me_state := (me_state e)\<lparr>es_materialized := bt_remove p (es_materialized (me_state e))\<rparr>\<rparr>"

definition apply_quarantines :: "materialize_op list \<Rightarrow> mem_engine \<Rightarrow> mem_engine" where
  "apply_quarantines qs e =
     (foldl (\<lambda>e q. case q of Quarantine from _ \<Rightarrow> drop_path from e | _ \<Rightarrow> e) e qs)
       \<lparr>me_quarantines := me_quarantines e @ qs\<rparr>"

definition genuine_change :: "crates \<Rightarrow> (string \<times> string) list \<Rightarrow> files \<Rightarrow> bool" where
  "genuine_change C materialized filtered =
     (list_ex (\<lambda>(p, c). bt_get materialized p \<noteq> Some (blob_hash C c)) filtered
      \<or> list_ex (\<lambda>p. \<not> bt_contains filtered p) (bt_keys materialized))"

definition recompute :: "crates \<Rightarrow> (mem_engine, unit) seff" where
  "recompute C =
     sbind (sread (\<lambda>e. known_oids C (me_state e))) (\<lambda>known.
     sbind (on_store (compute_main C (mem_ops C) known)) (\<lambda>m.
       smodify (\<lambda>e. e\<lparr>me_main := Some m\<rparr>)))"

definition hashes :: "crates \<Rightarrow> files \<Rightarrow> (string \<times> string) list" where
  "hashes C files = bt_collect (map (\<lambda>(p, c). (p, blob_hash C c)) files)"

definition publish :: "crates \<Rightarrow> u64 \<Rightarrow> oid \<Rightarrow> files \<Rightarrow> oid list \<Rightarrow> (mem_engine, oid option) seff" where
  "publish C wall parent filtered readds =
     sbind (engine_write_tree C filtered) (\<lambda>t.
     sbind (\<lambda>e. case next_counter (me_state e) of (st, c) \<Rightarrow> (e\<lparr>me_state := st\<rparr>, Ok c)) (\<lambda>counter.
     sbind (\<lambda>e. on_store (mem_put C
         (build_primitive_with_readd C (me_identity e) t parent counter wall ''ctx edit'' readds)) e) (\<lambda>x.
     sbind (smodify (on_state (add_known C x))) (\<lambda>_.
     sbind (recompute C) (\<lambda>_.
     sbind (smodify (on_state (\<lambda>st. st\<lparr>es_materialized := hashes C filtered\<rparr>))) (\<lambda>_.
       sret (Some x)))))))"

text \<open>The pass over all paths: what to publish, the deletes re-added and the paths quarantined.\<close>

definition ghost_guard ::
  "crates \<Rightarrow> getter \<Rightarrow> oid \<Rightarrow> oid \<Rightarrow> (string \<times> string) list \<Rightarrow> string \<Rightarrow> files
    \<Rightarrow> (files \<times> oid list \<times> materialize_op list) res"
where
  "ghost_guard C get parent parent_tree materialized ts scoped =
     rfold (classify_path C get parent parent_tree materialized ts) ([], [], []) scoped"

definition commit_onto :: "crates \<Rightarrow> u64 \<Rightarrow> u64 \<Rightarrow> files \<Rightarrow> oid \<Rightarrow> (mem_engine, oid option) seff" where
  "commit_onto C now wall scoped parent =
     sbind (sread (\<lambda>e. main_tree (me_get C e) parent)) (\<lambda>parent_tree.
     sbind (sread (\<lambda>e. ghost_guard C (me_get C e) parent parent_tree
         (es_materialized (me_state e)) (orphans_bucket now) scoped))
       (\<lambda>(filtered, readds, quarantines).
     sbind (smodify (apply_quarantines quarantines)) (\<lambda>_. \<lambda>e.
       if \<not> genuine_change C (es_materialized (me_state e)) filtered then (e, Ok None)
       else publish C wall parent filtered readds e)))"

text \<open>The clock is read twice: for the name of the orphans bucket and for the primitive.\<close>

definition commit_scoped :: "crates \<Rightarrow> u64 \<Rightarrow> u64 \<Rightarrow> files \<Rightarrow> (mem_engine, oid option) seff" where
  "commit_scoped C now wall scoped = (\<lambda>e.
     if es_bootstrap_pending (me_state e) then (e, Ok None)
     else
       sbind (case me_main e of Some m \<Rightarrow> sret m | None \<Rightarrow> on_store (genesis C (mem_ops C)))
         (commit_onto C now wall scoped) e)"

definition commit_staged :: "crates \<Rightarrow> u64 \<Rightarrow> u64 \<Rightarrow> (mem_engine, oid option) seff" where
  "commit_staged C now wall = (\<lambda>e. commit_scoped C now wall (canonicalize_keeps (me_working e) (me_scope e)) e)"

definition commit_from_files :: "crates \<Rightarrow> u64 \<Rightarrow> u64 \<Rightarrow> files \<Rightarrow> (mem_engine, oid option) seff" where
  "commit_from_files C now wall files = (\<lambda>e. commit_staged C now wall (e\<lparr>me_working := files\<rparr>))"

section \<open>Integrating received objects\<close>

text \<open>\<open>is_err\<close> on the result of a call; a panic and an endless recursion are not results.\<close>

definition rejected :: "('s, unit) seff \<Rightarrow> ('s, bool) seff" where
  "rejected m s =
     (case m s of
        (t, Inr _) \<Rightarrow> (t, Ok False)
      | (t, Inl (Panic w)) \<Rightarrow> (t, Err (Panic w))
      | (t, Inl Diverge) \<Rightarrow> (t, Err Diverge)
      | (t, Inl e) \<Rightarrow> (t, Ok True))"

text \<open>The commits among the raw objects.\<close>

definition raw_commit :: "crates \<Rightarrow> bytes \<Rightarrow> commit_obj option" where
  "raw_commit C raw =
     (case decompress_and_parse C raw of Inr (Commit c) \<Rightarrow> Some c | _ \<Rightarrow> None)"

fun any_rejected :: "crates \<Rightarrow> bytes list \<Rightarrow> (mem_store, bool) seff" where
  "any_rejected C [] = sret False"
| "any_rejected C (raw # raws) =
     (case raw_commit C raw of
        None \<Rightarrow> any_rejected C raws
      | Some c \<Rightarrow>
          if is_primitive C c then any_rejected C raws
          else
            sbind (rejected (verify_fold_commit C (mem_ops C) (oid_of C (Commit c)))) (\<lambda>bad.
              if bad then sret True else any_rejected C raws))"

definition admit_raw :: "crates \<Rightarrow> engine_state \<times> nat \<Rightarrow> bytes \<Rightarrow> engine_state \<times> nat" where
  "admit_raw C acc raw =
     (case acc of (st, admitted) \<Rightarrow>
      case raw_commit C raw of
        None \<Rightarrow> (st, admitted)
      | Some c \<Rightarrow>
          (case parse_primitive_meta C c of
             None \<Rightarrow> (st, admitted)
           | Some (counter, _) \<Rightarrow>
               if \<not> is_ok (verify_primitive C c) then (st, admitted)
               else
                 (let x = oid_of C (Commit c);
                      fresh = (to_hex C x \<notin> set (es_known st))
                  in (observe counter (if fresh then add_known C x st else st),
                      if fresh then admitted + 1 else admitted))))"

definition integrate :: "crates \<Rightarrow> bytes list \<Rightarrow> (mem_engine, nat) seff" where
  "integrate C raws =
     sbind (on_store (put_raws C raws)) (\<lambda>_.
     sbind (on_store (any_rejected C raws)) (\<lambda>bad.
       if bad then sret 0
       else
         sbind (\<lambda>e. case foldl (admit_raw C) (me_state e, 0) raws of
             (st, admitted) \<Rightarrow> (e\<lparr>me_state := st\<rparr>, Ok admitted)) (\<lambda>admitted.
         sbind (if admitted > 0 then recompute C else sret ()) (\<lambda>_. sret admitted))))"

section \<open>Materializing\<close>

definition removal_ops ::
  "crates \<Rightarrow> files \<Rightarrow> files \<Rightarrow> (string \<times> string) list \<Rightarrow> materialize_op list" where
  "removal_ops C want on_disk materialized =
     concat (map (\<lambda>(p, h).
       if bt_contains want p then []
       else
         (case bt_get on_disk p of
            None \<Rightarrow> []
          | Some disk \<Rightarrow> if blob_hash C disk = h then [Remove p] else [])) materialized)"

text \<open>One wanted path: the operation, and whether its hash is recorded.\<close>

definition plan_path :: "crates \<Rightarrow> files \<Rightarrow> string option \<Rightarrow> string \<Rightarrow> bytes \<Rightarrow> materialize_op list \<times> bool" where
  "plan_path C on_disk prev p content =
     (case bt_get on_disk p of
        None \<Rightarrow> ([Write p content], True)
      | Some d \<Rightarrow>
          if Some (blob_hash C d) \<noteq> prev \<and> d \<noteq> content then ([Defer p], False)
          else if d = content then ([], True)
          else ([Write p content], True))"

definition plan_step ::
  "crates \<Rightarrow> files \<Rightarrow> materialize_op list \<times> (string \<times> string) list \<Rightarrow> string \<times> bytes
    \<Rightarrow> materialize_op list \<times> (string \<times> string) list"
where
  "plan_step C on_disk acc pc =
     (case acc of (ops, materialized) \<Rightarrow> case pc of (p, content) \<Rightarrow>
      case plan_path C on_disk (bt_get materialized p) p content of
        (new, recorded) \<Rightarrow>
          (ops @ new, if recorded then bt_insert p (blob_hash C content) materialized else materialized))"

definition materialize_plan :: "crates \<Rightarrow> files \<Rightarrow> (mem_engine, materialize_op list) seff" where
  "materialize_plan C on_disk = (\<lambda>e.
     let ops = me_quarantines e; e = e\<lparr>me_quarantines := []\<rparr>
     in case me_main e of
          None \<Rightarrow> (e, Ok ops)
        | Some m \<Rightarrow>
            sbind (sread (\<lambda>e. rbind (main_tree (me_get C e) m) (\<lambda>t. read_tree_to_files t (me_get C e))))
              (\<lambda>want. \<lambda>e.
                let materialized = es_materialized (me_state e);
                    removals = removal_ops C want on_disk materialized;
                    kept = filter (\<lambda>(p, h). bt_contains want p) materialized;
                    (writes, materialized') = foldl (plan_step C on_disk) ([], kept) want
                in (on_state (\<lambda>st. st\<lparr>es_materialized := materialized'\<rparr>) e, Ok (ops @ removals @ writes))) e)"

fun apply_op :: "materialize_op \<Rightarrow> files \<Rightarrow> files" where
  "apply_op (Write path content) w = bt_insert path content w"
| "apply_op (Remove path) w = bt_remove path w"
| "apply_op (Defer path) w = w"
| "apply_op (Quarantine from to) w = bt_remove from w"

definition materialize_staged :: "crates \<Rightarrow> (mem_engine, materialize_op list) seff" where
  "materialize_staged C = (\<lambda>e.
     sbind (materialize_plan C (me_working e)) (\<lambda>ops.
     sbind (smodify (\<lambda>e. e\<lparr>me_working := foldl (\<lambda>w op. apply_op op w) (me_working e) ops\<rparr>)) (\<lambda>_.
       sret ops)) e)"

section \<open>Export\<close>

definition engine_frontier_tips :: "crates \<Rightarrow> mem_engine \<Rightarrow> oid list res" where
  "engine_frontier_tips C e = rbind (known_oids C (me_state e)) (frontier C (me_get C e))"

definition engine_known :: "crates \<Rightarrow> mem_engine \<Rightarrow> oid list res" where
  "engine_known C e = known_oids C (me_state e)"

definition export_closure :: "crates \<Rightarrow> mem_engine \<Rightarrow> oid list \<Rightarrow> bytes list res" where
  "export_closure C e tips =
     rbind (reachable (me_get C e) tips) (rmap (get_raw C (mem_ops C) (me_store e)))"

text \<open>
  \<open>collect_tree_objects\<close>. \<open>path\<close> holds the trees being walked, all of them already collected, so the
  test on it never decides anything: it shows that the recursion ends.
\<close>

function collect_tree_objects :: "oid list \<Rightarrow> getter \<Rightarrow> oid \<Rightarrow> oid list \<Rightarrow> oid list res" where
  "collect_tree_objects path get t out =
     (if t \<in> set out \<or> t \<in> set path then Ok out
      else
        rbind (get t) (\<lambda>ob.
          case ob of
            Tree entries \<Rightarrow>
              rfold (\<lambda>out e.
                rbind (get (te_oid e)) (\<lambda>b.
                  case b of
                    Blob _ \<Rightarrow> Ok (List.insert (te_oid e) out)
                  | Tree _ \<Rightarrow> collect_tree_objects (t # path) get (te_oid e) out
                  | Commit _ \<Rightarrow> Ok out)) (t # out) entries
          | _ \<Rightarrow> Ok (t # out)))"
  by pat_completeness auto
termination
proof (relation "measure (\<lambda>(path, get, t, out). card (UNIV - set path))")
  show "wf (measure (\<lambda>(path :: oid list, get :: getter, t :: oid, out :: oid list). card (UNIV - set path)))"
    by simp
next
  fix path :: "oid list" and get :: getter and t and out out' :: "oid list" and e :: tree_entry
  assume "\<not> (t \<in> set out \<or> t \<in> set path)"
  then have "UNIV - set (t # path) \<subset> UNIV - set path" by auto
  then have "card (UNIV - set (t # path)) < card (UNIV - set path)" by (intro psubset_card_mono) simp_all
  then show "((t # path, get, te_oid e, out'), (path, get, t, out))
      \<in> measure (\<lambda>(path, get, t, out). card (UNIV - set path))" by simp
qed

declare collect_tree_objects.simps [simp del]

definition export_primitive :: "crates \<Rightarrow> mem_engine \<Rightarrow> oid \<Rightarrow> bytes list res" where
  "export_primitive C e prim =
     (let get = me_get C e in
      rbind (get prim) (\<lambda>ob.
        case ob of
          Commit c \<Rightarrow>
            rbind (case co_parents c of
                     [] \<Rightarrow> Ok []
                   | parent # _ \<Rightarrow>
                       rbind (get parent) (\<lambda>pob.
                         case pob of
                           Commit pc \<Rightarrow> collect_tree_objects [] get (co_tree pc) []
                         | _ \<Rightarrow> Ok [])) (\<lambda>parent_oids.
            rbind (collect_tree_objects [] get (co_tree c) []) (\<lambda>prim_set.
            rbind (get_raw C (mem_ops C) (me_store e) prim) (\<lambda>first.
            rbind (rmap (get_raw C (mem_ops C) (me_store e))
                (sort (filter (\<lambda>x. x \<notin> set parent_oids) prim_set))) (\<lambda>rest.
              Ok (first # rest)))))
        | _ \<Rightarrow> Err (Malformed ''export_primitive: not a commit'')))"

section \<open>Authorization\<close>

definition authorized_node_ids :: "crates \<Rightarrow> u64 \<Rightarrow> mem_engine \<Rightarrow> node_id set" where
  "authorized_node_ids C now e =
     set (List.map_filter (\<lambda>k.
        case ke_node k of None \<Rightarrow> None | Some n \<Rightarrow> if is_valid (ke_expiry k) now then Some n else None)
       (parse_file C (me_authorized e)))"

definition default_ttl_days :: "mem_engine \<Rightarrow> u64" where
  "default_ttl_days e =
     (case vc_default_key_ttl_days (me_config e) of None \<Rightarrow> BUILTIN_DEFAULT_TTL_DAYS | Some d \<Rightarrow> d)"

fun position :: "('a \<Rightarrow> bool) \<Rightarrow> 'a list \<Rightarrow> nat option" where
  "position P [] = None"
| "position P (x # xs) = (if P x then Some 0 else map_option Suc (position P xs))"

definition authorize_with_expiry :: "crates \<Rightarrow> string \<Rightarrow> expiry \<Rightarrow> mem_engine \<Rightarrow> mem_engine" where
  "authorize_with_expiry C ssh_line ex e =
     (let entries = parse_file C (me_authorized e); entry = parse_line C (build_line ssh_line ex)
      in case parse_ssh_pubkey C (str_trim ssh_line) of
           None \<Rightarrow> e
         | Some t \<Rightarrow>
             (case position (\<lambda>k. ke_node k = Some t) entries of
                Some i \<Rightarrow> e\<lparr>me_authorized := serialize (entries[i := entry])\<rparr>
              | None \<Rightarrow> e\<lparr>me_authorized := serialize (entries @ [entry])\<rparr>))"

definition authorize :: "crates \<Rightarrow> string \<Rightarrow> mem_engine \<Rightarrow> mem_engine" where
  "authorize C ssh_line = authorize_with_expiry C ssh_line Unset"

definition enroll_expiry :: "u64 \<Rightarrow> u64 \<Rightarrow> expiry" where
  "enroll_expiry now ttl_days = (if ttl_days = 0 then Unset else At (expiry_from_ttl_days now ttl_days))"

definition admit_peer :: "crates \<Rightarrow> u64 \<Rightarrow> string \<Rightarrow> bool \<Rightarrow> (mem_engine, bool) seff" where
  "admit_peer C now ssh_line enrollment_authorized = (\<lambda>e.
     case parse_ssh_pubkey C ssh_line of
       None \<Rightarrow> (e, Ok False)
     | Some peer_node \<Rightarrow>
         (let entries = parse_file C (me_authorized e);
              entry = parse_line C (build_line ssh_line (enroll_expiry now (default_ttl_days e)))
          in case position (\<lambda>k. ke_node k = Some peer_node) entries of
               Some i \<Rightarrow>
                 if is_valid (ke_expiry (entries ! i)) now then (e, Ok True)
                 else if enrollment_authorized
                 then (e\<lparr>me_authorized := serialize (entries[i := entry])\<rparr>, Ok True)
                 else (e, Ok False)
             | None \<Rightarrow>
                 if enrollment_authorized
                 then (e\<lparr>me_authorized := serialize (entries @ [entry])\<rparr>, Ok True)
                 else if \<not> list_ex (\<lambda>k. ke_node k \<noteq> None) entries \<and> \<not> vc_no_tofu (me_config e)
                         \<and> vc_auth_keys (me_config e) = []
                 then (e\<lparr>me_authorized := serialize (entries @ [entry])\<rparr>, Ok True)
                 else (e, Ok False)))"

definition admit_peer_tofu :: "crates \<Rightarrow> u64 \<Rightarrow> string \<Rightarrow> (mem_engine, bool) seff" where
  "admit_peer_tofu C now ssh_line = admit_peer C now ssh_line False"

section \<open>Snapshots and restores\<close>

definition engine_snapshot :: "crates \<Rightarrow> u64 \<Rightarrow> string \<Rightarrow> (mem_engine, unit) seff" where
  "engine_snapshot C now name =
     sbind (sread (engine_frontier_tips C)) (\<lambda>tips.
       smodify (on_state (\<lambda>st. st\<lparr>es_snapshots := bt_insert name
         \<lparr>sn_label = name, sn_frontier = map (to_hex C) tips, sn_created = now\<rparr> (es_snapshots st)\<rparr>)))"

definition fold_subset :: "crates \<Rightarrow> oid list \<Rightarrow> (mem_engine, files) seff" where
  "fold_subset C chosen =
     sbind (on_store (compute_main C (mem_ops C) chosen)) (\<lambda>m.
       sread (\<lambda>e. rbind (main_tree (me_get C e) m) (\<lambda>t. read_tree_to_files t (me_get C e))))"

definition restore_snapshot :: "crates \<Rightarrow> string \<Rightarrow> (mem_engine, files) seff" where
  "restore_snapshot C name =
     sbind (sread (\<lambda>e. ok_or (OtherErr (''no snapshot '' @ name)) (bt_get (es_snapshots (me_state e)) name))) (\<lambda>snap.
     sbind (sread (\<lambda>_. rmap (from_hex C) (sn_frontier snap))) (fold_subset C))"

definition restore_time :: "crates \<Rightarrow> u64 \<Rightarrow> (mem_engine, files) seff" where
  "restore_time C t =
     sbind (sread (\<lambda>e. rbind (known_oids C (me_state e)) (\<lambda>known.
       rfold (\<lambda>chosen x. rbind (me_get C e x) (\<lambda>ob.
         Ok (case ob of Commit c \<Rightarrow> if co_author_time c \<le> t then chosen @ [x] else chosen | _ \<Rightarrow> chosen)))
         [] known))) (fold_subset C)"

section \<open>The engine as a session vault\<close>

definition engine_ops :: "crates \<Rightarrow> u64 \<Rightarrow> mem_engine vault_ops" where
  "engine_ops C now =
     \<lparr>vo_vault_id = \<lambda>e. vc_vault_id (me_config e), vo_name = \<lambda>e. vc_name (me_config e),
      vo_identity_ssh = \<lambda>e. to_ssh_string C (me_identity e),
      vo_sign = \<lambda>e. id_sign C (me_identity e),
      vo_frontier_tips = engine_frontier_tips C, vo_known = engine_known C,
      vo_has = \<lambda>e. mem_has (me_store e), vo_export_closure = export_closure C,
      vo_integrate = integrate C, vo_admit_peer = admit_peer C now,
      vo_mark_bootstrap_complete = mark_bootstrap_complete\<rparr>"

end
