(* ===== verification/Engine_Facts.thy ===== *)
theory Engine_Facts
  imports Engine Session_Facts Fold_Facts Frontier
begin

text \<open>
  Facts about the in-memory engine: the invariant of its state and that every operation keeps it, what the
  guard of a commit does with each path, what integrating a batch admits, and what a materialize plan does to
  the files on disk.
\<close>

section \<open>What a fold leaves in the store\<close>

context engine_store
begin

lemma put_stored: "so_put ops ob s = (t, Ok x) \<Longrightarrow> inv s \<Longrightarrow> so_has ops t x"
  using put_eq [of ob s] has_put [of s ob x] by auto

lemma make_fold_commit_stored:
  assumes "make_fold_commit ops t ps msg s = (s', Ok x)" and "inv s"
  shows "so_has ops s' x"
  using assms put_stored unfolding make_fold_commit_def by (auto simp: sbind_Ok_iff)

lemma genesis_stored:
  assumes "genesis C ops s = (t, Ok x)" and "inv s"
  shows "so_has ops t x"
proof -
  obtain u y where "so_put ops (Tree []) s = (u, Ok y)"
    and run: "so_put ops (Commit (fold_commit (oid_of C (Tree [])) [] 0 GENESIS_MSG)) u = (t, Ok x)"
    using assms(1) unfolding genesis_def by (auto simp: sbind_Ok_iff)
  from keepsD2 [OF keeps_put this(1)] assms(2) have "inv u" by (simp add: grows_def)
  with put_stored run show ?thesis by blast
qed

lemma fold_step_stored:
  assumes "fold_step C ops acc tk s = (t, Ok x)" and "inv s"
  shows "so_has ops t x"
proof -
  obtain m where "(case write_tree_from_files C m of (objs, root) \<Rightarrow>
      sbind (put_all ops objs) (\<lambda>_. make_fold_commit ops root [acc, tk] FOLD_MSG)) s = (t, Ok x)"
    using assms(1) unfolding fold_step_def by (auto simp: sbind_Ok_iff)
  then obtain objs root u where "put_all ops objs s = (u, Ok ())"
    and run: "make_fold_commit ops root [acc, tk] FOLD_MSG u = (t, Ok x)"
    by (cases "write_tree_from_files C m") (auto simp: sbind_Ok_iff)
  from keepsD2 [OF keeps_put_all this(1)] have "grows s u" .
  note run
  with \<open>grows s u\<close> assms(2) make_fold_commit_stored show ?thesis by (simp add: grows_def)
qed

lemma fold_tips_stored:
  "fold_tips C ops acc (tk # tks) s = (t, Ok x) \<Longrightarrow> inv s \<Longrightarrow> so_has ops t x"
proof (induction tks arbitrary: acc tk s)
  case Nil
  then show ?case by (auto simp: sbind_Ok_iff fold_step_stored)
next
  case (Cons tk' tks)
  then obtain u y where step: "fold_step C ops acc tk s = (u, Ok y)" and rest: "fold_tips C ops y (tk' # tks) u = (t, Ok x)"
    by (auto simp: sbind_Ok_iff simp del: fold_tips.simps simp: fold_tips.simps(2) [of C ops acc tk])
  from keepsD2 [OF keeps_fold_step step] Cons.prems(2) have "inv u" by (simp add: grows_def)
  with Cons.IH [OF rest] show ?case .
qed

lemma compute_main_stored:
  assumes "compute_main C ops known s = (t, Ok x)" and "inv s"
  shows "so_has ops t x"
  using assms(1)
proof (cases rule: compute_main_Ok_cases)
  case 1
  with genesis_stored assms(2) show ?thesis by blast
next
  case (2 tip)
  then show ?thesis
    using make_fold_commit_stored assms(2) unfolding thin_wrapper_def by (auto simp: sbind_Ok_iff)
next
  case (3 acc tk tks)
  with fold_tips_stored assms(2) show ?thesis by blast
qed

lemma keeps_put_raw: "keeps grows (put_raw C ops raw)"
  unfolding put_raw_def by (intro grow_rules keeps_put)

end

section \<open>The invariant of an engine\<close>

text \<open>
  A known id is the id of a commit that verifies as a primitive, whose counter has been observed and whose id
  is in the store.
\<close>

definition signed_known :: "crates \<Rightarrow> mem_engine \<Rightarrow> string \<Rightarrow> bool" where
  "signed_known C e h \<longleftrightarrow>
     (\<exists>c node counter. h = to_hex C (oid_of C (Commit c)) \<and> verify_primitive C c = Ok node
        \<and> parse_primitive_meta C c = Some (counter, node) \<and> counter \<le> es_observed (me_state e)
        \<and> mem_has (me_store e) (oid_of C (Commit c)))"

definition engine_inv :: "crates \<Rightarrow> mem_engine \<Rightarrow> bool" where
  "engine_inv C e \<longleftrightarrow>
     bt_wf (me_store e) \<and> known_wf C (me_state e) \<and> (\<forall>h \<in> set (es_known (me_state e)). signed_known C e h)
     \<and> es_counter (me_state e) \<le> es_observed (me_state e)
     \<and> bt_wf (es_materialized (me_state e)) \<and> bt_wf (me_working e)
     \<and> (\<forall>m. me_main e = Some m \<longrightarrow> mem_has (me_store e) m)"

text \<open>Nothing that was stored, known or observed is lost, and the engine stays well formed.\<close>

definition advances :: "crates \<Rightarrow> mem_engine \<Rightarrow> mem_engine \<Rightarrow> bool" where
  "advances C e e' \<longleftrightarrow>
     (engine_inv C e \<longrightarrow> engine_inv C e' \<and> get_le (me_get C e) (me_get C e')
        \<and> set (es_known (me_state e)) \<subseteq> set (es_known (me_state e'))
        \<and> es_observed (me_state e) \<le> es_observed (me_state e'))"

lemma advances_refl: "reflp (advances C)"
  by (simp add: reflp_def advances_def)

lemma advances_trans: "transp (advances C)"
  by (auto simp: transp_def advances_def intro: get_le_trans order_trans)

lemmas advances_step = transpD [OF advances_trans]

lemmas advance_rules = keeps_sread [OF advances_refl] keeps_sret [OF advances_refl]
  keeps_sbind [OF advances_trans] keeps_smapM [OF advances_refl advances_trans]

lemma mem_has_mono: "get_le (mem_get C s) (mem_get C t) \<Longrightarrow> mem_has s x \<Longrightarrow> mem_has t x"
  unfolding get_le_def mem_get_Ok_iff mem_has_def by blast

lemma signed_known_mono:
  assumes "signed_known C e h" and "es_observed (me_state e) \<le> es_observed (me_state e')"
    and "get_le (me_get C e) (me_get C e')"
  shows "signed_known C e' h"
proof -
  from assms(1) obtain c node counter where "h = to_hex C (oid_of C (Commit c))" "verify_primitive C c = Ok node"
    "parse_primitive_meta C c = Some (counter, node)" "counter \<le> es_observed (me_state e)"
    "mem_has (me_store e) (oid_of C (Commit c))" unfolding signed_known_def by blast
  moreover note mem_has_mono [OF assms(3)] order_trans [OF _ assms(2)]
  ultimately show ?thesis unfolding signed_known_def by blast
qed

lemma advances_on_store:
  assumes "keeps (memE.grows C) m"
  shows "keeps (advances C) (on_store m)"
  unfolding keeps_def
proof
  fix e :: mem_engine
  obtain t r where m: "m (me_store e) = (t, r)" by fastforce
  from keepsD2 [OF assms m] have "memE.grows C (me_store e) t" .
  then show "advances C e (fst (on_store m e))"
    using signed_known_mono [of C e _ "e\<lparr>me_store := t\<rparr>"] mem_has_mono [of C "me_store e" t]
    by (auto simp: advances_def engine_inv_def on_store_def m memE.grows_def)
qed

text \<open>A change that leaves the store, the known ids, the counters and the main commit alone.\<close>

lemma advances_local:
  assumes "me_store e' = me_store e" and "es_known (me_state e') = es_known (me_state e)"
    and "es_observed (me_state e') = es_observed (me_state e)" and "es_counter (me_state e') = es_counter (me_state e)"
    and "me_main e' = me_main e"
    and "bt_wf (es_materialized (me_state e)) \<Longrightarrow> bt_wf (es_materialized (me_state e'))"
    and "bt_wf (me_working e) \<Longrightarrow> bt_wf (me_working e')"
  shows "advances C e e'"
  unfolding advances_def
proof
  assume inv: "engine_inv C e"
  have "signed_known C e' h" if "signed_known C e h" for h
    using that assms(1,3) by (simp add: signed_known_def)
  then show "engine_inv C e' \<and> get_le (me_get C e) (me_get C e')
      \<and> set (es_known (me_state e)) \<subseteq> set (es_known (me_state e')) \<and> es_observed (me_state e) \<le> es_observed (me_state e')"
    using inv assms known_wf_cong [of "me_state e'" "me_state e" C] by (simp add: engine_inv_def)
qed

lemma advances_on_state:
  assumes "\<And>st. es_known (f st) = es_known st" and "\<And>st. es_observed (f st) = es_observed st"
    and "\<And>st. es_counter (f st) = es_counter st" and "\<And>st. bt_wf (es_materialized st) \<Longrightarrow> bt_wf (es_materialized (f st))"
  shows "keeps (advances C) (smodify (on_state f))"
  using assms by (auto simp: keeps_def on_state_def intro!: advances_local)

lemma advances_recompute: "keeps (advances C) (recompute C)"
  unfolding keeps_def
proof
  fix e
  show "advances C e (fst (recompute C e))"
  proof (cases "known_oids C (me_state e)")
    case (Inl er)
    then show ?thesis using advances_refl by (simp add: recompute_def sbind_def reflp_def)
  next
    case (Inr known)
    obtain t r where run: "compute_main C (mem_ops C) known (me_store e) = (t, r)" by fastforce
    have "advances C e (e\<lparr>me_store := t\<rparr>)"
      using keepsD [OF advances_on_store [OF memE.keeps_compute_main [of C known]], of e] run
      by (simp add: on_store_def)
    moreover have "advances C (e\<lparr>me_store := t\<rparr>) (e\<lparr>me_store := t, me_main := Some m\<rparr>)"
      if "r = Ok m" "engine_inv C e" for m
    proof -
      have "compute_main C (mem_ops C) known (me_store e) = (t, Ok m)" and "bt_wf (me_store e)"
        using run that by (simp_all add: engine_inv_def)
      from memE.compute_main_stored [OF this] show ?thesis
        by (simp add: advances_def engine_inv_def signed_known_def)
    qed
    ultimately have "engine_inv C e \<Longrightarrow> r = Ok m \<Longrightarrow> advances C e (e\<lparr>me_store := t, me_main := Some m\<rparr>)" for m
      using advances_trans unfolding transp_def by blast
    then have "r = Ok m \<Longrightarrow> advances C e (e\<lparr>me_store := t, me_main := Some m\<rparr>)" for m
      unfolding advances_def by blast
    with \<open>advances C e (e\<lparr>me_store := t\<rparr>)\<close> show ?thesis
      using Inr run by (cases r) (simp_all add: recompute_def sbind_def on_store_def)
  qed
qed

lemma advances_write_tree: "keeps (advances C) (engine_write_tree C files)"
  unfolding engine_write_tree_def
  by (auto split: prod.splits intro!: advance_rules advances_on_store memE.keeps_put_all)

text \<open>Recording a verified primitive that is in the store.\<close>

lemma advances_add_known:
  assumes "verify_primitive C c = Ok node" and "parse_primitive_meta C c = Some (counter, node)"
    and "counter \<le> es_observed (me_state e)" and "mem_has (me_store e) (oid_of C (Commit c))"
  shows "advances C e (on_state (add_known C (oid_of C (Commit c))) e)"
proof -
  let ?x = "oid_of C (Commit c)" and ?e = "on_state (add_known C (oid_of C (Commit c))) e"
  have "signed_known C ?e (to_hex C ?x)"
    using assms by (auto simp: signed_known_def on_state_def)
  moreover have "signed_known C ?e h" if "signed_known C e h" for h
    using that by (auto simp: signed_known_def on_state_def)
  ultimately show ?thesis
    by (auto simp: advances_def engine_inv_def on_state_def known_wf_add)
qed

text \<open>A change of the counters alone.\<close>

lemma advances_counters:
  assumes "es_known st = es_known (me_state e)" and "es_materialized st = es_materialized (me_state e)"
    and "es_observed (me_state e) \<le> es_observed st" and "es_counter (me_state e) \<le> es_observed (me_state e) \<Longrightarrow> es_counter st \<le> es_observed st"
  shows "advances C e (e\<lparr>me_state := st\<rparr>)"
  using assms signed_known_mono [of C e _ "e\<lparr>me_state := st\<rparr>"] known_wf_cong [OF assms(1), of C]
  by (auto simp: advances_def engine_inv_def)

lemma advances_next_counter:
  assumes "next_counter (me_state e) = (st, c)"
  shows "advances C e (e\<lparr>me_state := st\<rparr>)" and "c \<le> es_observed st"
  using assms by (auto simp: next_counter_def Let_def intro!: advances_counters)

lemma build_primitive_commit: "\<exists>c. build_primitive_with_readd C i t parent counter wall subject readds = Commit c"
  by (simp add: build_primitive_with_readd_def Let_def)

text \<open>The primitive a commit authors, and the engine once it is stored and known.\<close>

definition authored :: "crates \<Rightarrow> oid \<Rightarrow> oid \<Rightarrow> u64 \<Rightarrow> oid list \<Rightarrow> mem_engine \<Rightarrow> mem_engine \<times> git_object" where
  "authored C t parent wall readds e =
     (let (st, counter) = next_counter (me_state e);
          ob = build_primitive_with_readd C (me_identity e) t parent counter wall ''ctx edit'' readds
      in (e\<lparr>me_store := fst (mem_put C ob (me_store e)), me_state := add_known C (oid_of C ob) st\<rparr>, ob))"

definition settle :: "crates \<Rightarrow> files \<Rightarrow> oid \<Rightarrow> (mem_engine, oid option) seff" where
  "settle C filtered x =
     sbind (recompute C) (\<lambda>_.
     sbind (smodify (on_state (\<lambda>st. st\<lparr>es_materialized := hashes C filtered\<rparr>))) (\<lambda>_.
       sret (Some x)))"

lemma publish_eq:
  "publish C wall parent filtered readds =
     sbind (engine_write_tree C filtered) (\<lambda>t e.
       case authored C t parent wall readds e of (e', ob) \<Rightarrow> settle C filtered (oid_of C ob) e')"
proof -
  have "sbind (\<lambda>e. case next_counter (me_state e) of (st, c) \<Rightarrow> (e\<lparr>me_state := st\<rparr>, Ok c)) (\<lambda>counter.
      sbind (\<lambda>e. on_store (mem_put C
         (build_primitive_with_readd C (me_identity e) t parent counter wall ''ctx edit'' readds)) e) (\<lambda>x.
      sbind (smodify (on_state (add_known C x))) (\<lambda>_. settle C filtered x))) e =
      (case authored C t parent wall readds e of (e', ob) \<Rightarrow> settle C filtered (oid_of C ob) e')" for t e
  proof -
    obtain st counter where n: "next_counter (me_state e) = (st, counter)" by fastforce
    define ob where "ob = build_primitive_with_readd C (me_identity e) t parent counter wall ''ctx edit'' readds"
    obtain s' where put: "mem_put C ob (me_store e) = (s', Ok (oid_of C ob))"
      using mem.put_eq by blast
    show ?thesis
      unfolding authored_def
      by (simp add: sbind_def n ob_def [symmetric] put on_store_def on_state_def Let_def)
  qed
  then show ?thesis unfolding publish_def settle_def by (intro ext sbind_cong) simp_all
qed

lemma advances_authored:
  assumes laws: "hex_laws C" "b64_laws C" "ed_laws C"
    and run: "authored C t parent wall readds e = (e', ob)"
  shows "advances C e e'"
proof -
  obtain st counter where n: "next_counter (me_state e) = (st, counter)" by fastforce
  obtain c where b: "build_primitive_with_readd C (me_identity e) t parent counter wall ''ctx edit'' readds = Commit c"
    using build_primitive_commit by blast
  note meta = built_verifies [OF laws b]
  define s' where "s' = fst (mem_put C (Commit c) (me_store e))"
  define f where "f = e\<lparr>me_state := st, me_store := s'\<rparr>"
  have put: "mem_put C (Commit c) (me_store e) = (s', Ok (oid_of C (Commit c)))"
    using mem.put_eq [of C "Commit c" "me_store e"] by (simp add: s'_def)
  have "advances C (e\<lparr>me_state := st\<rparr>) f"
    using keepsD [OF advances_on_store [OF memE.keeps_put [of C "Commit c"]], of "e\<lparr>me_state := st\<rparr>"] put
    by (simp add: on_store_def f_def)
  with advances_next_counter(1) [OF n] have f: "advances C e f"
    using advances_trans unfolding transp_def by blast
  have e': "e' = on_state (add_known C (oid_of C (Commit c))) f"
    using run n b by (auto simp: authored_def on_state_def f_def s'_def Let_def)
  have "advances C f e'" if "engine_inv C e"
    unfolding e'
  proof (rule advances_add_known [OF meta(1)])
    show "parse_primitive_meta C c = Some (counter, id_node C (me_identity e))" using meta by blast
    show "counter \<le> es_observed (me_state f)" using advances_next_counter(2) [OF n] by (simp add: f_def)
    show "mem_has (me_store f) (oid_of C (Commit c))"
      using memE.put_stored [of C "Commit c" "me_store e" s'] put that by (simp add: f_def engine_inv_def)
  qed
  with f show ?thesis unfolding advances_def by (blast intro: get_le_trans order_trans)
qed

lemma advances_publish:
  assumes "hex_laws C" "b64_laws C" "ed_laws C"
  shows "keeps (advances C) (publish C wall parent filtered readds)"
  unfolding publish_eq
proof (intro keeps_sbind [OF advances_trans] advances_write_tree)
  fix t
  have settle: "keeps (advances C) (settle C filtered x)" for x
    unfolding settle_def
    by (intro advance_rules advances_recompute advances_on_state) (simp_all add: hashes_def)
  have "advances C e (fst (settle C filtered (oid_of C ob) e'))"
    if "authored C t parent wall readds e = (e', ob)" for e e' ob
    using advances_authored [OF assms that] keepsD [OF settle, of e'] advances_trans unfolding transp_def by blast
  then show "keeps (advances C) (\<lambda>e. case authored C t parent wall readds e of (e', ob) \<Rightarrow> settle C filtered (oid_of C ob) e')"
    by (simp add: keeps_def split: prod.splits)
qed

lemma drop_paths_sel:
  fixes e :: mem_engine
  defines "f \<equiv> foldl (\<lambda>e q. case q of Quarantine from _ \<Rightarrow> drop_path from e | _ \<Rightarrow> e)"
  shows "me_store (f e qs) = me_store e \<and> es_known (me_state (f e qs)) = es_known (me_state e)
    \<and> es_observed (me_state (f e qs)) = es_observed (me_state e) \<and> es_counter (me_state (f e qs)) = es_counter (me_state e)
    \<and> me_main (f e qs) = me_main e \<and> me_quarantines (f e qs) = me_quarantines e \<and> me_scope (f e qs) = me_scope e
    \<and> (bt_wf (es_materialized (me_state e)) \<longrightarrow> bt_wf (es_materialized (me_state (f e qs))))
    \<and> (bt_wf (me_working e) \<longrightarrow> bt_wf (me_working (f e qs)))"
  unfolding f_def
proof (induction qs arbitrary: e)
  case (Cons q qs)
  show ?case by (cases q) (simp_all add: Cons drop_path_def bt_wf_remove)
qed simp

lemma advances_quarantines: "advances C e (apply_quarantines qs e)"
  using drop_paths_sel [of e qs] by (intro advances_local) (simp_all add: apply_quarantines_def)

lemma keeps_if: "(b \<Longrightarrow> keeps R m) \<Longrightarrow> (\<not> b \<Longrightarrow> keeps R m') \<Longrightarrow> keeps R (if b then m else m')"
  by simp

lemma keeps_state: "(\<And>e. keeps R (m e)) \<Longrightarrow> keeps R (\<lambda>e. m e e)"
  by (simp add: keeps_def)

lemma keeps_smodify: "(\<And>e. R e (f e)) \<Longrightarrow> keeps R (smodify f)"
  by (simp add: keeps_def)

lemma advances_commit_scoped:
  assumes laws: "hex_laws C" "b64_laws C" "ed_laws C"
  shows "keeps (advances C) (commit_scoped C now wall scoped)"
proof -
  have "keeps (advances C) (\<lambda>e.
         if \<not> genuine_change C (es_materialized (me_state e)) filtered then (e, Ok None)
         else publish C wall parent filtered readds e)" for parent filtered readds
    using keepsD [OF advances_publish [OF laws]] advances_refl by (simp add: keeps_def reflp_def)
  then have onto: "keeps (advances C) (commit_onto C now wall scoped parent)" for parent
    unfolding commit_onto_def
    by (intro advance_rules) (auto intro!: advance_rules keeps_smodify advances_quarantines)
  have parent: "keeps (advances C) (case main of Some m \<Rightarrow> sret m | None \<Rightarrow> on_store (genesis C (mem_ops C)))" for main
    by (cases main) (simp_all add: advance_rules advances_on_store memE.keeps_genesis)
  have run: "keeps (advances C) (sbind (case main of Some m \<Rightarrow> sret m | None \<Rightarrow> on_store (genesis C (mem_ops C)))
      (commit_onto C now wall scoped))" for main
    by (intro advance_rules parent onto)
  show ?thesis
    unfolding keeps_def commit_scoped_def using keepsD [OF run] advances_refl by (simp add: reflp_def)
qed

lemma advances_commit_staged:
  assumes "hex_laws C" "b64_laws C" "ed_laws C"
  shows "keeps (advances C) (commit_staged C now wall)"
  using keepsD [OF advances_commit_scoped [OF assms]] by (simp add: keeps_def commit_staged_def)

lemma advances_commit_from_files:
  assumes "hex_laws C" "b64_laws C" "ed_laws C" and "bt_wf files"
  shows "keeps (advances C) (commit_from_files C now wall files)"
  unfolding keeps_def
proof
  fix e
  have "advances C e (e\<lparr>me_working := files\<rparr>)" by (rule advances_local) (simp_all add: assms(4))
  with keepsD [OF advances_commit_staged [OF assms(1-3)], of "e\<lparr>me_working := files\<rparr>"]
  show "advances C e (fst (commit_from_files C now wall files e))"
    using advances_trans unfolding commit_from_files_def transp_def by blast
qed

section \<open>Integrating a batch\<close>

context engine_store
begin

lemma keeps_verify: "keeps grows (verify_fold_commit C ops x)"
  unfolding keeps_def
proof
  fix s
  show "grows s (fst (verify_fold_commit C ops x s))"
    using keepsD [OF keeps_verify_inner [of "[]" x], of "(s, [])"]
    by (auto simp: verify_fold_commit_def split: prod.splits)
qed

end

lemma keeps_rejected: "keeps R m \<Longrightarrow> keeps R (rejected m)"
  by (auto simp: keeps_def rejected_def split: prod.splits sum.splits csp_error.splits) (metis fst_conv)+

lemma keeps_any_rejected: "keeps (memE.grows C) (any_rejected C raws)"
proof (induction raws)
  case Nil
  show ?case unfolding any_rejected.simps by (rule memE.grow_rules)
next
  case (Cons raw raws)
  have "keeps (memE.grows C) (sbind (rejected (verify_fold_commit C (mem_ops C) x))
      (\<lambda>bad. if bad then sret True else any_rejected C raws))" for x
    by (intro memE.grow_rules keeps_rejected memE.keeps_verify) (simp add: Cons memE.grow_rules)
  then show ?case using Cons by (auto split: option.splits)
qed

lemma keeps_put_raws: "keeps (memE.grows C) (put_raws C raws)"
  unfolding put_raws_def by (intro memE.grow_rules memE.keeps_put_raw)

lemma put_raws_stored:
  assumes "put_raws C raws s = (t, Ok ())" and "bt_wf s"
  shows "\<forall>raw \<in> set raws. \<exists>ob. decompress_and_parse C raw = Ok ob \<and> mem_has t (oid_of C ob)"
  using assms
proof (induction raws arbitrary: s)
  case (Cons raw raws)
  from Cons.prems(1) obtain u x where put: "put_raw C (mem_ops C) raw s = (u, Ok x)"
    and rest: "put_raws C raws u = (t, Ok ())" by (auto simp: put_raws_def sbind_Ok_iff)
  then obtain ob where ob: "decompress_and_parse C raw = Ok ob" and "mem_put C ob s = (u, Ok x)"
    by (auto simp: put_raw_def sbind_Ok_iff)
  then have "mem_has u (oid_of C ob)" "bt_wf u"
    using mem.has_put [OF Cons.prems(2), of C ob] mem.put_inv [OF Cons.prems(2), of C ob] by simp_all
  moreover have "get_le (mem_get C u) (mem_get C t)"
    using keepsD2 [OF keeps_put_raws rest] \<open>bt_wf u\<close> by (simp add: memE.grows_def)
  ultimately show ?case using Cons.IH [OF rest] ob mem_has_mono by fastforce
qed simp

text \<open>The primitives of a batch that verify.\<close>

definition signed_in :: "crates \<Rightarrow> bytes list \<Rightarrow> commit_obj set" where
  "signed_in C raws = {c. \<exists>raw \<in> set raws. raw_commit C raw = Some c \<and> is_ok (verify_primitive C c)}"

lemma signed_in_Cons:
  "signed_in C (raw # raws) =
     (case raw_commit C raw of
        None \<Rightarrow> {} | Some c \<Rightarrow> if is_ok (verify_primitive C c) then {c} else {}) \<union> signed_in C raws"
  by (auto simp: signed_in_def split: option.splits)

definition commit_hex :: "crates \<Rightarrow> commit_obj \<Rightarrow> string" where
  "commit_hex C c = to_hex C (oid_of C (Commit c))"

lemma verify_primitive_meta: "verify_primitive C c = Ok node \<Longrightarrow> \<exists>counter. parse_primitive_meta C c = Some (counter, node)"
  using verify_primitive_Ok by blast

text \<open>One object of a batch: skipped, or a primitive that verifies and is recorded.\<close>

lemma admit_raw_cases:
  obtains (skip) "admit_raw C (st, n) raw = (st, n)" and "\<nexists>c. raw_commit C raw = Some c \<and> is_ok (verify_primitive C c)"
  | (old) c counter node where "raw_commit C raw = Some c" and "verify_primitive C c = Ok node"
      and "parse_primitive_meta C c = Some (counter, node)" and "commit_hex C c \<in> set (es_known st)"
      and "admit_raw C (st, n) raw = (observe counter st, n)"
  | (fresh) c counter node where "raw_commit C raw = Some c" and "verify_primitive C c = Ok node"
      and "parse_primitive_meta C c = Some (counter, node)" and "commit_hex C c \<notin> set (es_known st)"
      and "admit_raw C (st, n) raw = (observe counter (add_known C (oid_of C (Commit c)) st), n + 1)"
proof (cases "\<exists>c. raw_commit C raw = Some c \<and> is_ok (verify_primitive C c)")
  case True
  then obtain c node where c: "raw_commit C raw = Some c" "verify_primitive C c = Ok node"
    by (auto elim: is_ok.elims)
  then obtain counter where m: "parse_primitive_meta C c = Some (counter, node)"
    using verify_primitive_meta by blast
  show thesis
    using old [OF c m] fresh [OF c m] c m
    by (cases "commit_hex C c \<in> set (es_known st)") (simp_all add: admit_raw_def commit_hex_def Let_def)
next
  case False
  then have "admit_raw C (st, n) raw = (st, n)"
    by (auto simp: admit_raw_def split: option.splits)
  with False skip show thesis by blast
qed

lemma observe_sel [simp]:
  "es_known (observe c st) = es_known st" "es_materialized (observe c st) = es_materialized st"
  "es_snapshots (observe c st) = es_snapshots st" "es_bootstrap_pending (observe c st) = es_bootstrap_pending st"
  "es_counter (observe c st) = es_counter st" "es_vault_id (observe c st) = es_vault_id st"
  "es_observed (observe c st) = max (es_observed st) c"
  by (simp_all add: observe_def)

text \<open>What the admission of a whole batch adds: exactly the ids of the primitives that verify.\<close>

lemma admit_all:
  assumes "foldl (admit_raw C) (st, n) raws = (st', n')"
  shows "set (es_known st') = set (es_known st) \<union> commit_hex C ` signed_in C raws
    \<and> es_materialized st' = es_materialized st \<and> es_snapshots st' = es_snapshots st
    \<and> es_bootstrap_pending st' = es_bootstrap_pending st
    \<and> n' + length (es_known st) = n + length (es_known st')"
  using assms
proof (induction raws arbitrary: st n)
  case Nil
  then show ?case by (simp add: signed_in_def)
next
  case (Cons raw raws)
  show ?case
  proof (cases rule: admit_raw_cases [of C st n raw])
    case skip
    then have "signed_in C (raw # raws) = signed_in C raws"
      by (auto simp: signed_in_Cons split: option.splits)
    with Cons.IH [of st n] Cons.prems skip(1) show ?thesis by simp
  next
    case (old c counter node)
    then have "signed_in C (raw # raws) = insert c (signed_in C raws)" by (simp add: signed_in_Cons)
    with Cons.IH [of "observe counter st" n] Cons.prems old show ?thesis by auto
  next
    case (fresh c counter node)
    then have "signed_in C (raw # raws) = insert c (signed_in C raws)" by (simp add: signed_in_Cons)
    moreover have "length (es_known (add_known C (oid_of C (Commit c)) st)) = Suc (length (es_known st))"
      using fresh(4) by (simp add: add_known_def commit_hex_def Let_def)
    ultimately show ?thesis
      using Cons.IH [of "observe counter (add_known C (oid_of C (Commit c)) st)" "n + 1"] Cons.prems fresh
      by (auto simp: commit_hex_def)
  qed
qed

lemma advances_admit:
  assumes "\<forall>raw \<in> set raws. \<exists>ob. decompress_and_parse C raw = Ok ob \<and> mem_has (me_store e) (oid_of C ob)"
    and "foldl (admit_raw C) (me_state e, n) raws = (st', n')"
  shows "advances C e (e\<lparr>me_state := st'\<rparr>)"
  using assms
proof (induction raws arbitrary: e n)
  case Nil
  then have "e\<lparr>me_state := st'\<rparr> = e" by (cases e) auto
  then show ?case using advances_refl by (simp add: reflp_def)
next
  case (Cons raw raws)
  have stored: "mem_has (me_store e) (oid_of C (Commit c))" if "raw_commit C raw = Some c" for c
    using that Cons.prems(1) by (auto simp: raw_commit_def split: sum.splits git_object.splits)
  have step: "advances C e (e\<lparr>me_state := st'\<rparr>)"
    if "advances C e (e\<lparr>me_state := st\<rparr>)" "foldl (admit_raw C) (st, k) raws = (st', n')" for st k
    using advances_step [OF that(1)] Cons.IH [of "e\<lparr>me_state := st\<rparr>" k] Cons.prems(1) that(2) by simp
  show ?case
  proof (cases rule: admit_raw_cases [of C "me_state e" n raw])
    case skip
    with Cons.prems Cons.IH [of e n] show ?thesis by simp
  next
    case (old c counter node)
    have "advances C e (e\<lparr>me_state := observe counter (me_state e)\<rparr>)"
      by (rule advances_counters) (auto simp: le_max_iff_disj)
    with step Cons.prems(2) old(5) show ?thesis by simp
  next
    case (fresh c counter node)
    let ?f = "e\<lparr>me_state := observe counter (me_state e)\<rparr>"
    have "advances C e ?f" by (rule advances_counters) (auto simp: le_max_iff_disj)
    moreover have "advances C ?f (on_state (add_known C (oid_of C (Commit c))) ?f)"
      using fresh stored by (intro advances_add_known [of C c node counter]) simp_all
    moreover have "on_state (add_known C (oid_of C (Commit c))) ?f =
        e\<lparr>me_state := observe counter (add_known C (oid_of C (Commit c)) (me_state e))\<rparr>"
      by (simp add: on_state_def add_known_def observe_def Let_def)
    ultimately have "advances C e (e\<lparr>me_state := observe counter (add_known C (oid_of C (Commit c)) (me_state e))\<rparr>)"
      using advances_step by metis
    with step Cons.prems(2) fresh(5) show ?thesis by simp
  qed
qed

text \<open>The four ways an integration ends before the fold.\<close>

lemma integrate_cases:
  assumes "integrate C raws e = (e', r)"
  obtains (bad_object) s er where "put_raws C raws (me_store e) = (s, Err er)" and "e' = e\<lparr>me_store := s\<rparr>" and "r = Err er"
  | (no_verdict) s s' er where "put_raws C raws (me_store e) = (s, Ok ())" and "any_rejected C raws s = (s', Err er)"
      and "e' = e\<lparr>me_store := s'\<rparr>" and "r = Err er"
  | (dropped) s s' where "put_raws C raws (me_store e) = (s, Ok ())" and "any_rejected C raws s = (s', Ok True)"
      and "e' = e\<lparr>me_store := s'\<rparr>" and "r = Ok 0"
  | (admitted) s s' st n where "put_raws C raws (me_store e) = (s, Ok ())" and "any_rejected C raws s = (s', Ok False)"
      and "foldl (admit_raw C) (me_state e, 0) raws = (st, n)"
      and "(if n > 0 then recompute C else sret ()) (e\<lparr>me_store := s', me_state := st\<rparr>) = (e', map_sum id (\<lambda>_. ()) r)"
      and "is_ok r \<Longrightarrow> r = Ok n"
proof -
  obtain s q where put: "put_raws C raws (me_store e) = (s, q)" by fastforce
  show thesis
  proof (cases q)
    case (Inl er)
    with assms put that(1) [of s er] show thesis by (auto simp: integrate_def sbind_def on_store_def)
  next
    case (Inr u)
    obtain s' v where rej: "any_rejected C raws s = (s', v)" by fastforce
    obtain st n where adm: "foldl (admit_raw C) (me_state e, 0) raws = (st, n)" by fastforce
    show thesis
    proof (cases v)
      case (Inl er)
      with assms put rej \<open>q = Inr u\<close> that(2) [of s s' er] show thesis
        by (auto simp: integrate_def sbind_def on_store_def)
    next
      case v: (Inr b)
      show thesis
      proof (cases b)
        case True
        with assms put rej v \<open>q = Inr u\<close> that(3) [of s s'] show thesis
          by (auto simp: integrate_def sbind_def on_store_def)
      next
        case False
        obtain f w where fin: "(if n > 0 then recompute C else sret ()) (e\<lparr>me_store := s', me_state := st\<rparr>) = (f, w)"
          by fastforce
        have "integrate C raws e = (f, rbind w (\<lambda>_. Ok n))"
          using put rej v False adm \<open>q = Inr u\<close> fin
          by (cases w) (simp_all add: integrate_def sbind_def on_store_def split del: if_split)
        then have "e' = f" "r = rbind w (\<lambda>_. Ok n)" using assms by simp_all
        moreover have "map_sum id (\<lambda>_. ()) r = w" using \<open>r = _\<close> by (cases w) simp_all
        moreover have "is_ok r \<Longrightarrow> r = Ok n" using \<open>r = _\<close> by (cases w) simp_all
        ultimately show thesis
          using that(4) [of s s' st n] put rej v False adm fin \<open>q = Inr u\<close> by simp
      qed
    qed
  qed
qed

lemma advances_store:
  assumes "keeps (memE.grows C) m" and "m (me_store e) = (s, r)"
  shows "advances C e (e\<lparr>me_store := s\<rparr>)"
  using keepsD [OF advances_on_store [OF assms(1)], of e] assms(2) by (simp add: on_store_def)

lemma advances_received:
  assumes "put_raws C raws (me_store e) = (s, Ok ())" and "any_rejected C raws s = (s', q)"
  shows "advances C e (e\<lparr>me_store := s'\<rparr>)"
  using advances_step [OF advances_store [OF keeps_put_raws assms(1)]
      advances_store [OF keeps_any_rejected, of C raws "e\<lparr>me_store := s\<rparr>" s' q]] assms(2) by simp

lemma advances_integrate: "keeps (advances C) (integrate C raws)"
  unfolding keeps_def
proof
  fix e
  obtain e' r where run: "integrate C raws e = (e', r)" by fastforce
  from run show "advances C e (fst (integrate C raws e))"
  proof (cases rule: integrate_cases)
    case (bad_object s er)
    with run advances_store [OF keeps_put_raws bad_object(1)] show ?thesis by simp
  next
    case (no_verdict s s' er)
    with run advances_received show ?thesis by fastforce
  next
    case (dropped s s')
    with run advances_received show ?thesis by fastforce
  next
    case (admitted s s' st n)
    let ?f = "e\<lparr>me_store := s'\<rparr>"
    have f: "advances C e ?f" using admitted(1,2) by (rule advances_received)
    have "advances C ?f (?f\<lparr>me_state := st\<rparr>)" if "engine_inv C e"
    proof (rule advances_admit)
      have wf: "bt_wf (me_store e)" using that by (simp add: engine_inv_def)
      have "bt_wf s" using keepsD2 [OF keeps_put_raws admitted(1)] wf by (simp add: memE.grows_def)
      then have "get_le (mem_get C s) (mem_get C s')"
        using keepsD2 [OF keeps_any_rejected admitted(2)] by (simp add: memE.grows_def)
      with put_raws_stored [OF admitted(1) wf] mem_has_mono
      show "\<forall>raw \<in> set raws. \<exists>ob. decompress_and_parse C raw = Ok ob \<and> mem_has (me_store ?f) (oid_of C ob)"
        by fastforce
      show "foldl (admit_raw C) (me_state ?f, 0) raws = (st, n)" using admitted(3) by simp
    qed
    with f have "advances C e (?f\<lparr>me_state := st\<rparr>)"
      unfolding advances_def by (blast intro: get_le_trans order_trans)
    moreover have "keeps (advances C) (if n > 0 then recompute C else sret ())"
      by (simp add: advances_recompute advance_rules)
    from keepsD2 [OF this admitted(4)] have "advances C (?f\<lparr>me_state := st\<rparr>) e'" by simp
    ultimately show ?thesis using run advances_step by fastforce
  qed
qed

section \<open>Materializing\<close>

lemma plan_step_apply:
  "plan_path C on_disk (bt_get m p) p c = (new, b) \<Longrightarrow>
     plan_step C on_disk (ops, m) (p, c) = (ops @ new, if b then bt_insert p (blob_hash C c) m else m)"
  by (simp add: plan_step_def)

lemma plan_wf:
  "bt_wf m \<Longrightarrow> foldl (plan_step C on_disk) (ops, m) want = (ops', m') \<Longrightarrow> bt_wf m'"
proof (induction want arbitrary: ops m)
  case (Cons pc want)
  obtain p c where pc: "pc = (p, c)" by fastforce
  obtain new b where "plan_path C on_disk (bt_get m p) p c = (new, b)" by fastforce
  then have "foldl (plan_step C on_disk) (ops @ new, if b then bt_insert p (blob_hash C c) m else m) want = (ops', m')"
    using plan_step_apply Cons.prems(2) pc by simp
  moreover have "bt_wf (if b then bt_insert p (blob_hash C c) m else m)"
    using Cons.prems(1) by (simp add: bt_wf_insert)
  ultimately show ?case using Cons.IH by blast
qed simp

text \<open>The loop over the wanted files, path by path: a path is decided by the record it had before the loop.\<close>

lemma plan_fold:
  assumes "distinct (bt_keys want)" and "foldl (plan_step C on_disk) (ops, m) want = (ops', m')"
  shows "ops' = ops @ concat (map (\<lambda>(p, c). fst (plan_path C on_disk (bt_get m p) p c)) want)
    \<and> (\<forall>q. bt_get m' q =
        (case bt_get want q of
           None \<Rightarrow> bt_get m q
         | Some c \<Rightarrow> if snd (plan_path C on_disk (bt_get m q) q c) then Some (blob_hash C c) else bt_get m q))"
  using assms
proof (induction want arbitrary: ops m)
  case (Cons pc want)
  obtain p c where pc: "pc = (p, c)" by fastforce
  obtain new b where plan: "plan_path C on_disk (bt_get m p) p c = (new, b)" by fastforce
  define m1 where "m1 = (if b then bt_insert p (blob_hash C c) m else m)"
  have fresh: "p \<notin> set (bt_keys want)" using Cons.prems(1) pc by simp
  then have none: "bt_get want p = None" by (simp add: map_of_eq_None_iff)
  have other: "bt_get m1 q = bt_get m q" if "q \<noteq> p" for q using that by (simp add: m1_def bt_simps)
  have IH: "ops' = (ops @ new) @ concat (map (\<lambda>(p, c). fst (plan_path C on_disk (bt_get m1 p) p c)) want)
    \<and> (\<forall>q. bt_get m' q = (case bt_get want q of None \<Rightarrow> bt_get m1 q
         | Some c \<Rightarrow> if snd (plan_path C on_disk (bt_get m1 q) q c) then Some (blob_hash C c) else bt_get m1 q))"
    using Cons.prems pc plan_step_apply [OF plan, of ops] by (intro Cons.IH) (simp_all add: m1_def)
  have "map (\<lambda>(p, c). fst (plan_path C on_disk (bt_get m1 p) p c)) want =
      map (\<lambda>(p, c). fst (plan_path C on_disk (bt_get m p) p c)) want"
  proof (rule map_cong [OF refl])
    fix qd assume "qd \<in> set want"
    then have "fst qd \<noteq> p" using fresh by auto
    then show "(case qd of (p, c) \<Rightarrow> fst (plan_path C on_disk (bt_get m1 p) p c)) =
        (case qd of (p, c) \<Rightarrow> fst (plan_path C on_disk (bt_get m p) p c))"
      using other [of "fst qd"] by (cases qd) (simp only: prod.case fst_conv not_False_eq_True)
  qed
  then have "ops' = ops @ concat (map (\<lambda>(p, c). fst (plan_path C on_disk (bt_get m p) p c)) (pc # want))"
    using conjunct1 [OF IH] plan pc by (simp only: list.map prod.case fst_conv concat.simps append_assoc)
  moreover have "bt_get m' q =
        (case bt_get ((p, c) # want) q of
           None \<Rightarrow> bt_get m q
         | Some c \<Rightarrow> if snd (plan_path C on_disk (bt_get m q) q c) then Some (blob_hash C c) else bt_get m q)" for q
  proof (cases "q = p")
    case True
    with IH none plan show ?thesis by (simp add: m1_def bt_simps)
  next
    case False
    with IH other [OF False] show ?thesis by (cases "bt_get want q") simp_all
  qed
  ultimately show ?case using pc by blast
qed simp

lemma advances_materialize_plan: "keeps (advances C) (materialize_plan C on_disk)"
  unfolding keeps_def
proof
  fix e :: mem_engine
  let ?f = "e\<lparr>me_quarantines := []\<rparr>"
  have drained: "advances C e ?f" by (rule advances_local) simp_all
  have plan: "advances C ?f (on_state (\<lambda>st. st\<lparr>es_materialized := m'\<rparr>) ?f)"
    if "foldl (plan_step C on_disk) ([], filter P (es_materialized (me_state e))) want = (w, m')" for m' w P want
    by (rule advances_local) (use plan_wf [OF bt_wf_filter that] in \<open>simp_all add: on_state_def\<close>)
  show "advances C e (fst (materialize_plan C on_disk e))"
    using drained advances_step [OF drained plan]
    by (auto simp: materialize_plan_def Let_def sbind_def split: option.splits sum.splits prod.splits)
qed

lemma advances_materialize_staged: "keeps (advances C) (materialize_staged C)"
proof -
  have wf: "bt_wf w \<Longrightarrow> bt_wf (foldl (\<lambda>w op. apply_op op w) w ops)" for w ops
  proof (induction ops arbitrary: w)
    case (Cons op ops)
    then show ?case by (cases op) (simp_all add: bt_wf_insert bt_wf_remove)
  qed simp
  then have applied: "advances C e (e\<lparr>me_working := foldl (\<lambda>w op. apply_op op w) (me_working e) ops\<rparr>)" for e ops
    by (intro advances_local) simp_all
  have "keeps (advances C) (sbind (materialize_plan C w) (\<lambda>ops.
     sbind (smodify (\<lambda>e. e\<lparr>me_working := foldl (\<lambda>w op. apply_op op w) (me_working e) ops\<rparr>)) (\<lambda>_.
       sret ops)))" for w
    by (intro advance_rules advances_materialize_plan keeps_smodify applied)
  then show ?thesis by (simp add: keeps_def materialize_staged_def)
qed

section \<open>All operations\<close>

lemma advances_fold_subset: "keeps (advances C) (fold_subset C chosen)"
  unfolding fold_subset_def by (intro advance_rules advances_on_store memE.keeps_compute_main)

lemma advances_restore:
  "keeps (advances C) (restore_snapshot C name)" "keeps (advances C) (restore_time C t)"
  unfolding restore_snapshot_def restore_time_def by (intro advance_rules advances_fold_subset)+

lemma advances_snapshot: "keeps (advances C) (engine_snapshot C now name)"
  unfolding engine_snapshot_def by (intro advance_rules advances_on_state) simp_all

lemma advances_working:
  "(bt_wf (me_working e) \<Longrightarrow> bt_wf w) \<Longrightarrow> advances C e (e\<lparr>me_working := w\<rparr>)"
  by (rule advances_local) simp_all

lemma advances_authorized: "advances C e (e\<lparr>me_authorized := a\<rparr>)"
  by (rule advances_local) simp_all

lemma advances_authorize: "advances C e (authorize_with_expiry C line ex e)"
  using advances_authorized [of C e] advances_refl
  by (simp add: authorize_with_expiry_def Let_def reflp_def split: option.split)

lemma advances_admit_peer: "keeps (advances C) (admit_peer C now line flag)"
  using advances_authorized [of C] advances_refl
  by (simp add: keeps_def admit_peer_def Let_def reflp_def split: option.split)

text \<open>One call on an engine, as the host makes them: with any arguments, at any time, whatever it returns.\<close>

inductive engine_step :: "crates \<Rightarrow> mem_engine \<Rightarrow> mem_engine \<Rightarrow> bool" for C where
  ignore: "engine_step C e (set_ignore globs e)"
| pending: "engine_step C e (mark_bootstrap_pending e)"
| complete: "engine_step C e (mark_bootstrap_complete e)"
| stage: "engine_step C e (stage_write path content e)"
| unstage: "engine_step C e (stage_remove path e)"
| commit: "engine_step C e (fst (commit_staged C now wall e))"
| commit_set: "bt_wf files \<Longrightarrow> engine_step C e (fst (commit_from_files C now wall files e))"
| integrate: "engine_step C e (fst (integrate C raws e))"
| plan: "engine_step C e (fst (materialize_plan C on_disk e))"
| materialize: "engine_step C e (fst (materialize_staged C e))"
| authorize: "engine_step C e (authorize_with_expiry C line ex e)"
| admit: "engine_step C e (fst (admit_peer C now line flag e))"
| snapshot: "engine_step C e (fst (engine_snapshot C now name e))"
| restore: "engine_step C e (fst (restore_snapshot C name e))"
| restore_to: "engine_step C e (fst (restore_time C t e))"

lemma advances_engine_step:
  assumes "engine_step C e e'" and laws: "hex_laws C" "b64_laws C" "ed_laws C"
  shows "advances C e e'"
  using assms(1)
proof cases
  case (commit now wall)
  then show ?thesis using keepsD [OF advances_commit_staged [OF laws]] by simp
next
  case (commit_set files now wall)
  then show ?thesis using keepsD [OF advances_commit_from_files [OF laws]] by simp
next
  case (authorize line ex)
  then show ?thesis by (simp add: advances_authorize)
next
  case (pending)
  then show ?thesis by (auto simp: mark_bootstrap_pending_def on_state_def intro: advances_local)
next
  case (complete)
  then show ?thesis by (auto simp: mark_bootstrap_complete_def on_state_def intro: advances_local)
qed (auto simp: set_ignore_def stage_write_def stage_remove_def
    intro: advances_local advances_working bt_wf_insert bt_wf_remove keepsD [OF advances_integrate]
      keepsD [OF advances_materialize_plan] keepsD [OF advances_materialize_staged]
      keepsD [OF advances_admit_peer] keepsD [OF advances_snapshot] keepsD [OF advances_restore(1)]
      keepsD [OF advances_restore(2)])

lemma advances_steps:
  assumes "(engine_step C)\<^sup>*\<^sup>* e e'" and "hex_laws C" "b64_laws C" "ed_laws C"
  shows "advances C e e'"
  using assms(1)
proof (induction rule: rtranclp_induct)
  case base
  then show ?case using advances_refl by (simp add: reflp_def)
next
  case (step f g)
  then show ?case using advances_step advances_engine_step [OF _ assms(2-4)] by blast
qed

lemma created_inv:
  assumes "engine_create C ident vault_id name = Ok e"
  shows "engine_inv C e"
proof -
  obtain s r where run: "genesis C (mem_ops C) mem_new = (s, r)" by fastforce
  with assms obtain m where r: "r = Ok m" by (cases r) (simp_all add: engine_create_def)
  have "bt_wf mem_new" by (simp add: mem_new_def)
  then have "bt_wf s" "mem_has s m"
    using keepsD2 [OF memE.keeps_genesis run] memE.genesis_stored run r by (auto simp: memE.grows_def)
  then show ?thesis
    using assms run r by (auto simp: engine_create_def Let_def engine_inv_def default_state_def known_wf_def)
qed

section \<open>The engine under a session\<close>

interpretation engine: session_vault "engine_ops C now" "advances C"
  for C now
proof
  show "reflp (advances C)" by (rule advances_refl)
  show "transp (advances C)" by (rule advances_trans)
  show "keeps (advances C) (vo_integrate (engine_ops C now) raws)" for raws
    by (simp add: engine_ops_def advances_integrate)
  show "keeps (advances C) (vo_admit_peer (engine_ops C now) peer flag)" for peer flag
    by (simp add: engine_ops_def advances_admit_peer)
  show "advances C v (vo_mark_bootstrap_complete (engine_ops C now) v)" for v
    using advances_local [of "mark_bootstrap_complete v" v]
    by (simp add: engine_ops_def mark_bootstrap_complete_def on_state_def)
qed

end
