(* ===== verification/Commit_Facts.thy ===== *)
theory Commit_Facts
  imports Engine_Facts
begin

text \<open>
  What a commit of the working files does, path by path, and what it leaves in the engine: the guard against
  re-adding deleted files, the test for a genuine change, and the primitive that is published.
\<close>

section \<open>The guard against ghost adds\<close>

text \<open>The verdict on one path, from the tree of the parent, the history of the parent and the record of what
  was materialized.\<close>

datatype verdict = Publish | Readd oid | Stale

definition path_verdict :: "crates \<Rightarrow> getter \<Rightarrow> oid \<Rightarrow> oid \<Rightarrow> (string \<times> string) list \<Rightarrow> string \<Rightarrow> verdict res" where
  "path_verdict C get parent parent_tree materialized path =
     rbind (path_present_in_tree get parent_tree path) (\<lambda>present.
       if present then Ok Publish
       else
         rbind (most_recent_touch_uncached C get parent path) (\<lambda>touch.
           Ok (case touch of
                 Some (d, Delete) \<Rightarrow> if bt_contains materialized path then Stale else Readd d
               | _ \<Rightarrow> Publish)))"

fun verdict_step ::
  "string \<Rightarrow> files \<times> oid list \<times> materialize_op list \<Rightarrow> string \<times> bytes \<Rightarrow> verdict
    \<Rightarrow> files \<times> oid list \<times> materialize_op list"
where
  "verdict_step ts (filtered, readds, qs) (path, content) Publish = (bt_insert path content filtered, readds, qs)"
| "verdict_step ts (filtered, readds, qs) (path, content) (Readd d) =
     (bt_insert path content filtered, if d \<in> set readds then readds else readds @ [d], qs)"
| "verdict_step ts (filtered, readds, qs) (path, content) Stale =
     (filtered, readds, qs @ [Quarantine path (CONTEXT_ORPHANS_DIR @ ''/'' @ ts @ ''/'' @ path)])"

lemma classify_path_verdict:
  "classify_path C get parent parent_tree materialized ts acc (p, c) =
     rbind (path_verdict C get parent parent_tree materialized p) (\<lambda>v. Ok (verdict_step ts acc (p, c) v))"
proof -
  obtain filtered readds qs where acc: "acc = (filtered, readds, qs)" by (cases acc)
  show ?thesis
  proof (cases "path_present_in_tree get parent_tree p")
    case (Inl e)
    then show ?thesis by (simp add: acc classify_path_def path_verdict_def)
  next
    case present: (Inr b)
    show ?thesis
    proof (cases "most_recent_touch_uncached C get parent p")
      case (Inl e)
      with present show ?thesis by (simp add: acc classify_path_def path_verdict_def)
    next
      case (Inr t)
      with present show ?thesis
        by (auto simp: acc classify_path_def path_verdict_def split: option.split touch_kind.split)
    qed
  qed
qed

lemma guard_acc:
  assumes "rfold (classify_path C get parent tree mat ts) (filtered0, readds0, qs0) scoped = Ok (filtered, readds, qs)"
    and "bt_wf (filtered0 @ scoped)" and "distinct readds0"
  defines "verdict \<equiv> path_verdict C get parent tree mat"
  shows "filtered = filtered0 @ filter (\<lambda>(p, c). verdict p \<noteq> Ok Stale) scoped
    \<and> set readds = set readds0 \<union> {d. \<exists>(p, c) \<in> set scoped. verdict p = Ok (Readd d)} \<and> distinct readds
    \<and> qs = qs0 @ map (\<lambda>(p, c). Quarantine p (CONTEXT_ORPHANS_DIR @ ''/'' @ ts @ ''/'' @ p))
                  (filter (\<lambda>(p, c). verdict p = Ok Stale) scoped)
    \<and> (\<forall>(p, c) \<in> set scoped. \<exists>v. verdict p = Ok v)"
  using assms(1-3)
proof (induction scoped arbitrary: filtered0 readds0 qs0)
  case Nil
  then show ?case by simp
next
  case (Cons pc scoped)
  obtain p c where pc: "pc = (p, c)" by fastforce
  from Cons.prems(1) obtain v where v: "verdict p = Ok v"
    and rest: "rfold (classify_path C get parent tree mat ts) (verdict_step ts (filtered0, readds0, qs0) (p, c) v) scoped
        = Ok (filtered, readds, qs)"
    by (auto simp: pc classify_path_verdict verdict_def res_simps)
  have before: "\<And>a. a \<in> set (bt_keys filtered0) \<Longrightarrow> a < p"
    using Cons.prems(2) by (auto simp: pc bt_wf_def sorted_wrt_append)
  have ins: "bt_insert p c filtered0 = filtered0 @ [(p, c)]" by (rule bt_insert_snoc) (rule before)
  have wf: "bt_wf ((filtered0 @ [(p, c)]) @ scoped)" "bt_wf (filtered0 @ scoped)"
    using Cons.prems(2) by (auto simp: pc bt_wf_def sorted_wrt_append)
  show ?case
  proof (cases v)
    case Publish
    with rest ins have "rfold (classify_path C get parent tree mat ts) (filtered0 @ [(p, c)], readds0, qs0) scoped
        = Ok (filtered, readds, qs)" by simp
    from Cons.IH [OF this wf(1) Cons.prems(3)] show ?thesis using v Publish by (auto simp: pc)
  next
    case (Readd d)
    let ?readds = "if d \<in> set readds0 then readds0 else readds0 @ [d]"
    from Readd rest ins have "rfold (classify_path C get parent tree mat ts) (filtered0 @ [(p, c)], ?readds, qs0) scoped
        = Ok (filtered, readds, qs)" by simp
    from Cons.IH [OF this wf(1)] Cons.prems(3) show ?thesis using v Readd by (auto simp: pc)
  next
    case Stale
    with rest have "rfold (classify_path C get parent tree mat ts)
        (filtered0, readds0, qs0 @ [Quarantine p (CONTEXT_ORPHANS_DIR @ ''/'' @ ts @ ''/'' @ p)]) scoped
        = Ok (filtered, readds, qs)" by simp
    from Cons.IH [OF this wf(2) Cons.prems(3)] show ?thesis using v Stale by (auto simp: pc)
  qed
qed

lemma ghost_guard_spec:
  assumes "ghost_guard C get parent tree mat ts scoped = Ok (filtered, readds, qs)" and "bt_wf scoped"
  shows "filtered = filter (\<lambda>(p, c). path_verdict C get parent tree mat p \<noteq> Ok Stale) scoped"
    and "set readds = {d. \<exists>(p, c) \<in> set scoped. path_verdict C get parent tree mat p = Ok (Readd d)}"
    and "distinct readds"
    and "qs = map (\<lambda>(p, c). Quarantine p (CONTEXT_ORPHANS_DIR @ ''/'' @ ts @ ''/'' @ p))
                (filter (\<lambda>(p, c). path_verdict C get parent tree mat p = Ok Stale) scoped)"
    and "\<forall>(p, c) \<in> set scoped. \<exists>v. path_verdict C get parent tree mat p = Ok v"
  using guard_acc [of C get parent tree mat ts "[]" "[]" "[]" scoped filtered readds qs] assms
  by (simp_all add: ghost_guard_def)

section \<open>A genuine change\<close>

lemma hashes_get:
  assumes "bt_wf files"
  shows "bt_get (hashes C files) p = map_option (blob_hash C) (bt_get files p)"
proof -
  have "map fst (map (\<lambda>(p, c). (p, blob_hash C c)) files) = bt_keys files" by (induction files) auto
  then have "bt_get (hashes C files) p = map_of (map (\<lambda>(p, c). (p, blob_hash C c)) files) p"
    unfolding hashes_def using bt_get_collect_distinct bt_wf_distinct [OF assms] by metis
  then show ?thesis by (simp add: map_of_map)
qed

lemma hashes_wf [simp]: "bt_wf (hashes C files)"
  by (simp add: hashes_def)

text \<open>The test of the source says whether the record of materialized hashes would change.\<close>

lemma genuine_change_iff:
  assumes "bt_wf mat" and "bt_wf files"
  shows "genuine_change C mat files \<longleftrightarrow> hashes C files \<noteq> mat"
proof
  assume "genuine_change C mat files"
  then consider p c where "(p, c) \<in> set files" "bt_get mat p \<noteq> Some (blob_hash C c)"
    | p where "p \<in> set (bt_keys mat)" "\<not> bt_contains files p"
    by (auto simp: genuine_change_def list_ex_iff)
  then show "hashes C files \<noteq> mat"
  proof cases
    case 1
    then have "bt_get files p = Some c" using assms(2) by (simp add: bt_get_mem)
    then have "bt_get (hashes C files) p = Some (blob_hash C c)" using assms(2) by (simp add: hashes_get)
    with 1 show ?thesis by auto
  next
    case 2
    then have "bt_get mat p \<noteq> None" "bt_get (hashes C files) p = None"
      using assms(2) by (simp_all add: hashes_get bt_contains_get map_of_eq_None_iff)
    then show ?thesis by auto
  qed
next
  assume differ: "hashes C files \<noteq> mat"
  show "genuine_change C mat files"
  proof (rule ccontr)
    assume "\<not> genuine_change C mat files"
    then have same: "\<And>p c. (p, c) \<in> set files \<Longrightarrow> bt_get mat p = Some (blob_hash C c)"
      and within: "\<And>p. p \<in> set (bt_keys mat) \<Longrightarrow> bt_contains files p"
      by (auto simp: genuine_change_def list_ex_iff)
    have "bt_get (hashes C files) p = bt_get mat p" for p
    proof (cases "bt_get files p")
      case None
      then have "p \<notin> set (bt_keys mat)" using within [of p] by (auto simp: bt_contains_get)
      then have "bt_get mat p = None" by (simp add: map_of_eq_None_iff)
      with None assms(2) show ?thesis by (simp add: hashes_get)
    next
      case (Some c)
      then have "(p, c) \<in> set files" by (rule map_of_SomeD)
      with same [of p c] Some assms(2) show ?thesis by (simp add: hashes_get)
    qed
    with assms(1) have "hashes C files = mat" by (intro bt_ext) simp_all
    with differ show False by contradiction
  qed
qed

section \<open>What a commit leaves\<close>

lemma recompute_shape:
  assumes "recompute C e = (e', r)"
  shows "\<exists>s m. e' = e\<lparr>me_store := s, me_main := m\<rparr>"
proof (cases "known_oids C (me_state e)")
  case (Inl er)
  with assms have "e' = e\<lparr>me_store := me_store e, me_main := me_main e\<rparr>" by (simp add: recompute_def sbind_def)
  then show ?thesis by blast
next
  case (Inr known)
  obtain s q where run: "compute_main C (mem_ops C) known (me_store e) = (s, q)" by fastforce
  show ?thesis
  proof (cases q)
    case (Inl er)
    with Inr run assms have "e' = e\<lparr>me_store := s, me_main := me_main e\<rparr>"
      by (cases e) (auto simp: recompute_def sbind_def on_store_def)
    then show ?thesis by blast
  next
    case (Inr m)
    with \<open>known_oids C (me_state e) = _\<close> run assms have "e' = e\<lparr>me_store := s, me_main := Some m\<rparr>"
      by (simp add: recompute_def sbind_def on_store_def)
    then show ?thesis by blast
  qed
qed

lemma engine_write_tree_Ok:
  obtains s where "engine_write_tree C files e = (e\<lparr>me_store := s\<rparr>, Ok (snd (write_tree_from_files C files)))"
proof -
  obtain objs root where w: "write_tree_from_files C files = (objs, root)" by fastforce
  obtain s where "put_all (mem_ops C) objs (me_store e) = (s, Ok ())"
    using memE.put_all_ok [of C objs "me_store e"] by (cases "put_all (mem_ops C) objs (me_store e)") auto
  with w that show thesis by (simp add: engine_write_tree_def sbind_def on_store_def)
qed

lemma built_message:
  "build_primitive_with_readd C i t parent counter wall subject readds = Commit c \<Longrightarrow>
     \<exists>raw. co_message c = primitive_body C (id_node C i) counter subject readds @ SIG_TRAILER @ c_b64enc C raw @ [nl]"
  by (auto simp: build_primitive_with_readd_def Let_def)

text \<open>The primitive that is published, and the engine afterwards: everything but store and main is known.\<close>

lemma publish_Ok:
  assumes laws: "hex_laws C" "b64_laws C" "ed_laws C"
    and run: "publish C wall parent filtered readds e = (e', Ok r)"
  obtains c s m where "r = Some (oid_of C (Commit c))"
    and "verify_primitive C c = Ok (id_node C (me_identity e))"
    and "parse_primitive_meta C c = Some (es_observed (me_state e) + 1, id_node C (me_identity e))"
    and "co_parents c = [parent]" and "co_tree c = snd (write_tree_from_files C filtered)"
    and "parse_primitive_readds C c = readds"
    and "e' = e\<lparr>me_store := s, me_main := m,
        me_state := (add_known C (oid_of C (Commit c)) (fst (next_counter (me_state e))))\<lparr>es_materialized := hashes C filtered\<rparr>\<rparr>"
proof -
  obtain s0 where w: "engine_write_tree C filtered e = (e\<lparr>me_store := s0\<rparr>, Ok (snd (write_tree_from_files C filtered)))"
    by (rule engine_write_tree_Ok)
  obtain st counter where n: "next_counter (me_state e) = (st, counter)" by fastforce
  then have counter: "counter = es_observed (me_state e) + 1" by (auto simp: next_counter_def Let_def)
  obtain c where b: "build_primitive_with_readd C (me_identity e) (snd (write_tree_from_files C filtered)) parent
      counter wall ''ctx edit'' readds = Commit c"
    using build_primitive_commit by blast
  define s1 where "s1 = fst (mem_put C (Commit c) s0)"
  define f where "f = e\<lparr>me_store := s1, me_state := add_known C (oid_of C (Commit c)) st\<rparr>"
  have "authored C (snd (write_tree_from_files C filtered)) parent wall readds (e\<lparr>me_store := s0\<rparr>) = (f, Commit c)"
    by (simp add: authored_def n b Let_def f_def s1_def)
  with run w have settle: "settle C filtered (oid_of C (Commit c)) f = (e', Ok r)"
    by (simp add: publish_eq sbind_def)
  then obtain g where "recompute C f = (g, Ok ())"
    and e': "e' = on_state (\<lambda>st. st\<lparr>es_materialized := hashes C filtered\<rparr>) g" and r: "r = Some (oid_of C (Commit c))"
    by (auto simp: settle_def sbind_Ok_iff)
  from recompute_shape [OF this(1)] obtain s m where "g = f\<lparr>me_store := s, me_main := m\<rparr>" by blast
  with e' have e'': "e' = e\<lparr>me_store := s, me_main := m,
        me_state := (add_known C (oid_of C (Commit c)) (fst (next_counter (me_state e))))\<lparr>es_materialized := hashes C filtered\<rparr>\<rparr>"
    by (simp add: on_state_def f_def n)
  have readd: "parse_primitive_readds C c = readds"
  proof -
    define node where "node = id_node C (me_identity e)"
    obtain raw where "co_message c = primitive_body C node counter ''ctx edit'' readds @ SIG_TRAILER @ c_b64enc C raw @ [nl]"
      using built_message [OF b] by (auto simp: node_def)
    from built_readds [OF laws(1) b64enc_solid [OF laws(2)] this] obtain pre where "parse_primitive_readds C c = pre @ readds"
      and "list_all (\<lambda>l. \<not> starts_with READD_TRAILER (strip_cr l)) (str_split nl ''ctx edit'') \<longrightarrow> pre = []"
      by blast
    then show ?thesis
      by (simp add: starts_with_def READD_TRAILER_def strip_cr_def strip_suffix_def)
  qed
  show thesis
    by (rule that [OF r _ _ _ _ readd e'']) (use built_verifies [OF laws b] counter in simp_all)
qed

text \<open>The paths the guard lets through, in the order of the working set.\<close>

definition published :: "crates \<Rightarrow> getter \<Rightarrow> oid \<Rightarrow> oid \<Rightarrow> (string \<times> string) list \<Rightarrow> files \<Rightarrow> files" where
  "published C get parent tree mat scoped =
     filter (\<lambda>(p, c). path_verdict C get parent tree mat p \<noteq> Ok Stale) scoped"

definition ghosts :: "crates \<Rightarrow> getter \<Rightarrow> oid \<Rightarrow> oid \<Rightarrow> (string \<times> string) list \<Rightarrow> u64 \<Rightarrow> files \<Rightarrow> materialize_op list" where
  "ghosts C get parent tree mat now scoped =
     map (\<lambda>(p, c). Quarantine p (CONTEXT_ORPHANS_DIR @ ''/'' @ orphans_bucket now @ ''/'' @ p))
       (filter (\<lambda>(p, c). path_verdict C get parent tree mat p = Ok Stale) scoped)"

lemma published_wf: "bt_wf scoped \<Longrightarrow> bt_wf (published C get parent tree mat scoped)"
  by (simp add: published_def bt_wf_filter)

lemma commit_scoped_Ok:
  assumes run: "commit_scoped C now wall scoped e = (e', Ok r)" and main: "me_main e = Some parent"
    and ready: "\<not> es_bootstrap_pending (me_state e)" and wf: "bt_wf scoped"
  obtains tree readds where "main_tree (me_get C e) parent = Ok tree"
    and "\<forall>(p, c) \<in> set scoped. \<exists>v. path_verdict C (me_get C e) parent tree (es_materialized (me_state e)) p = Ok v"
    and "set readds = {d. \<exists>(p, c) \<in> set scoped.
        path_verdict C (me_get C e) parent tree (es_materialized (me_state e)) p = Ok (Readd d)}" and "distinct readds"
    and "(let f = apply_quarantines (ghosts C (me_get C e) parent tree (es_materialized (me_state e)) now scoped) e;
              files = published C (me_get C e) parent tree (es_materialized (me_state e)) scoped
          in if genuine_change C (es_materialized (me_state f)) files then publish C wall parent files readds f
             else (f, Ok None)) = (e', Ok r)"
proof -
  from run main ready have "commit_onto C now wall scoped parent e = (e', Ok r)"
    by (simp add: commit_scoped_def sbind_def)
  then obtain tree filtered readds qs where tree: "main_tree (me_get C e) parent = Ok tree"
    and guard: "ghost_guard C (me_get C e) parent tree (es_materialized (me_state e)) (orphans_bucket now) scoped
        = Ok (filtered, readds, qs)"
    and rest: "(if \<not> genuine_change C (es_materialized (me_state (apply_quarantines qs e))) filtered
        then (apply_quarantines qs e, Ok None)
        else publish C wall parent filtered readds (apply_quarantines qs e)) = (e', Ok r)"
    unfolding commit_onto_def sbind_Ok_iff by (auto simp: sbind_apply)
  note spec = ghost_guard_spec [OF guard wf]
  have "filtered = published C (me_get C e) parent tree (es_materialized (me_state e)) scoped"
    and "qs = ghosts C (me_get C e) parent tree (es_materialized (me_state e)) now scoped"
    using spec(1,4) by (simp_all add: published_def ghosts_def)
  with that [OF tree spec(5,2,3)] rest show thesis by (simp add: Let_def split: if_splits)
qed

section \<open>The quarantines of a commit\<close>

definition quarantine_path :: "materialize_op \<Rightarrow> string option" where
  "quarantine_path op = (case op of Quarantine from to \<Rightarrow> Some from | _ \<Rightarrow> None)"

lemma apply_quarantines_sel:
  "me_quarantines (apply_quarantines qs e) = me_quarantines e @ qs"
  "es_materialized (me_state (apply_quarantines qs e)) =
     filter (\<lambda>(p, h). Some p \<notin> quarantine_path ` set qs) (es_materialized (me_state e))"
  "es_known (me_state (apply_quarantines qs e)) = es_known (me_state e)"
  "es_observed (me_state (apply_quarantines qs e)) = es_observed (me_state e)"
  "me_main (apply_quarantines qs e) = me_main e" "me_store (apply_quarantines qs e) = me_store e"
  "me_identity (apply_quarantines qs e) = me_identity e"
proof -
  let ?drop = "\<lambda>e q. case q of Quarantine from to \<Rightarrow> drop_path from e | _ \<Rightarrow> e"
  have "es_materialized (me_state (foldl ?drop e qs)) =
      filter (\<lambda>(p, h). Some p \<notin> quarantine_path ` set qs) (es_materialized (me_state e))"
    and "es_known (me_state (foldl ?drop e qs)) = es_known (me_state e)"
    and "es_observed (me_state (foldl ?drop e qs)) = es_observed (me_state e)"
    and "me_main (foldl ?drop e qs) = me_main e" and "me_store (foldl ?drop e qs) = me_store e"
    and "me_identity (foldl ?drop e qs) = me_identity e" for e
    by (induction qs arbitrary: e)
      (auto simp: quarantine_path_def drop_path_def bt_remove_def case_prod_beta split: materialize_op.split
        intro!: filter_cong)
  then show "me_quarantines (apply_quarantines qs e) = me_quarantines e @ qs"
    "es_materialized (me_state (apply_quarantines qs e)) =
       filter (\<lambda>(p, h). Some p \<notin> quarantine_path ` set qs) (es_materialized (me_state e))"
    "es_known (me_state (apply_quarantines qs e)) = es_known (me_state e)"
    "es_observed (me_state (apply_quarantines qs e)) = es_observed (me_state e)"
    "me_main (apply_quarantines qs e) = me_main e" "me_store (apply_quarantines qs e) = me_store e"
    "me_identity (apply_quarantines qs e) = me_identity e"
    by (simp_all add: apply_quarantines_def)
qed

lemma quarantined_ghosts:
  "Some p \<in> quarantine_path ` set (ghosts C get parent tree mat now scoped) \<longleftrightarrow>
     (\<exists>c. (p, c) \<in> set scoped) \<and> path_verdict C get parent tree mat p = Ok Stale"
  by (force simp: ghosts_def quarantine_path_def)

section \<open>The fold commits of a batch\<close>

lemma recompute_stored:
  assumes "(if b then recompute C else sret ()) e = (e', r)" and "bt_wf (me_store e)" and "mem_has (me_store e) x"
  shows "mem_has (me_store e') x"
proof (cases "b \<and> is_ok (known_oids C (me_state e))")
  case True
  then obtain known where known: "known_oids C (me_state e) = Ok known" by (auto simp: is_ok_iff)
  obtain s q where run: "compute_main C (mem_ops C) known (me_store e) = (s, q)" by fastforce
  then have "get_le (mem_get C (me_store e)) (mem_get C s)"
    using keepsD2 [OF memE.keeps_compute_main run] assms(2) by (simp add: memE.grows_def)
  then have "mem_has s x" using assms(3) by (rule mem_has_mono)
  moreover have "me_store e' = s"
    using assms(1) True known run by (cases q) (auto simp: recompute_def sbind_def on_store_def)
  ultimately show ?thesis by simp
next
  case False
  then have "me_store e' = me_store e"
    using assms(1) by (cases "known_oids C (me_state e)") (auto simp: recompute_def sbind_def split: if_splits)
  with assms(3) show ?thesis by simp
qed

text \<open>The fold commits among the raw objects.\<close>

definition raw_fold :: "crates \<Rightarrow> bytes \<Rightarrow> commit_obj option" where
  "raw_fold C raw =
     (case raw_commit C raw of None \<Rightarrow> None | Some c \<Rightarrow> if is_primitive C c then None else Some c)"

lemma none_rejected:
  assumes "any_rejected C raws s = (s', Ok False)" and "raw \<in> set raws" and "raw_fold C raw = Some c"
    and "bt_wf s"
  obtains u where "snd (verify_fold_commit C (mem_ops C) (oid_of C (Commit c)) u) = Ok ()"
    and "get_le (mem_get C s) (mem_get C u)" and "bt_wf u"
  using assms
proof (induction raws arbitrary: s thesis)
  case Nil
  then show ?case by simp
next
  case (Cons r raws)
  have refl: "get_le (mem_get C s) (mem_get C s)" by (rule get_le_refl)
  show ?case
  proof (cases "raw_fold C r")
    case None
    then have "any_rejected C raws s = (s', Ok False)" "raw \<in> set raws"
      using Cons.prems(2,3,4) by (auto simp: raw_fold_def split: option.split_asm if_split_asm)
    with Cons.IH Cons.prems(1,4,5) show ?thesis by blast
  next
    case (Some d)
    let ?v = "verify_fold_commit C (mem_ops C) (oid_of C (Commit d))"
    obtain t where rej: "rejected ?v s = (t, Ok False)" and rest: "any_rejected C raws t = (s', Ok False)"
      using Cons.prems(2) Some by (auto simp: raw_fold_def sbind_Ok_iff split: option.split_asm if_split_asm)
    have v: "?v s = (t, Ok ())"
      using rej by (auto simp: rejected_def split: prod.split_asm sum.split_asm csp_error.split_asm)
    have t: "get_le (mem_get C s) (mem_get C t)" "bt_wf t"
      using keepsD2 [OF memE.keeps_verify v] Cons.prems(5) by (simp_all add: memE.grows_def)
    show ?thesis
    proof (cases "raw = r")
      case True
      with Cons.prems(1) [of s] v refl Some Cons.prems(4,5) show ?thesis by simp
    next
      case False
      then have "raw \<in> set raws" using Cons.prems(3) by simp
      from Cons.IH [OF _ rest this Cons.prems(4) t(2)] obtain u
        where "snd (verify_fold_commit C (mem_ops C) (oid_of C (Commit c)) u) = Ok ()"
          "get_le (mem_get C t) (mem_get C u)" "bt_wf u" by blast
      with Cons.prems(1) t(1) get_le_trans show ?thesis by blast
    qed
  qed
qed

end
