(* ===== verification/Object_Facts.thy ===== *)
theory Object_Facts
  imports Identity
begin

text \<open>
  The object codec is inverted by the parser: blobs, trees up to the order of their entries, and every commit
  whose identities print on one line.
\<close>

section \<open>The frame\<close>

lemma split_once_append: "c \<notin> set s \<Longrightarrow> split_once c (s @ c # t) = Some (s, t)"
  by (simp add: split_once_def str_find_append)

lemma parse_framed_frame:
  assumes "length p < 2 ^ 64" and "list_all solid k" and "nul \<notin> set k"
  shows "parse_framed C (k @ '' '' @ dec (length p) @ [nul] @ p) =
    (if k = ''blob'' then Ok (Blob p)
     else if k = ''tree'' then rbind (parse_tree p) (\<lambda>es. Ok (Tree es))
     else if k = ''commit'' then rbind (parse_commit C p) (\<lambda>c. Ok (Commit c))
     else Err (Malformed ''unknown object kind''))"
proof -
  have digits: "list_all is_digit (dec (length p))" by (rule dec_digits)
  then have no: "nul \<notin> set (dec (length p))" by (auto simp: list_all_iff is_digit_def)
  then have "split_once nul ((k @ '' '' @ dec (length p)) @ nul # p) = Some (k @ '' '' @ dec (length p), p)"
    using assms(3) by (intro split_once_append) auto
  moreover have "is_ascii (k @ '' '' @ dec (length p))"
    using is_ascii_solid [OF assms(2)] is_ascii_solid [OF dec_solid] by (simp add: is_ascii_char_def)
  then have "from_utf8_ok (k @ '' '' @ dec (length p))" by (rule from_utf8_ok_ascii)
  moreover have "CHR '' '' \<notin> set k" using assms(2) by (auto simp: list_all_iff solid_def)
  then have "split_once (CHR '' '') (k @ CHR '' '' # dec (length p)) = Some (k, dec (length p))"
    by (rule split_once_append)
  moreover have "parse_u64 (dec (length p)) = Some (of_nat (length p))"
    using parse_u64_dec [of "of_nat (length p)"] assms(1) by (simp add: unat_of_nat)
  moreover have "unat (of_nat (length p) :: u64) = length p" using assms(1) by (simp add: unat_of_nat)
  ultimately show ?thesis by (simp add: parse_framed_def)
qed

section \<open>Trees\<close>

definition entry_wf :: "tree_entry \<Rightarrow> bool" where
  "entry_wf e \<longleftrightarrow> from_utf8_ok (te_mode e) \<and> CHR '' '' \<notin> set (te_mode e)
     \<and> from_utf8_ok (te_name e) \<and> nul \<notin> set (te_name e)"

lemma parse_tree_entry:
  assumes "entry_wf e"
  shows "parse_tree (entry_bytes e @ p) = rbind (parse_tree p) (\<lambda>es. Ok (e # es))"
proof -
  let ?tail = "te_name e @ nul # oid_bytes (te_oid e) @ p"
  have bytes: "entry_bytes e @ p = te_mode e @ CHR '' '' # ?tail" by (simp add: entry_bytes_def)
  have "str_find (CHR '' '') (te_mode e @ CHR '' '' # ?tail) = Some (length (te_mode e))"
    using assms by (intro str_find_append) (simp add: entry_wf_def)
  moreover have "str_find nul ?tail = Some (length (te_name e))"
    using assms by (intro str_find_append) (simp add: entry_wf_def)
  ultimately show ?thesis
    unfolding bytes using assms
    by (subst parse_tree.simps) (cases e, simp add: entry_wf_def Let_def)
qed

lemma parse_tree_entries: "list_all entry_wf es \<Longrightarrow> parse_tree (concat (map entry_bytes es)) = Ok es"
proof (induction es)
  case Nil
  show ?case by (simp add: parse_tree.simps)
next
  case (Cons e es)
  then show ?case by (simp add: parse_tree_entry)
qed

section \<open>Commits\<close>

text \<open>An identity that a header line can hold: solid, and no bracket in it.\<close>

definition ident_wf :: "string \<Rightarrow> string \<Rightarrow> bool" where
  "ident_wf name email \<longleftrightarrow> list_all solid name \<and> list_all solid email
     \<and> set name \<inter> {CHR ''<'', CHR ''>''} = {} \<and> CHR ''>'' \<notin> set email"

definition commit_wf :: "commit_obj \<Rightarrow> bool" where
  "commit_wf c \<longleftrightarrow> ident_wf (co_author c) (co_author_email c) \<and> ident_wf (co_committer c) (co_committer_email c)
     \<and> from_utf8_ok (co_message c)"

lemma solid_chars: "list_all solid w \<Longrightarrow> str_chars (w @ CHR '' '' # s) = map (\<lambda>c. [c]) w @ '' '' # str_chars s"
  by (simp add: str_chars_append_ascii is_ascii_char_def str_chars_ascii is_ascii_solid)

lemma ws_space [simp]: "is_ws '' ''"
  by (simp add: is_ws_def ws_chars_def)

lemma str_trim_end_ws:
  assumes "list_all solid w" and "is_ascii_char c" and "\<not> solid c"
  shows "str_trim (w @ [c]) = w"
proof (cases w)
  case Nil
  have "str_chars [c] = [[c]]" using str_chars_ascii [of "[c]"] assms(2) by simp
  then have "str_trim [c] = []" using assms(2,3) by (simp only: str_trim_def) (simp add: is_ws_single)
  with Nil show ?thesis by simp
next
  case (Cons a s)
  then have "\<not> is_ws [a]" using assms(1) by (simp add: is_ws_single solid_ascii)
  moreover have "str_chars (w @ [c]) = str_chars w @ [[c]]"
    using str_chars_append_ascii [OF assms(2), of w "[]"] by simp
  moreover have "str_chars w = [a] # map (\<lambda>c. [c]) s"
    using Cons str_chars_ascii [OF is_ascii_solid [OF assms(1)]] by simp
  ultimately have "str_trim (w @ [c]) = str_trim w" using assms(2,3) by (simp add: str_trim_def is_ws_single)
  then show ?thesis using str_trim_all_solid [OF assms(1)] by simp
qed

lemma str_trim_end_space: "list_all solid w \<Longrightarrow> str_trim (w @ '' '') = w"
  by (rule str_trim_end_ws) (simp_all add: is_ascii_char_def solid_def)

lemma str_trim_start_space: "str_trim (CHR '' '' # s) = str_trim s"
proof -
  have "str_chars (CHR '' '' # s) = '' '' # str_chars s"
    using str_chars_append_ascii [of "CHR '' ''" "[]" s] by (simp add: is_ascii_char_def)
  then show ?thesis by (simp add: str_trim_def)
qed

abbreviation zone :: string where "zone \<equiv> '' +0000''"

lemma str_trim_time: "str_trim (CHR '' '' # dec n @ zone) = dec n @ zone"
proof -
  obtain a s where d: "dec n = a # s" by (meson dec_not_Nil list.exhaust)
  then have "solid a" using dec_solid [of n] by simp
  then have "str_trim (a # (s @ '' +000'') @ [CHR ''0'']) = a # (s @ '' +000'') @ [CHR ''0'']"
    by (rule str_trim_solid) (simp add: solid_def is_ascii_char_def)
  with d show ?thesis by (simp add: str_trim_start_space)
qed

lemma time_words: "\<exists>ws. split_whitespace (dec n @ zone) = dec n # ws"
  using split_whitespace_word [OF dec_solid dec_not_Nil, of n "''+0000''"] by simp

lemma drop_past: "length xs = n \<Longrightarrow> drop (Suc n) (xs @ y # ys) = ys"
  by auto

lemma parse_ident_line:
  assumes "ident_wf name email"
  shows "parse_ident (name @ '' <'' @ email @ ''> '' @ dec (unat t) @ zone) = Ok (name, email, t)"
proof -
  define s where "s = name @ '' <'' @ email @ ''> '' @ dec (unat t) @ zone"
  have lt: "s = (name @ '' '') @ CHR ''<'' # email @ CHR ''>'' # CHR '' '' # dec (unat t) @ zone"
    and gt: "s = (name @ '' <'' @ email) @ CHR ''>'' # CHR '' '' # dec (unat t) @ zone" by (simp_all add: s_def)
  have "str_find (CHR ''<'') s = Some (Suc (length name))"
    unfolding lt using assms by (subst str_find_append) (auto simp: ident_wf_def)
  moreover have "str_find (CHR ''>'') s = Some (length name + 2 + length email)"
    unfolding gt using assms by (subst str_find_append) (auto simp: ident_wf_def)
  moreover have "take (Suc (length name)) s = name @ '' ''" by (simp add: s_def)
  moreover have "take (length email) (drop (Suc (Suc (length name))) s) = email" by (simp add: s_def)
  moreover have "drop (Suc (length name + 2 + length email)) s = CHR '' '' # dec (unat t) @ zone"
    unfolding gt by (rule drop_past) simp
  moreover have "str_trim (name @ '' '') = name" using assms by (intro str_trim_end_space) (simp add: ident_wf_def)
  moreover obtain ws where "split_whitespace (dec (unat t) @ zone) = dec (unat t) # ws" using time_words by blast
  ultimately have "parse_ident s = Ok (name, email, t)"
    by (simp add: parse_ident_def str_trim_time parse_u64_dec Let_def)
  then show ?thesis by (simp add: s_def)
qed

text \<open>The header lines of a commit, and the fields they set.\<close>

definition ident_text :: "string \<Rightarrow> string \<Rightarrow> u64 \<Rightarrow> string" where
  "ident_text name email t = name @ '' <'' @ email @ ''> '' @ dec (unat t) @ zone"

lemma ident_line_text: "ident_line role name email t = role @ '' '' @ ident_text name email t @ [nl]"
  by (simp add: ident_line_def ident_text_def)

lemma ident_text_ascii: "ident_wf name email \<Longrightarrow> is_ascii (ident_text name email t)"
  using is_ascii_solid dec_solid by (simp add: ident_text_def ident_wf_def is_ascii_char_def)

lemma ident_text_no_nl: "ident_wf name email \<Longrightarrow> nl \<notin> set (ident_text name email t)"
  using solid_no_nl dec_solid [of "unat t"] by (auto simp: ident_text_def ident_wf_def)

lemma from_hex_trimmed: "hex_laws C \<Longrightarrow> from_hex C (str_trim (to_hex C x)) = Ok x"
  by (simp add: str_trim_all_solid [OF to_hex_solid])

lemma str_split_lines:
  "list_all (\<lambda>l. nl \<notin> set l) ls \<Longrightarrow> str_split nl (concat (map (\<lambda>l. l @ [nl]) ls) @ s) = ls @ str_split nl s"
  by (induction ls) (simp_all add: str_split_append)

lemma parse_parents:
  assumes "hex_laws C"
  shows "parse_headers C (map (\<lambda>p. ''parent '' @ to_hex C p) ps @ ls) (t, c)
     = parse_headers C ls (t, c\<lparr>co_parents := co_parents c @ ps\<rparr>)"
proof (induction ps arbitrary: c)
  case Nil
  show ?case by simp
next
  case (Cons p ps)
  have "parse_header C (t, c) (''parent '' @ to_hex C p) = Ok (t, c\<lparr>co_parents := co_parents c @ [p]\<rparr>)"
    using assms by (simp add: from_hex_trimmed)
  with Cons show ?case by simp
qed

lemma parse_commit_bytes:
  assumes "hex_laws C" and "commit_wf c"
  shows "parse_commit C (commit_bytes C c) = Ok c"
proof -
  define a where "a = ident_text (co_author c) (co_author_email c) (co_author_time c)"
  define b where "b = ident_text (co_committer c) (co_committer_email c) (co_committer_time c)"
  define ps where "ps = map (\<lambda>p. ''parent '' @ to_hex C p) (co_parents c)"
  have no: "nl \<notin> set (to_hex C x)" for x using to_hex_solid [OF assms(1)] by (rule solid_no_nl)
  have ab: "nl \<notin> set a" "nl \<notin> set b" "is_ascii a" "is_ascii b"
    using assms(2) ident_text_no_nl ident_text_ascii by (simp_all add: commit_wf_def a_def b_def)
  have parsed: "parse_ident a = Ok (co_author c, co_author_email c, co_author_time c)"
      "parse_ident b = Ok (co_committer c, co_committer_email c, co_committer_time c)"
    using assms(2) parse_ident_line by (simp_all only: a_def b_def ident_text_def commit_wf_def)
  have bytes: "commit_bytes C c = ''tree '' @ to_hex C (co_tree c) @ [nl] @ concat (map (\<lambda>l. l @ [nl]) ps)
      @ (''author '' @ a) @ [nl] @ (''committer '' @ b) @ [nl] @ [nl] @ co_message c"
    by (simp add: commit_bytes_def ident_line_text a_def b_def ps_def comp_def)
  have hex: "is_ascii (to_hex C x)" for x using to_hex_solid [OF assms(1)] by (rule is_ascii_solid)
  have "is_ascii (concat (map (\<lambda>l. l @ [nl]) ps))"
    using hex by (auto simp: ps_def list_all_iff is_ascii_char_def)
  then have "from_utf8_ok (commit_bytes C c)"
    unfolding bytes using assms(2) hex ab(3,4)
    by (simp add: commit_wf_def from_utf8_ok_ascii_append from_utf8_ok_Cons_ascii is_ascii_char_def
      del: from_utf8_ok.simps(2))
  moreover have "list_all (\<lambda>l. nl \<notin> set l) ps" using no by (simp add: ps_def list_all_iff)
  note parents = str_split_lines [OF this]
  have "str_split nl (commit_bytes C c) = (''tree '' @ to_hex C (co_tree c)) # ps @ (''author '' @ a) #
      (''committer '' @ b) # [] # str_split nl (co_message c)"
    unfolding bytes
    using str_split_append [of nl "''tree '' @ to_hex C (co_tree c)"] no ab
      str_split_append [of nl "''author '' @ a"] str_split_append [of nl "''committer '' @ b"] str_split_append [of nl "[]"]
    by (simp add: parents)
  moreover have "parse_header C (t, d) (''tree '' @ to_hex C (co_tree c)) = Ok (Some (co_tree c), d)" for t d
    using assms(1) by (simp add: from_hex_trimmed)
  moreover have "parse_header C (t, d) (''author '' @ a) = Ok (t, d\<lparr>co_author := co_author c,
      co_author_email := co_author_email c, co_author_time := co_author_time c\<rparr>)" for t d
    using parsed by simp
  moreover have "parse_header C (t, d) (''committer '' @ b) = Ok (t, d\<lparr>co_committer := co_committer c,
      co_committer_email := co_committer_email c, co_committer_time := co_committer_time c\<rparr>)" for t d
    using parsed by simp
  ultimately show ?thesis
    using parse_parents [OF assms(1), of "co_parents c", folded ps_def] parsed
    by (simp add: parse_commit_def from_utf8_lossy_id blank_commit_def from_hex_trimmed [OF assms(1)])
qed

section \<open>Objects\<close>

text \<open>What reading an object's frame gives: a tree's entries come back in git order.\<close>

fun canonical :: "git_object \<Rightarrow> git_object" where
  "canonical (Tree es) = Tree (sort_key tree_sort_key es)"
| "canonical ob = ob"

fun object_wf :: "git_object \<Rightarrow> bool" where
  "object_wf (Blob b) \<longleftrightarrow> True"
| "object_wf (Tree es) \<longleftrightarrow> list_all entry_wf es"
| "object_wf (Commit c) \<longleftrightarrow> commit_wf c"

lemma parse_framed_framed:
  assumes "hex_laws C" and "object_wf ob" and "length (payload C ob) < 2 ^ 64"
  shows "parse_framed C (framed C ob) = Ok (canonical ob)"
proof -
  have "list_all solid (kind ob)" and "nul \<notin> set (kind ob)"
    by (cases ob; simp add: solid_def is_ascii_char_def)+
  note frame = parse_framed_frame [OF assms(3) this, of C]
  show ?thesis
  proof (cases ob)
    case (Blob b)
    with frame show ?thesis by (simp add: framed_def Let_def)
  next
    case (Tree es)
    then have "list_all entry_wf (sort_key tree_sort_key es)" using assms(2) by (simp add: list_all_iff)
    with Tree frame parse_tree_entries show ?thesis by (simp add: framed_def Let_def)
  next
    case (Commit c)
    with frame assms parse_commit_bytes show ?thesis by (simp add: framed_def Let_def)
  qed
qed

lemma canonical_again: "oid_of C (canonical ob) = oid_of C ob" "canonical (canonical ob) = canonical ob"
  by (cases ob; simp add: oid_of_def framed_def Let_def sort_key_id_if_sorted)+

text \<open>What the store holds and the wire carries is read back as the object.\<close>

lemma decompress_compress:
  assumes "zlib_laws C" and "hex_laws C" and "object_wf ob" and "length (payload C ob) < 2 ^ 64"
  shows "decompress_and_parse C (compress C ob) = Ok (canonical ob)"
  using assms by (simp add: decompress_and_parse_def compress_def zlib_laws_def parse_framed_framed)

section \<open>The commits the engine makes\<close>

lemma hexenc_no_bracket: "hex_laws C \<Longrightarrow> CHR ''<'' \<notin> set (c_hexenc C b) \<and> CHR ''>'' \<notin> set (c_hexenc C b)"
  unfolding hex_laws_def using subsetD [of _ "set hex_digits"] by (fastforce simp: hex_digits_def)

lemma built_wf:
  assumes "hex_laws C" and "b64_laws C" and "is_ascii subject"
    and "build_primitive_with_readd C i t parent counter wall subject readds = Commit c"
  shows "commit_wf c"
proof -
  let ?hex = "node_to_hex C (id_node C i)"
  have hex: "list_all solid ?hex" by (rule node_to_hex_solid [OF assms(1)])
  then have "list_all solid (take 16 ?hex)" by (auto simp: list_all_iff dest: in_set_takeD)
  then have "ident_wf ?hex (take 16 ?hex @ ''@csp'')"
    using hex hexenc_no_bracket [OF assms(1)] in_set_takeD [of "CHR ''>''" 16 ?hex]
    by (auto simp: ident_wf_def node_to_hex_def solid_def is_ascii_char_def)
  moreover have "is_ascii (primitive_body C (id_node C i) counter subject readds)"
    using assms(3) is_ascii_solid [OF dec_solid] is_ascii_solid [OF hex] is_ascii_solid [OF to_hex_solid [OF assms(1)]]
    by (auto simp: primitive_body_def list_all_iff is_ascii_char_def READD_TRAILER_def)
  moreover have "is_ascii (c_b64enc C s)" for s using b64enc_solid [OF assms(2)] by (rule is_ascii_solid)
  ultimately show ?thesis
    using assms(4)
    by (auto simp: build_primitive_with_readd_def Let_def commit_wf_def SIG_TRAILER_def is_ascii_char_def
      from_utf8_ok_ascii_append from_utf8_ok_Cons_ascii simp del: from_utf8_ok.simps(2))
qed

end
