(* ===== verification/Demo_Engine.thy ===== *)
theory Demo_Engine
  imports Demo_Vault Commit_Facts Object_Facts
begin

text \<open>
  A concrete engine over the demonstration vault, at its genesis commit and with nothing known, and its first
  commit: the run on which the properties of the engine and of the session are evaluated.
\<close>

definition demo_config :: vault_config where
  "demo_config =
     \<lparr>vc_vault_id = ''v'', vc_name = ''n'', vc_peers = [], vc_listen = None, vc_no_tofu = False, vc_no_tls = False,
      vc_log = None, vc_debounce_ms = 1000, vc_allow_binary = False, vc_include = [''**''], vc_auth_keys = [],
      vc_default_key_ttl_days = None\<rparr>"

definition demo_engine :: "string \<Rightarrow> mem_engine" where
  "demo_engine who =
     \<lparr>me_store = demo_store, me_state = default_state, me_scope = rebuild_scope demo_config [],
      me_identity = \<lparr>id_seed = who\<rparr>, me_authorized = [], me_main = Some (Oid 2), me_config = demo_config,
      me_working = [], me_quarantines = []\<rparr>"

lemma demo_engine_sel [simp]:
  "me_store (demo_engine who) = demo_store" "me_state (demo_engine who) = default_state"
  "me_identity (demo_engine who) = \<lparr>id_seed = who\<rparr>" "me_authorized (demo_engine who) = []"
  "me_main (demo_engine who) = Some (Oid 2)" "me_config (demo_engine who) = demo_config"
  "me_working (demo_engine who) = []" "me_quarantines (demo_engine who) = []"
  by (simp_all add: demo_engine_def)

lemma demo_engine_inv [simp]: "engine_inv demo (demo_engine who)"
  by (simp add: engine_inv_def default_state_def known_wf_def)
    (simp add: mem_has_def demo_store_def)

lemma demo_engine_ready [simp]: "\<not> es_bootstrap_pending (me_state (demo_engine who))"
  by (simp add: default_state_def)

lemma demo_tips [simp]: "engine_frontier_tips demo (demo_engine who) = Ok []"
  by (simp add: engine_frontier_tips_def known_oids_def default_state_def frontier_def)

section \<open>The first commit\<close>

abbreviation demo_blob :: git_object where "demo_blob \<equiv> Blob ''a''"
abbreviation demo_root :: git_object where "demo_root \<equiv> demo_file ''f'' (oid_of demo demo_blob)"

lemma demo_write_one:
  "write_tree_from_files demo [(''f'', ''a'')] = ([demo_blob, demo_root], oid_of demo demo_root)"
proof -
  have "tree_subdirs [] [(''f'', ''a'')] = []" and "tree_direct [] [(''f'', ''a'')] = [(''f'', ''a'')]"
    by (simp_all add: tree_subdirs_def tree_direct_def bt_collect_def)
  then show ?thesis
    unfolding write_tree_from_files_def by (subst build_tree.simps) (simp add: demo_file_def Let_def)
qed

lemma demo_guard:
  "ghost_guard demo (mem_get demo demo_store) (Oid 2) (Oid 1) [] ts [(''f'', ''a'')] = Ok ([(''f'', ''a'')], [], [])"
proof -
  have "path_present_in_tree (mem_get demo demo_store) (Oid 1) ''f'' = Ok False"
    by (simp add: path_present_in_tree_def)
  moreover have "most_recent_touch_uncached demo (mem_get demo demo_store) (Oid 2) ''f'' = Ok None"
    by (simp add: most_recent_touch_uncached_def touch_of_def)
  ultimately show ?thesis by (simp add: ghost_guard_def classify_path_def)
qed

text \<open>The fold over one primitive, whatever store holds it together with the genesis commit.\<close>

lemma demo_fold_one:
  assumes g: "\<And>n. n \<in> {1, 2} \<Longrightarrow> mem_get demo s (Oid n) = mem_get demo demo_store (Oid n)"
    and blob: "mem_get demo s (oid_of demo demo_blob) = Ok demo_blob"
    and root: "mem_get demo s (oid_of demo demo_root) = Ok demo_root"
    and x: "mem_get demo s x = Ok (Commit c)" "x \<noteq> Oid 2"
    and c: "parse_primitive_meta demo c = Some (n, node)" "co_parents c = [Oid 2]" "co_tree c = oid_of demo demo_root"
  obtains t m where "compute_main demo (mem_ops demo) [x] s = (t, Ok m)"
proof -
  have prim: "is_primitive demo c" using c(1) by (simp add: is_primitive_def)
  have two: "mem_get demo s (Oid 1) = Ok (Tree [])"
      "mem_get demo s (Oid 2) = Ok (Commit (fold_commit (Oid 1) [] 0 GENESIS_MSG))"
    by (simp_all add: g)
  have load: "load_commit (mem_get demo s) x = Ok c"
    "load_commit (mem_get demo s) (Oid 2) = Ok (fold_commit (Oid 1) [] 0 GENESIS_MSG)"
    by (simp_all add: load_commit_def x two)
  have "tree_paths_added [] (mem_get demo s) [] (Some (Oid 1)) (oid_of demo demo_root) [] = Ok [''f'']"
    using two root by (simp add: tree_paths_added.simps demo_file_def FILE_MODE_def TREE_MODE_def)
  moreover have "most_recent_touch_uncached demo (mem_get demo s) (Oid 2) ''f'' = Ok None"
    by (simp add: most_recent_touch_uncached_def touch_of_def load two)
  ultimately have "is_ghost_add_uncached demo (mem_get demo s) x = Ok False"
    by (simp add: is_ghost_add_uncached_def x prim c load)
  then have known: "effective_known demo (mem_get demo s) [x] = Ok [x]"
    by (simp add: is_ghost_add_closure_only_def)
  have "ancestors (mem_get demo s) x = Ok [Oid 2]"
    using load c(2) by (simp add: ancestors_def)
  then have frontier: "frontier demo (mem_get demo s) [x] = Ok [x]"
    using known prim c(1) by (simp add: frontier_def order_key_def load)
  have "parents_time (mem_get demo s) [x] = Ok (co_committer_time c)"
    by (simp add: parents_time_def load)
  then obtain t m where "make_fold_commit (mem_ops demo) (oid_of demo demo_root) [x] FOLD_MSG s = (t, Ok m)"
    using mem.put_eq [of demo] by (auto simp: make_fold_commit_def sbind_def)
  then have "compute_main demo (mem_ops demo) [x] s = (t, Ok m)"
    by (simp add: compute_main_def sbind_def frontier thin_wrapper_def commit_tree_def load c(3))
  then show thesis by (rule that)
qed

text \<open>Putting objects that are not there yet.\<close>

lemma mem_put_fresh:
  assumes "\<not> mem_has s (oid_of C ob)" and "bt_wf s"
  obtains t where "mem_put C ob s = (t, Ok (oid_of C ob))" and "bt_wf t"
    and "\<And>y. mem_get C t y = (if y = oid_of C ob then Ok ob else mem_get C s y)"
    and "\<And>y. mem_has t y \<longleftrightarrow> y = oid_of C ob \<or> mem_has s y"
  using mem.put_eq [of C ob s] mem.put_new [OF assms(2,1)] mem.put_inv [OF assms(2), of C ob]
    mem.has_put [OF assms(2), of C ob] by blast

lemma demo_distinct_kinds:
  "oid_of demo demo_blob \<noteq> oid_of demo demo_root" "oid_of demo demo_blob \<noteq> oid_of demo (Commit c)"
  "oid_of demo demo_root \<noteq> oid_of demo (Commit c)"
  by (rule demo_kinds, simp add: demo_file_def)+

text \<open>The blob, the tree and a primitive over them stored one after the other, and the fold over that primitive.\<close>

lemma demo_stored:
  assumes "build_primitive_with_readd demo i (oid_of demo demo_root) (Oid 2) counter wall subject [] = Commit c"
  obtains s1 s2 s3 t m where "mem_put demo demo_blob demo_store = (s1, Ok (oid_of demo demo_blob))"
    and "mem_put demo demo_root s1 = (s2, Ok (oid_of demo demo_root))"
    and "mem_put demo (Commit c) s2 = (s3, Ok (oid_of demo (Commit c)))"
    and "compute_main demo (mem_ops demo) [oid_of demo (Commit c)] s3 = (t, Ok m)"
proof -
  let ?blob = "oid_of demo demo_blob" and ?root = "oid_of demo demo_root" and ?x = "oid_of demo (Commit c)"
  obtain s1 where s1: "mem_put demo demo_blob demo_store = (s1, Ok ?blob)" "bt_wf s1"
    "\<And>y. mem_get demo s1 y = (if y = ?blob then Ok demo_blob else mem_get demo demo_store y)"
    "\<And>y. mem_has s1 y \<longleftrightarrow> y = ?blob \<or> mem_has demo_store y"
    using mem_put_fresh [OF demo_fresh demo_store_wf] by metis
  have "\<not> mem_has s1 ?root" using s1(4) demo_fresh demo_distinct_kinds by metis
  then obtain s2 where s2: "mem_put demo demo_root s1 = (s2, Ok ?root)" "bt_wf s2"
    "\<And>y. mem_get demo s2 y = (if y = ?root then Ok demo_root else mem_get demo s1 y)"
    "\<And>y. mem_has s2 y \<longleftrightarrow> y = ?root \<or> mem_has s1 y"
    using mem_put_fresh s1(2) by metis
  note b = built_verifies [OF demo_hex_laws demo_b64_laws demo_ed_laws assms]
  have "\<not> mem_has s2 ?x" using s2(4) s1(4) demo_fresh demo_distinct_kinds by metis
  then obtain s3 where s3: "mem_put demo (Commit c) s2 = (s3, Ok ?x)"
    "\<And>y. mem_get demo s3 y = (if y = ?x then Ok (Commit c) else mem_get demo s2 y)"
    using mem_put_fresh s2(2) by metis
  have get: "mem_get demo s3 (Oid n) = mem_get demo demo_store (Oid n)" if "n \<in> {1, 2}" for n
  proof -
    have "Oid n \<noteq> oid_of demo ob" for ob using that demo_oid_small(1,2) [of ob, symmetric] by (elim insertE) simp_all
    then show ?thesis by (simp add: s3(2) s2(3) s1(3))
  qed
  have blob: "mem_get demo s3 ?blob = Ok demo_blob" and root: "mem_get demo s3 ?root = Ok demo_root"
    using demo_distinct_kinds by (simp_all add: s3(2) s2(3) s1(3))
  have "mem_get demo s3 ?x = Ok (Commit c)" by (simp add: s3(2))
  from demo_fold_one [OF get blob root this _ b(2,3,4)]
  obtain t m where "compute_main demo (mem_ops demo) [?x] s3 = (t, Ok m)" by auto
  with s1(1) s2(1) s3(1) show thesis by (rule that)
qed

lemma demo_commit:
  obtains e' x where "commit_scoped demo now wall [(''f'', ''a'')] (demo_engine who) = (e', Ok (Some x))"
proof -
  let ?e = "demo_engine who" and ?root = "oid_of demo demo_root"
  obtain c where c: "build_primitive_with_readd demo \<lparr>id_seed = who\<rparr> ?root (Oid 2) 1 wall ''ctx edit'' [] = Commit c"
    using build_primitive_commit by blast
  let ?x = "oid_of demo (Commit c)"
  from demo_stored [OF c] obtain s1 s2 s3 t m where s1: "mem_put demo demo_blob demo_store = (s1, Ok (oid_of demo demo_blob))"
    and s2: "mem_put demo demo_root s1 = (s2, Ok ?root)" and s3: "mem_put demo (Commit c) s2 = (s3, Ok ?x)"
    and fold: "compute_main demo (mem_ops demo) [?x] s3 = (t, Ok m)" by blast
  have wrote: "engine_write_tree demo [(''f'', ''a'')] ?e = (?e\<lparr>me_store := s2\<rparr>, Ok ?root)"
    by (simp add: engine_write_tree_def demo_write_one on_store_def put_all_def sbind_def s1 s2)
  define st where "st = (add_known demo ?x (fst (next_counter default_state)))"
  have st: "known_oids demo st = Ok [?x]"
    by (simp add: st_def known_oids_def add_known_def next_counter_def default_state_def Let_def)
  have n: "next_counter default_state = (fst (next_counter default_state), 1)"
    by (simp add: next_counter_def default_state_def Let_def)
  have authored: "authored demo ?root (Oid 2) wall [] (?e\<lparr>me_store := s2\<rparr>) = (?e\<lparr>me_store := s3, me_state := st\<rparr>, Commit c)"
    by (simp add: authored_def st_def c Let_def s3) (subst n, simp add: c s3 Let_def)
  have change: "genuine_change demo [] [(''f'', ''a'')]" by (simp add: genuine_change_def)
  have "commit_onto demo now wall [(''f'', ''a'')] (Oid 2) ?e =
      publish demo wall (Oid 2) [(''f'', ''a'')] [] (apply_quarantines [] ?e)"
    using demo_guard change
    by (simp add: commit_onto_def sbind_def main_tree_def default_state_def apply_quarantines_def)
  also have "apply_quarantines [] ?e = ?e" by (simp add: apply_quarantines_def)
  finally have "commit_scoped demo now wall [(''f'', ''a'')] ?e = settle demo [(''f'', ''a'')] ?x (?e\<lparr>me_store := s3, me_state := st\<rparr>)"
    by (simp add: commit_scoped_def sbind_def publish_eq wrote authored) (simp add: default_state_def)
  also have "\<dots> = (?e\<lparr>me_store := t, me_main := Some m, me_state := st\<lparr>es_materialized := hashes demo [(''f'', ''a'')]\<rparr>\<rparr>, Ok (Some ?x))"
    by (simp add: settle_def recompute_def sbind_def st on_store_def fold on_state_def)
  finally show thesis by (rule that)
qed

section \<open>A received batch\<close>

text \<open>The same three objects as they come over the wire.\<close>

definition demo_batch :: "commit_obj \<Rightarrow> bytes list" where
  "demo_batch c = map (compress demo) [demo_blob, demo_root, Commit c]"

lemma demo_batch_parses:
  assumes "build_primitive_with_readd demo i (oid_of demo demo_root) (Oid 2) 1 0 [] [] = Commit c"
  shows "decompress_and_parse demo (compress demo demo_blob) = Ok demo_blob"
    and "decompress_and_parse demo (compress demo demo_root) = Ok demo_root"
    and "decompress_and_parse demo (compress demo (Commit c)) = Ok (Commit c)"
proof -
  note parse = decompress_compress [OF demo_zlib_laws demo_hex_laws]
  have ascii: "from_utf8_ok FILE_MODE" "from_utf8_ok ''f''"
    by (rule from_utf8_ok_ascii, simp add: FILE_MODE_def is_ascii_char_def)+
  show "decompress_and_parse demo (compress demo demo_blob) = Ok demo_blob"
    using parse [of demo_blob] by simp
  show "decompress_and_parse demo (compress demo demo_root) = Ok demo_root"
    using parse [of demo_root] ascii
    by (simp add: demo_file_def entry_wf_def entry_bytes_def FILE_MODE_def del: from_utf8_ok.simps(2))
  have "length (dec 1) = 1" "length (dec 0) = 1" by (simp_all add: dec.simps)
  then have "length (commit_bytes demo c) < 1000"
    using assms
    by (auto simp: build_primitive_with_readd_def Let_def commit_bytes_def ident_line_def primitive_body_def
      node_to_hex_def to_hex_def id_node_def id_sign_def demo_sign_def length_demo_hexenc SIG_TRAILER_def)
  then have "length (commit_bytes demo c) < 2 ^ 64" by (rule less_trans) simp
  then show "decompress_and_parse demo (compress demo (Commit c)) = Ok (Commit c)"
    using parse [of "Commit c"] built_wf [OF demo_hex_laws demo_b64_laws _ assms] by simp
qed

lemma demo_received:
  assumes c: "build_primitive_with_readd demo i (oid_of demo demo_root) (Oid 2) 1 0 [] [] = Commit c"
  obtains e' where "integrate demo (demo_batch c) (demo_engine who) = (e', Ok 1)"
    and "snd (any_rejected demo (demo_batch c) (fst (put_raws demo (demo_batch c) demo_store))) = Ok False"
proof -
  let ?e = "demo_engine who" and ?x = "oid_of demo (Commit c)"
  note parses = demo_batch_parses [OF c] and b = built_verifies [OF demo_hex_laws demo_b64_laws demo_ed_laws c]
  from demo_stored [OF c] obtain s1 s2 s3 t m where s1: "mem_put demo demo_blob demo_store = (s1, Ok (oid_of demo demo_blob))"
    and s2: "mem_put demo demo_root s1 = (s2, Ok (oid_of demo demo_root))" and s3: "mem_put demo (Commit c) s2 = (s3, Ok ?x)"
    and fold: "compute_main demo (mem_ops demo) [?x] s3 = (t, Ok m)" by blast
  have put: "put_raws demo (demo_batch c) demo_store = (s3, Ok ())"
    by (simp add: put_raws_def demo_batch_def put_raw_def sbind_def parses s1 s2 s3)
  have commits: "raw_commit demo (compress demo demo_blob) = None" "raw_commit demo (compress demo demo_root) = None"
    "raw_commit demo (compress demo (Commit c)) = Some c"
    by (simp_all add: raw_commit_def parses) (simp add: demo_file_def)
  have "is_primitive demo c" using b(2) by (simp add: is_primitive_def)
  then have rej: "any_rejected demo (demo_batch c) s3 = (s3, Ok False)"
    by (simp add: demo_batch_def commits)
  define st where "st = observe 1 (add_known demo ?x default_state)"
  have adm: "foldl (admit_raw demo) (default_state, 0) (demo_batch c) = (st, 1)"
    by (simp add: demo_batch_def admit_raw_def commits b st_def Let_def) (simp add: default_state_def)
  have st: "known_oids demo st = Ok [?x]"
    by (simp add: st_def known_oids_def add_known_def observe_def default_state_def)
  have "integrate demo (demo_batch c) ?e = (?e\<lparr>me_store := t, me_state := st, me_main := Some m\<rparr>, Ok 1)"
    by (simp add: integrate_def sbind_def on_store_def put rej adm recompute_def st fold)
  moreover have "snd (any_rejected demo (demo_batch c) (fst (put_raws demo (demo_batch c) demo_store))) = Ok False"
    by (simp add: put rej)
  ultimately show thesis by (rule that)
qed

end
