(* ===== verification/Materialize_Facts.thy ===== *)
theory Materialize_Facts
  imports Engine_Facts
begin

text \<open>
  What a materialize plan does to the files on disk: a contract per path, that the plan meets it, and that a
  second plan finds nothing left to do.
\<close>

section \<open>Applying operations\<close>

abbreviation apply_ops :: "materialize_op list \<Rightarrow> files \<Rightarrow> files" where
  "apply_ops ops w \<equiv> foldl (\<lambda>w op. apply_op op w) w ops"

fun op_path :: "materialize_op \<Rightarrow> string" where
  "op_path (Write p c) = p"
| "op_path (Remove p) = p"
| "op_path (Defer p) = p"
| "op_path (Quarantine p to) = p"

lemma apply_op_other: "op_path op \<noteq> q \<Longrightarrow> bt_get (apply_op op w) q = bt_get w q"
  by (cases op) (auto simp: bt_simps)

lemma apply_ops_other: "(\<And>op. op \<in> set ops \<Longrightarrow> op_path op \<noteq> q) \<Longrightarrow> bt_get (apply_ops ops w) q = bt_get w q"
  by (induction ops arbitrary: w) (simp_all add: apply_op_other)

lemma apply_op_local: "bt_get w q = bt_get w' q \<Longrightarrow> bt_get (apply_op op w) q = bt_get (apply_op op w') q"
  by (cases op) (auto simp: bt_simps)

lemma apply_ops_local: "bt_get w q = bt_get w' q \<Longrightarrow> bt_get (apply_ops ops w) q = bt_get (apply_ops ops w') q"
proof (induction ops arbitrary: w w')
  case (Cons op ops)
  from Cons.IH [OF apply_op_local [OF Cons.prems]] show ?case by simp
qed simp

text \<open>Operations grouped by path do not interfere.\<close>

lemma apply_per_path:
  assumes "distinct (map fst m)" and "\<And>p v op. (p, v) \<in> set m \<Longrightarrow> op \<in> set (f p v) \<Longrightarrow> op_path op = p"
  shows "bt_get (apply_ops (concat (map (\<lambda>(p, v). f p v) m)) w) q =
    (case map_of m q of None \<Rightarrow> bt_get w q | Some v \<Rightarrow> bt_get (apply_ops (f q v) w) q)"
  using assms
proof (induction m arbitrary: w)
  case (Cons pv m)
  obtain p v where pv: "pv = (p, v)" by fastforce
  have IH: "bt_get (apply_ops (concat (map (\<lambda>(p, v). f p v) m)) w) q =
    (case map_of m q of None \<Rightarrow> bt_get w q | Some v \<Rightarrow> bt_get (apply_ops (f q v) w) q)" for w
  proof (rule Cons.IH)
    show "distinct (map fst m)" using Cons.prems(1) by simp
    show "(p, v) \<in> set m \<Longrightarrow> op \<in> set (f p v) \<Longrightarrow> op_path op = p" for p v op
      by (rule Cons.prems(2)) simp_all
  qed
  show ?case
  proof (cases "q = p")
    case True
    then have "map_of m q = None" using Cons.prems(1) pv by (simp add: map_of_eq_None_iff)
    with True pv IH [of "apply_ops (f p v) w"] show ?thesis by simp
  next
    case False
    have "bt_get (apply_ops (f p v) w) q = bt_get w q"
      using Cons.prems(2) [of p v] pv False by (intro apply_ops_other) auto
    with False pv IH [of "apply_ops (f p v) w"] apply_ops_local [of "apply_ops (f p v) w" q w] show ?thesis
      by (simp split: option.split)
  qed
qed simp

section \<open>The contract of a path\<close>

text \<open>
  \<open>mine\<close> is what is on disk, \<open>theirs\<close> what main has, \<open>seen\<close> the recorded hash: bytes on disk are replaced or
  removed only if they are the recorded ones.
\<close>

definition reconciled :: "crates \<Rightarrow> bytes option \<Rightarrow> bytes option \<Rightarrow> string option \<Rightarrow> bytes option" where
  "reconciled C mine theirs seen =
     (case mine of
        None \<Rightarrow> theirs
      | Some d \<Rightarrow> if seen = Some (blob_hash C d) then theirs else Some d)"

definition contended :: "crates \<Rightarrow> bytes option \<Rightarrow> bytes \<Rightarrow> string option \<Rightarrow> bool" where
  "contended C mine c seen =
     (case mine of None \<Rightarrow> False | Some d \<Rightarrow> seen \<noteq> Some (blob_hash C d) \<and> d \<noteq> c)"

lemma plan_path_cases:
  "plan_path C disk seen p c =
     (if contended C (bt_get disk p) c seen then ([Defer p], False)
      else if bt_get disk p = Some c then ([], True) else ([Write p c], True))"
  by (auto simp: plan_path_def contended_def split: option.split)

lemma plan_path_applied:
  "bt_get (apply_ops (fst (plan_path C disk seen p c)) disk) p = reconciled C (bt_get disk p) (Some c) seen"
  by (auto simp: plan_path_cases contended_def reconciled_def bt_simps split: option.split)

lemma walk_tree_wf: "walk_tree path get prefix t out = Ok files \<Longrightarrow> bt_wf out \<Longrightarrow> bt_wf files"
proof (induction "card (UNIV - set path)" arbitrary: path prefix t out files rule: less_induct)
  case less
  have t: "t \<notin> set path" using less.prems(1) by (auto simp: walk_tree.simps [of path])
  then have "UNIV - set (t # path) \<subset> UNIV - set path" by auto
  then have smaller: "card (UNIV - set (t # path)) < card (UNIV - set path)"
    by (intro psubset_card_mono) simp_all
  from less.prems(1) t obtain entries where "get t = Ok (Tree entries)"
    and loop: "rfold (\<lambda>out e. let p = prefix @ te_name e
                in if te_mode e = TREE_MODE then walk_tree (t # path) get (p @ ''/'') (te_oid e) out
                   else rbind (get (te_oid e)) (\<lambda>b. case b of Blob bs \<Rightarrow> Ok (bt_insert p bs out)
                       | _ \<Rightarrow> Err (Malformed ''is not a blob''))) out entries = Ok files"
    by (auto simp: walk_tree.simps [of path] rbind_case_tree_Ok)
  from loop less.prems(2) show ?case
  proof (rule rfold_invariant)
    fix out e out'
    assume wf: "bt_wf out" and step: "(let p = prefix @ te_name e
                in if te_mode e = TREE_MODE then walk_tree (t # path) get (p @ ''/'') (te_oid e) out
                   else rbind (get (te_oid e)) (\<lambda>b. case b of Blob bs \<Rightarrow> Ok (bt_insert p bs out)
                       | _ \<Rightarrow> Err (Malformed ''is not a blob''))) = Ok out'"
    show "bt_wf out'"
    proof (cases "te_mode e = TREE_MODE")
      case True
      with step have "walk_tree (t # path) get ((prefix @ te_name e) @ ''/'') (te_oid e) out = Ok out'"
        by (simp add: Let_def)
      from less.hyps [OF smaller this wf] show ?thesis .
    next
      case False
      with step wf show ?thesis
        by (auto simp: Let_def rbind_case_blob_Ok bt_wf_insert)
    qed
  qed
qed

lemma read_tree_wf: "read_tree_to_files t get = Ok files \<Longrightarrow> bt_wf files"
  unfolding read_tree_to_files_def by (erule walk_tree_wf) simp

section \<open>The plan\<close>

text \<open>The record of a path after the plan.\<close>

definition recorded :: "crates \<Rightarrow> bytes option \<Rightarrow> bytes option \<Rightarrow> string option \<Rightarrow> string option" where
  "recorded C mine theirs seen =
     (case theirs of
        None \<Rightarrow> None
      | Some c \<Rightarrow> if contended C mine c seen then seen else Some (blob_hash C c))"

text \<open>The removals and the writes of a plan, and the operations path by path.\<close>

lemma removal_ops_path:
  "op \<in> set (if bt_contains want p then [] else case bt_get disk p of None \<Rightarrow> []
      | Some d \<Rightarrow> if blob_hash C d = h then [Remove p] else []) \<Longrightarrow> op = Remove p"
  by (auto split: if_splits option.splits)

lemma plan_path_op: "op \<in> set (fst (plan_path C disk seen p c)) \<Longrightarrow> op = Write p c \<or> op = Defer p"
  by (auto simp: plan_path_cases split: if_splits)

lemma removals_applied:
  assumes "bt_wf mat"
  shows "bt_get (apply_ops (removal_ops C want disk mat) disk) q =
    (if bt_get want q = None then reconciled C (bt_get disk q) None (bt_get mat q) else bt_get disk q)"
proof -
  let ?f = "\<lambda>p h. if bt_contains want p then [] else case bt_get disk p of None \<Rightarrow> []
      | Some d \<Rightarrow> if blob_hash C d = h then [Remove p] else []"
  have "bt_get (apply_ops (concat (map (\<lambda>(p, h). ?f p h) mat)) disk) q =
      (case bt_get mat q of None \<Rightarrow> bt_get disk q | Some h \<Rightarrow> bt_get (apply_ops (?f q h) disk) q)"
  proof (rule apply_per_path)
    show "distinct (bt_keys mat)" using assms by (rule bt_wf_distinct)
    show "(p, h) \<in> set mat \<Longrightarrow> op \<in> set (?f p h) \<Longrightarrow> op_path op = p" for p h op
      using removal_ops_path [of op] by fastforce
  qed
  also have "\<dots> = (if bt_get want q = None then reconciled C (bt_get disk q) None (bt_get mat q) else bt_get disk q)"
    by (auto simp: reconciled_def bt_contains_get bt_simps split: option.splits)
  finally show ?thesis unfolding removal_ops_def .
qed

lemma kept_get:
  "bt_get (filter (\<lambda>(p, h). bt_contains want p) mat) q = (if bt_get want q = None then None else bt_get mat q)"
proof -
  have "filter (\<lambda>(p, h). bt_contains want p) mat = filter (\<lambda>e. bt_contains want (fst e)) mat"
    by (rule filter_cong) auto
  with bt_get_filter_key [of "bt_contains want" mat q] show ?thesis by (simp add: bt_contains_get)
qed

lemma plan_applied:
  assumes want: "bt_wf want" and mat: "bt_wf mat"
    and run: "foldl (plan_step C disk) ([], filter (\<lambda>(p, h). bt_contains want p) mat) want = (writes, mat')"
  shows "bt_get (apply_ops (removal_ops C want disk mat @ writes) disk) q =
      reconciled C (bt_get disk q) (bt_get want q) (bt_get mat q)"
    and "bt_get mat' q = recorded C (bt_get disk q) (bt_get want q) (bt_get mat q)"
proof -
  let ?kept = "filter (\<lambda>(p, h). bt_contains want p) mat"
  let ?f = "\<lambda>p c. fst (plan_path C disk (bt_get ?kept p) p c)"
  from plan_fold [OF bt_wf_distinct [OF want] run]
  have writes: "writes = concat (map (\<lambda>(p, c). ?f p c) want)"
    and mat': "bt_get mat' q = (case bt_get want q of None \<Rightarrow> bt_get ?kept q
         | Some c \<Rightarrow> if snd (plan_path C disk (bt_get ?kept q) q c) then Some (blob_hash C c) else bt_get ?kept q)"
    by (simp_all only: append_Nil)
  have after: "bt_get (apply_ops writes w) q = (case bt_get want q of None \<Rightarrow> bt_get w q
      | Some c \<Rightarrow> bt_get (apply_ops (?f q c) w) q)" for w
    unfolding writes
  proof (rule apply_per_path)
    show "distinct (bt_keys want)" using want by (rule bt_wf_distinct)
    show "(p, c) \<in> set want \<Longrightarrow> op \<in> set (?f p c) \<Longrightarrow> op_path op = p" for p c op
      using plan_path_op [of op C disk "bt_get ?kept p" p c] by auto
  qed
  show "bt_get (apply_ops (removal_ops C want disk mat @ writes) disk) q =
      reconciled C (bt_get disk q) (bt_get want q) (bt_get mat q)"
  proof (cases "bt_get want q")
    case None
    with after removals_applied [OF mat] show ?thesis by simp
  next
    case (Some c)
    then have "bt_get (apply_ops (removal_ops C want disk mat) disk) q = bt_get disk q"
      using removals_applied [OF mat] by simp
    from apply_ops_local [OF this, of "?f q c"] Some after plan_path_applied
    show ?thesis by (simp add: kept_get)
  qed
  show "bt_get mat' q = recorded C (bt_get disk q) (bt_get want q) (bt_get mat q)"
    using mat' by (auto simp: kept_get recorded_def plan_path_cases split: option.split)
qed

lemma materialize_plan_Ok:
  assumes "materialize_plan C disk e = (e', Ok ops)" and "me_main e = Some m"
  obtains tree want writes mat' where "main_tree (me_get C e) m = Ok tree"
    and "read_tree_to_files tree (me_get C e) = Ok want"
    and "foldl (plan_step C disk) ([], filter (\<lambda>(p, h). bt_contains want p) (es_materialized (me_state e))) want
        = (writes, mat')"
    and "ops = me_quarantines e @ removal_ops C want disk (es_materialized (me_state e)) @ writes"
    and "e' = e\<lparr>me_quarantines := [], me_state := (me_state e)\<lparr>es_materialized := mat'\<rparr>\<rparr>"
proof -
  obtain tree want where t: "main_tree (me_get C e) m = Ok tree" and w: "read_tree_to_files tree (me_get C e) = Ok want"
    using assms by (auto simp: materialize_plan_def Let_def sbind_Ok_iff res_simps)
  obtain writes mat' where f: "foldl (plan_step C disk) ([], filter (\<lambda>(p, h). bt_contains want p)
      (es_materialized (me_state e))) want = (writes, mat')" by fastforce
  from assms t w f have "ops = me_quarantines e @ removal_ops C want disk (es_materialized (me_state e)) @ writes"
    and "e' = e\<lparr>me_quarantines := [], me_state := (me_state e)\<lparr>es_materialized := mat'\<rparr>\<rparr>"
    by (auto simp: materialize_plan_def Let_def sbind_def on_state_def)
  with that t w f show thesis by blast
qed

section \<open>Materializing again\<close>

lemma reconciled_again:
  "reconciled C (reconciled C mine theirs seen) theirs (recorded C mine theirs seen) = reconciled C mine theirs seen"
  "recorded C (reconciled C mine theirs seen) theirs (recorded C mine theirs seen) = recorded C mine theirs seen"
  by (auto simp: reconciled_def recorded_def contended_def split: option.split)

lemma plan_path_again:
  assumes "bt_get disk' p = reconciled C mine (Some c) seen"
  shows "fst (plan_path C disk' (recorded C mine (Some c) seen) p c) = (if contended C mine c seen then [Defer p] else [])"
  using assms by (auto simp: plan_path_cases reconciled_def recorded_def contended_def split: option.splits if_splits)

lemma removals_none:
  assumes "\<And>q. bt_get want q = None \<Longrightarrow> bt_get mat q = None"
  shows "removal_ops C want disk mat = []"
proof -
  have "bt_contains want p" if "(p, h) \<in> set mat" for p h
  proof -
    have "bt_get mat p \<noteq> None" using that weak_map_of_SomeI by fastforce
    then show ?thesis using assms [of p] bt_contains_get by metis
  qed
  then show ?thesis by (fastforce simp: removal_ops_def)
qed

text \<open>On the disk and the record that a plan leaves, the next plan only repeats the deferred paths.\<close>

lemma plan_settled:
  assumes want: "bt_wf want" and mat: "bt_wf mat'"
    and disk': "\<And>q. bt_get disk' q = reconciled C (bt_get disk q) (bt_get want q) (bt_get mat q)"
    and mat': "\<And>q. bt_get mat' q = recorded C (bt_get disk q) (bt_get want q) (bt_get mat q)"
    and run: "foldl (plan_step C disk') ([], filter (\<lambda>(p, h). bt_contains want p) mat') want = (writes, mat'')"
  shows "removal_ops C want disk' mat' @ writes =
      concat (map (\<lambda>(p, c). if contended C (bt_get disk p) c (bt_get mat p) then [Defer p] else []) want)"
    and "mat'' = mat'"
proof -
  let ?kept = "filter (\<lambda>(p, h). bt_contains want p) mat'"
  have none: "bt_get want q = None \<Longrightarrow> bt_get mat' q = None" for q by (simp add: mat' recorded_def)
  have kept: "bt_get ?kept q = bt_get mat' q" for q by (simp add: kept_get none)
  have "?kept = mat'"
    by (rule bt_ext) (simp_all add: mat bt_wf_filter kept)
  have path: "fst (plan_path C disk' (bt_get ?kept p) p c) = (if contended C (bt_get disk p) c (bt_get mat p) then [Defer p] else [])"
    if "(p, c) \<in> set want" for p c
  proof -
    have "bt_get want p = Some c" using that want by (simp add: bt_get_mem)
    with disk' [of p] mat' [of p] plan_path_again [of disk' p C "bt_get disk p" c "bt_get mat p"] kept [of p]
    show ?thesis by simp
  qed
  from plan_fold [OF bt_wf_distinct [OF want] run]
  have "writes = concat (map (\<lambda>(p, c). fst (plan_path C disk' (bt_get ?kept p) p c)) want)"
    by simp
  also have "map (\<lambda>(p, c). fst (plan_path C disk' (bt_get ?kept p) p c)) want =
      map (\<lambda>(p, c). if contended C (bt_get disk p) c (bt_get mat p) then [Defer p] else []) want"
    using path by (intro map_cong) auto
  finally show "removal_ops C want disk' mat' @ writes =
      concat (map (\<lambda>(p, c). if contended C (bt_get disk p) c (bt_get mat p) then [Defer p] else []) want)"
    using removals_none [OF none] by simp
  have "bt_get mat'' q = bt_get mat' q" for q
    using plan_applied(2) [OF want mat run, of q] disk' [of q] mat' [of q] reconciled_again(2) by metis
  then show "mat'' = mat'"
    using plan_wf [OF _ run] mat by (intro bt_ext) (simp_all add: bt_wf_filter)
qed

end
