(* ===== verification/Admission_Facts.thy ===== *)
theory Admission_Facts
  imports Engine_Facts
begin

text \<open>
  The list of authorized keys as text and as entries, and what the admission of a peer does to the set of
  nodes it authorizes.
\<close>

section \<open>The text of the list\<close>

text \<open>A line that reading and writing the file leaves alone.\<close>

definition clean_raw :: "string \<Rightarrow> bool" where
  "clean_raw r \<longleftrightarrow> nl \<notin> set r \<and> (r = [] \<or> last r \<noteq> cr)"

definition entry_ok :: "crates \<Rightarrow> key_entry \<Rightarrow> bool" where
  "entry_ok C k \<longleftrightarrow> clean_raw (ke_raw k) \<and> parse_line C (ke_raw k) = k"

lemma trim_end_last: "trim_end_char c s = [] \<or> last (trim_end_char c s) \<noteq> c"
proof (cases "dropWhile (\<lambda>x. x = c) (rev s)")
  case (Cons x xs)
  with hd_dropWhile [of "\<lambda>x. x = c" "rev s"] have "x \<noteq> c" by simp
  with Cons show ?thesis by (simp add: trim_end_char_def)
qed (simp add: trim_end_char_def)

lemma trim_end_subset: "set (trim_end_char c s) \<subseteq> set s"
  unfolding trim_end_char_def using set_dropWhileD by fastforce

lemma trim_end_id: "s = [] \<or> last s \<noteq> c \<Longrightarrow> trim_end_char c s = s"
  by (cases s rule: rev_cases) (auto simp: trim_end_char_def)

lemma clean_trim: "nl \<notin> set s \<Longrightarrow> clean_raw (trim_end_char cr (trim_end_char nl s))"
  using trim_end_subset trim_end_last [of cr] unfolding clean_raw_def by blast

lemma trim_clean: "clean_raw r \<Longrightarrow> trim_end_char cr (trim_end_char nl r) = r"
proof -
  assume "clean_raw r"
  then have "trim_end_char nl r = r" and "trim_end_char cr r = r"
    by (auto simp: clean_raw_def intro!: trim_end_id dest: last_in_set)
  then show ?thesis by simp
qed

lemma parse_line_raw: "ke_raw (parse_line C l) = trim_end_char cr (trim_end_char nl l)"
  by (simp add: parse_line_def Let_def)

lemma entry_ok_line:
  assumes "nl \<notin> set l"
  shows "entry_ok C (parse_line C l)"
proof -
  have "clean_raw (trim_end_char cr (trim_end_char nl l))" using assms by (rule clean_trim)
  moreover from trim_clean [OF this]
  have "parse_line C (trim_end_char cr (trim_end_char nl l)) = parse_line C l"
    unfolding parse_line_def by simp
  ultimately show ?thesis by (simp add: entry_ok_def parse_line_raw)
qed

lemma str_lines_no_nl: "l \<in> set (str_lines s) \<Longrightarrow> nl \<notin> set l"
proof -
  have sub: "set (strip_cr p) \<subseteq> set p" for p
    by (auto simp: strip_cr_def strip_suffix_Some split: option.splits)
  assume l: "l \<in> set (str_lines s)"
  from l consider p where "p \<in> set (str_split nl s)" "l = strip_cr p" | "l = last (str_split nl s)"
    unfolding str_lines_def Let_def by (auto dest: in_set_butlastD split: if_split_asm)
  then show "nl \<notin> set l"
  proof cases
    case (1 p)
    with str_split_pieces [of p nl s] sub [of p] show ?thesis by blast
  next
    case 2
    then have "l \<in> set (str_split nl s)" by simp
    then show ?thesis by (rule str_split_pieces)
  qed
qed

lemma entry_ok_file: "k \<in> set (parse_file C s) \<Longrightarrow> entry_ok C k"
  by (auto simp: parse_file_def dest: str_lines_no_nl intro!: entry_ok_line)

lemma lines_of_join:
  assumes "list_all clean_raw rs" and "rs \<noteq> []"
  shows "str_lines (str_join [nl] rs @ [nl]) = rs"
  using assms(2,1)
proof (induction rs rule: list_nonempty_induct)
  case (single r)
  then show ?case using str_lines_Cons [of r "[]"] by (simp add: clean_raw_def strip_cr_id)
next
  case (cons r rs)
  then show ?case
    using str_lines_Cons [of r "str_join [nl] rs @ [nl]"] by (simp add: str_join_Cons clean_raw_def strip_cr_id)
qed

lemma parse_serialize:
  assumes "list_all (entry_ok C) es" and "\<exists>k \<in> set es. ke_raw k \<noteq> []"
  shows "parse_file C (serialize es) = es"
proof -
  have "str_join [nl] (map ke_raw es) \<noteq> []"
    using assms(2)
  proof (induction es)
    case (Cons k es)
    then show ?case by (cases "es = []") (auto simp: str_join_Cons)
  qed simp
  moreover have "es \<noteq> []" using assms(2) by auto
  then have "str_lines (str_join [nl] (map ke_raw es) @ [nl]) = map ke_raw es"
    using assms(1) by (intro lines_of_join) (auto simp: list_all_iff entry_ok_def)
  moreover have "map (parse_line C) (map ke_raw es) = es"
    using assms(1) by (induction es) (simp_all add: entry_ok_def)
  ultimately show ?thesis by (simp add: serialize_def parse_file_def Let_def)
qed

section \<open>Authorized nodes\<close>

lemma set_map_filter: "n \<in> set (List.map_filter f xs) \<longleftrightarrow> (\<exists>x \<in> set xs. f x = Some n)"
  by (induction xs) (auto simp: List.map_filter_simps split: option.split)

lemma authorized_iff:
  "n \<in> authorized_node_ids C now e \<longleftrightarrow>
     (\<exists>k \<in> set (parse_file C (me_authorized e)). ke_node k = Some n \<and> is_valid (ke_expiry k) now)"
proof -
  have "(case ke_node k of None \<Rightarrow> None | Some n \<Rightarrow> if is_valid (ke_expiry k) now then Some n else None) = Some n
      \<longleftrightarrow> ke_node k = Some n \<and> is_valid (ke_expiry k) now" for k :: key_entry
    by (auto split: option.splits)
  then show ?thesis unfolding authorized_node_ids_def set_map_filter by simp
qed

lemma position_Some: "position P xs = Some i \<Longrightarrow> i < length xs \<and> P (xs ! i)"
  by (induction xs arbitrary: i) (auto split: if_splits)

lemma position_None: "position P xs = None \<longleftrightarrow> (\<forall>x \<in> set xs. \<not> P x)"
  by (induction xs) auto

text \<open>How an admission comes about.\<close>

lemma admit_peer_cases:
  assumes "admit_peer C now line flag e = (e', Ok True)"
  obtains (listed) node where "parse_ssh_pubkey C line = Some node" and "node \<in> authorized_node_ids C now e" and "e' = e"
  | (renewed) node i where "parse_ssh_pubkey C line = Some node" and "flag"
      and "i < length (parse_file C (me_authorized e))" and "ke_node (parse_file C (me_authorized e) ! i) = Some node"
      and "e' = e\<lparr>me_authorized := serialize ((parse_file C (me_authorized e))
              [i := parse_line C (build_line line (enroll_expiry now (default_ttl_days e)))])\<rparr>"
  | (enrolled) node where "parse_ssh_pubkey C line = Some node"
      and "\<forall>k \<in> set (parse_file C (me_authorized e)). ke_node k \<noteq> Some node"
      and "flag \<or> (\<forall>k \<in> set (parse_file C (me_authorized e)). ke_node k = None)
             \<and> \<not> vc_no_tofu (me_config e) \<and> vc_auth_keys (me_config e) = []"
      and "e' = e\<lparr>me_authorized := serialize (parse_file C (me_authorized e)
              @ [parse_line C (build_line line (enroll_expiry now (default_ttl_days e)))])\<rparr>"
proof -
  from assms obtain node where node: "parse_ssh_pubkey C line = Some node"
    by (auto simp: admit_peer_def split: option.splits)
  let ?es = "parse_file C (me_authorized e)"
  show thesis
  proof (cases "position (\<lambda>k. ke_node k = Some node) ?es")
    case (Some i)
    note at = position_Some [OF Some]
    show thesis
    proof (cases "is_valid (ke_expiry (?es ! i)) now")
      case True
      with at have "node \<in> authorized_node_ids C now e" unfolding authorized_iff using nth_mem [of i ?es] by blast
      moreover from assms node Some True have "e' = e" by (simp add: admit_peer_def Let_def)
      ultimately show thesis using listed [OF node] by blast
    next
      case False
      with assms node Some have "flag" and "e' = e\<lparr>me_authorized := serialize (?es
              [i := parse_line C (build_line line (enroll_expiry now (default_ttl_days e)))])\<rparr>"
        by (simp_all add: admit_peer_def Let_def split: if_split_asm)
      with renewed [OF node] at show thesis by blast
    qed
  next
    case None
    then have "\<forall>k \<in> set ?es. ke_node k \<noteq> Some node" by (simp add: position_None)
    moreover from assms node None have "flag \<or> (\<forall>k \<in> set ?es. ke_node k = None)
             \<and> \<not> vc_no_tofu (me_config e) \<and> vc_auth_keys (me_config e) = []"
      and "e' = e\<lparr>me_authorized := serialize (?es
              @ [parse_line C (build_line line (enroll_expiry now (default_ttl_days e)))])\<rparr>"
      by (simp_all add: admit_peer_def Let_def list_ex_iff split: if_split_asm)
    ultimately show thesis using enrolled [OF node] by blast
  qed
qed

text \<open>The line of a key as it is presented: the key, then any words.\<close>

definition key_words :: "crates \<Rightarrow> node_id \<Rightarrow> string list \<Rightarrow> string" where
  "key_words C node ws = str_join '' '' (ssh_algo # c_b64enc C (ssh_blob node) # ws)"

lemma key_words_node:
  assumes "b64_laws C" and "plain_words ws"
  shows "parse_ssh_pubkey C (key_words C node ws) = Some node"
proof (rule parse_ssh_words [OF assms(1)])
  show "split_whitespace (key_words C node ws) = ssh_algo # c_b64enc C (ssh_blob node) # ws"
    unfolding key_words_def
    using assms ssh_algo_solid b64enc_solid [OF assms(1)] ssh_blob_b64(1) [OF assms(1)]
    by (intro split_whitespace_join) simp
qed

text \<open>The words that stay when the line is rebuilt.\<close>

definition kept_words :: "crates \<Rightarrow> node_id \<Rightarrow> string list \<Rightarrow> string list" where
  "kept_words C node ws = ssh_algo # c_b64enc C (ssh_blob node) # filter (\<lambda>w. \<not> expiry_tok w) ws"

lemma kept_words_facts:
  assumes "b64_laws C" and "plain_words ws"
  shows "plain_words (kept_words C node ws)"
    and "strip_expiry_tokens (str_trim (key_words C node ws)) = str_join '' '' (kept_words C node ws)"
proof -
  let ?b64 = "c_b64enc C (ssh_blob node)"
  have b: "list_all solid ?b64" "?b64 \<noteq> []"
    using b64enc_solid [OF assms(1)] ssh_blob_b64(1) [OF assms(1)] by simp_all
  show "plain_words (kept_words C node ws)"
    using b ssh_algo_solid assms(2) by (auto simp: kept_words_def list_all_iff)
  have plain: "plain_words (ssh_algo # ?b64 # ws)" using b ssh_algo_solid assms(2) by simp
  have "\<not> expiry_tok ssh_algo"
    by (simp add: expiry_tok_def ssh_algo_def starts_with_def TOK_EXPIRES_def TOK_TTL_def TOK_ADDED_def)
  moreover have "\<not> expiry_tok ?b64"
    using ssh_blob_no_pad [OF assms(1), of node]
    by (auto simp: expiry_tok_def starts_with_iff TOK_EXPIRES_def TOK_TTL_def TOK_ADDED_def)
  ultimately show "strip_expiry_tokens (str_trim (key_words C node ws)) = str_join '' '' (kept_words C node ws)"
    using join_trim [OF plain] split_whitespace_join [OF plain]
    by (simp add: strip_expiry_tokens_def key_words_def kept_words_def)
qed

lemma join_no_nl: "plain_words ws \<Longrightarrow> nl \<notin> set (str_join '' '' ws)"
proof (induction ws)
  case (Cons w ws)
  then show ?case using solid_no_nl [of w] by (cases "ws = []") (auto simp: str_join_Cons)
qed simp

text \<open>The entry written for an admitted peer.\<close>

lemma enrolled_entry:
  fixes node :: node_id
  assumes "b64_laws C" and "plain_words ws"
    and "unat now + unat ttl * 86400 + 86400 < 253402300800"
  defines "entry \<equiv> parse_line C (build_line (key_words C node ws) (enroll_expiry now ttl))"
  shows "ke_node entry = Some node" and "is_valid (ke_expiry entry) now" and "entry_ok C entry" and "ke_raw entry \<noteq> []"
proof -
  note kept = kept_words_facts [OF assms(1,2), of node]
  have "ke_node entry = Some node \<and> is_valid (ke_expiry entry) now \<and> entry_ok C entry \<and> ke_raw entry \<noteq> []"
  proof (cases "ttl = 0")
    case True
    define j where "j = str_join '' '' (kept_words C node ws)"
    have line: "build_line (key_words C node ws) (enroll_expiry now ttl) = j"
      using True kept(2) by (simp add: build_line_def enroll_expiry_def j_def)
    have ne: "kept_words C node ws \<noteq> []" by (simp add: kept_words_def)
    have split: "split_whitespace j = kept_words C node ws"
      unfolding j_def by (rule split_whitespace_join [OF kept(1)])
    have node: "parse_ssh_pubkey C j = Some node"
      by (rule parse_ssh_words [OF assms(1)]) (use split in \<open>simp add: kept_words_def\<close>)
    have "parse_expiry_tokens j = Unset"
      using foldl_no_tokens [of "filter (\<lambda>w. \<not> expiry_tok w) ws"]
      by (simp add: parse_expiry_tokens_def split) (simp add: kept_words_def list_all_iff)
    moreover have "\<not> starts_with ''#'' j" "j \<noteq> []"
      by (simp_all add: j_def kept_words_def ssh_algo_def str_join_Cons starts_with_def)
    moreover have "str_trim j = j" "trim_end_char cr (trim_end_char nl j) = j"
      using kept(1) ne by (simp_all add: j_def join_trim join_trim_end solid_def)
    ultimately have "ke_node entry = Some node" "ke_expiry entry = Unset" "ke_raw entry = j"
      using node by (simp_all add: entry_def line parse_line_def Let_def)
    moreover have "entry_ok C entry"
      unfolding entry_def line j_def by (rule entry_ok_line [OF join_no_nl [OF kept(1)]])
    ultimately show ?thesis using \<open>j \<noteq> []\<close> by simp
  next
    case False
    define t where "t = expiry_from_ttl_days now ttl"
    have bounds: "unat now + unat ttl * 86400 < unat t" "unat t \<le> unat now + unat ttl * 86400 + 86400"
      "t div SECS_PER_DAY * SECS_PER_DAY = t"
      using expiry_from_ttl_bounds [of now ttl] assms(3) by (simp_all add: t_def)
    have "unat t < 253402300800" using bounds(2) assms(3) by simp
    from built_line_parses [OF assms(1,2) this refl, of node]
    have entry: "entry = \<lparr>ke_raw = build_line (key_words C node ws) (At t), ke_node = Some node, ke_expiry = At t\<rparr>"
      using False bounds(3) by (simp add: entry_def enroll_expiry_def t_def key_words_def)
    have words: "plain_words (kept_words C node ws @ [TOK_EXPIRES @ format_date_ymd_utc t])"
      using kept(1) token_plain [of t] by simp
    have "build_line (key_words C node ws) (At t) =
        str_join '' '' (kept_words C node ws @ [TOK_EXPIRES @ format_date_ymd_utc t])"
      using kept(2) str_join_snoc [of "kept_words C node ws"] by (simp add: build_line_def) (simp add: kept_words_def)
    then have "nl \<notin> set (build_line (key_words C node ws) (At t))" and "build_line (key_words C node ws) (At t) \<noteq> []"
      using join_no_nl [OF words] by (auto simp: kept_words_def ssh_algo_def str_join_Cons)
    moreover from this(1) have "entry_ok C entry"
      using False entry_ok_line [of "build_line (key_words C node ws) (At t)" C]
      by (simp add: entry_def enroll_expiry_def t_def)
    ultimately show ?thesis
      using bounds(1) by (simp add: entry word_less_nat_alt)
  qed
  then show "ke_node entry = Some node" and "is_valid (ke_expiry entry) now" and "entry_ok C entry" and "ke_raw entry \<noteq> []"
    by blast+
qed

text \<open>An admitted peer is authorized from then on, and nobody else gains or loses by it.\<close>

lemma admitted_authorized:
  assumes "b64_laws C" and "plain_words ws"
    and bound: "unat now + unat (default_ttl_days e) * 86400 + 86400 < 253402300800"
    and run: "admit_peer C now (key_words C node ws) flag e = (e', Ok True)"
  shows "authorized_node_ids C now e' = insert node (authorized_node_ids C now e)"
proof -
  let ?es = "parse_file C (me_authorized e)"
  define entry where "entry = parse_line C (build_line (key_words C node ws) (enroll_expiry now (default_ttl_days e)))"
  note new = enrolled_entry [OF assms(1,2) bound, of node, folded entry_def]
  have key: "parse_ssh_pubkey C (key_words C node ws) = Some node" by (rule key_words_node [OF assms(1,2)])
  have written: "authorized_node_ids C now (e\<lparr>me_authorized := serialize es\<rparr>) =
      {n. \<exists>k \<in> set es. ke_node k = Some n \<and> is_valid (ke_expiry k) now}"
    if "set es \<subseteq> insert entry (set ?es)" "entry \<in> set es" for es
  proof -
    have "entry_ok C k" if "k \<in> set es" for k
      using that \<open>set es \<subseteq> _\<close> new(3) entry_ok_file [of k C "me_authorized e"] by blast
    with that(2) new(4) have "parse_file C (serialize es) = es"
      by (intro parse_serialize) (auto simp: list_all_iff)
    then show ?thesis by (auto simp: authorized_iff)
  qed
  from run show ?thesis
  proof (cases rule: admit_peer_cases)
    case (listed n)
    with key show ?thesis by auto
  next
    case (renewed n i)
    let ?new = "?es[i := entry]"
    from renewed key have n: "ke_node (?es ! i) = Some node" "i < length ?es" by simp_all
    have sub: "set ?new \<subseteq> insert entry (set ?es)" "entry \<in> set ?new"
      using n(2) by (simp_all add: set_update_subset_insert set_update_memI)
    have "(\<exists>k \<in> set ?new. ke_node k = Some m \<and> is_valid (ke_expiry k) now) \<longleftrightarrow>
        m = node \<or> (\<exists>k \<in> set ?es. ke_node k = Some m \<and> is_valid (ke_expiry k) now)" for m
    proof (cases "m = node")
      case True
      with sub(2) new show ?thesis by blast
    next
      case False
      have "k \<in> set ?new" if "k \<in> set ?es" "ke_node k = Some m" for k
      proof -
        obtain j where "j < length ?es" "?es ! j = k" using \<open>k \<in> set ?es\<close> by (auto simp: in_set_conv_nth)
        moreover from this that n False have "j \<noteq> i" by auto
        ultimately show ?thesis by (metis length_list_update nth_list_update_neq nth_mem)
      qed
      moreover have "k \<in> set ?es" if "k \<in> set ?new" "ke_node k = Some m" for k
        using that sub(1) False new(1) by auto
      ultimately show ?thesis using False by blast
    qed
    then have "{m. \<exists>k \<in> set ?new. ke_node k = Some m \<and> is_valid (ke_expiry k) now} = insert node (authorized_node_ids C now e)"
      by (auto simp: authorized_iff)
    with written [OF sub] renewed(5) show ?thesis unfolding entry_def by simp
  next
    case (enrolled n)
    have "set (?es @ [entry]) \<subseteq> insert entry (set ?es)" "entry \<in> set (?es @ [entry])" by auto
    from written [OF this] show ?thesis
      using enrolled(4) new authorized_iff [of _ C now e] by (auto simp: entry_def)
  qed
qed

end
