(* ===== verification/Sync_Properties.thy ===== *)
theory Sync_Properties
  imports Session_Facts Demo_Engine Materialize_Facts Admission_Facts
begin

text \<open>
  Properties of the replication session (session.rs) and of the session over the in-memory engine (engine.rs).
\<close>

section \<open>Honest ends\<close>

text \<open>A vault that signs with an identity and presents that identity's key.\<close>

definition signs_as :: "crates \<Rightarrow> 'v vault_ops \<Rightarrow> 'v \<Rightarrow> identity \<Rightarrow> bool" where
  "signs_as C V v i \<longleftrightarrow> vo_sign V v = id_sign C i \<and> vo_identity_ssh V v = to_ssh_string C i"

lemma engine_signs: "signs_as C (engine_ops C now) e (me_identity e)"
  by (simp add: signs_as_def engine_ops_def)

lemma own_key: "b64_laws C \<Longrightarrow> parse_ssh_pubkey C (to_ssh_string C i) = Some (id_node C i)"
  unfolding to_ssh_string_def by (rule ssh_roundtrip)

lemma own_signature: "ed_laws C \<Longrightarrow> verify_detached C (id_node C i) m (id_sign C i m) = Ok ()"
  by (simp add: verify_detached_def verifying_key_def check_signature_def ed_laws_def id_sign_def id_node_def)

lemma hello_answered:
  assumes "se_phase s = AwaitHello" and "agreed_binding s cb = Ok binding"
  shows "on_msg C V (Hello (vo_vault_id V v) name peer nonce cb PROTO_VERSION) (s, v) =
    ((s\<lparr>se_phase := AwaitAuth (signed_script s nonce binding) peer\<rparr>, v),
     Ok (no_step\<lparr>st_out := [AuthProof (vo_sign V v (signed_script s nonce binding))]\<rparr>))"
  using assms
  by (cases "se_role s") (simp_all add: on_msg_def on_hello_def sbind_def put_session_def signed_script_def Let_def)

lemma proof_accepted:
  assumes "se_phase s = AwaitAuth script peer" and "parse_ssh_pubkey C peer = Some node"
    and "verify_detached C node script sig = Ok ()"
    and "(if se_role s = Listener then vo_admit_peer V peer (se_enrollment_authorized s) v else (v, Ok True)) = (v', Ok True)"
    and "vo_frontier_tips V v' = Ok tips"
  shows "on_msg C V (AuthProof sig) (s, v) =
    ((s\<lparr>se_peer_ssh := Some peer, se_phase := Established\<rparr>, v'),
     Ok (no_step\<lparr>st_out := [FrontierDigest (map (to_hex C) tips)]\<rparr>))"
  using assms
  by (simp add: on_msg_def on_auth_def sbind_def ok_or.simps on_vault_def put_session_def split: if_splits)

lemma handshake_run:
  fixes lv cv :: mem_engine
  assumes laws: "b64_laws C" "ed_laws C"
    and vault: "vc_vault_id (me_config lv) = vc_vault_id (me_config cv)"
    and pin: "pin = [] \<or> pin = cb \<or> is_binding_disabled cb"
    and admit: "admit_peer C now (to_ssh_string C (me_identity cv)) enrolled lv = (lv', Ok True)"
    and tips: "engine_frontier_tips C lv' = Ok lt" "engine_frontier_tips C cv = Ok ct"
    and l0: "l0 = set_enrollment_authorized enrolled (session_new Listener cb ln)" and c0: "c0 = session_new Connector pin cn"
  shows "\<exists>l1 c1 lproof cproof l2 c2.
    on_msg C (engine_ops C now) (session_start (engine_ops C now) c0 cv) (l0, lv) = ((l1, lv), Ok (no_step\<lparr>st_out := [lproof]\<rparr>))
    \<and> on_msg C (engine_ops C now) (session_start (engine_ops C now) l0 lv) (c0, cv) = ((c1, cv), Ok (no_step\<lparr>st_out := [cproof]\<rparr>))
    \<and> on_msg C (engine_ops C now) cproof (l1, lv) =
        ((l2, lv'), Ok (no_step\<lparr>st_out := [FrontierDigest (map (to_hex C) lt)]\<rparr>))
    \<and> on_msg C (engine_ops C now) lproof (c1, cv) =
        ((c2, cv), Ok (no_step\<lparr>st_out := [FrontierDigest (map (to_hex C) ct)]\<rparr>))
    \<and> established l2 \<and> se_peer_ssh l2 = Some (to_ssh_string C (me_identity cv))
    \<and> established c2 \<and> se_peer_ssh c2 = Some (to_ssh_string C (me_identity lv))"
proof -
  let ?V = "engine_ops C now" and ?script = "transcript cn ln cb"
  note ops = engine_ops_def set_enrollment_authorized_def session_new_def
  have scripts: "signed_script l0 cn cb = ?script" "signed_script c0 ln cb = ?script"
    by (simp_all add: signed_script_def l0 c0 ops)
  define l1 where "l1 = l0\<lparr>se_phase := AwaitAuth ?script (to_ssh_string C (me_identity cv))\<rparr>"
  define c1 where "c1 = c0\<lparr>se_phase := AwaitAuth ?script (to_ssh_string C (me_identity lv))\<rparr>"
  have hello_l: "on_msg C ?V (session_start ?V c0 cv) (l0, lv) =
      ((l1, lv), Ok (no_step\<lparr>st_out := [AuthProof (id_sign C (me_identity lv) ?script)]\<rparr>))"
    using hello_answered [of l0 "[]" cb C ?V lv "vc_name (me_config cv)" "to_ssh_string C (me_identity cv)" cn] scripts vault
    by (simp add: l1_def session_start_def agreed_binding_def l0 c0 ops)
  have hello_c: "on_msg C ?V (session_start ?V l0 lv) (c0, cv) =
      ((c1, cv), Ok (no_step\<lparr>st_out := [AuthProof (id_sign C (me_identity cv) ?script)]\<rparr>))"
    using hello_answered [of c0 cb cb C ?V cv "vc_name (me_config lv)" "to_ssh_string C (me_identity lv)" ln] scripts vault pin
    by (auto simp: c1_def session_start_def agreed_binding_def l0 c0 ops)
  have proof_l: "on_msg C ?V (AuthProof (id_sign C (me_identity cv) ?script)) (l1, lv) =
      ((l1\<lparr>se_peer_ssh := Some (to_ssh_string C (me_identity cv)), se_phase := Established\<rparr>, lv'),
       Ok (no_step\<lparr>st_out := [FrontierDigest (map (to_hex C) lt)]\<rparr>))"
    by (rule proof_accepted [OF _ own_key [OF laws(1)] own_signature [OF laws(2)]])
      (use admit tips(1) in \<open>simp_all add: l1_def l0 ops\<close>)
  have proof_c: "on_msg C ?V (AuthProof (id_sign C (me_identity lv) ?script)) (c1, cv) =
      ((c1\<lparr>se_peer_ssh := Some (to_ssh_string C (me_identity lv)), se_phase := Established\<rparr>, cv),
       Ok (no_step\<lparr>st_out := [FrontierDigest (map (to_hex C) ct)]\<rparr>))"
    by (rule proof_accepted [OF _ own_key [OF laws(1)] own_signature [OF laws(2)]])
      (use tips(2) in \<open>simp_all add: c1_def c0 ops\<close>)
  from hello_l hello_c proof_l proof_c show ?thesis
    by (intro exI conjI) (assumption | simp add: established_def)+
qed

section \<open>Authentication\<close>

text \<open>C5. Nobody is taken for an authenticated peer without proof: whenever a session is established, after
  whatever messages in whatever order and whatever else happened to the vault, its recorded peer key is one
  a received greeting of the right protocol version presented, and a received signature verifies with that
  key over this session's own nonce, the nonce of that greeting and the agreed channel binding.\<close>
theorem established_peer_proved:
  assumes "reaches C V (session_new role cb nonce, v0) ms (s, v)" and "established s"
  shows "\<exists>peer vid name peer_nonce peer_cb binding sig node.
    se_peer_ssh s = Some peer \<and> Hello vid name peer peer_nonce peer_cb PROTO_VERSION \<in> set ms
    \<and> AuthProof sig \<in> set ms \<and> parse_ssh_pubkey C peer = Some node
    \<and> verify_detached C node
        (case role of
           Connector \<Rightarrow> transcript nonce peer_nonce binding
         | Listener \<Rightarrow> transcript peer_nonce nonce binding) sig = Ok ()
    \<and> (case role of
         Listener \<Rightarrow> binding = cb
       | Connector \<Rightarrow> binding = peer_cb \<and> (is_binding_disabled peer_cb \<or> cb = [] \<or> cb = peer_cb))"
proof -
  have "auth_inv C (session_new role cb nonce) ms s"
    using reaches_auth_inv [OF assms(1)] by (simp add: session_new_def)
  with assms(2) obtain peer where peer: "se_peer_ssh s = Some peer" and "proved_by C (session_new role cb nonce) ms peer"
    by (auto simp: auth_inv_def established_def)
  then obtain sig node vid name peer_nonce peer_cb binding where m: "AuthProof sig \<in> set ms"
    "parse_ssh_pubkey C peer = Some node" "Hello vid name peer peer_nonce peer_cb PROTO_VERSION \<in> set ms"
    and b: "agreed_binding (session_new role cb nonce) peer_cb = Ok binding"
    and v: "verify_detached C node (signed_script (session_new role cb nonce) peer_nonce binding) sig = Ok ()"
    unfolding proved_by_def hello_seen_def by blast
  from b have "case role of Listener \<Rightarrow> binding = cb
       | Connector \<Rightarrow> binding = peer_cb \<and> (is_binding_disabled peer_cb \<or> cb = [] \<or> cb = peer_cb)"
    by (auto simp: agreed_binding_def session_new_def split: role.splits if_splits)
  moreover have "verify_detached C node (case role of Connector \<Rightarrow> transcript nonce peer_nonce binding
      | Listener \<Rightarrow> transcript peer_nonce nonce binding) sig = Ok ()"
    using v by (cases role) (simp_all add: signed_script_def session_new_def)
  ultimately show ?thesis using peer m by blast
qed

text \<open>The two ends of the demonstration, a listener that trusts on first use and a connector.\<close>

definition demo_listener :: "session \<times> mem_engine" where
  "demo_listener = (session_new Listener ''cert'' ''ln'', demo_engine ''L'')"

definition demo_connector :: "session \<times> mem_engine" where
  "demo_connector = (session_new Connector ''cert'' ''cn'', demo_engine ''C'')"

lemma demo_admits: "\<exists>e'. admit_peer demo now (to_ssh_string demo i) flag (demo_engine who) = (e', Ok True)
    \<and> engine_frontier_tips demo e' = Ok []"
  using own_key [OF demo_b64_laws, of i] demo_tips [of who]
  by (simp add: admit_peer_def parse_file_def demo_config_def Let_def str_lines_def engine_frontier_tips_def)

lemma demo_listener_run:
  "\<exists>ms s v. reaches demo (engine_ops demo 0) (session_new Listener ''cert'' ''ln'', demo_engine ''L'') ms (s, v)
     \<and> established s"
proof -
  obtain e' where e': "admit_peer demo 0 (to_ssh_string demo (me_identity (demo_engine ''C''))) False (demo_engine ''L'') = (e', Ok True)"
    "engine_frontier_tips demo e' = Ok []" using demo_admits by blast
  have same: "set_enrollment_authorized False (session_new Listener ''cert'' ''ln'') = session_new Listener ''cert'' ''ln''"
    by (simp add: set_enrollment_authorized_def session_new_def)
  obtain m1 m2 st1 st2 r1 r2 where m1: "on_msg demo (engine_ops demo 0) m1 (session_new Listener ''cert'' ''ln'', demo_engine ''L'') = (st1, r1)"
    and m2: "on_msg demo (engine_ops demo 0) m2 st1 = (st2, r2)" and est: "established (fst st2)"
    using handshake_run [OF demo_b64_laws demo_ed_laws _ _ e' demo_tips same [symmetric] refl, of "''cert''" "''cn''"]
    by auto
  have "reaches demo (engine_ops demo 0) (session_new Listener ''cert'' ''ln'', demo_engine ''L'') ([] @ [m1] @ [m2]) st2"
    using reaches.message [OF reaches.message [OF reaches.init m1] m2] by simp
  with est show ?thesis by (metis prod.collapse)
qed

lemma established_peer_proved_witness:
  "\<exists>sig node script. verify_detached demo node (AUTH_CTX @ script) sig = Ok ()"
proof -
  from demo_listener_run obtain ms s v where
    "reaches demo (engine_ops demo 0) (session_new Listener ''cert'' ''ln'', demo_engine ''L'') ms (s, v)" "established s"
    by blast
  from established_peer_proved [OF this] show ?thesis unfolding transcript_def by auto
qed

text \<open>Until a peer has proved its key nothing it sends has an effect: the vault is unchanged unless the
  message is a signature that verifies with the key the peer presented, no object is integrated, relayed or
  buffered, and an error leaves the session where it was.\<close>
theorem unproved_peer_changes_nothing:
  assumes "on_msg C V m (s, v) = ((s', v'), r)" and "\<not> established s"
  shows "(v' = v \<or> (\<exists>script peer sig node. se_phase s = AwaitAuth script peer \<and> m = AuthProof sig
        \<and> parse_ssh_pubkey C peer = Some node \<and> verify_detached C node script sig = Ok ()))
    \<and> (\<forall>x. r = Ok x \<longrightarrow> st_integrated x = 0 \<and> st_relay x = [])
    \<and> se_pending_batch s' = se_pending_batch s
    \<and> (\<forall>e. r = Err e \<longrightarrow> s' = s)"
proof (cases "se_phase s")
  case AwaitHello
  with assms on_hello_cases [of V m s v s' v' r] show ?thesis by (auto simp: on_msg_def no_step_def)
next
  case (AwaitAuth script peer)
  with assms on_auth_cases [of C V script peer m s v s' v' r] show ?thesis by (auto simp: on_msg_def no_step_def)
next
  case Established
  with assms(2) show ?thesis by (simp add: established_def)
qed

lemma unproved_peer_changes_nothing_witness:
  "snd (fst (on_msg demo (engine_ops demo 0) (Live [''x'']) demo_listener)) = demo_engine ''L''"
proof -
  obtain s' v' r where run: "on_msg demo (engine_ops demo 0) (Live [''x'']) demo_listener = ((s', v'), r)"
    by (metis prod.exhaust)
  have "\<not> established (fst demo_listener)" by (simp add: demo_listener_def session_new_def established_def)
  with unproved_peer_changes_nothing [of demo "engine_ops demo 0" "Live [''x'']" "fst demo_listener" "snd demo_listener" s' v' r] run
  show ?thesis by (auto simp: demo_listener_def)
qed



text \<open>A listener lets in a peer only if its key is authorized and not expired, or the connection may enroll,
  or the list holds no key at all and trust on first use is on; in the first case the list is left as it is.\<close>
theorem listener_establishes_authorized:
  assumes "on_msg C (engine_ops C now) m (s, e) = ((s', e'), r)"
    and "se_role s = Listener" and "\<not> established s" and "established s'"
  shows "\<exists>peer node. se_peer_ssh s' = Some peer \<and> parse_ssh_pubkey C peer = Some node
    \<and> (node \<in> authorized_node_ids C now e \<and> e' = e \<or> se_enrollment_authorized s
       \<or> (\<forall>k \<in> set (parse_file C (me_authorized e)). ke_node k = None)
          \<and> \<not> vc_no_tofu (me_config e) \<and> vc_auth_keys (me_config e) = [])"
proof (cases "se_phase s")
  case AwaitHello
  with assms on_hello_cases [of "engine_ops C now" m s e s' e' r] show ?thesis
    by (auto simp: on_msg_def established_def)
next
  case (AwaitAuth script peer)
  with assms on_auth_cases [of C "engine_ops C now" script peer m s e s' e' r]
  obtain node where node: "parse_ssh_pubkey C peer = Some node"
    and admit: "vo_admit_peer (engine_ops C now) peer (se_enrollment_authorized s) e = (e', Ok True)"
    and s': "s' = s\<lparr>se_peer_ssh := Some peer, se_phase := Established\<rparr>"
    by (auto simp: on_msg_def established_def)
  from admit have "admit_peer C now peer (se_enrollment_authorized s) e = (e', Ok True)" by (simp add: engine_ops_def)
  then show ?thesis
    by (cases rule: admit_peer_cases) (use node s' in auto)
next
  case Established
  with assms(3) show ?thesis by (simp add: established_def)
qed

lemma listener_establishes_authorized_witness:
  "\<exists>peer node. parse_ssh_pubkey demo peer = Some node \<and> peer = to_ssh_string demo \<lparr>id_seed = ''C''\<rparr>"
proof -
  let ?peer = "to_ssh_string demo \<lparr>id_seed = ''C''\<rparr>" and ?script = "transcript ''cn'' ''ln'' ''cert''"
  let ?s = "(session_new Listener ''cert'' ''ln'')\<lparr>se_phase := AwaitAuth ?script ?peer\<rparr>"
  obtain e' where "admit_peer demo 0 ?peer False (demo_engine ''L'') = (e', Ok True)" "engine_frontier_tips demo e' = Ok []"
    using demo_admits by blast
  then have "on_msg demo (engine_ops demo 0) (AuthProof (id_sign demo \<lparr>id_seed = ''C''\<rparr> ?script)) (?s, demo_engine ''L'') =
      ((?s\<lparr>se_peer_ssh := Some ?peer, se_phase := Established\<rparr>, e'), Ok (no_step\<lparr>st_out := [FrontierDigest (map (to_hex demo) [])]\<rparr>))"
    by (intro proof_accepted [OF _ own_key [OF demo_b64_laws] own_signature [OF demo_ed_laws]])
      (simp_all add: session_new_def engine_ops_def)
  from listener_establishes_authorized [OF this] show ?thesis
    by (auto simp: session_new_def established_def)
qed

text \<open>C39. A listener accepts its own proof: the transcript names neither the role of the signer nor its key, and a
  listener answers a greeting with its proof before it has seen one, so a client that greets with the listener's
  own key and sends the listener's proof back is established as the listener, wherever the listener's own key
  would be admitted.\<close>
theorem reflected_proof_accepted:
  assumes laws: "b64_laws C" "ed_laws C"
    and s: "se_phase s = AwaitHello" "se_role s = Listener"
    and admit: "admit_peer C now (to_ssh_string C (me_identity e)) (se_enrollment_authorized s) e = (e', Ok True)"
    and tips: "engine_frontier_tips C e' = Ok tips"
  shows "\<exists>st reply s' x.
    on_msg C (engine_ops C now) (Hello (vc_vault_id (me_config e)) name (to_ssh_string C (me_identity e)) nonce cb PROTO_VERSION)
      (s, e) = (st, Ok (no_step\<lparr>st_out := [reply]\<rparr>))
    \<and> on_msg C (engine_ops C now) reply st = ((s', e'), Ok x)
    \<and> established s' \<and> se_peer_ssh s' = Some (to_ssh_string C (me_identity e))"
proof -
  let ?V = "engine_ops C now" and ?peer = "to_ssh_string C (me_identity e)"
  define script where "script = signed_script s nonce (se_channel_binding s)"
  have "agreed_binding s cb = Ok (se_channel_binding s)" by (simp add: agreed_binding_def s)
  from hello_answered [OF s(1) this, of C ?V e name ?peer nonce]
  have hello: "on_msg C ?V (Hello (vc_vault_id (me_config e)) name ?peer nonce cb PROTO_VERSION) (s, e) =
      ((s\<lparr>se_phase := AwaitAuth script ?peer\<rparr>, e), Ok (no_step\<lparr>st_out := [AuthProof (id_sign C (me_identity e) script)]\<rparr>))"
    by (simp add: script_def engine_ops_def)
  have "on_msg C ?V (AuthProof (id_sign C (me_identity e) script)) (s\<lparr>se_phase := AwaitAuth script ?peer\<rparr>, e) =
      (((s\<lparr>se_phase := AwaitAuth script ?peer\<rparr>)\<lparr>se_peer_ssh := Some ?peer, se_phase := Established\<rparr>, e'),
       Ok (no_step\<lparr>st_out := [FrontierDigest (map (to_hex C) tips)]\<rparr>))"
    by (rule proof_accepted [OF _ own_key [OF laws(1)] own_signature [OF laws(2)]])
      (use admit tips s in \<open>simp_all add: engine_ops_def\<close>)
  with hello show ?thesis by (intro exI conjI) (assumption | simp add: established_def)+
qed

lemma reflected_proof_accepted_witness:
  "\<exists>st reply s' e' x. on_msg demo (engine_ops demo 0) reply st = ((s', e'), Ok x)
     \<and> established s' \<and> se_peer_ssh s' = Some (to_ssh_string demo \<lparr>id_seed = ''L''\<rparr>)"
proof -
  obtain e' where e': "admit_peer demo 0 (to_ssh_string demo (me_identity (demo_engine ''L''))) False (demo_engine ''L'') = (e', Ok True)"
    "engine_frontier_tips demo e' = Ok []" using demo_admits by blast
  let ?s = "session_new Listener ''cert'' ''ln''"
  have s: "se_phase ?s = AwaitHello" "se_role ?s = Listener" by (simp_all add: session_new_def)
  have "admit_peer demo 0 (to_ssh_string demo (me_identity (demo_engine ''L''))) (se_enrollment_authorized ?s) (demo_engine ''L'')
      = (e', Ok True)"
    using e'(1) by (simp add: session_new_def)
  from reflected_proof_accepted [OF demo_b64_laws demo_ed_laws s this e'(2)] show ?thesis
    unfolding demo_engine_sel by blast
qed

section \<open>Catch-up\<close>

text \<open>The frames of a catch-up response carry exactly the exported objects in their order, only the last frame
  is marked, there is always one, and a frame holds at most 256 KiB unless it is a single object.\<close>
theorem catchup_frames_bounded:
  "\<exists>cs c. batch_frames raws = map (\<lambda>c. ObjectsBatch c False) cs @ [ObjectsBatch c True] \<and> concat cs @ c = raws
    \<and> (\<forall>chunk \<in> set (cs @ [c]). sum_list (map length chunk) \<le> 262144 \<or> length chunk = 1)"
proof (rule batch_frames_split [of raws])
  fix cs c
  assume split: "batch_frames raws = map (\<lambda>c. ObjectsBatch c False) cs @ [ObjectsBatch c True]" "concat cs @ c = raws"
  have "sum_list (map length chunk) \<le> 262144 \<or> length chunk = 1" if "chunk \<in> set (cs @ [c])" for chunk
  proof -
    from that split(1) have "\<exists>b. ObjectsBatch chunk b \<in> set (batch_frames raws)" by auto
    then have "chunk = [] \<or> chunk \<in> set (chunk_objects raws CATCHUP_CHUNK_BYTES)"
      by (auto simp: batch_frames_def Let_def in_set_enumerate_eq split: if_splits)
    then show ?thesis
      using chunk_objects_facts(2) [of chunk raws CATCHUP_CHUNK_BYTES] by (auto simp: CATCHUP_CHUNK_BYTES_def)
  qed
  with split show ?thesis by blast
qed

lemma catchup_frames_bounded_witness:
  "\<exists>cs c. batch_frames [''ab'', ''c''] = map (\<lambda>c. ObjectsBatch c False) cs @ [ObjectsBatch c True]"
  using catchup_frames_bounded by blast

text \<open>A chunked catch-up is integrated as one batch: fed the frames of a response, an established session
  calls the engine exactly once with all the objects in order, whatever the chunking, reports nothing before the
  last frame, and on an error of the engine keeps no part of the batch pending.\<close>
theorem catchup_batch_whole:
  assumes "established s" and "se_pending_batch s = []"
  shows "feed C V (batch_frames raws) (s, v) =
    (case vo_integrate V raws v of
       (v', Inl e) \<Rightarrow> ((s, v'), Err e)
     | (v', Inr n) \<Rightarrow>
         ((s, vo_mark_bootstrap_complete V v'),
          Ok (replicate (length (batch_frames raws) - 1) no_step @
              [no_step\<lparr>st_integrated := n, st_relay := (if n > 0 then raws else [])\<rparr>])))"
  using assms by (intro feed_batch) (simp_all add: established_def)

lemma catchup_batch_whole_witness:
  "snd (feed demo (engine_ops demo 0) (batch_frames []) ((session_new Listener [] [])\<lparr>se_phase := Established\<rparr>, demo_engine ''L''))
     = Ok [no_step]"
proof -
  have frames: "batch_frames [] = [ObjectsBatch [] True]" by (simp add: batch_frames_def chunk_objects_def)
  have "vo_integrate (engine_ops demo 0) [] (demo_engine ''L'') = (demo_engine ''L'', Ok 0)"
    by (simp add: engine_ops_def integrate_def put_raws_def on_store_def sbind_def)
  then show ?thesis
    using catchup_batch_whole [of "(session_new Listener [] [])\<lparr>se_phase := Established\<rparr>" demo "engine_ops demo 0" "[]" "demo_engine ''L''"]
    by (simp add: established_def session_new_def frames no_step_def)
qed

text \<open>C16. No peer can make an engine forget or corrupt: whatever messages a session is fed, the engine keeps its
  invariant, every stored object stays readable as it was, every known primitive stays known and the observed
  counter never goes back.\<close>
theorem session_never_loses:
  assumes "feed C (engine_ops C now) ms (s, e) = ((s', e'), r)" and "engine_inv C e"
  shows "engine_inv C e' \<and> get_le (me_get C e) (me_get C e')
    \<and> set (es_known (me_state e)) \<subseteq> set (es_known (me_state e'))
    \<and> es_observed (me_state e) \<le> es_observed (me_state e')"
  using engine.feed_le [OF assms(1)] assms(2) by (simp add: advances_def)

lemma session_never_loses_witness:
  "engine_inv demo (snd (fst (feed demo (engine_ops demo 0) [Live [''x''], Ping, Objects []] demo_listener)))"
proof -
  obtain s' e' r where "feed demo (engine_ops demo 0) [Live [''x''], Ping, Objects []] demo_listener = ((s', e'), r)"
    by (metis prod.exhaust)
  with session_never_loses [of demo 0 "[Live [''x''], Ping, Objects []]" "fst demo_listener" "snd demo_listener" s' e' r]
  show ?thesis by (simp add: demo_listener_def)
qed

end
