(* ===== verification/Publish_Facts.thy ===== *)
theory Publish_Facts
  imports Commit_Facts
begin

text \<open>
  What a commit publishes, from its working files to the primitive and the record, and when it publishes nothing.
\<close>

lemma commit_published:
  assumes "commit_scoped C now wall scoped e = (e', Ok (Some x))" and "me_main e = Some parent"
    and "bt_wf scoped" and "hex_laws C" and "b64_laws C" and "ed_laws C"
  shows "\<exists>tree c.
    (let mat = es_materialized (me_state e); verdict = path_verdict C (me_get C e) parent tree mat;
         files = published C (me_get C e) parent tree mat scoped
     in main_tree (me_get C e) parent = Ok tree \<and> x = oid_of C (Commit c)
      \<and> verify_primitive C c = Ok (id_node C (me_identity e))
      \<and> parse_primitive_meta C c = Some (es_observed (me_state e) + 1, id_node C (me_identity e))
      \<and> co_parents c = [parent] \<and> co_tree c = snd (write_tree_from_files C files)
      \<and> set (parse_primitive_readds C c) = {d. \<exists>(p, content) \<in> set scoped. verdict p = Ok (Readd d)}
      \<and> set (es_known (me_state e')) = insert (to_hex C x) (set (es_known (me_state e)))
      \<and> es_materialized (me_state e') = hashes C files
      \<and> me_quarantines e' = me_quarantines e @ ghosts C (me_get C e) parent tree mat now scoped)"
proof -
  define mat where "mat = es_materialized (me_state e)"
  have ready: "\<not> es_bootstrap_pending (me_state e)"
    using assms(1) by (auto simp: commit_scoped_def)
  obtain tree readds where tree: "main_tree (me_get C e) parent = Ok tree"
    and "\<forall>(p, c) \<in> set scoped. \<exists>v. path_verdict C (me_get C e) parent tree mat p = Ok v"
    and readds: "set readds = {d. \<exists>(p, c) \<in> set scoped. path_verdict C (me_get C e) parent tree mat p = Ok (Readd d)}"
    and "distinct readds"
    and run: "(let f = apply_quarantines (ghosts C (me_get C e) parent tree mat now scoped) e;
              files = published C (me_get C e) parent tree mat scoped
          in if genuine_change C (es_materialized (me_state f)) files then publish C wall parent files readds f
             else (f, Ok None)) = (e', Ok (Some x))"
    by (rule commit_scoped_Ok [OF assms(1,2) ready assms(3), folded mat_def])
  define f where "f = apply_quarantines (ghosts C (me_get C e) parent tree mat now scoped) e"
  from run have pub: "publish C wall parent (published C (me_get C e) parent tree mat scoped) readds f = (e', Ok (Some x))"
    by (simp add: Let_def f_def split: if_split_asm)
  have f: "es_known (me_state f) = es_known (me_state e)" "es_observed (me_state f) = es_observed (me_state e)"
    "me_identity f = me_identity e" "me_quarantines f = me_quarantines e @ ghosts C (me_get C e) parent tree mat now scoped"
    by (simp_all add: f_def apply_quarantines_sel)
  from publish_Ok [OF assms(4-6) pub] obtain c s m where c: "Some x = Some (oid_of C (Commit c))"
      "verify_primitive C c = Ok (id_node C (me_identity f))"
      "parse_primitive_meta C c = Some (es_observed (me_state f) + 1, id_node C (me_identity f))"
      "co_parents c = [parent]" "co_tree c = snd (write_tree_from_files C (published C (me_get C e) parent tree mat scoped))"
      "parse_primitive_readds C c = readds"
    and e': "e' = f\<lparr>me_store := s, me_main := m, me_state := (add_known C (oid_of C (Commit c))
        (fst (next_counter (me_state f))))\<lparr>es_materialized := hashes C (published C (me_get C e) parent tree mat scoped)\<rparr>\<rparr>"
    by blast
  have "set (es_known (me_state e')) = insert (to_hex C x) (set (es_known (me_state e)))"
    using c(1) f(1) by (auto simp: e' add_known_def next_counter_def Let_def)
  with tree c readds f e' show ?thesis
    unfolding mat_def [symmetric] by (intro exI [of _ tree] exI [of _ c]) (simp add: Let_def)
qed

lemma commit_nothing_iff:
  assumes "commit_scoped C now wall scoped e = (e', Ok r)" and "me_main e = Some parent"
    and "\<not> es_bootstrap_pending (me_state e)" and "bt_wf scoped" and "bt_wf (es_materialized (me_state e))"
    and "hex_laws C" and "b64_laws C" and "ed_laws C"
  shows "\<exists>tree. (let mat = es_materialized (me_state e); verdict = path_verdict C (me_get C e) parent tree mat in
      main_tree (me_get C e) parent = Ok tree
      \<and> (r = None \<longleftrightarrow> hashes C (published C (me_get C e) parent tree mat scoped) =
            filter (\<lambda>(p, h). \<not> (bt_contains scoped p \<and> verdict p = Ok Stale)) mat)
      \<and> (r = None \<longrightarrow> es_known (me_state e') = es_known (me_state e) \<and> es_observed (me_state e') = es_observed (me_state e)
            \<and> me_store e' = me_store e \<and> me_main e' = me_main e))"
proof -
  define mat where "mat = es_materialized (me_state e)"
  obtain tree readds where tree: "main_tree (me_get C e) parent = Ok tree"
    and "\<forall>(p, c) \<in> set scoped. \<exists>v. path_verdict C (me_get C e) parent tree mat p = Ok v"
    and "set readds = {d. \<exists>(p, c) \<in> set scoped. path_verdict C (me_get C e) parent tree mat p = Ok (Readd d)}"
    and "distinct readds"
    and run: "(let f = apply_quarantines (ghosts C (me_get C e) parent tree mat now scoped) e;
              files = published C (me_get C e) parent tree mat scoped
          in if genuine_change C (es_materialized (me_state f)) files then publish C wall parent files readds f
             else (f, Ok None)) = (e', Ok r)"
    by (rule commit_scoped_Ok [OF assms(1,2,3,4), folded mat_def])
  define f where "f = apply_quarantines (ghosts C (me_get C e) parent tree mat now scoped) e"
  define files where "files = published C (me_get C e) parent tree mat scoped"
  define left where "left = filter (\<lambda>(p, h). \<not> (bt_contains scoped p \<and> path_verdict C (me_get C e) parent tree mat p = Ok Stale)) mat"
  have "bt_contains scoped p \<longleftrightarrow> (\<exists>c. (p, c) \<in> set scoped)" for p
    using assms(4) by (auto simp: bt_contains_get bt_get_mem)
  then have left: "es_materialized (me_state f) = left"
    unfolding f_def left_def apply_quarantines_sel quarantined_ghosts mat_def by (intro filter_cong) auto
  have wf: "bt_wf files" "bt_wf left"
    using assms(4,5) by (simp_all add: files_def left_def mat_def published_wf bt_wf_filter)
  have run: "(if genuine_change C left files then publish C wall parent files readds f else (f, Ok None)) = (e', Ok r)"
    using run unfolding Let_def f_def [symmetric] files_def [symmetric] left .
  have "r = None \<longleftrightarrow> \<not> genuine_change C left files"
  proof (cases "genuine_change C left files")
    case True
    with run have "publish C wall parent files readds f = (e', Ok r)" by simp
    from publish_Ok [OF assms(6-8) this] obtain c where "r = Some (oid_of C (Commit c))" by metis
    with True show ?thesis by simp
  qed (use run in simp)
  then have iff: "r = None \<longleftrightarrow> hashes C files = left" using genuine_change_iff [OF wf(2,1)] by blast
  have "e' = f" if "r = None" using run that iff genuine_change_iff [OF wf(2,1)] by simp
  then have "r = None \<longrightarrow> es_known (me_state e') = es_known (me_state e) \<and> es_observed (me_state e') = es_observed (me_state e)
            \<and> me_store e' = me_store e \<and> me_main e' = me_main e"
    by (simp add: f_def apply_quarantines_sel)
  with tree iff show ?thesis
    unfolding mat_def [symmetric] files_def left_def by (intro exI [of _ tree]) (simp add: Let_def)
qed

text \<open>A recorded file that the scope leaves out is missing from the scoped files.\<close>

lemma out_of_scope_dropped:
  assumes "bt_wf files" and "bt_get files p = Some c" and "\<not> content_in_scope sc p c" and "\<not> is_keep p"
  shows "bt_get (canonicalize_keeps files sc) p = None"
proof -
  have "bt_get (canonicalize_keeps files sc) p = bt_get (real_files sc files) p"
    unfolding canonicalize_keeps_def by (rule add_keeps_props(2) [OF bt_wf_real_files assms(4)])
  with real_files_get [OF assms(1)] assms(2-4) show ?thesis by simp
qed

end
