(* ===== verification/Engine_Properties.thy ===== *)
theory Engine_Properties
  imports Demo_Engine Publish_Facts Materialize_Facts Admission_Facts
begin

text \<open>
  Properties of the in-memory engine (engine.rs): its invariant over all operations, integration of received
  objects, commits, materialization and the admission of peers.
\<close>

section \<open>The invariant\<close>

text \<open>C2. An engine only ever knows signed primitives: after any sequence of calls with any arguments on a created
  vault, every known id is that of a commit that verifies as a primitive, is in the store and has a counter that
  was observed; no id is listed twice, the main commit is in the store, and nothing known is ever forgotten.\<close>
theorem engine_stays_signed:
  assumes "engine_create C ident vault_id name = Ok e0"
    and "(engine_step C)\<^sup>*\<^sup>* e0 e" and "(engine_step C)\<^sup>*\<^sup>* e e'"
    and "hex_laws C" and "b64_laws C" and "ed_laws C"
  shows "distinct (es_known (me_state e))
    \<and> (\<forall>h \<in> set (es_known (me_state e)). \<exists>c node counter.
         h = to_hex C (oid_of C (Commit c)) \<and> verify_primitive C c = Ok node
         \<and> parse_primitive_meta C c = Some (counter, node) \<and> counter \<le> es_observed (me_state e)
         \<and> mem_has (me_store e) (oid_of C (Commit c)))
    \<and> (\<forall>m. me_main e = Some m \<longrightarrow> mem_has (me_store e) m)
    \<and> set (es_known (me_state e)) \<subseteq> set (es_known (me_state e'))
    \<and> get_le (me_get C e) (me_get C e')"
proof -
  have "engine_inv C e"
    using advances_steps [OF assms(2,4-6)] created_inv [OF assms(1)] by (simp add: advances_def)
  moreover from this have "set (es_known (me_state e)) \<subseteq> set (es_known (me_state e'))" "get_le (me_get C e) (me_get C e')"
    using advances_steps [OF assms(3-6)] by (simp_all add: advances_def)
  ultimately show ?thesis
    unfolding engine_inv_def known_wf_def signed_known_def by blast
qed

lemma demo_created: "\<exists>e. engine_create demo \<lparr>id_seed = ''A''\<rparr> ''v'' ''n'' = Ok e"
proof -
  obtain t where "mem_put demo (Tree []) mem_new = (t, Ok (oid_of demo (Tree [])))" using mem.put_eq by blast
  moreover obtain s m where "mem_put demo (Commit (fold_commit (oid_of demo (Tree [])) [] 0 GENESIS_MSG)) t = (s, Ok m)"
    using mem.put_eq by blast
  ultimately have "genesis demo (mem_ops demo) mem_new = (s, Ok m)" by (simp add: genesis_def sbind_def)
  then show ?thesis by (simp add: engine_create_def Let_def)
qed

lemma engine_stays_signed_witness:
  "\<exists>e e'. engine_create demo \<lparr>id_seed = ''A''\<rparr> ''v'' ''n'' = Ok e
     \<and> e' = fst (commit_staged demo 0 100 (stage_write ''f'' ''a'' e)) \<and> distinct (es_known (me_state e'))"
proof -
  obtain e where e: "engine_create demo \<lparr>id_seed = ''A''\<rparr> ''v'' ''n'' = Ok e" using demo_created by blast
  let ?e' = "fst (commit_staged demo 0 100 (stage_write ''f'' ''a'' e))"
  have "(engine_step demo)\<^sup>*\<^sup>* e ?e'"
    by (meson engine_step.stage engine_step.commit rtranclp.rtrancl_into_rtrancl rtranclp.rtrancl_refl)
  from engine_stays_signed [OF e this rtranclp.rtrancl_refl demo_hex_laws demo_b64_laws demo_ed_laws] e
  show ?thesis by blast
qed

section \<open>Integrating received objects\<close>

text \<open>What a batch adds is exactly its signed primitives: if no fold commit of the batch is rejected, the known
  ids grow by those of the batch's commits whose author signature verifies, the result counts the new ones,
  every object of the batch is in the store, and without a new one the main commit stays.\<close>
theorem integrate_admits_signed:
  assumes "integrate C raws e = (e', Ok n)" and "engine_inv C e"
    and "snd (any_rejected C raws (fst (put_raws C raws (me_store e)))) = Ok False"
  shows "set (es_known (me_state e')) = set (es_known (me_state e)) \<union>
      {to_hex C (oid_of C (Commit c)) | c. \<exists>raw \<in> set raws. raw_commit C raw = Some c \<and> is_ok (verify_primitive C c)}
    \<and> length (es_known (me_state e')) = length (es_known (me_state e)) + n
    \<and> (\<forall>raw \<in> set raws. \<exists>ob. decompress_and_parse C raw = Ok ob \<and> mem_has (me_store e') (oid_of C ob))
    \<and> (n = 0 \<longrightarrow> me_main e' = me_main e)"
  using assms(1)
proof (cases rule: integrate_cases)
  case (dropped s s')
  with assms(3) show ?thesis by simp
next
  case (admitted s s' st k)
  have k: "k = n" using admitted(5) by simp
  let ?f = "e\<lparr>me_store := s', me_state := st\<rparr>"
  note all = admit_all [OF admitted(3)]
  have "me_state e' = st \<and> (n = 0 \<longrightarrow> me_main e' = me_main e)"
  proof (cases "k > 0")
    case True
    with admitted(4) have "recompute C ?f = (e', map_sum id (\<lambda>_. ()) (Ok n))" by simp
    from recompute_shape [OF this] True k show ?thesis by auto
  next
    case False
    with admitted(4) k show ?thesis by auto
  qed
  then have state: "me_state e' = st" and same: "n = 0 \<longrightarrow> me_main e' = me_main e" by simp_all
  have ids: "{to_hex C (oid_of C (Commit c)) | c. \<exists>raw \<in> set raws. raw_commit C raw = Some c \<and> is_ok (verify_primitive C c)}
      = commit_hex C ` signed_in C raws"
    by (auto simp: commit_hex_def signed_in_def)
  have stored: "\<exists>ob. decompress_and_parse C raw = Ok ob \<and> mem_has (me_store e') (oid_of C ob)" if "raw \<in> set raws" for raw
  proof -
    have wf: "bt_wf (me_store e)" using assms(2) by (simp add: engine_inv_def)
    from bspec [OF put_raws_stored [OF admitted(1) wf] that]
    obtain ob where ob: "decompress_and_parse C raw = Ok ob" "mem_has s (oid_of C ob)" by (elim exE conjE)
    have "bt_wf s" using keepsD2 [OF keeps_put_raws admitted(1)] wf by (simp add: memE.grows_def)
    then have s': "get_le (mem_get C s) (mem_get C s')" "bt_wf s'"
      using keepsD2 [OF keeps_any_rejected admitted(2)] by (simp_all add: memE.grows_def)
    have "mem_has (me_store e') (oid_of C ob)"
      using recompute_stored [of "k > 0" C ?f e', OF admitted(4)] s'(2) mem_has_mono [OF s'(1) ob(2)] by simp
    with ob(1) show ?thesis by blast
  qed
  have known: "set (es_known st) = set (es_known (me_state e)) \<union> commit_hex C ` signed_in C raws"
    and count: "length (es_known st) = length (es_known (me_state e)) + n"
    using all k by simp_all
  show ?thesis unfolding state ids by (intro conjI ballI known count stored same)
qed simp_all

lemma integrate_admits_signed_witness:
  "\<exists>raws e'. integrate demo raws (demo_engine ''A'') = (e', Ok 1) \<and> length (es_known (me_state e')) = 1"
proof -
  let ?e = "demo_engine ''A''"
  obtain c where c: "build_primitive_with_readd demo \<lparr>id_seed = ''B''\<rparr> (oid_of demo demo_root) (Oid 2) 1 0 [] [] = Commit c"
    using build_primitive_commit by blast
  obtain e' where run: "integrate demo (demo_batch c) ?e = (e', Ok 1)"
    and ok: "snd (any_rejected demo (demo_batch c) (fst (put_raws demo (demo_batch c) (me_store ?e)))) = Ok False"
    using demo_received [OF c] by (metis demo_engine_sel(1))
  from integrate_admits_signed [OF run demo_engine_inv ok] have "length (es_known (me_state e')) = 1"
    by (simp add: default_state_def)
  with run show ?thesis by blast
qed



section \<open>Committing\<close>

text \<open>C9. A commit that returns an id has published a primitive signed by this engine, with the next counter, on top
  of the current main, whose tree is that of the working files the ghost guard let through and whose re-adds are
  the deletes that those files undo; the id is known, the hashes of exactly these files are recorded, and the
  stale files are queued for quarantine.\<close>
theorem commit_publishes:
  assumes "commit_scoped C now wall scoped e = (e', Ok (Some x))" and "me_main e = Some parent"
    and "bt_wf scoped" and "hex_laws C" and "b64_laws C" and "ed_laws C"
  shows "\<exists>tree c.
    (let mat = es_materialized (me_state e); verdict = path_verdict C (me_get C e) parent tree mat;
         files = published C (me_get C e) parent tree mat scoped
     in main_tree (me_get C e) parent = Ok tree \<and> x = oid_of C (Commit c)
      \<and> verify_primitive C c = Ok (id_node C (me_identity e))
      \<and> parse_primitive_meta C c = Some (es_observed (me_state e) + 1, id_node C (me_identity e))
      \<and> co_parents c = [parent] \<and> co_tree c = snd (write_tree_from_files C files)
      \<and> set (parse_primitive_readds C c) = {d. \<exists>(p, content) \<in> set scoped. verdict p = Ok (Readd d)}
      \<and> set (es_known (me_state e')) = insert (to_hex C x) (set (es_known (me_state e)))
      \<and> es_materialized (me_state e') = hashes C files
      \<and> me_quarantines e' = me_quarantines e @ ghosts C (me_get C e) parent tree mat now scoped)"
  using commit_published [OF assms] .

lemma commit_publishes_witness:
  "\<exists>e' x tree. commit_scoped demo 0 100 [(''f'', ''a'')] (demo_engine ''A'') = (e', Ok (Some x))
     \<and> es_materialized (me_state e') = hashes demo (published demo (me_get demo (demo_engine ''A'')) (Oid 2) tree [] [(''f'', ''a'')])"
proof -
  obtain e' x where run: "commit_scoped demo 0 100 [(''f'', ''a'')] (demo_engine ''A'') = (e', Ok (Some x))"
    by (rule demo_commit)
  have "bt_wf [(''f'', ''a'')]" by (simp add: bt_wf_def)
  from commit_publishes [OF run _ this demo_hex_laws demo_b64_laws demo_ed_laws, of "Oid 2"] run
  show ?thesis by (auto simp: Let_def default_state_def)
qed

text \<open>A commit publishes exactly when the record changes: with the stale files dropped from the record, nothing
  is committed if and only if the hashes of the files let through are the recorded ones, and then the known ids,
  the counter, the store and the main commit stay.\<close>
theorem commit_iff_changed:
  assumes "commit_scoped C now wall scoped e = (e', Ok r)" and "me_main e = Some parent"
    and "\<not> es_bootstrap_pending (me_state e)" and "bt_wf scoped" and "bt_wf (es_materialized (me_state e))"
    and "hex_laws C" and "b64_laws C" and "ed_laws C"
  shows "\<exists>tree. (let mat = es_materialized (me_state e); verdict = path_verdict C (me_get C e) parent tree mat in
      main_tree (me_get C e) parent = Ok tree
      \<and> (r = None \<longleftrightarrow> hashes C (published C (me_get C e) parent tree mat scoped) =
            filter (\<lambda>(p, h). \<not> (bt_contains scoped p \<and> verdict p = Ok Stale)) mat)
      \<and> (r = None \<longrightarrow> es_known (me_state e') = es_known (me_state e) \<and> es_observed (me_state e') = es_observed (me_state e)
            \<and> me_store e' = me_store e \<and> me_main e' = me_main e))"
  using commit_nothing_iff [OF assms] .

lemma commit_iff_changed_witness:
  "\<exists>e' x tree. commit_scoped demo 0 100 [(''f'', ''a'')] (demo_engine ''A'') = (e', Ok (Some x))
     \<and> hashes demo (published demo (me_get demo (demo_engine ''A'')) (Oid 2) tree [] [(''f'', ''a'')]) \<noteq> []"
proof -
  obtain e' x where run: "commit_scoped demo 0 100 [(''f'', ''a'')] (demo_engine ''A'') = (e', Ok (Some x))"
    by (rule demo_commit)
  have "bt_wf [(''f'', ''a'')]" by (simp add: bt_wf_def)
  from commit_iff_changed [OF run _ demo_engine_ready this _ demo_hex_laws demo_b64_laws demo_ed_laws, of "Oid 2"] run
  show ?thesis by (auto simp: Let_def default_state_def)
qed

section \<open>Materializing\<close>

text \<open>C7. A materialize plan meets the contract of every path: applied to the files on disk it puts the main version
  in place of what is missing or unchanged since it was recorded, removes unchanged files that main no longer has,
  and leaves every other byte alone; the record follows, and pending quarantines come first.\<close>
theorem materialize_contract:
  assumes "materialize_plan C disk e = (e', Ok ops)" and "me_main e \<noteq> None" and "bt_wf (es_materialized (me_state e))"
  shows "\<exists>want plan. files_at_main C e = Ok want \<and> ops = me_quarantines e @ plan \<and> me_quarantines e' = []
    \<and> (\<forall>p. bt_get (apply_ops plan disk) p =
            reconciled C (bt_get disk p) (bt_get want p) (bt_get (es_materialized (me_state e)) p)
         \<and> bt_get (es_materialized (me_state e')) p =
            recorded C (bt_get disk p) (bt_get want p) (bt_get (es_materialized (me_state e)) p))"
proof -
  obtain m where m: "me_main e = Some m" using assms(2) by blast
  from materialize_plan_Ok [OF assms(1) m] obtain tree want writes mat' where tree: "main_tree (me_get C e) m = Ok tree"
    and want: "read_tree_to_files tree (me_get C e) = Ok want"
    and run: "foldl (plan_step C disk) ([], filter (\<lambda>(p, h). bt_contains want p) (es_materialized (me_state e))) want
        = (writes, mat')"
    and ops: "ops = me_quarantines e @ removal_ops C want disk (es_materialized (me_state e)) @ writes"
    and e': "e' = e\<lparr>me_quarantines := [], me_state := (me_state e)\<lparr>es_materialized := mat'\<rparr>\<rparr>" .
  have "files_at_main C e = Ok want" by (simp add: files_at_main_def m tree want)
  with ops e' plan_applied [OF read_tree_wf [OF want] assms(3) run] show ?thesis
    by (intro exI [of _ want] exI [of _ "removal_ops C want disk (es_materialized (me_state e)) @ writes"]) simp
qed

text \<open>A main without files, an unchanged recorded file, and one changed since it was recorded.\<close>

definition demo_stale :: mem_engine where
  "demo_stale = (demo_engine ''A'')\<lparr>me_state := default_state\<lparr>es_materialized :=
     [(''f'', blob_hash demo ''a''), (''g'', blob_hash demo ''b'')]\<rparr>\<rparr>"

lemma demo_stale_plan:
  obtains e' where "materialize_plan demo [(''f'', ''a''), (''g'', ''c'')] demo_stale = (e', Ok [Remove ''f''])"
proof -
  have differ: "blob_hash demo ''c'' \<noteq> blob_hash demo ''b''"
    by (simp add: blob_hash_def to_hex_inj oid_of_def framed_def demo_digest_def dec.simps)
  have "read_tree_to_files (Oid 1) (mem_get demo demo_store) = Ok []"
    by (simp add: read_tree_to_files_def walk_tree.simps)
  with differ have "\<exists>e'. materialize_plan demo [(''f'', ''a''), (''g'', ''c'')] demo_stale = (e', Ok [Remove ''f''])"
    by (simp add: materialize_plan_def demo_stale_def Let_def sbind_def main_tree_def removal_ops_def on_state_def
      default_state_def bt_contains_get)
  with that show thesis by blast
qed

lemma demo_stale_wf: "me_main demo_stale \<noteq> None" "bt_wf (es_materialized (me_state demo_stale))"
  by (simp_all add: demo_stale_def bt_wf_def)

lemma materialize_contract_witness:
  "\<exists>e'. materialize_plan demo [(''f'', ''a''), (''g'', ''c'')] demo_stale = (e', Ok [Remove ''f''])
     \<and> bt_get (es_materialized (me_state e')) ''f'' = None"
proof -
  obtain e' where run: "materialize_plan demo [(''f'', ''a''), (''g'', ''c'')] demo_stale = (e', Ok [Remove ''f''])"
    by (rule demo_stale_plan)
  from materialize_contract [OF run demo_stale_wf] obtain want
    where want: "files_at_main demo demo_stale = Ok want"
      and mat: "bt_get (es_materialized (me_state e')) ''f'' = recorded demo (Some ''a'') (bt_get want ''f'')
          (bt_get (es_materialized (me_state demo_stale)) ''f'')" by auto
  have "want = []" using want
    by (simp add: files_at_main_def demo_stale_def main_tree_def read_tree_to_files_def walk_tree.simps)
  with run mat show ?thesis by (auto simp: recorded_def)
qed

text \<open>Materializing again finds nothing to do: on the files and the record that a plan leaves, the next plan only
  repeats the deferrals of the first, and the engine no longer changes.\<close>
theorem materialize_settles:
  assumes "materialize_plan C disk e = (e', Ok ops)" and "me_main e \<noteq> None" and "bt_wf (es_materialized (me_state e))"
    and "me_quarantines e = []" and "materialize_plan C (apply_ops ops disk) e' = (e'', Ok ops')"
  shows "(\<forall>op \<in> set ops'. \<exists>p. op = Defer p \<and> op \<in> set ops) \<and> e'' = e'"
proof -
  define mat where "mat = es_materialized (me_state e)"
  obtain m where m: "me_main e = Some m" using assms(2) by blast
  from materialize_plan_Ok [OF assms(1) m] obtain tree want writes mat' where tree: "main_tree (me_get C e) m = Ok tree"
    and want: "read_tree_to_files tree (me_get C e) = Ok want"
    and run: "foldl (plan_step C disk) ([], filter (\<lambda>(p, h). bt_contains want p) mat) want = (writes, mat')"
    and ops: "ops = me_quarantines e @ removal_ops C want disk mat @ writes"
    and e': "e' = e\<lparr>me_quarantines := [], me_state := (me_state e)\<lparr>es_materialized := mat'\<rparr>\<rparr>"
    unfolding mat_def .
  have m': "me_main e' = Some m" using e' m by simp
  from materialize_plan_Ok [OF assms(5) m'] obtain tree' want' writes' mat'' where
    same: "main_tree (me_get C e') m = Ok tree'" "read_tree_to_files tree' (me_get C e') = Ok want'"
    and run': "foldl (plan_step C (apply_ops ops disk)) ([], filter (\<lambda>(p, h). bt_contains want' p)
        (es_materialized (me_state e'))) want' = (writes', mat'')"
    and ops': "ops' = me_quarantines e' @ removal_ops C want' (apply_ops ops disk) (es_materialized (me_state e')) @ writes'"
    and e'': "e'' = e'\<lparr>me_quarantines := [], me_state := (me_state e')\<lparr>es_materialized := mat''\<rparr>\<rparr>" .
  have want': "want' = want" using same tree want e' by simp
  have ops: "ops = removal_ops C want disk mat @ writes" using ops assms(4) by simp
  have wf: "bt_wf want" "bt_wf mat" "bt_wf mat'"
    using read_tree_wf [OF want] assms(3) plan_wf [OF _ run] by (simp_all add: mat_def bt_wf_filter)
  note first = plan_applied [OF wf(1,2) run, folded ops]
  from run' have "foldl (plan_step C (apply_ops ops disk)) ([], filter (\<lambda>(p, h). bt_contains want p) mat') want
      = (writes', mat'')" by (simp add: want' e')
  note second = plan_settled [OF wf(1,3) first this]
  have deferred: "Defer p \<in> set ops" if "(p, c) \<in> set want" "contended C (bt_get disk p) c (bt_get mat p)" for p c
  proof -
    have "bt_get want p = Some c" using that(1) wf(1) by (simp add: bt_get_mem)
    then have "fst (plan_path C disk (bt_get (filter (\<lambda>(p, h). bt_contains want p) mat) p) p c) = [Defer p]"
      using that(2) by (simp add: plan_path_cases kept_get)
    then show ?thesis
      using that(1) plan_fold(1) [OF bt_wf_distinct [OF wf(1)] run] by (auto simp: ops intro!: bexI [of _ "(p, c)"])
  qed
  have "ops' = concat (map (\<lambda>(p, c). if contended C (bt_get disk p) c (bt_get mat p) then [Defer p] else []) want)"
    using ops' second(1) by (simp add: e' want')
  then have "\<forall>op \<in> set ops'. \<exists>p. op = Defer p \<and> op \<in> set ops"
    using deferred by (auto split: if_splits)
  moreover have "e'' = e'" using e'' second(2) by (simp add: e')
  ultimately show ?thesis by blast
qed

lemma materialize_settles_witness:
  "\<exists>e' e''. materialize_plan demo [(''f'', ''a''), (''g'', ''c'')] demo_stale = (e', Ok [Remove ''f''])
     \<and> materialize_plan demo [(''g'', ''c'')] e' = (e'', Ok []) \<and> e'' = e'"
proof -
  obtain e' where run: "materialize_plan demo [(''f'', ''a''), (''g'', ''c'')] demo_stale = (e', Ok [Remove ''f''])"
    by (rule demo_stale_plan)
  from materialize_plan_Ok [OF run, of "Oid 2"] obtain mat' where
    e': "e' = demo_stale\<lparr>me_quarantines := [], me_state := (me_state demo_stale)\<lparr>es_materialized := mat'\<rparr>\<rparr>"
    by (auto simp: demo_stale_def)
  have "read_tree_to_files (Oid 1) (mem_get demo demo_store) = Ok []"
    by (simp add: read_tree_to_files_def walk_tree.simps)
  then obtain e'' ops' where again: "materialize_plan demo (apply_ops [Remove ''f''] [(''f'', ''a''), (''g'', ''c'')]) e' = (e'', Ok ops')"
    by (simp add: e' materialize_plan_def demo_stale_def Let_def sbind_def main_tree_def)
  have q: "me_quarantines demo_stale = []" by (simp add: demo_stale_def)
  from materialize_settles [OF run demo_stale_wf q again] have "ops' = [] \<and> e'' = e'" by (cases ops') auto
  with run again show ?thesis by (auto simp: bt_remove_def)
qed

section \<open>Admission\<close>

text \<open>C21. Admission and authorization agree: when the engine lets a peer in (listed, renewed, enrolled by its
  auth key or trusted on first use), exactly that peer's node is authorized from then on besides those that were,
  as long as the expiry lies within the four-digit years that the file format holds.\<close>
theorem admission_authorizes:
  assumes "admit_peer C now (key_words C node ws) flag e = (e', Ok True)" and "b64_laws C" and "plain_words ws"
    and "unat now + unat (default_ttl_days e) * 86400 + 86400 < 253402300800"
  shows "authorized_node_ids C now e' = insert node (authorized_node_ids C now e)"
  using admitted_authorized [OF assms(2,3,4,1)] .

lemma admission_authorizes_witness:
  "\<exists>e'. admit_peer demo 0 (key_words demo (node_of_bytes ''B'') []) False (demo_engine ''A'') = (e', Ok True)
     \<and> node_of_bytes ''B'' \<in> authorized_node_ids demo 0 e'"
proof -
  have key: "parse_ssh_pubkey demo (key_words demo (node_of_bytes ''B'') []) = Some (node_of_bytes ''B'')"
    by (rule key_words_node) simp_all
  have "parse_file demo [] = []" by (simp add: parse_file_def)
  then obtain e' where run: "admit_peer demo 0 (key_words demo (node_of_bytes ''B'') []) False (demo_engine ''A'') = (e', Ok True)"
    by (simp add: admit_peer_def key demo_config_def Let_def)
  have "unat (0 :: u64) + unat (default_ttl_days (demo_engine ''A'')) * 86400 + 86400 < 253402300800"
    by (simp add: default_ttl_days_def demo_config_def BUILTIN_DEFAULT_TTL_DAYS_def)
  from admission_authorizes [OF run demo_b64_laws _ this] run show ?thesis by auto
qed

text \<open>Nobody is enrolled by the way: a peer that is let in without an enrollment key and was not authorized
  before is the first one of a vault without any listed key, with trust on first use on and no auth keys set up;
  a refusal changes nothing.\<close>
theorem admission_policy:
  assumes "admit_peer C now line False e = (e', Ok ok)"
  shows "(ok \<longrightarrow> (\<exists>node. parse_ssh_pubkey C line = Some node
        \<and> (node \<in> authorized_node_ids C now e \<and> e' = e
           \<or> authorized_node_ids C now e = {} \<and> (\<forall>k \<in> set (parse_file C (me_authorized e)). ke_node k = None)
             \<and> \<not> vc_no_tofu (me_config e) \<and> vc_auth_keys (me_config e) = [])))
    \<and> (\<not> ok \<longrightarrow> e' = e)"
proof (cases ok)
  case True
  with assms have "admit_peer C now line False e = (e', Ok True)" by simp
  then show ?thesis
  proof (cases rule: admit_peer_cases)
    case (enrolled node)
    from enrolled(3) have "authorized_node_ids C now e = {}" by (auto simp: authorized_iff)
    with enrolled True show ?thesis by blast
  qed (use True in blast)+
next
  case False
  with assms show ?thesis
    by (auto simp: admit_peer_def Let_def split: option.split_asm if_split_asm)
qed

lemma admission_policy_witness:
  "admit_peer demo 0 ''ssh-rsa'' False (demo_engine ''A'') = (demo_engine ''A'', Ok False)
   \<and> \<not> (\<exists>node. parse_ssh_pubkey demo ''ssh-rsa'' = Some node)"
proof -
  have "split_whitespace ''ssh-rsa'' = [''ssh-rsa'']"
    by (rule split_whitespace_last) (simp_all add: solid_def is_ascii_char_def)
  then have none: "parse_ssh_pubkey demo ''ssh-rsa'' = None" by (simp add: parse_ssh_pubkey_def ssh_algo_def)
  then obtain e' where run: "admit_peer demo 0 ''ssh-rsa'' False (demo_engine ''A'') = (e', Ok False)"
    by (simp add: admit_peer_def)
  from admission_policy [OF run] run none show ?thesis by simp
qed

section \<open>Objects on the wire and in the store\<close>

text \<open>C36. Every object the engine makes survives its encoding: what a store keeps and a peer receives parses back to
  the object itself, a tree with its entries in git order, under the same id.\<close>
theorem object_roundtrip:
  assumes "zlib_laws C" and "hex_laws C" and "object_wf ob" and "length (payload C ob) < 2 ^ 64"
  shows "decompress_and_parse C (compress C ob) = Ok (canonical ob) \<and> oid_of C (canonical ob) = oid_of C ob"
  using decompress_compress [OF assms] canonical_again(1) by blast

lemma object_roundtrip_witness:
  "decompress_and_parse demo (compress demo (Tree [\<lparr>te_mode = FILE_MODE, te_name = ''b'', te_oid = Oid 1\<rparr>,
      \<lparr>te_mode = FILE_MODE, te_name = ''a'', te_oid = Oid 2\<rparr>])) =
    Ok (Tree [\<lparr>te_mode = FILE_MODE, te_name = ''a'', te_oid = Oid 2\<rparr>, \<lparr>te_mode = FILE_MODE, te_name = ''b'', te_oid = Oid 1\<rparr>])"
proof -
  let ?t = "Tree [\<lparr>te_mode = FILE_MODE, te_name = ''b'', te_oid = Oid 1\<rparr>, \<lparr>te_mode = FILE_MODE, te_name = ''a'', te_oid = Oid 2\<rparr>]"
  have ascii: "from_utf8_ok FILE_MODE" "from_utf8_ok ''a''" "from_utf8_ok ''b''"
    by (rule from_utf8_ok_ascii, simp add: FILE_MODE_def is_ascii_char_def)+
  have "object_wf ?t" using ascii by (simp add: entry_wf_def del: from_utf8_ok.simps(2)) (simp add: FILE_MODE_def)
  moreover have "length (payload demo ?t) < 2 ^ 64"
    by (simp add: entry_bytes_def FILE_MODE_def TREE_MODE_def tree_sort_key_def)
  moreover have "canonical ?t = Tree [\<lparr>te_mode = FILE_MODE, te_name = ''a'', te_oid = Oid 2\<rparr>, \<lparr>te_mode = FILE_MODE, te_name = ''b'', te_oid = Oid 1\<rparr>]"
    by (simp add: tree_sort_key_def FILE_MODE_def TREE_MODE_def)
  ultimately show ?thesis using object_roundtrip [OF demo_zlib_laws demo_hex_laws, of ?t] by simp
qed

end
