(* ===== verification/File_Tree.thy ===== *)
theory File_Tree
  imports BTree_Map Rust_Str
begin

text \<open>
  The files and directories below the root of a vault, as the calls of std::fs see them: a map from relative
  paths to contents and a set of directories, the root itself being the empty path. Paths are text with \<open>/\<close>
  between the components; the failures modelled are those that the tree decides (a missing file, a directory
  in the place of a file, a file in the place of a directory), not those of the machine.
\<close>

section \<open>Paths\<close>

text \<open>\<open>Path::parent\<close> below the root.\<close>

definition parent_path :: "string \<Rightarrow> string" where
  "parent_path p = (case rsplit_once (CHR ''/'') p of None \<Rightarrow> [] | Some (d, name) \<Rightarrow> d)"

text \<open>The directories on the way to a path, the path itself included.\<close>

definition dir_chain :: "string \<Rightarrow> string list" where
  "dir_chain p =
     (let parts = str_split (CHR ''/'') p
      in filter (\<lambda>d. d \<noteq> []) (map (\<lambda>n. str_join ''/'' (take (Suc n) parts)) [0..<length parts]))"

text \<open>\<open>Path::with_extension\<close>: what follows the last dot of the file name, unless the name starts with it.\<close>

definition name_with_extension :: "string \<Rightarrow> string \<Rightarrow> string" where
  "name_with_extension ext name =
     (case rsplit_once (CHR ''.'') name of
        Some (c # stem, _) \<Rightarrow> (c # stem) @ ''.'' @ ext
      | _ \<Rightarrow> name @ ''.'' @ ext)"

definition with_extension :: "string \<Rightarrow> string \<Rightarrow> string" where
  "with_extension ext p =
     (case rsplit_once (CHR ''/'') p of
        None \<Rightarrow> name_with_extension ext p
      | Some (d, name) \<Rightarrow> d @ ''/'' @ name_with_extension ext name)"

lemma parent_shorter: "p \<noteq> [] \<Longrightarrow> length (parent_path p) < length p"
proof -
  assume "p \<noteq> []"
  show "length (parent_path p) < length p"
  proof (cases "str_find (CHR ''/'') (rev p)")
    case None
    with \<open>p \<noteq> []\<close> show ?thesis by (simp add: parent_path_def rsplit_once_def split_once_def)
  next
    case (Some i)
    then have "i < length p" by (simp add: str_find_Some)
    with Some show ?thesis by (simp add: parent_path_def rsplit_once_def split_once_def)
  qed
qed

section \<open>The tree\<close>

record fs =
  fs_files :: "(string \<times> bytes) list"
  fs_dirs :: "string list"

definition is_dir :: "fs \<Rightarrow> string \<Rightarrow> bool" where
  "is_dir t p = (p = [] \<or> p \<in> set (fs_dirs t))"

definition is_file :: "fs \<Rightarrow> string \<Rightarrow> bool" where
  "is_file t p = (bt_get (fs_files t) p \<noteq> None)"

abbreviation fs_get :: "fs \<Rightarrow> string \<Rightarrow> bytes option" where
  "fs_get t p \<equiv> bt_get (fs_files t) p"

definition fs_read :: "string \<Rightarrow> fs \<Rightarrow> bytes res" where
  "fs_read p t = ok_or (Io ''read'') (fs_get t p)"

text \<open>\<open>read_to_string\<close>.\<close>

definition read_text :: "string \<Rightarrow> fs \<Rightarrow> string res" where
  "read_text p t = rbind (fs_read p t) (\<lambda>b. if from_utf8_ok b then Ok b else Err (Io ''not UTF-8''))"

definition text_or_default :: "string \<Rightarrow> fs \<Rightarrow> string" where
  "text_or_default p t = (case read_text p t of Inl _ \<Rightarrow> [] | Inr s \<Rightarrow> s)"

definition create_dir_all :: "string \<Rightarrow> (fs, unit) seff" where
  "create_dir_all p t =
     (if list_ex (is_file t) (dir_chain p) then (t, Err (Io ''not a directory''))
      else (t\<lparr>fs_dirs := fs_dirs t @ filter (\<lambda>d. \<not> is_dir t d) (dir_chain p)\<rparr>, Ok ()))"

definition fs_write :: "string \<Rightarrow> bytes \<Rightarrow> (fs, unit) seff" where
  "fs_write p b t =
     (if is_dir t p \<or> \<not> is_dir t (parent_path p) then (t, Err (Io ''write''))
      else (t\<lparr>fs_files := bt_insert p b (fs_files t)\<rparr>, Ok ()))"

text \<open>\<open>rename\<close> of a file.\<close>

definition fs_rename :: "string \<Rightarrow> string \<Rightarrow> (fs, unit) seff" where
  "fs_rename p q t =
     (case fs_get t p of
        None \<Rightarrow> (t, Err (Io ''rename''))
      | Some b \<Rightarrow>
          if is_dir t q \<or> \<not> is_dir t (parent_path q) then (t, Err (Io ''rename''))
          else (t\<lparr>fs_files := bt_insert q b (bt_remove p (fs_files t))\<rparr>, Ok ()))"

text \<open>\<open>OpenOptions::new().create(true).write(true).truncate(false).open\<close>.\<close>

definition open_or_create :: "string \<Rightarrow> (fs, unit) seff" where
  "open_or_create p = (\<lambda>t. if is_file t p then (t, Ok ()) else fs_write p [] t)"

definition remove_file :: "string \<Rightarrow> fs \<Rightarrow> fs" where
  "remove_file p t = t\<lparr>fs_files := bt_remove p (fs_files t)\<rparr>"

text \<open>\<open>read_dir(p).next().is_none()\<close>.\<close>

definition dir_empty :: "fs \<Rightarrow> string \<Rightarrow> bool" where
  "dir_empty t p =
     (\<not> list_ex (\<lambda>q. q \<noteq> [] \<and> parent_path q = p) (bt_keys (fs_files t) @ fs_dirs t))"

definition remove_dir :: "string \<Rightarrow> fs \<Rightarrow> fs" where
  "remove_dir p t = t\<lparr>fs_dirs := filter (\<lambda>d. d \<noteq> p) (fs_dirs t)\<rparr>"

text \<open>Writing a file through a temporary one beside it.\<close>

definition write_atomic :: "string \<Rightarrow> string \<Rightarrow> bytes \<Rightarrow> (fs, unit) seff" where
  "write_atomic tmp p b = sbind (fs_write tmp b) (\<lambda>_. fs_rename tmp p)"

text \<open>\<open>prune_empty_dirs\<close>: climbs from a directory towards the root while the directories are empty.\<close>

function prune_empty_dirs :: "string \<Rightarrow> fs \<Rightarrow> fs" where
  "prune_empty_dirs cur t =
     (if cur = [] \<or> \<not> is_dir t cur \<or> \<not> dir_empty t cur then t
      else prune_empty_dirs (parent_path cur) (remove_dir cur t))"
  by pat_completeness auto
termination
  by (relation "measure (\<lambda>(cur, t). length cur)") (auto simp: parent_shorter)

declare prune_empty_dirs.simps [simp del]

section \<open>What the calls leave alone\<close>

definition fs_wf :: "fs \<Rightarrow> bool" where
  "fs_wf t \<longleftrightarrow> bt_wf (fs_files t) \<and> (\<forall>p. is_file t p \<longrightarrow> \<not> is_dir t p)"

text \<open>The same files at every path but those of a set.\<close>

definition fs_except :: "string set \<Rightarrow> fs \<Rightarrow> fs \<Rightarrow> bool" where
  "fs_except P t u \<longleftrightarrow> (\<forall>p. p \<notin> P \<longrightarrow> fs_get u p = fs_get t p)"

lemma fs_except_refl: "reflp (fs_except P)"
  by (simp add: reflp_def fs_except_def)

lemma fs_except_trans: "transp (fs_except P)"
  by (auto simp: transp_def fs_except_def)

lemma fs_except_mono: "fs_except P t u \<Longrightarrow> P \<subseteq> Q \<Longrightarrow> fs_except Q t u"
  by (auto simp: fs_except_def)

lemma fs_except_join: "fs_except P t u \<Longrightarrow> fs_except Q u v \<Longrightarrow> fs_except (P \<union> Q) t v"
  by (simp add: fs_except_def)

lemma except_create_dir_all: "fs_except P t (fst (create_dir_all p t))"
  by (simp add: fs_except_def create_dir_all_def)

lemma except_fs_write: "fs_except {p} t (fst (fs_write p b t))"
  by (simp add: fs_except_def fs_write_def bt_simps)

lemma except_fs_rename: "fs_except {p, q} t (fst (fs_rename p q t))"
  by (auto simp: fs_except_def fs_rename_def bt_simps split: option.split)

lemma except_open_or_create: "fs_except {p} t (fst (open_or_create p t))"
  using except_fs_write [of p t "[]"] by (auto simp: open_or_create_def fs_except_def)

lemma except_remove_file: "fs_except {p} t (remove_file p t)"
  by (simp add: fs_except_def remove_file_def bt_simps)

lemma prune_files [simp]: "fs_files (prune_empty_dirs cur t) = fs_files t"
proof (induction cur t rule: prune_empty_dirs.induct)
  case (1 cur t)
  then show ?case by (subst prune_empty_dirs.simps) (simp add: remove_dir_def)
qed

lemma write_atomic_Ok:
  assumes "write_atomic tmp p b t = (u, Ok ())"
  shows "fs_get u p = Some b" and "tmp \<noteq> p \<Longrightarrow> fs_get u tmp = None"
    and "q \<noteq> p \<Longrightarrow> q \<noteq> tmp \<Longrightarrow> fs_get u q = fs_get t q"
  using assms
  by (auto simp: write_atomic_def sbind_Ok_iff fs_write_def fs_rename_def bt_simps split: if_split_asm)

lemma except_write_atomic: "fs_except {tmp, p} t (fst (write_atomic tmp p b t))"
proof -
  have "keeps (fs_except {tmp, p}) (write_atomic tmp p b)"
    unfolding write_atomic_def
    using fs_except_mono [OF except_fs_write, of _ "{tmp, p}"] except_fs_rename
    by (intro keeps_sbind [OF fs_except_trans]) (auto simp: keeps_def)
  then show ?thesis by (rule keepsD)
qed

text \<open>The error is seen before anything is written, or after the temporary file is.\<close>

lemma write_atomic_Err:
  assumes "write_atomic tmp p b t = (u, Err e)" and "q \<noteq> tmp"
  shows "fs_get u q = fs_get t q"
  using assms
  by (auto simp: write_atomic_def sbind_def fs_write_def fs_rename_def bt_simps split: if_split_asm)

end
