(* ===== verification/Repo.thy ===== *)
theory Repo
  imports Fold_Facts Object_Facts File_Tree
begin

text \<open>
  The engine-owned git repository (\<open>repo.rs\<close>): its refs, the scan for primitives and the collection of
  unreachable objects. A directory listing comes in the order of the operating system, so the operations that
  read one take it as an argument: the object ids whose loose file the walk of \<open>objects\<close> meets, and the names
  in \<open>refs/heads/node\<close> and \<open>refs/tags/snap\<close>.
\<close>

section \<open>Refs\<close>

definition MAIN_REF :: string where "MAIN_REF = ''refs/heads/main''"
definition NODE_REFS :: string where "NODE_REFS = ''refs/heads/node''"
definition SNAP_REFS :: string where "SNAP_REFS = ''refs/tags/snap''"

definition read_ref :: "crates \<Rightarrow> string \<Rightarrow> disk \<Rightarrow> oid option" where
  "read_ref C name d =
     (case d_files d name of
        None \<Rightarrow> None
      | Some s \<Rightarrow> if from_utf8_ok s then ok_opt (from_hex C (str_trim s)) else None)"

definition update_ref :: "crates \<Rightarrow> string \<Rightarrow> oid \<Rightarrow> disk \<Rightarrow> disk" where
  "update_ref C name x d =
     (let tmp = with_extension ''lock'' name
      in rename_file tmp name (write_file tmp (to_hex C x @ [nl]) (mkdir (parent_path name) d)))"

definition set_main :: "crates \<Rightarrow> oid \<Rightarrow> disk \<Rightarrow> disk" where
  "set_main C x = update_ref C MAIN_REF x"

definition repo_main :: "crates \<Rightarrow> disk \<Rightarrow> oid option" where
  "repo_main C = read_ref C MAIN_REF"

definition set_node_tip :: "crates \<Rightarrow> node_id \<Rightarrow> oid \<Rightarrow> disk \<Rightarrow> disk" where
  "set_node_tip C node x = update_ref C (NODE_REFS @ ''/'' @ node_to_hex C node) x"

definition set_snapshot :: "crates \<Rightarrow> string \<Rightarrow> oid \<Rightarrow> disk \<Rightarrow> disk" where
  "set_snapshot C name x = update_ref C (SNAP_REFS @ ''/'' @ name) x"

text \<open>The refs of a directory that read as ids.\<close>

definition refs_in :: "crates \<Rightarrow> string \<Rightarrow> string list \<Rightarrow> disk \<Rightarrow> oid list" where
  "refs_in C dir names d = List.map_filter (\<lambda>n. read_ref C (dir @ ''/'' @ n) d) names"

definition list_node_tips :: "crates \<Rightarrow> string list \<Rightarrow> disk \<Rightarrow> oid list" where
  "list_node_tips C names d = refs_in C NODE_REFS names d"

section \<open>Objects\<close>

definition repo_init :: "string \<Rightarrow> disk \<Rightarrow> disk" where
  "repo_init root = disk_init root"

definition repo_open :: "disk \<Rightarrow> disk res" where
  "repo_open = disk_open"

definition scan_primitives :: "crates \<Rightarrow> oid list \<Rightarrow> disk \<Rightarrow> oid list" where
  "scan_primitives C listing d =
     filter (\<lambda>x. case disk_get C d x of Inr (Commit c) \<Rightarrow> is_primitive C c | _ \<Rightarrow> False) listing"

definition gc_roots :: "crates \<Rightarrow> string list \<Rightarrow> string list \<Rightarrow> disk \<Rightarrow> oid list" where
  "gc_roots C nodes snaps d =
     (case repo_main C d of None \<Rightarrow> [] | Some m \<Rightarrow> [m]) @ list_node_tips C nodes d @ refs_in C SNAP_REFS snaps d"

definition remove_loose :: "crates \<Rightarrow> oid \<Rightarrow> disk \<Rightarrow> disk" where
  "remove_loose C x d = d\<lparr>d_files := (d_files d)(loose_path C x := None)\<rparr>"

definition gc :: "crates \<Rightarrow> oid list \<Rightarrow> string list \<Rightarrow> string list \<Rightarrow> (disk, nat) seff" where
  "gc C listing nodes snaps =
     sbind (sread (\<lambda>d. reachable (disk_get C d) (gc_roots C nodes snaps d))) (\<lambda>live.
     (let dead = filter (\<lambda>x. x \<notin> set live) listing
      in sbind (smodify (\<lambda>d. foldl (\<lambda>d x. remove_loose C x d) d dead)) (\<lambda>_. sret (length dead))))"

section \<open>Refs and objects are different files\<close>

lemma loose_not_ref: "loose_path C x \<noteq> ''refs/'' @ s"
  by (simp add: loose_path_def loose_dir_def)

lemma with_extension_prefix: "\<exists>t. with_extension ext (dir @ ''/'' @ name) = dir @ ''/'' @ t"
proof (cases "rsplit_once (CHR ''/'') name")
  case None
  then have "CHR ''/'' \<notin> set (rev name)"
    by (simp add: rsplit_once_def split_once_def str_find_None)
  then have "str_find (CHR ''/'') (rev name @ CHR ''/'' # rev dir) = Some (length (rev name))" by (rule str_find_append)
  then show ?thesis by (simp add: with_extension_def rsplit_once_def split_once_def)
next
  case (Some ds)
  then obtain i where i: "str_find (CHR ''/'') (rev name) = Some i" by (auto simp: rsplit_once_def split_once_def)
  then have "str_find (CHR ''/'') (rev (dir @ ''/'' @ name)) = Some i" by (auto simp: str_find_Some nth_append)
  moreover from i have "i < length name" by (simp add: str_find_Some)
  ultimately show ?thesis by (simp add: with_extension_def rsplit_once_def split_once_def) 
qed

lemma update_ref_get: "disk_get C (update_ref C (''refs/'' @ s) x d) y = disk_get C d y"
proof -
  obtain t where "with_extension ''lock'' (''refs'' @ ''/'' @ s) = ''refs'' @ ''/'' @ t"
    using with_extension_prefix [of "''lock''" "''refs''" s] by auto
  then have "with_extension ''lock'' (''refs/'' @ s) = ''refs/'' @ t" by simp
  then show ?thesis
    using loose_not_ref [of C y s] loose_not_ref [of C y t]
    by (simp add: disk_get_def update_ref_def Let_def rename_file_def write_file_def mkdir_def)
qed

lemma ref_get [simp]:
  "disk_get C (set_main C x d) = disk_get C d"
  "disk_get C (set_node_tip C node x d) = disk_get C d"
  "disk_get C (set_snapshot C name x d) = disk_get C d"
  using update_ref_get [of C "''heads/main''" x d] update_ref_get [of C "''heads/node/'' @ node_to_hex C node" x d]
    update_ref_get [of C "''tags/snap/'' @ name" x d]
  by (auto simp: set_main_def MAIN_REF_def set_node_tip_def NODE_REFS_def set_snapshot_def SNAP_REFS_def)

lemma read_updated:
  assumes "hex_laws C"
  shows "read_ref C name (update_ref C name x d) = Some x"
proof -
  have "is_ascii (to_hex C x @ [nl])"
    using is_ascii_solid [OF to_hex_solid [OF assms]] by (simp add: is_ascii_char_def)
  then have "from_utf8_ok (to_hex C x @ [nl])" by (rule from_utf8_ok_ascii)
  moreover have "str_trim (to_hex C x @ [nl]) = to_hex C x"
    by (rule str_trim_end_ws [OF to_hex_solid [OF assms]]) (simp_all add: is_ascii_char_def solid_def)
  ultimately show ?thesis
    using assms by (simp add: read_ref_def update_ref_def Let_def rename_file_def write_file_def mkdir_def)
qed

text \<open>Writing one ref leaves another as it is.\<close>

lemma read_other:
  assumes "name \<noteq> other" and "with_extension ''lock'' other \<noteq> name"
  shows "read_ref C name (update_ref C other x d) = read_ref C name d"
  using assms by (simp add: read_ref_def update_ref_def Let_def rename_file_def write_file_def mkdir_def)

lemma main_after:
  assumes "hex_laws C"
  shows "repo_main C (set_main C x d) = Some x" and "repo_main C (set_node_tip C node y d) = repo_main C d"
    and "repo_main C (set_snapshot C name y d) = repo_main C d"
proof -
  show "repo_main C (set_main C x d) = Some x"
    unfolding repo_main_def set_main_def by (rule read_updated [OF assms])
  have other: "repo_main C (update_ref C (dir @ ''/'' @ t) y d) = repo_main C d"
    if "dir = NODE_REFS \<or> dir = SNAP_REFS" for dir t
  proof -
    obtain u where "with_extension ''lock'' (dir @ ''/'' @ t) = dir @ ''/'' @ u" using with_extension_prefix by blast
    with that show ?thesis
      unfolding repo_main_def by (intro read_other) (auto simp: MAIN_REF_def NODE_REFS_def SNAP_REFS_def)
  qed
  show "repo_main C (set_node_tip C node y d) = repo_main C d"
    unfolding set_node_tip_def by (rule other) simp
  show "repo_main C (set_snapshot C name y d) = repo_main C d"
    unfolding set_snapshot_def by (rule other) simp
qed

section \<open>Collection of unreachable objects\<close>

lemma removed_get:
  "hex_laws C \<Longrightarrow> d_files (foldl (\<lambda>d x. remove_loose C x d) d dead) (loose_path C x) =
     (if x \<in> set dead then None else d_files d (loose_path C x))"
  by (induction dead arbitrary: d) (auto simp: remove_loose_def loose_path_inj)

lemma gc_Ok:
  assumes "gc C listing nodes snaps d = (d', Ok n)" and "hex_laws C"
  obtains live where "reachable (disk_get C d) (gc_roots C nodes snaps d) = Ok live"
    and "\<And>x. disk_get C d' x = (if x \<in> set listing \<and> x \<notin> set live then Err (ObjectNotFound (to_hex C x)) else disk_get C d x)"
    and "n = length (filter (\<lambda>x. x \<notin> set live) listing)"
proof -
  obtain live where live: "reachable (disk_get C d) (gc_roots C nodes snaps d) = Ok live"
    and d': "d' = foldl (\<lambda>d x. remove_loose C x d) d (filter (\<lambda>x. x \<notin> set live) listing)"
    and n: "n = length (filter (\<lambda>x. x \<notin> set live) listing)"
    using assms(1) by (auto simp: gc_def sbind_Ok_iff Let_def)
  have "disk_get C d' x = (if x \<in> set listing \<and> x \<notin> set live then Err (ObjectNotFound (to_hex C x)) else disk_get C d x)" for x
    unfolding d' disk_get_def by (simp add: removed_get [OF assms(2)])
  with live n that show thesis by blast
qed

end
