(* ===== verification/Vault.thy ===== *)
theory Vault
  imports Repo Engine
begin

text \<open>
  The vault over a directory (\<open>vault.rs\<close>): the working files and the files of \<open>.context\<close> in one tree, the
  engine's git repository, and the engine state in memory with its copy on disk. Directory walks are sorted here
  where the system's order is unspecified; they only fill ordered maps. The JSON codec of serde is an argument,
  as is the clock.
\<close>

section \<open>The vault\<close>

record codec =
  cd_encode :: "engine_state \<Rightarrow> bytes"
  cd_decode :: "bytes \<Rightarrow> engine_state option"

text \<open>The root and context paths of the source are fixed: paths here are relative to the root.\<close>

record vault =
  va_fs :: fs
  va_git :: disk
  va_state :: engine_state
  va_scope :: scope
  va_identity :: identity
  va_config :: vault_config

abbreviation va_get :: "crates \<Rightarrow> vault \<Rightarrow> getter" where
  "va_get C v \<equiv> disk_get C (va_git v)"

definition on_fs :: "(fs, 'a) seff \<Rightarrow> (vault, 'a) seff" where
  "on_fs m v = (case m (va_fs v) of (t, r) \<Rightarrow> (v\<lparr>va_fs := t\<rparr>, r))"

definition on_git :: "(disk, 'a) seff \<Rightarrow> (vault, 'a) seff" where
  "on_git m v = (case m (va_git v) of (d, r) \<Rightarrow> (v\<lparr>va_git := d\<rparr>, r))"

definition on_mem :: "(engine_state \<Rightarrow> engine_state) \<Rightarrow> vault \<Rightarrow> vault" where
  "on_mem f v = v\<lparr>va_state := f (va_state v)\<rparr>"

definition on_repo :: "(disk \<Rightarrow> disk) \<Rightarrow> vault \<Rightarrow> vault" where
  "on_repo f v = v\<lparr>va_git := f (va_git v)\<rparr>"

text \<open>\<open>unwrap\<close>.\<close>

definition unwrap :: "('s, 'a) seff \<Rightarrow> ('s, 'a) seff" where
  "unwrap m s = (case m s of (t, Inl e) \<Rightarrow> (t, Err (Panic ''unwrap'')) | (t, Inr x) \<Rightarrow> (t, Ok x))"

section \<open>The state file\<close>

definition STATE_FILE :: string where "STATE_FILE = CONTEXT_DIR @ ''/state''"
definition STATE_LOCK :: string where "STATE_LOCK = CONTEXT_DIR @ ''/state.lock''"

definition state_from_bytes :: "codec \<Rightarrow> bytes \<Rightarrow> engine_state res" where
  "state_from_bytes J b =
     (if b = [] then Ok default_state else ok_or (ConfigErr ''state parse'') (cd_decode J b))"

definition state_load :: "codec \<Rightarrow> fs \<Rightarrow> engine_state res" where
  "state_load J t =
     (if \<not> (is_file t STATE_FILE \<or> is_dir t STATE_FILE) then Ok default_state
      else rbind (fs_read STATE_FILE t) (state_from_bytes J))"

definition state_save :: "codec \<Rightarrow> engine_state \<Rightarrow> (fs, unit) seff" where
  "state_save J st =
     sbind (open_or_create STATE_LOCK) (\<lambda>_.
     sbind (sread (\<lambda>t. Ok (merge_on_save st (ok_opt (state_load J t))))) (\<lambda>merged.
       write_atomic (with_extension ''tmp'' STATE_FILE) STATE_FILE (cd_encode J merged)))"

definition save_state :: "codec \<Rightarrow> (vault, unit) seff" where
  "save_state J = (\<lambda>v. on_fs (state_save J (va_state v)) v)"

section \<open>Scope and configuration\<close>

definition CONFIG_FILE :: string where "CONFIG_FILE = CONTEXT_DIR @ ''/config''"
definition EXCLUDE_FILE :: string where "EXCLUDE_FILE = CONTEXT_DIR @ ''/exclude''"

definition config_load :: "fs \<Rightarrow> vault_config res" where
  "config_load t =
     (case read_text CONFIG_FILE t of
        Inl _ \<Rightarrow> Err (ConfigErr ''read config'')
      | Inr s \<Rightarrow> from_toml_str s)"

definition config_save :: "vault_config \<Rightarrow> (fs, unit) seff" where
  "config_save c = fs_write CONFIG_FILE (to_toml_string c)"

definition save_config :: "(vault, unit) seff" where
  "save_config = (\<lambda>v. on_fs (config_save (va_config v)) v)"

definition text_lines :: "string \<Rightarrow> fs \<Rightarrow> string list" where
  "text_lines p t = (case read_text p t of Inl _ \<Rightarrow> [] | Inr s \<Rightarrow> str_lines s)"

definition load_ignore :: "fs \<Rightarrow> string list" where
  "load_ignore t = text_lines CONTEXTIGNORE t @ text_lines EXCLUDE_FILE t"

definition refresh_scope :: "vault \<Rightarrow> vault" where
  "refresh_scope v = v\<lparr>va_scope := rebuild_scope (va_config v) (load_ignore (va_fs v))\<rparr>"

definition set_name :: "string \<Rightarrow> (vault, unit) seff" where
  "set_name name = (\<lambda>v.
     if vc_name (va_config v) \<noteq> name
     then save_config (v\<lparr>va_config := (va_config v)\<lparr>vc_name := name\<rparr>\<rparr>)
     else (v, Ok ()))"

definition add_ignore_pattern :: "string \<Rightarrow> (vault, unit) seff" where
  "add_ignore_pattern pat =
     sbind (sread (\<lambda>v. Ok (text_or_default CONTEXTIGNORE (va_fs v)))) (\<lambda>s.
     let s = (if s \<noteq> [] \<and> \<not> ends_with [nl] s then s @ [nl] else s)
     in sbind (on_fs (fs_write CONTEXTIGNORE (s @ pat @ [nl]))) (\<lambda>_.
        smodify refresh_scope))"

definition add_include_pattern :: "string \<Rightarrow> (vault, unit) seff" where
  "add_include_pattern pat = (\<lambda>v.
     if pat \<notin> set (vc_include (va_config v))
     then sbind save_config (\<lambda>_. smodify refresh_scope)
            (v\<lparr>va_config := (va_config v)\<lparr>vc_include := vc_include (va_config v) @ [pat]\<rparr>\<rparr>)
     else (v, Ok ()))"

definition scope_summary :: "vault \<Rightarrow> string list \<times> string list" where
  "scope_summary v = (vc_include (va_config v), sc_ignore (va_scope v))"

section \<open>Creating and opening\<close>

definition AUTHORIZED_KEYS :: string where "AUTHORIZED_KEYS = CONTEXT_DIR @ ''/authorized_keys''"
definition AUTHORIZED_LOCK :: string where "AUTHORIZED_LOCK = CONTEXT_DIR @ ''/authorized_keys.lock''"

definition new_config :: "string \<Rightarrow> vault_config" where
  "new_config vault_id =
     \<lparr>vc_vault_id = vault_id, vc_name = [], vc_peers = [], vc_listen = None, vc_no_tofu = False,
      vc_no_tls = False, vc_log = None, vc_debounce_ms = 1000, vc_allow_binary = False,
      vc_include = [''**''], vc_auth_keys = [], vc_default_key_ttl_days = None\<rparr>"

text \<open>The tree and the repository on the way to a vault.\<close>

definition vault_create ::
  "crates \<Rightarrow> codec \<Rightarrow> string \<Rightarrow> identity \<Rightarrow> string \<Rightarrow> (fs \<times> disk, vault) seff" where
  "vault_create C J root ident vault_id =
     sbind (on_fst (create_dir_all CONTEXT_DIR)) (\<lambda>_.
     sbind (\<lambda>(t, d). case genesis C (disk_ops C) (repo_init root d) of (d, r) \<Rightarrow> ((t, d), r)) (\<lambda>m0.
     sbind (smodify (\<lambda>(t, d). (t, set_main C m0 d))) (\<lambda>_.
     let config = new_config vault_id; state = default_state\<lparr>es_vault_id := vault_id\<rparr>
     in sbind (on_fst (config_save config)) (\<lambda>_.
        sbind (on_fst (state_save J state)) (\<lambda>_.
        sbind (on_fst (\<lambda>t. if is_file t AUTHORIZED_KEYS \<or> is_dir t AUTHORIZED_KEYS then (t, Ok ())
                           else fs_write AUTHORIZED_KEYS [] t)) (\<lambda>_.
        sread (\<lambda>(t, d). Ok
          \<lparr>va_fs = t, va_git = d, va_state = state, va_scope = rebuild_scope config [],
           va_identity = ident, va_config = config\<rparr>)))))))"

text \<open>One primitive of the repository taken into the known set.\<close>

definition take_in :: "crates \<Rightarrow> disk \<Rightarrow> engine_state \<Rightarrow> oid \<Rightarrow> engine_state" where
  "take_in C d st x =
     (let st = add_known C x st
      in case disk_get C d x of
           Inr (Commit c) \<Rightarrow>
             (case parse_primitive_meta C c of Some (counter, _) \<Rightarrow> observe counter st | None \<Rightarrow> st)
         | _ \<Rightarrow> st)"

definition vault_open :: "crates \<Rightarrow> codec \<Rightarrow> oid list \<Rightarrow> identity \<Rightarrow> (fs \<times> disk, vault) seff" where
  "vault_open C J listing ident =
     sbind (sread (\<lambda>(t, d). repo_open d)) (\<lambda>_.
     sbind (sread (\<lambda>(t, d). config_load t)) (\<lambda>config.
     sbind (sread (\<lambda>(t, d). rbind (state_load J t) (\<lambda>st.
         Ok (foldl (take_in C d) st (scan_primitives C listing d))))) (\<lambda>st.
     sbind (on_fst (state_save J st)) (\<lambda>_.
     sread (\<lambda>(t, d). Ok
       \<lparr>va_fs = t, va_git = d, va_state = st, va_scope = rebuild_scope config (load_ignore t),
        va_identity = ident, va_config = config\<rparr>)))))"

section \<open>Scanning\<close>

definition rel_path :: "string \<Rightarrow> string" where
  "rel_path p = map (\<lambda>c. if c = CHR 0x5C then CHR ''/'' else c) (from_utf8_lossy p)"

definition in_context :: "string \<Rightarrow> bool" where
  "in_context rel = (rel = CONTEXT_DIR \<or> starts_with (CONTEXT_DIR @ ''/'') rel)"

definition scan :: "vault \<Rightarrow> files" where
  "scan v =
     bt_collect (concat (map (\<lambda>(p, content).
       let rel = rel_path p
       in if \<not> in_context rel \<and> content_in_scope (va_scope v) rel content then [(rel, content)] else [])
       (fs_files (va_fs v))))"

definition inject_empty_dir_keeps :: "vault \<Rightarrow> files \<Rightarrow> files" where
  "inject_empty_dir_keeps v files =
     foldl (\<lambda>files d.
       let rel = rel_path d
       in if in_context rel \<or> rel = [] \<or> \<not> path_in_scope (va_scope v) rel then files
          else if dir_empty (va_fs v) d then bt_insert (rel @ ''/.keep'') [] files else files)
       files (fs_dirs (va_fs v))"

section \<open>Materializing\<close>

definition remove_stale :: "crates \<Rightarrow> files \<Rightarrow> vault \<Rightarrow> string \<Rightarrow> vault" where
  "remove_stale C want v p =
     (if bt_contains want p then v
      else
        (let t = va_fs v;
             t = (case fs_get t p of
                    None \<Rightarrow> t
                  | Some disk \<Rightarrow>
                      if Some (blob_hash C disk) = bt_get (es_materialized (va_state v)) p
                      then prune_empty_dirs (parent_path p) (remove_file p t)
                      else t)
         in on_mem (\<lambda>st. st\<lparr>es_materialized := bt_remove p (es_materialized st)\<rparr>) (v\<lparr>va_fs := t\<rparr>)))"

definition record_hash :: "crates \<Rightarrow> string \<Rightarrow> bytes \<Rightarrow> vault \<Rightarrow> vault" where
  "record_hash C p content =
     on_mem (\<lambda>st. st\<lparr>es_materialized := bt_insert p (blob_hash C content) (es_materialized st)\<rparr>)"

definition place_file :: "crates \<Rightarrow> string \<Rightarrow> bytes \<Rightarrow> (vault, unit) seff" where
  "place_file C p content =
     sbind (on_fs (create_dir_all (parent_path p))) (\<lambda>_.
     sbind (on_fs (write_atomic (with_extension ''ctx-tmp'' p) p content)) (\<lambda>_.
       smodify (record_hash C p content)))"

definition materialize_path :: "crates \<Rightarrow> string \<times> bytes \<Rightarrow> (vault, unit) seff" where
  "materialize_path C = (\<lambda>(p, content) v.
     case fs_get (va_fs v) p of
       None \<Rightarrow> place_file C p content v
     | Some d \<Rightarrow>
         if Some (blob_hash C d) \<noteq> bt_get (es_materialized (va_state v)) p \<and> d \<noteq> content then (v, Ok ())
         else if d = content then (record_hash C p content v, Ok ())
         else place_file C p content v)"

definition vault_materialize :: "crates \<Rightarrow> codec \<Rightarrow> (vault, unit) seff" where
  "vault_materialize C J = (\<lambda>v.
     case repo_main C (va_git v) of
       None \<Rightarrow> (v, Ok ())
     | Some m \<Rightarrow>
         sbind (sread (\<lambda>v. rbind (main_tree (va_get C v) m) (\<lambda>t. read_tree_to_files t (va_get C v)))) (\<lambda>want.
         sbind (smodify (\<lambda>v. foldl (remove_stale C want) v (bt_keys (es_materialized (va_state v))))) (\<lambda>_.
         sbind (smapM (materialize_path C) want) (\<lambda>_.
           save_state J))) v)"

definition recompute_and_materialize :: "crates \<Rightarrow> codec \<Rightarrow> (vault, unit) seff" where
  "recompute_and_materialize C J =
     sbind (sread (\<lambda>v. known_oids C (va_state v))) (\<lambda>known.
     sbind (on_git (compute_main C (disk_ops C) known)) (\<lambda>m.
     sbind (smodify (on_repo (set_main C m))) (\<lambda>_.
       vault_materialize C J)))"

section \<open>Committing\<close>

definition vault_write_tree :: "crates \<Rightarrow> files \<Rightarrow> (vault, oid) seff" where
  "vault_write_tree C files =
     (let (objs, root) = write_tree_from_files C files
      in sbind (on_git (put_all (disk_ops C) objs)) (\<lambda>_. sret root))"

text \<open>A move that fails leaves the file and its record in place.\<close>

definition move_quarantine :: "vault \<Rightarrow> materialize_op \<Rightarrow> vault" where
  "move_quarantine v q =
     (case q of
        Quarantine from to \<Rightarrow>
          (case on_fs (create_dir_all (parent_path to)) v of
             (v, Inl _) \<Rightarrow> v
           | (v, Inr _) \<Rightarrow>
               (case on_fs (fs_rename from to) v of
                  (v, Inl _) \<Rightarrow> v
                | (v, Inr _) \<Rightarrow>
                    on_mem (\<lambda>st. st\<lparr>es_materialized := bt_remove from (es_materialized st)\<rparr>) v))
      | _ \<Rightarrow> v)"

definition vault_publish ::
  "crates \<Rightarrow> codec \<Rightarrow> u64 \<Rightarrow> oid \<Rightarrow> files \<Rightarrow> oid list \<Rightarrow> (vault, oid option) seff" where
  "vault_publish C J wall parent filtered readds =
     sbind (vault_write_tree C filtered) (\<lambda>t.
     sbind (\<lambda>v. case next_counter (va_state v) of (st, c) \<Rightarrow> (v\<lparr>va_state := st\<rparr>, Ok c)) (\<lambda>counter.
     sbind (\<lambda>v. on_git (disk_put C
         (build_primitive_with_readd C (va_identity v) t parent counter wall ''ctx edit'' readds)) v) (\<lambda>x.
     sbind (smodify (on_mem (add_known C x))) (\<lambda>_.
     sbind (smodify (\<lambda>v. on_repo (set_node_tip C (id_node C (va_identity v)) x) v)) (\<lambda>_.
     sbind (recompute_and_materialize C J) (\<lambda>_.
     sbind (save_state J) (\<lambda>_.
       sret (Some x))))))))"

definition vault_commit_onto ::
  "crates \<Rightarrow> codec \<Rightarrow> u64 \<Rightarrow> u64 \<Rightarrow> files \<Rightarrow> oid \<Rightarrow> (vault, oid option) seff" where
  "vault_commit_onto C J now wall files parent =
     sbind (sread (\<lambda>v. main_tree (va_get C v) parent)) (\<lambda>parent_tree.
     sbind (sread (\<lambda>v. ghost_guard C (va_get C v) parent parent_tree
         (es_materialized (va_state v)) (orphans_bucket now) files))
       (\<lambda>(filtered, readds, quarantines).
     sbind (smodify (\<lambda>v. foldl move_quarantine v quarantines)) (\<lambda>_. \<lambda>v.
       if \<not> genuine_change C (es_materialized (va_state v)) filtered
       then sbind (if quarantines \<noteq> [] then save_state J else sret ()) (\<lambda>_. sret None) v
       else vault_publish C J wall parent filtered readds v)))"

definition commit_local_changes :: "crates \<Rightarrow> codec \<Rightarrow> u64 \<Rightarrow> u64 \<Rightarrow> (vault, oid option) seff" where
  "commit_local_changes C J now wall = (\<lambda>v.
     if es_bootstrap_pending (va_state v) then (v, Ok None)
     else
       (let v = refresh_scope v;
            files = canonicalize_keeps (inject_empty_dir_keeps v (scan v)) (va_scope v)
        in sbind (case repo_main C (va_git v) of
                    Some m \<Rightarrow> sret m
                  | None \<Rightarrow> on_git (unwrap (genesis C (disk_ops C))))
             (vault_commit_onto C J now wall files) v))"

definition vault_mark_bootstrap_pending :: "codec \<Rightarrow> (vault, unit) seff" where
  "vault_mark_bootstrap_pending J =
     sbind (smodify (on_mem (\<lambda>st. st\<lparr>es_bootstrap_pending := True\<rparr>))) (\<lambda>_. save_state J)"

definition vault_mark_bootstrap_complete :: "codec \<Rightarrow> vault \<Rightarrow> vault" where
  "vault_mark_bootstrap_complete J v =
     (if es_bootstrap_pending (va_state v)
      then fst (save_state J (on_mem (\<lambda>st. st\<lparr>es_bootstrap_pending := False\<rparr>) v))
      else v)"

section \<open>Integrating received objects\<close>

definition vault_put_raws :: "crates \<Rightarrow> bytes list \<Rightarrow> (disk, unit) seff" where
  "vault_put_raws C = smapM (\<lambda>raw. sbind (put_raw C (disk_ops C) raw) (\<lambda>_. sret ()))"

fun vault_any_rejected :: "crates \<Rightarrow> bytes list \<Rightarrow> (disk, bool) seff" where
  "vault_any_rejected C [] = sret False"
| "vault_any_rejected C (raw # raws) =
     (case raw_commit C raw of
        None \<Rightarrow> vault_any_rejected C raws
      | Some c \<Rightarrow>
          if parse_primitive_meta C c \<noteq> None then vault_any_rejected C raws
          else
            sbind (rejected (verify_fold_commit C (disk_ops C) (oid_of C (Commit c)))) (\<lambda>bad.
              if bad then sret True else vault_any_rejected C raws))"

definition vault_integrate :: "crates \<Rightarrow> codec \<Rightarrow> bytes list \<Rightarrow> (vault, nat) seff" where
  "vault_integrate C J raws =
     sbind (on_git (vault_put_raws C raws)) (\<lambda>_.
     sbind (on_git (vault_any_rejected C raws)) (\<lambda>bad.
       if bad then sret 0
       else
         sbind (\<lambda>v. case foldl (admit_raw C) (va_state v, 0) raws of
             (st, admitted) \<Rightarrow> (v\<lparr>va_state := st\<rparr>, Ok admitted)) (\<lambda>admitted.
         sbind (if admitted > 0 then recompute_and_materialize C J else sret ()) (\<lambda>_.
         sbind (save_state J) (\<lambda>_. sret admitted)))))"

section \<open>Export\<close>

definition vault_frontier_tips :: "crates \<Rightarrow> vault \<Rightarrow> oid list res" where
  "vault_frontier_tips C v = rbind (known_oids C (va_state v)) (frontier C (va_get C v))"

definition vault_known :: "crates \<Rightarrow> vault \<Rightarrow> oid list res" where
  "vault_known C v = known_oids C (va_state v)"

definition vault_export_closure :: "crates \<Rightarrow> vault \<Rightarrow> oid list \<Rightarrow> bytes list res" where
  "vault_export_closure C v tips =
     rbind (reachable (va_get C v) tips) (rmap (get_raw C (disk_ops C) (va_git v)))"

definition export_all :: "crates \<Rightarrow> vault \<Rightarrow> bytes list res" where
  "export_all C v = rbind (known_oids C (va_state v)) (vault_export_closure C v)"

section \<open>Authorization\<close>

definition vault_default_ttl_days :: "vault \<Rightarrow> u64" where
  "vault_default_ttl_days v =
     (case vc_default_key_ttl_days (va_config v) of None \<Rightarrow> BUILTIN_DEFAULT_TTL_DAYS | Some d \<Rightarrow> d)"

definition vault_authorized_node_ids :: "crates \<Rightarrow> u64 \<Rightarrow> vault \<Rightarrow> node_id set" where
  "vault_authorized_node_ids C now v =
     (case read_text AUTHORIZED_KEYS (va_fs v) of
        Inl _ \<Rightarrow> {}
      | Inr s \<Rightarrow> set (List.map_filter (\<lambda>k.
          case ke_node k of None \<Rightarrow> None | Some n \<Rightarrow> if is_valid (ke_expiry k) now then Some n else None)
          (parse_file C s)))"

definition authorized_entries :: "crates \<Rightarrow> vault \<Rightarrow> key_entry list" where
  "authorized_entries C v =
     filter (\<lambda>k. ke_node k \<noteq> None) (parse_file C (text_or_default AUTHORIZED_KEYS (va_fs v)))"

text \<open>The lock serializes the processes; its holder reads the file as it stands.\<close>

definition with_authorized_lock :: "(fs, 'a) seff \<Rightarrow> (fs, 'a) seff" where
  "with_authorized_lock f =
     sbind (create_dir_all CONTEXT_DIR) (\<lambda>_. sbind (open_or_create AUTHORIZED_LOCK) (\<lambda>_. f))"

definition write_authorized_atomic :: "string \<Rightarrow> (fs, unit) seff" where
  "write_authorized_atomic content =
     write_atomic (with_extension ''ak-tmp'' AUTHORIZED_KEYS) AUTHORIZED_KEYS content"

text \<open>Reading the entries under the lock.\<close>

definition with_entries :: "crates \<Rightarrow> (key_entry list \<Rightarrow> (fs, 'a) seff) \<Rightarrow> (vault, 'a) seff" where
  "with_entries C f =
     on_fs (with_authorized_lock (\<lambda>t. f (parse_file C (text_or_default AUTHORIZED_KEYS t)) t))"

definition vault_authorize_with_expiry :: "crates \<Rightarrow> string \<Rightarrow> expiry \<Rightarrow> (vault, unit) seff" where
  "vault_authorize_with_expiry C ssh_line ex =
     with_entries C (\<lambda>entries.
       let entry = parse_line C (build_line ssh_line ex)
       in case parse_ssh_pubkey C (str_trim ssh_line) of
            None \<Rightarrow> sret ()
          | Some t \<Rightarrow>
              (case position (\<lambda>k. ke_node k = Some t) entries of
                 Some i \<Rightarrow> write_authorized_atomic (serialize (entries[i := entry]))
               | None \<Rightarrow> write_authorized_atomic (serialize (entries @ [entry]))))"

definition vault_authorize :: "crates \<Rightarrow> string \<Rightarrow> (vault, unit) seff" where
  "vault_authorize C ssh_line = vault_authorize_with_expiry C ssh_line Unset"

definition revoke :: "crates \<Rightarrow> string \<Rightarrow> (vault, unit) seff" where
  "revoke C ssh_line =
     with_entries C (\<lambda>entries.
       write_authorized_atomic (serialize (filter (\<lambda>e.
         case (ke_node e, parse_ssh_pubkey C (str_trim ssh_line)) of
           (Some a, Some b) \<Rightarrow> a \<noteq> b
         | _ \<Rightarrow> str_trim (ke_raw e) \<noteq> str_trim ssh_line) entries)))"

definition extend_matches :: "crates \<Rightarrow> string \<Rightarrow> key_entry \<Rightarrow> bool" where
  "extend_matches C ssh_or_prefix e =
     (let needle = map ascii_lower (str_trim ssh_or_prefix)
      in case ke_node e of
           None \<Rightarrow> False
         | Some n \<Rightarrow>
             parse_ssh_pubkey C ssh_or_prefix = Some n \<or> starts_with needle (node_to_hex C n)
             \<or> str_contains needle (map ascii_lower (ke_raw e)))"

text \<open>Rewriting the entries that match, and the file when there are any.\<close>

definition rewrite_entries ::
  "crates \<Rightarrow> (key_entry \<Rightarrow> bool) \<Rightarrow> expiry \<Rightarrow> (vault, nat) seff" where
  "rewrite_entries C P ex =
     with_entries C (\<lambda>entries.
       let entries' = map (\<lambda>e. if P e then parse_line C (build_line (ke_raw e) ex) else e) entries;
           n = length (filter P entries)
       in sbind (if n > 0 then write_authorized_atomic (serialize entries') else sret ()) (\<lambda>_. sret n))"

definition extend_expiry :: "crates \<Rightarrow> u64 \<Rightarrow> string \<Rightarrow> u64 option \<Rightarrow> (vault, nat) seff" where
  "extend_expiry C now ssh_or_prefix more_days =
     rewrite_entries C (extend_matches C ssh_or_prefix)
       (case more_days of None \<Rightarrow> Never | Some d \<Rightarrow> At (expiry_from_ttl_days now d))"

definition migrate_default_expiry :: "crates \<Rightarrow> u64 \<Rightarrow> (vault, nat) seff" where
  "migrate_default_expiry C now = (\<lambda>v.
     let ttl_days = vault_default_ttl_days v
     in if ttl_days = 0 then (v, Ok 0)
        else rewrite_entries C (\<lambda>e. ke_node e \<noteq> None \<and> ke_expiry e = Unset)
               (At (expiry_from_ttl_days now ttl_days)) v)"

definition vault_admit_peer :: "crates \<Rightarrow> u64 \<Rightarrow> string \<Rightarrow> bool \<Rightarrow> (vault, bool) seff" where
  "vault_admit_peer C now ssh_line enrollment_authorized = (\<lambda>v.
     case parse_ssh_pubkey C ssh_line of
       None \<Rightarrow> (v, Ok False)
     | Some peer_node \<Rightarrow>
         with_entries C (\<lambda>entries.
           let entry = parse_line C (build_line ssh_line (enroll_expiry now (vault_default_ttl_days v)));
               put = (\<lambda>es. sbind (write_authorized_atomic (serialize es)) (\<lambda>_. sret True))
           in case position (\<lambda>k. ke_node k = Some peer_node) entries of
                Some i \<Rightarrow>
                  if is_valid (ke_expiry (entries ! i)) now then sret True
                  else if enrollment_authorized then put (entries[i := entry])
                  else sret False
              | None \<Rightarrow>
                  if enrollment_authorized then put (entries @ [entry])
                  else if \<not> list_ex (\<lambda>k. ke_node k \<noteq> None) entries \<and> \<not> vc_no_tofu (va_config v)
                          \<and> vc_auth_keys (va_config v) = []
                  then put (entries @ [entry])
                  else sret False) v)"

definition vault_admit_peer_tofu :: "crates \<Rightarrow> u64 \<Rightarrow> string \<Rightarrow> (vault, bool) seff" where
  "vault_admit_peer_tofu C now ssh_line = vault_admit_peer C now ssh_line False"

section \<open>Snapshots and restores\<close>

definition vault_snapshot :: "crates \<Rightarrow> codec \<Rightarrow> u64 \<Rightarrow> string \<Rightarrow> (vault, unit) seff" where
  "vault_snapshot C J now name =
     sbind (sread (vault_frontier_tips C)) (\<lambda>tips.
     sbind (sread (\<lambda>v. ok_or (OtherErr ''no main'') (repo_main C (va_git v)))) (\<lambda>m.
     sbind (smodify (on_repo (set_snapshot C name m))) (\<lambda>_.
     sbind (smodify (on_mem (\<lambda>st. st\<lparr>es_snapshots := bt_insert name
         \<lparr>sn_label = name, sn_frontier = map (to_hex C) tips, sn_created = now\<rparr> (es_snapshots st)\<rparr>))) (\<lambda>_.
       save_state J))))"

definition fold_over_subset :: "crates \<Rightarrow> oid list \<Rightarrow> (vault, files) seff" where
  "fold_over_subset C chosen =
     sbind (on_git (compute_main C (disk_ops C) chosen)) (\<lambda>m.
       sread (\<lambda>v. rbind (main_tree (va_get C v) m) (\<lambda>t. read_tree_to_files t (va_get C v))))"

definition restore_file :: "string \<times> bytes \<Rightarrow> (vault, unit) seff" where
  "restore_file = (\<lambda>(p, content).
     sbind (on_fs (create_dir_all (parent_path p))) (\<lambda>_.
     sbind (on_fs (fs_write p content)) (\<lambda>_.
       smodify (on_mem (\<lambda>st. st\<lparr>es_materialized := bt_remove p (es_materialized st)\<rparr>)))))"

definition apply_restore :: "crates \<Rightarrow> codec \<Rightarrow> u64 \<Rightarrow> u64 \<Rightarrow> files \<Rightarrow> (vault, unit) seff" where
  "apply_restore C J now wall tree =
     sbind (smapM restore_file tree) (\<lambda>_.
     sbind (smodify (\<lambda>v. foldl (\<lambda>v p.
         if bt_contains tree p then v
         else v\<lparr>va_fs := prune_empty_dirs (parent_path p) (remove_file p (va_fs v))\<rparr>) v (bt_keys (scan v)))) (\<lambda>_.
     sbind (commit_local_changes C J now wall) (\<lambda>_. sret ())))"

definition vault_restore_snapshot :: "crates \<Rightarrow> codec \<Rightarrow> u64 \<Rightarrow> u64 \<Rightarrow> string \<Rightarrow> (vault, unit) seff" where
  "vault_restore_snapshot C J now wall name =
     sbind (sread (\<lambda>v. ok_or (OtherErr (''no snapshot '' @ name)) (bt_get (es_snapshots (va_state v)) name))) (\<lambda>snap.
     sbind (sread (\<lambda>_. rmap (from_hex C) (sn_frontier snap))) (\<lambda>chosen.
     sbind (fold_over_subset C chosen) (apply_restore C J now wall)))"

definition vault_restore_time :: "crates \<Rightarrow> codec \<Rightarrow> u64 \<Rightarrow> u64 \<Rightarrow> u64 \<Rightarrow> (vault, unit) seff" where
  "vault_restore_time C J now wall t =
     sbind (sread (\<lambda>v. rbind (known_oids C (va_state v)) (\<lambda>known.
       rfold (\<lambda>chosen x. rbind (va_get C v x) (\<lambda>ob.
         Ok (case ob of Commit c \<Rightarrow> if co_author_time c \<le> t then chosen @ [x] else chosen | _ \<Rightarrow> chosen)))
         [] known))) (\<lambda>chosen.
     sbind (fold_over_subset C chosen) (apply_restore C J now wall))"

section \<open>The vault as a session vault\<close>

definition disk_vault_ops :: "crates \<Rightarrow> codec \<Rightarrow> u64 \<Rightarrow> vault vault_ops" where
  "disk_vault_ops C J now =
     \<lparr>vo_vault_id = \<lambda>v. vc_vault_id (va_config v), vo_name = \<lambda>v. vc_name (va_config v),
      vo_identity_ssh = \<lambda>v. to_ssh_string C (va_identity v),
      vo_sign = \<lambda>v. id_sign C (va_identity v),
      vo_frontier_tips = vault_frontier_tips C, vo_known = vault_known C,
      vo_has = \<lambda>v. disk_has C (va_git v), vo_export_closure = vault_export_closure C,
      vo_integrate = vault_integrate C J, vo_admit_peer = vault_admit_peer C now,
      vo_mark_bootstrap_complete = vault_mark_bootstrap_complete J\<rparr>"

end
