(* ===== verification/Tree_Facts.thy ===== *)
theory Tree_Facts
  imports File_Tree
begin

text \<open>
  The type invariant of a file tree: no path is both a file and a directory, and what a path is below is a
  directory. Every call keeps it, whether it succeeds or fails.
\<close>

definition fs_typed :: "fs \<Rightarrow> bool" where
  "fs_typed t \<longleftrightarrow>
     bt_wf (fs_files t) \<and> (\<forall>p. \<not> (is_file t p \<and> is_dir t p))
     \<and> (\<forall>p. is_file t p \<or> is_dir t p \<longrightarrow> is_dir t (parent_path p))"

definition keeps_type :: "fs \<Rightarrow> fs \<Rightarrow> bool" where
  "keeps_type t u \<longleftrightarrow> (fs_typed t \<longrightarrow> fs_typed u)"

lemma keeps_type_refl: "reflp keeps_type"
  by (simp add: reflp_def keeps_type_def)

lemma keeps_type_trans: "transp keeps_type"
  by (simp add: transp_def keeps_type_def)

lemmas type_rules = keeps_sread [OF keeps_type_refl] keeps_sret [OF keeps_type_refl]
  keeps_sbind [OF keeps_type_trans] keeps_smapM [OF keeps_type_refl keeps_type_trans]

section \<open>Paths\<close>

lemma parent_path_Nil [simp]: "parent_path [] = []"
  by (simp add: parent_path_def rsplit_once_def split_once_def)

lemma parent_path_single: "CHR ''/'' \<notin> set b \<Longrightarrow> parent_path b = []"
  by (simp add: parent_path_def rsplit_once_def split_once_def str_find_None [THEN iffD2])

lemma parent_path_join: "CHR ''/'' \<notin> set b \<Longrightarrow> parent_path (a @ ''/'' @ b) = a"
  using str_find_append [of "CHR ''/''" "rev b" "rev a"] by (simp add: parent_path_def rsplit_once_def split_once_def)

lemma str_join_snoc_part: "ws \<noteq> [] \<Longrightarrow> str_join sep (ws @ [w]) = str_join sep ws @ sep @ w"
proof (induction ws rule: list_nonempty_induct)
  case (cons x xs)
  then have "str_join sep (x # xs @ [w]) = x @ sep @ str_join sep (xs @ [w])" by (intro str_join_Cons) simp
  with cons show ?case by (simp add: str_join_Cons)
qed simp

lemma chain_parent:
  assumes "d \<in> set (dir_chain p)"
  shows "parent_path d = [] \<or> parent_path d \<in> set (dir_chain p)"
proof -
  let ?parts = "str_split (CHR ''/'') p"
  from assms obtain n where n: "n < length ?parts" "d = str_join ''/'' (take (Suc n) ?parts)" "d \<noteq> []"
    by (auto simp: dir_chain_def Let_def)
  have no: "CHR ''/'' \<notin> set (?parts ! n)" using n(1) str_split_pieces nth_mem by metis
  have take: "take (Suc n) ?parts = take n ?parts @ [?parts ! n]" using n(1) by (rule take_Suc_conv_app_nth)
  show ?thesis
  proof (cases n)
    case 0
    with n(2) no take show ?thesis by (simp add: parent_path_single)
  next
    case (Suc m)
    then have "take n ?parts \<noteq> []" using n(1) by auto
    then have "d = str_join ''/'' (take n ?parts) @ ''/'' @ ?parts ! n" using n(2) take by (simp add: str_join_snoc_part)
    then have "parent_path d = str_join ''/'' (take (Suc m) ?parts)" using Suc parent_path_join [OF no] by simp
    moreover have "m < length ?parts" using n(1) Suc by simp
    ultimately show ?thesis by (auto simp: dir_chain_def Let_def)
  qed
qed

section \<open>Every call keeps the tree typed\<close>

lemma is_dir_created: "create_dir_all p t = (u, Ok ()) \<Longrightarrow> is_dir u d \<longleftrightarrow> is_dir t d \<or> d \<in> set (dir_chain p)"
  by (auto simp: create_dir_all_def is_dir_def split: if_splits)

lemma typed_create_dir_all: "keeps keeps_type (create_dir_all p)"
  unfolding keeps_def keeps_type_def
proof (intro allI impI)
  fix t assume typed: "fs_typed t"
  show "fs_typed (fst (create_dir_all p t))"
  proof (cases "list_ex (is_file t) (dir_chain p)")
    case True
    with typed show ?thesis by (simp add: create_dir_all_def)
  next
    case False
    then obtain u where u: "create_dir_all p t = (u, Ok ())" by (simp add: create_dir_all_def)
    have files: "fs_files u = fs_files t" using u by (auto simp: create_dir_all_def split: if_splits)
    then have same: "is_file u q \<longleftrightarrow> is_file t q" for q by (simp add: is_file_def)
    have "\<not> (is_file u q \<and> is_dir u q)" for q
      using typed False same unfolding is_dir_created [OF u] fs_typed_def list_ex_iff by blast
    moreover have "is_dir u (parent_path q)" if "is_file u q \<or> is_dir u q" for q
    proof (cases "q \<in> set (dir_chain p)")
      case True
      from chain_parent [OF this] show ?thesis unfolding is_dir_created [OF u] by (auto simp: is_dir_def)
    next
      case False
      with that typed same show ?thesis unfolding is_dir_created [OF u] fs_typed_def by blast
    qed
    ultimately show ?thesis using typed by (simp add: u fs_typed_def files)
  qed
qed

lemma typed_insert:
  assumes "fs_typed t" and "\<not> is_dir t p" and "is_dir t (parent_path p)"
  shows "fs_typed (t\<lparr>fs_files := bt_insert p b (fs_files t)\<rparr>)"
  using assms by (auto simp: fs_typed_def is_file_def is_dir_def bt_simps bt_wf_insert)

lemma typed_remove: "fs_typed t \<Longrightarrow> fs_typed (t\<lparr>fs_files := bt_remove p (fs_files t)\<rparr>)"
  by (auto simp: fs_typed_def is_file_def is_dir_def bt_simps bt_wf_remove)

lemma typed_fs_write: "keeps keeps_type (fs_write p b)"
  by (auto simp: keeps_def keeps_type_def fs_write_def typed_insert)

lemma typed_fs_rename: "keeps keeps_type (fs_rename p q)"
  unfolding keeps_def keeps_type_def
proof (intro allI impI)
  fix t assume typed: "fs_typed t"
  have "fs_typed (t\<lparr>fs_files := bt_insert q b (bt_remove p (fs_files t))\<rparr>)" if "\<not> is_dir t q" "is_dir t (parent_path q)" for b
    using typed_insert [OF typed_remove [OF typed, of p], of q b] that by (simp add: is_dir_def)
  with typed show "fs_typed (fst (fs_rename p q t))" by (simp add: fs_rename_def split: option.split)
qed

lemma typed_open_or_create: "keeps keeps_type (open_or_create p)"
  using typed_fs_write [of p "[]"] by (simp add: open_or_create_def keeps_def keeps_type_def)

lemma typed_write_atomic: "keeps keeps_type (write_atomic tmp p b)"
  unfolding write_atomic_def by (intro type_rules typed_fs_write typed_fs_rename)

lemma typed_remove_file: "keeps_type t (remove_file p t)"
  by (simp add: keeps_type_def remove_file_def typed_remove)

lemma typed_remove_dir:
  assumes "dir_empty t p" and "p \<noteq> []"
  shows "keeps_type t (remove_dir p t)"
  unfolding keeps_type_def
proof
  assume typed: "fs_typed t"
  have parent: "parent_path q \<noteq> p" if "is_file t q \<or> is_dir t q" for q
  proof (cases "q = []")
    case False
    with that have "q \<in> set (bt_keys (fs_files t) @ fs_dirs t)"
      by (auto simp: is_file_def is_dir_def map_of_eq_None_iff)
    with assms(1) False show ?thesis by (auto simp: dir_empty_def list_ex_iff)
  qed (use assms(2) in simp)
  have dirs: "is_dir (remove_dir p t) q \<longleftrightarrow> is_dir t q \<and> q \<noteq> p" for q
    using assms(2) by (auto simp: is_dir_def remove_dir_def)
  have files: "is_file (remove_dir p t) q \<longleftrightarrow> is_file t q" "fs_files (remove_dir p t) = fs_files t" for q
    by (simp_all add: is_file_def remove_dir_def)
  show "fs_typed (remove_dir p t)"
    using typed parent unfolding fs_typed_def dirs files by blast
qed

lemma typed_prune: "keeps_type t (prune_empty_dirs cur t)"
proof (induction cur t rule: prune_empty_dirs.induct)
  case (1 cur t)
  show ?case
  proof (cases "cur = [] \<or> \<not> is_dir t cur \<or> \<not> dir_empty t cur")
    case True
    then show ?thesis by (subst prune_empty_dirs.simps) (simp add: keeps_type_def)
  next
    case False
    with typed_remove_dir [of t cur] 1 have "keeps_type t (prune_empty_dirs (parent_path cur) (remove_dir cur t))"
      by (auto simp: keeps_type_def)
    with False show ?thesis by (subst prune_empty_dirs.simps) simp
  qed
qed

lemma typed_with_lock: "keeps keeps_type f \<Longrightarrow> keeps keeps_type (sbind (create_dir_all d) (\<lambda>_. sbind (open_or_create l) (\<lambda>_. f)))"
  by (intro type_rules typed_create_dir_all typed_open_or_create)

end
