(* ===== verification/Vault_Facts.thy ===== *)
theory Vault_Facts
  imports Vault Tree_Facts Engine_Facts
begin

text \<open>
  What every call on a vault keeps: the files and directories stay a tree, no stored object and no known
  primitive is lost, the observed counter does not go back, and every known id stays the id of a stored
  primitive whose signature verifies.
\<close>

section \<open>The repository under object writes\<close>

text \<open>Writing objects keeps a given set of objects and every ref.\<close>

definition disk_keeps :: "crates \<Rightarrow> oid set \<Rightarrow> (string \<Rightarrow> oid option) \<Rightarrow> disk \<Rightarrow> bool" where
  "disk_keeps C X R d \<longleftrightarrow>
     disk_inv C d \<and> (\<forall>x \<in> X. disk_has C d x) \<and> (\<forall>n. read_ref C (''refs/'' @ n) d = R n)"

lemma disk_put_ref: "read_ref C (''refs/'' @ n) (fst (disk_put C ob d)) = read_ref C (''refs/'' @ n) d"
  by (simp add: read_ref_def disk_put_def disk_put_steps_def Let_def mkdir_def write_file_def rename_file_def
      tmp_path_def loose_path_def loose_dir_def)

interpretation dskK: engine_store C "disk_ops C" "\<lambda>ob. parse_framed C (framed C ob)" "disk_keeps C X R"
  for C X R
  by unfold_locales
    (auto simp: disk_keeps_def disk_put_ref [simplified] dsk.put_ok dsk.put_inv dsk.put_present dsk.put_new dsk.has_put dsk.get_has)

definition disk_le :: "crates \<Rightarrow> disk \<Rightarrow> disk \<Rightarrow> bool" where
  "disk_le C d d' \<longleftrightarrow>
     (disk_inv C d \<longrightarrow> get_le (disk_get C d) (disk_get C d') \<and> (\<forall>x. disk_has C d x \<longrightarrow> disk_has C d' x))"

definition same_refs :: "crates \<Rightarrow> disk \<Rightarrow> disk \<Rightarrow> bool" where
  "same_refs C d d' \<longleftrightarrow> (disk_inv C d \<longrightarrow> (\<forall>n. read_ref C (''refs/'' @ n) d' = read_ref C (''refs/'' @ n) d))"

lemma disk_le_refl: "disk_le C d d"
  by (simp add: disk_le_def)

lemma disk_le_trans: "disk_le C d d' \<Longrightarrow> disk_le C d' d'' \<Longrightarrow> disk_le C d d''"
  by (auto simp: disk_le_def disk_inv_def intro: get_le_trans)

lemma writes_objects:
  assumes "\<And>X R. keeps (dskK.grows C X R) m"
  shows "keeps (disk_le C) m" and "keeps (same_refs C) m"
proof -
  have grown: "disk_inv C d \<Longrightarrow> disk_keeps C {x. disk_has C d x} (\<lambda>n. read_ref C (''refs/'' @ n) d) (fst (m d))
      \<and> get_le (disk_get C d) (disk_get C (fst (m d)))" for d
    using keepsD [OF assms [of "{x. disk_has C d x}" "\<lambda>n. read_ref C (''refs/'' @ n) d"], of d]
    by (simp add: dskK.grows_def disk_keeps_def)
  then show "keeps (disk_le C) m" and "keeps (same_refs C) m"
    by (simp_all add: keeps_def disk_le_def same_refs_def disk_keeps_def)
qed

lemma update_ref_has: "disk_has C (update_ref C (''refs/'' @ s) x d) y = disk_has C d y"
proof -
  obtain t where "with_extension ''lock'' (''refs'' @ ''/'' @ s) = ''refs'' @ ''/'' @ t"
    using with_extension_prefix [of "''lock''" "''refs''" s] by auto
  then have "with_extension ''lock'' (''refs/'' @ s) = ''refs/'' @ t" by simp
  then show ?thesis
    using loose_not_ref [of C y s] loose_not_ref [of C y t]
    by (simp add: disk_has_def update_ref_def Let_def rename_file_def write_file_def mkdir_def)
qed

lemma ref_has [simp]:
  "disk_has C (set_main C x d) = disk_has C d"
  "disk_has C (set_node_tip C node x d) = disk_has C d"
  "disk_has C (set_snapshot C name x d) = disk_has C d"
  using update_ref_has [of C "''heads/main''" x d] update_ref_has [of C "''heads/node/'' @ node_to_hex C node" x d]
    update_ref_has [of C "''tags/snap/'' @ name" x d]
  by (auto simp: set_main_def MAIN_REF_def set_node_tip_def NODE_REFS_def set_snapshot_def SNAP_REFS_def)

lemma same_refs_main: "same_refs C d d' \<Longrightarrow> disk_inv C d \<Longrightarrow> repo_main C d' = repo_main C d"
  by (metis same_refs_def repo_main_def MAIN_REF_def append_Cons append_Nil)

section \<open>The invariant\<close>

text \<open>A known id is that of a stored commit whose signature verifies, and the main commit is stored.\<close>

definition vault_inv :: "crates \<Rightarrow> vault \<Rightarrow> bool" where
  "vault_inv C v \<longleftrightarrow>
     known_wf C (va_state v)
     \<and> (\<forall>h \<in> set (es_known (va_state v)). \<exists>c node.
          h = to_hex C (oid_of C (Commit c)) \<and> verify_primitive C c = Ok node \<and> disk_has C (va_git v) (oid_of C (Commit c)))
     \<and> (\<forall>m. repo_main C (va_git v) = Some m \<longrightarrow> disk_has C (va_git v) m)"

definition crate_laws :: "crates \<Rightarrow> bool" where
  "crate_laws C \<longleftrightarrow> hex_laws C \<and> b64_laws C \<and> zlib_laws C \<and> ed_laws C"

lemma crate_disk_inv: "crate_laws C \<Longrightarrow> disk_inv C d"
  by (simp add: crate_laws_def disk_inv_def)

definition vault_le :: "crates \<Rightarrow> vault \<Rightarrow> vault \<Rightarrow> bool" where
  "vault_le C v v' \<longleftrightarrow>
     keeps_type (va_fs v) (va_fs v') \<and> disk_le C (va_git v) (va_git v')
     \<and> set (es_known (va_state v)) \<subseteq> set (es_known (va_state v'))
     \<and> es_observed (va_state v) \<le> es_observed (va_state v')
     \<and> (bt_wf (es_materialized (va_state v)) \<longrightarrow> bt_wf (es_materialized (va_state v')))
     \<and> (crate_laws C \<and> vault_inv C v \<longrightarrow> vault_inv C v')"

lemma vault_le_same: "vault_le C v v"
  using reflpD [OF keeps_type_refl] by (simp add: vault_le_def disk_le_refl)

lemma vault_le_refl: "reflp (vault_le C)"
  by (simp add: reflp_def vault_le_same)

lemma vault_le_trans: "transp (vault_le C)"
proof (rule transpI)
  fix a b c assume "vault_le C a b" and "vault_le C b c"
  then show "vault_le C a c"
    using transpD [OF keeps_type_trans] disk_le_trans order_trans unfolding vault_le_def by blast
qed

lemmas vault_le_step = transpD [OF vault_le_trans]

lemmas vault_rules = keeps_sread [OF vault_le_refl] keeps_sret [OF vault_le_refl]
  keeps_sbind [OF vault_le_trans] keeps_smapM [OF vault_le_refl vault_le_trans]

text \<open>A sequence whose second part relies on what the first has done.\<close>

lemma vault_sbind:
  assumes "keeps (vault_le C) m" and "\<And>v u x. m v = (u, Ok x) \<Longrightarrow> vault_le C u (fst (f x u))"
  shows "keeps (vault_le C) (sbind m f)"
  unfolding keeps_def
proof
  fix v
  obtain u r where m: "m v = (u, r)" by fastforce
  from keepsD2 [OF assms(1) m] have "vault_le C v u" .
  with m assms(2) vault_le_step show "vault_le C v (fst (sbind m f v))"
    by (cases r) (auto simp: sbind_def)
qed

section \<open>Changes of one component\<close>

lemma vault_inv_cong:
  assumes "es_known (va_state v') = es_known (va_state v)" and "disk_le C (va_git v) (va_git v')"
    and "disk_inv C (va_git v)" and "vault_inv C v"
    and "\<And>m. repo_main C (va_git v') = Some m \<Longrightarrow> repo_main C (va_git v) = Some m \<or> disk_has C (va_git v') m"
  shows "vault_inv C v'"
  using assms known_wf_cong [OF assms(1), of C] unfolding vault_inv_def disk_le_def by metis

lemma vault_fs:
  fixes v :: vault
  shows "keeps_type (va_fs v) t \<Longrightarrow> vault_le C v (v\<lparr>va_fs := t\<rparr>)"
  by (simp add: vault_le_def disk_le_refl vault_inv_def)

lemma vault_on_fs: "keeps keeps_type m \<Longrightarrow> keeps (vault_le C) (on_fs m)"
  by (auto simp: keeps_def on_fs_def split: prod.split intro: vault_fs) (metis fst_conv vault_fs)

lemma vault_git:
  assumes "disk_le C (va_git v) d" and "\<And>m. disk_inv C (va_git v) \<Longrightarrow> repo_main C d = Some m \<Longrightarrow>
      repo_main C (va_git v) = Some m \<or> disk_has C d m"
  shows "vault_le C v (v\<lparr>va_git := d\<rparr>)"
  using assms reflpD [OF keeps_type_refl] vault_inv_cong [of "v\<lparr>va_git := d\<rparr>" v C] crate_disk_inv [of C "va_git v"]
  by (auto simp: vault_le_def)

lemma vault_on_git:
  assumes "\<And>X R. keeps (dskK.grows C X R) m"
  shows "keeps (vault_le C) (on_git m)"
  unfolding keeps_def
proof
  fix v :: vault
  obtain d r where m: "m (va_git v) = (d, r)" by fastforce
  have "vault_le C v (v\<lparr>va_git := d\<rparr>)"
    using keepsD2 [OF writes_objects(1) [OF assms] m] same_refs_main [OF keepsD2 [OF writes_objects(2) [OF assms] m]]
    by (intro vault_git) simp_all
  with m show "vault_le C v (fst (on_git m v))" by (simp add: on_git_def)
qed

lemma vault_put: "keeps (vault_le C) (on_git (disk_put C ob))"
  by (rule vault_on_git) (rule dskK.keeps_put [simplified])

lemma vault_state:
  assumes "es_known st = es_known (va_state v)" and "es_observed (va_state v) \<le> es_observed st"
    and "bt_wf (es_materialized (va_state v)) \<Longrightarrow> bt_wf (es_materialized st)"
  shows "vault_le C v (v\<lparr>va_state := st\<rparr>)"
proof -
  have "vault_inv C (v\<lparr>va_state := st\<rparr>)" if "vault_inv C v"
    using that known_wf_cong [OF assms(1), of C] by (simp add: vault_inv_def assms(1))
  with assms reflpD [OF keeps_type_refl] show ?thesis by (simp add: vault_le_def disk_le_refl)
qed

lemma vault_on_mem:
  assumes "\<And>st. es_known (f st) = es_known st" and "\<And>st. es_observed st \<le> es_observed (f st)"
    and "\<And>st. bt_wf (es_materialized st) \<Longrightarrow> bt_wf (es_materialized (f st))"
  shows "vault_le C v (on_mem f v)" and "keeps (vault_le C) (smodify (on_mem f))"
proof -
  show "vault_le C v (on_mem f v)" for v
    unfolding on_mem_def by (rule vault_state) (rule assms)+
  then show "keeps (vault_le C) (smodify (on_mem f))" by (simp add: keeps_def)
qed

lemma vault_on_repo:
  assumes "\<And>d. disk_get C (f d) = disk_get C d" and "\<And>d. disk_has C (f d) = disk_has C d"
    and "\<And>d m. hex_laws C \<Longrightarrow> repo_main C (f d) = Some m \<Longrightarrow> repo_main C d = Some m"
  shows "vault_le C v (on_repo f v)" and "keeps (vault_le C) (smodify (on_repo f))"
proof -
  show "vault_le C v (on_repo f v)" for v
    unfolding on_repo_def
  proof (rule vault_git)
    show "disk_le C (va_git v) (f (va_git v))" by (simp add: disk_le_def assms(1,2))
    show "repo_main C (va_git v) = Some m \<or> disk_has C (f (va_git v)) m"
      if "disk_inv C (va_git v)" "repo_main C (f (va_git v)) = Some m" for m
      using that assms(3) [of "va_git v" m] by (simp add: disk_inv_def)
  qed
  then show "keeps (vault_le C) (smodify (on_repo f))" by (simp add: keeps_def)
qed

lemma vault_add_known:
  assumes "verify_primitive C c = Ok node" and "disk_has C (va_git v) (oid_of C (Commit c))"
    and "es_observed (va_state v) \<le> es_observed st" and "es_known st = es_known (va_state v)"
    and "es_materialized st = es_materialized (va_state v)"
  shows "vault_le C v (v\<lparr>va_state := add_known C (oid_of C (Commit c)) st\<rparr>)"
  using assms reflpD [OF keeps_type_refl] known_wf_add [of C st "oid_of C (Commit c)"] known_wf_cong [OF assms(4), of C]
  by (auto simp: vault_le_def disk_le_refl vault_inv_def)

lemma vault_other:
  assumes "va_fs v' = va_fs v" and "va_git v' = va_git v" and "va_state v' = va_state v"
  shows "vault_le C v v'"
  using assms vault_le_same [of C v] by (simp add: vault_le_def vault_inv_def)

lemma vault_foldl: "(\<And>v x. x \<in> set xs \<Longrightarrow> vault_le C v (f v x)) \<Longrightarrow> vault_le C v (foldl f v xs)"
proof (induction xs arbitrary: v)
  case (Cons x xs)
  from Cons.prems [of x v] have "vault_le C v (f v x)" by simp
  moreover have "vault_le C (f v x) (foldl f (f v x) xs)" using Cons by simp
  ultimately show ?case using vault_le_step by simp
qed (simp add: vault_le_same)

lemma vault_smodify: "(\<And>v. vault_le C v (f v)) \<Longrightarrow> keeps (vault_le C) (smodify f)"
  by (simp add: keeps_def)

section \<open>The operations\<close>

lemma typed_state_save: "keeps keeps_type (state_save J st)"
  unfolding state_save_def by (intro type_rules typed_open_or_create typed_write_atomic)

lemma vault_save_state: "keeps (vault_le C) (save_state J)"
  using keepsD [OF vault_on_fs [OF typed_state_save]] by (simp add: keeps_def save_state_def)

lemma vault_save_config: "keeps (vault_le C) save_config"
  using keepsD [OF vault_on_fs [OF typed_fs_write]] by (simp add: keeps_def save_config_def config_save_def)

lemma vault_refresh: "vault_le C v (refresh_scope v)"
  by (rule vault_other) (simp_all add: refresh_scope_def)

lemma vault_remove_stale: "vault_le C v (remove_stale C want v p)"
proof (cases "bt_contains want p")
  case True
  then show ?thesis by (simp add: remove_stale_def vault_le_same)
next
  case False
  have pruned: "keeps_type t (prune_empty_dirs (parent_path p) (remove_file p t))" for t
    using typed_remove_file typed_prune transpD [OF keeps_type_trans] by blast
  define u :: vault where "u = v\<lparr>va_fs := (case fs_get (va_fs v) p of None \<Rightarrow> va_fs v
      | Some disk \<Rightarrow> if Some (blob_hash C disk) = bt_get (es_materialized (va_state v)) p
          then prune_empty_dirs (parent_path p) (remove_file p (va_fs v)) else va_fs v)\<rparr>"
  have "vault_le C v u"
    unfolding u_def using pruned reflpD [OF keeps_type_refl] by (intro vault_fs) (simp split: option.split)
  moreover have "vault_le C u (on_mem (\<lambda>st. st\<lparr>es_materialized := bt_remove p (es_materialized st)\<rparr>) u)"
    by (intro vault_on_mem) (simp_all add: bt_wf_remove)
  ultimately show ?thesis using False vault_le_step by (simp add: remove_stale_def Let_def u_def)
qed

lemma vault_record_hash: "vault_le C v (record_hash C p content v)"
  unfolding record_hash_def by (intro vault_on_mem) (simp_all add: bt_wf_insert)

lemma vault_place_file: "keeps (vault_le C) (place_file C p content)"
  unfolding place_file_def
  by (intro vault_rules vault_on_fs typed_create_dir_all typed_write_atomic vault_smodify vault_record_hash)

lemma vault_materialize_path: "keeps (vault_le C) (materialize_path C pc)"
  using vault_place_file vault_record_hash vault_le_same
  by (auto simp: materialize_path_def keeps_def split: prod.split option.split)

lemma vault_materialize_keeps: "keeps (vault_le C) (vault_materialize C J)"
proof -
  have "keeps (vault_le C) (sbind (sread (\<lambda>v. rbind (main_tree (va_get C v) m) (\<lambda>t. read_tree_to_files t (va_get C v)))) (\<lambda>want.
         sbind (smodify (\<lambda>v. foldl (remove_stale C want) v (bt_keys (es_materialized (va_state v))))) (\<lambda>_.
         sbind (smapM (materialize_path C) want) (\<lambda>_. save_state J))))" for m
    by (intro vault_rules vault_smodify vault_foldl vault_remove_stale vault_materialize_path vault_save_state)
  from keepsD [OF this] vault_le_same show ?thesis
    by (simp add: vault_materialize_def keeps_def split: option.split)
qed

lemma vault_recompute: "keeps (vault_le C) (recompute_and_materialize C J)"
  unfolding recompute_and_materialize_def
proof (rule vault_rules, rule vault_rules, rule vault_sbind)
  show "keeps (vault_le C) (on_git (compute_main C (disk_ops C) known))" for known
    by (intro vault_on_git dskK.keeps_compute_main)
  fix known v u m
  assume "on_git (compute_main C (disk_ops C) known) v = (u, Ok m)"
  then have run: "compute_main C (disk_ops C) known (va_git v) = (va_git u, Ok m)"
    by (auto simp: on_git_def split: prod.splits)
  have "vault_le C u (on_repo (set_main C m) u)"
    unfolding on_repo_def
  proof (rule vault_git)
    show "disk_le C (va_git u) (set_main C m (va_git u))" by (simp add: disk_le_def)
    fix m'
    assume "disk_inv C (va_git u)" and "repo_main C (set_main C m (va_git u)) = Some m'"
    moreover from this have "disk_inv C (va_git v)" by (simp add: disk_inv_def)
    from dskE.compute_main_stored [OF run this] have "disk_has C (va_git u) m" by simp
    ultimately show "repo_main C (va_git u) = Some m' \<or> disk_has C (set_main C m (va_git u)) m'"
      using main_after(1) [of C m "va_git u"] by (simp add: disk_inv_def)
  qed
  with keepsD [OF vault_materialize_keeps] vault_le_step
  show "vault_le C u (fst (sbind (smodify (on_repo (set_main C m))) (\<lambda>_. vault_materialize C J) u))"
    by (auto simp: sbind_def)
qed

lemma vault_move_quarantine: "vault_le C v (move_quarantine v q)"
proof -
  have mkdir: "vault_le C w (fst (on_fs (create_dir_all p) w))" and rename: "vault_le C w (fst (on_fs (fs_rename p p') w))" for w p p'
    by (rule keepsD [OF vault_on_fs [OF typed_create_dir_all]], rule keepsD [OF vault_on_fs [OF typed_fs_rename]])
  have forget: "vault_le C w (on_mem (\<lambda>st. st\<lparr>es_materialized := bt_remove p (es_materialized st)\<rparr>) w)" for w p
    by (intro vault_on_mem) (simp_all add: bt_wf_remove)
  show ?thesis
  proof (cases q)
    case (Quarantine src dst)
    obtain w r where w: "on_fs (create_dir_all (parent_path dst)) v = (w, r)" by fastforce
    obtain u s where u: "on_fs (fs_rename src dst) w = (u, s)" by fastforce
    have vw: "vault_le C v w" and wu: "vault_le C w u" using mkdir [of v "parent_path dst"] rename [of w src dst] w u by simp_all
    then have vu: "vault_le C v u" by (rule vault_le_step)
    then have "vault_le C v (on_mem (\<lambda>st. st\<lparr>es_materialized := bt_remove src (es_materialized st)\<rparr>) u)"
      using forget by (rule vault_le_step)
    with vw vu show ?thesis by (cases r; cases s) (simp_all add: move_quarantine_def Quarantine w u)
  qed (simp_all add: move_quarantine_def vault_le_same)
qed

lemma vault_write_tree_keeps: "keeps (vault_le C) (vault_write_tree C files)"
  unfolding vault_write_tree_def
  by (auto split: prod.splits intro!: vault_rules vault_on_git dskK.keeps_put_all)

text \<open>The primitive of a commit is signed, stored and then known.\<close>

lemma vault_authored:
  "keeps (vault_le C)
     (sbind (\<lambda>v. case next_counter (va_state v) of (st, c) \<Rightarrow> (v\<lparr>va_state := st\<rparr>, Ok c)) (\<lambda>counter.
      sbind (\<lambda>v. on_git (disk_put C
          (build_primitive_with_readd C (va_identity v) t parent counter wall ''ctx edit'' readds)) v) (\<lambda>x.
      sbind (smodify (on_mem (add_known C x))) (\<lambda>_. sret x))))"
  unfolding keeps_def
proof
  fix v :: vault
  obtain st counter where n: "next_counter (va_state v) = (st, counter)" by fastforce
  obtain c where c: "build_primitive_with_readd C (va_identity v) t parent counter wall ''ctx edit'' readds = Commit c"
    using build_primitive_commit by blast
  define u where "u = v\<lparr>va_state := st\<rparr>"
  obtain d where d: "disk_put C (Commit c) (va_git v) = (d, Ok (oid_of C (Commit c)))"
    using dsk.put_eq by blast
  define w where "w = u\<lparr>va_git := d\<rparr>"
  have vu: "vault_le C v u"
    using n unfolding u_def by (intro vault_state) (auto simp: next_counter_def Let_def)
  have "on_git (disk_put C (Commit c)) u = (w, Ok (oid_of C (Commit c)))" by (simp add: on_git_def u_def w_def d)
  with keepsD [OF vault_put [of C "Commit c"], of u] have uw: "vault_le C u w" by simp
  have "vault_le C w (w\<lparr>va_state := add_known C (oid_of C (Commit c)) (va_state w)\<rparr>)"
  proof (cases "crate_laws C")
    case True
    then have "verify_primitive C c = Ok (id_node C (va_identity v))"
      using built_verifies(1) [OF _ _ _ c] by (simp add: crate_laws_def)
    moreover have "disk_has C d (oid_of C (Commit c))"
      using dsk.has_put [OF crate_disk_inv [OF True], of "Commit c" "va_git v"] d by simp
    ultimately show ?thesis by (intro vault_add_known [of C c]) (simp_all add: w_def)
  next
    case False
    then show ?thesis
      using vault_le_same [of C w] by (auto simp: vault_le_def)
  qed
  with vault_le_step [OF vault_le_step [OF vu uw]]
  show "vault_le C v (fst ((sbind (\<lambda>v. case next_counter (va_state v) of (st, c) \<Rightarrow> (v\<lparr>va_state := st\<rparr>, Ok c)) (\<lambda>counter.
      sbind (\<lambda>v. on_git (disk_put C
          (build_primitive_with_readd C (va_identity v) t parent counter wall ''ctx edit'' readds)) v) (\<lambda>x.
      sbind (smodify (on_mem (add_known C x))) (\<lambda>_. sret x)))) v))"
    by (simp add: sbind_def n c u_def w_def on_git_def d on_mem_def)
qed

lemma vault_publish_assoc:
  "vault_publish C J wall parent filtered readds =
     sbind (vault_write_tree C filtered) (\<lambda>t.
     sbind (sbind (\<lambda>v. case next_counter (va_state v) of (st, c) \<Rightarrow> (v\<lparr>va_state := st\<rparr>, Ok c)) (\<lambda>counter.
      sbind (\<lambda>v. on_git (disk_put C
          (build_primitive_with_readd C (va_identity v) t parent counter wall ''ctx edit'' readds)) v) (\<lambda>x.
      sbind (smodify (on_mem (add_known C x))) (\<lambda>_. sret x)))) (\<lambda>x.
     sbind (smodify (\<lambda>v. on_repo (set_node_tip C (id_node C (va_identity v)) x) v)) (\<lambda>_.
     sbind (recompute_and_materialize C J) (\<lambda>_.
     sbind (save_state J) (\<lambda>_.
       sret (Some x))))))"
  unfolding vault_publish_def by (intro ext) (simp add: sbind_def split: prod.split sum.split)

lemma vault_publish_keeps: "keeps (vault_le C) (vault_publish C J wall parent filtered readds)"
proof -
  have "keeps (vault_le C) (smodify (\<lambda>v. on_repo (set_node_tip C (id_node C (va_identity v)) x) v))" for x
    by (intro vault_smodify vault_on_repo) (simp_all add: main_after)
  then show ?thesis
    unfolding vault_publish_assoc
    by (intro vault_rules vault_write_tree_keeps vault_authored vault_recompute vault_save_state)
qed

lemma keeps_cond: "keeps R a \<Longrightarrow> keeps R b \<Longrightarrow> keeps R (\<lambda>v. if P v then a v else b v)"
  by (simp add: keeps_def)

lemma vault_commit_onto_keeps: "keeps (vault_le C) (vault_commit_onto C J now wall files parent)"
proof -
  have "keeps (vault_le C) (\<lambda>v. if \<not> genuine_change C (es_materialized (va_state v)) filtered
       then sbind (if qs \<noteq> [] then save_state J else sret ()) (\<lambda>_. sret None) v
       else vault_publish C J wall parent filtered readds v)" for filtered qs readds
  proof -
    have "keeps (vault_le C) (sbind (if qs \<noteq> [] then save_state J else sret ()) (\<lambda>_. sret None))"
      by (auto intro!: vault_rules vault_save_state)
    then show ?thesis by (rule keeps_cond) (rule vault_publish_keeps)
  qed
  then have "keeps (vault_le C) (sbind (smodify (\<lambda>v. foldl move_quarantine v qs)) (\<lambda>_. \<lambda>v.
       if \<not> genuine_change C (es_materialized (va_state v)) filtered
       then sbind (if qs \<noteq> [] then save_state J else sret ()) (\<lambda>_. sret None) v
       else vault_publish C J wall parent filtered readds v))" for filtered qs readds
    by (intro vault_rules vault_smodify vault_foldl vault_move_quarantine)
  then show ?thesis
    unfolding vault_commit_onto_def by (intro vault_rules) (simp only: case_prod_beta)
qed

lemma keeps_unwrap: "keeps R m \<Longrightarrow> keeps R (unwrap m)"
  by (auto simp: keeps_def unwrap_def split: prod.splits sum.splits) (metis fst_conv)+

lemma vault_commit_keeps: "keeps (vault_le C) (commit_local_changes C J now wall)"
proof -
  have base: "keeps (vault_le C) (sbind (case main of Some m \<Rightarrow> sret m | None \<Rightarrow> on_git (unwrap (genesis C (disk_ops C))))
      (vault_commit_onto C J now wall files))" for main files
    by (cases main) (auto intro!: vault_rules vault_commit_onto_keeps vault_on_git keeps_unwrap dskK.keeps_genesis)
  show ?thesis
    unfolding keeps_def
  proof
    fix v
    show "vault_le C v (fst (commit_local_changes C J now wall v))"
      using vault_le_step [OF vault_refresh [of C v] keepsD [OF base]] vault_le_same [of C v]
      by (simp add: commit_local_changes_def Let_def)
  qed
qed

lemma keeps_vault_put_raws: "keeps (dskK.grows C X R) (vault_put_raws C raws)"
  unfolding vault_put_raws_def by (intro dskK.grow_rules dskK.keeps_put_raw)

lemma keeps_vault_any_rejected: "keeps (dskK.grows C X R) (vault_any_rejected C raws)"
proof (induction raws)
  case Nil
  show ?case unfolding vault_any_rejected.simps by (rule dskK.grow_rules)
next
  case (Cons raw raws)
  have "keeps (dskK.grows C X R) (sbind (rejected (verify_fold_commit C (disk_ops C) x))
      (\<lambda>bad. if bad then sret True else vault_any_rejected C raws))" for x
    by (intro dskK.grow_rules keeps_rejected dskK.keeps_verify) (simp add: Cons dskK.grow_rules)
  then show ?case using Cons by (auto split: option.splits)
qed

text \<open>The objects of a batch are stored before it is admitted.\<close>

lemma vault_raws_stored:
  assumes "vault_put_raws C raws d = (d', Ok ())" and "disk_inv C d"
  shows "\<forall>raw \<in> set raws. \<exists>ob. decompress_and_parse C raw = Ok ob \<and> disk_has C d' (oid_of C ob)"
  using assms
proof (induction raws arbitrary: d)
  case (Cons raw raws)
  from Cons.prems(1) obtain u x where put: "put_raw C (disk_ops C) raw d = (u, Ok x)"
    and rest: "vault_put_raws C raws u = (d', Ok ())" by (auto simp: vault_put_raws_def sbind_Ok_iff)
  then obtain ob where ob: "decompress_and_parse C raw = Ok ob" and "disk_put C ob d = (u, Ok x)"
    by (auto simp: put_raw_def sbind_Ok_iff)
  then have "disk_has C u (oid_of C ob)" "disk_inv C u"
    using dsk.has_put [OF Cons.prems(2), of ob] dsk.put_inv [OF Cons.prems(2), of ob] by simp_all
  moreover have "disk_le C u d'" using keepsD2 [OF writes_objects(1) [OF keeps_vault_put_raws] rest] .
  ultimately show ?case using Cons.IH [OF rest] ob by (auto simp: disk_le_def)
qed simp

lemma admit_all_observed: "foldl (admit_raw C) (st, n) raws = (st', n') \<Longrightarrow> es_observed st \<le> es_observed st'"
proof (induction raws arbitrary: st n)
  case (Cons raw raws)
  obtain st1 n1 where one: "admit_raw C (st, n) raw = (st1, n1)" by fastforce
  have "es_observed st \<le> es_observed st1"
    by (cases rule: admit_raw_cases [of C st n raw]) (use one in auto)
  with Cons.IH [of st1 n1] Cons.prems one show ?case by simp
qed simp

lemma admit_all_wf: "foldl (admit_raw C) (st, n) raws = (st', n') \<Longrightarrow> known_wf C st \<Longrightarrow> known_wf C st'"
proof (induction raws arbitrary: st n)
  case (Cons raw raws)
  obtain st1 n1 where one: "admit_raw C (st, n) raw = (st1, n1)" by fastforce
  have cong: "known_wf C (observe k s) = known_wf C s" for k s by (rule known_wf_cong) simp
  have "known_wf C st1"
    by (cases rule: admit_raw_cases [of C st n raw]) (use one Cons.prems(2) in \<open>auto simp: known_wf_add cong\<close>)
  with Cons.IH [of st1 n1] Cons.prems one show ?case by simp
qed simp

lemma vault_admit_batch:
  assumes "foldl (admit_raw C) (va_state v, n) raws = (st, k)"
    and "crate_laws C \<Longrightarrow> \<forall>raw \<in> set raws. \<exists>ob. decompress_and_parse C raw = Ok ob \<and> disk_has C (va_git v) (oid_of C ob)"
  shows "vault_le C v (v\<lparr>va_state := st\<rparr>)"
proof -
  note all = admit_all [OF assms(1)]
  have "vault_inv C (v\<lparr>va_state := st\<rparr>)" if laws: "crate_laws C" and inv: "vault_inv C v"
  proof -
    have "disk_has C (va_git v) (oid_of C (Commit c))" if "c \<in> signed_in C raws" for c
    proof -
      from that obtain raw where raw: "raw \<in> set raws" "raw_commit C raw = Some c" by (auto simp: signed_in_def)
      then have "decompress_and_parse C raw = Ok (Commit c)"
        by (simp add: raw_commit_def split: sum.splits git_object.splits)
      with raw(1) assms(2) [OF laws] show ?thesis by auto
    qed
    moreover have "\<exists>node. verify_primitive C c = Ok node" if "c \<in> signed_in C raws" for c
      using that by (auto simp: signed_in_def is_ok_iff)
    ultimately have "\<exists>c node. h = to_hex C (oid_of C (Commit c)) \<and> verify_primitive C c = Ok node
        \<and> disk_has C (va_git v) (oid_of C (Commit c))" if "h \<in> set (es_known st)" for h
      using that inv all unfolding vault_inv_def commit_hex_def by blast
    with inv admit_all_wf [OF assms(1)] show ?thesis by (simp add: vault_inv_def)
  qed
  with all admit_all_observed [OF assms(1)] reflpD [OF keeps_type_refl] show ?thesis
    by (auto simp: vault_le_def disk_le_refl)
qed

text \<open>The second half of an integration, once the objects are stored.\<close>

lemma vault_integrate_rest:
  assumes put: "vault_put_raws C raws (va_git v) = (va_git u, Ok ())"
  shows "vault_le C u (fst (sbind (on_git (vault_any_rejected C raws)) (\<lambda>bad. if bad then sret 0
       else sbind (\<lambda>v. case foldl (admit_raw C) (va_state v, 0) raws of
             (st, admitted) \<Rightarrow> (v\<lparr>va_state := st\<rparr>, Ok admitted)) (\<lambda>admitted.
         sbind (if admitted > 0 then recompute_and_materialize C J else sret ()) (\<lambda>_.
         sbind (save_state J) (\<lambda>_. sret admitted)))) u))"
proof -
  have rejected: "keeps (vault_le C) (on_git (vault_any_rejected C raws))"
    by (intro vault_on_git keeps_vault_any_rejected)
  obtain d r where run: "vault_any_rejected C raws (va_git u) = (d, r)" by fastforce
  define w where "w = u\<lparr>va_git := d\<rparr>"
  have on: "on_git (vault_any_rejected C raws) u = (w, r)" by (simp add: on_git_def run w_def)
  have uw: "vault_le C u w" using keepsD2 [OF rejected on] .
  have stored: "\<forall>raw \<in> set raws. \<exists>ob. decompress_and_parse C raw = Ok ob \<and> disk_has C (va_git w) (oid_of C ob)"
    if "crate_laws C"
  proof -
    have "disk_le C (va_git u) (va_git w)" using uw by (simp add: vault_le_def)
    with vault_raws_stored [OF put crate_disk_inv [OF that]] crate_disk_inv [OF that, of "va_git u"]
    show ?thesis unfolding disk_le_def by blast
  qed
  obtain st n where adm: "foldl (admit_raw C) (va_state w, 0) raws = (st, n)" by fastforce
  have "keeps (vault_le C) (if k > 0 then recompute_and_materialize C J else sret ())" for k :: nat
    by (simp add: vault_recompute vault_rules)
  then have "keeps (vault_le C) (sbind (if k > 0 then recompute_and_materialize C J else sret ()) (\<lambda>_.
      sbind (save_state J) (\<lambda>_. sret k)))" for k :: nat
    by (intro vault_rules vault_save_state)
  from keepsD [OF this] vault_admit_batch [OF adm stored] vault_le_step
  have "vault_le C w (fst (sbind (\<lambda>v. case foldl (admit_raw C) (va_state v, 0) raws of
             (st, admitted) \<Rightarrow> (v\<lparr>va_state := st\<rparr>, Ok admitted)) (\<lambda>admitted.
         sbind (if admitted > 0 then recompute_and_materialize C J else sret ()) (\<lambda>_.
         sbind (save_state J) (\<lambda>_. sret admitted))) w))"
    by (simp add: sbind_def [of "\<lambda>v. case foldl (admit_raw C) (va_state v, 0) raws of
             (st, admitted) \<Rightarrow> (v\<lparr>va_state := st\<rparr>, Ok admitted)"] adm split del: if_split)
  with vault_le_step [OF uw] uw on
  show ?thesis
    by (cases r) (simp_all add: sbind_def [of "on_git (vault_any_rejected C raws)"] on split del: if_split, simp)
qed

lemma vault_integrate_keeps: "keeps (vault_le C) (vault_integrate C J raws)"
  unfolding vault_integrate_def
proof (rule vault_sbind)
  show "keeps (vault_le C) (on_git (vault_put_raws C raws))" by (intro vault_on_git keeps_vault_put_raws)
  fix v u :: vault and x
  assume "on_git (vault_put_raws C raws) v = (u, Ok x)"
  then have "vault_put_raws C raws (va_git v) = (va_git u, Ok ())"
    by (auto simp: on_git_def split: prod.splits)
  then show "vault_le C u (fst (sbind (on_git (vault_any_rejected C raws)) (\<lambda>bad. if bad then sret 0
       else sbind (\<lambda>v. case foldl (admit_raw C) (va_state v, 0) raws of
             (st, admitted) \<Rightarrow> (v\<lparr>va_state := st\<rparr>, Ok admitted)) (\<lambda>admitted.
         sbind (if admitted > 0 then recompute_and_materialize C J else sret ()) (\<lambda>_.
         sbind (save_state J) (\<lambda>_. sret admitted)))) u))"
    by (rule vault_integrate_rest)
qed

lemma vault_integrate_stored:
  assumes "vault_integrate C J raws v = (v', Ok n)"
  obtains d where "vault_put_raws C raws (va_git v) = (d, Ok ())" and "disk_le C d (va_git v')"
proof -
  obtain d r where d: "vault_put_raws C raws (va_git v) = (d, r)" by fastforce
  with assms have r: "r = Ok ()"
    by (cases r) (simp_all add: vault_integrate_def sbind_def on_git_def)
  define u where "u = v\<lparr>va_git := d\<rparr>"
  have "vault_put_raws C raws (va_git v) = (va_git u, Ok ())" using d r by (simp add: u_def)
  note rest = vault_integrate_rest [OF this, of J]
  have on: "on_git (vault_put_raws C raws) v = (u, Ok ())" using d r by (simp add: on_git_def u_def)
  have "vault_le C u v'"
    using rest assms
    by (simp add: vault_integrate_def sbind_def [of "on_git (vault_put_raws C raws)"] on split del: if_split)
  with d r show thesis by (intro that [of d]) (simp_all add: vault_le_def u_def)
qed

text \<open>A received object is stored whether or not its signature verifies, unless another one has its id.\<close>

lemma vault_raws_read:
  assumes "vault_put_raws C raws d = (d', Ok ())" and "disk_inv C d" and "raw \<in> set raws"
    and "decompress_and_parse C raw = Ok ob" and "\<not> disk_has C d (oid_of C ob)"
    and "inj_on (oid_of C) {ob. \<exists>raw \<in> set raws. decompress_and_parse C raw = Ok ob}"
    and "parse_framed C (framed C ob) = Ok ob'"
  shows "disk_get C d' (oid_of C ob) = Ok ob'"
  using assms
proof (induction raws arbitrary: d)
  case (Cons r raws)
  from Cons.prems(1) obtain u x where put: "put_raw C (disk_ops C) r d = (u, Ok x)"
    and rest: "vault_put_raws C raws u = (d', Ok ())" by (auto simp: vault_put_raws_def sbind_Ok_iff)
  then obtain o' where o': "decompress_and_parse C r = Ok o'" and u: "disk_put C o' d = (u, Ok x)"
    by (auto simp: put_raw_def sbind_Ok_iff)
  have inv: "disk_inv C u" using dsk.put_inv [OF Cons.prems(2), of o'] u by simp
  have le: "disk_le C u d'" using keepsD2 [OF writes_objects(1) [OF keeps_vault_put_raws] rest] .
  show ?case
  proof (cases "o' = ob")
    case True
    then have "disk_get C u (oid_of C ob) = Ok ob'"
      using dsk.put_new [OF Cons.prems(2), of ob] Cons.prems(5,7) u by simp
    with le inv show ?thesis by (simp add: disk_le_def get_le_def)
  next
    case False
    with Cons.prems(3,4) o' have "raw \<in> set raws" by auto
    have "oid_of C o' \<noteq> oid_of C ob"
      using inj_onD [OF Cons.prems(6), of o' ob] o' Cons.prems(3,4) False by auto
    then have "\<not> disk_has C u (oid_of C ob)"
      using dsk.has_put [OF Cons.prems(2), of o' "oid_of C ob"] u Cons.prems(5) by simp
    moreover have "inj_on (oid_of C) {ob. \<exists>raw \<in> set raws. decompress_and_parse C raw = Ok ob}"
      by (rule inj_on_subset [OF Cons.prems(6)]) auto
    ultimately show ?thesis using Cons.IH [OF rest inv \<open>raw \<in> set raws\<close> Cons.prems(4)] Cons.prems(7) by blast
  qed
qed simp

text \<open>Authorization touches files only.\<close>

lemma vault_with_entries:
  assumes "\<And>entries. keeps keeps_type (f entries)"
  shows "keeps (vault_le C) (with_entries D f)"
proof -
  have "keeps keeps_type (\<lambda>t. f (g t) t)" for g using assms by (simp add: keeps_def)
  then show ?thesis
    unfolding with_entries_def with_authorized_lock_def by (intro vault_on_fs typed_with_lock)
qed

lemma typed_write_authorized: "keeps keeps_type (write_authorized_atomic s)"
  unfolding write_authorized_atomic_def by (rule typed_write_atomic)

lemma vault_authorize_keeps: "keeps (vault_le C) (vault_authorize_with_expiry C line ex)"
  unfolding vault_authorize_with_expiry_def
  by (rule vault_with_entries) (auto simp: Let_def typed_write_authorized type_rules split: option.split)

lemma vault_revoke_keeps: "keeps (vault_le C) (revoke C line)"
  unfolding revoke_def by (intro vault_with_entries typed_write_authorized)

lemma vault_rewrite_keeps: "keeps (vault_le C) (rewrite_entries C P ex)"
  unfolding rewrite_entries_def
  by (rule vault_with_entries) (auto simp: Let_def typed_write_authorized type_rules)

lemma vault_migrate_keeps: "keeps (vault_le C) (migrate_default_expiry C now)"
  using keepsD [OF vault_rewrite_keeps] vault_le_same by (simp add: keeps_def migrate_default_expiry_def Let_def)

lemma vault_admit_keeps: "keeps (vault_le C) (vault_admit_peer C now line flag)"
proof -
  let ?f = "\<lambda>v node entries.
      let entry = parse_line C (build_line line (enroll_expiry now (vault_default_ttl_days v)));
          put = (\<lambda>es. sbind (write_authorized_atomic (serialize es)) (\<lambda>_. sret True))
      in case position (\<lambda>k. ke_node k = Some node) entries of
           Some i \<Rightarrow> if is_valid (ke_expiry (entries ! i)) now then sret True
             else if flag then put (entries[i := entry]) else sret False
         | None \<Rightarrow> if flag then put (entries @ [entry])
             else if \<not> list_ex (\<lambda>k. ke_node k \<noteq> None) entries \<and> \<not> vc_no_tofu (va_config v) \<and> vc_auth_keys (va_config v) = []
             then put (entries @ [entry]) else sret False"
  have "keeps (vault_le C) (with_entries C (?f v node))" for v node
    by (rule vault_with_entries)
      (auto simp: Let_def typed_write_authorized type_rules split: option.split)
  from keepsD [OF this] vault_le_same show ?thesis
    by (simp add: keeps_def vault_admit_peer_def split: option.split)
qed

lemma vault_snapshot_keeps: "keeps (vault_le C) (vault_snapshot C J now name)"
proof -
  have "keeps (vault_le C) (smodify (on_mem (\<lambda>st. st\<lparr>es_snapshots := f (es_snapshots st)\<rparr>)))" for f
    by (intro vault_on_mem) simp_all
  moreover have "keeps (vault_le C) (smodify (on_repo (set_snapshot C name m)))" for m
    by (intro vault_on_repo) (simp_all add: main_after)
  ultimately show ?thesis
    unfolding vault_snapshot_def by (intro vault_rules vault_save_state)
qed

lemma vault_restore_file: "keeps (vault_le C) (restore_file pc)"
proof -
  have "keeps (vault_le C) (smodify (on_mem (\<lambda>st. st\<lparr>es_materialized := bt_remove p (es_materialized st)\<rparr>)))" for p
    by (intro vault_on_mem) (simp_all add: bt_wf_remove)
  then show ?thesis
    by (cases pc) (simp only: restore_file_def prod.case, intro vault_rules vault_on_fs typed_create_dir_all typed_fs_write)
qed

lemma vault_apply_restore: "keeps (vault_le C) (apply_restore C J now wall tree)"
proof -
  have "vault_le C v (v\<lparr>va_fs := prune_empty_dirs (parent_path p) (remove_file p (va_fs v))\<rparr>)" for v p
    using typed_remove_file typed_prune transpD [OF keeps_type_trans] by (intro vault_fs) blast
  then show ?thesis
    unfolding apply_restore_def
    by (intro vault_rules vault_restore_file vault_smodify vault_foldl vault_commit_keeps) (simp add: vault_le_same)
qed

lemma vault_restore_keeps:
  "keeps (vault_le C) (vault_restore_snapshot C J now wall name)"
  "keeps (vault_le C) (vault_restore_time C J now wall t)"
  unfolding vault_restore_snapshot_def vault_restore_time_def fold_over_subset_def
  by (intro vault_rules vault_on_git dskK.keeps_compute_main vault_apply_restore)+

lemma vault_bootstrap_keeps:
  "keeps (vault_le C) (vault_mark_bootstrap_pending J)" "vault_le C v (vault_mark_bootstrap_complete J v)"
proof -
  have flag: "vault_le C w (on_mem (\<lambda>st. st\<lparr>es_bootstrap_pending := b\<rparr>) w)" for w b by (intro vault_on_mem) simp_all
  then show "keeps (vault_le C) (vault_mark_bootstrap_pending J)"
    unfolding vault_mark_bootstrap_pending_def by (intro vault_rules vault_smodify vault_save_state)
  show "vault_le C v (vault_mark_bootstrap_complete J v)"
    using vault_le_step [OF flag [of v False] keepsD [OF vault_save_state]] vault_le_same [of C v]
    by (simp add: vault_mark_bootstrap_complete_def)
qed

lemma vault_config_keeps:
  "keeps (vault_le C) (set_name name)" "keeps (vault_le C) (add_include_pattern pat)" "keeps (vault_le C) (add_ignore_pattern pat)"
proof -
  have other: "vault_le C v (v\<lparr>va_config := c\<rparr>)" for v c by (rule vault_other) simp_all
  show "keeps (vault_le C) (set_name name)"
    using vault_le_step [OF other keepsD [OF vault_save_config]] vault_le_same
    by (simp add: keeps_def set_name_def)
  have "keeps (vault_le C) (sbind save_config (\<lambda>_. smodify refresh_scope))"
    by (intro vault_rules vault_save_config vault_smodify vault_refresh)
  from vault_le_step [OF other keepsD [OF this]] vault_le_same
  show "keeps (vault_le C) (add_include_pattern pat)" by (simp add: keeps_def add_include_pattern_def)
  show "keeps (vault_le C) (add_ignore_pattern pat)"
    unfolding add_ignore_pattern_def Let_def
    by (intro vault_rules vault_on_fs typed_fs_write vault_smodify vault_refresh)
qed

section \<open>Any sequence of calls\<close>

text \<open>One call on a vault, with any arguments and whatever it returns, or a change of the files by the user.\<close>

inductive vault_step :: "crates \<Rightarrow> codec \<Rightarrow> vault \<Rightarrow> vault \<Rightarrow> bool" for C J where
  edit: "fs_typed t \<Longrightarrow> vault_step C J v (v\<lparr>va_fs := t\<rparr>)"
| commit: "vault_step C J v (fst (commit_local_changes C J now wall v))"
| integrate: "vault_step C J v (fst (vault_integrate C J raws v))"
| materialize: "vault_step C J v (fst (vault_materialize C J v))"
| pending: "vault_step C J v (fst (vault_mark_bootstrap_pending J v))"
| complete: "vault_step C J v (vault_mark_bootstrap_complete J v)"
| authorize: "vault_step C J v (fst (vault_authorize_with_expiry C line ex v))"
| revoke: "vault_step C J v (fst (revoke C line v))"
| extend: "vault_step C J v (fst (extend_expiry C now needle days v))"
| migrate: "vault_step C J v (fst (migrate_default_expiry C now v))"
| admit: "vault_step C J v (fst (vault_admit_peer C now line flag v))"
| snapshot: "vault_step C J v (fst (vault_snapshot C J now name v))"
| restore: "vault_step C J v (fst (vault_restore_snapshot C J now wall name v))"
| restore_to: "vault_step C J v (fst (vault_restore_time C J now wall t v))"
| rename: "vault_step C J v (fst (set_name name v))"
| add_include: "vault_step C J v (fst (add_include_pattern pat v))"
| add_ignore: "vault_step C J v (fst (add_ignore_pattern pat v))"

lemma vault_step_le: "vault_step C J v v' \<Longrightarrow> vault_le C v v'"
proof (induction rule: vault_step.induct)
  case (edit t v)
  then show ?case by (intro vault_fs) (simp add: keeps_type_def)
next
  case (extend v now needle days)
  show ?case unfolding extend_expiry_def by (rule keepsD [OF vault_rewrite_keeps])
qed (rule keepsD [OF vault_commit_keeps] keepsD [OF vault_integrate_keeps] keepsD [OF vault_materialize_keeps]
  keepsD [OF vault_bootstrap_keeps(1)] vault_bootstrap_keeps(2) keepsD [OF vault_authorize_keeps]
  keepsD [OF vault_revoke_keeps] keepsD [OF vault_migrate_keeps] keepsD [OF vault_admit_keeps]
  keepsD [OF vault_snapshot_keeps] keepsD [OF vault_restore_keeps(1)] keepsD [OF vault_restore_keeps(2)]
  keepsD [OF vault_config_keeps(1)] keepsD [OF vault_config_keeps(2)] keepsD [OF vault_config_keeps(3)])+

lemma vault_steps_le: "(vault_step C J)\<^sup>*\<^sup>* v v' \<Longrightarrow> vault_le C v v'"
proof (induction rule: rtranclp_induct)
  case base
  show ?case by (rule vault_le_same)
next
  case (step u w)
  from step.IH vault_step_le [OF step.hyps(2)] show ?case by (rule vault_le_step)
qed

section \<open>Created and opened vaults\<close>

lemma typed_on_fst: "keeps keeps_type m \<Longrightarrow> keeps (\<lambda>a b. keeps_type (fst a) (fst b)) (on_fst m)"
  by (auto simp: keeps_def on_fst_def split: prod.split) (metis fst_conv)

lemma on_fst_Ok: "on_fst m a = (b, Ok x) \<Longrightarrow> m (fst a) = (fst b, Ok x) \<and> snd b = snd a"
  by (auto simp: on_fst_def split: prod.splits)

lemma vault_create_Ok:
  assumes "vault_create C J root ident vault_id (t0, d0) = (s, Ok v)"
  obtains t1 t2 t3 d m where "create_dir_all CONTEXT_DIR t0 = (t1, Ok ())"
    and "genesis C (disk_ops C) (repo_init root d0) = (d, Ok m)"
    and "config_save (new_config vault_id) t1 = (t2, Ok ())"
    and "state_save J (default_state\<lparr>es_vault_id := vault_id\<rparr>) t2 = (t3, Ok ())"
    and "(if is_file t3 AUTHORIZED_KEYS \<or> is_dir t3 AUTHORIZED_KEYS then (t3, Ok ()) else fs_write AUTHORIZED_KEYS [] t3)
        = (va_fs v, Ok ())"
    and "v = \<lparr>va_fs = va_fs v, va_git = set_main C m d, va_state = default_state\<lparr>es_vault_id := vault_id\<rparr>,
        va_scope = rebuild_scope (new_config vault_id) [], va_identity = ident, va_config = new_config vault_id\<rparr>"
    and "s = (va_fs v, va_git v)"
proof -
  obtain d r where d: "genesis C (disk_ops C) (repo_init root d0) = (d, r)" by fastforce
  have "\<exists>t1 t2 t3 m. create_dir_all CONTEXT_DIR t0 = (t1, Ok ()) \<and> r = Ok m
    \<and> config_save (new_config vault_id) t1 = (t2, Ok ())
    \<and> state_save J (default_state\<lparr>es_vault_id := vault_id\<rparr>) t2 = (t3, Ok ())
    \<and> (if is_file t3 AUTHORIZED_KEYS \<or> is_dir t3 AUTHORIZED_KEYS then (t3, Ok ()) else fs_write AUTHORIZED_KEYS [] t3)
        = (va_fs v, Ok ())
    \<and> v = \<lparr>va_fs = va_fs v, va_git = set_main C m d, va_state = default_state\<lparr>es_vault_id := vault_id\<rparr>,
        va_scope = rebuild_scope (new_config vault_id) [], va_identity = ident, va_config = new_config vault_id\<rparr>
    \<and> s = (va_fs v, va_git v)"
    using assms
    by (auto simp: vault_create_def Let_def sbind_Ok_iff d dest!: on_fst_Ok cong: if_cong split del: if_split)
  with d that show thesis by blast
qed

lemma vault_created:
  assumes "vault_create C J root ident vault_id (t0, d0) = (s, Ok v)"
  shows "crate_laws C \<Longrightarrow> vault_inv C v" and "fs_typed t0 \<Longrightarrow> fs_typed (va_fs v)"
    and "bt_wf (es_materialized (va_state v))"
proof -
  obtain t1 t2 t3 d m where t1: "create_dir_all CONTEXT_DIR t0 = (t1, Ok ())"
    and m: "genesis C (disk_ops C) (repo_init root d0) = (d, Ok m)"
    and t2: "config_save (new_config vault_id) t1 = (t2, Ok ())"
    and t3: "state_save J (default_state\<lparr>es_vault_id := vault_id\<rparr>) t2 = (t3, Ok ())"
    and keys: "(if is_file t3 AUTHORIZED_KEYS \<or> is_dir t3 AUTHORIZED_KEYS then (t3, Ok ()) else fs_write AUTHORIZED_KEYS [] t3)
        = (va_fs v, Ok ())"
    and v: "v = \<lparr>va_fs = va_fs v, va_git = set_main C m d, va_state = default_state\<lparr>es_vault_id := vault_id\<rparr>,
        va_scope = rebuild_scope (new_config vault_id) [], va_identity = ident, va_config = new_config vault_id\<rparr>"
    by (rule vault_create_Ok [OF assms])
  from v have sel: "va_git v = set_main C m d" "va_state v = default_state\<lparr>es_vault_id := vault_id\<rparr>"
    by (metis vault.select_convs)+
  have "vault_inv C v" if laws: "crate_laws C"
  proof -
    have "disk_has C d m" using dskE.genesis_stored [OF m crate_disk_inv [OF laws]] by simp
    moreover have "repo_main C (set_main C m d) = Some m" using laws by (intro main_after) (simp add: crate_laws_def)
    ultimately show ?thesis by (simp add: vault_inv_def sel known_wf_def default_state_def)
  qed
  then show "crate_laws C \<Longrightarrow> vault_inv C v" .
  show "bt_wf (es_materialized (va_state v))" by (simp add: sel default_state_def)
  have "keeps_type t0 t1" "keeps_type t1 t2" "keeps_type t2 t3"
    using keepsD2 [OF typed_create_dir_all t1] keepsD2 [OF typed_fs_write, of CONFIG_FILE _ t1 t2] t2
      keepsD2 [OF typed_state_save t3] by (simp_all add: config_save_def)
  moreover have "keeps_type t3 (va_fs v)"
    using keys keepsD2 [OF typed_fs_write, of AUTHORIZED_KEYS _ t3 "va_fs v"]
    by (auto simp: keeps_type_def split: if_split_asm)
  ultimately show "fs_typed t0 \<Longrightarrow> fs_typed (va_fs v)" by (simp add: keeps_type_def)
qed

text \<open>What opening adds to the known ids: the primitives of the listing, signed or not.\<close>

lemma take_in_known: "set (es_known (foldl (take_in C d) st xs)) = set (es_known st) \<union> to_hex C ` set xs"
proof (induction xs arbitrary: st)
  case (Cons x xs)
  have "set (es_known (take_in C d st x)) = insert (to_hex C x) (set (es_known st))"
    by (simp add: take_in_def Let_def split: sum.splits git_object.splits option.splits)
  with Cons show ?case by auto
qed simp

lemma vault_open_Ok:
  assumes "vault_open C J listing ident (t, d) = (s, Ok v)"
  obtains config st where "config_load t = Ok config" and "state_load J t = Ok st"
    and "va_state v = foldl (take_in C d) st (scan_primitives C listing d)" and "va_git v = d"
    and "state_save J (va_state v) t = (va_fs v, Ok ())" and "s = (va_fs v, d)"
    and "va_config v = config" and "va_identity v = ident" and "''objects'' \<in> d_dirs d"
  using assms
  by (auto simp: vault_open_def sbind_Ok_iff repo_open_def disk_open_def res_simps dest!: on_fst_Ok split: prod.splits if_split_asm)

section \<open>The vault under a session\<close>

interpretation disk_vault: session_vault "disk_vault_ops C J now" "vault_le C"
  for C J now
proof
  show "reflp (vault_le C)" by (rule vault_le_refl)
  show "transp (vault_le C)" by (rule vault_le_trans)
  show "keeps (vault_le C) (vo_integrate (disk_vault_ops C J now) raws)" for raws
    by (simp add: disk_vault_ops_def vault_integrate_keeps)
  show "keeps (vault_le C) (vo_admit_peer (disk_vault_ops C J now) peer flag)" for peer flag
    by (simp add: disk_vault_ops_def vault_admit_keeps)
  show "vault_le C v (vo_mark_bootstrap_complete (disk_vault_ops C J now) v)" for v
    by (simp add: disk_vault_ops_def vault_bootstrap_keeps)
qed

end
