(* ===== verification/Vault_Materialize.thy ===== *)
theory Vault_Materialize
  imports Vault_Facts Materialize_Facts
begin

text \<open>
  Materializing on disk, path by path: the walk over the recorded paths and over main's files does to each path
  what the contract of a materialize plan asks for, apart from the temporary names it goes through.
\<close>

section \<open>One path of a vault\<close>

text \<open>The bytes on disk and the recorded hash of a path.\<close>

definition path_view :: "vault \<Rightarrow> string \<Rightarrow> bytes option \<times> string option" where
  "path_view v q = (fs_get (va_fs v) q, bt_get (es_materialized (va_state v)) q)"

definition settled :: "crates \<Rightarrow> bytes option \<times> string option \<Rightarrow> bytes option \<Rightarrow> bytes option \<times> string option" where
  "settled C mr theirs = (reconciled C (fst mr) theirs (snd mr), recorded C (fst mr) theirs (snd mr))"

abbreviation ctx_tmp :: "string \<Rightarrow> string" where
  "ctx_tmp p \<equiv> with_extension ''ctx-tmp'' p"

lemma remove_stale_view:
  "path_view (remove_stale C want v p) q =
     (if q = p \<and> bt_get want p = None then settled C (path_view v p) None else path_view v q)"
proof (cases "bt_contains want p")
  case True
  then have "bt_get want p \<noteq> None" by (simp add: bt_contains_get)
  with True show ?thesis by (auto simp: remove_stale_def)
next
  case False
  then have "bt_get want p = None" by (simp add: bt_contains_get)
  then show ?thesis
    using False
    by (auto simp: remove_stale_def Let_def path_view_def settled_def on_mem_def bt_simps remove_file_def
        reconciled_def recorded_def split: option.split)
qed

lemma removed_view:
  assumes "distinct ks"
  shows "path_view (foldl (remove_stale C want) v ks) q =
    (if q \<in> set ks \<and> bt_get want q = None then settled C (path_view v q) None else path_view v q)"
  using assms
proof (induction ks arbitrary: v)
  case (Cons k ks)
  then show ?case by (auto simp: remove_stale_view)
qed simp

lemma record_hash_view:
  "path_view (record_hash C p c v) q = (if q = p then (fst (path_view v q), Some (blob_hash C c)) else path_view v q)"
  by (simp add: path_view_def record_hash_def on_mem_def bt_simps)

lemma place_file_view:
  assumes "place_file C p c v = (v', Ok ())" and "q \<noteq> ctx_tmp p"
  shows "path_view v' q = (if q = p then (Some c, Some (blob_hash C c)) else path_view v q)"
proof -
  obtain t u where t: "create_dir_all (parent_path p) (va_fs v) = (t, Ok ())"
    and u: "write_atomic (ctx_tmp p) p c t = (u, Ok ())" and v': "v' = record_hash C p c (v\<lparr>va_fs := u\<rparr>)"
    using assms(1) by (auto simp: place_file_def sbind_Ok_iff on_fs_def split: prod.splits)
  have "fs_files t = fs_files (va_fs v)" using t by (auto simp: create_dir_all_def split: if_splits)
  then show ?thesis
    unfolding v' record_hash_view using write_atomic_Ok [OF u] assms(2) by (simp add: path_view_def)
qed

lemma materialize_path_view:
  assumes "materialize_path C (p, c) v = (v', Ok ())" and "q \<noteq> ctx_tmp p"
  shows "path_view v' q = (if q = p then settled C (path_view v p) (Some c) else path_view v q)"
proof (cases "fs_get (va_fs v) p")
  case None
  with assms(1) have "place_file C p c v = (v', Ok ())" by (simp add: materialize_path_def)
  from place_file_view [OF this assms(2)] None show ?thesis
    by (simp add: settled_def reconciled_def recorded_def contended_def path_view_def)
next
  case (Some d)
  let ?seen = "bt_get (es_materialized (va_state v)) p"
  consider (pending) "Some (blob_hash C d) \<noteq> ?seen" "d \<noteq> c" | (same) "d = c" | (place) "Some (blob_hash C d) = ?seen" "d \<noteq> c"
    by blast
  then show ?thesis
  proof cases
    case pending
    then have "v' = v" using assms(1) Some by (simp add: materialize_path_def)
    with pending Some show ?thesis
      by (auto simp: settled_def reconciled_def recorded_def contended_def path_view_def)
  next
    case same
    then have "v' = record_hash C p c v" using assms(1) Some by (simp add: materialize_path_def)
    with same Some show ?thesis
      using record_hash_view [of C p c v q]
      by (simp add: settled_def reconciled_def recorded_def contended_def) (simp add: path_view_def)
  next
    case place
    then have "place_file C p c v = (v', Ok ())" using assms(1) Some by (simp add: materialize_path_def)
    from place_file_view [OF this assms(2)] place Some show ?thesis
      by (auto simp: settled_def reconciled_def recorded_def contended_def path_view_def)
  qed
qed

lemma written_view:
  assumes "smapM (materialize_path C) m v = (v', Ok ())" and "distinct (map fst m)" and "q \<notin> ctx_tmp ` set (map fst m)"
  shows "path_view v' q = (case map_of m q of None \<Rightarrow> path_view v q | Some c \<Rightarrow> settled C (path_view v q) (Some c))"
  using assms
proof (induction m arbitrary: v)
  case (Cons pc m)
  obtain p c where pc: "pc = (p, c)" by fastforce
  from Cons.prems(1) obtain u where u: "materialize_path C (p, c) v = (u, Ok ())"
    and rest: "smapM (materialize_path C) m u = (v', Ok ())" unfolding pc smapM_Ok_Cons by blast
  have "q \<noteq> ctx_tmp p" using Cons.prems(3) pc by simp
  note one = materialize_path_view [OF u this]
  have "path_view v' q = (case map_of m q of None \<Rightarrow> path_view u q | Some c \<Rightarrow> settled C (path_view u q) (Some c))"
    using Cons.IH [OF rest] Cons.prems(2,3) by simp
  with one pc Cons.prems(2) show ?case
    by (cases "q = p") (simp_all add: map_of_eq_None_iff [THEN iffD2] split: option.split)
qed simp

section \<open>The whole call\<close>

lemma vault_materialize_Ok:
  assumes "vault_materialize C J v = (v', Ok ())" and "repo_main C (va_git v) = Some m"
  obtains tree want w where "main_tree (va_get C v) m = Ok tree" and "read_tree_to_files tree (va_get C v) = Ok want"
    and "smapM (materialize_path C) want (foldl (remove_stale C want) v (bt_keys (es_materialized (va_state v)))) = (w, Ok ())"
    and "save_state J w = (v', Ok ())"
  using assms by (auto simp: vault_materialize_def sbind_Ok_iff res_simps)

definition state_paths :: "string set" where
  "state_paths = {STATE_LOCK, with_extension ''tmp'' STATE_FILE, STATE_FILE}"

lemma state_save_elsewhere: "state_save J st t = (u, r) \<Longrightarrow> q \<notin> state_paths \<Longrightarrow> fs_get u q = fs_get t q"
proof -
  assume run: "state_save J st t = (u, r)" and q: "q \<notin> state_paths"
  have "keeps (fs_except state_paths) (state_save J st)"
    unfolding state_save_def
  proof (intro keeps_sbind [OF fs_except_trans] keeps_sread [OF fs_except_refl])
    show "keeps (fs_except state_paths) (open_or_create STATE_LOCK)"
      using except_open_or_create [of STATE_LOCK] fs_except_mono [of "{STATE_LOCK}" _ _ state_paths]
      by (simp add: keeps_def state_paths_def)
    show "keeps (fs_except state_paths) (write_atomic (with_extension ''tmp'' STATE_FILE) STATE_FILE b)" for b
      using except_write_atomic [of "with_extension ''tmp'' STATE_FILE" STATE_FILE] fs_except_mono [of _ _ _ state_paths]
      unfolding keeps_def by (metis insert_iff singletonD state_paths_def subsetI)
  qed
  from keepsD2 [OF this run] q show ?thesis by (simp add: fs_except_def)
qed

lemma save_state_view: "save_state J v = (v', r) \<Longrightarrow> q \<notin> state_paths \<Longrightarrow> path_view v' q = path_view v q"
  using state_save_elsewhere [of J "va_state v" "va_fs v"]
  by (auto simp: save_state_def on_fs_def path_view_def split: prod.splits)

lemma materialize_view:
  assumes "vault_materialize C J v = (v', Ok ())" and "repo_main C (va_git v) = Some m"
    and "bt_wf (es_materialized (va_state v))"
  obtains tree want where "main_tree (va_get C v) m = Ok tree" and "read_tree_to_files tree (va_get C v) = Ok want"
    and "\<And>q. q \<notin> state_paths \<union> ctx_tmp ` set (bt_keys want) \<Longrightarrow> path_view v' q = settled C (path_view v q) (bt_get want q)"
proof -
  obtain tree want w where tree: "main_tree (va_get C v) m = Ok tree" and want: "read_tree_to_files tree (va_get C v) = Ok want"
    and run: "smapM (materialize_path C) want (foldl (remove_stale C want) v (bt_keys (es_materialized (va_state v)))) = (w, Ok ())"
    and save: "save_state J w = (v', Ok ())"
    using vault_materialize_Ok [OF assms(1,2)] by metis
  have keys: "distinct (bt_keys want)" "distinct (bt_keys (es_materialized (va_state v)))"
    using read_tree_wf [OF want] assms(3) by (simp_all add: bt_wf_distinct)
  have "path_view v' q = settled C (path_view v q) (bt_get want q)"
    if "q \<notin> state_paths \<union> ctx_tmp ` set (bt_keys want)" for q
  proof -
    have "path_view v' q = path_view w q" using save_state_view [OF save] that by simp
    moreover have "settled C (path_view v q) None = path_view v q" if "q \<notin> set (bt_keys (es_materialized (va_state v)))"
    proof -
      have "bt_get (es_materialized (va_state v)) q = None" using that by (simp add: map_of_eq_None_iff)
      then show ?thesis by (simp add: settled_def path_view_def reconciled_def recorded_def split: option.split)
    qed
    ultimately show ?thesis
      using written_view [OF run keys(1), of q] removed_view [OF keys(2), of C want v q] that
      by (auto split: option.splits)
  qed
  with tree want that show thesis by blast
qed

section \<open>The state file\<close>

lemma open_or_create_elsewhere: "open_or_create p t = (u, r) \<Longrightarrow> q \<noteq> p \<Longrightarrow> fs_get u q = fs_get t q"
  using except_open_or_create [of p t] by (simp add: fs_except_def)

lemma fs_write_dirs: "fs_dirs (fst (fs_write p b t)) = fs_dirs t"
  by (simp add: fs_write_def)

lemma open_or_create_dirs: "fs_dirs (fst (open_or_create p t)) = fs_dirs t"
  by (simp add: open_or_create_def fs_write_dirs)

lemma write_atomic_dirs: "fs_dirs (fst (write_atomic tmp p b t)) = fs_dirs t"
proof -
  have "keeps (\<lambda>t u. fs_dirs u = fs_dirs t) (write_atomic tmp p b)"
    unfolding write_atomic_def
    by (intro keeps_sbind) (auto simp: transp_def keeps_def fs_write_dirs fs_rename_def split: option.split)
  then show ?thesis by (simp add: keeps_def)
qed

lemma state_save_dirs: "state_save J st t = (u, r) \<Longrightarrow> fs_dirs u = fs_dirs t"
proof -
  have "keeps (\<lambda>t u. fs_dirs u = fs_dirs t) (state_save J st)"
    unfolding state_save_def
    by (intro keeps_sbind keeps_sread) (auto simp: transp_def reflp_def keeps_def open_or_create_dirs write_atomic_dirs)
  then show "state_save J st t = (u, r) \<Longrightarrow> ?thesis" using keepsD2 by fastforce
qed

text \<open>What a save writes is the state merged with the one that was there.\<close>

lemma state_file_names: "STATE_LOCK \<noteq> STATE_FILE"
  by (simp add: STATE_LOCK_def STATE_FILE_def)

lemma saved_file:
  assumes "state_save J st t = (u, Ok ())"
  shows "fs_get u STATE_FILE = Some (cd_encode J (merge_on_save st (ok_opt (state_load J t))))"
proof -
  obtain l where l: "open_or_create STATE_LOCK t = (l, Ok ())"
    and w: "write_atomic (with_extension ''tmp'' STATE_FILE) STATE_FILE
        (cd_encode J (merge_on_save st (ok_opt (state_load J l)))) l = (u, Ok ())"
    using assms by (auto simp: state_save_def sbind_Ok_iff)
  have "fs_get l STATE_FILE = fs_get t STATE_FILE" "fs_dirs l = fs_dirs t"
    using open_or_create_elsewhere [OF l, of STATE_FILE] open_or_create_dirs [of STATE_LOCK t] l state_file_names by simp_all
  then have "state_load J l = state_load J t"
    unfolding state_load_def is_file_def is_dir_def fs_read_def by (simp only:)
  with write_atomic_Ok(1) [OF w] show ?thesis by simp
qed

lemma saved_then_loaded:
  assumes "save_state J v = (v', Ok ())" and "cd_encode J st \<noteq> []" and "cd_decode J (cd_encode J st) = Some st"
    and "st = merge_on_save (va_state v) (ok_opt (state_load J (va_fs v)))"
  shows "state_load J (va_fs v') = Ok st"
proof -
  have "state_save J (va_state v) (va_fs v) = (va_fs v', Ok ())"
    using assms(1) by (auto simp: save_state_def on_fs_def split: prod.splits)
  from saved_file [OF this, folded assms(4)] assms(2,3) show ?thesis
    by (simp add: state_load_def is_file_def fs_read_def state_from_bytes_def)
qed

lemma merge_keeps:
  assumes "bt_wf (es_snapshots st)"
  shows "set (es_known st) \<subseteq> set (es_known (merge_on_save st disk))" and "es_observed st \<le> es_observed (merge_on_save st disk)"
    and "es_materialized (merge_on_save st disk) = es_materialized st"
    and "bt_get (es_snapshots st) k = Some sn \<Longrightarrow> bt_get (es_snapshots (merge_on_save st disk)) k = Some sn"
  using merge_snapshots_get [OF assms] by (auto simp: merge_on_save_def set_merge_known split: option.split)

lemma take_in_keeps:
  "set (es_known st) \<subseteq> set (es_known (foldl (take_in C d) st xs)) \<and> es_observed st \<le> es_observed (foldl (take_in C d) st xs)
   \<and> es_materialized (foldl (take_in C d) st xs) = es_materialized st \<and> es_snapshots (foldl (take_in C d) st xs) = es_snapshots st"
proof (induction xs arbitrary: st)
  case (Cons x xs)
  have "es_observed st \<le> es_observed (take_in C d st x)" "es_materialized (take_in C d st x) = es_materialized st"
    "es_snapshots (take_in C d st x) = es_snapshots st" "set (es_known st) \<subseteq> set (es_known (take_in C d st x))"
    by (auto simp: take_in_def Let_def split: sum.splits git_object.splits option.splits)
  with Cons [of "take_in C d st x"] show ?case by (auto intro: order_trans)
qed simp

end
