(* ===== verification/Vault_Admission.thy ===== *)
theory Vault_Admission
  imports Vault_Facts Admission_Facts
begin

text \<open>
  The list of authorized keys of a vault on disk: what a change under its lock does to the files, and that the
  admission of a peer is that of the in-memory engine on the same text.
\<close>

definition key_paths :: "string set" where
  "key_paths = {AUTHORIZED_LOCK, with_extension ''ak-tmp'' AUTHORIZED_KEYS, AUTHORIZED_KEYS}"

lemma key_names: "AUTHORIZED_LOCK \<noteq> AUTHORIZED_KEYS"
  by (simp add: AUTHORIZED_LOCK_def AUTHORIZED_KEYS_def)

text \<open>The function under the lock sees the list as it is on disk, and nothing but the lock file has changed.\<close>

lemma with_entries_Ok:
  assumes "with_entries C f v = (v', Ok x)"
  obtains t where "f (parse_file C (text_or_default AUTHORIZED_KEYS (va_fs v))) t = (va_fs v', Ok x)"
    and "fs_get t AUTHORIZED_KEYS = fs_get (va_fs v) AUTHORIZED_KEYS" and "fs_except key_paths (va_fs v) t"
    and "v' = v\<lparr>va_fs := va_fs v'\<rparr>"
proof -
  obtain u where run: "with_authorized_lock (\<lambda>t. f (parse_file C (text_or_default AUTHORIZED_KEYS t)) t) (va_fs v) = (u, Ok x)"
    and v': "v' = v\<lparr>va_fs := u\<rparr>"
    using assms by (auto simp: with_entries_def on_fs_def split: prod.splits)
  then obtain s t where s: "create_dir_all CONTEXT_DIR (va_fs v) = (s, Ok ())"
    and t: "open_or_create AUTHORIZED_LOCK s = (t, Ok ())"
    and f: "f (parse_file C (text_or_default AUTHORIZED_KEYS t)) t = (u, Ok x)"
    by (auto simp: with_authorized_lock_def sbind_Ok_iff)
  have "fs_files s = fs_files (va_fs v)" using s by (auto simp: create_dir_all_def split: if_splits)
  then have except: "fs_except {AUTHORIZED_LOCK} (va_fs v) t"
    using except_open_or_create [of AUTHORIZED_LOCK s] t by (simp add: fs_except_def)
  then have keys: "fs_get t AUTHORIZED_KEYS = fs_get (va_fs v) AUTHORIZED_KEYS" using key_names by (simp add: fs_except_def)
  then have "text_or_default AUTHORIZED_KEYS t = text_or_default AUTHORIZED_KEYS (va_fs v)"
    by (simp add: text_or_default_def read_text_def fs_read_def)
  with f v' keys fs_except_mono [OF except, of key_paths] show thesis by (intro that [of t]) (simp_all add: key_paths_def)
qed

lemma write_keys_Ok:
  assumes "write_authorized_atomic s t = (u, Ok ())"
  shows "fs_get u AUTHORIZED_KEYS = Some s" and "fs_except key_paths t u"
proof -
  note run = assms [unfolded write_authorized_atomic_def]
  show "fs_get u AUTHORIZED_KEYS = Some s" by (rule write_atomic_Ok(1) [OF run])
  have "fs_except {with_extension ''ak-tmp'' AUTHORIZED_KEYS, AUTHORIZED_KEYS} t u"
    using except_write_atomic [of "with_extension ''ak-tmp'' AUTHORIZED_KEYS" AUTHORIZED_KEYS t s] run by simp
  then show "fs_except key_paths t u" by (rule fs_except_mono) (auto simp: key_paths_def)
qed

lemma vault_admit_engine:
  assumes run: "vault_admit_peer C now line flag v = (v', Ok ok)"
    and keys: "me_authorized e = text_or_default AUTHORIZED_KEYS (va_fs v)" and config: "me_config e = va_config v"
  shows "\<exists>e'. admit_peer C now line flag e = (e', Ok ok)
    \<and> (fs_get (va_fs v') AUTHORIZED_KEYS = Some (me_authorized e')
        \<or> e' = e \<and> fs_get (va_fs v') AUTHORIZED_KEYS = fs_get (va_fs v) AUTHORIZED_KEYS)
    \<and> fs_except key_paths (va_fs v) (va_fs v') \<and> va_state v' = va_state v \<and> va_git v' = va_git v"
proof (cases "parse_ssh_pubkey C line")
  case None
  then show ?thesis
    using run by (auto simp: vault_admit_peer_def admit_peer_def fs_except_def)
next
  case (Some node)
  define es where "es = parse_file C (me_authorized e)"
  define entry where "entry = parse_line C (build_line line (enroll_expiry now (default_ttl_days e)))"
  have ttl: "vault_default_ttl_days v = default_ttl_days e"
    by (simp add: vault_default_ttl_days_def default_ttl_days_def config)
  define put :: "key_entry list \<Rightarrow> (fs, bool) seff" where
    "put = (\<lambda>es. sbind (write_authorized_atomic (serialize es)) (\<lambda>_. sret True))"
  define decide where "decide = (\<lambda>es. case position (\<lambda>k. ke_node k = Some node) es of
      Some i \<Rightarrow> if is_valid (ke_expiry (es ! i)) now then sret True
        else if flag then put (es[i := entry]) else sret False
    | None \<Rightarrow> if flag then put (es @ [entry])
        else if \<not> list_ex (\<lambda>k. ke_node k \<noteq> None) es \<and> \<not> vc_no_tofu (va_config v) \<and> vc_auth_keys (va_config v) = []
        then put (es @ [entry]) else sret False)"
  have "with_entries C decide v = (v', Ok ok)"
    using run Some unfolding vault_admit_peer_def decide_def put_def entry_def ttl Let_def by simp
  then obtain t where t: "decide es t = (va_fs v', Ok ok)"
    and same: "fs_get t AUTHORIZED_KEYS = fs_get (va_fs v) AUTHORIZED_KEYS" and except: "fs_except key_paths (va_fs v) t"
    and v': "v' = v\<lparr>va_fs := va_fs v'\<rparr>"
    by (rule with_entries_Ok) (simp add: es_def keys)
  have rest: "va_state v' = va_state v" "va_git v' = va_git v" by (subst v', simp)+
  have written: "fs_get (va_fs v') AUTHORIZED_KEYS = Some (serialize xs) \<and> fs_except key_paths (va_fs v) (va_fs v') \<and> ok"
    if "put xs t = (va_fs v', Ok ok)" for xs
  proof -
    from that have w: "write_authorized_atomic (serialize xs) t = (va_fs v', Ok ())" and ok
      by (auto simp: put_def sbind_Ok_iff)
    with write_keys_Ok [OF w] transpD [OF fs_except_trans except] show ?thesis by blast
  qed
  have "(\<exists>b. decide es t = (t, Ok b) \<and> admit_peer C now line flag e = (e, Ok b))
    \<or> (\<exists>xs. decide es t = put xs t \<and> admit_peer C now line flag e = (e\<lparr>me_authorized := serialize xs\<rparr>, Ok True))"
  proof (cases "position (\<lambda>k. ke_node k = Some node) es")
    case None
    with Some show ?thesis
      by (auto simp: decide_def admit_peer_def Let_def es_def [symmetric] entry_def [symmetric] config)
  next
    case at: (Some i)
    with Some show ?thesis
      by (auto simp: decide_def admit_peer_def Let_def es_def [symmetric] entry_def [symmetric] config)
  qed
  then consider (kept) b where "decide es t = (t, Ok b)" "admit_peer C now line flag e = (e, Ok b)"
    | (wrote) xs where "decide es t = put xs t" "admit_peer C now line flag e = (e\<lparr>me_authorized := serialize xs\<rparr>, Ok True)"
    by blast
  then show ?thesis
  proof cases
    case (kept b)
    with t same except rest show ?thesis by auto
  next
    case (wrote xs)
    with t written [of xs] rest show ?thesis by auto
  qed
qed

end
