(* ===== verification/Demo_Disk.thy ===== *)
theory Demo_Disk
  imports Vault_Materialize Vault_Admission Demo_Engine Config_Facts
begin

text \<open>
  A concrete vault on disk over the demonstration crates: a repository whose main commit holds one file, and a
  tree of files with the directory \<open>.context\<close>.
\<close>

section \<open>Calls that succeed\<close>

lemma write_atomic_ok:
  assumes "\<not> is_dir t tmp" and "is_dir t (parent_path tmp)" and "\<not> is_dir t p" and "is_dir t (parent_path p)"
  shows "write_atomic tmp p b t =
    (t\<lparr>fs_files := bt_insert p b (bt_remove tmp (bt_insert tmp b (fs_files t)))\<rparr>, Ok ())"
proof -
  define u where "u = t\<lparr>fs_files := bt_insert tmp b (fs_files t)\<rparr>"
  have "fs_write tmp b t = (u, Ok ())" using assms(1,2) by (simp add: fs_write_def u_def)
  moreover have "fs_rename tmp p u = (u\<lparr>fs_files := bt_insert p b (bt_remove tmp (fs_files u))\<rparr>, Ok ())"
    using assms(3,4) by (simp add: fs_rename_def u_def bt_simps is_dir_def)
  ultimately show ?thesis by (simp add: write_atomic_def sbind_def u_def)
qed

lemma state_names:
  "with_extension ''tmp'' ''.context/state'' = ''.context/state.tmp''" "STATE_FILE = ''.context/state''"
  "STATE_LOCK = ''.context/state.lock''"
  "parent_path ''.context/state.tmp'' = ''.context''" "parent_path ''.context/state'' = ''.context''"
  "parent_path ''.context/state.lock'' = ''.context''"
  by (simp_all add: with_extension_def name_with_extension_def STATE_FILE_def STATE_LOCK_def CONTEXT_DIR_def
      parent_path_def rsplit_once_def split_once_def)

lemma state_paths_eq: "state_paths = {''.context/state.lock'', ''.context/state.tmp'', ''.context/state''}"
  unfolding state_paths_def by (simp only: state_names)

text \<open>The state is saved as long as its directory is there and none of its files is one.\<close>

definition state_writable :: "fs \<Rightarrow> bool" where
  "state_writable t \<longleftrightarrow> is_dir t ''.context'' \<and> (\<forall>p \<in> state_paths. \<not> is_dir t p)"

lemma state_save_ok:
  assumes "state_writable t"
  obtains u u' where "state_save J st t = (u, Ok ())" and "fs_dirs u = fs_dirs t"
    and "fs_get u STATE_FILE = Some (cd_encode J (merge_on_save st (ok_opt (state_load J u'))))"
    and "fs_get u' STATE_FILE = fs_get t STATE_FILE" and "fs_dirs u' = fs_dirs t"
proof -
  have dirs: "is_dir t ''.context''" "\<not> is_dir t ''.context/state''" "\<not> is_dir t ''.context/state.tmp''"
    "\<not> is_dir t ''.context/state.lock''"
    using assms by (simp_all add: state_writable_def state_paths_eq)
  obtain l where l: "open_or_create STATE_LOCK t = (l, Ok ())" "fs_dirs l = fs_dirs t"
    "fs_get l STATE_FILE = fs_get t STATE_FILE"
    using dirs by (cases "is_file t STATE_LOCK")
      (simp_all add: open_or_create_def fs_write_def state_names bt_simps)
  then have "is_dir l p = is_dir t p" for p by (simp add: is_dir_def)
  with dirs have "write_atomic (with_extension ''tmp'' STATE_FILE) STATE_FILE b l =
    (l\<lparr>fs_files := bt_insert STATE_FILE b (bt_remove (with_extension ''tmp'' STATE_FILE)
      (bt_insert (with_extension ''tmp'' STATE_FILE) b (fs_files l)))\<rparr>, Ok ())" for b
    unfolding state_names by (intro write_atomic_ok) (simp_all add: state_names)
  with l show thesis
    by (intro that [of "l\<lparr>fs_files := bt_insert STATE_FILE (cd_encode J (merge_on_save st (ok_opt (state_load J l))))
        (bt_remove (with_extension ''tmp'' STATE_FILE) (bt_insert (with_extension ''tmp'' STATE_FILE)
          (cd_encode J (merge_on_save st (ok_opt (state_load J l)))) (fs_files l)))\<rparr>" l])
      (simp_all add: state_save_def sbind_def bt_simps)
qed

section \<open>The repository\<close>

definition demo_codec :: codec where
  "demo_codec = \<lparr>cd_encode = \<lambda>st. ''s'', cd_decode = \<lambda>b. Some default_state\<rparr>"

text \<open>
  Objects at chosen ids: the main commit, a tree with one file of the given name, its bytes, and a blob that
  nothing refers to.
\<close>

definition demo_objects :: "string \<Rightarrow> (oid \<times> git_object) list" where
  "demo_objects n =
     [(Oid 1, demo_file n (Oid 3)), (Oid 2, Commit (fold_commit (Oid 1) [] 0 GENESIS_MSG)), (Oid 3, Blob ''a''),
      (Oid 4, Blob ''b'')]"

definition demo_repo :: "string \<Rightarrow> disk" where
  "demo_repo n = set_main demo (Oid 2)
     \<lparr>d_files = map_of (map (\<lambda>(x, ob). (loose_path demo x, compress demo ob)) (demo_objects n)), d_dirs = {''objects''}\<rparr>"

lemma demo_repo_get [simp]:
  assumes "from_utf8_ok n" and "nul \<notin> set n" and "length n < 1000"
  shows "disk_get demo (demo_repo n) (Oid 1) = Ok (demo_file n (Oid 3))"
    and "disk_get demo (demo_repo n) (Oid 2) = Ok (Commit (fold_commit (Oid 1) [] 0 GENESIS_MSG))"
    and "disk_get demo (demo_repo n) (Oid 3) = Ok (Blob ''a'')" and "disk_get demo (demo_repo n) (Oid 4) = Ok (Blob ''b'')"
proof -
  let ?files = "map_of (map (\<lambda>(x, ob). (loose_path demo x, compress demo ob)) (demo_objects n))"
  have files: "?files (loose_path demo (Oid 1)) = Some (compress demo (demo_file n (Oid 3)))"
    "?files (loose_path demo (Oid 2)) = Some (compress demo (Commit (fold_commit (Oid 1) [] 0 GENESIS_MSG)))"
    "?files (loose_path demo (Oid 3)) = Some (compress demo (Blob ''a''))"
    "?files (loose_path demo (Oid 4)) = Some (compress demo (Blob ''b''))"
    by (simp_all add: demo_objects_def loose_path_inj)
  have ascii: "from_utf8_ok FILE_MODE" by (rule from_utf8_ok_ascii) (simp add: FILE_MODE_def is_ascii_char_def)
  have "length (entry_bytes \<lparr>te_mode = FILE_MODE, te_name = n, te_oid = Oid 3\<rparr>) < 2000"
    using assms(3) by (simp add: entry_bytes_def FILE_MODE_def)
  then have "length (entry_bytes \<lparr>te_mode = FILE_MODE, te_name = n, te_oid = Oid 3\<rparr>) < 2 ^ 64"
    by (rule less_trans) simp
  then have tree: "decompress_and_parse demo (compress demo (demo_file n (Oid 3))) = Ok (demo_file n (Oid 3))"
    using decompress_compress [OF demo_zlib_laws demo_hex_laws, of "demo_file n (Oid 3)"] ascii assms(1,2)
    by (simp add: demo_file_def entry_wf_def FILE_MODE_def del: from_utf8_ok.simps(2))
  have "from_utf8_ok GENESIS_MSG"
    by (rule from_utf8_ok_ascii) (simp add: GENESIS_MSG_def is_ascii_char_def)
  then have "commit_wf (fold_commit (Oid 1) [] 0 GENESIS_MSG)"
    by (simp add: commit_wf_def fold_commit_def ident_wf_def FOLD_NAME_def FOLD_EMAIL_def
      solid_def is_ascii_char_def)
  moreover have "length (commit_bytes demo (fold_commit (Oid 1) [] 0 GENESIS_MSG)) < 2 ^ 64"
  proof -
    have "length (dec 0) = 1" by (simp add: dec.simps)
    then have "length (commit_bytes demo (fold_commit (Oid 1) [] 0 GENESIS_MSG)) < 1000"
      by (simp add: commit_bytes_def fold_commit_def ident_line_def FOLD_NAME_def FOLD_EMAIL_def GENESIS_MSG_def
        to_hex_def length_demo_hexenc)
    then show ?thesis by (rule less_trans) simp
  qed
  ultimately have commit: "decompress_and_parse demo (compress demo (Commit (fold_commit (Oid 1) [] 0 GENESIS_MSG))) =
      Ok (Commit (fold_commit (Oid 1) [] 0 GENESIS_MSG))"
    using decompress_compress [OF demo_zlib_laws demo_hex_laws, of "Commit (fold_commit (Oid 1) [] 0 GENESIS_MSG)"] by simp
  have blob: "decompress_and_parse demo (compress demo (Blob ''a'')) = Ok (Blob ''a'')"
    "decompress_and_parse demo (compress demo (Blob ''b'')) = Ok (Blob ''b'')"
    using decompress_compress [OF demo_zlib_laws demo_hex_laws, of "Blob ''a''"]
      decompress_compress [OF demo_zlib_laws demo_hex_laws, of "Blob ''b''"] by simp_all
  show "disk_get demo (demo_repo n) (Oid 1) = Ok (demo_file n (Oid 3))"
    and "disk_get demo (demo_repo n) (Oid 2) = Ok (Commit (fold_commit (Oid 1) [] 0 GENESIS_MSG))"
    and "disk_get demo (demo_repo n) (Oid 3) = Ok (Blob ''a'')" and "disk_get demo (demo_repo n) (Oid 4) = Ok (Blob ''b'')"
    unfolding demo_repo_def ref_get by (simp_all add: disk_get_def files tree commit blob)
qed

lemma demo_repo_main [simp]: "repo_main demo (demo_repo n) = Some (Oid 2)"
  by (simp add: demo_repo_def main_after)

lemma demo_repo_want:
  assumes "from_utf8_ok n" and "nul \<notin> set n" and "length n < 1000"
  shows "main_tree (disk_get demo (demo_repo n)) (Oid 2) = Ok (Oid 1)"
    and "read_tree_to_files (Oid 1) (disk_get demo (demo_repo n)) = Ok [(n, ''a'')]"
  using demo_repo_get [OF assms]
  by (simp_all add: main_tree_def fold_commit_def read_tree_to_files_def walk_tree.simps demo_file_def
      FILE_MODE_def TREE_MODE_def Let_def)

section \<open>The vault\<close>

definition demo_vault :: "string \<Rightarrow> files \<Rightarrow> (string \<times> string) list \<Rightarrow> vault" where
  "demo_vault n files mat =
     \<lparr>va_fs = \<lparr>fs_files = files, fs_dirs = [''.context'']\<rparr>, va_git = demo_repo n,
      va_state = default_state\<lparr>es_materialized := mat\<rparr>, va_scope = rebuild_scope demo_config [],
      va_identity = \<lparr>id_seed = ''A''\<rparr>, va_config = demo_config\<rparr>"

lemma demo_vault_sel [simp]:
  "va_fs (demo_vault n files mat) = \<lparr>fs_files = files, fs_dirs = [''.context'']\<rparr>"
  "va_git (demo_vault n files mat) = demo_repo n"
  "va_state (demo_vault n files mat) = default_state\<lparr>es_materialized := mat\<rparr>"
  by (simp_all add: demo_vault_def)

lemma demo_dirs: "fs_dirs t = [''.context''] \<Longrightarrow> is_dir t p \<longleftrightarrow> p = [] \<or> p = ''.context''"
  by (simp add: is_dir_def)

lemma demo_writable: "fs_dirs t = [''.context''] \<Longrightarrow> state_writable t"
  by (simp add: state_writable_def state_paths_eq demo_dirs)

lemma demo_names:
  "parent_path ''h'' = []" "ctx_tmp ''h'' = ''h.ctx-tmp''" "parent_path ''h.ctx-tmp'' = []"
  "parent_path ''f'' = []" "parent_path ''.context/exclude'' = ''.context''"
  "ctx_tmp ''.context/exclude'' = ''.context/exclude.ctx-tmp''"
  "parent_path ''.context/exclude.ctx-tmp'' = ''.context''" "dir_chain [] = []" "dir_chain ''.context'' = [''.context'']"
  by (simp_all add: with_extension_def name_with_extension_def parent_path_def rsplit_once_def split_once_def
      dir_chain_def str_split.simps)

text \<open>Placing a file at the root or in \<open>.context\<close>.\<close>

lemma demo_place:
  assumes n: "n = ''h'' \<or> n = ''.context/exclude''" and t: "fs_dirs (va_fs v) = [''.context'']"
    and no: "\<not> is_file (va_fs v) ''.context''"
  obtains u where "place_file demo n b v = (u, Ok ())" and "fs_dirs (va_fs u) = [''.context'']"
proof -
  have chain: "create_dir_all (parent_path n) (va_fs v) = (va_fs v, Ok ())"
    using n no t by (auto simp: create_dir_all_def demo_names is_dir_def)
  have dirs: "is_dir (va_fs v) p \<longleftrightarrow> p = [] \<or> p = ''.context''" for p using t by (rule demo_dirs)
  have "write_atomic (ctx_tmp n) n b (va_fs v) = ((va_fs v)\<lparr>fs_files := bt_insert n b (bt_remove (ctx_tmp n)
      (bt_insert (ctx_tmp n) b (fs_files (va_fs v))))\<rparr>, Ok ())"
    using n by (intro write_atomic_ok) (auto simp: dirs demo_names)
  with chain t show thesis
    by (intro that [of "record_hash demo n b (v\<lparr>va_fs := (va_fs v)\<lparr>fs_files := bt_insert n b (bt_remove (ctx_tmp n)
      (bt_insert (ctx_tmp n) b (fs_files (va_fs v))))\<rparr>\<rparr>)"])
      (simp_all add: place_file_def sbind_def on_fs_def record_hash_def on_mem_def)
qed

lemma demo_save:
  assumes "fs_dirs (va_fs v) = [''.context'']"
  obtains u where "save_state J v = (u, Ok ())"
proof -
  obtain t where "state_save J (va_state v) (va_fs v) = (t, Ok ())"
    using state_save_ok [OF demo_writable [OF assms]] by metis
  then show thesis by (intro that [of "v\<lparr>va_fs := t\<rparr>"]) (simp add: save_state_def on_fs_def)
qed

text \<open>
  One recorded file that main does not have, and one of main's that is not on disk: the materialize succeeds.
\<close>

lemma demo_materializes:
  assumes "n = ''h'' \<or> n = ''.context/exclude''"
  obtains v where "vault_materialize demo demo_codec (demo_vault n [(''f'', ''a'')] [(''f'', blob_hash demo ''a'')]) = (v, Ok ())"
proof -
  let ?v = "demo_vault n [(''f'', ''a'')] [(''f'', blob_hash demo ''a'')]"
  have n: "from_utf8_ok n \<and> nul \<notin> set n \<and> length n < 1000"
    using assms from_utf8_ok_ascii [of n] by (auto simp: is_ascii_char_def simp del: from_utf8_ok.simps)
  then have want: "main_tree (disk_get demo (demo_repo n)) (Oid 2) = Ok (Oid 1)"
    "read_tree_to_files (Oid 1) (disk_get demo (demo_repo n)) = Ok [(n, ''a'')]"
    using demo_repo_want by simp_all
  define u where "u = remove_stale demo [(n, ''a'')] ?v ''f''"
  have u: "va_fs u = \<lparr>fs_files = [], fs_dirs = [''.context'']\<rparr>"
    using assms by (auto simp: u_def remove_stale_def Let_def on_mem_def demo_names prune_empty_dirs.simps remove_file_def
        bt_contains_get bt_remove_def)
  then have "fs_get (va_fs u) n = None" by simp
  moreover obtain w where w: "place_file demo n ''a'' u = (w, Ok ())" and dirs: "fs_dirs (va_fs w) = [''.context'']"
    using demo_place [OF assms, of u "''a''"] u by (auto simp: is_file_def)
  moreover obtain x where "save_state demo_codec w = (x, Ok ())" by (rule demo_save [OF dirs])
  ultimately have "vault_materialize demo demo_codec ?v = (x, Ok ())"
    using want by (simp add: vault_materialize_def sbind_def materialize_path_def u_def)
  then show thesis by (rule that)
qed

section \<open>A vault just created\<close>

text \<open>A folder with nothing but the vault's own directory, in which every file of the vault can be written.\<close>

definition ready :: "fs \<Rightarrow> bool" where
  "ready t \<longleftrightarrow> fs_dirs t = [''.context''] \<and> \<not> is_file t ''.context''"

definition in_dir :: "string \<Rightarrow> bool" where
  "in_dir p \<longleftrightarrow> p \<noteq> [] \<and> p \<noteq> ''.context'' \<and> parent_path p = ''.context''"

lemma vault_file_names:
  "in_dir CONFIG_FILE" "in_dir STATE_FILE" "in_dir AUTHORIZED_KEYS" "in_dir AUTHORIZED_LOCK"
  "in_dir (with_extension ''ak-tmp'' AUTHORIZED_KEYS)"
  by (simp_all add: in_dir_def CONFIG_FILE_def STATE_FILE_def AUTHORIZED_KEYS_def AUTHORIZED_LOCK_def CONTEXT_DIR_def
      with_extension_def name_with_extension_def parent_path_def rsplit_once_def split_once_def)

lemma ready_write:
  assumes "ready t" and "in_dir p"
  obtains u where "fs_write p b t = (u, Ok ())" and "ready u" and "fs_get u p = Some b"
  using assms by (intro that [of "t\<lparr>fs_files := bt_insert p b (fs_files t)\<rparr>"])
    (auto simp: fs_write_def ready_def in_dir_def is_dir_def is_file_def bt_simps)

lemma ready_save:
  assumes "ready t"
  obtains u where "state_save J st t = (u, Ok ())" and "ready u"
proof -
  obtain u where u: "state_save J st t = (u, Ok ())" "fs_dirs u = fs_dirs t"
    by (rule state_save_ok [OF demo_writable]) (use assms in \<open>auto simp: ready_def\<close>)
  moreover have "fs_get u ''.context'' = fs_get t ''.context''"
    by (rule state_save_elsewhere [OF u(1)]) (simp add: state_paths_eq)
  ultimately show thesis using assms that by (simp add: ready_def is_file_def)
qed

lemma created_ready:
  obtains s v where "vault_create demo J ''/r'' ident ''v'' (\<lparr>fs_files = [], fs_dirs = []\<rparr>, d) = (s, Ok v)"
    and "ready (va_fs v)" and "va_config v = new_config ''v''"
proof -
  define t1 where "t1 = \<lparr>fs_files = [], fs_dirs = [''.context'']\<rparr>"
  have one: "create_dir_all CONTEXT_DIR \<lparr>fs_files = [], fs_dirs = []\<rparr> = (t1, Ok ())"
    by (simp add: create_dir_all_def CONTEXT_DIR_def demo_names is_file_def is_dir_def t1_def)
  have "ready t1" by (simp add: t1_def ready_def is_file_def)
  obtain u where "disk_put demo (Tree []) (repo_init ''/r'' d) = (u, Ok (oid_of demo (Tree [])))" using dsk.put_eq by blast
  moreover obtain g m where "disk_put demo (Commit (fold_commit (oid_of demo (Tree [])) [] 0 GENESIS_MSG)) u = (g, Ok m)"
    using dsk.put_eq by blast
  ultimately have gen: "genesis demo (disk_ops demo) (repo_init ''/r'' d) = (g, Ok m)" by (simp add: genesis_def sbind_def)
  obtain t2 where two: "config_save (new_config ''v'') t1 = (t2, Ok ())" "ready t2"
    unfolding config_save_def by (rule ready_write [OF \<open>ready t1\<close> vault_file_names(1)])
  obtain t3 where three: "state_save J (default_state\<lparr>es_vault_id := ''v''\<rparr>) t2 = (t3, Ok ())" "ready t3"
    by (rule ready_save [OF two(2)])
  obtain t4 where four: "(if is_file t3 AUTHORIZED_KEYS \<or> is_dir t3 AUTHORIZED_KEYS then (t3, Ok ())
      else fs_write AUTHORIZED_KEYS [] t3) = (t4, Ok ())" "ready t4"
    using ready_write [OF three(2) vault_file_names(3), of "[]"] three(2) by metis
  show thesis
    by (rule that, simp add: vault_create_def sbind_def on_fst_def one gen two three four Let_def cong: if_cong split del: if_split)
      (simp_all add: four)
qed

section \<open>A vault with a configuration, and a forged primitive\<close>

lemma demo_config_reads:
  "from_utf8_ok (to_toml_string demo_config)" "from_toml_str (to_toml_string demo_config) = Ok demo_config"
proof -
  have "is_ascii (to_toml_string demo_config)"
    using is_ascii_solid [OF dec_solid]
    by (simp add: to_toml_string_def demo_config_def is_ascii_char_def fmt_str_def fmt_arr_def fmt_bool_def esc_def
      esc_char_def str_chars_ascii del: str_chars.simps)
  then show "from_utf8_ok (to_toml_string demo_config)" by (rule from_utf8_ok_ascii)
  show "from_toml_str (to_toml_string demo_config) = Ok demo_config"
    by (rule reads_config)
      (simp add: strings_ok_def demo_config_def from_utf8_ok_ascii is_ascii_char_def del: from_utf8_ok.simps)
qed

definition demo_forged :: commit_obj where
  "demo_forged =
     (fold_commit (Oid 1) [Oid 2] 0 [])\<lparr>co_message :=
        primitive_body demo (node_of_bytes ''B'') 7 ''edit'' [] @ SIG_TRAILER @ ''00'' @ [nl]\<rparr>"

lemma demo_forged_facts:
  "parse_primitive_meta demo demo_forged = Some (7, node_of_bytes ''B'')"
  "\<not> is_ok (verify_primitive demo demo_forged)"
  "decompress_and_parse demo (compress demo (Commit demo_forged)) = Ok (Commit demo_forged)"
  "parse_framed demo (framed demo (Commit demo_forged)) = Ok (Commit demo_forged)"
proof -
  have solid: "list_all solid ''00''" by (simp add: solid_def is_ascii_char_def)
  have msg: "co_message demo_forged = primitive_body demo (node_of_bytes ''B'') 7 ''edit'' [] @ SIG_TRAILER @ ''00'' @ [nl]"
    by (simp add: demo_forged_def)
  show meta: "parse_primitive_meta demo demo_forged = Some (7, node_of_bytes ''B'')"
    by (rule built_meta [OF demo_hex_laws solid msg])
  have lines: "str_lines (co_message demo_forged) = ls @ [SIG_TRAILER @ ''00''] \<Longrightarrow>
      find (starts_with SIG_TRAILER) (rev (str_lines (co_message demo_forged))) = Some (SIG_TRAILER @ ''00'')" for ls
    by (simp add: starts_with_def)
  have find: "find (starts_with SIG_TRAILER) (rev (str_lines (co_message demo_forged))) = Some (SIG_TRAILER @ ''00'')"
    using msg body_lines [OF demo_hex_laws, of "node_of_bytes ''B''" 7 "''edit''" "[]" "''00''"] sig_line [OF solid]
    by (intro lines) simp
  have "demo_hexdec ''00'' = Some [char_of (0 :: nat)]" by (simp add: demo_value_def)
  then show "\<not> is_ok (verify_primitive demo demo_forged)"
    using meta find by (simp add: verify_primitive_def str_trim_all_solid [OF solid])
  have node: "is_ascii (node_to_hex demo n)" for n
    by (rule is_ascii_solid [OF node_to_hex_solid [OF demo_hex_laws]])
  have "is_ascii (co_message demo_forged)"
    using is_ascii_solid [OF dec_solid] node
    by (simp add: msg primitive_body_def SIG_TRAILER_def is_ascii_char_def)
  then have "from_utf8_ok (co_message demo_forged)" by (rule from_utf8_ok_ascii)
  then have wf: "commit_wf demo_forged"
    by (simp add: commit_wf_def demo_forged_def fold_commit_def ident_wf_def FOLD_NAME_def FOLD_EMAIL_def
      solid_def is_ascii_char_def)
  have "length (dec 0) = 1" "length (dec 7) = 1" by (simp_all add: dec.simps)
  then have "length (commit_bytes demo demo_forged) < 1000"
    by (simp add: commit_bytes_def demo_forged_def fold_commit_def ident_line_def FOLD_NAME_def FOLD_EMAIL_def
      primitive_body_def SIG_TRAILER_def node_to_hex_def to_hex_def length_demo_hexenc)
  then have small: "length (commit_bytes demo demo_forged) < 2 ^ 64" by (rule less_trans) simp
  then show "decompress_and_parse demo (compress demo (Commit demo_forged)) = Ok (Commit demo_forged)"
    using decompress_compress [OF demo_zlib_laws demo_hex_laws, of "Commit demo_forged"] wf by simp
  show "parse_framed demo (framed demo (Commit demo_forged)) = Ok (Commit demo_forged)"
    using parse_framed_framed [OF demo_hex_laws, of "Commit demo_forged"] wf small by simp
qed

definition demo_open_vault :: vault where
  "demo_open_vault = demo_vault ''h'' [(''.context/config'', to_toml_string demo_config)] []"

lemma demo_vault_opens:
  assumes "fs_dirs t = [''.context'']" and "fs_get t ''.context/config'' = Some (to_toml_string demo_config)"
    and "\<not> is_file t ''.context/state'' \<or> (\<exists>b. fs_get t ''.context/state'' = Some b \<and> (b = [] \<or> cd_decode J b \<noteq> None))"
    and "''objects'' \<in> d_dirs d"
  obtains s v where "vault_open demo J listing ident (t, d) = (s, Ok v)"
proof -
  have "config_load t = Ok demo_config"
    using assms(2) demo_config_reads
    by (simp add: config_load_def read_text_def fs_read_def CONFIG_FILE_def CONTEXT_DIR_def)
  moreover obtain st where "state_load J t = Ok st"
  proof (cases "is_file t ''.context/state''")
    case True
    then obtain b where "fs_get t ''.context/state'' = Some b" "b = [] \<or> cd_decode J b \<noteq> None" using assms(3) by auto
    with True that show thesis by (cases "b = []") (auto simp: state_load_def state_names fs_read_def state_from_bytes_def)
  next
    case False
    moreover have "\<not> is_dir t ''.context/state''" using demo_dirs [OF assms(1)] by simp
    ultimately show thesis using that by (simp add: state_load_def state_names)
  qed
  moreover obtain u where "state_save J (foldl (take_in demo d) st (scan_primitives demo listing d)) t = (u, Ok ())"
    by (rule state_save_ok [OF demo_writable [OF assms(1)]]) blast
  ultimately show thesis
    using assms(4) by (intro that) (simp add: vault_open_def sbind_def on_fst_def repo_open_def disk_open_def)
qed

lemma demo_repo_dirs: "''objects'' \<in> d_dirs (demo_repo n)"
  by (simp add: demo_repo_def set_main_def update_ref_def Let_def rename_file_def write_file_def mkdir_def)

lemma disk_put_dirs: "p \<in> d_dirs d \<Longrightarrow> p \<in> d_dirs (fst (disk_put C ob d))"
  by (simp add: disk_put_def disk_put_steps_def Let_def rename_file_def write_file_def mkdir_def)

lemma demo_forged_fresh: "\<not> disk_has demo (va_git demo_open_vault) (oid_of demo (Commit demo_forged))"
proof -
  have "oid_of demo (Commit demo_forged) \<noteq> Oid n" if "n \<in> {1, 2, 3, 4}" for n
  proof
    assume "oid_of demo (Commit demo_forged) = Oid n"
    then have "demo_low (Oid n) = byte (hd ''commit'')" using demo_oid_low [of "Commit demo_forged"] by simp
    with that show False by (auto simp: demo_low_def)
  qed
  then have "oid_of demo (Commit demo_forged) \<notin> {Oid 1, Oid 2, Oid 3, Oid 4}" by blast
  then show ?thesis
    by (simp add: demo_open_vault_def demo_repo_def disk_has_def demo_objects_def loose_path_inj)
qed

text \<open>A batch with the forged primitive: the batch admits nothing, and the vault opens again afterwards.\<close>

lemma demo_forged_received:
  obtains v where "vault_integrate demo demo_codec [compress demo (Commit demo_forged)] demo_open_vault = (v, Ok 0)"
    and "fs_dirs (va_fs v) = [''.context'']"
    and "fs_get (va_fs v) ''.context/config'' = Some (to_toml_string demo_config)"
    and "fs_get (va_fs v) ''.context/state'' = Some ''s''" and "''objects'' \<in> d_dirs (va_git v)"
proof -
  let ?raw = "compress demo (Commit demo_forged)" and ?x = "oid_of demo (Commit demo_forged)"
  note f = demo_forged_facts
  define d where "d = fst (disk_put demo (Commit demo_forged) (demo_repo ''h''))"
  define u where "u = demo_open_vault\<lparr>va_git := d\<rparr>"
  have put: "vault_put_raws demo [?raw] (demo_repo ''h'') = (d, Ok ())"
  proof -
    have "disk_put demo (Commit demo_forged) (demo_repo ''h'') = (d, Ok ?x)" unfolding d_def by (rule dsk.put_eq)
    then show ?thesis by (simp add: vault_put_raws_def put_raw_def sbind_def f)
  qed
  have raw: "raw_commit demo ?raw = Some demo_forged" by (simp add: raw_commit_def f)
  have rej: "vault_any_rejected demo [?raw] d = (d, Ok False)" by (simp add: raw f)
  have adm: "admit_raw demo (va_state u, 0) ?raw = (va_state u, 0)" by (simp add: admit_raw_def raw f)
  have fs: "va_fs u = \<lparr>fs_files = [(''.context/config'', to_toml_string demo_config)], fs_dirs = [''.context'']\<rparr>"
    by (simp add: u_def demo_open_vault_def)
  then have "state_writable (va_fs u)" by (intro demo_writable) simp
  then obtain t where save: "state_save demo_codec (va_state u) (va_fs u) = (t, Ok ())" and t: "fs_dirs t = fs_dirs (va_fs u)"
    "\<exists>t'. fs_get t STATE_FILE = Some (cd_encode demo_codec (merge_on_save (va_state u) (ok_opt (state_load demo_codec t'))))"
    by (rule state_save_ok) blast
  then have state: "fs_get t ''.context/state'' = Some ''s''" by (auto simp: demo_codec_def state_names)
  have "''.context/config'' \<notin> state_paths" by (simp add: state_paths_eq)
  then have config: "fs_get t ''.context/config'' = Some (to_toml_string demo_config)"
    using state_save_elsewhere [OF save] fs by simp
  have git: "va_git demo_open_vault = demo_repo ''h''" by (simp add: demo_open_vault_def)
  have one: "on_git (vault_put_raws demo [?raw]) demo_open_vault = (u, Ok ())"
    by (simp only: on_git_def git put prod.case u_def)
  have gitu: "va_git u = d" and same: "u\<lparr>va_state := va_state u\<rparr> = u" "u\<lparr>va_git := d\<rparr> = u" by (simp_all add: u_def)
  have two: "on_git (vault_any_rejected demo [?raw]) u = (u, Ok False)"
    by (simp only: on_git_def gitu rej prod.case same)
  have four: "save_state demo_codec u = (u\<lparr>va_fs := t\<rparr>, Ok ())" by (simp add: save_state_def on_fs_def save)
  have "vault_integrate demo demo_codec [?raw] demo_open_vault = (u\<lparr>va_fs := t\<rparr>, Ok 0)"
    unfolding vault_integrate_def sbind_def one two prod.case sum.case by (simp add: four adm same)
  moreover have "''objects'' \<in> d_dirs d" unfolding d_def by (rule disk_put_dirs [OF demo_repo_dirs])
  ultimately show thesis using t(1) config state fs by (intro that [of "u\<lparr>va_fs := t\<rparr>"]) (simp_all add: u_def)
qed

section \<open>A peer enrolled in a vault\<close>

lemma demo_admitted:
  obtains v where "vault_admit_peer demo 0 (key_words demo (node_of_bytes ''B'') []) True (demo_vault ''h'' [] []) = (v, Ok True)"
proof -
  let ?v = "demo_vault ''h'' [] []" and ?line = "key_words demo (node_of_bytes ''B'') []"
  have names: "with_extension ''ak-tmp'' ''.context/authorized_keys'' = ''.context/authorized_keys.ak-tmp''"
    "parent_path ''.context/authorized_keys.ak-tmp'' = ''.context''" "parent_path ''.context/authorized_keys'' = ''.context''"
    "parent_path ''.context/authorized_keys.lock'' = ''.context''"
    by (simp_all add: with_extension_def name_with_extension_def parent_path_def rsplit_once_def split_once_def)
  have key: "parse_ssh_pubkey demo ?line = Some (node_of_bytes ''B'')" by (rule key_words_node) simp_all
  have none: "parse_file demo [] = []" by (simp add: parse_file_def)
  define t where "t = \<lparr>fs_files = [(AUTHORIZED_LOCK, [])], fs_dirs = [''.context'']\<rparr>"
  have dirs: "is_dir t p \<longleftrightarrow> p = [] \<or> p = ''.context''" for p by (rule demo_dirs) (simp add: t_def)
  have c: "create_dir_all CONTEXT_DIR (va_fs ?v) = (va_fs ?v, Ok ())"
    by (simp add: create_dir_all_def CONTEXT_DIR_def demo_names is_dir_def is_file_def)
  have l: "open_or_create AUTHORIZED_LOCK (va_fs ?v) = (t, Ok ())"
    by (simp add: open_or_create_def fs_write_def is_file_def is_dir_def AUTHORIZED_LOCK_def CONTEXT_DIR_def names t_def)
  have text0: "text_or_default AUTHORIZED_KEYS t = []"
    by (simp add: text_or_default_def read_text_def fs_read_def t_def AUTHORIZED_KEYS_def AUTHORIZED_LOCK_def)
  have "write_atomic ''.context/authorized_keys.ak-tmp'' ''.context/authorized_keys'' s t =
      (fst (write_atomic ''.context/authorized_keys.ak-tmp'' ''.context/authorized_keys'' s t), Ok ())" for s
    using write_atomic_ok [of t "''.context/authorized_keys.ak-tmp''" "''.context/authorized_keys''" s] by (simp add: dirs names)
  then have w: "write_authorized_atomic s t = (fst (write_authorized_atomic s t), Ok ())" for s
    by (simp add: write_authorized_atomic_def AUTHORIZED_KEYS_def CONTEXT_DIR_def names)
  then have "\<exists>u. write_authorized_atomic s t = (u, Ok ())" for s by blast
  then obtain u where u: "\<And>s. write_authorized_atomic s t = (u s, Ok ())" by metis
  show thesis
    by (rule that, simp add: vault_admit_peer_def key with_entries_def with_authorized_lock_def on_fs_def sbind_def
        c [simplified] l [simplified] text0 none u Let_def)
qed

end
