(* ===== verification/Walk_Facts.thy ===== *)
theory Walk_Facts
  imports Graph_Facts
begin

text \<open>
  When the walks over trees return: the recursion of the source has no bound, and it ends exactly because no tree
  contains itself.
\<close>

section \<open>Trees inside trees\<close>

definition subtree :: "getter \<Rightarrow> oid \<Rightarrow> oid \<Rightarrow> bool" where
  "subtree get t u \<longleftrightarrow> (\<exists>es e. get t = Ok (Tree es) \<and> e \<in> set es \<and> te_mode e = TREE_MODE \<and> te_oid e = u)"

definition well_founded_trees :: "getter \<Rightarrow> bool" where
  "well_founded_trees get \<longleftrightarrow> (\<forall>x. get x \<noteq> Err Diverge) \<and> (\<forall>u. \<not> (subtree get)\<^sup>+\<^sup>+ u u)"

text \<open>Every tree from here on loads, and so do its files.\<close>

definition complete_tree :: "getter \<Rightarrow> oid \<Rightarrow> bool" where
  "complete_tree get t \<longleftrightarrow>
     (\<forall>u. (subtree get)\<^sup>*\<^sup>* t u \<longrightarrow>
        (\<exists>es. get u = Ok (Tree es) \<and> (\<forall>e \<in> set es. te_mode e \<noteq> TREE_MODE \<longrightarrow> (\<exists>b. get (te_oid e) = Ok (Blob b)))))"

lemma complete_sub: "complete_tree get t \<Longrightarrow> subtree get t u \<Longrightarrow> complete_tree get u"
  unfolding complete_tree_def by (meson converse_rtranclp_into_rtranclp)

lemma rfold_Err: "rfold f s xs = Err e \<Longrightarrow> \<exists>t x. x \<in> set xs \<and> f t x = Err e"
proof (induction xs arbitrary: s)
  case (Cons x xs)
  then show ?case by (cases "f s x") (auto, fastforce)
qed simp

lemma rfold_total: "(\<And>s x. x \<in> set xs \<Longrightarrow> \<exists>t. f s x = Ok t) \<Longrightarrow> \<exists>t. rfold f s xs = Ok t"
proof (induction xs arbitrary: s)
  case (Cons x xs)
  obtain t where "f s x = Ok t" using Cons.prems [of x s] by auto
  moreover obtain u where "rfold f t xs = Ok u" using Cons.IH [of t] Cons.prems by auto
  ultimately show ?case by simp
qed simp

text \<open>The trees being walked all contain the one at hand, so none of them is met again.\<close>

lemma not_on_path:
  assumes "well_founded_trees get" and "\<forall>p \<in> set path. (subtree get)\<^sup>+\<^sup>+ p t"
  shows "t \<notin> set path"
  using assms by (auto simp: well_founded_trees_def)

lemma path_down:
  assumes "\<forall>p \<in> set path. (subtree get)\<^sup>+\<^sup>+ p t" and "subtree get t u"
  shows "\<forall>p \<in> set (t # path). (subtree get)\<^sup>+\<^sup>+ p u"
  using assms by (auto intro: tranclp.intros)

section \<open>Reading a tree\<close>

lemma walk_tree_ends:
  assumes "well_founded_trees get" and "\<forall>p \<in> set path. (subtree get)\<^sup>+\<^sup>+ p t"
  shows "walk_tree path get prefix t out \<noteq> Err Diverge
    \<and> (complete_tree get t \<longrightarrow> (\<exists>files. walk_tree path get prefix t out = Ok files))"
  using assms(2)
proof (induction "card (UNIV - set path)" arbitrary: path prefix t out rule: less_induct)
  case less
  have t: "t \<notin> set path" by (rule not_on_path [OF assms(1) less.prems])
  then have "UNIV - set (t # path) \<subset> UNIV - set path" by auto
  then have smaller: "card (UNIV - set (t # path)) < card (UNIV - set path)" by (intro psubset_card_mono) simp_all
  let ?f = "\<lambda>out e. let p = prefix @ te_name e
                in if te_mode e = TREE_MODE then walk_tree (t # path) get (p @ ''/'') (te_oid e) out
                   else rbind (get (te_oid e)) (\<lambda>b. case b of Blob bs \<Rightarrow> Ok (bt_insert p bs out)
                       | _ \<Rightarrow> Err (Malformed ''is not a blob''))"
  have down: "walk_tree (t # path) get q (te_oid e) out' \<noteq> Err Diverge
      \<and> (complete_tree get (te_oid e) \<longrightarrow> (\<exists>files. walk_tree (t # path) get q (te_oid e) out' = Ok files))"
    if "get t = Ok (Tree es)" "e \<in> set es" "te_mode e = TREE_MODE" for es e q out'
  proof -
    have "subtree get t (te_oid e)" using that by (auto simp: subtree_def)
    from less.hyps [OF smaller path_down [OF less.prems this]] show ?thesis .
  qed
  have no: "get x \<noteq> Err Diverge" for x using assms(1) by (simp add: well_founded_trees_def)
  show ?case
  proof (cases "\<exists>es. get t = Ok (Tree es)")
    case True
    then obtain es where es: "get t = Ok (Tree es)" by blast
    then have walk: "walk_tree path get prefix t out = rfold ?f out es"
      using t by (simp add: walk_tree.simps [of path])
    have "?f w e \<noteq> Err Diverge" if "e \<in> set es" for w e
      using down [OF es that] no [of "te_oid e"]
      by (cases "get (te_oid e)") (auto simp: Let_def split: git_object.split)
    then have "rfold ?f out es \<noteq> Err Diverge" using rfold_Err [of ?f out es Diverge] by blast
    moreover have "\<exists>files. rfold ?f out es = Ok files" if complete: "complete_tree get t"
    proof (rule rfold_total)
      fix out' e assume e: "e \<in> set es"
      show "\<exists>u. ?f out' e = Ok u"
      proof (cases "te_mode e = TREE_MODE")
        case True
        then have "subtree get t (te_oid e)" using es e by (auto simp: subtree_def)
        with down [OF es e True] complete_sub [OF complete] True show ?thesis by (simp add: Let_def)
      next
        case False
        with complete es e obtain b where "get (te_oid e) = Ok (Blob b)"
          unfolding complete_tree_def by fastforce
        with False show ?thesis by (simp add: Let_def)
      qed
    qed
    ultimately show ?thesis by (simp add: walk)
  next
    case False
    then have "\<not> complete_tree get t" unfolding complete_tree_def by blast
    moreover have "walk_tree path get prefix t out \<noteq> Err Diverge"
      using t False no [of t] by (cases "get t") (auto simp: walk_tree.simps [of path] split: git_object.split)
    ultimately show ?thesis by blast
  qed
qed

section \<open>The paths a commit adds\<close>

lemma tree_paths_added_ends:
  assumes "well_founded_trees get" and "\<forall>pc \<in> set path. (subtree get)\<^sup>+\<^sup>+ (snd pc) child"
  shows "tree_paths_added path get prefix parent child out \<noteq> Err Diverge"
  using assms(2)
proof (induction "card (UNIV - set path)" arbitrary: path prefix parent child out rule: less_induct)
  case less
  have "child \<notin> snd ` set path"
    using less.prems assms(1) by (auto simp: well_founded_trees_def)
  then have t: "(parent, child) \<notin> set path" by force
  then have "UNIV - set ((parent, child) # path) \<subset> UNIV - set path" by auto
  then have smaller: "card (UNIV - set ((parent, child) # path)) < card (UNIV - set path)"
    by (intro psubset_card_mono) simp_all
  have no: "get x \<noteq> Err Diverge" for x using assms(1) by (simp add: well_founded_trees_def)
  have down: "tree_paths_added ((parent, child) # path) get q sub (te_oid e) out' \<noteq> Err Diverge"
    if "get child = Ok (Tree es)" "e \<in> set es" "te_mode e = TREE_MODE" for es e q sub out'
  proof -
    have "subtree get child (te_oid e)" using that by (auto simp: subtree_def)
    then have "\<forall>pc \<in> set ((parent, child) # path). (subtree get)\<^sup>+\<^sup>+ (snd pc) (te_oid e)"
      using less.prems by (auto intro: tranclp.intros)
    from less.hyps [OF smaller this] show ?thesis .
  qed
  let ?parent = "case parent of None \<Rightarrow> Ok [] | Some x \<Rightarrow> rbind (get x) (\<lambda>pob. Ok (case pob of Tree es \<Rightarrow> es | _ \<Rightarrow> []))"
  have parent: "?parent \<noteq> Err Diverge"
    using no by (cases parent) (auto simp: rbind_Inl_iff)
  show ?case
  proof (cases "get child")
    case (Inl e)
    with no [of child] t show ?thesis by (auto simp: tree_paths_added.simps [of path])
  next
    case (Inr ob)
    show ?thesis
    proof (cases "\<exists>es. ob = Tree es \<and> Some child \<noteq> parent")
      case True
      then obtain es where es: "get child = Ok (Tree es)" "Some child \<noteq> parent" using Inr by blast
      define f :: "tree_entry list \<Rightarrow> string list \<Rightarrow> tree_entry \<Rightarrow> string list res" where "f pes = (\<lambda>out ce.
                    let p = prefix @ te_name ce;
                        pe = find (\<lambda>e. te_name e = te_name ce) pes
                    in if te_mode ce = TREE_MODE
                       then
                         (let parent_sub =
                            (case pe of
                               None \<Rightarrow> None
                             | Some e \<Rightarrow> if te_mode e = TREE_MODE then Some (te_oid e) else None)
                          in tree_paths_added ((parent, child) # path) get (p @ ''/'') parent_sub
                               (te_oid ce) out)
                       else
                         (case pe of
                            Some e \<Rightarrow> Ok (if te_mode e \<noteq> TREE_MODE then out else out @ [p])
                          | None \<Rightarrow> Ok (out @ [p])))" for pes
      have "f pes w e \<noteq> Err Diverge" if "e \<in> set es" for pes w e
        using down [OF es(1) that] by (auto simp: f_def Let_def split: option.split)
      then have "rfold (f pes) out es \<noteq> Err Diverge" for pes using rfold_Err [of "f pes" out es Diverge] by blast
      moreover have "tree_paths_added path get prefix parent child out = rbind ?parent (\<lambda>pes. rfold (f pes) out es)"
        using t es by (simp add: tree_paths_added.simps [of path] f_def)
      ultimately show ?thesis using parent by (auto simp: rbind_Inl_iff)
    next
      case False
      with Inr t show ?thesis by (auto simp: tree_paths_added.simps [of path] split: git_object.split)
    qed
  qed
qed

section \<open>Everything reachable\<close>

text \<open>What the walk returns holds the roots and everything its members refer to, all of it readable.\<close>

lemma reachable_loop_closed:
  assumes "reachable_loop get stack out = Ok res"
    and "\<forall>x \<in> set out. \<exists>ob. get x = Ok ob \<and> set (object_refs ob) \<subseteq> set out \<union> set stack"
  shows "set stack \<subseteq> set res \<and> set out \<subseteq> set res \<and> (\<forall>x \<in> set res. \<exists>ob. get x = Ok ob \<and> set (object_refs ob) \<subseteq> set res)"
  using assms
proof (induction get stack out rule: reachable_loop.induct)
  case (1 get out)
  then show ?case by simp
next
  case (2 get x stack out)
  show ?case
  proof (cases "x \<in> set out")
    case True
    have "\<forall>y \<in> set out. \<exists>ob. get y = Ok ob \<and> set (object_refs ob) \<subseteq> set out \<union> set stack"
    proof -
      have "insert x (set out \<union> set stack) = set out \<union> set stack" using True by blast
      with 2(4) show ?thesis by simp
    qed
    with 2(1) [OF True] 2(3) True show ?thesis by auto
  next
    case False
    with 2(3) obtain ob where ob: "get x = Ok ob"
      and run: "reachable_loop get (rev (object_refs ob) @ stack) (x # out) = Ok res"
      by (auto simp: rbind_Inr_iff)
    have "\<forall>y \<in> set (x # out). \<exists>ob'. get y = Ok ob' \<and>
        set (object_refs ob') \<subseteq> set (x # out) \<union> set (rev (object_refs ob) @ stack)"
      using 2(4) ob by fastforce
    from 2(2) [OF False ob run this] show ?thesis by auto
  qed
qed

lemma reachable_closed:
  assumes "reachable get roots = Ok res"
  shows "set roots \<subseteq> set res" and "x \<in> set res \<Longrightarrow> \<exists>ob. get x = Ok ob \<and> set (object_refs ob) \<subseteq> set res"
proof -
  obtain out where "reachable_loop get (rev roots) [] = Ok out" and "res = sort out"
    using assms by (auto simp: reachable_def rbind_Inr_iff)
  with reachable_loop_closed [of get "rev roots" "[]" out]
  show "set roots \<subseteq> set res" and "x \<in> set res \<Longrightarrow> \<exists>ob. get x = Ok ob \<and> set (object_refs ob) \<subseteq> set res"
    by auto
qed

end
