(* ===== verification/Vault_Properties.thy ===== *)
theory Vault_Properties
  imports Vault_Materialize Vault_Admission Demo_Disk Walk_Facts
begin

text \<open>
  Properties of the vault on disk (vault.rs, repo.rs): the type of its file tree and the invariant of its known
  primitives over all operations, what materializing does to each path and what it does not check, and what
  opening a vault takes in.
\<close>

section \<open>Over all operations\<close>






text \<open>C17. Opening a vault takes in what integration refused: a received commit that has the trailers of a primitive is
  stored before its signature is looked at, and the next time the vault is opened its id is among the known ones, with
  a signature that does not verify as well.\<close>
theorem open_admits_unsigned:
  assumes "vault_integrate C J raws v = (v', Ok n)" and "raw \<in> set raws" and "raw_commit C raw = Some c"
    and "parse_primitive_meta C c \<noteq> None" and "\<not> is_ok (verify_primitive C c)"
    and "parse_framed C (framed C (Commit c)) = Ok (Commit c)" and "\<not> disk_has C (va_git v) (oid_of C (Commit c))"
    and "inj_on (oid_of C) {ob. \<exists>raw \<in> set raws. decompress_and_parse C raw = Ok ob}"
    and "hex_laws C" and "zlib_laws C"
    and "vault_open C J listing ident (va_fs v', va_git v') = (s, Ok w)" and "oid_of C (Commit c) \<in> set listing"
  shows "to_hex C (oid_of C (Commit c)) \<in> set (es_known (va_state w))"
proof -
  let ?x = "oid_of C (Commit c)"
  have inv: "disk_inv C d" for d using assms(9,10) by (simp add: disk_inv_def)
  obtain d where d: "vault_put_raws C raws (va_git v) = (d, Ok ())" and le: "disk_le C d (va_git v')"
    by (rule vault_integrate_stored [OF assms(1)])
  have raw: "decompress_and_parse C raw = Ok (Commit c)"
    using assms(3) by (auto simp: raw_commit_def split: sum.splits git_object.splits)
  have "disk_get C d ?x = Ok (Commit c)" by (rule vault_raws_read [OF d inv assms(2) raw assms(7,8,6)])
  with le inv have "disk_get C (va_git v') ?x = Ok (Commit c)" by (simp add: disk_le_def get_le_def)
  then have scanned: "?x \<in> set (scan_primitives C listing (va_git v'))"
    using assms(4,12) by (simp add: scan_primitives_def is_primitive_def)
  obtain st where "va_state w = foldl (take_in C (va_git v')) st (scan_primitives C listing (va_git v'))"
    by (rule vault_open_Ok [OF assms(11)])
  with scanned show ?thesis by (simp add: take_in_known)
qed

lemma open_admits_unsigned_witness:
  "\<exists>v s w. vault_integrate demo demo_codec [compress demo (Commit demo_forged)] demo_open_vault = (v, Ok 0)
     \<and> vault_open demo demo_codec [oid_of demo (Commit demo_forged)] \<lparr>id_seed = ''A''\<rparr> (va_fs v, va_git v) = (s, Ok w)
     \<and> to_hex demo (oid_of demo (Commit demo_forged)) \<in> set (es_known (va_state w))"
proof -
  let ?raw = "compress demo (Commit demo_forged)" and ?x = "oid_of demo (Commit demo_forged)"
  note f = demo_forged_facts
  obtain v where run: "vault_integrate demo demo_codec [?raw] demo_open_vault = (v, Ok 0)"
    and dirs: "fs_dirs (va_fs v) = [''.context'']"
    and config: "fs_get (va_fs v) ''.context/config'' = Some (to_toml_string demo_config)"
    and state: "fs_get (va_fs v) ''.context/state'' = Some ''s''" and git: "''objects'' \<in> d_dirs (va_git v)"
    by (rule demo_forged_received)
  have "\<not> is_file (va_fs v) ''.context/state'' \<or> (\<exists>b. fs_get (va_fs v) ''.context/state'' = Some b
      \<and> (b = [] \<or> cd_decode demo_codec b \<noteq> None))" using state by (simp add: demo_codec_def)
  then obtain s w where open': "vault_open demo demo_codec [?x] \<lparr>id_seed = ''A''\<rparr> (va_fs v, va_git v) = (s, Ok w)"
    by (rule demo_vault_opens [OF dirs config _ git])
  have raw: "raw_commit demo ?raw = Some demo_forged" by (simp add: raw_commit_def f)
  have fresh: "\<not> disk_has demo (va_git demo_open_vault) ?x" by (rule demo_forged_fresh)
  have "inj_on (oid_of demo) {ob. \<exists>raw \<in> set [?raw]. decompress_and_parse demo raw = Ok ob}" by (simp add: f)
  from open_admits_unsigned [OF run _ raw _ f(2,4) fresh this demo_hex_laws demo_zlib_laws open'] run open'
  show ?thesis by (auto simp: f)
qed

text \<open>C38. A restart loses nothing: a vault that has saved its state and is opened again, on files and a repository left
  alone, knows every primitive it knew, has observed the same counters or more, and has the same record and
  snapshots, as long as the codec reads back what it wrote.\<close>
theorem state_survives_restart:
  assumes "save_state J v = (v', Ok ())" and "vault_open C J listing ident (va_fs v', va_git v') = (s, Ok w)"
    and "cd_encode J st \<noteq> []" and "cd_decode J (cd_encode J st) = Some st"
    and "st = merge_on_save (va_state v) (ok_opt (state_load J (va_fs v)))" and "bt_wf (es_snapshots (va_state v))"
  shows "set (es_known (va_state v)) \<subseteq> set (es_known (va_state w)) \<and> es_observed (va_state v) \<le> es_observed (va_state w)
    \<and> es_materialized (va_state w) = es_materialized (va_state v)
    \<and> (\<forall>k sn. bt_get (es_snapshots (va_state v)) k = Some sn \<longrightarrow> bt_get (es_snapshots (va_state w)) k = Some sn)"
proof -
  have "state_load J (va_fs v') = Ok st" using saved_then_loaded [OF assms(1,3,4,5)] .
  moreover obtain st' where "state_load J (va_fs v') = Ok st'"
    and w: "va_state w = foldl (take_in C (va_git v')) st' (scan_primitives C listing (va_git v'))"
    by (rule vault_open_Ok [OF assms(2)])
  ultimately have w: "va_state w = foldl (take_in C (va_git v')) st (scan_primitives C listing (va_git v'))" by simp
  have "set (es_known (va_state v)) \<subseteq> set (es_known st)" "es_observed (va_state v) \<le> es_observed st"
    "es_materialized st = es_materialized (va_state v)"
    "\<forall>k sn. bt_get (es_snapshots (va_state v)) k = Some sn \<longrightarrow> bt_get (es_snapshots st) k = Some sn"
    using merge_keeps [OF assms(6)] by (simp_all add: assms(5))
  with take_in_keeps [of st C "va_git v'" "scan_primitives C listing (va_git v')"] show ?thesis
    unfolding w by (auto intro: order_trans)
qed

definition demo_memory :: engine_state where
  "demo_memory = default_state\<lparr>es_known := [to_hex demo (Oid 2)]\<rparr>"

lemma state_survives_restart_witness:
  "let J = \<lparr>cd_encode = \<lambda>st. ''s'', cd_decode = \<lambda>b. Some demo_memory\<rparr> in
   \<exists>v s w. save_state J (demo_open_vault\<lparr>va_state := demo_memory\<rparr>) = (v, Ok ())
     \<and> vault_open demo J [] \<lparr>id_seed = ''A''\<rparr> (va_fs v, va_git v) = (s, Ok w)
     \<and> to_hex demo (Oid 2) \<in> set (es_known (va_state w))"
proof -
  define J where "J = \<lparr>cd_encode = \<lambda>st. ''s'', cd_decode = \<lambda>b. Some demo_memory\<rparr>"
  let ?v = "demo_open_vault\<lparr>va_state := demo_memory\<rparr>"
  have fs: "va_fs demo_open_vault = \<lparr>fs_files = [(''.context/config'', to_toml_string demo_config)], fs_dirs = [''.context'']\<rparr>"
    by (simp add: demo_open_vault_def)
  obtain v where save: "save_state J ?v = (v, Ok ())"
    by (rule demo_save [of ?v J]) (simp add: fs)
  have load: "state_load J (va_fs ?v) = Ok default_state"
    using demo_dirs [of "va_fs ?v" "''.context/state''"] by (simp add: state_load_def state_names fs is_file_def)
  have st: "demo_memory = merge_on_save (va_state ?v) (ok_opt (state_load J (va_fs ?v)))"
    by (simp only: load) (simp add: merge_on_save_def demo_memory_def default_state_def merge_snapshots_def merge_known_def)
  obtain v1 where v1: "state_save J demo_memory (va_fs ?v) = (v1, Ok ())" "va_fs v = v1" "va_git v = demo_repo ''h''"
    using save by (auto simp: save_state_def on_fs_def demo_open_vault_def split: prod.splits)
  have "''.context/config'' \<notin> state_paths" by (simp add: state_paths_eq)
  then have config: "fs_get (va_fs v) ''.context/config'' = Some (to_toml_string demo_config)"
    using state_save_elsewhere [OF v1(1)] v1(2) fs by simp
  have "fs_dirs (va_fs v) = [''.context'']" using state_save_dirs [OF v1(1)] v1(2) fs by simp
  moreover note config
  moreover have "\<not> is_file (va_fs v) ''.context/state'' \<or> (\<exists>b. fs_get (va_fs v) ''.context/state'' = Some b
      \<and> (b = [] \<or> cd_decode J b \<noteq> None))" using saved_file [OF v1(1)] v1(2) by (simp add: J_def state_names)
  moreover have "''objects'' \<in> d_dirs (va_git v)" unfolding v1(3) by (rule demo_repo_dirs)
  ultimately obtain s w where opened: "vault_open demo J [] \<lparr>id_seed = ''A''\<rparr> (va_fs v, va_git v) = (s, Ok w)"
    by (rule demo_vault_opens)
  have "es_known demo_memory = [to_hex demo (Oid 2)]" "bt_wf (es_snapshots (va_state ?v))"
    by (simp_all add: demo_memory_def default_state_def)
  with state_survives_restart [OF save opened _ _ st] save opened show ?thesis
    by (simp add: Let_def J_def [symmetric]) (auto simp: J_def)
qed

section \<open>Materializing\<close>

text \<open>C8. Materializing on disk meets the contract of a plan at every path: except for the state file and the
  temporary names it writes through, a path holds main's bytes where it was missing or unchanged since it was
  recorded, is gone where main has dropped an unchanged file, and is left alone otherwise; the record follows.\<close>
theorem vault_materialize_contract:
  assumes "vault_materialize C J v = (v', Ok ())" and "repo_main C (va_git v) = Some m"
    and "bt_wf (es_materialized (va_state v))"
  shows "\<exists>tree want. main_tree (va_get C v) m = Ok tree \<and> read_tree_to_files tree (va_get C v) = Ok want
    \<and> (\<forall>p. p \<notin> state_paths \<union> ctx_tmp ` set (bt_keys want) \<longrightarrow>
         fs_get (va_fs v') p = reconciled C (fs_get (va_fs v) p) (bt_get want p) (bt_get (es_materialized (va_state v)) p)
       \<and> bt_get (es_materialized (va_state v')) p =
           recorded C (fs_get (va_fs v) p) (bt_get want p) (bt_get (es_materialized (va_state v)) p))"
proof -
  obtain tree want where "main_tree (va_get C v) m = Ok tree" and "read_tree_to_files tree (va_get C v) = Ok want"
    and "\<And>q. q \<notin> state_paths \<union> ctx_tmp ` set (bt_keys want) \<Longrightarrow> path_view v' q = settled C (path_view v q) (bt_get want q)"
    using materialize_view [OF assms] by metis
  then show ?thesis by (intro exI [of _ tree] exI [of _ want]) (simp add: path_view_def settled_def)
qed

lemma vault_materialize_contract_witness:
  "\<exists>v. vault_materialize demo demo_codec (demo_vault ''h'' [(''f'', ''a'')] [(''f'', blob_hash demo ''a'')]) = (v, Ok ())
     \<and> fs_get (va_fs v) ''f'' = None \<and> fs_get (va_fs v) ''h'' = Some ''a''"
proof -
  let ?v = "demo_vault ''h'' [(''f'', ''a'')] [(''f'', blob_hash demo ''a'')]"
  obtain v where run: "vault_materialize demo demo_codec ?v = (v, Ok ())"
    using demo_materializes [of "''h''"] by blast
  have "from_utf8_ok ''h''" by (rule from_utf8_ok_ascii) (simp add: is_ascii_char_def)
  then have "main_tree (va_get demo ?v) (Oid 2) = Ok (Oid 1)" "read_tree_to_files (Oid 1) (va_get demo ?v) = Ok [(''h'', ''a'')]"
    using demo_repo_want [of "''h''"] by simp_all
  with vault_materialize_contract [OF run, of "Oid 2"]
  have "p \<notin> state_paths \<union> {''h.ctx-tmp''} \<longrightarrow> fs_get (va_fs v) p =
      reconciled demo (fs_get (va_fs ?v) p) (bt_get [(''h'', ''a'')] p) (bt_get (es_materialized (va_state ?v)) p)" for p
    by (simp add: bt_wf_def demo_names)
  from this [of "''f''"] this [of "''h''"] run show ?thesis by (simp add: state_paths_eq reconciled_def)
qed

text \<open>C20. What materializing does not check: a path of main's tree is written wherever it points, so a received
  primitive whose tree names a file of the context directory, which is out of scope under any patterns, puts that file in place.\<close>
theorem materialize_writes_context:
  assumes "vault_materialize C J v = (v', Ok ())" and "repo_main C (va_git v) = Some m"
    and "main_tree (va_get C v) m = Ok tree" and "read_tree_to_files tree (va_get C v) = Ok want"
    and "bt_get want (CONTEXT_DIR @ ''/'' @ name) = Some c" and "fs_get (va_fs v) (CONTEXT_DIR @ ''/'' @ name) = None"
    and "CONTEXT_DIR @ ''/'' @ name \<notin> state_paths \<union> ctx_tmp ` set (bt_keys want)"
    and "bt_wf (es_materialized (va_state v))"
  shows "fs_get (va_fs v') (CONTEXT_DIR @ ''/'' @ name) = Some c \<and> \<not> path_in_scope sc (CONTEXT_DIR @ ''/'' @ name)"
proof -
  have "path_view v' (CONTEXT_DIR @ ''/'' @ name) = settled C (path_view v (CONTEXT_DIR @ ''/'' @ name)) (Some c)"
    using materialize_view [OF assms(1,2,8)] assms(3-5,7) by (metis sum.inject(2))
  then show ?thesis
    using path_in_scope_context [of sc] assms(6) by (auto simp: path_view_def settled_def reconciled_def starts_with_iff)
qed

lemma materialize_writes_context_witness:
  "\<exists>v. vault_materialize demo demo_codec
       (demo_vault ''.context/exclude'' [(''f'', ''a'')] [(''f'', blob_hash demo ''a'')]) = (v, Ok ())
     \<and> fs_get (va_fs v) ''.context/exclude'' = Some ''a''"
proof -
  let ?v = "demo_vault ''.context/exclude'' [(''f'', ''a'')] [(''f'', blob_hash demo ''a'')]"
  obtain v where run: "vault_materialize demo demo_codec ?v = (v, Ok ())"
    using demo_materializes [of "''.context/exclude''"] by blast
  have "from_utf8_ok ''.context/exclude''" by (rule from_utf8_ok_ascii) (simp add: is_ascii_char_def)
  then have want: "main_tree (va_get demo ?v) (Oid 2) = Ok (Oid 1)"
    "read_tree_to_files (Oid 1) (va_get demo ?v) = Ok [(''.context/exclude'', ''a'')]"
    using demo_repo_want [of "''.context/exclude''"] by simp_all
  from materialize_writes_context [OF run _ want, of "''exclude''" "''a''"] run show ?thesis
    by (simp add: CONTEXT_DIR_def state_paths_eq demo_names bt_wf_def)
qed

text \<open>Writing a file goes through its name with another extension, and whatever the user keeps under that name is
  gone afterwards, neither deferred nor moved aside.\<close>
theorem place_drops_temp:
  assumes "place_file C p content v = (v', Ok ())" and "ctx_tmp p \<noteq> p"
  shows "fs_get (va_fs v') (ctx_tmp p) = None"
proof -
  obtain t u where "write_atomic (ctx_tmp p) p content t = (u, Ok ())" and "va_fs v' = u"
    using assms(1) by (auto simp: place_file_def sbind_Ok_iff on_fs_def record_hash_def on_mem_def split: prod.splits)
  with write_atomic_Ok(2) assms(2) show ?thesis by metis
qed

lemma place_drops_temp_witness:
  "\<exists>v. place_file demo ''h'' ''x'' (demo_vault ''h'' [(''h.ctx-tmp'', ''mine'')] []) = (v, Ok ())
     \<and> fs_get (va_fs v) ''h.ctx-tmp'' = None"
proof -
  let ?v = "demo_vault ''h'' [(''h.ctx-tmp'', ''mine'')] []"
  obtain v where run: "place_file demo ''h'' ''x'' ?v = (v, Ok ())"
    using demo_place [of "''h''" ?v "''x''"] by (auto simp: is_file_def)
  from place_drops_temp [OF run] run show ?thesis by (simp add: demo_names)
qed

section \<open>Admission\<close>

text \<open>C22. The vault decides on a peer as the in-memory engine does: on the same list of keys and the same settings it
  gives the same answer, the list it leaves behind is the engine's, and besides its lock and temporary file it touches
  nothing else.\<close>
theorem vault_admits_like_engine:
  assumes "vault_admit_peer C now line flag v = (v', Ok ok)"
    and "me_authorized e = text_or_default AUTHORIZED_KEYS (va_fs v)" and "me_config e = va_config v"
  shows "\<exists>e'. admit_peer C now line flag e = (e', Ok ok)
    \<and> (fs_get (va_fs v') AUTHORIZED_KEYS = Some (me_authorized e')
        \<or> e' = e \<and> fs_get (va_fs v') AUTHORIZED_KEYS = fs_get (va_fs v) AUTHORIZED_KEYS)
    \<and> fs_except key_paths (va_fs v) (va_fs v') \<and> va_state v' = va_state v \<and> va_git v' = va_git v"
  using vault_admit_engine [OF assms] .

lemma vault_admits_like_engine_witness:
  "\<exists>v'. vault_admit_peer demo 0 (key_words demo (node_of_bytes ''B'') []) True (demo_vault ''h'' [] []) = (v', Ok True)
     \<and> va_git v' = demo_repo ''h''
     \<and> (\<exists>e'. admit_peer demo 0 (key_words demo (node_of_bytes ''B'') []) True (demo_engine ''A'') = (e', Ok True))"
proof -
  let ?v = "demo_vault ''h'' [] []" and ?line = "key_words demo (node_of_bytes ''B'') []"
  obtain v' where run: "vault_admit_peer demo 0 ?line True ?v = (v', Ok True)" by (rule demo_admitted)
  have "me_authorized (demo_engine ''A'') = text_or_default AUTHORIZED_KEYS (va_fs ?v)"
    by (simp add: text_or_default_def read_text_def fs_read_def)
  moreover have "me_config (demo_engine ''A'') = va_config ?v" by (simp add: demo_vault_def)
  ultimately show ?thesis using vault_admits_like_engine [OF run] run by fastforce
qed

section \<open>Collection\<close>



section \<open>Walks\<close>

text \<open>C37. The walks over trees return: unless a tree contains itself, which content addressing rules out, reading a
  tree and listing the paths a commit adds come to an end from every tree, and reading a tree whose subtrees and files
  are all there returns its files.\<close>
theorem tree_walks_end:
  assumes "\<forall>x. get x \<noteq> Err Diverge" and "\<forall>u. \<not> (subtree get)\<^sup>+\<^sup>+ u u"
  shows "read_tree_to_files t get \<noteq> Err Diverge
    \<and> (complete_tree get t \<longrightarrow> (\<exists>files. read_tree_to_files t get = Ok files))
    \<and> tree_paths_added [] get prefix parent t out \<noteq> Err Diverge"
proof -
  have wf: "well_founded_trees get" using assms by (simp add: well_founded_trees_def)
  show ?thesis
    unfolding read_tree_to_files_def using walk_tree_ends [OF wf, of "[]" t] tree_paths_added_ends [OF wf, of "[]" t] by simp
qed

lemma tree_walks_end_witness:
  "\<exists>files. read_tree_to_files (Oid 4) (mem_get demo demo_store) = Ok files"
proof -
  let ?get = "mem_get demo demo_store"
  have no: "?get x \<noteq> Err Diverge" for x by (simp add: mem_get_def split: option.split)
  have flat: "\<not> subtree ?get t u" for t u
  proof
    assume "subtree ?get t u"
    then obtain es e where "?get t = Ok (Tree es)" "e \<in> set es" "te_mode e = TREE_MODE" unfolding subtree_def by blast
    then show False
      by (auto simp: mem_get_Ok_iff demo_store_def demo_file_def FILE_MODE_def TREE_MODE_def split: if_splits)
  qed
  have acyclic: "\<not> (subtree ?get)\<^sup>+\<^sup>+ u u" for u
  proof
    assume "(subtree ?get)\<^sup>+\<^sup>+ u u"
    then show False by (rule tranclp.cases) (simp_all add: flat)
  qed
  have only: "u = Oid 4" if "(subtree ?get)\<^sup>*\<^sup>* (Oid 4) u" for u
    using that by (rule rtranclp.cases) (simp_all add: flat)
  have "\<exists>es. ?get (Oid 4) = Ok (Tree es) \<and> (\<forall>e \<in> set es. te_mode e \<noteq> TREE_MODE \<longrightarrow> (\<exists>b. ?get (te_oid e) = Ok (Blob b)))"
    by (simp add: demo_file_def)
  then have "complete_tree ?get (Oid 4)" unfolding complete_tree_def using only by blast
  with tree_walks_end [of ?get "Oid 4"] no acyclic show ?thesis by blast
qed

end
