(* ===== verification/Net.thy ===== *)
theory Net
  imports Vault
begin

text \<open>
  The node on the network (\<open>net.rs\<close>): the check of an auth key when a connection is upgraded, the addresses a node
  dials, and the driver of its sessions. The driver runs one task per connection over the shared vault and the
  relay bus; here a node is its vault and its connections, and a task is the sequence of events it takes part in,
  so that a run of the node is any list of events. The frames of a connection are the messages they decode to, and
  a frame that does not decode is \<open>None\<close>, as is the end of the stream.
\<close>

section \<open>Traces\<close>

definition show_bool :: "bool \<Rightarrow> string" where
  "show_bool b = (if b then ''true'' else ''false'')"

definition show_raws :: "bytes list \<Rightarrow> string" where
  "show_raws raws = ''raws='' @ dec (length raws) @ '' bytes='' @ dec (sum_list (map length raws))"

fun msg_kind :: "msg \<Rightarrow> string" where
  "msg_kind (Hello a b c d e f) = ''Hello''"
| "msg_kind (AuthProof sig) = ''AuthProof''"
| "msg_kind (FrontierDigest tips) = ''FrontierDigest tips='' @ dec (length tips)"
| "msg_kind (WantTips tips) = ''WantTips tips='' @ dec (length tips)"
| "msg_kind (Objects raws) = ''Objects '' @ show_raws raws"
| "msg_kind (ObjectsBatch raws is_last) = ''ObjectsBatch '' @ show_raws raws @ '' is_last='' @ show_bool is_last"
| "msg_kind (Live raws) = ''Live '' @ show_raws raws"
| "msg_kind Ping = ''Ping''"
| "msg_kind Pong = ''Pong''"

section \<open>Auth keys\<close>

text \<open>Equality in constant time: the differences of all bytes are collected.\<close>

definition ct_eq :: "bytes \<Rightarrow> bytes \<Rightarrow> bool" where
  "ct_eq a b =
     (if length a \<noteq> length b then False
      else foldl (\<lambda>acc (x, y). or acc (xor (of_nat (byte x)) (of_nat (byte y)))) (0 :: 8 word) (zip a b) = 0)"

text \<open>A byte as a character of Latin-1, in UTF-8.\<close>

definition byte_char :: "nat \<Rightarrow> uchar" where
  "byte_char b = (if b < 128 then [char_of b] else [char_of (192 + b div 64), char_of (128 + b mod 64)])"

fun urldecode_chars :: "uchar list \<Rightarrow> string" where
  "urldecode_chars [] = []"
| "urldecode_chars (u # us) =
     (if u = ''+'' then '' '' @ urldecode_chars us
      else if u = ''%''
      then
        (let h = concat (take 2 us); rest = urldecode_chars (drop 2 us)
         in case parse_radix16 256 h of Some b \<Rightarrow> byte_char b @ rest | None \<Rightarrow> ''%'' @ h @ rest)
      else u @ urldecode_chars us)"

definition urldecode :: "string \<Rightarrow> string" where
  "urldecode s = urldecode_chars (str_chars s)"

text \<open>What the check reads of an upgrade request: the text of two headers, where there is one, and the query.\<close>

record ws_request =
  rq_authorization :: "string option"
  rq_protocol :: "string option"
  rq_query :: "string option"

text \<open>\<open>splitn(2, char::is_whitespace)\<close>.\<close>

definition split_ws :: "string \<Rightarrow> string \<times> string" where
  "split_ws s =
     (let cs = str_chars s
      in (concat (takeWhile (\<lambda>u. \<not> is_ws u) cs), concat (drop 1 (dropWhile (\<lambda>u. \<not> is_ws u) cs))))"

definition header_token :: "string option \<Rightarrow> string option" where
  "header_token h =
     (case h of
        None \<Rightarrow> None
      | Some v \<Rightarrow>
          (let (scheme, rest) = split_ws v; token = str_trim rest
           in if to_ascii_lowercase scheme = ''bearer'' \<and> token \<noteq> [] then Some token else None))"

definition first_some :: "('a \<Rightarrow> 'b option) \<Rightarrow> 'a list \<Rightarrow> 'b option" where
  "first_some f xs = (case List.map_filter f xs of [] \<Rightarrow> None | y # ys \<Rightarrow> Some y)"

definition nonempty_after :: "string \<Rightarrow> string \<Rightarrow> string option" where
  "nonempty_after p s = (case strip_prefix p s of Some t \<Rightarrow> if t \<noteq> [] then Some t else None | None \<Rightarrow> None)"

definition protocol_token :: "string option \<Rightarrow> string option" where
  "protocol_token h =
     (case h of
        None \<Rightarrow> None
      | Some v \<Rightarrow> first_some (nonempty_after ''bearer.'') (map str_trim (str_split (CHR '','') v)))"

definition query_token :: "string option \<Rightarrow> string option" where
  "query_token q =
     (case q of
        None \<Rightarrow> None
      | Some s \<Rightarrow> map_option urldecode (first_some (nonempty_after ''auth_key='') (str_split (CHR ''&'') s)))"

definition extract_bearer_token :: "ws_request \<Rightarrow> (string \<times> string) option" where
  "extract_bearer_token r =
     (case header_token (rq_authorization r) of
        Some t \<Rightarrow> Some (t, ''authorization-header'')
      | None \<Rightarrow>
          (case protocol_token (rq_protocol r) of
             Some t \<Rightarrow> Some (t, ''subprotocol'')
           | None \<Rightarrow> map_option (\<lambda>t. (t, ''query-string'')) (query_token (rq_query r))))"

text \<open>The body of the answer 401.\<close>

definition unauthorized_response :: "string \<Rightarrow> string" where
  "unauthorized_response reason = ''auth-key check failed: '' @ reason"

text \<open>The upgrade callback: the error is the body of an answer 401, the result whether the connection may enroll.\<close>

definition ws_upgrade :: "string list \<Rightarrow> ws_request \<Rightarrow> string + bool" where
  "ws_upgrade keys r =
     (if keys = [] then Inr False
      else
        (case extract_bearer_token r of
           None \<Rightarrow> Inr False
         | Some (token, source) \<Rightarrow>
             if list_ex (ct_eq token) keys then Inr True else Inl (unauthorized_response ''invalid auth key'')))"

section \<open>Addresses\<close>

definition url_scheme :: "string \<Rightarrow> bool \<times> string" where
  "url_scheme s =
     (case strip_prefix ''wss://'' s of
        Some r \<Rightarrow> (True, r)
      | None \<Rightarrow>
          (case strip_prefix ''ws://'' s of
             Some r \<Rightarrow> (False, r)
           | None \<Rightarrow>
               (case strip_prefix ''https://'' s of
                  Some r \<Rightarrow> (True, r)
                | None \<Rightarrow> (case strip_prefix ''http://'' s of Some r \<Rightarrow> (False, r) | None \<Rightarrow> (True, s)))))"

definition has_port :: "string \<Rightarrow> bool" where
  "has_port authority =
     (case rsplit_once (CHR '']'') authority of
        Some (_, after) \<Rightarrow> starts_with '':'' after
      | None \<Rightarrow> CHR '':'' \<in> set authority)"

definition normalize_url :: "string \<Rightarrow> string" where
  "normalize_url url =
     (let (secure, rest) = url_scheme (str_trim url);
          (authority, path) = (case str_find (CHR ''/'') rest of Some i \<Rightarrow> (take i rest, drop i rest) | None \<Rightarrow> (rest, []));
          scheme = (if secure then ''wss'' else ''ws'')
      in if authority = [] \<or> has_port authority then scheme @ ''://'' @ authority @ path
         else scheme @ ''://'' @ authority @ '':'' @ dec (if secure then 443 else 80) @ path)"

text \<open>What \<open>dial\<close> connects to: whether over TLS, the authority, and the server name it asks the certificate for.\<close>

definition dial_target :: "string \<Rightarrow> (bool \<times> string \<times> string) res" where
  "dial_target url =
     (let url = normalize_url url;
          authority = (\<lambda>rest. hd (str_split (CHR ''/'') rest));
          host = (\<lambda>a. case rsplit_once (CHR '':'') a of Some (h, _) \<Rightarrow> h | None \<Rightarrow> a)
      in case strip_prefix ''wss://'' url of
           Some rest \<Rightarrow> Ok (True, authority rest, host (authority rest))
         | None \<Rightarrow>
             (case strip_prefix ''ws://'' url of
                Some rest \<Rightarrow> Ok (False, authority rest, [])
              | None \<Rightarrow> Err (Protocol ''unsupported scheme'')))"

text \<open>What the probe of a clone takes from the first frame.\<close>

definition probe_hello :: "crates \<Rightarrow> identity \<Rightarrow> bytes \<Rightarrow> msg" where
  "probe_hello C ident nonce = Hello [] [] (to_ssh_string C ident) nonce [] PROTO_VERSION"

definition probe_result :: "msg option \<Rightarrow> (string \<times> string \<times> string) res" where
  "probe_result m =
     (case m of
        Some (Hello vault_id name node_ssh _ _ _) \<Rightarrow> Ok (vault_id, name, node_ssh)
      | _ \<Rightarrow> Err (Protocol ''probe: expected Hello''))"

section \<open>A node and its connections\<close>

text \<open>A connection: its session, what it has sent, whether the other end is gone, its place on the relay bus once it
  has subscribed, and the result of its task once that is over.\<close>

record conn =
  cn_session :: session
  cn_out :: "msg list"
  cn_closed :: bool
  cn_bus :: "bytes list list option"
  cn_done :: "unit res option"

record net_node =
  nd_vault :: vault
  nd_conns :: "conn list"

definition node_new :: "vault \<Rightarrow> net_node" where
  "node_new v = \<lparr>nd_vault = v, nd_conns = []\<rparr>"

definition BUS_CAPACITY :: nat where "BUS_CAPACITY = 4096"

text \<open>A slow reader of the bus loses the oldest entries; it passes over the gap.\<close>

definition bus_push :: "bytes list \<Rightarrow> conn \<Rightarrow> conn" where
  "bus_push raws c =
     (case cn_bus c of
        None \<Rightarrow> c
      | Some q \<Rightarrow> c\<lparr>cn_bus := Some (drop (length q + 1 - BUS_CAPACITY) (q @ [raws]))\<rparr>)"

definition bus_send :: "bytes list \<Rightarrow> net_node \<Rightarrow> net_node" where
  "bus_send raws nd = nd\<lparr>nd_conns := map (bus_push raws) (nd_conns nd)\<rparr>"

definition finish :: "unit res \<Rightarrow> conn \<Rightarrow> conn" where
  "finish r c = c\<lparr>cn_done := Some r, cn_bus := None\<rparr>"

definition send_frames :: "msg list \<Rightarrow> conn \<Rightarrow> conn" where
  "send_frames ms c =
     (if ms = [] then c
      else if cn_closed c then finish (Err (Protocol ''transport closed'')) c
      else c\<lparr>cn_out := cn_out c @ ms\<rparr>)"

text \<open>The stages of a task: before the handshake is over, before it has subscribed to the bus, and after.\<close>

definition greeting :: "conn \<Rightarrow> bool" where
  "greeting c = (cn_done c = None \<and> cn_bus c = None \<and> \<not> established (cn_session c))"

definition joining :: "conn \<Rightarrow> bool" where
  "joining c = (cn_done c = None \<and> cn_bus c = None \<and> established (cn_session c))"

definition subscribed :: "conn \<Rightarrow> bool" where
  "subscribed c = (cn_done c = None \<and> cn_bus c \<noteq> None)"

section \<open>Events\<close>

text \<open>One connection's part in an event; the objects to relay come with it.\<close>

definition conn_frame :: "crates \<Rightarrow> codec \<Rightarrow> u64 \<Rightarrow> msg option \<Rightarrow> conn \<times> vault \<Rightarrow> (conn \<times> vault) \<times> bytes list" where
  "conn_frame C J now m = (\<lambda>(c, v).
     if greeting c \<or> subscribed c
     then
       (case m of
          None \<Rightarrow> ((finish (Ok ()) c, v), [])
        | Some m \<Rightarrow>
            (case on_msg C (disk_vault_ops C J now) m (cn_session c, v) of
               ((s, v), Inl e) \<Rightarrow> ((finish (Err e) (c\<lparr>cn_session := s\<rparr>), v), [])
             | ((s, v), Inr step) \<Rightarrow>
                 (let c' = send_frames (st_out step) (c\<lparr>cn_session := s\<rparr>)
                  in ((c', v), if subscribed c \<and> cn_done c' = None then st_relay step else []))))
     else ((c, v), []))"

definition conn_timeout :: "conn \<Rightarrow> conn" where
  "conn_timeout c = (if greeting c then finish (Err (Protocol ''handshake timeout'')) c else c)"

definition conn_subscribe :: "conn \<Rightarrow> conn" where
  "conn_subscribe c = (if joining c then c\<lparr>cn_bus := Some []\<rparr> else c)"

definition conn_relayed :: "conn \<Rightarrow> conn" where
  "conn_relayed c =
     (case cn_bus c of
        Some (raws # rest) \<Rightarrow> send_frames (on_relay (cn_session c) raws) (c\<lparr>cn_bus := Some rest\<rparr>)
      | _ \<Rightarrow> c)"

text \<open>A task starts with its own greeting on the way.\<close>

definition conn_open :: "crates \<Rightarrow> codec \<Rightarrow> role \<Rightarrow> bytes \<Rightarrow> bytes \<Rightarrow> bool \<Rightarrow> vault \<Rightarrow> conn" where
  "conn_open C J rl cb nonce enrolled v =
     (let s = set_enrollment_authorized enrolled (session_new rl cb nonce)
      in \<lparr>cn_session = s, cn_out = [session_start (disk_vault_ops C J 0) s v], cn_closed = False,
          cn_bus = None, cn_done = None\<rparr>)"

text \<open>\<open>accept_ws\<close>: a connection is taken on when its upgrade is let through.\<close>

definition accept_ws :: "crates \<Rightarrow> codec \<Rightarrow> string list \<Rightarrow> ws_request \<Rightarrow> bytes \<Rightarrow> bytes \<Rightarrow> net_node \<Rightarrow> net_node" where
  "accept_ws C J keys req cb nonce nd =
     (case ws_upgrade keys req of
        Inl body \<Rightarrow> nd
      | Inr enrolled \<Rightarrow> nd\<lparr>nd_conns := nd_conns nd @ [conn_open C J Listener cb nonce enrolled (nd_vault nd)]\<rparr>)"

definition connect_once :: "crates \<Rightarrow> codec \<Rightarrow> bytes \<Rightarrow> bytes \<Rightarrow> net_node \<Rightarrow> net_node" where
  "connect_once C J cb nonce nd =
     nd\<lparr>nd_conns := nd_conns nd @ [conn_open C J Connector cb nonce False (nd_vault nd)]\<rparr>"

text \<open>\<open>commit_and_publish\<close>.\<close>

definition commit_and_publish :: "crates \<Rightarrow> codec \<Rightarrow> u64 \<Rightarrow> u64 \<Rightarrow> (net_node, string option) seff" where
  "commit_and_publish C J now wall nd =
     (case commit_local_changes C J now wall (nd_vault nd) of
        (v, Inl e) \<Rightarrow> (nd\<lparr>nd_vault := v\<rparr>, Err e)
      | (v, Inr None) \<Rightarrow> (nd\<lparr>nd_vault := v\<rparr>, Ok None)
      | (v, Inr (Some x)) \<Rightarrow>
          (case vault_export_closure C v [x] of
             Inl e \<Rightarrow> (nd\<lparr>nd_vault := v\<rparr>, Err e)
           | Inr raws \<Rightarrow> (bus_send raws (nd\<lparr>nd_vault := v\<rparr>), Ok (Some (to_hex C x)))))"

text \<open>The events of a node. The other tasks of the process that hold the vault, and the user, change it between
  them: \<open>Elsewhere\<close> is any call of the vault, with its result.\<close>

datatype event =
    Accept "string list" ws_request bytes bytes
  | Connect bytes bytes
  | Frame nat u64 "msg option"
  | HandshakeTimeout nat
  | Subscribe nat
  | Relayed nat
  | PeerGone nat
  | CommitNow u64 u64
  | Elsewhere "vault \<Rightarrow> vault"

definition at_conn :: "nat \<Rightarrow> (conn \<Rightarrow> conn) \<Rightarrow> net_node \<Rightarrow> net_node" where
  "at_conn i f nd = (if i < length (nd_conns nd) then nd\<lparr>nd_conns := (nd_conns nd)[i := f (nd_conns nd ! i)]\<rparr> else nd)"

text \<open>What a frame makes the node relay.\<close>

definition frame_relay :: "crates \<Rightarrow> codec \<Rightarrow> nat \<Rightarrow> u64 \<Rightarrow> msg option \<Rightarrow> net_node \<Rightarrow> bytes list" where
  "frame_relay C J i now m nd =
     (if i < length (nd_conns nd) then snd (conn_frame C J now m (nd_conns nd ! i, nd_vault nd)) else [])"

definition on_frame :: "crates \<Rightarrow> codec \<Rightarrow> nat \<Rightarrow> u64 \<Rightarrow> msg option \<Rightarrow> net_node \<Rightarrow> net_node" where
  "on_frame C J i now m nd =
     (if i < length (nd_conns nd)
      then
        (case conn_frame C J now m (nd_conns nd ! i, nd_vault nd) of
           ((c, v), relay) \<Rightarrow>
             (let nd' = \<lparr>nd_vault = v, nd_conns = (nd_conns nd)[i := c]\<rparr>
              in if relay \<noteq> [] then bus_send relay nd' else nd'))
      else nd)"

fun net_step :: "crates \<Rightarrow> codec \<Rightarrow> net_node \<Rightarrow> event \<Rightarrow> net_node" where
  "net_step C J nd (Accept keys req cb nonce) = accept_ws C J keys req cb nonce nd"
| "net_step C J nd (Connect cb nonce) = connect_once C J cb nonce nd"
| "net_step C J nd (Frame i now m) = on_frame C J i now m nd"
| "net_step C J nd (HandshakeTimeout i) = at_conn i conn_timeout nd"
| "net_step C J nd (Subscribe i) = at_conn i conn_subscribe nd"
| "net_step C J nd (Relayed i) = at_conn i conn_relayed nd"
| "net_step C J nd (PeerGone i) = at_conn i (\<lambda>c. c\<lparr>cn_closed := True\<rparr>) nd"
| "net_step C J nd (CommitNow now wall) = fst (commit_and_publish C J now wall nd)"
| "net_step C J nd (Elsewhere f) = nd\<lparr>nd_vault := f (nd_vault nd)\<rparr>"

definition net_run :: "crates \<Rightarrow> codec \<Rightarrow> net_node \<Rightarrow> event list \<Rightarrow> net_node" where
  "net_run C J = foldl (net_step C J)"

end
