(* ===== verification/Net_Facts.thy ===== *)
theory Net_Facts
  imports Net Vault_Facts
begin

text \<open>
  Facts about a node on the network: what each event does to a connection, the invariant that ties what a
  connection has sent to the proof its peer gave, and how much is relayed.
\<close>

section \<open>Sessions over the vault on disk\<close>

lemma established_stays:
  assumes "on_msg C V m (s, v) = ((s', v'), r)" and "established s"
  shows "established s'"
proof -
  have "on_established C V m (s, v) = ((s', v'), r)" using assms by (simp add: on_msg_def established_def)
  with keepsD2 [OF peer_on_established this] assms(2) show ?thesis by (auto simp: same_peer_def established_def)
qed

text \<open>The frames of a handshake.\<close>

fun is_greeting :: "msg \<Rightarrow> bool" where
  "is_greeting (Hello a b c d e f) = True"
| "is_greeting (AuthProof sig) = True"
| "is_greeting _ = False"

lemma greeting_answer:
  assumes "on_msg C V m (s, v) = ((s', v'), Ok x)" and "\<not> established s'"
  shows "list_all is_greeting (st_out x)"
proof (cases "se_phase s")
  case AwaitHello
  with assms on_hello_cases [of V m s v s' v' "Ok x"] show ?thesis by (auto simp: on_msg_def)
next
  case (AwaitAuth script peer)
  with assms on_auth_cases [of C V script peer m s v s' v' "Ok x"] show ?thesis
    by (auto simp: on_msg_def established_def)
next
  case Established
  with established_stays [OF assms(1)] assms(2) show ?thesis by (simp add: established_def)
qed

text \<open>The invariant of one session: what proves its peer, and for a listener that the peer was admitted.\<close>

definition admitted_once :: "crates \<Rightarrow> bool \<Rightarrow> string \<Rightarrow> bool" where
  "admitted_once C flag peer \<longleftrightarrow> (\<exists>now v v'. vault_admit_peer C now peer flag v = (v', Ok True))"

definition gate :: "crates \<Rightarrow> session \<Rightarrow> msg list \<Rightarrow> session \<Rightarrow> bool" where
  "gate C s0 ms s \<longleftrightarrow>
     auth_inv C s0 ms s \<and> se_enrollment_authorized s = se_enrollment_authorized s0
     \<and> (established s \<and> se_role s0 = Listener \<longrightarrow>
          (\<exists>peer. se_peer_ssh s = Some peer \<and> admitted_once C (se_enrollment_authorized s0) peer))"

lemma gate_step:
  assumes "gate C s0 ms s" and "on_msg C (disk_vault_ops C J now) m (s, v) = ((s', v'), r)"
  shows "gate C s0 (ms @ [m]) s'"
proof -
  have inv: "auth_inv C s0 (ms @ [m]) s'" using auth_inv_step [OF _ assms(2)] assms(1) by (simp add: gate_def)
  show ?thesis
  proof (cases "se_phase s")
    case AwaitHello
    with assms(2) have "on_hello (disk_vault_ops C J now) m (s, v) = ((s', v'), r)" by (simp add: on_msg_def)
    from on_hello_cases [OF this] AwaitHello have "\<not> established s'" "se_enrollment_authorized s' = se_enrollment_authorized s"
      by (auto simp: established_def)
    with inv assms(1) show ?thesis by (simp add: gate_def)
  next
    case (AwaitAuth script peer)
    with assms(2) have "on_auth C (disk_vault_ops C J now) script peer m (s, v) = ((s', v'), r)" by (simp add: on_msg_def)
    from on_auth_cases [OF this] AwaitAuth
    have "s' = s \<and> \<not> established s' \<or>
        (se_role s = Listener \<longrightarrow> admitted_once C (se_enrollment_authorized s) peer)
        \<and> s' = s\<lparr>se_peer_ssh := Some peer, se_phase := Established\<rparr>"
      by (auto simp: established_def disk_vault_ops_def admitted_once_def)
    with inv assms(1) show ?thesis unfolding gate_def auth_inv_def by auto
  next
    case Established
    with assms(2) have "on_established C (disk_vault_ops C J now) m (s, v) = ((s', v'), r)" by (simp add: on_msg_def)
    from keepsD2 [OF peer_on_established this] obtain batch where "s' = s\<lparr>se_pending_batch := batch\<rparr>"
      by (auto simp: same_peer_def)
    with inv assms(1) Established show ?thesis by (auto simp: gate_def established_def)
  qed
qed

lemma gate_mono: "gate C s0 ms s \<Longrightarrow> gate C s0 (ms @ ms') s"
proof (induction ms' rule: rev_induct)
  case (snoc m ms')
  then have "gate C s0 (ms @ ms') s" by simp
  then have "gate C s0 ((ms @ ms') @ [m]) s"
    using hello_seen_mono proved_by_mono unfolding gate_def auth_inv_def by (fastforce split: phase.splits)
  then show ?case by simp
qed simp

section \<open>One connection\<close>

lemmas conn_defs = greeting_def joining_def subscribed_def finish_def

definition conn_inv :: "crates \<Rightarrow> (session \<Rightarrow> bool) \<Rightarrow> msg list \<Rightarrow> conn \<Rightarrow> bool" where
  "conn_inv C origin ms c \<longleftrightarrow>
     (\<exists>s0. origin s0 \<and> gate C s0 ms (cn_session c))
     \<and> (\<not> established (cn_session c) \<longrightarrow> list_all is_greeting (cn_out c) \<and> cn_bus c = None)"

lemma conn_inv_mono:
  "conn_inv C origin ms c \<Longrightarrow> (\<And>s0. origin s0 \<Longrightarrow> origin' s0) \<Longrightarrow> conn_inv C origin' (ms @ ms') c"
  unfolding conn_inv_def using gate_mono by blast

text \<open>Events that leave the session alone and send nothing new before the handshake is over.\<close>

lemma conn_inv_same:
  assumes "conn_inv C origin ms c" and "cn_session c' = cn_session c"
    and "\<not> established (cn_session c) \<Longrightarrow> cn_out c' = cn_out c \<and> (cn_bus c = None \<longrightarrow> cn_bus c' = None)"
  shows "conn_inv C origin ms c'"
  using assms unfolding conn_inv_def by auto

lemma send_frames_session [simp]: "cn_session (send_frames ms c) = cn_session c"
  by (simp add: send_frames_def finish_def)

lemma bus_push_sel [simp]:
  "cn_session (bus_push raws c) = cn_session c" "cn_out (bus_push raws c) = cn_out c"
  "cn_bus (bus_push raws c) = None \<longleftrightarrow> cn_bus c = None" "cn_done (bus_push raws c) = cn_done c"
  by (simp_all add: bus_push_def split: option.split)

lemma conn_frame_inv:
  assumes inv: "conn_inv C origin ms c" and run: "conn_frame C J now m (c, v) = ((c', v'), relay)"
  shows "conn_inv C origin (ms @ (case m of None \<Rightarrow> [] | Some x \<Rightarrow> [x])) c'"
proof (cases "\<exists>x. m = Some x \<and> (greeting c \<or> subscribed c)")
  case False
  with run have "c' = c \<or> c' = finish (Ok ()) c" by (cases m) (auto simp: conn_frame_def split: if_splits)
  then have "conn_inv C origin ms c'" by (intro conn_inv_same [OF inv]) (auto simp: finish_def)
  from conn_inv_mono [OF this] show ?thesis by blast
next
  case True
  then obtain x where m: "m = Some x" and live: "greeting c \<or> subscribed c" by blast
  obtain s u r where msg: "on_msg C (disk_vault_ops C J now) x (cn_session c, v) = ((s, u), r)" by (metis prod.exhaust)
  have c': "c' = (case r of Inl e \<Rightarrow> finish (Err e) (c\<lparr>cn_session := s\<rparr>)
      | Inr step \<Rightarrow> send_frames (st_out step) (c\<lparr>cn_session := s\<rparr>))"
    using run live by (auto simp: conn_frame_def m msg Let_def split: sum.splits)
  obtain s0 where s0: "origin s0" "gate C s0 ms (cn_session c)" using inv by (auto simp: conn_inv_def)
  have sess: "cn_session c' = s" by (simp add: c' finish_def split: sum.split)
  have "list_all is_greeting (cn_out c') \<and> cn_bus c' = None" if new: "\<not> established s"
  proof -
    have "\<not> established (cn_session c)" using established_stays [OF msg] new by blast
    with inv have old: "list_all is_greeting (cn_out c)" "cn_bus c = None" by (simp_all add: conn_inv_def)
    show ?thesis
    proof (cases r)
      case (Inl e)
      with old show ?thesis by (simp add: c' finish_def)
    next
      case (Inr y)
      with greeting_answer [of C _ x _ v s u y] msg new have "list_all is_greeting (st_out y)" by blast
      with old Inr show ?thesis by (simp add: c' send_frames_def finish_def)
    qed
  qed
  with gate_step [OF s0(2) msg] s0(1) sess show ?thesis by (auto simp: conn_inv_def m)
qed

lemma conn_open_inv:
  assumes "origin (set_enrollment_authorized flag (session_new rl cb nonce))"
  shows "conn_inv C origin [] (conn_open C J rl cb nonce flag v)"
  unfolding conn_inv_def conn_open_def
  using assms by (auto simp: Let_def session_start_def gate_def auth_inv_def established_def
      set_enrollment_authorized_def session_new_def intro!: exI [of _ "set_enrollment_authorized flag (session_new rl cb nonce)"])

section \<open>All connections of a node\<close>

text \<open>The messages that a connection of the node is given in a run.\<close>

definition frame_to :: "nat \<Rightarrow> net_node \<Rightarrow> event \<Rightarrow> msg list" where
  "frame_to i nd ev =
     (case ev of Frame k now (Some m) \<Rightarrow> if k = i \<and> i < length (nd_conns nd) then [m] else [] | _ \<Rightarrow> [])"

fun heard :: "crates \<Rightarrow> codec \<Rightarrow> nat \<Rightarrow> net_node \<Rightarrow> event list \<Rightarrow> msg list" where
  "heard C J i nd [] = []"
| "heard C J i nd (ev # evs) = frame_to i nd ev @ heard C J i (net_step C J nd ev) evs"

lemma heard_snoc: "heard C J i nd (evs @ [ev]) = heard C J i nd evs @ frame_to i (net_run C J nd evs) ev"
  by (induction evs arbitrary: nd) (simp_all add: net_run_def)

lemma net_run_simps [simp]:
  "net_run C J nd [] = nd" "net_run C J nd (evs @ [ev]) = net_step C J (net_run C J nd evs) ev"
  by (simp_all add: net_run_def)

text \<open>How the session of a connection began.\<close>

definition began :: "event list \<Rightarrow> session \<Rightarrow> bool" where
  "began evs s0 \<longleftrightarrow>
     (\<exists>keys req cb nonce flag. Accept keys req cb nonce \<in> set evs \<and> ws_upgrade keys req = Inr flag
        \<and> s0 = set_enrollment_authorized flag (session_new Listener cb nonce))
     \<or> (\<exists>cb nonce. Connect cb nonce \<in> set evs
        \<and> s0 = set_enrollment_authorized False (session_new Connector cb nonce))"

lemma began_mono: "began evs s0 \<Longrightarrow> began (evs @ [ev]) s0"
  unfolding began_def by (simp only: set_append) blast

lemma bus_send_conns [simp]: "nd_conns (bus_send raws nd) = map (bus_push raws) (nd_conns nd)"
  by (simp add: bus_send_def)

lemma conn_inv_push: "conn_inv C origin ms c \<Longrightarrow> conn_inv C origin ms (bus_push raws c)"
  by (erule conn_inv_same) simp_all

lemma conn_inv_plain:
  assumes "conn_inv C origin ms c"
  shows "conn_inv C origin ms (conn_timeout c)" "conn_inv C origin ms (conn_subscribe c)"
    "conn_inv C origin ms (conn_relayed c)" "conn_inv C origin ms (c\<lparr>cn_closed := b\<rparr>)"
proof -
  show "conn_inv C origin ms (conn_timeout c)" by (rule conn_inv_same [OF assms]) (simp_all add: conn_timeout_def finish_def)
  show "conn_inv C origin ms (conn_subscribe c)"
    by (rule conn_inv_same [OF assms]) (simp_all add: conn_subscribe_def joining_def)
  have "established (cn_session c)" if "cn_bus c \<noteq> None" using assms that by (auto simp: conn_inv_def)
  then show "conn_inv C origin ms (conn_relayed c)"
    by (intro conn_inv_same [OF assms]) (auto simp: conn_relayed_def split: option.splits list.splits)
  show "conn_inv C origin ms (c\<lparr>cn_closed := b\<rparr>)" by (rule conn_inv_same [OF assms]) simp_all
qed

lemma at_conn_nth:
  "length (nd_conns (at_conn k f nd)) = length (nd_conns nd)"
  "i < length (nd_conns nd) \<Longrightarrow> nd_conns (at_conn k f nd) ! i = (if i = k then f (nd_conns nd ! i) else nd_conns nd ! i)"
  by (auto simp: at_conn_def)

lemma publish_cases:
  obtains (quiet) v r where "commit_local_changes C J now wall (nd_vault nd) = (v, r)"
      and "fst (commit_and_publish C J now wall nd) = nd\<lparr>nd_vault := v\<rparr>"
      and "\<And>h. snd (commit_and_publish C J now wall nd) \<noteq> Ok (Some h)"
  | (sent) v x raws where "commit_local_changes C J now wall (nd_vault nd) = (v, Ok (Some x))"
      and "vault_export_closure C v [x] = Ok raws"
      and "commit_and_publish C J now wall nd = (bus_send raws (nd\<lparr>nd_vault := v\<rparr>), Ok (Some (to_hex C x)))"
proof -
  obtain v r where run: "commit_local_changes C J now wall (nd_vault nd) = (v, r)" by fastforce
  show thesis
  proof (cases "\<exists>x raws. r = Ok (Some x) \<and> vault_export_closure C v [x] = Ok raws")
    case True
    with run that(2) show thesis by (auto simp: commit_and_publish_def)
  next
    case False
    with run show thesis
      by (intro that(1) [of v r]) (auto simp: commit_and_publish_def split: sum.split option.split)
  qed
qed

lemma publish_conns:
  obtains "nd_conns (fst (commit_and_publish C J now wall nd)) = nd_conns nd"
  | raws where "nd_conns (fst (commit_and_publish C J now wall nd)) = map (bus_push raws) (nd_conns nd)"
  by (cases rule: publish_cases [of C J now wall nd]) (use that in auto)

lemma node_inv_step:
  assumes inv: "\<And>i. i < length (nd_conns nd) \<Longrightarrow> conn_inv C (began evs) (msgs i) (nd_conns nd ! i)"
    and new: "\<And>i. length (nd_conns nd) \<le> i \<Longrightarrow> msgs i = []"
    and i: "i < length (nd_conns (net_step C J nd ev))"
  shows "conn_inv C (began (evs @ [ev])) (msgs i @ frame_to i nd ev) (nd_conns (net_step C J nd ev) ! i)"
proof -
  have old: "conn_inv C (began (evs @ [ev])) (msgs i @ ms') (nd_conns nd ! i)" if "i < length (nd_conns nd)" for ms'
    using conn_inv_mono [OF inv [OF that] began_mono] .
  show ?thesis
  proof (cases ev)
    case (Accept keys req cb nonce)
    show ?thesis
    proof (cases "i < length (nd_conns nd)")
      case True
      with old [of "[]"] Accept show ?thesis by (simp add: accept_ws_def frame_to_def nth_append split: sum.split)
    next
      case False
      with i Accept obtain flag where flag: "ws_upgrade keys req = Inr flag" and len: "i = length (nd_conns nd)"
        by (auto simp: accept_ws_def split: sum.splits)
      have "began (evs @ [ev]) (set_enrollment_authorized flag (session_new Listener cb nonce))"
        unfolding began_def using flag Accept by (metis in_set_conv_decomp)
      from conn_open_inv [where origin = "began (evs @ [ev])", OF this] show ?thesis
        using Accept flag len new [of i] by (simp add: accept_ws_def frame_to_def)
    qed
  next
    case (Connect cb nonce)
    show ?thesis
    proof (cases "i < length (nd_conns nd)")
      case True
      with old [of "[]"] Connect show ?thesis by (simp add: connect_once_def frame_to_def nth_append)
    next
      case False
      with i Connect have len: "i = length (nd_conns nd)" by (simp add: connect_once_def)
      have "began (evs @ [ev]) (set_enrollment_authorized False (session_new Connector cb nonce))"
        using Connect by (auto simp: began_def)
      from conn_open_inv [where origin = "began (evs @ [ev])", OF this] show ?thesis
        using Connect len new [of i] by (simp add: connect_once_def frame_to_def)
    qed
  next
    case (Frame k now m)
    show ?thesis
    proof (cases "k < length (nd_conns nd)")
      case False
      with Frame i old [of "frame_to i nd ev"] show ?thesis by (simp add: on_frame_def)
    next
      case True
      obtain c v relay where run: "conn_frame C J now m (nd_conns nd ! k, nd_vault nd) = ((c, v), relay)"
        by (metis prod.exhaust)
      have conns: "nd_conns (net_step C J nd ev) =
          (if relay \<noteq> [] then map (bus_push relay) ((nd_conns nd)[k := c]) else (nd_conns nd)[k := c])"
        using True by (simp add: Frame on_frame_def run Let_def)
      with i have il: "i < length (nd_conns nd)" by (simp split: if_splits)
      have "conn_inv C (began (evs @ [ev])) (msgs i @ frame_to i nd ev) ((nd_conns nd)[k := c] ! i)"
      proof (cases "i = k")
        case True
        from conn_frame_inv [OF old [OF il, of "[]"], of J now m "nd_vault nd" c v relay] run True il
        show ?thesis by (cases m) (simp_all add: Frame frame_to_def)
      next
        case False
        then show ?thesis using old [OF il] by simp
      qed
      with il show ?thesis by (simp add: conns conn_inv_push)
    qed
  next
    case (CommitNow now wall)
    from i have il: "i < length (nd_conns nd)" by (cases rule: publish_conns [of C J now wall nd]) (simp_all add: CommitNow)
    show ?thesis
      by (cases rule: publish_conns [of C J now wall nd])
        (use old [OF il, of "[]"] il in \<open>simp_all add: CommitNow frame_to_def conn_inv_push\<close>)
  qed (use old [of "[]"] i in \<open>auto simp: at_conn_nth frame_to_def conn_inv_plain\<close>)
qed

lemma node_inv:
  assumes "nd_conns nd0 = []" and "i < length (nd_conns (net_run C J nd0 evs))"
  shows "conn_inv C (began evs) (heard C J i nd0 evs) (nd_conns (net_run C J nd0 evs) ! i)"
proof -
  have "(\<forall>i < length (nd_conns (net_run C J nd0 evs)).
      conn_inv C (began evs) (heard C J i nd0 evs) (nd_conns (net_run C J nd0 evs) ! i))
    \<and> (\<forall>i \<ge> length (nd_conns (net_run C J nd0 evs)). heard C J i nd0 evs = [])"
  proof (induction evs rule: rev_induct)
    case Nil
    with assms(1) show ?case by simp
  next
    case (snoc ev evs)
    let ?nd = "net_run C J nd0 evs"
    have grow: "length (nd_conns ?nd) \<le> length (nd_conns (net_step C J ?nd ev))"
    proof (cases ev)
      case (CommitNow now wall)
      then show ?thesis by (cases rule: publish_conns [of C J now wall ?nd]) simp_all
    qed (auto simp: accept_ws_def connect_once_def on_frame_def at_conn_nth Let_def split: sum.split prod.split)
    have "conn_inv C (began (evs @ [ev])) (heard C J i nd0 (evs @ [ev])) (nd_conns (net_run C J nd0 (evs @ [ev])) ! i)"
      if "i < length (nd_conns (net_run C J nd0 (evs @ [ev])))" for i
      using node_inv_step [of ?nd C evs "\<lambda>i. heard C J i nd0 evs" i J ev] snoc that by (simp add: heard_snoc)
    moreover have "heard C J i nd0 (evs @ [ev]) = []" if "length (nd_conns (net_run C J nd0 (evs @ [ev]))) \<le> i" for i
      using that grow snoc by (auto simp: heard_snoc frame_to_def split: event.split option.split)
    ultimately show ?case by blast
  qed
  with assms(2) show ?thesis by blast
qed

end
