(* ===== verification/Gossip_Facts.thy ===== *)
theory Gossip_Facts
  imports Net_Facts
begin

text \<open>
  How much a node relays: a frame is passed on only when it has brought a primitive that was not known, so that the
  number of relays, and with it the number of frames sent on, is bounded by what there is to know.
\<close>

section \<open>What is new to a vault\<close>

abbreviation known_ids :: "vault \<Rightarrow> string set" where
  "known_ids v \<equiv> set (es_known (va_state v))"

lemma admit_new:
  assumes "foldl (admit_raw C) (st, n) raws = (st', n')" and "n' \<noteq> n"
  shows "\<exists>h. h \<in> set (es_known st') \<and> h \<notin> set (es_known st)"
  using assms
proof (induction raws arbitrary: st n)
  case (Cons raw raws)
  show ?case
  proof (cases rule: admit_raw_cases [of C st n raw])
    case (fresh c counter node)
    let ?st = "observe counter (add_known C (oid_of C (Commit c)) st)"
    have "foldl (admit_raw C) (?st, n + 1) raws = (st', n')" using Cons.prems(1) fresh(5) by simp
    from admit_all [OF this] have "set (es_known ?st) \<subseteq> set (es_known st')" by blast
    moreover have "commit_hex C c \<in> set (es_known ?st)" by (simp add: commit_hex_def)
    ultimately show ?thesis using fresh(4) by blast
  next
    case (old c counter node)
    then have "foldl (admit_raw C) (observe counter st, n) raws = (st', n')" using Cons.prems(1) by simp
    from Cons.IH [OF this Cons.prems(2)] show ?thesis by simp
  qed (use Cons in simp)
qed simp

lemma integrate_new:
  assumes "vault_integrate C J raws v = (v', Ok n)" and "n > 0"
  shows "known_ids v \<subset> known_ids v'"
proof -
  obtain d1 where d1: "vault_put_raws C raws (va_git v) = (d1, Ok ())"
    using assms(1) by (auto simp: vault_integrate_def sbind_Ok_iff on_git_def split: prod.splits)
  then have put: "on_git (vault_put_raws C raws) v = (v\<lparr>va_git := d1\<rparr>, Ok ())" by (simp add: on_git_def)
  define w where "w = v\<lparr>va_git := d1\<rparr>"
  obtain d2 bad where bad: "vault_any_rejected C raws (va_git w) = (d2, Ok bad)"
    using assms(1) put by (auto simp: vault_integrate_def sbind_Ok_iff on_git_def w_def split: prod.splits)
  obtain st k where adm: "foldl (admit_raw C) (va_state v, 0) raws = (st, k)" by fastforce
  let ?u = "w\<lparr>va_git := d2, va_state := st\<rparr>"
  have "\<not> bad" using assms put bad by (auto simp: vault_integrate_def sbind_Ok_iff on_git_def w_def split: prod.splits)
  define rest where "rest = (\<lambda>k :: nat. sbind (if k > 0 then recompute_and_materialize C J else sret ())
      (\<lambda>_. sbind (save_state J) (\<lambda>_. sret k)))"
  have "vault_integrate C J raws v = rest k ?u"
    unfolding vault_integrate_def rest_def [symmetric]
    using \<open>\<not> bad\<close> d1 bad adm by (simp add: sbind_def on_git_def w_def)
  with assms(1) have rest: "sbind (if k > 0 then recompute_and_materialize C J else sret ())
      (\<lambda>_. sbind (save_state J) (\<lambda>_. sret k)) ?u = (v', Ok n)"
    by (simp add: rest_def)
  have keeps: "keeps (vault_le C) (if k > 0 then recompute_and_materialize C J else sret ())"
    by (simp add: vault_recompute vault_rules)
  have "keeps (vault_le C) (sbind (if k > 0 then recompute_and_materialize C J else sret ()) (\<lambda>_. sbind (save_state J) (\<lambda>_. sret k)))"
    by (intro vault_rules vault_save_state keeps)
  from keepsD2 [OF this rest] have "set (es_known st) \<subseteq> known_ids v'" by (simp add: vault_le_def)
  moreover have "k = n" using rest by (auto simp: sbind_Ok_iff)
  ultimately show ?thesis using admit_all [OF adm] admit_new [OF adm] assms(2) by blast
qed

lemma integrate_step_new:
  assumes "integrate_step (disk_vault_ops C J now) catch_up raws (s, v) = ((s', v'), Ok x)" and "st_relay x \<noteq> []"
  shows "known_ids v \<subset> known_ids v'"
proof -
  obtain u n where n: "vault_integrate C J raws v = (u, Ok n)"
    and x: "x = no_step\<lparr>st_integrated := n, st_relay := (if n > 0 then raws else [])\<rparr>"
    and v': "v' = (if catch_up then vault_mark_bootstrap_complete J u else u)"
  proof -
    obtain u r where run: "vault_integrate C J raws v = (u, r)" by fastforce
    with assms(1) obtain n where r: "r = Ok n" by (cases r) (auto simp: integrate_step_def sbind_def on_vault_def disk_vault_ops_def)
    have "integrate_step (disk_vault_ops C J now) catch_up raws (s, v) =
        ((s, if catch_up then vault_mark_bootstrap_complete J u else u),
         Ok (no_step\<lparr>st_integrated := n, st_relay := (if n > 0 then raws else [])\<rparr>))"
      using run r by (simp add: integrate_step_def sbind_def on_vault_def disk_vault_ops_def)
    with assms(1) run r that show thesis by (simp only: prod.inject sum.inject)
  qed
  have "n > 0" using x assms(2) by (simp add: no_step_def split: if_split_asm)
  from integrate_new [OF n this] have "known_ids v \<subset> known_ids u" .
  moreover have "known_ids u \<subseteq> known_ids (vault_mark_bootstrap_complete J u)"
    using vault_bootstrap_keeps(2) [of _ u J] by (simp add: vault_le_def)
  ultimately show ?thesis by (auto simp: v')
qed

lemma relay_new:
  assumes "on_msg C (disk_vault_ops C J now) m (s, v) = ((s', v'), Ok x)" and "st_relay x \<noteq> []"
  shows "known_ids v \<subset> known_ids v'"
proof (cases "se_phase s")
  case AwaitHello
  with assms on_hello_cases [of "disk_vault_ops C J now" m s v s' v' "Ok x"] show ?thesis by (auto simp: on_msg_def no_step_def)
next
  case (AwaitAuth script peer)
  with assms on_auth_cases [of C "disk_vault_ops C J now" script peer m s v s' v' "Ok x"] show ?thesis
    by (auto simp: on_msg_def no_step_def)
next
  case Established
  with assms(1) have run: "on_established C (disk_vault_ops C J now) m (s, v) = ((s', v'), Ok x)" by (simp add: on_msg_def)
  show ?thesis
  proof (cases m)
    case (Objects raws)
    with run integrate_step_new [OF _ assms(2)] show ?thesis by simp
  next
    case (Live raws)
    with run integrate_step_new [OF _ assms(2)] show ?thesis by simp
  next
    case (ObjectsBatch raws is_last)
    with run assms(2) have "is_last" by (auto simp: sbind_Ok_iff put_session_def no_step_def split: if_splits)
    with run ObjectsBatch show ?thesis
      by (auto simp: sbind_def put_session_def dest!: integrate_step_new [OF _ assms(2)])
  qed (use run assms(2) in \<open>auto simp: sbind_Ok_iff fail_def no_step_def Let_def\<close>)
qed

section \<open>A run of the node\<close>

text \<open>What the other tasks do to the vault are calls of it.\<close>

definition own_calls :: "crates \<Rightarrow> codec \<Rightarrow> event list \<Rightarrow> bool" where
  "own_calls C J evs \<longleftrightarrow> (\<forall>f. Elsewhere f \<in> set evs \<longrightarrow> (\<forall>v. (vault_step C J)\<^sup>*\<^sup>* v (f v)))"

lemma conn_frame_le:
  assumes "conn_frame C J now m (c, v) = ((c', v'), relay)"
  shows "vault_le C v v'"
proof (cases "\<exists>x. m = Some x \<and> (greeting c \<or> subscribed c)")
  case False
  with assms vault_le_same show ?thesis by (cases m) (auto simp: conn_frame_def split: if_splits)
next
  case True
  then obtain x where m: "m = Some x" "greeting c \<or> subscribed c" by blast
  obtain s u r where msg: "on_msg C (disk_vault_ops C J now) x (cn_session c, v) = ((s, u), r)" by (metis prod.exhaust)
  with assms m have "v' = u" by (auto simp: conn_frame_def Let_def split: sum.splits)
  with disk_vault.on_msg_le [OF msg] show ?thesis by simp
qed

lemma net_step_le:
  assumes "own_calls C J [ev]"
  shows "vault_le C (nd_vault nd) (nd_vault (net_step C J nd ev))"
proof (cases ev)
  case (Frame i now m)
  obtain c v relay where run: "conn_frame C J now m (nd_conns nd ! i, nd_vault nd) = ((c, v), relay)"
    by (metis prod.exhaust)
  from conn_frame_le [OF this] vault_le_same show ?thesis by (simp add: Frame on_frame_def run Let_def bus_send_def)
next
  case (CommitNow now wall)
  show ?thesis
  proof (cases rule: publish_cases [of C J now wall nd])
    case (quiet v r)
    with keepsD2 [OF vault_commit_keeps quiet(1)] show ?thesis by (simp add: CommitNow)
  next
    case (sent v x raws)
    with keepsD2 [OF vault_commit_keeps sent(1)] show ?thesis by (simp add: CommitNow bus_send_def)
  qed
next
  case (Elsewhere f)
  with assms have "(vault_step C J)\<^sup>*\<^sup>* (nd_vault nd) (f (nd_vault nd))" by (simp add: own_calls_def)
  from vault_steps_le [OF this] show ?thesis by (simp add: Elsewhere)
qed (auto simp: accept_ws_def connect_once_def at_conn_def vault_le_same split: sum.split)

lemma net_run_le: "own_calls C J evs \<Longrightarrow> vault_le C (nd_vault nd) (nd_vault (net_run C J nd evs))"
proof (induction evs rule: rev_induct)
  case Nil
  show ?case by (simp add: vault_le_same)
next
  case (snoc ev evs)
  then have "own_calls C J evs" "own_calls C J [ev]" by (simp_all add: own_calls_def)
  with snoc.IH net_step_le transpD [OF vault_le_trans] show ?case by (metis net_run_simps(2))
qed

section \<open>Counting\<close>

text \<open>The frames of a run that were relayed, and the commits that were published.\<close>

definition relayed_by :: "crates \<Rightarrow> codec \<Rightarrow> net_node \<Rightarrow> event \<Rightarrow> nat" where
  "relayed_by C J nd ev = (case ev of Frame i now m \<Rightarrow> if frame_relay C J i now m nd \<noteq> [] then 1 else 0 | _ \<Rightarrow> 0)"

definition published_by :: "crates \<Rightarrow> codec \<Rightarrow> net_node \<Rightarrow> event \<Rightarrow> nat" where
  "published_by C J nd ev =
     (case ev of
        CommitNow now wall \<Rightarrow> (case snd (commit_and_publish C J now wall nd) of Inr (Some h) \<Rightarrow> 1 | _ \<Rightarrow> 0)
      | _ \<Rightarrow> 0)"

fun tally :: "(net_node \<Rightarrow> event \<Rightarrow> nat) \<Rightarrow> crates \<Rightarrow> codec \<Rightarrow> net_node \<Rightarrow> event list \<Rightarrow> nat" where
  "tally f C J nd [] = 0"
| "tally f C J nd (ev # evs) = f nd ev + tally f C J (net_step C J nd ev) evs"

definition relays :: "crates \<Rightarrow> codec \<Rightarrow> net_node \<Rightarrow> event list \<Rightarrow> nat" where
  "relays C J = tally (relayed_by C J) C J"

definition publications :: "crates \<Rightarrow> codec \<Rightarrow> net_node \<Rightarrow> event list \<Rightarrow> nat" where
  "publications C J = tally (published_by C J) C J"

lemma tally_snoc: "tally f C J nd (evs @ [ev]) = tally f C J nd evs + f (net_run C J nd evs) ev"
  by (induction evs arbitrary: nd) (simp_all add: net_run_def)

lemma relayed_new:
  assumes "own_calls C J [ev]"
  shows "relayed_by C J nd ev + card (known_ids (nd_vault nd)) \<le> card (known_ids (nd_vault (net_step C J nd ev)))"
proof (cases "relayed_by C J nd ev = 0")
  case True
  with net_step_le [OF assms, of nd] show ?thesis by (simp add: vault_le_def card_mono)
next
  case False
  then obtain i now m where ev: "ev = Frame i now m" and one: "relayed_by C J nd ev = 1"
    and relay: "frame_relay C J i now m nd \<noteq> []"
    by (auto simp: relayed_by_def split: event.splits if_splits)
  then have i: "i < length (nd_conns nd)" by (simp add: frame_relay_def split: if_splits)
  let ?c = "nd_conns nd ! i"
  obtain c v out where run: "conn_frame C J now m (?c, nd_vault nd) = ((c, v), out)" by (metis prod.exhaust)
  with relay i have "out \<noteq> []" by (simp add: frame_relay_def)
  then obtain x s st where msg: "m = Some x" "on_msg C (disk_vault_ops C J now) x (cn_session ?c, nd_vault nd) = ((s, v), Ok st)"
    and "st_relay st \<noteq> []"
    using run by (auto simp: conn_frame_def Let_def split: if_splits option.splits prod.splits sum.splits)
  then have "known_ids (nd_vault nd) \<subset> known_ids v" using relay_new by blast
  then have "card (known_ids (nd_vault nd)) < card (known_ids v)" by (intro psubset_card_mono) simp_all
  moreover have "nd_vault (net_step C J nd ev) = v" using i run \<open>out \<noteq> []\<close> by (simp add: ev on_frame_def bus_send_def)
  ultimately show ?thesis using one by simp
qed

lemma relays_bounded:
  "own_calls C J evs \<Longrightarrow>
     relays C J nd evs + card (known_ids (nd_vault nd)) \<le> card (known_ids (nd_vault (net_run C J nd evs)))"
proof (induction evs rule: rev_induct)
  case Nil
  show ?case by (simp add: relays_def)
next
  case (snoc ev evs)
  then have "own_calls C J evs" "own_calls C J [ev]" by (simp_all add: own_calls_def)
  with snoc.IH relayed_new [of C J ev "net_run C J nd evs"] show ?case by (simp add: relays_def tally_snoc)
qed

section \<open>Frames sent on\<close>

fun is_live :: "msg \<Rightarrow> bool" where
  "is_live (Live raws) = True"
| "is_live _ = False"

definition pending_live :: "conn \<Rightarrow> nat" where
  "pending_live c = length (filter is_live (cn_out c)) + (case cn_bus c of None \<Rightarrow> 0 | Some q \<Rightarrow> length q)"

lemma batch_not_live: "filter is_live (batch_frames raws) = []"
  by (auto simp: batch_frames_def Let_def filter_empty_conv)

lemma answer_not_live:
  assumes "on_msg C V m (s, v) = ((s', v'), Ok x)"
  shows "filter is_live (st_out x) = []"
proof (cases "se_phase s")
  case AwaitHello
  with assms on_hello_cases [of V m s v s' v' "Ok x"] show ?thesis by (auto simp: on_msg_def)
next
  case (AwaitAuth script peer)
  with assms on_auth_cases [of C V script peer m s v s' v' "Ok x"] show ?thesis by (auto simp: on_msg_def)
next
  case Established
  with assms have run: "on_established C V m (s, v) = ((s', v'), Ok x)" by (simp add: on_msg_def)
  have quiet: "st_out y = []" if "integrate_step V b raws t = (t', Ok y)" for b raws t t' y
    using that by (auto simp: integrate_step_def sbind_Ok_iff no_step_def)
  show ?thesis
  proof (cases m)
    case (ObjectsBatch raws is_last)
    with run show ?thesis
      by (auto simp: sbind_def put_session_def no_step_def dest!: quiet split: if_splits)
  qed (use run in \<open>auto simp: sbind_Ok_iff fail_def no_step_def Let_def batch_not_live dest!: quiet\<close>)
qed

lemma send_live:
  "pending_live (send_frames ms c) \<le> pending_live c + length (filter is_live ms)"
  by (simp add: send_frames_def finish_def pending_live_def split: option.split)

lemma push_live: "pending_live (bus_push raws c) \<le> pending_live c + 1"
  by (auto simp: bus_push_def pending_live_def split: option.split)

lemma frame_live:
  assumes "conn_frame C J now m (c, v) = ((c', v'), relay)"
  shows "pending_live c' \<le> pending_live c"
proof -
  have fin: "pending_live (finish r d) \<le> pending_live d" for r d by (simp add: finish_def pending_live_def)
  have sess: "pending_live (d\<lparr>cn_session := s\<rparr>) = pending_live d" for d s by (simp add: pending_live_def)
  show ?thesis
  proof (cases "\<exists>x. m = Some x \<and> (greeting c \<or> subscribed c)")
    case False
    with assms fin show ?thesis by (cases m) (auto simp: conn_frame_def split: if_splits)
  next
    case True
    then obtain x where m: "m = Some x" "greeting c \<or> subscribed c" by blast
    obtain s u r where msg: "on_msg C (disk_vault_ops C J now) x (cn_session c, v) = ((s, u), r)" by (metis prod.exhaust)
    show ?thesis
    proof (cases r)
      case (Inl e)
      with assms m msg fin [of "Err e" "c\<lparr>cn_session := s\<rparr>"] sess show ?thesis by (auto simp: conn_frame_def)
    next
      case (Inr y)
      from assms m msg Inr have "c' = send_frames (st_out y) (c\<lparr>cn_session := s\<rparr>)" by (auto simp: conn_frame_def Let_def)
      moreover have "filter is_live (st_out y) = []" using answer_not_live [of C _ x _ v s u y] msg Inr by blast
      ultimately show ?thesis using send_live [of "st_out y" "c\<lparr>cn_session := s\<rparr>"] sess by simp
    qed
  qed
qed

lemma plain_live:
  "pending_live (conn_timeout c) \<le> pending_live c" "pending_live (conn_subscribe c) \<le> pending_live c"
  "pending_live (conn_relayed c) \<le> pending_live c"
proof -
  show "pending_live (conn_timeout c) \<le> pending_live c" by (simp add: conn_timeout_def finish_def pending_live_def)
  show "pending_live (conn_subscribe c) \<le> pending_live c"
    by (simp add: conn_subscribe_def joining_def pending_live_def)
  show "pending_live (conn_relayed c) \<le> pending_live c"
  proof (cases "cn_bus c")
    case (Some q)
    show ?thesis
    proof (cases q)
      case (Cons raws rest)
      have "pending_live (send_frames [Live raws] (c\<lparr>cn_bus := Some rest\<rparr>)) \<le> pending_live (c\<lparr>cn_bus := Some rest\<rparr>) + 1"
        using send_live [of "[Live raws]" "c\<lparr>cn_bus := Some rest\<rparr>"] by simp
      also have "pending_live (c\<lparr>cn_bus := Some rest\<rparr>) + 1 = pending_live c"
        by (simp add: pending_live_def Some Cons)
      finally show ?thesis by (simp add: conn_relayed_def Some Cons on_relay_def)
    qed (simp add: conn_relayed_def Some)
  qed (simp add: conn_relayed_def)
qed

lemma step_live:
  assumes "i < length (nd_conns nd)"
  shows "pending_live (nd_conns (net_step C J nd ev) ! i)
    \<le> pending_live (nd_conns nd ! i) + relayed_by C J nd ev + published_by C J nd ev"
proof (cases ev)
  case (Frame k now m)
  obtain c v relay where run: "conn_frame C J now m (nd_conns nd ! k, nd_vault nd) = ((c, v), relay)"
    by (metis prod.exhaust)
  show ?thesis
  proof (cases "k < length (nd_conns nd)")
    case True
    have "relayed_by C J nd ev = (if relay \<noteq> [] then 1 else 0)"
      using True run by (simp add: relayed_by_def Frame frame_relay_def)
    moreover have "pending_live ((nd_conns nd)[k := c] ! i) \<le> pending_live (nd_conns nd ! i)"
      using frame_live [OF run] assms by (cases "i = k") simp_all
    moreover have "pending_live (nd_conns (net_step C J nd ev) ! i)
        \<le> pending_live ((nd_conns nd)[k := c] ! i) + (if relay \<noteq> [] then 1 else 0)"
      using True run push_live [of relay "(nd_conns nd)[k := c] ! i"] assms by (simp add: Frame on_frame_def Let_def)
    ultimately show ?thesis by simp
  qed (simp add: Frame on_frame_def)
next
  case (CommitNow now wall)
  show ?thesis
  proof (cases rule: publish_cases [of C J now wall nd])
    case (quiet v r)
    then show ?thesis by (simp add: CommitNow)
  next
    case (sent v x raws)
    with push_live [of raws "nd_conns nd ! i"] assms show ?thesis by (simp add: CommitNow published_by_def)
  qed
next
  case (Accept keys req cb nonce)
  with assms show ?thesis by (simp add: accept_ws_def nth_append split: sum.split)
next
  case (Connect cb nonce)
  with assms show ?thesis by (simp add: connect_once_def nth_append)
next
  case (PeerGone k)
  have "pending_live (c\<lparr>cn_closed := True\<rparr>) = pending_live c" for c by (simp add: pending_live_def)
  with PeerGone assms show ?thesis by (simp add: at_conn_nth)
qed (use assms in \<open>simp_all add: at_conn_nth plain_live trans_le_add1\<close>)

lemma new_live:
  assumes "length (nd_conns nd) \<le> i" and "i < length (nd_conns (net_step C J nd ev))"
  shows "pending_live (nd_conns (net_step C J nd ev) ! i) = 0"
proof -
  have zero: "pending_live (conn_open C J rl cb nonce flag v) = 0" for rl cb nonce flag v
    by (simp add: conn_open_def Let_def session_start_def pending_live_def)
  show ?thesis
  proof (cases ev)
    case (CommitNow now wall)
    with assms show ?thesis by (cases rule: publish_conns [of C J now wall nd]) simp_all
  next
    case (Frame k now m)
    with assms show ?thesis by (auto simp: on_frame_def Let_def split: prod.splits if_splits)
  next
    case (Accept keys req cb nonce)
    with assms zero show ?thesis by (auto simp: accept_ws_def nth_append split: sum.splits)
  next
    case (Connect cb nonce)
    with assms zero show ?thesis by (auto simp: connect_once_def nth_append)
  qed (use assms in \<open>simp_all add: at_conn_nth\<close>)
qed

lemma live_bounded:
  assumes "nd_conns nd0 = []" and "i < length (nd_conns (net_run C J nd0 evs))"
  shows "pending_live (nd_conns (net_run C J nd0 evs) ! i) \<le> relays C J nd0 evs + publications C J nd0 evs"
  using assms(2)
proof (induction evs arbitrary: i rule: rev_induct)
  case Nil
  with assms(1) show ?case by simp
next
  case (snoc ev evs)
  let ?nd = "net_run C J nd0 evs"
  have count: "relays C J nd0 (evs @ [ev]) = relays C J nd0 evs + relayed_by C J ?nd ev"
    "publications C J nd0 (evs @ [ev]) = publications C J nd0 evs + published_by C J ?nd ev"
    by (simp_all add: relays_def publications_def tally_snoc)
  show ?case
  proof (cases "i < length (nd_conns ?nd)")
    case True
    from snoc.IH [OF this] step_live [OF this, of C J ev] show ?thesis by (simp add: count)
  next
    case False
    with new_live [of ?nd i C J ev] snoc.prems show ?thesis by simp
  qed
qed

end
