(* ===== verification/Net_Properties.thy ===== *)
theory Net_Properties
  imports Gossip_Facts Sync_Properties Demo_Disk
begin

text \<open>
  Properties of a node on the network (net.rs): who is sent data, how far it is passed on, what is passed over, and
  the check of auth keys.
\<close>

section \<open>Auth keys\<close>

lemma byte_256: "byte c < 256"
  by (metis of_char_mod_256 mod_less_divisor zero_less_numeral)

lemma or_zero: "or a b = (0 :: 8 word) \<longleftrightarrow> a = 0 \<and> b = 0"
  by (auto simp: bit_eq_iff bit_or_iff)

lemma or_fold_zero:
  "foldl (\<lambda>acc p. or acc (f p)) z ps = (0 :: 8 word) \<longleftrightarrow> z = 0 \<and> (\<forall>p \<in> set ps. f p = 0)"
  by (induction ps arbitrary: z) (auto simp: or_zero)

lemma byte_word: "(of_nat (byte x) :: 8 word) = of_nat (byte y) \<longleftrightarrow> x = y"
proof
  assume "(of_nat (byte x) :: 8 word) = of_nat (byte y)"
  then have "unat (of_nat (byte x) :: 8 word) = unat (of_nat (byte y) :: 8 word)" by simp
  then have "byte x = byte y" using byte_256 [of x] byte_256 [of y] by (simp add: unsigned_of_nat take_bit_nat_def)
  then show "x = y" by (simp add: of_char_eq_iff)
qed simp

lemma xor_zero: "xor a b = (0 :: 8 word) \<longleftrightarrow> a = b"
proof
  assume "xor a b = 0"
  then have "xor a (xor a b) = a" by simp
  then show "a = b" by (simp add: xor.assoc [symmetric])
qed simp

lemma ct_eq_iff: "ct_eq a b \<longleftrightarrow> a = b"
proof (cases "length a = length b")
  case True
  have "foldl (\<lambda>acc (x, y). or acc (xor (of_nat (byte x)) (of_nat (byte y)))) (0 :: 8 word) (zip a b) = 0
      \<longleftrightarrow> (\<forall>(x, y) \<in> set (zip a b). x = y)"
    using or_fold_zero [of "\<lambda>(x, y). xor (of_nat (byte x)) (of_nat (byte y))" 0 "zip a b"]
    by (simp add: case_prod_beta' xor_zero byte_word)
  with True show ?thesis by (auto simp: ct_eq_def list_eq_iff_zip_eq)
qed (auto simp: ct_eq_def)

text \<open>The upgrade of a connection is decided by the configured auth keys alone: without keys, or without a token in
  the request, it goes on and may not enroll a key; a token that is exactly one of the keys lets it enroll; any other
  token ends it.\<close>
theorem upgrade_by_key:
  "ws_upgrade keys r =
     (case (keys, extract_bearer_token r) of
        ([], _) \<Rightarrow> Inr False
      | (_, None) \<Rightarrow> Inr False
      | (_, Some (token, _)) \<Rightarrow>
          if token \<in> set keys then Inr True else Inl (unauthorized_response ''invalid auth key''))"
  by (cases keys) (auto simp: ws_upgrade_def ct_eq_iff list_ex_iff split: option.split)

definition hex_digit :: "nat \<Rightarrow> char" where
  "hex_digit n = char_of (if n < 10 then 48 + n else 87 + n)"

definition percent_encode :: "string \<Rightarrow> string" where
  "percent_encode s = concat (map (\<lambda>c. [CHR ''%'', hex_digit (byte c div 16), hex_digit (byte c mod 16)]) s)"

lemma hex_digit_facts:
  assumes "n < 16"
  shows "hex_val (hex_digit n) = Some n" and "is_ascii_char (hex_digit n)" and "hex_digit n \<noteq> CHR ''+''"
proof -
  have byte: "byte (hex_digit n) = (if n < 10 then 48 + n else 87 + n)" using assms by (simp add: hex_digit_def)
  then show "hex_val (hex_digit n) = Some n" using assms by (auto simp: hex_val_def is_digit_def)
  show "is_ascii_char (hex_digit n)" using assms by (simp add: is_ascii_char_def byte)
  show "hex_digit n \<noteq> CHR ''+''"
  proof
    assume "hex_digit n = CHR ''+''"
    then have "byte (hex_digit n) = 43" by simp
    with byte assms show False by (simp split: if_split_asm)
  qed
qed

lemma radix_two:
  assumes "a < 16" and "b < 16"
  shows "parse_radix16 256 [hex_digit a, hex_digit b] = Some (16 * a + b)"
  using assms hex_digit_facts [OF assms(1)] hex_digit_facts [OF assms(2)]
  by (simp add: parse_radix16_def strip_plus_def Let_def)

lemma percent_ascii: "is_ascii (percent_encode s)"
proof (induction s)
  case (Cons c s)
  have "byte c div 16 < 16" "byte c mod 16 < 16" using byte_div_16 by simp_all
  with Cons hex_digit_facts(2) show ?case by (simp add: percent_encode_def is_ascii_char_def)
qed (simp add: percent_encode_def)

lemma urldecode_percent: "urldecode (percent_encode s) = concat (map (\<lambda>c. byte_char (byte c)) s)"
proof -
  have "urldecode_chars (map (\<lambda>c. [c]) (percent_encode s)) = concat (map (\<lambda>c. byte_char (byte c)) s)"
  proof (induction s)
    case (Cons c s)
    have "byte c div 16 < 16" "byte c mod 16 < 16" using byte_div_16 by simp_all
    from radix_two [OF this] Cons show ?case by (simp add: percent_encode_def Let_def)
  qed (simp add: percent_encode_def)
  then show ?thesis by (simp add: urldecode_def str_chars_ascii [OF percent_ascii])
qed

lemma byte_chars_length: "length (concat (map (\<lambda>c. byte_char (byte c)) s)) = length s + length (filter (\<lambda>c. \<not> is_ascii_char c) s)"
  by (induction s) (auto simp: byte_char_def is_ascii_char_def)

text \<open>An auth key in the query string is decoded byte by byte, each byte as a character of its own: escaping every
  byte of a key is undone exactly when the key is ASCII, and any other key is not recognised in its escaped form.\<close>
theorem escaped_key_read:
  "urldecode (percent_encode key) = concat (map (\<lambda>c. byte_char (byte c)) key)
   \<and> (urldecode (percent_encode key) = key \<longleftrightarrow> is_ascii key)"
proof -
  have "concat (map (\<lambda>c. byte_char (byte c)) key) = key" if "is_ascii key"
    using that by (induction key) (simp_all add: byte_char_def is_ascii_char_def)
  moreover have "is_ascii key" if "concat (map (\<lambda>c. byte_char (byte c)) key) = key"
  proof -
    have "length (filter (\<lambda>c. \<not> is_ascii_char c) key) = 0" using byte_chars_length [of key] that by simp
    then show ?thesis by (auto simp: filter_empty_conv list_all_iff)
  qed
  ultimately show ?thesis by (auto simp: urldecode_percent)
qed

section \<open>Who is sent data\<close>


text \<open>A listener, a request with its auth key, and a peer that proves its key.\<close>

definition demo_request :: ws_request where
  "demo_request = \<lparr>rq_authorization = Some ''Bearer k'', rq_protocol = None, rq_query = None\<rparr>"

lemma demo_upgrade: "ws_upgrade [''k''] demo_request = Inr True"
proof -
  have "is_ascii ''Bearer k''" "is_ascii ''k''" by (simp_all add: is_ascii_char_def)
  then have "split_ws ''Bearer k'' = (''Bearer'', ''k'')" "str_trim ''k'' = ''k''"
    by (simp_all add: split_ws_def str_chars_ascii is_ws_single is_ascii_char_def solid_def Let_def str_trim_def
        del: str_chars.simps)
  moreover have "ascii_lower (CHR ''B'') = CHR ''b''" 
  proof -
    have "byte (ascii_lower (CHR ''B'')) = byte (CHR ''b'')" by (simp add: ascii_lower_def)
    then show ?thesis by (simp only: of_char_eq_iff)
  qed
  ultimately show ?thesis
    by (simp add: ws_upgrade_def demo_request_def extract_bearer_token_def header_token_def ct_eq_iff
        ascii_lower_def [of "CHR ''e''"] ascii_lower_def [of "CHR ''a''"] ascii_lower_def [of "CHR ''r''"])
qed

definition demo_peer :: string where
  "demo_peer = key_words demo (node_of_bytes ''B'') []"

definition demo_handshake :: "event list" where
  "demo_handshake =
     [Accept [''k''] demo_request ''cert'' ''ln'',
      Frame 0 0 (Some (Hello (vc_vault_id demo_config) [] demo_peer ''cn'' [] PROTO_VERSION)),
      Frame 0 0 (Some (AuthProof (id_sign demo \<lparr>id_seed = ''B''\<rparr> (transcript ''cn'' ''ln'' ''cert''))))]"

lemma demo_handshake_run:
  obtains v s out where "net_run demo demo_codec (node_new (demo_vault ''h'' [] [])) demo_handshake =
      \<lparr>nd_vault = v, nd_conns = [\<lparr>cn_session = s, cn_out = out @ [FrontierDigest []], cn_closed = False,
         cn_bus = None, cn_done = None\<rparr>]\<rparr>" and "established s"
proof -
  let ?v = "demo_vault ''h'' [] []" and ?V = "disk_vault_ops demo demo_codec 0"
  let ?s0 = "set_enrollment_authorized True (session_new Listener ''cert'' ''ln'')"
  let ?sig = "id_sign demo \<lparr>id_seed = ''B''\<rparr> (transcript ''cn'' ''ln'' ''cert'')"
  let ?s1 = "?s0\<lparr>se_phase := AwaitAuth (signed_script ?s0 ''cn'' ''cert'') demo_peer\<rparr>"
  obtain v' where admitted: "vault_admit_peer demo 0 demo_peer True ?v = (v', Ok True)"
    unfolding demo_peer_def by (rule demo_admitted)
  define e where "e = (demo_engine ''A'')\<lparr>me_authorized := text_or_default AUTHORIZED_KEYS (va_fs ?v), me_config := va_config ?v\<rparr>"
  then have "me_authorized e = text_or_default AUTHORIZED_KEYS (va_fs ?v)" "me_config e = va_config ?v" by simp_all
  from vault_admit_engine [OF admitted this] have "va_state v' = default_state" by (auto simp: default_state_def)
  then have tips: "vault_frontier_tips demo v' = Ok []"
    by (simp add: vault_frontier_tips_def known_oids_def default_state_def frontier_def)
  have script: "signed_script ?s0 ''cn'' ''cert'' = transcript ''cn'' ''ln'' ''cert''"
    by (simp add: signed_script_def session_new_def set_enrollment_authorized_def)
  have hello: "on_msg demo ?V (Hello (vc_vault_id demo_config) [] demo_peer ''cn'' [] PROTO_VERSION) (?s0, ?v) =
      ((?s1, ?v), Ok (no_step\<lparr>st_out := [AuthProof (vo_sign ?V ?v (signed_script ?s0 ''cn'' ''cert''))]\<rparr>))"
    using hello_answered [of ?s0 "[]" "''cert''" demo ?V ?v "[]" demo_peer "''cn''"]
    by (simp add: disk_vault_ops_def demo_vault_def session_new_def set_enrollment_authorized_def agreed_binding_def)
  have key: "parse_ssh_pubkey demo demo_peer = Some (node_of_bytes ''B'')" unfolding demo_peer_def by (rule key_words_node) simp_all
  have ok: "verify_detached demo (node_of_bytes ''B'') (transcript ''cn'' ''ln'' ''cert'') ?sig = Ok ()"
    using own_signature [OF demo_ed_laws, of "\<lparr>id_seed = ''B''\<rparr>"] by (simp add: id_node_def)
  have phase: "se_phase ?s1 = AwaitAuth (transcript ''cn'' ''ln'' ''cert'') demo_peer" by (simp add: script)
  have admit: "(if se_role ?s1 = Listener then vo_admit_peer ?V demo_peer (se_enrollment_authorized ?s1) ?v
      else (?v, Ok True)) = (v', Ok True)"
    using admitted by (simp add: disk_vault_ops_def session_new_def set_enrollment_authorized_def)
  have digest: "vo_frontier_tips ?V v' = Ok []" using tips by (simp add: disk_vault_ops_def)
  have proof': "on_msg demo ?V (AuthProof ?sig) (?s1, ?v) =
      ((?s1\<lparr>se_peer_ssh := Some demo_peer, se_phase := Established\<rparr>, v'), Ok (no_step\<lparr>st_out := [FrontierDigest []]\<rparr>))"
    using proof_accepted [OF phase key ok admit digest] by (simp only: list.map)
  have fresh: "greeting (conn_open demo demo_codec Listener ''cert'' ''ln'' True ?v)"
    by (simp add: greeting_def conn_open_def Let_def session_new_def set_enrollment_authorized_def established_def)
  show thesis
  proof (rule that)
    let ?c = "conn_open demo demo_codec Listener ''cert'' ''ln'' True ?v"
    have c: "cn_session ?c = ?s0" "cn_closed ?c = False" "cn_bus ?c = None" "cn_done ?c = None"
      by (simp_all add: conn_open_def Let_def)
    let ?c1 = "?c\<lparr>cn_session := ?s1, cn_out := cn_out ?c @ [AuthProof (vo_sign ?V ?v (signed_script ?s0 ''cn'' ''cert''))]\<rparr>"
    have "conn_frame demo demo_codec 0 (Some (Hello (vc_vault_id demo_config) [] demo_peer ''cn'' [] PROTO_VERSION)) (?c, ?v)
        = ((?c1, ?v), [])"
      using hello fresh c by (simp add: conn_frame_def send_frames_def subscribed_def)
    moreover have "conn_frame demo demo_codec 0 (Some (AuthProof ?sig)) (?c1, ?v) =
        ((?c1\<lparr>cn_session := ?s1\<lparr>se_peer_ssh := Some demo_peer, se_phase := Established\<rparr>,
           cn_out := cn_out ?c1 @ [FrontierDigest []]\<rparr>, v'), [])"
      using proof' c by (simp add: conn_frame_def send_frames_def subscribed_def greeting_def established_def)
    ultimately show "net_run demo demo_codec (node_new ?v) demo_handshake = \<lparr>nd_vault = v', nd_conns =
        [\<lparr>cn_session = ?s1\<lparr>se_peer_ssh := Some demo_peer, se_phase := Established\<rparr>,
          cn_out = cn_out ?c1 @ [FrontierDigest []], cn_closed = False, cn_bus = None, cn_done = None\<rparr>]\<rparr>"
      using c by (simp add: net_run_def demo_handshake_def node_new_def accept_ws_def demo_upgrade on_frame_def Let_def)
  qed (simp add: established_def)
qed


section \<open>How far data is passed on\<close>

text \<open>C11. Relaying comes to an end: a node passes a frame on only when it brought a primitive that was not known, so in
  any run the frames relayed are at most the primitives learnt, and no connection is sent more frames of new data than
  were relayed or committed here.\<close>
theorem gossip_bounded:
  assumes "net_run C J (node_new v) evs = nd" and "own_calls C J evs" and "i < length (nd_conns nd)"
  shows "relays C J (node_new v) evs + card (known_ids v) \<le> card (known_ids (nd_vault nd))
    \<and> length (filter is_live (cn_out (nd_conns nd ! i)))
        \<le> relays C J (node_new v) evs + publications C J (node_new v) evs"
proof -
  have "pending_live (nd_conns nd ! i) \<le> relays C J (node_new v) evs + publications C J (node_new v) evs"
    using live_bounded [of "node_new v" i C J evs] assms(1,3) by (simp add: node_new_def)
  then have "length (filter is_live (cn_out (nd_conns nd ! i)))
      \<le> relays C J (node_new v) evs + publications C J (node_new v) evs"
    by (simp add: pending_live_def)
  moreover have "relays C J (node_new v) evs + card (known_ids v) \<le> card (known_ids (nd_vault nd))"
    using relays_bounded [OF assms(2), of "node_new v"] assms(1) by (simp add: node_new_def)
  ultimately show ?thesis by simp
qed

lemma gossip_bounded_witness:
  "\<exists>nd. net_run demo demo_codec (node_new (demo_vault ''h'' [] [])) demo_handshake = nd
     \<and> established (cn_session (nd_conns nd ! 0))
     \<and> relays demo demo_codec (node_new (demo_vault ''h'' [] [])) demo_handshake \<le> card (known_ids (nd_vault nd))"
proof -
  obtain v s out where run: "net_run demo demo_codec (node_new (demo_vault ''h'' [] [])) demo_handshake =
      \<lparr>nd_vault = v, nd_conns = [\<lparr>cn_session = s, cn_out = out @ [FrontierDigest []], cn_closed = False,
         cn_bus = None, cn_done = None\<rparr>]\<rparr>" and "established s"
    by (rule demo_handshake_run)
  have "own_calls demo demo_codec demo_handshake" by (simp add: own_calls_def demo_handshake_def)
  from gossip_bounded [OF run this, of 0] run \<open>established s\<close> show ?thesis by simp
qed

text \<open>A gap: between the digest that ends a handshake and the subscription to the bus, a connection takes part in
  neither; what a commit or another connection passes on in between does not reach it, and it subscribes to an
  empty queue.\<close>
theorem joining_misses_relay:
  assumes "i < length (nd_conns nd)" and "joining (nd_conns nd ! i)"
    and "(\<exists>now wall. ev = CommitNow now wall) \<or> (\<exists>k now m. ev = Frame k now m \<and> k \<noteq> i)"
  shows "nd_conns (net_run C J nd [ev, Subscribe i]) ! i = (nd_conns nd ! i)\<lparr>cn_bus := Some []\<rparr>"
proof -
  let ?c = "nd_conns nd ! i"
  have quiet: "bus_push raws ?c = ?c" for raws using assms(2) by (simp add: bus_push_def joining_def)
  have "i < length (nd_conns (net_step C J nd ev)) \<and> nd_conns (net_step C J nd ev) ! i = ?c"
    using assms(3)
  proof (elim disjE exE conjE)
    fix now wall assume "ev = CommitNow now wall"
    then show ?thesis
      using assms(1) quiet by (cases rule: publish_conns [of C J now wall nd]) simp_all
  next
    fix k now m assume "ev = Frame k now m" "k \<noteq> i"
    then show ?thesis using assms(1) quiet by (auto simp: on_frame_def Let_def split: prod.splits)
  qed
  with assms(2) show ?thesis by (simp add: net_run_def at_conn_nth conn_subscribe_def)
qed

lemma joining_misses_relay_witness:
  "\<exists>nd c. net_run demo demo_codec (node_new (demo_vault ''h'' [] [])) demo_handshake = nd \<and> joining (nd_conns nd ! 0)
     \<and> nd_conns (net_run demo demo_codec nd [CommitNow 0 100, Subscribe 0]) ! 0 = c \<and> cn_bus c = Some []"
proof -
  obtain v s out where run: "net_run demo demo_codec (node_new (demo_vault ''h'' [] [])) demo_handshake =
      \<lparr>nd_vault = v, nd_conns = [\<lparr>cn_session = s, cn_out = out @ [FrontierDigest []], cn_closed = False,
         cn_bus = None, cn_done = None\<rparr>]\<rparr>" and est: "established s"
    by (rule demo_handshake_run)
  define nd where "nd = net_run demo demo_codec (node_new (demo_vault ''h'' [] [])) demo_handshake"
  have nd: "0 < length (nd_conns nd)" "joining (nd_conns nd ! 0)" using run est by (simp_all add: nd_def joining_def)
  from joining_misses_relay [OF this, of "CommitNow 0 100"] nd(2) show ?thesis by (auto simp: nd_def)
qed

end
