(* ===== verification/Git_Pass.thy ===== *)
theory Git_Pass
  imports Rust_Str
begin

text \<open>
  The guard of \<open>ctx git\<close> (\<open>gitpass.rs\<close>): the repository belongs to the engine, and only read-only commands of
  git with flags of a list pass. The process that git runs in is not modelled, only its arguments.
\<close>

section \<open>The lists\<close>

definition READ_ONLY :: "string list" where
  "READ_ONLY =
    [''log'', ''show'', ''diff'', ''status'', ''blame'', ''cat-file'', ''ls-tree'', ''ls-files'', ''rev-list'',
     ''rev-parse'', ''grep'', ''for-each-ref'', ''describe'', ''shortlog'', ''reflog'']"

definition SAFE_FLAGS :: "string list" where
  "SAFE_FLAGS =
    [''--oneline'', ''--no-pager'', ''--paginate'', ''--color'', ''--no-color'', ''--no-renames'', ''--stat'',
     ''--numstat'', ''--shortstat'', ''--summary'', ''--name-only'', ''--name-status'', ''--raw'', ''--patch'',
     ''-p'', ''-u'', ''--no-patch'', ''-s'', ''--abbrev-commit'', ''--no-abbrev-commit'', ''--graph'',
     ''--decorate'', ''--no-decorate'', ''--parents'', ''--children'', ''--reverse'', ''--all'', ''--branches'',
     ''--tags'', ''--remotes'', ''--full-history'', ''--first-parent'', ''--merges'', ''--no-merges'',
     ''--follow'', ''--source'', ''--show-signature'', ''--cc'', ''--word-diff'', ''--function-context'',
     ''-w'', ''--ignore-all-space'', ''--ignore-space-change'', ''-b'', ''--text'', ''-a'', ''--binary'',
     ''--full-index'', ''--check'', ''--exit-code'', ''--quiet'', ''-q'', ''-v'', ''--verbose'', ''--long'',
     ''--short'', ''--porcelain'', ''--branch'', ''--null'', ''-z'', ''--cached'', ''--staged'', ''--stage'',
     ''--others'', ''--ignored'', ''--modified'', ''--deleted'', ''--unmerged'', ''--no-color-moved'',
     ''--objects'', ''--count'', ''--no-commit-id'', ''--root'', ''--line-number'', ''-n'', ''-l'', ''-i'',
     ''--ignore-case'', ''-E'', ''--extended-regexp'', ''-F'', ''--fixed-strings'', ''-P'', ''--perl-regexp'',
     ''-G'', ''--basic-regexp'', ''--word-regexp'', ''-c'', ''-h'', ''-H'', ''--heading'', ''--break'', ''-t'',
     ''-r'', ''--abbrev'', ''--verify'', ''--symbolic'', ''--symbolic-full-name'', ''--abbrev-ref'',
     ''--show-toplevel'', ''--git-path'', ''--is-inside-work-tree'', ''--is-bare-repository'',
     ''--show-prefix'', ''--show-cdup'', ''--objectname-length'', ''--all-objects'', ''--type'',
     ''--objects-edge'', ''--max-count'', ''--skip'', ''--no-walk'', ''--simplify-by-decoration'',
     ''--topo-order'', ''--date-order'', ''--author-date-order'']"

definition SAFE_PREFIXES :: "string list" where
  "SAFE_PREFIXES =
    [''--format='', ''--pretty='', ''--date='', ''--abbrev='', ''--decorate='', ''--color='', ''--word-diff='',
     ''--unified='', ''--diff-filter='', ''--encoding='', ''--max-count='', ''--skip='', ''--since='',
     ''--after='', ''--until='', ''--before='', ''--author='', ''--committer='', ''--grep='', ''--max-depth='']"

definition DANGEROUS_FLAGS :: "string list" where
  "DANGEROUS_FLAGS =
    [''-O'', ''--open-files-in-pager'', ''--output'', ''--output-indicator-new'', ''--output-indicator-old'',
     ''--output-indicator-context'', ''-o'', ''--ext-diff'', ''--textconv'', ''--no-textconv'', ''--exec'',
     ''--upload-pack'', ''--receive-pack'', ''--edit'', ''--delete'', ''--force'', ''--prune'', ''--write'',
     ''--git-dir'', ''--work-tree'', ''--namespace'', ''--exec-path'']"

section \<open>The guard\<close>

text \<open>Why a command is refused; the pointer to the right \<open>ctx\<close> command comes with a verb that is not on the list.\<close>

datatype refusal =
    NoVerb
  | LeadingOption string
  | VerbRefused string string
  | ReflogNotShow
  | FlagDangerous string
  | FlagUnlisted string

definition pointer :: "string \<Rightarrow> string" where
  "pointer verb =
     (if verb = ''commit'' then ''edit files and let `ctx watch` auto-commit''
      else if verb \<in> set [''checkout'', ''switch'', ''restore'', ''reset''] then ''use `ctx restore <name|time>`''
      else if verb \<in> set [''tag'', ''branch''] then ''use `ctx snapshot <name>` to mark a point''
      else if verb \<in> set [''gc'', ''prune''] then ''GC is engine-internal''
      else if verb \<in> set [''fetch'', ''pull'', ''push''] then ''replication is the realtime transport, not git''
      else ''the engine owns this repo; there is no write workflow through git'')"

text \<open>Several short flags in one argument.\<close>

definition combined_safe :: "string \<Rightarrow> bool" where
  "combined_safe arg =
     (starts_with ''-'' arg \<and> \<not> starts_with ''--'' arg \<and> length arg > 2 \<and> CHR ''='' \<notin> set arg
      \<and> list_all (\<lambda>u. ''-'' @ u \<in> set SAFE_FLAGS) (str_chars (drop 1 arg)))"

definition prefix_safe :: "string \<Rightarrow> string \<Rightarrow> bool" where
  "prefix_safe arg p =
     (case strip_suffix ''='' p of
        Some name \<Rightarrow> arg = name \<or> starts_with p arg
      | None \<Rightarrow> arg = p)"

definition flag_is_safe :: "string \<Rightarrow> bool" where
  "flag_is_safe arg = (arg \<in> set SAFE_FLAGS \<or> combined_safe arg \<or> list_ex (prefix_safe arg) SAFE_PREFIXES)"

definition flag_is_dangerous :: "string \<Rightarrow> bool" where
  "flag_is_dangerous a =
     (hd (str_split (CHR ''='') a) \<in> set DANGEROUS_FLAGS \<or> (starts_with ''-O'' a \<and> length a > 2)
      \<or> starts_with ''--output'' a)"

fun check_flags :: "string list \<Rightarrow> refusal + unit" where
  "check_flags [] = Inr ()"
| "check_flags (a # as) =
     (if a = ''--'' then Inr ()
      else if \<not> starts_with ''-'' a then check_flags as
      else if flag_is_dangerous a then Inl (FlagDangerous a)
      else if \<not> flag_is_safe a then Inl (FlagUnlisted a)
      else check_flags as)"

definition nth_opt :: "'a list \<Rightarrow> nat \<Rightarrow> 'a option" where
  "nth_opt xs n = (if n < length xs then Some (xs ! n) else None)"

definition validate :: "string list \<Rightarrow> refusal + unit" where
  "validate args =
     (case args of
        [] \<Rightarrow> Inl NoVerb
      | verb # rest \<Rightarrow>
          if starts_with ''-'' verb then Inl (LeadingOption verb)
          else if verb \<notin> set READ_ONLY then Inl (VerbRefused verb (pointer verb))
          else if verb = ''reflog'' \<and> nth_opt (filter (\<lambda>a. \<not> starts_with ''-'' a) args) 1 \<noteq> Some ''show''
          then Inl ReflogNotShow
          else check_flags rest)"

text \<open>The arguments that git is run with.\<close>

definition git_command :: "string \<Rightarrow> string \<Rightarrow> string list \<Rightarrow> refusal + string list" where
  "git_command git_dir work_tree args =
     map_sum id (\<lambda>_. (''--git-dir='' @ git_dir) # (''--work-tree='' @ work_tree) # args) (validate args)"

section \<open>Facts\<close>

text \<open>The flags that are looked at.\<close>

definition checked_flags :: "string list \<Rightarrow> string list" where
  "checked_flags as = filter (starts_with ''-'') (takeWhile (\<lambda>a. a \<noteq> ''--'') as)"

lemma check_flags_iff:
  "check_flags as = Inr () \<longleftrightarrow> list_all (\<lambda>a. flag_is_safe a \<and> \<not> flag_is_dangerous a) (checked_flags as)"
  by (induction as) (auto simp: checked_flags_def)

lemma bare_or_valued:
  obtains "CHR ''='' \<notin> set a" and "hd (str_split (CHR ''='') a) = a"
  | name v where "a = name @ ''='' @ v" and "CHR ''='' \<notin> set name" and "hd (str_split (CHR ''='') a) = name"
proof (cases "CHR ''='' \<in> set a")
  case True
  then obtain name v where "a = name @ CHR ''='' # v" "CHR ''='' \<notin> set name" using split_list_first by metis
  with that(2) [of name v] show thesis by (simp add: str_split_append)
next
  case False
  with that(1) show thesis by (simp add: str_split_no_sep)
qed

text \<open>What the lists have to do with one another.\<close>

lemma list_facts:
  "list_all (\<lambda>f. CHR ''='' \<notin> set f) SAFE_FLAGS"
  "list_all (\<lambda>f. length f > 2 \<longrightarrow> starts_with ''--'' f) DANGEROUS_FLAGS"
  "list_all (\<lambda>f. \<not> starts_with ''--output'' f \<and> \<not> starts_with ''-O'' f) (SAFE_FLAGS @ SAFE_PREFIXES)"
  "list_all (\<lambda>p. p \<noteq> [] \<and> last p = CHR ''='' \<and> CHR ''='' \<notin> set (butlast p) \<and> butlast p \<notin> set DANGEROUS_FLAGS) SAFE_PREFIXES"
  "list_all (\<lambda>v. \<not> starts_with ''-'' v) READ_ONLY" "''-O'' \<notin> set SAFE_FLAGS"
  by code_simp+

lemma lists_disjoint: "list_all (\<lambda>f. f \<notin> set DANGEROUS_FLAGS) SAFE_FLAGS"
  by code_simp

lemma safe_prefix:
  assumes "p \<in> set SAFE_PREFIXES"
  obtains name where "p = name @ ''=''" and "CHR ''='' \<notin> set name" and "name \<notin> set DANGEROUS_FLAGS"
    and "\<And>arg. prefix_safe arg p \<longleftrightarrow> arg = name \<or> starts_with p arg"
proof -
  have p: "p \<noteq> []" "last p = CHR ''=''" "CHR ''='' \<notin> set (butlast p)" "butlast p \<notin> set DANGEROUS_FLAGS"
    using list_facts(4) assms by (auto simp: list_all_iff)
  then have split: "p = butlast p @ ''=''" by (metis append_butlast_last_id)
  then have "strip_suffix ''='' p = Some (butlast p)" by (simp only: strip_suffix_Some)
  with that [OF split p(3,4)] show thesis by (simp add: prefix_safe_def)
qed

lemma prefixes_comparable: "starts_with p s \<Longrightarrow> starts_with q s \<Longrightarrow> starts_with p q \<or> starts_with q p"
  by (auto simp: starts_with_iff append_eq_append_conv2)

text \<open>The list of dangerous flags only words the refusal: none of them is on the list of safe ones, in any form.\<close>

lemma not_safe_prefix:
  assumes "starts_with q a" and "CHR ''='' \<notin> set q" and "q = ''--output'' \<or> q = ''-O''" and "p \<in> set SAFE_PREFIXES"
  shows "\<not> prefix_safe a p"
proof -
  obtain name where p: "p = name @ ''=''" "CHR ''='' \<notin> set name"
    and safe: "\<And>arg. prefix_safe arg p \<longleftrightarrow> arg = name \<or> starts_with p arg" by (rule safe_prefix [OF assms(4)]) blast
  have no: "\<not> starts_with q p" using list_facts(3) assms(3,4) by (auto simp: list_all_iff)
  have "\<not> starts_with p q" using assms(2) p(1) by (auto simp: starts_with_iff)
  with no prefixes_comparable [OF assms(1)] have "\<not> starts_with p a" by blast
  moreover have "a \<noteq> name" using no assms(1) p(1) by (auto simp: starts_with_iff)
  ultimately show ?thesis by (simp add: safe)
qed

lemma dangerous_not_safe:
  assumes "flag_is_dangerous a"
  shows "\<not> flag_is_safe a"
proof -
  have in_safe: "\<not> starts_with ''--output'' f \<and> \<not> starts_with ''-O'' f" if "f \<in> set SAFE_FLAGS" for f
    using list_facts(3) that by (simp add: list_all_iff)
  consider (outfile) "starts_with ''--output'' a" | (pager) "starts_with ''-O'' a" "length a > 2"
    | (listed) "hd (str_split (CHR ''='') a) \<in> set DANGEROUS_FLAGS"
    using assms by (auto simp: flag_is_dangerous_def)
  then show ?thesis
  proof cases
    case outfile
    then have "\<not> combined_safe a" by (auto simp: combined_safe_def starts_with_iff)
    with outfile in_safe not_safe_prefix [OF outfile] show ?thesis by (auto simp: flag_is_safe_def list_ex_iff)
  next
    case pager
    then obtain t where "a = ''-O'' @ t" by (auto simp: starts_with_iff)
    moreover have "''O'' \<in> set (str_chars (CHR ''O'' # t))" by (simp add: utf8_next_ascii is_ascii_char_def)
    ultimately have "\<not> combined_safe a"
      using list_facts(6) by (auto simp: combined_safe_def list_all_iff simp del: str_chars.simps)
    with pager in_safe not_safe_prefix [OF pager(1)] show ?thesis by (auto simp: flag_is_safe_def list_ex_iff)
  next
    case listed
    have dash: "f \<notin> set SAFE_FLAGS \<and> (length f > 2 \<longrightarrow> starts_with ''--'' f)" if "f \<in> set DANGEROUS_FLAGS" for f
      using list_facts(2) lists_disjoint that by (auto simp: list_all_iff)
    show ?thesis
    proof (cases rule: bare_or_valued [of a])
      case 1
      then have a: "a \<in> set DANGEROUS_FLAGS" using listed by simp
      have "\<not> prefix_safe a p" if "p \<in> set SAFE_PREFIXES" for p
      proof -
        obtain name where p: "p = name @ ''=''" "name \<notin> set DANGEROUS_FLAGS"
          and safe: "\<And>arg. prefix_safe arg p \<longleftrightarrow> arg = name \<or> starts_with p arg" by (rule safe_prefix [OF \<open>p \<in> set SAFE_PREFIXES\<close>]) blast
        have "\<not> starts_with p a" using 1(1) p(1) by (auto simp: starts_with_iff)
        with a p(2) show ?thesis by (auto simp only: safe)
      qed
      moreover have "\<not> combined_safe a" using dash [OF a] by (auto simp: combined_safe_def)
      ultimately show ?thesis using dash [OF a] by (auto simp: flag_is_safe_def list_ex_iff)
    next
      case (2 name v)
      have "\<not> prefix_safe a p" if "p \<in> set SAFE_PREFIXES" for p
      proof -
        obtain n where p: "p = n @ ''=''" "CHR ''='' \<notin> set n" "n \<notin> set DANGEROUS_FLAGS"
          and safe: "\<And>arg. prefix_safe arg p \<longleftrightarrow> arg = n \<or> starts_with p arg" by (rule safe_prefix [OF \<open>p \<in> set SAFE_PREFIXES\<close>]) blast
        have "n = name" if "starts_with p a"
        proof -
          from that obtain t where "name @ CHR ''='' # v = n @ CHR ''='' # t" using 2(1) p(1) by (auto simp: starts_with_iff)
          then have "hd (str_split (CHR ''='') (name @ CHR ''='' # v)) = hd (str_split (CHR ''='') (n @ CHR ''='' # t))" by simp
          then show ?thesis by (simp only: str_split_append [OF 2(2)] str_split_append [OF p(2)] list.sel)
        qed
        moreover have "a \<noteq> n" using 2(1) p(2) by auto
        ultimately show ?thesis using listed 2(3) p(3) by (auto simp: safe)
      qed
      moreover have "a \<notin> set SAFE_FLAGS" using list_facts(1) 2(1) by (auto simp: list_all_iff)
      moreover have "\<not> combined_safe a" using 2(1) by (simp add: combined_safe_def)
      ultimately show ?thesis by (auto simp: flag_is_safe_def list_ex_iff)
    qed
  qed
qed

section \<open>Properties\<close>

text \<open>C25. The guard of ctx git allows exactly the listed read-only commands: the first argument is one of the verbs,
  reflog only shows, and every flag before a bare double dash is on the list of safe flags; the list of dangerous
  flags refuses nothing more.\<close>
theorem git_guard_allows:
  "validate args = Inr () \<longleftrightarrow>
     (\<exists>verb rest. args = verb # rest \<and> verb \<in> set READ_ONLY
        \<and> (verb = ''reflog'' \<longrightarrow> nth_opt (filter (\<lambda>a. \<not> starts_with ''-'' a) args) 1 = Some ''show'')
        \<and> list_all flag_is_safe (checked_flags rest))"
proof (cases args)
  case Nil
  then show ?thesis by (simp add: validate_def)
next
  case (Cons verb rest)
  have "\<not> starts_with ''-'' verb" if "verb \<in> set READ_ONLY" using list_facts(5) that by (simp add: list_all_iff)
  moreover have "check_flags rest = Inr () \<longleftrightarrow> list_all flag_is_safe (checked_flags rest)"
    unfolding check_flags_iff using dangerous_not_safe by (auto simp: list_all_iff)
  ultimately show ?thesis unfolding Cons by (auto simp: validate_def)
qed

lemma git_guard_allows_witness:
  "validate [''log'', ''--oneline''] = Inr () \<and> validate [''log'', ''--output=x''] \<noteq> Inr ()"
proof -
  have "checked_flags [''--oneline''] = [''--oneline'']" "checked_flags [''--output=x''] = [''--output=x'']"
    by (simp_all add: checked_flags_def starts_with_def)
  moreover have "flag_is_safe ''--oneline''" by (simp add: flag_is_safe_def SAFE_FLAGS_def)
  moreover have "\<not> flag_is_safe ''--output=x''"
    by (intro dangerous_not_safe) (simp add: flag_is_dangerous_def starts_with_def)
  moreover have "''log'' \<in> set READ_ONLY" by (simp add: READ_ONLY_def)
  ultimately show ?thesis
    using git_guard_allows [of "[''log'', ''--oneline'']"] git_guard_allows [of "[''log'', ''--output=x'']"] by auto
qed

text \<open>What follows a bare double dash is not looked at, even where the flag before it takes the next argument as its
  value: after a verb, a safe flag such as --since without its value, and a double dash, any arguments reach git.\<close>
theorem dash_dash_unchecked:
  assumes "verb \<in> set READ_ONLY" and "verb \<noteq> ''reflog''" and "name @ ''='' \<in> set SAFE_PREFIXES" and "starts_with ''-'' name"
  shows "git_command d w (verb # name # ''--'' # rest) =
    Inr ((''--git-dir='' @ d) # (''--work-tree='' @ w) # verb # name # ''--'' # rest)"
proof -
  have "prefix_safe name (name @ ''='')"
  proof (rule safe_prefix [OF assms(3)])
    fix n assume "name @ ''='' = n @ ''=''" "\<And>arg. prefix_safe arg (name @ ''='') \<longleftrightarrow> arg = n \<or> starts_with (name @ ''='') arg"
    then show ?thesis by simp
  qed
  with assms(3) have "flag_is_safe name" by (auto simp: flag_is_safe_def list_ex_iff)
  moreover from this have "\<not> flag_is_dangerous name" using dangerous_not_safe by blast
  ultimately have "check_flags (name # ''--'' # rest) = Inr ()" by simp
  moreover have "\<not> starts_with ''-'' verb" using list_facts(5) assms(1) by (simp add: list_all_iff)
  ultimately show ?thesis using assms(1,2) by (simp add: git_command_def validate_def)
qed

lemma dash_dash_unchecked_witness:
  "\<exists>args. git_command [] [] [''blame'', ''--since'', ''--'', ''--output=x''] = Inr args \<and> ''--output=x'' \<in> set args"
proof -
  have "''blame'' \<in> set READ_ONLY" "''--since'' @ ''='' \<in> set SAFE_PREFIXES" "starts_with ''-'' ''--since''"
    by (simp_all add: READ_ONLY_def SAFE_PREFIXES_def starts_with_def)
  from dash_dash_unchecked [OF this(1) _ this(2,3), of "[]" "[]" "[''--output=x'']"] show ?thesis by simp
qed

end
