(* ===== verification/Exclude_Properties.thy ===== *)
theory Exclude_Properties
  imports Publish_Facts Demo_Engine
begin

text \<open>
  What a commit does with a recorded file that the node's own scope leaves out.
\<close>

text \<open>C24. Leaving a file out of the scope deletes it for everyone: when the record holds a file that the node still has
  on disk but that its scope no longer takes, say because of a pattern in the node's own exclude file, the next commit
  publishes a signed primitive whose tree lacks the file, and the record drops it.\<close>
theorem excluding_deletes:
  assumes "commit_staged C now wall e = (e', Ok r)" and "me_main e = Some parent" and "\<not> es_bootstrap_pending (me_state e)"
    and "bt_wf (me_working e)" and "bt_wf (es_materialized (me_state e))" and "hex_laws C" and "b64_laws C" and "ed_laws C"
    and "bt_get (me_working e) p = Some content" and "bt_get (es_materialized (me_state e)) p = Some h"
    and "\<not> content_in_scope (me_scope e) p content" and "\<not> is_keep p"
  shows "\<exists>c files. r = Some (oid_of C (Commit c)) \<and> verify_primitive C c = Ok (id_node C (me_identity e))
    \<and> co_parents c = [parent] \<and> co_tree c = snd (write_tree_from_files C files) \<and> bt_get files p = None
    \<and> es_materialized (me_state e') = hashes C files \<and> bt_get (hashes C files) p = None"
proof -
  define scoped where "scoped = canonicalize_keeps (me_working e) (me_scope e)"
  have wf: "bt_wf scoped" unfolding scoped_def by (rule canonicalize_keeps_wf)
  have gone: "bt_get scoped p = None" unfolding scoped_def by (rule out_of_scope_dropped [OF assms(4,9,11,12)])
  have run: "commit_scoped C now wall scoped e = (e', Ok r)" using assms(1) by (simp add: commit_staged_def scoped_def)
  define mat where "mat = es_materialized (me_state e)"
  define files where "files tree = published C (me_get C e) parent tree mat scoped" for tree
  have files: "bt_wf (files tree)" "bt_get (files tree) p = None" for tree
    unfolding files_def using published_wf [OF wf] gone by (auto simp: published_def map_of_eq_None_iff)
  have no: "bt_get (hashes C (files tree)) p = None" for tree
    by (simp only: hashes_get [OF files(1)] files(2) option.map)
  from commit_nothing_iff [OF run assms(2,3) wf assms(5-8)] obtain tree where
    unchanged: "r = None \<longleftrightarrow> hashes C (files tree) =
        filter (\<lambda>(q, h). \<not> (bt_contains scoped q \<and> path_verdict C (me_get C e) parent tree mat q = Ok Stale)) mat"
    unfolding Let_def mat_def [symmetric] files_def [symmetric] by blast
  have "(p, h) \<in> set mat" using assms(5,10) by (simp add: mat_def bt_get_mem)
  then have kept: "(p, h) \<in> set (filter (\<lambda>(q, h). \<not> (bt_contains scoped q \<and> path_verdict C (me_get C e) parent tree mat q = Ok Stale)) mat)"
    using gone by (simp add: bt_contains_get)
  have "r \<noteq> None"
  proof
    assume "r = None"
    have "hashes C (files tree) =
        filter (\<lambda>(q, h). \<not> (bt_contains scoped q \<and> path_verdict C (me_get C e) parent tree mat q = Ok Stale)) mat"
      by (rule iffD1 [OF unchanged \<open>r = None\<close>])
    with kept have "(p, h) \<in> set (hashes C (files tree))" by (simp only:)
    with no [of tree] show False by (force simp: map_of_eq_None_iff)
  qed
  then obtain x where r: "r = Some x" by blast
  from commit_published [OF run [unfolded r] assms(2) wf assms(6-8)] obtain tree c where
    "x = oid_of C (Commit c)" "verify_primitive C c = Ok (id_node C (me_identity e))" "co_parents c = [parent]"
    "co_tree c = snd (write_tree_from_files C (files tree))" "es_materialized (me_state e') = hashes C (files tree)"
    unfolding Let_def mat_def [symmetric] files_def [symmetric] by blast
  with r files(2) [of tree] no [of tree] show ?thesis by (intro exI [of _ c] exI [of _ "files tree"]) (simp only: simp_thms)
qed

text \<open>A binary file that was recorded while the scope took binary files.\<close>

definition demo_left_out :: mem_engine where
  "demo_left_out = (demo_engine ''A'')\<lparr>me_working := [(''b'', [nul]), (''f'', ''a'')],
     me_state := default_state\<lparr>es_materialized := [(''b'', blob_hash demo [nul])]\<rparr>\<rparr>"

lemma demo_scope: "content_in_scope (rebuild_scope demo_config []) ''f'' ''a''"
  "\<not> content_in_scope (rebuild_scope demo_config []) ''b'' [nul]"
proof -
  have "compile ''**'' = Some \<lparr>gl_negated = False, gl_anchored = False, gl_toks = [DStar]\<rparr>"
    by code_simp
  then have "content_in_scope (rebuild_scope demo_config []) ''f'' ''a''"
    by (simp add: content_in_scope_def path_in_scope_def matches_any_def rebuild_scope_def demo_config_def is_match_def
        CONTEXT_DIR_def starts_with_def is_binary_def from_utf8_ok_ascii is_ascii_char_def del: from_utf8_ok.simps)
  show "content_in_scope (rebuild_scope demo_config []) ''f'' ''a''" by fact
  show "\<not> content_in_scope (rebuild_scope demo_config []) ''b'' [nul]"
    by (simp add: content_in_scope_def rebuild_scope_def demo_config_def is_binary_def)
qed

lemma demo_left_scoped: "canonicalize_keeps (me_working demo_left_out) (me_scope demo_left_out) = [(''f'', ''a'')]"
proof -
  have "\<not> is_keep ''b''" "\<not> is_keep ''f''" by (simp_all add: is_keep_def KEEP_def ends_with_def strip_suffix_def)
  with demo_scope show ?thesis
    by (simp add: demo_left_out_def canonicalize_keeps_def real_files_def add_keeps_def demo_engine_def)
qed

lemma demo_left_commit:
  obtains e' x where "commit_staged demo now wall demo_left_out = (e', Ok (Some x))"
proof -
  let ?e = demo_left_out and ?root = "oid_of demo demo_root"
  have sel: "me_store ?e = demo_store" "me_identity ?e = \<lparr>id_seed = ''A''\<rparr>" "me_main ?e = Some (Oid 2)"
    "me_state ?e = default_state\<lparr>es_materialized := [(''b'', blob_hash demo [nul])]\<rparr>"
    by (simp_all add: demo_left_out_def)
  obtain c where c: "build_primitive_with_readd demo \<lparr>id_seed = ''A''\<rparr> ?root (Oid 2) 1 wall ''ctx edit'' [] = Commit c"
    using build_primitive_commit by blast
  let ?x = "oid_of demo (Commit c)"
  from demo_stored [OF c] obtain s1 s2 s3 t m where s1: "mem_put demo demo_blob demo_store = (s1, Ok (oid_of demo demo_blob))"
    and s2: "mem_put demo demo_root s1 = (s2, Ok ?root)" and s3: "mem_put demo (Commit c) s2 = (s3, Ok ?x)"
    and fold: "compute_main demo (mem_ops demo) [?x] s3 = (t, Ok m)" by blast
  have wrote: "engine_write_tree demo [(''f'', ''a'')] ?e = (?e\<lparr>me_store := s2\<rparr>, Ok ?root)"
    by (simp add: engine_write_tree_def demo_write_one on_store_def put_all_def sbind_def s1 s2 sel)
  define st0 where "st0 = me_state ?e"
  define st where "st = (add_known demo ?x (fst (next_counter st0)))"
  have st: "known_oids demo st = Ok [?x]"
    by (simp add: st_def st0_def sel known_oids_def add_known_def next_counter_def default_state_def Let_def)
  have n: "next_counter st0 = (fst (next_counter st0), 1)"
    by (simp add: st0_def sel next_counter_def default_state_def Let_def)
  have authored: "authored demo ?root (Oid 2) wall [] (?e\<lparr>me_store := s2\<rparr>) = (?e\<lparr>me_store := s3, me_state := st\<rparr>, Commit c)"
    unfolding authored_def st_def by (simp add: sel(2) st0_def [symmetric], subst n, simp add: c s3 Let_def)
  have change: "genuine_change demo [(''b'', blob_hash demo [nul])] [(''f'', ''a'')]" by (simp add: genuine_change_def)
  have guard: "ghost_guard demo (mem_get demo demo_store) (Oid 2) (Oid 1) [(''b'', blob_hash demo [nul])] ts [(''f'', ''a'')]
      = Ok ([(''f'', ''a'')], [], [])" for ts
  proof -
    have "path_present_in_tree (mem_get demo demo_store) (Oid 1) ''f'' = Ok False"
      by (simp add: path_present_in_tree_def)
    moreover have "most_recent_touch_uncached demo (mem_get demo demo_store) (Oid 2) ''f'' = Ok None"
      by (simp add: most_recent_touch_uncached_def touch_of_def)
    ultimately show ?thesis by (simp add: ghost_guard_def classify_path_def)
  qed
  have "commit_onto demo now wall [(''f'', ''a'')] (Oid 2) ?e =
      publish demo wall (Oid 2) [(''f'', ''a'')] [] (apply_quarantines [] ?e)"
    using guard change
    by (simp add: commit_onto_def sbind_def main_tree_def default_state_def apply_quarantines_def sel)
  also have "apply_quarantines [] ?e = ?e" by (simp add: apply_quarantines_def)
  finally have "commit_scoped demo now wall [(''f'', ''a'')] ?e = settle demo [(''f'', ''a'')] ?x (?e\<lparr>me_store := s3, me_state := st\<rparr>)"
    by (simp add: commit_scoped_def sbind_def publish_eq wrote authored sel) (simp add: default_state_def)
  also have "\<dots> = (?e\<lparr>me_store := t, me_main := Some m, me_state := st\<lparr>es_materialized := hashes demo [(''f'', ''a'')]\<rparr>\<rparr>, Ok (Some ?x))"
    by (simp add: settle_def recompute_def sbind_def st on_store_def fold on_state_def)
  finally show thesis using that by (simp add: commit_staged_def demo_left_scoped)
qed

lemma excluding_deletes_witness:
  "\<exists>e' c files. commit_staged demo 0 0 demo_left_out = (e', Ok (Some (oid_of demo (Commit c))))
     \<and> co_tree c = snd (write_tree_from_files demo files) \<and> bt_get files ''b'' = None
     \<and> bt_get (me_working demo_left_out) ''b'' = Some [nul]"
proof -
  obtain e' x where run: "commit_staged demo 0 0 demo_left_out = (e', Ok (Some x))" by (rule demo_left_commit)
  have scope: "me_scope demo_left_out = rebuild_scope demo_config []" by (simp add: demo_left_out_def demo_engine_def)
  have "\<not> is_keep ''b''" by (simp add: is_keep_def KEEP_def ends_with_def strip_suffix_def)
  moreover have "bt_wf (me_working demo_left_out)" "bt_wf (es_materialized (me_state demo_left_out))"
    by (simp_all add: demo_left_out_def bt_wf_def less_char_def)
  ultimately show ?thesis
    using excluding_deletes [OF run _ _ _ _ demo_hex_laws demo_b64_laws demo_ed_laws, of "Oid 2" "''b''" "[nul]" "blob_hash demo [nul]"] demo_scope(2) run
    by (auto simp: scope) (auto simp: demo_left_out_def default_state_def)
qed

end
