(* ===== verification/Ssh_Agent.thy ===== *)
theory Ssh_Agent
  imports Identity
begin

text \<open>
  The client of the ssh agent protocol (\<open>sshagent.rs\<close>): its encoding of numbers and strings, the two exchanges it
  uses and the agent it talks to as a function from the bytes written to a fresh connection to the bytes that the
  agent sends back. Offsets are natural numbers: an addition that overflows a usize is past the end of any buffer.
\<close>

section \<open>The encoding\<close>

type_synonym u32 = "32 word"

definition put_u32 :: "u32 \<Rightarrow> bytes" where
  "put_u32 n = be_bytes 4 (unat n)"

definition put_str :: "bytes \<Rightarrow> bytes" where
  "put_str s = put_u32 (word_of_nat (length s)) @ s"

definition take_u32 :: "bytes \<Rightarrow> nat \<Rightarrow> (u32 \<times> nat) res" where
  "take_u32 buf off =
     (if off + 4 \<le> length buf
      then Ok (word_of_nat (be_val (take 4 (drop off buf))), off + 4)
      else Err (OtherErr ''short reply (u32)''))"

definition take_str :: "bytes \<Rightarrow> nat \<Rightarrow> (bytes \<times> nat) res" where
  "take_str buf off =
     rbind (take_u32 buf off) (\<lambda>(n, off).
       if off + unat n \<le> length buf
       then Ok (take (unat n) (drop off buf), off + unat n)
       else Err (OtherErr ''short reply (body)''))"

section \<open>The agent\<close>

text \<open>What an agent answers on a connection: none when it cannot be reached, else the bytes of its reply.\<close>

type_synonym agent = "bytes \<Rightarrow> bytes option"

definition framed_request :: "bytes \<Rightarrow> bytes" where
  "framed_request body = put_u32 (word_of_nat (length body)) @ body"

definition round_trip :: "agent \<Rightarrow> bytes \<Rightarrow> bytes res" where
  "round_trip ask body =
     (case ask (framed_request body) of
        None \<Rightarrow> Err (OtherErr ''connect ssh-agent'')
      | Some stream \<Rightarrow>
          if length stream < 4 then Err (OtherErr ''read reply length'')
          else
            (let n = be_val (take 4 stream)
             in if length (drop 4 stream) < n then Err (OtherErr ''read reply body'')
                else Ok (take n (drop 4 stream))))"

abbreviation REQUEST_IDENTITIES :: char where "REQUEST_IDENTITIES \<equiv> CHR 0x0B"
abbreviation IDENTITIES_ANSWER :: char where "IDENTITIES_ANSWER \<equiv> CHR 0x0C"
abbreviation SIGN_REQUEST :: char where "SIGN_REQUEST \<equiv> CHR 0x0D"
abbreviation SIGN_RESPONSE :: char where "SIGN_RESPONSE \<equiv> CHR 0x0E"

definition first_byte :: "bytes \<Rightarrow> char option" where
  "first_byte s = (case s of [] \<Rightarrow> None | c # _ \<Rightarrow> Some c)"

fun key_loop :: "nat \<Rightarrow> bytes \<Rightarrow> nat \<Rightarrow> bytes list \<Rightarrow> bytes list res" where
  "key_loop 0 reply off out = Ok out"
| "key_loop (Suc n) reply off out =
     rbind (take_str reply off) (\<lambda>(blob, off).
     rbind (take_str reply off) (\<lambda>(comment, off).
     rbind (take_str blob 0) (\<lambda>(algo, bo).
       key_loop n reply off (if algo = ssh_algo then out @ [blob] else out))))"

definition ed25519_key_blobs :: "agent \<Rightarrow> bytes list res" where
  "ed25519_key_blobs ask =
     rbind (round_trip ask [REQUEST_IDENTITIES]) (\<lambda>reply.
       if first_byte reply \<noteq> Some IDENTITIES_ANSWER then Err (OtherErr ''unexpected reply to identities request'')
       else rbind (take_u32 reply 1) (\<lambda>(n, off). key_loop (unat n) reply off []))"

definition agent_sign :: "agent \<Rightarrow> bytes \<Rightarrow> bytes \<Rightarrow> bytes res" where
  "agent_sign ask key_blob msg =
     rbind (round_trip ask ([SIGN_REQUEST] @ put_str key_blob @ put_str msg @ put_u32 0)) (\<lambda>reply.
       if first_byte reply \<noteq> Some SIGN_RESPONSE then Err (OtherErr ''refused to sign'')
       else
         rbind (take_str reply 1) (\<lambda>(wrapped, off).
         rbind (take_str wrapped 0) (\<lambda>(algo, wo).
           if algo \<noteq> ssh_algo then Err (OtherErr ''signed with another algorithm'')
           else
             rbind (take_str wrapped wo) (\<lambda>(sig, wo).
               if length sig \<noteq> 64 then Err (OtherErr ''ed25519 signature length'') else Ok sig))))"

definition ed25519_pubkey_from_blob :: "bytes \<Rightarrow> node_id res" where
  "ed25519_pubkey_from_blob blob =
     rbind (take_str blob 0) (\<lambda>(algo, off).
       if algo \<noteq> ssh_algo then Err (OtherErr ''not an ssh-ed25519 key blob'')
       else
         rbind (take_str blob off) (\<lambda>(pk, off).
           if length pk \<noteq> 32 then Err (OtherErr ''ed25519 pubkey was not 32 bytes'') else Ok (node_of_bytes pk)))"

section \<open>Reading what was written\<close>

lemma length_put_u32 [simp]: "length (put_u32 n) = 4"
  by (simp add: put_u32_def)

lemma length_put_str [simp]: "length (put_str s) = 4 + length s"
  by (simp add: put_str_def)

lemma be_val_put_u32 [simp]: "be_val (put_u32 n) = unat n"
  using unsigned_less [of n, where 'a = nat] by (simp add: put_u32_def be_val_bytes)

lemma take_u32_put: "take_u32 (pre @ put_u32 n @ post) (length pre) = Ok (n, length pre + 4)"
  by (simp add: take_u32_def)

text \<open>A string of 4 GiB or more is written with the rest of its length by 2 to the 32.\<close>

lemma take_str_put:
  "take_str (pre @ put_str s @ post) (length pre) =
     (let n = length s mod 2 ^ 32 in Ok (take n s, length pre + 4 + n))"
proof -
  have "unat (word_of_nat (length s) :: u32) = length s mod 2 ^ 32"
    by (simp add: unsigned_of_nat take_bit_eq_mod)
  moreover have "length s mod 2 ^ 32 \<le> length s" by (rule mod_less_eq_dividend)
  moreover have "take_u32 (pre @ put_str s @ post) (length pre) = Ok (word_of_nat (length s), length pre + 4)"
    using take_u32_put [of pre _ "s @ post"] by (simp add: put_str_def)
  ultimately show ?thesis
    by (simp add: take_str_def Let_def) (simp add: put_str_def)
qed

lemma take_str_short:
  "length s < 2 ^ 32 \<Longrightarrow> take_str (pre @ put_str s @ post) (length pre) = Ok (s, length pre + 4 + length s)"
  using take_str_put [of pre s post] by simp

lemma take_str_0: "length s < 2 ^ 32 \<Longrightarrow> take_str (put_str s @ post) 0 = Ok (s, 4 + length s)"
  using take_str_short [of s "[]" post] by simp

text \<open>Nothing outside the buffer is read, and every string takes its length and four bytes.\<close>

lemma take_str_bounds:
  assumes "take_str buf off = Ok (s, off')"
  shows "off' = off + 4 + length s" and "off' \<le> length buf" and "s = take (length s) (drop (off + 4) buf)"
  using assms by (auto simp: take_str_def take_u32_def res_simps split: if_splits)

section \<open>An agent that keeps to the protocol\<close>

text \<open>
  The documented answers of an agent that holds the given keys, each with a comment: to the request for identities
  the number of keys, each key and comment; to a request to sign with a key it holds the signature of the given
  function. Nothing is said of other requests.
\<close>

definition identities_answer :: "(bytes \<times> bytes) list \<Rightarrow> bytes" where
  "identities_answer keys =
     [IDENTITIES_ANSWER] @ put_u32 (word_of_nat (length keys)) @ concat (map (\<lambda>(b, c). put_str b @ put_str c) keys)"

definition sign_answer :: "bytes \<Rightarrow> bytes" where
  "sign_answer sig = [SIGN_RESPONSE] @ put_str (put_str ssh_algo @ put_str sig)"

definition agent_serves :: "(bytes \<times> bytes) list \<Rightarrow> (bytes \<Rightarrow> bytes \<Rightarrow> bytes) \<Rightarrow> agent \<Rightarrow> bool" where
  "agent_serves keys sg ask \<longleftrightarrow>
     ask (framed_request [REQUEST_IDENTITIES]) = Some (framed_request (identities_answer keys))
     \<and> (\<forall>(b, c) \<in> set keys. \<forall>msg. length msg < 2 ^ 31 \<longrightarrow>
          ask (framed_request ([SIGN_REQUEST] @ put_str b @ put_str msg @ put_u32 0)) =
            Some (framed_request (sign_answer (sg b msg))))"

definition key_algo :: "bytes \<Rightarrow> bytes option" where
  "key_algo b = map_option fst (ok_opt (take_str b 0))"

text \<open>Keys that start with the name of their algorithm, and a list of them that fits a reply.\<close>

definition keys_ok :: "(bytes \<times> bytes) list \<Rightarrow> bool" where
  "keys_ok keys \<longleftrightarrow> length (identities_answer keys) < 2 ^ 32 \<and> (\<forall>(b, c) \<in> set keys. key_algo b \<noteq> None)"

lemma round_trip_framed:
  assumes "ask (framed_request body) = Some (framed_request reply)" and "length reply < 2 ^ 32"
  shows "round_trip ask body = Ok reply"
proof -
  have "unat (word_of_nat (length reply) :: u32) = length reply"
    using assms(2) by (simp add: unsigned_of_nat take_bit_eq_mod)
  with assms(1) show ?thesis by (simp add: round_trip_def framed_request_def)
qed

lemma key_loop_reads:
  assumes "\<forall>(b, c) \<in> set keys. length b < 2 ^ 32 \<and> length c < 2 ^ 32 \<and> key_algo b \<noteq> None"
  shows "key_loop (length keys) (pre @ concat (map (\<lambda>(b, c). put_str b @ put_str c) keys)) (length pre) out =
    Ok (out @ filter (\<lambda>b. key_algo b = Some ssh_algo) (map fst keys))"
  using assms
proof (induction keys arbitrary: pre out)
  case Nil
  then show ?case by simp
next
  case (Cons k keys)
  obtain b c where k: "k = (b, c)" by force
  let ?rest = "concat (map (\<lambda>(b, c). put_str b @ put_str c) keys)"
  have small: "length b < 2 ^ 32" "length c < 2 ^ 32" "key_algo b \<noteq> None" using Cons.prems by (auto simp: k)
  then obtain algo bo where algo: "take_str b 0 = Ok (algo, bo)" "key_algo b = Some algo"
    by (cases "take_str b 0") (auto simp: key_algo_def)
  have first: "take_str (pre @ put_str b @ put_str c @ ?rest) (length pre) = Ok (b, length (pre @ put_str b))"
    using take_str_short [OF small(1), of pre "put_str c @ ?rest"] by simp
  have second: "take_str (pre @ put_str b @ put_str c @ ?rest) (length (pre @ put_str b))
      = Ok (c, length (pre @ put_str b @ put_str c))"
    using take_str_short [OF small(2), of "pre @ put_str b" ?rest] by (simp add: add.assoc)
  have "key_loop (length keys) ((pre @ put_str b @ put_str c) @ ?rest) (length (pre @ put_str b @ put_str c))
      (if algo = ssh_algo then out @ [b] else out) =
    Ok ((if algo = ssh_algo then out @ [b] else out) @ filter (\<lambda>b. key_algo b = Some ssh_algo) (map fst keys))"
    using Cons.prems by (intro Cons.IH) simp
  with algo show ?case by (simp only: k append_assoc list.map concat.simps case_prod_conv list.size add_Suc_right
        add_0_right key_loop.simps first second rbind.simps) (simp add: algo)
qed

lemma member_small:
  assumes "(b, c) \<in> set keys"
  shows "length b + length c \<le> length (identities_answer keys)"
proof -
  have "length b + length c \<le> length (concat (map (\<lambda>(b, c). put_str b @ put_str c) keys))"
    using assms by (induction keys) auto
  then show ?thesis by (simp add: identities_answer_def)
qed

lemma count_small: "length keys \<le> length (identities_answer keys)"
proof -
  have "length keys \<le> length (concat (map (\<lambda>(b, c). put_str b @ put_str c) keys))"
    by (induction keys) auto
  then show ?thesis by (simp add: identities_answer_def)
qed

lemma agent_keys_exact:
  assumes "agent_serves keys sg ask" and "keys_ok keys"
  shows "ed25519_key_blobs ask = Ok (filter (\<lambda>b. key_algo b = Some ssh_algo) (map fst keys))"
proof -
  have reply: "round_trip ask [REQUEST_IDENTITIES] = Ok (identities_answer keys)"
    using assms by (intro round_trip_framed) (simp_all add: agent_serves_def keys_ok_def)
  have "length keys < 2 ^ 32" using count_small [of keys] assms(2) by (simp add: keys_ok_def)
  then have n: "unat (word_of_nat (length keys) :: u32) = length keys" by (simp add: unsigned_of_nat take_bit_eq_mod)
  let ?pre = "[IDENTITIES_ANSWER] @ put_u32 (word_of_nat (length keys))"
  have "take_u32 (identities_answer keys) 1 = Ok (word_of_nat (length keys), length ?pre)"
    using take_u32_put [of "[IDENTITIES_ANSWER]"] by (simp add: identities_answer_def)
  moreover have "key_loop (length keys) (?pre @ concat (map (\<lambda>(b, c). put_str b @ put_str c) keys)) (length ?pre) [] =
      Ok ([] @ filter (\<lambda>b. key_algo b = Some ssh_algo) (map fst keys))"
    using assms(2) member_small [of _ _ keys] by (intro key_loop_reads) (fastforce simp: keys_ok_def)
  moreover have "first_byte (identities_answer keys) = Some IDENTITIES_ANSWER"
    by (simp add: first_byte_def identities_answer_def)
  ultimately show ?thesis
    by (simp add: ed25519_key_blobs_def reply n) (simp add: identities_answer_def)
qed

lemma agent_signs:
  assumes "agent_serves keys sg ask" and "(b, c) \<in> set keys" and "length msg < 2 ^ 31" and "length (sg b msg) = 64"
  shows "agent_sign ask b msg = Ok (sg b msg)"
proof -
  have algo: "length ssh_algo = 11" by (simp add: ssh_algo_def)
  have reply: "round_trip ask ([SIGN_REQUEST] @ put_str b @ put_str msg @ put_u32 0) = Ok (sign_answer (sg b msg))"
    using assms by (intro round_trip_framed) (auto simp: agent_serves_def sign_answer_def algo)
  have "take_str (sign_answer (sg b msg)) 1 = Ok (put_str ssh_algo @ put_str (sg b msg), 88)"
    using take_str_short [of "put_str ssh_algo @ put_str (sg b msg)" "[SIGN_RESPONSE]" "[]"] assms(4)
    by (simp add: sign_answer_def algo)
  moreover have "take_str (put_str ssh_algo @ put_str (sg b msg)) 0 = Ok (ssh_algo, length (put_str ssh_algo))"
    using take_str_0 [of ssh_algo] by (simp add: algo)
  moreover have "take_str (put_str ssh_algo @ put_str (sg b msg)) (length (put_str ssh_algo)) = Ok (sg b msg, 83)"
    using take_str_short [of "sg b msg" "put_str ssh_algo" "[]"] assms(4) by (simp add: algo)
  moreover have "first_byte (sign_answer (sg b msg)) = Some SIGN_RESPONSE"
    by (simp add: first_byte_def sign_answer_def)
  ultimately show ?thesis using assms(4) unfolding agent_sign_def reply by simp
qed

text \<open>A key blob is the one that \<open>identity.rs\<close> puts into the line of a public key.\<close>

lemma ssh_blob_strings: "ssh_blob node = put_str ssh_algo @ put_str (node_bytes node)"
proof -
  have "unat (word_of_nat (length ssh_algo) :: u32) = length ssh_algo" by (simp add: ssh_algo_def)
  then show ?thesis by (simp add: ssh_blob_def put_str_def put_u32_def)
qed

lemma pubkey_ssh_blob [simp]: "ed25519_pubkey_from_blob (ssh_blob node) = Ok node"
proof -
  have algo: "length ssh_algo = 11" by (simp add: ssh_algo_def)
  have "take_str (ssh_blob node) 0 = Ok (ssh_algo, length (put_str ssh_algo))"
    using take_str_0 [of ssh_algo] by (simp add: algo ssh_blob_strings)
  moreover have "take_str (ssh_blob node) (length (put_str ssh_algo)) = Ok (node_bytes node, 51)"
    using take_str_short [of "node_bytes node" "put_str ssh_algo" "[]"] by (simp add: algo ssh_blob_strings)
  ultimately show ?thesis by (simp add: ed25519_pubkey_from_blob_def)
qed

text \<open>A program that is such an agent.\<close>

definition honest_agent :: "(bytes \<times> bytes) list \<Rightarrow> (bytes \<Rightarrow> bytes \<Rightarrow> bytes) \<Rightarrow> agent" where
  "honest_agent keys sg request =
     (if request = framed_request [REQUEST_IDENTITIES] then Some (framed_request (identities_answer keys))
      else
        (case rbind (take_str (drop 4 request) 1) (\<lambda>(b, off). rbind (take_str (drop 4 request) off) (\<lambda>(msg, off). Ok (b, msg))) of
           Inl e \<Rightarrow> None
         | Inr (b, msg) \<Rightarrow> Some (framed_request (sign_answer (sg b msg)))))"

lemma honest_agent_serves:
  assumes "\<forall>(b, c) \<in> set keys. length b < 2 ^ 32"
  shows "agent_serves keys sg (honest_agent keys sg)"
proof -
  have "honest_agent keys sg (framed_request ([SIGN_REQUEST] @ put_str b @ put_str msg @ put_u32 0)) =
      Some (framed_request (sign_answer (sg b msg)))" if "(b, c) \<in> set keys" "length msg < 2 ^ 31" for b c msg
  proof -
    let ?body = "[SIGN_REQUEST] @ put_str b @ put_str msg @ put_u32 0"
    have b: "length b < 2 ^ 32" using assms that(1) by blast
    have "drop 4 (framed_request ?body) \<noteq> drop 4 (framed_request [REQUEST_IDENTITIES])" by (simp add: framed_request_def)
    then have other: "framed_request ?body \<noteq> framed_request [REQUEST_IDENTITIES]" by metis
    have first: "take_str ?body 1 = Ok (b, length ([SIGN_REQUEST] @ put_str b))"
      using take_str_short [OF b, of "[SIGN_REQUEST]" "put_str msg @ put_u32 0"] by simp
    have second: "take_str ?body (length ([SIGN_REQUEST] @ put_str b)) = Ok (msg, 9 + length b + length msg)"
      using take_str_short [of msg "[SIGN_REQUEST] @ put_str b" "put_u32 0"] that(2) by simp
    have "drop 4 (framed_request ?body) = ?body" by (simp add: framed_request_def)
    with other show ?thesis
      by (simp only: honest_agent_def if_False first second rbind.simps case_prod_conv sum.case)
  qed
  moreover have "honest_agent keys sg (framed_request [REQUEST_IDENTITIES]) = Some (framed_request (identities_answer keys))"
    by (simp add: honest_agent_def)
  ultimately show ?thesis unfolding agent_serves_def by blast
qed

end
