(* ===== verification/Id_Store.thy ===== *)
theory Id_Store
  imports Ssh_Agent File_Tree Demo
begin

text \<open>
  The device's key (\<open>idstore.rs\<close>): where it is kept, the forms it is accepted in, and what the node signs with, a
  key in the process or one that an agent holds. The files are a tree; the environment variables, the sockets of
  agents and the reader of armored OpenSSH keys (the crate ssh-key) are arguments, and so is the seed that a new key
  is generated from. The mode of the file is not modelled.
\<close>

section \<open>The surroundings\<close>

record environment =
  en_home :: "string option"
  en_use_agent :: "string option"
  en_agent_sock :: "string option"

text \<open>
  An armored key as the crate ssh-key reads it: none when it does not parse, else whether it is encrypted and the
  seed when it is an ed25519 key.
\<close>

type_synonym armor_reader = "string \<Rightarrow> (bool \<times> bytes option) option"

record outside =
  ou_env :: environment
  ou_ask :: "string \<Rightarrow> agent"
  ou_armor :: armor_reader

definition path_join :: "string \<Rightarrow> string \<Rightarrow> string" where
  "path_join base p =
     (if starts_with ''/'' p \<or> base = [] then p
      else if ends_with ''/'' base then base @ p
      else base @ ''/'' @ p)"

definition path_exists :: "fs \<Rightarrow> string \<Rightarrow> bool" where
  "path_exists t p = (is_file t p \<or> is_dir t p)"

definition default_path :: "environment \<Rightarrow> string" where
  "default_path env =
     path_join (path_join (case en_home env of None \<Rightarrow> ''.'' | Some h \<Rightarrow> h) ''.context'') ''id_ed25519''"

text \<open>\<open>Agent::from_env\<close>: the socket of the agent.\<close>

definition agent_from_env :: "environment \<Rightarrow> string option" where
  "agent_from_env env =
     (case en_agent_sock env of None \<Rightarrow> None | Some p \<Rightarrow> if p = [] then None else Some p)"

section \<open>What the node signs with\<close>

datatype signer =
    InProcess identity
  | Held (held_node: node_id) (held_blob: bytes) (held_sock: string)

definition signer_sign :: "crates \<Rightarrow> outside \<Rightarrow> signer \<Rightarrow> bytes \<Rightarrow> bytes res" where
  "signer_sign C ou s msg =
     (case s of
        InProcess i \<Rightarrow> Ok (id_sign C i msg)
      | Held node blob sock \<Rightarrow> agent_sign (ou_ask ou sock) blob msg)"

definition signer_node :: "crates \<Rightarrow> signer \<Rightarrow> node_id" where
  "signer_node C s = (case s of InProcess i \<Rightarrow> id_node C i | Held node blob sock \<Rightarrow> node)"

definition signer_ssh_string :: "crates \<Rightarrow> signer \<Rightarrow> string" where
  "signer_ssh_string C s =
     (case s of
        InProcess i \<Rightarrow> to_ssh_string C i
      | Held node blob sock \<Rightarrow> ssh_pubkey_string C node ''csp'')"

definition signer_identity :: "signer \<Rightarrow> identity res" where
  "signer_identity s =
     (case s of
        InProcess i \<Rightarrow> Ok i
      | Held node blob sock \<Rightarrow> Err (OtherErr ''this key is held by the SSH agent''))"

section \<open>Reading a key\<close>

definition openssh_private_signer :: "outside \<Rightarrow> string \<Rightarrow> signer res" where
  "openssh_private_signer ou armored =
     (case ou_armor ou (str_trim armored) of
        None \<Rightarrow> Err (OtherErr ''parse OpenSSH private key'')
      | Some (encrypted, seed) \<Rightarrow>
          if encrypted then Err (OtherErr ''the OpenSSH key is passphrase-encrypted'')
          else
            (case seed of
               None \<Rightarrow> Err (OtherErr ''the OpenSSH key is not ed25519'')
             | Some s \<Rightarrow> Ok (InProcess \<lparr>id_seed = s\<rparr>)))"

definition public_key_agent_signer :: "crates \<Rightarrow> outside \<Rightarrow> string \<Rightarrow> signer res" where
  "public_key_agent_signer C ou pubkey_line =
     rbind (ok_or (OtherErr ''parse OpenSSH public key line'') (parse_ssh_pubkey C pubkey_line)) (\<lambda>node.
     rbind (ok_or (OtherErr ''no SSH agent is running'') (agent_from_env (ou_env ou))) (\<lambda>sock.
     rbind (ed25519_key_blobs (ou_ask ou sock)) (\<lambda>blobs.
     rbind (ok_or (OtherErr ''the SSH agent does not hold the private key'')
              (find (\<lambda>b. ed25519_pubkey_from_blob b = Ok node) blobs)) (\<lambda>blob.
       Ok (Held node blob sock)))))"

definition agent_signer :: "outside \<Rightarrow> signer res" where
  "agent_signer ou =
     rbind (ok_or (OtherErr ''no SSH agent is running'') (agent_from_env (ou_env ou))) (\<lambda>sock.
     rbind (ed25519_key_blobs (ou_ask ou sock)) (\<lambda>blobs.
       case blobs of
         [] \<Rightarrow> Err (OtherErr ''the SSH agent holds no ed25519 keys'')
       | [blob] \<Rightarrow> rbind (ed25519_pubkey_from_blob blob) (\<lambda>pk. Ok (Held pk blob sock))
       | _ \<Rightarrow> Err (OtherErr ''the SSH agent holds several ed25519 keys'')))"

definition parse_identity_file :: "crates \<Rightarrow> outside \<Rightarrow> string \<Rightarrow> signer res" where
  "parse_identity_file C ou body =
     (let trimmed = str_trim body
      in if str_contains ''BEGIN OPENSSH PRIVATE KEY'' trimmed then openssh_private_signer ou body
         else if starts_with ''ssh-ed25519 '' trimmed then public_key_agent_signer C ou trimmed
         else
           rbind (ok_or (OtherErr ''identity hex'') (c_hexdec C trimmed)) (\<lambda>bytes.
             if length bytes \<noteq> 32 then Err (OtherErr ''identity must be a 32-byte seed'')
             else Ok (InProcess \<lparr>id_seed = bytes\<rparr>)))"

definition use_agent :: "environment \<Rightarrow> bool" where
  "use_agent env = (case en_use_agent env of None \<Rightarrow> False | Some v \<Rightarrow> v \<noteq> ''0'' \<and> v \<noteq> [])"

text \<open>\<open>fresh\<close> is the seed that \<open>Identity::generate\<close> draws.\<close>

definition load_or_create :: "crates \<Rightarrow> outside \<Rightarrow> bytes \<Rightarrow> string option \<Rightarrow> (fs, signer \<times> string) seff" where
  "load_or_create C ou fresh explicit t =
     (let path = (case explicit of None \<Rightarrow> default_path (ou_env ou) | Some p \<Rightarrow> p)
      in if use_agent (ou_env ou) then (t, rbind (agent_signer ou) (\<lambda>s. Ok (s, path)))
         else
           (let t = fst (create_dir_all (parent_path path) t)
            in if path_exists t path
               then (t, rbind (read_text path t) (\<lambda>body. rbind (parse_identity_file C ou body) (\<lambda>s. Ok (s, path))))
               else sbind (fs_write path (c_hexenc C fresh)) (\<lambda>_. sret (InProcess \<lparr>id_seed = fresh\<rparr>, path)) t))"

section \<open>Facts\<close>

lemma ok_or_iff: "ok_or e m = Ok x \<longleftrightarrow> m = Some x"
  by (cases m) auto

lemma str_contains_set: "str_contains p s \<Longrightarrow> set p \<subseteq> set s"
proof (induction s)
  case (Cons x s)
  then show ?case by (auto simp: starts_with_iff) (metis Un_iff set_ConsD set_append)+
qed simp

lemma hex_is_seed_file:
  assumes "hex_laws C" and "length seed = 32"
  shows "parse_identity_file C ou (c_hexenc C seed) = Ok (InProcess \<lparr>id_seed = seed\<rparr>)"
proof -
  have digits: "set (c_hexenc C seed) \<subseteq> set hex_digits" using assms(1) by (simp add: hex_laws_def)
  have "\<not> str_contains ''BEGIN OPENSSH PRIVATE KEY'' (c_hexenc C seed)"
  proof
    assume "str_contains ''BEGIN OPENSSH PRIVATE KEY'' (c_hexenc C seed)"
    then have "CHR ''B'' \<in> set (c_hexenc C seed)" by (auto dest: str_contains_set)
    with digits show False by (auto simp: hex_digits_def)
  qed
  moreover have "\<not> starts_with ''ssh-ed25519 '' (c_hexenc C seed)"
  proof
    assume "starts_with ''ssh-ed25519 '' (c_hexenc C seed)"
    then have "CHR ''s'' \<in> set (c_hexenc C seed)" by (auto simp: starts_with_iff)
    with digits show False by (auto simp: hex_digits_def)
  qed
  moreover have "str_trim (c_hexenc C seed) = c_hexenc C seed" by (rule str_trim_all_solid [OF hexenc_solid [OF assms(1)]])
  ultimately show ?thesis using assms by (simp add: parse_identity_file_def)
qed

lemma hexenc_text:
  assumes "hex_laws C"
  shows "from_utf8_ok (c_hexenc C b)"
proof (rule from_utf8_ok_ascii)
  show "is_ascii (c_hexenc C b)" using hexenc_solid [OF assms, of b] by (auto simp: list_all_iff solid_def)
qed

text \<open>A node's keys as an agent holds them: each ed25519 blob is the public key of a seed and is signed with by it.\<close>

definition agent_of_seeds :: "crates \<Rightarrow> (bytes \<times> bytes) list \<Rightarrow> (bytes \<Rightarrow> bytes \<Rightarrow> bytes) \<Rightarrow> bool" where
  "agent_of_seeds C keys sg \<longleftrightarrow>
     (\<forall>(b, c) \<in> set keys. key_algo b = Some ssh_algo \<longrightarrow>
        (\<exists>k. b = ssh_blob (c_pubkey C k) \<and> (\<forall>msg. sg b msg = c_sign C k msg)))"

lemma held_blob_signs:
  assumes "agent_serves keys sg ask" and "keys_ok keys" and "agent_of_seeds C keys sg" and "ed_laws C"
    and "ed25519_key_blobs ask = Ok blobs" and "b \<in> set blobs" and "ed25519_pubkey_from_blob b = Ok node"
    and "length msg < 2 ^ 31"
  shows "\<exists>sig. agent_sign ask b msg = Ok sig \<and> verify_detached C node msg sig = Ok ()"
proof -
  have "blobs = filter (\<lambda>b. key_algo b = Some ssh_algo) (map fst keys)"
    using assms(5) agent_keys_exact [OF assms(1,2)] by simp
  with assms(6) obtain c where "(b, c) \<in> set keys" "key_algo b = Some ssh_algo" by auto
  moreover from this assms(3) obtain k where k: "b = ssh_blob (c_pubkey C k)" "\<And>msg. sg b msg = c_sign C k msg"
    by (fastforce simp: agent_of_seeds_def)
  moreover have "length (sg b msg) = 64" using assms(4) by (simp add: k(2) ed_laws_def)
  ultimately have "agent_sign ask b msg = Ok (sg b msg)" using agent_signs [OF assms(1) _ assms(8)] by blast
  moreover have "verify_detached C node msg (sg b msg) = Ok ()"
    unfolding k(2) using assms(4,7) by (auto simp: k(1) ed_laws_def verify_detached_def verifying_key_def check_signature_def)
  ultimately show ?thesis by blast
qed

lemma agent_signer_Ok:
  assumes "agent_signer ou = Ok s"
  obtains sock blob node where "agent_from_env (ou_env ou) = Some sock" and "ed25519_key_blobs (ou_ask ou sock) = Ok [blob]"
    and "ed25519_pubkey_from_blob blob = Ok node" and "s = Held node blob sock"
proof -
  from assms obtain sock blobs where sock: "agent_from_env (ou_env ou) = Some sock" "ed25519_key_blobs (ou_ask ou sock) = Ok blobs"
    and last: "(case blobs of
         [] \<Rightarrow> Err (OtherErr ''the SSH agent holds no ed25519 keys'')
       | [blob] \<Rightarrow> rbind (ed25519_pubkey_from_blob blob) (\<lambda>pk. Ok (Held pk blob sock))
       | _ \<Rightarrow> Err (OtherErr ''the SSH agent holds several ed25519 keys'')) = Ok s"
    by (auto simp only: agent_signer_def res_simps ok_or_iff)
  from last sock that show thesis by (cases blobs rule: remdups_adj.cases) (auto simp: res_simps)
qed

lemma public_signer_Ok:
  assumes "public_key_agent_signer C ou line = Ok s"
  obtains sock blobs blob node where "parse_ssh_pubkey C line = Some node" and "agent_from_env (ou_env ou) = Some sock"
    and "ed25519_key_blobs (ou_ask ou sock) = Ok blobs" and "blob \<in> set blobs"
    and "ed25519_pubkey_from_blob blob = Ok node" and "s = Held node blob sock"
proof -
  from assms obtain sock blobs blob node where "parse_ssh_pubkey C line = Some node" "agent_from_env (ou_env ou) = Some sock"
    "ed25519_key_blobs (ou_ask ou sock) = Ok blobs" "find (\<lambda>b. ed25519_pubkey_from_blob b = Ok node) blobs = Some blob"
    "s = Held node blob sock"
    by (auto simp: public_key_agent_signer_def res_simps ok_or_iff)
  moreover from this have "blob \<in> set blobs" "ed25519_pubkey_from_blob blob = Ok node" by (auto simp: find_Some_iff)
  ultimately show thesis using that by blast
qed

lemma loaded_signer_cases:
  assumes "load_or_create C ou fresh explicit t = (u, Ok (s, path))"
  obtains i where "s = InProcess i"
  | node blob sock blobs where "s = Held node blob sock" and "ed25519_key_blobs (ou_ask ou sock) = Ok blobs"
    and "blob \<in> set blobs" and "ed25519_pubkey_from_blob blob = Ok node"
proof (cases s)
  case (InProcess i)
  then show thesis by (rule that(1))
next
  case (Held node blob sock)
  consider "agent_signer ou = Ok s" | line where "public_key_agent_signer C ou line = Ok s"
    using assms Held
    by (auto simp: load_or_create_def Let_def res_simps sbind_Ok_iff sret_def parse_identity_file_def
        openssh_private_signer_def split: if_splits option.splits)
  then show thesis
  proof cases
    case 1
    then show thesis by (rule agent_signer_Ok) (rule that(2), auto)
  next
    case 2
    then show thesis by (rule public_signer_Ok) (rule that(2), auto)
  qed
qed

section \<open>Properties\<close>

text \<open>C33. Whatever key the node ends up with, one read from a file, one generated or one an agent holds, what it signs
  verifies under the public key the node announces; of the agent it is only required that it keeps to its protocol and
  signs with the keys it lists.\<close>
theorem loaded_key_signs:
  assumes "load_or_create C ou fresh explicit t = (u, Ok (s, path))" and "ed_laws C"
    and "\<And>sock. agent_serves (keys sock) (sg sock) (ou_ask ou sock)" and "\<And>sock. keys_ok (keys sock)"
    and "\<And>sock. agent_of_seeds C (keys sock) (sg sock)" and "length msg < 2 ^ 31"
  shows "\<exists>sig. signer_sign C ou s msg = Ok sig \<and> verify_detached C (signer_node C s) msg sig = Ok ()"
  using assms(1)
proof (rule loaded_signer_cases)
  fix i assume "s = InProcess i"
  then show ?thesis
    using assms(2) by (simp add: signer_sign_def signer_node_def id_sign_def id_node_def ed_laws_def verify_detached_def
        verifying_key_def check_signature_def)
next
  fix node blob sock blobs assume s: "s = Held node blob sock" and "ed25519_key_blobs (ou_ask ou sock) = Ok blobs"
    and "blob \<in> set blobs" and "ed25519_pubkey_from_blob blob = Ok node"
  from held_blob_signs [OF assms(3-5,2) this(2-4) assms(6)] show ?thesis
    by (simp add: s signer_sign_def signer_node_def)
qed

definition demo_outside :: outside where
  "demo_outside =
     \<lparr>ou_env = \<lparr>en_home = Some ''/h'', en_use_agent = Some ''1'', en_agent_sock = Some ''s''\<rparr>,
      ou_ask = (\<lambda>sock. honest_agent [(ssh_blob (c_pubkey demo ''k''), [])] (\<lambda>b. c_sign demo ''k'')),
      ou_armor = (\<lambda>text. None)\<rparr>"

lemma demo_agent:
  "agent_serves [(ssh_blob (c_pubkey demo ''k''), [])] (\<lambda>b. c_sign demo ''k'') (ou_ask demo_outside sock)"
  "keys_ok [(ssh_blob (c_pubkey demo ''k''), [])]"
  "agent_of_seeds demo [(ssh_blob (c_pubkey demo ''k''), [])] (\<lambda>b. c_sign demo ''k'')"
  "key_algo (ssh_blob (c_pubkey demo ''k'')) = Some ssh_algo"
proof -
  have algo: "length ssh_algo = 11" by (simp add: ssh_algo_def)
  have "take_str (ssh_blob node) 0 = Ok (ssh_algo, 15)" for node
    using take_str_0 [of ssh_algo] by (simp add: algo ssh_blob_strings)
  then have key: "key_algo (ssh_blob node) = Some ssh_algo" for node by (simp add: key_algo_def)
  then show "key_algo (ssh_blob (c_pubkey demo ''k'')) = Some ssh_algo" by simp
  show "agent_serves [(ssh_blob (c_pubkey demo ''k''), [])] (\<lambda>b. c_sign demo ''k'') (ou_ask demo_outside sock)"
    unfolding demo_outside_def outside.simps by (rule honest_agent_serves) (simp add: ssh_blob_strings algo)
  show "keys_ok [(ssh_blob (c_pubkey demo ''k''), [])]"
    using key by (simp add: keys_ok_def identities_answer_def ssh_blob_strings algo)
  show "agent_of_seeds demo [(ssh_blob (c_pubkey demo ''k''), [])] (\<lambda>b. c_sign demo ''k'')"
    by (auto simp: agent_of_seeds_def)
qed

lemma loaded_key_signs_witness:
  "\<exists>s sig. load_or_create demo demo_outside [] None \<lparr>fs_files = [], fs_dirs = []\<rparr> =
       (\<lparr>fs_files = [], fs_dirs = []\<rparr>, Ok (s, ''/h/.context/id_ed25519''))
     \<and> s = Held (c_pubkey demo ''k'') (ssh_blob (c_pubkey demo ''k'')) ''s''
     \<and> signer_sign demo demo_outside s ''m'' = Ok sig \<and> verify_detached demo (signer_node demo s) ''m'' sig = Ok ()"
proof -
  let ?s = "Held (c_pubkey demo ''k'') (ssh_blob (c_pubkey demo ''k'')) ''s''"
  have blobs: "ed25519_key_blobs (ou_ask demo_outside ''s'') = Ok [ssh_blob (c_pubkey demo ''k'')]"
    using agent_keys_exact [OF demo_agent(1,2)] demo_agent(4) by simp
  have env: "ou_env demo_outside = \<lparr>en_home = Some ''/h'', en_use_agent = Some ''1'', en_agent_sock = Some ''s''\<rparr>"
    by (simp add: demo_outside_def)
  have "agent_signer demo_outside = Ok ?s"
    by (simp add: agent_signer_def env agent_from_env_def blobs)
  then have run: "load_or_create demo demo_outside [] None \<lparr>fs_files = [], fs_dirs = []\<rparr> =
       (\<lparr>fs_files = [], fs_dirs = []\<rparr>, Ok (?s, ''/h/.context/id_ed25519''))"
    by (simp add: load_or_create_def env use_agent_def default_path_def path_join_def starts_with_def ends_with_def
        strip_suffix_def)
  show ?thesis
    using loaded_key_signs [OF run demo_ed_laws demo_agent(1-3), of "''m''"] run by auto
qed

text \<open>A generated key survives: once the key file is written, every later start finds the same key, whatever its
  random source would give, and leaves every file as it is.\<close>
theorem generated_key_kept:
  assumes "load_or_create C ou fresh explicit t = (u, Ok (s, path))" and "\<not> use_agent (ou_env ou)"
    and "\<not> path_exists (fst (create_dir_all (parent_path path) t)) path" and "hex_laws C" and "length fresh = 32"
  shows "s = InProcess \<lparr>id_seed = fresh\<rparr> \<and> fs_get u path = Some (c_hexenc C fresh)
    \<and> snd (load_or_create C ou fresh' explicit u) = Ok (s, path)
    \<and> fs_files (fst (load_or_create C ou fresh' explicit u)) = fs_files u"
proof -
  have path: "path = (case explicit of None \<Rightarrow> default_path (ou_env ou) | Some p \<Rightarrow> p)"
    using assms(1,2) by (auto simp: load_or_create_def Let_def res_simps sbind_Ok_iff sret_def split: if_splits)
  with assms(1-3) have made: "s = InProcess \<lparr>id_seed = fresh\<rparr>" "fs_get u path = Some (c_hexenc C fresh)"
    by (auto simp: load_or_create_def Let_def res_simps sbind_Ok_iff sret_def fs_write_def bt_simps split: if_splits)
  have files: "fs_files (fst (create_dir_all p u)) = fs_files u" for p by (simp add: create_dir_all_def)
  have "load_or_create C ou fresh' explicit u = (fst (create_dir_all (parent_path path) u), Ok (s, path))"
    using assms(2) path made hex_is_seed_file [OF assms(4,5)] hexenc_text [OF assms(4)]
    by (simp add: load_or_create_def Let_def path_exists_def is_file_def read_text_def fs_read_def files del: from_utf8_ok.simps)
  with made files show ?thesis by simp
qed

lemma generated_key_kept_witness:
  "\<exists>u s. load_or_create demo (demo_outside\<lparr>ou_env := \<lparr>en_home = Some ''/h'', en_use_agent = None, en_agent_sock = None\<rparr>\<rparr>)
       (replicate 32 (CHR ''k'')) None \<lparr>fs_files = [], fs_dirs = []\<rparr> = (u, Ok (s, ''/h/.context/id_ed25519''))
     \<and> s = InProcess \<lparr>id_seed = replicate 32 (CHR ''k'')\<rparr>"
proof -
  let ?ou = "demo_outside\<lparr>ou_env := \<lparr>en_home = Some ''/h'', en_use_agent = None, en_agent_sock = None\<rparr>\<rparr>"
  let ?t = "\<lparr>fs_files = [], fs_dirs = []\<rparr>"
  have parent: "parent_path ''/h/.context/id_ed25519'' = ''/h/.context''"
    by (simp add: parent_path_def rsplit_once_def split_once_def)
  have dirs: "create_dir_all ''/h/.context'' ?t = (\<lparr>fs_files = [], fs_dirs = [''/h'', ''/h/.context'']\<rparr>, Ok ())"
  proof -
    have "dir_chain ''/h/.context'' = [''/h'', ''/h/.context'']" by code_simp
    then show ?thesis by (simp add: create_dir_all_def is_file_def is_dir_def)
  qed
  define k where "k = replicate 32 (CHR ''k'')"
  have "length k = 32" by (simp add: k_def)
  have "default_path (ou_env ?ou) = ''/h/.context/id_ed25519''"
    by (simp add: default_path_def path_join_def starts_with_def ends_with_def strip_suffix_def)
  then obtain u where run: "load_or_create demo ?ou k None ?t = (u, Ok (InProcess \<lparr>id_seed = k\<rparr>, ''/h/.context/id_ed25519''))"
    by (simp add: load_or_create_def use_agent_def parent dirs path_exists_def is_file_def is_dir_def sbind_def fs_write_def sret_def Let_def)
  have "s = InProcess \<lparr>id_seed = k\<rparr>"
    if "load_or_create demo ?ou k None ?t = (u, Ok (s, ''/h/.context/id_ed25519''))" for s
    using generated_key_kept [OF that _ _ demo_hex_laws \<open>length k = 32\<close>]
    by (simp add: use_agent_def parent dirs path_exists_def is_file_def is_dir_def)
  with run show ?thesis unfolding k_def by blast
qed

end
