(* ===== verification/Cli.thy ===== *)
theory Cli
  imports Vault Id_Store Net
begin

text \<open>
  The command line (\<open>main.rs\<close> and \<open>cli.rs\<close> of crates/ctx): its options and their precedence, names of folders,
  points in time, and each command as an operation on the directory it is run in, a tree of files and a repository.
  Printing, the argument parser of clap and the runtime are not modelled; the files outside the vault's directory are
  a tree of their own.
\<close>

section \<open>Options\<close>

record cli_options =
  cl_dir :: "string option"
  cl_identity :: "string option"
  cl_log :: "string option"
  cl_no_tls :: "bool option"
  cl_no_tofu :: "bool option"
  cl_debounce :: "u64 option"
  cl_listen :: "string option"
  cl_port :: "16 word option"
  cl_authorized_keys :: "string option"
  cl_auth_key :: "string option"
  cl_default_key_ttl :: "string option"

definition parse_bool :: "string \<Rightarrow> bool res" where
  "parse_bool s =
     (let s = to_ascii_lowercase (str_trim s)
      in if s \<in> set [''1'', ''true'', ''yes'', ''on''] then Ok True
         else if s \<in> set [''0'', ''false'', ''no'', ''off'', ''''] then Ok False
         else Err (OtherErr ''expected a boolean''))"

definition is_never :: "string \<Rightarrow> bool" where
  "is_never s = (to_ascii_lowercase s = ''never'' \<or> s = ''0'')"

definition or_default :: "'a option \<Rightarrow> 'a \<Rightarrow> 'a" where
  "or_default x d = (case x of None \<Rightarrow> d | Some y \<Rightarrow> y)"

definition effective_default_ttl_days :: "cli_options \<Rightarrow> vault_config \<Rightarrow> u64" where
  "effective_default_ttl_days cli cfg =
     (let dflt = or_default (vc_default_key_ttl_days cfg) BUILTIN_DEFAULT_TTL_DAYS
      in case cl_default_key_ttl cli of
           None \<Rightarrow> dflt
         | Some s \<Rightarrow> if is_never s then 0 else or_default (parse_duration_days s) dflt)"

definition parse_auth_keys :: "string option \<Rightarrow> string list" where
  "parse_auth_keys spec =
     (case spec of
        None \<Rightarrow> []
      | Some s \<Rightarrow> filter (\<lambda>t. t \<noteq> []) (map str_trim (str_split (CHR '','') s)))"

definition client_auth_key :: "cli_options \<Rightarrow> string option" where
  "client_auth_key cli = (case parse_auth_keys (cl_auth_key cli) of [] \<Rightarrow> None | k # _ \<Rightarrow> Some k)"

definition effective_log :: "cli_options \<Rightarrow> fs \<Rightarrow> string" where
  "effective_log cli t =
     (case cl_log cli of
        Some l \<Rightarrow> l
      | None \<Rightarrow>
          (case rbind (read_text CONFIG_FILE t) from_toml_str of
             Inr cfg \<Rightarrow> or_default (vc_log cfg) ''ctx=info,csp_core=info''
           | Inl e \<Rightarrow> ''ctx=info,csp_core=info''))"

definition root_dir :: "cli_options \<Rightarrow> string \<Rightarrow> string" where
  "root_dir cli cwd = (case cl_dir cli of Some d \<Rightarrow> d | None \<Rightarrow> cwd)"

section \<open>Names of folders\<close>

definition is_alnum :: "char \<Rightarrow> bool" where
  "is_alnum c = (is_digit c \<or> 65 \<le> byte c \<and> byte c \<le> 90 \<or> 97 \<le> byte c \<and> byte c \<le> 122)"

definition slug_char :: "uchar \<Rightarrow> bool" where
  "slug_char u = (case u of [c] \<Rightarrow> is_alnum c \<or> c \<in> set ''._-'' | _ \<Rightarrow> False)"

fun slug_step :: "string \<times> bool \<Rightarrow> uchar \<Rightarrow> string \<times> bool" where
  "slug_step (out, dash) u =
     (if slug_char u then (out @ u, False)
      else if \<not> dash \<and> out \<noteq> [] then (out @ ''-'', True)
      else (out, dash))"

definition trim_marks :: "string \<Rightarrow> string" where
  "trim_marks s =
     (let mark = (\<lambda>c. c = CHR ''-'' \<or> c = CHR ''.'') in rev (dropWhile mark (rev (dropWhile mark s))))"

definition slug :: "string \<Rightarrow> string" where
  "slug s = trim_marks (fst (foldl slug_step ([], False) (str_chars s)))"

definition short_id :: "string \<Rightarrow> string" where
  "short_id vault_id =
     (let head = concat (take 8 (str_chars (slug vault_id)))
      in ''vault-'' @ (if head = [] then ''x'' else head))"

text \<open>The last component of a path, none for the root.\<close>

definition file_name :: "string \<Rightarrow> string option" where
  "file_name p =
     (let n = (case rsplit_once (CHR ''/'') p of None \<Rightarrow> p | Some (d, n) \<Rightarrow> n)
      in if n = [] \<or> n = ''..'' then None else Some n)"

text \<open>\<open>dir\<close> is the canonical path.\<close>

definition derive_name :: "environment \<Rightarrow> string \<Rightarrow> string" where
  "derive_name env dir =
     (if en_home env = Some dir then []
      else
        (case file_name dir of
           Some n \<Rightarrow> if n \<noteq> [] \<and> n \<noteq> ''.'' \<and> n \<noteq> ''/'' then slug n else []
         | None \<Rightarrow> []))"

section \<open>Points in time\<close>

text \<open>\<open>i64\<close>: sums and products wrap; the operands of a division and of a comparison are wrapped first.\<close>

definition w64 :: "int \<Rightarrow> int" where
  "w64 i = signed_take_bit 63 i"

text \<open>The seconds of a civil time, as the release build computes them.\<close>

definition civil_secs :: "int \<Rightarrow> int \<Rightarrow> int \<Rightarrow> int \<Rightarrow> int \<Rightarrow> int \<Rightarrow> int \<Rightarrow> int" where
  "civil_secs y mo d h mi sec off =
     (let yy = (if mo \<le> 2 then w64 (y - 1) else y);
          era = tdiv (if yy \<ge> 0 then yy else w64 (yy - 399)) 400;
          yoe = w64 (yy - era * 400);
          doy = w64 (tdiv (w64 (153 * (if mo > 2 then mo - 3 else mo + 9) + 2)) 5 + d - 1);
          doe = w64 (yoe * 365 + tdiv yoe 4 - tdiv yoe 100 + doy);
          days = w64 (era * 146097 + doe - 719468)
      in w64 (days * 86400 + h * 3600 + mi * 60 + sec - off))"

text \<open>\<open>split_once\<close> at the first of two characters, and \<open>rfind\<close> of one.\<close>

fun split_first :: "char list \<Rightarrow> string \<Rightarrow> (string \<times> string) option" where
  "split_first cs [] = None"
| "split_first cs (x # xs) =
     (if x \<in> set cs then Some ([], xs) else map_option (\<lambda>(a, b). (x # a, b)) (split_first cs xs))"

definition rfind :: "char list \<Rightarrow> string \<Rightarrow> nat option" where
  "rfind cs s =
     (case filter (\<lambda>i. s ! i \<in> set cs) [0..<length s] of [] \<Rightarrow> None | is \<Rightarrow> Some (last is))"

text \<open>A slice that does not end between two characters panics.\<close>

definition parse_offset :: "string \<Rightarrow> int option res" where
  "parse_offset tz =
     (let sign = (if starts_with ''-'' tz then - 1 else 1); tz = drop 1 tz;
          secs = (\<lambda>h m. case (parse_i64 h, parse_i64 m) of
             (Some oh, Some om) \<Rightarrow> Some (w64 (sign * (oh * 3600 + om * 60)))
           | _ \<Rightarrow> None)
      in case split_once (CHR '':'') tz of
           Some (h, m) \<Rightarrow> Ok (secs h m)
         | None \<Rightarrow>
             if length tz = 4
             then if cont (tz ! 2) then Err (Panic ''byte index is not a char boundary'')
                  else Ok (secs (take 2 tz) (drop 2 tz))
             else Ok None)"

definition time_and_offset :: "string \<Rightarrow> (string \<times> int) option res" where
  "time_and_offset rest =
     (case strip_suffix ''Z'' rest of
        Some t \<Rightarrow> Ok (Some (t, 0))
      | None \<Rightarrow>
          (case rfind ''+-'' rest of
             Some i \<Rightarrow> rbind (parse_offset (drop i rest)) (\<lambda>off. Ok (map_option (\<lambda>s. (take i rest, s)) off))
           | None \<Rightarrow> Ok (Some (rest, 0))))"

definition clock_time :: "string \<Rightarrow> (int \<times> int \<times> int) option" where
  "clock_time time =
     (case str_split (CHR '':'') time of
        h # mi # rest \<Rightarrow>
          (let sec = hd (str_split (CHR ''.'') (case rest of [] \<Rightarrow> ''0'' | s # _ \<Rightarrow> s))
           in case (parse_i64 h, parse_i64 mi, parse_i64 sec) of
                (Some h, Some mi, Some sec) \<Rightarrow> Some (h, mi, sec)
              | _ \<Rightarrow> None)
      | _ \<Rightarrow> None)"

definition parse_when :: "string \<Rightarrow> u64 option res" where
  "parse_when s =
     (case parse_u64 (str_trim s) of
        Some n \<Rightarrow> Ok (Some n)
      | None \<Rightarrow>
          (case split_first ''T '' (str_trim s) of
             None \<Rightarrow> Ok None
           | Some (date, rest) \<Rightarrow>
               (case map parse_i64 (str_split (CHR ''-'') date) of
                  [Some y, Some mo, Some d] \<Rightarrow>
                    rbind (time_and_offset rest) (\<lambda>t. Ok
                      (case t of
                         None \<Rightarrow> None
                       | Some (time, off) \<Rightarrow>
                           (case clock_time time of
                              None \<Rightarrow> None
                            | Some (h, mi, sec) \<Rightarrow>
                                (let total = civil_secs y mo d h mi sec off
                                 in if total < 0 then None else Some (of_int total)))))
                | _ \<Rightarrow> Ok None)))"

section \<open>Commands on a vault\<close>

text \<open>The keys named by an option or an environment variable, as a file or as a list.\<close>

definition seed_lines :: "fs \<Rightarrow> string \<Rightarrow> string list res" where
  "seed_lines dev spec =
     rbind (if path_exists dev spec then read_text spec dev
            else Ok (map (\<lambda>c. if c = CHR '','' then nl else c) spec)) (\<lambda>body.
       Ok (filter (\<lambda>l. l \<noteq> [] \<and> \<not> starts_with ''#'' l) (map str_trim (str_lines body))))"

definition seed_authorized :: "crates \<Rightarrow> fs \<Rightarrow> string option \<Rightarrow> (vault, unit) seff" where
  "seed_authorized C dev spec =
     (case spec of
        None \<Rightarrow> sret ()
      | Some s \<Rightarrow> sbind (sread (\<lambda>_. seed_lines dev s)) (smapM (vault_authorize C)))"

definition with_context :: "string \<Rightarrow> ('s, 'a) seff \<Rightarrow> ('s, 'a) seff" where
  "with_context msg m s =
     (case m s of
        (t, Inl e) \<Rightarrow> (t, Err (case e of Panic p \<Rightarrow> Panic p | Diverge \<Rightarrow> Diverge | _ \<Rightarrow> OtherErr msg))
      | (t, Inr x) \<Rightarrow> (t, Ok x))"

text \<open>An operation on a vault just created or opened; the vault is closed at the end.\<close>

definition on_vault :: "(vault, 'a) seff \<Rightarrow> vault \<Rightarrow> (fs \<times> disk, 'a) seff" where
  "on_vault m v s = (case m v of (v, r) \<Rightarrow> ((va_fs v, va_git v), r))"

definition opened :: "crates \<Rightarrow> codec \<Rightarrow> oid list \<Rightarrow> identity \<Rightarrow> (vault, 'a) seff \<Rightarrow> (fs \<times> disk, 'a) seff" where
  "opened C J listing ident m = sbind (with_context ''open vault'' (vault_open C J listing ident)) (on_vault m)"

definition device_identity :: "crates \<Rightarrow> outside \<Rightarrow> bytes \<Rightarrow> cli_options \<Rightarrow> (fs, identity) seff" where
  "device_identity C ou fresh cli =
     sbind (load_or_create C ou fresh (cl_identity cli)) (\<lambda>(s, path). sread (\<lambda>_. signer_identity s))"

definition seed_ignore :: "(vault, unit) seff" where
  "seed_ignore = (\<lambda>v.
     if path_exists (va_fs v) CONTEXTIGNORE then (v, Ok ())
     else on_fs (fs_write CONTEXTIGNORE DEFAULT_CONTEXTIGNORE) v)"

definition cmd_init ::
  "crates \<Rightarrow> codec \<Rightarrow> string \<Rightarrow> identity \<Rightarrow> string \<Rightarrow> string \<Rightarrow> fs \<Rightarrow> cli_options \<Rightarrow> (fs \<times> disk, unit) seff"
where
  "cmd_init C J root ident vid nm dev cli =
     sbind (with_context ''create vault (already a vault here?)'' (vault_create C J root ident vid)) (on_vault (
       sbind (set_name nm) (\<lambda>_.
       sbind (seed_authorized C dev (cl_authorized_keys cli)) (\<lambda>_.
         seed_ignore))))"

definition authorize_expiry :: "cli_options \<Rightarrow> vault_config \<Rightarrow> u64 \<Rightarrow> string option \<Rightarrow> expiry res" where
  "authorize_expiry cli cfg now ttl =
     rbind (case ttl of
              Some s \<Rightarrow>
                if is_never s then Ok None
                else rbind (ok_or (OtherErr (''invalid --ttl: '' @ s)) (parse_duration_days s)) (\<lambda>d. Ok (Some d))
            | None \<Rightarrow> (let d = effective_default_ttl_days cli cfg in Ok (if d = 0 then None else Some d)))
       (\<lambda>ttl_days. Ok (case ttl_days of None \<Rightarrow> Never | Some d \<Rightarrow> At (expiry_from_ttl_days now d)))"

definition cmd_authorize :: "crates \<Rightarrow> cli_options \<Rightarrow> u64 \<Rightarrow> string \<Rightarrow> string option \<Rightarrow> (vault, unit) seff" where
  "cmd_authorize C cli now pubkey ttl =
     sbind (sread (\<lambda>v. authorize_expiry cli (va_config v) now ttl)) (vault_authorize_with_expiry C pubkey)"

text \<open>One line of the list of keys: the node, the line, its state, its date and the whole days that are left.\<close>

definition key_status ::
  "crates \<Rightarrow> u64 \<Rightarrow> key_entry \<Rightarrow> string option \<times> string \<times> string \<times> string option \<times> u64 option"
where
  "key_status C now e =
     (map_option (node_to_hex C) (ke_node e), ke_raw e,
      (case ke_expiry e of
         At t \<Rightarrow> if t > now then ''valid'' else ''expired''
       | Never \<Rightarrow> ''never-expires''
       | Unset \<Rightarrow> ''unmigrated''),
      (case ke_expiry e of At t \<Rightarrow> Some (format_date_ymd_utc t) | _ \<Rightarrow> None),
      (case ke_expiry e of At t \<Rightarrow> if t > now then Some ((t - now) div 86400) else None | _ \<Rightarrow> None))"

definition cmd_auth_list ::
  "crates \<Rightarrow> u64 \<Rightarrow> vault \<Rightarrow> (string option \<times> string \<times> string \<times> string option \<times> u64 option) list"
where
  "cmd_auth_list C now v = map (key_status C now) (authorized_entries C v)"

definition cmd_auth_extend :: "crates \<Rightarrow> u64 \<Rightarrow> string \<Rightarrow> string \<Rightarrow> (vault, nat) seff" where
  "cmd_auth_extend C now target duration =
     sbind (sread (\<lambda>_.
       if is_never duration then Ok None
       else rbind (ok_or (OtherErr (''invalid duration: '' @ duration)) (parse_duration_days duration)) (\<lambda>d. Ok (Some d))))
       (extend_expiry C now target)"

text \<open>What the status shows: main, the tips of the frontier, how many primitives are known and keys authorized.\<close>

definition cmd_status :: "crates \<Rightarrow> u64 \<Rightarrow> vault \<Rightarrow> (string \<times> string list \<times> nat \<times> nat) res" where
  "cmd_status C now v =
     (let main = (case repo_main C (va_git v) of None \<Rightarrow> [] | Some m \<Rightarrow> to_hex C m)
      in rbind (vault_frontier_tips C v) (\<lambda>tips.
         rbind (vault_known C v) (\<lambda>known.
           Ok (main, map (to_hex C) tips, length known, card (vault_authorized_node_ids C now v)))))"

definition no_such_target :: "string \<Rightarrow> string" where
  "no_such_target target =
     ''no snapshot '' @ [CHR 0x27] @ target @ [CHR 0x27] @ '' and not a unix time or RFC-3339 timestamp''"

definition cmd_restore :: "crates \<Rightarrow> codec \<Rightarrow> u64 \<Rightarrow> u64 \<Rightarrow> string \<Rightarrow> (vault, unit) seff" where
  "cmd_restore C J now wall target = (\<lambda>v.
     if bt_contains (es_snapshots (va_state v)) target then vault_restore_snapshot C J now wall target v
     else
       sbind (sread (\<lambda>_. parse_when target)) (\<lambda>t.
         case t of
           Some t \<Rightarrow> vault_restore_time C J now wall t
         | None \<Rightarrow> sread (\<lambda>_. Err (OtherErr (no_such_target target)))) v)"

text \<open>The records that \<open>git log\<close> prints for the machine-readable log.\<close>

definition log_records :: "string \<Rightarrow> (string \<times> string \<times> string \<times> string) list" where
  "log_records out =
     List.map_filter (\<lambda>rec.
       let crlf = (\<lambda>c. c = nl \<or> c = cr);
           rec = rev (dropWhile crlf (rev (dropWhile crlf rec)))
       in if rec = [] then None
          else (case str_split (CHR 0x1F) rec of [sha, author, date, subject] \<Rightarrow> Some (sha, author, date, subject) | _ \<Rightarrow> None))
       (str_split (CHR 0x1E) out)"

section \<open>Cloning\<close>

definition clone_folder :: "string \<Rightarrow> string \<Rightarrow> string" where
  "clone_folder vault_id vault_name = (if vault_name = [] then short_id vault_id else slug vault_name)"

definition clone_target :: "string \<Rightarrow> string option \<Rightarrow> string \<Rightarrow> string \<Rightarrow> string" where
  "clone_target root into vault_id vault_name =
     (case into of
        None \<Rightarrow> path_join root (clone_folder vault_id vault_name)
      | Some d \<Rightarrow> if d = ''.'' then root else path_join root d)"

text \<open>Where a clone may go: not into a vault and, by default, only into a new or an empty folder; the target is its tree, without
  anything in it when it is not there.\<close>

definition clone_allowed :: "fs \<Rightarrow> string \<Rightarrow> string option \<Rightarrow> string \<Rightarrow> unit res" where
  "clone_allowed t target into vault_id =
     (if vault_id = [] then Err (OtherErr ''listener returned empty vault id'')
      else if path_exists t CONTEXT_DIR then Err (OtherErr (target @ '' is already a CSP vault (refusing to clobber)''))
      else if into = None \<and> (fs_files t \<noteq> [] \<or> fs_dirs t \<noteq> [])
      then Err (OtherErr (target @ '' already exists and is not empty '' @ [CHR 0xE2, CHR 0x80, CHR 0x94] @
             '' pass an explicit dir or `.`''))
      else Ok ())"

definition add_origin :: "string \<Rightarrow> (vault, unit) seff" where
  "add_origin url = (\<lambda>v.
     if url \<in> set (vc_peers (va_config v)) then (v, Ok ())
     else save_config (v\<lparr>va_config := (va_config v)\<lparr>vc_peers := vc_peers (va_config v) @ [url]\<rparr>\<rparr>))"

definition clone_setup :: "crates \<Rightarrow> codec \<Rightarrow> fs \<Rightarrow> cli_options \<Rightarrow> string \<Rightarrow> string \<Rightarrow> string \<Rightarrow> (vault, unit) seff" where
  "clone_setup C J dev cli vault_name server_ssh url =
     sbind (set_name vault_name) (\<lambda>_.
     sbind (vault_authorize C server_ssh) (\<lambda>_.
     sbind (seed_authorized C dev (cl_authorized_keys cli)) (\<lambda>_.
     sbind (vault_mark_bootstrap_pending J) (\<lambda>_.
       add_origin url))))"

definition cmd_clone ::
  "crates \<Rightarrow> codec \<Rightarrow> string \<Rightarrow> identity \<Rightarrow> string \<times> string \<times> string \<Rightarrow> string \<Rightarrow> fs \<Rightarrow> cli_options \<Rightarrow> (fs \<times> disk, unit) seff"
where
  "cmd_clone C J target ident probed url dev cli =
     (case probed of (vault_id, vault_name, server_ssh) \<Rightarrow>
        sbind (vault_create C J target ident vault_id) (on_vault (clone_setup C J dev cli vault_name server_ssh url)))"

section \<open>The daemon\<close>

text \<open>The configuration in memory: options win over the file, and nothing here is written to it.\<close>

definition watch_config :: "cli_options \<Rightarrow> vault_config \<Rightarrow> vault_config" where
  "watch_config cli cfg =
     (let cli_auth_keys = parse_auth_keys (cl_auth_key cli);
          cfg = cfg\<lparr>vc_auth_keys := if cli_auth_keys \<noteq> [] then cli_auth_keys else vc_auth_keys cfg\<rparr>
      in cfg\<lparr>vc_default_key_ttl_days := Some (effective_default_ttl_days cli cfg),
             vc_no_tofu := or_default (cl_no_tofu cli) (vc_no_tofu cfg)\<rparr>)"

definition watch_listen :: "cli_options \<Rightarrow> vault_config \<Rightarrow> string option" where
  "watch_listen cli cfg = (case cl_listen cli of None \<Rightarrow> vc_listen cfg | Some l \<Rightarrow> Some l)"

definition watch_no_tls :: "cli_options \<Rightarrow> vault_config \<Rightarrow> bool" where
  "watch_no_tls cli cfg = or_default (cl_no_tls cli) (vc_no_tls cfg)"

definition watch_debounce :: "cli_options \<Rightarrow> vault_config \<Rightarrow> u64" where
  "watch_debounce cli cfg = or_default (cl_debounce cli) (vc_debounce_ms cfg)"

definition watch_peers :: "vault_config \<Rightarrow> string list \<Rightarrow> string list" where
  "watch_peers cfg extra = vc_peers cfg @ extra"

definition watch_setup :: "crates \<Rightarrow> u64 \<Rightarrow> fs \<Rightarrow> cli_options \<Rightarrow> (vault, unit) seff" where
  "watch_setup C now dev cli = (\<lambda>v.
     let listen = watch_listen cli (va_config v)
     in sbind (smodify (\<lambda>v. v\<lparr>va_config := watch_config cli (va_config v)\<rparr>)) (\<lambda>_.
        sbind (seed_authorized C dev (cl_authorized_keys cli)) (\<lambda>_.
          if listen \<noteq> None
          then with_context ''listen-start migration'' (sbind (migrate_default_expiry C now) (\<lambda>_. sret ()))
          else sret ())) v)"

text \<open>Whether an event of the file system is about the files that are kept in step.\<close>

definition touches_scope :: "string \<Rightarrow> string list \<Rightarrow> bool" where
  "touches_scope root paths =
     list_ex (\<lambda>p.
       let rel = (if p = root then [] else case strip_prefix (root @ ''/'') p of None \<Rightarrow> p | Some r \<Rightarrow> r)
       in \<not> in_context (from_utf8_lossy rel)) paths"

end
