(* ===== verification/Cli_Facts.thy ===== *)
theory Cli_Facts
  imports Cli Vault_Admission Vault_Materialize Demo_Disk
begin

text \<open>
  What the commands leave alone: a change of the list of keys touches the files of that list and nothing else, and the
  flag of a clone that has not caught up survives every step of the set-up, the end of the process and the next start.
\<close>

section \<open>The frame of a change to the keys\<close>

definition keys_frame :: "vault \<Rightarrow> vault \<Rightarrow> bool" where
  "keys_frame v v' \<longleftrightarrow> fs_except key_paths (va_fs v) (va_fs v') \<and> v' = v\<lparr>va_fs := va_fs v'\<rparr>"

lemma keys_frame_refl: "reflp keys_frame"
  by (simp add: reflp_def keys_frame_def fs_except_def)

lemma keys_frame_trans: "transp keys_frame"
proof (rule transpI)
  fix u v w assume "keys_frame u v" "keys_frame v w"
  then have "fs_except key_paths (va_fs u) (va_fs w)" "v = u\<lparr>va_fs := va_fs v\<rparr>" "w = v\<lparr>va_fs := va_fs w\<rparr>"
    by (auto simp: keys_frame_def fs_except_def)
  then show "keys_frame u w" unfolding keys_frame_def by (metis vault.update_convs(1) vault.surjective vault.cases_scheme)
qed

lemmas frame_rules = keeps_sbind [OF keys_frame_trans] keeps_sread [OF keys_frame_refl] keeps_sret [OF keys_frame_refl]
  keeps_smapM [OF keys_frame_refl keys_frame_trans]

lemma frame_on_fs: "keeps (fs_except key_paths) m \<Longrightarrow> keeps keys_frame (on_fs m)"
proof -
  assume m: "keeps (fs_except key_paths) m"
  have "keys_frame v (fst (on_fs m v))" for v
    using keepsD [OF m, of "va_fs v"] by (cases "m (va_fs v)") (simp add: on_fs_def keys_frame_def)
  then show ?thesis by (simp add: keeps_def)
qed

lemma except_locked:
  assumes "keeps (fs_except key_paths) f"
  shows "keeps (fs_except key_paths) (with_authorized_lock f)"
proof -
  have "keeps (fs_except key_paths) (create_dir_all CONTEXT_DIR)" by (simp add: keeps_def fs_except_def create_dir_all_def)
  moreover have "keeps (fs_except key_paths) (open_or_create AUTHORIZED_LOCK)"
    unfolding keeps_def by (intro allI fs_except_mono [OF except_open_or_create]) (simp add: key_paths_def)
  ultimately show ?thesis using assms unfolding with_authorized_lock_def by (intro keeps_sbind [OF fs_except_trans])
qed

lemma except_write_keys: "keeps (fs_except key_paths) (write_authorized_atomic s)"
  unfolding keeps_def write_authorized_atomic_def
  by (intro allI fs_except_mono [OF except_write_atomic]) (simp add: key_paths_def)

lemma frame_with_entries:
  assumes "\<And>entries. keeps (fs_except key_paths) (f entries)"
  shows "keeps keys_frame (with_entries C f)"
proof -
  have "keeps (fs_except key_paths) (\<lambda>t. f (parse_file C (text_or_default AUTHORIZED_KEYS t)) t)"
    using assms by (simp add: keeps_def)
  then show ?thesis unfolding with_entries_def by (intro frame_on_fs except_locked)
qed

lemmas except_rules = keeps_sbind [OF fs_except_trans] keeps_sret [OF fs_except_refl] except_write_keys

lemma frame_authorize: "keeps keys_frame (vault_authorize_with_expiry C line ex)"
  unfolding vault_authorize_with_expiry_def
  by (intro frame_with_entries) (auto simp: Let_def intro: except_rules split: option.split)

lemma frame_rewrite: "keeps keys_frame (rewrite_entries C P ex)"
  unfolding rewrite_entries_def Let_def by (intro frame_with_entries except_rules) (auto intro: except_rules)

lemma frame_migrate: "keeps keys_frame (migrate_default_expiry C now)"
  unfolding migrate_default_expiry_def Let_def
  using keepsD [OF frame_rewrite] reflpD [OF keys_frame_refl] by (simp add: keeps_def)

lemma frame_seed: "keeps keys_frame (seed_authorized C dev spec)"
  unfolding seed_authorized_def vault_authorize_def by (auto intro!: frame_rules frame_authorize split: option.split)

lemma keeps_with_context: "keeps R m \<Longrightarrow> keeps R (with_context msg m)"
proof -
  have "fst (with_context msg m s) = fst (m s)" for s by (auto simp: with_context_def split: prod.splits sum.splits)
  then show "keeps R m \<Longrightarrow> keeps R (with_context msg m)" by (simp add: keeps_def)
qed

lemma with_context_Ok [simp]: "with_context msg m s = (t, Ok x) \<longleftrightarrow> m s = (t, Ok x)"
  by (auto simp: with_context_def split: prod.splits sum.splits)

text \<open>The files of the list are none of the files that the rest is kept in.\<close>

lemma key_paths_eq: "key_paths = {''.context/authorized_keys.lock'', ''.context/authorized_keys.ak-tmp'', ''.context/authorized_keys''}"
  by (simp add: key_paths_def AUTHORIZED_KEYS_def AUTHORIZED_LOCK_def CONTEXT_DIR_def with_extension_def
      name_with_extension_def rsplit_once_def split_once_def)

lemma other_files: "CONFIG_FILE \<notin> key_paths" "STATE_FILE \<notin> key_paths" "CONFIG_FILE \<noteq> STATE_FILE"
  unfolding key_paths_eq by (simp_all add: CONFIG_FILE_def STATE_FILE_def CONTEXT_DIR_def)

section \<open>The daemon's set-up\<close>

lemma watch_setup_frame:
  assumes "watch_setup C now dev cli v = (v', r)"
  shows "keys_frame (v\<lparr>va_config := watch_config cli (va_config v)\<rparr>) v'"
proof -
  define rest where "rest = sbind (seed_authorized C dev (cl_authorized_keys cli)) (\<lambda>_.
    if watch_listen cli (va_config v) \<noteq> None
    then with_context ''listen-start migration'' (sbind (migrate_default_expiry C now) (\<lambda>_. sret ()))
    else sret ())"
  have "keeps keys_frame rest"
    unfolding rest_def by (auto intro!: frame_rules frame_seed keeps_with_context frame_migrate)
  moreover have "rest (v\<lparr>va_config := watch_config cli (va_config v)\<rparr>) = (v', r)"
    using assms by (simp add: watch_setup_def rest_def Let_def sbind_def smodify_def)
  ultimately show ?thesis by (rule keepsD2)
qed

section \<open>A clone\<close>

text \<open>
  What is needed of the encoding of the state file: it is not empty, and the flag of a vault that has not caught up is
  read back as it was written.
\<close>

definition flag_law :: "codec \<Rightarrow> bool" where
  "flag_law J \<longleftrightarrow> (\<forall>st. cd_encode J st \<noteq> []
     \<and> (\<exists>st'. cd_decode J (cd_encode J st) = Some st' \<and> es_bootstrap_pending st' = es_bootstrap_pending st))"

text \<open>The state in memory and the state on disk say that the vault has not caught up.\<close>

definition waiting :: "codec \<Rightarrow> vault \<Rightarrow> bool" where
  "waiting J v \<longleftrightarrow> es_bootstrap_pending (va_state v)
     \<and> (\<exists>b st. fs_get (va_fs v) STATE_FILE = Some b \<and> b \<noteq> [] \<and> cd_decode J b = Some st \<and> es_bootstrap_pending st)"

lemma marked_waits:
  assumes "vault_mark_bootstrap_pending J v = (v', Ok ())" and "flag_law J"
  shows "waiting J v'"
proof -
  define u where "u = on_mem (\<lambda>st. st\<lparr>es_bootstrap_pending := True\<rparr>) v"
  have run: "save_state J u = (v', Ok ())"
    using assms(1) by (simp add: vault_mark_bootstrap_pending_def sbind_def smodify_def u_def)
  then have save: "state_save J (va_state u) (va_fs u) = (va_fs v', Ok ())" and state: "va_state v' = va_state u"
    by (auto simp: save_state_def on_fs_def split: prod.splits)
  let ?st = "merge_on_save (va_state u) (ok_opt (state_load J (va_fs u)))"
  have "es_bootstrap_pending ?st" by (simp add: merge_on_save_def u_def on_mem_def split: option.split)
  moreover obtain st' where "cd_encode J ?st \<noteq> []" "cd_decode J (cd_encode J ?st) = Some st'"
    "es_bootstrap_pending st' = es_bootstrap_pending ?st" using assms(2) unfolding flag_law_def by metis
  moreover have "fs_get (va_fs v') STATE_FILE = Some (cd_encode J ?st)" by (rule saved_file [OF save])
  ultimately show ?thesis using state by (auto simp: waiting_def u_def on_mem_def)
qed

lemma origin_waits:
  assumes "add_origin url v = (v', Ok ())" and "waiting J v"
  shows "waiting J v'"
  using assms other_files(3)
  by (auto simp: add_origin_def save_config_def config_save_def on_fs_def fs_write_def waiting_def bt_simps split: if_splits)

lemma clone_waits_in_memory:
  assumes "clone_setup C J dev cli name ssh url v = (v', Ok ())" and "flag_law J"
  shows "waiting J v'"
proof -
  from assms(1) obtain u w where "vault_mark_bootstrap_pending J u = (w, Ok ())" "add_origin url w = (v', Ok ())"
    by (auto simp: clone_setup_def sbind_Ok_iff)
  with marked_waits [OF _ assms(2)] origin_waits show ?thesis by blast
qed

lemma take_in_pending: "es_bootstrap_pending (foldl (take_in C d) st xs) = es_bootstrap_pending st"
  by (induction xs arbitrary: st)
    (simp_all add: take_in_def Let_def add_known_def observe_def split: sum.split git_object.split option.split)

text \<open>A vault that waits still does when it is opened again, and its commit does nothing.\<close>

lemma waiting_opens:
  assumes "waiting J v" and "vault_open C J listing ident (va_fs v, va_git v) = (s, Ok w)"
  shows "es_bootstrap_pending (va_state w)" and "commit_local_changes C J now wall w = (w, Ok None)"
proof -
  obtain st where st: "state_load J (va_fs v) = Ok st"
    and w: "va_state w = foldl (take_in C (va_git v)) st (scan_primitives C listing (va_git v))"
    by (rule vault_open_Ok [OF assms(2)])
  have "es_bootstrap_pending st"
    using assms(1) st by (auto simp: waiting_def state_load_def is_file_def fs_read_def state_from_bytes_def)
  then show pending: "es_bootstrap_pending (va_state w)" by (simp add: w take_in_pending)
  show "commit_local_changes C J now wall w = (w, Ok None)" by (simp add: commit_local_changes_def pending)
qed

lemma vault_create_keeps_tree:
  "vault_create C J root ident vault_id (t, d) = (s, Ok v) \<Longrightarrow> s = (va_fs v, va_git v)"
  by (rule vault_create_Ok) auto

end
