(* ===== verification/Demo_Clone.thy ===== *)
theory Demo_Clone
  imports Cli_Facts Config_Facts
begin

text \<open>
  A clone into an empty folder: every step of the set-up succeeds, and the vault it leaves opens again. The state file is
  encoded by a codec that keeps the flag of a vault that has not caught up.
\<close>

definition flag_codec :: codec where
  "flag_codec =
     \<lparr>cd_encode = \<lambda>st. if es_bootstrap_pending st then ''p'' else ''n'',
      cd_decode = \<lambda>b. Some (default_state\<lparr>es_bootstrap_pending := (b = ''p'')\<rparr>)\<rparr>"

lemma flag_codec_law: "flag_law flag_codec"
  by (simp add: flag_law_def flag_codec_def)

lemma ready_write_keys:
  assumes "ready t"
  shows "\<exists>u. write_authorized_atomic s t = (u, Ok ()) \<and> ready u"
proof -
  let ?tmp = "with_extension ''ak-tmp'' AUTHORIZED_KEYS"
  obtain u where u: "fs_write ?tmp s t = (u, Ok ())" "ready u" "fs_get u ?tmp = Some s"
    by (rule ready_write [OF assms vault_file_names(5)])
  then have "fs_rename ?tmp AUTHORIZED_KEYS u = (u\<lparr>fs_files := bt_insert AUTHORIZED_KEYS s (bt_remove ?tmp (fs_files u))\<rparr>, Ok ())"
    using vault_file_names(3) by (simp add: fs_rename_def ready_def in_dir_def is_dir_def)
  moreover have "ready (u\<lparr>fs_files := bt_insert AUTHORIZED_KEYS s (bt_remove ?tmp (fs_files u))\<rparr>)"
    using u(2) vault_file_names(3) by (auto simp: ready_def is_file_def bt_simps in_dir_def)
  ultimately show ?thesis using u(1) by (simp add: write_authorized_atomic_def write_atomic_def sbind_def)
qed

lemma ready_entries:
  assumes "ready (va_fs v)" and "\<And>es t. ready t \<Longrightarrow> \<exists>u. f es t = (u, Ok ()) \<and> ready u"
  obtains t where "with_entries C f v = (v\<lparr>va_fs := t\<rparr>, Ok ())" and "ready t"
proof -
  have dir: "create_dir_all CONTEXT_DIR (va_fs v) = (va_fs v, Ok ())"
    using assms(1) by (simp add: create_dir_all_def CONTEXT_DIR_def demo_names ready_def is_dir_def)
  obtain l where l: "open_or_create AUTHORIZED_LOCK (va_fs v) = (l, Ok ())" "ready l"
    using ready_write [OF assms(1) vault_file_names(4), of "[]"] assms(1) unfolding open_or_create_def by metis
  obtain u where u: "f (parse_file C (text_or_default AUTHORIZED_KEYS l)) l = (u, Ok ())" "ready u"
    using assms(2) [OF l(2)] by metis
  then have "with_authorized_lock (\<lambda>t. f (parse_file C (text_or_default AUTHORIZED_KEYS t)) t) (va_fs v) = (u, Ok ())"
    by (simp add: with_authorized_lock_def sbind_def dir l(1))
  with u(2) show thesis by (intro that [of u]) (simp_all add: with_entries_def on_fs_def)
qed

lemma ready_authorize:
  assumes "ready (va_fs v)"
  obtains t where "vault_authorize C line v = (v\<lparr>va_fs := t\<rparr>, Ok ())" and "ready t"
  unfolding vault_authorize_def vault_authorize_with_expiry_def
proof (rule ready_entries [OF assms])
  fix entries t assume t: "ready t"
  show "\<exists>u. (let entry = parse_line C (build_line line Unset)
       in case parse_ssh_pubkey C (str_trim line) of
            None \<Rightarrow> sret ()
          | Some n \<Rightarrow>
              (case position (\<lambda>k. ke_node k = Some n) entries of
                 Some i \<Rightarrow> write_authorized_atomic (serialize (entries[i := entry]))
               | None \<Rightarrow> write_authorized_atomic (serialize (entries @ [entry])))) t = (u, Ok ()) \<and> ready u"
    using ready_write_keys [OF t] t by (simp add: Let_def sret_def split: option.split)
qed

lemma ready_config:
  assumes "ready (va_fs v)"
  obtains t where "save_config v = (v\<lparr>va_fs := t\<rparr>, Ok ())" and "ready t"
    and "fs_get t CONFIG_FILE = Some (to_toml_string (va_config v))"
  by (rule ready_write [OF assms vault_file_names(1), of "to_toml_string (va_config v)"])
    (rule that, auto simp: save_config_def on_fs_def config_save_def)

lemma created_objects:
  assumes "vault_create C J root ident vault_id (t0, d0) = (s, Ok v)"
  shows "''objects'' \<in> d_dirs (va_git v)"
proof -
  obtain d m where d: "genesis C (disk_ops C) (repo_init root d0) = (d, Ok m)" and v: "va_git v = set_main C m d"
    by (rule vault_create_Ok [OF assms]) (metis vault.select_convs(2))
  have "''objects'' \<in> d_dirs (repo_init root d0)"
    by (simp add: repo_init_def disk_init_def Let_def mkdir_def write_file_def)
  moreover obtain e x where "disk_put C (Tree []) (repo_init root d0) = (e, Ok x)"
    and "disk_put C (Commit (fold_commit (oid_of C (Tree [])) [] 0 GENESIS_MSG)) e = (d, Ok m)"
    using d by (auto simp: genesis_def sbind_Ok_iff disk_ops_def)
  ultimately have "''objects'' \<in> d_dirs d" using disk_put_dirs by (metis fst_conv)
  then show ?thesis by (simp add: v set_main_def update_ref_def Let_def rename_file_def write_file_def mkdir_def)
qed

definition cloned_config :: vault_config where
  "cloned_config = (new_config ''v'')\<lparr>vc_name := ''n'', vc_peers := [''ws://h'']\<rparr>"

lemma demo_clone_runs:
  assumes "cl_authorized_keys cli = None"
  obtains t d where "cmd_clone demo J ''/r'' ident (''v'', ''n'', ssh) ''ws://h'' dev cli (\<lparr>fs_files = [], fs_dirs = []\<rparr>, d0) = ((t, d), Ok ())"
    and "ready t" and "fs_get t CONFIG_FILE = Some (to_toml_string cloned_config)" and "''objects'' \<in> d_dirs d"
proof -
  obtain s v where v: "vault_create demo J ''/r'' ident ''v'' (\<lparr>fs_files = [], fs_dirs = []\<rparr>, d0) = (s, Ok v)"
    "ready (va_fs v)" "va_config v = new_config ''v''" by (rule created_ready)
  define v1 where "v1 = v\<lparr>va_config := (new_config ''v'')\<lparr>vc_name := ''n''\<rparr>\<rparr>"
  obtain t1 where t1: "save_config v1 = (v1\<lparr>va_fs := t1\<rparr>, Ok ())" "ready t1"
    by (rule ready_config [of v1]) (use v(2) in \<open>auto simp: v1_def\<close>)
  obtain t2 where t2: "vault_authorize demo ssh (v1\<lparr>va_fs := t1\<rparr>) = (v1\<lparr>va_fs := t2\<rparr>, Ok ())" "ready t2"
    by (rule ready_authorize [of "v1\<lparr>va_fs := t1\<rparr>" demo ssh]) (use t1 in auto)
  define v2 where "v2 = v1\<lparr>va_fs := t2, va_state := (va_state v1)\<lparr>es_bootstrap_pending := True\<rparr>\<rparr>"
  obtain t3 where t3: "state_save J (va_state v2) t2 = (t3, Ok ())" "ready t3" by (rule ready_save [OF t2(2)])
  define v3 where "v3 = v2\<lparr>va_fs := t3, va_config := cloned_config\<rparr>"
  obtain t4 where t4: "save_config v3 = (v3\<lparr>va_fs := t4\<rparr>, Ok ())" "ready t4"
    "fs_get t4 CONFIG_FILE = Some (to_toml_string cloned_config)"
    by (rule ready_config [of v3]) (use t3 in \<open>auto simp: v3_def\<close>)
  have "set_name ''n'' v = (v1\<lparr>va_fs := t1\<rparr>, Ok ())"
    using t1 v(3) by (simp add: set_name_def v1_def new_config_def)
  moreover have "vault_mark_bootstrap_pending J (v1\<lparr>va_fs := t2\<rparr>) = (v2\<lparr>va_fs := t3\<rparr>, Ok ())"
    using t3(1) by (simp add: vault_mark_bootstrap_pending_def sbind_def smodify_def on_mem_def save_state_def on_fs_def v2_def)
  moreover have "add_origin ''ws://h'' (v2\<lparr>va_fs := t3\<rparr>) = (v3\<lparr>va_fs := t4\<rparr>, Ok ())"
    using t4(1) by (simp add: add_origin_def v3_def v2_def v1_def cloned_config_def new_config_def)
  ultimately have "clone_setup demo J dev cli ''n'' ssh ''ws://h'' v = (v3\<lparr>va_fs := t4\<rparr>, Ok ())"
    using t2(1) assms by (simp add: clone_setup_def sbind_def seed_authorized_def sret_def)
  then have "cmd_clone demo J ''/r'' ident (''v'', ''n'', ssh) ''ws://h'' dev cli (\<lparr>fs_files = [], fs_dirs = []\<rparr>, d0) =
      ((t4, va_git v), Ok ())"
    using v(1) by (simp add: cmd_clone_def sbind_def on_vault_def v3_def v2_def v1_def)
  then show thesis using t4 created_objects [OF v(1)] by (intro that) auto
qed

lemma cloned_config_reads:
  "from_utf8_ok (to_toml_string cloned_config)" "from_toml_str (to_toml_string cloned_config) = Ok cloned_config"
proof -
  have "is_ascii (to_toml_string cloned_config)"
    using is_ascii_solid [OF dec_solid]
    by (simp add: to_toml_string_def cloned_config_def new_config_def is_ascii_char_def fmt_str_def fmt_arr_def fmt_bool_def esc_def
      esc_char_def str_chars_ascii del: str_chars.simps)
  then show "from_utf8_ok (to_toml_string cloned_config)" by (rule from_utf8_ok_ascii)
  show "from_toml_str (to_toml_string cloned_config) = Ok cloned_config"
    by (rule reads_config)
      (simp add: strings_ok_def cloned_config_def new_config_def from_utf8_ok_ascii is_ascii_char_def del: from_utf8_ok.simps)
qed

text \<open>A folder that is ready, with the configuration of the clone, opens under the codec of the flag.\<close>

lemma demo_clone_opens:
  assumes "ready t" and "fs_get t CONFIG_FILE = Some (to_toml_string cloned_config)" and "''objects'' \<in> d_dirs d"
  obtains s w where "vault_open C flag_codec listing ident (t, d) = (s, Ok w)"
proof -
  have "config_load t = Ok cloned_config"
    using assms(2) cloned_config_reads by (simp add: config_load_def read_text_def fs_read_def del: from_utf8_ok.simps)
  moreover obtain st where "state_load flag_codec t = Ok st"
  proof (cases "fs_get t STATE_FILE")
    case (Some b)
    then have "\<exists>st. state_load flag_codec t = Ok st"
      by (simp add: state_load_def is_file_def fs_read_def state_from_bytes_def flag_codec_def)
    with that show thesis by blast
  next
    case None
    have "\<not> is_dir t STATE_FILE" using assms(1) vault_file_names(2) by (simp add: ready_def in_dir_def is_dir_def)
    with None that show thesis by (simp add: state_load_def is_file_def)
  qed
  moreover obtain u where "state_save flag_codec (foldl (take_in C d) st (scan_primitives C listing d)) t = (u, Ok ())"
    by (rule ready_save [OF assms(1)])
  ultimately show thesis using assms(3)
    by (intro that) (simp add: vault_open_def sbind_def on_fst_def repo_open_def disk_open_def)
qed

end
