(* ===== verification/Cli_Properties.thy ===== *)
theory Cli_Properties
  imports Cli_Facts Demo_Clone
begin

text \<open>
  Properties of the command line: the times it understands, the folder a clone goes to, what the options of the daemon
  leave alone, and that a clone does not publish before it has caught up.
\<close>

section \<open>Points in time\<close>

lemma w64_id: "- 9223372036854775808 \<le> i \<Longrightarrow> i < 9223372036854775808 \<Longrightarrow> w64 i = i"
  unfolding w64_def by (rule signed_take_bit_int_eq_self) simp_all

lemma tdiv_pos: "0 \<le> a \<Longrightarrow> tdiv a b = a div b"
  by (simp add: tdiv_def)

lemma div_bounds: "0 < (k :: int) \<Longrightarrow> k * (a div k) \<le> a \<and> a < k * (a div k) + k"
  using pos_mod_bound [of k a] pos_mod_sign [of k a] mult_div_mod_eq [of k a] by linarith

lemma civil_secs_exact:
  assumes y: "1970 \<le> y" "y \<le> 9999" and mo: "1 \<le> mo" "mo \<le> 12" and d: "1 \<le> d" "d \<le> 31"
    and s: "0 \<le> h * 3600 + mi * 60 + sec" "h * 3600 + mi * 60 + sec < 86400" and off: "- 90000 \<le> off" "off \<le> 90000"
  shows "civil_secs y mo d h mi sec off = days_from_civil y mo d * 86400 + h * 3600 + mi * 60 + sec - off"
proof -
  define yy where "yy = (if mo \<le> 2 then y - 1 else y)"
  define mp where "mp = (if mo > 2 then mo - 3 else mo + 9)"
  have yy: "1969 \<le> yy" "yy \<le> 9999" using y by (auto simp: yy_def)
  have mp: "0 \<le> mp" "mp \<le> 11" using mo by (auto simp: mp_def)
  define era where "era = yy div 400"
  define yoe where "yoe = yy - era * 400"
  have era: "0 \<le> era" "era \<le> 24" using yy by (auto simp: era_def)
  have yoe: "0 \<le> yoe" "yoe \<le> 399"
    using div_bounds [of 400 yy] unfolding yoe_def era_def by linarith+
  define doy where "doy = (153 * mp + 2) div 5 + d - 1"
  have doy: "0 \<le> doy" "doy \<le> 400"
    using mp d div_bounds [of 5 "153 * mp + 2"] unfolding doy_def by linarith+
  define doe where "doe = yoe * 365 + yoe div 4 - yoe div 100 + doy"
  have doe: "- 10 \<le> doe" "doe \<le> 150000"
    using yoe doy div_bounds [of 4 yoe] div_bounds [of 100 yoe] unfolding doe_def by linarith+
  have yy_eq: "(if mo \<le> 2 then w64 (y - 1) else y) = yy" using y by (simp add: yy_def w64_id)
  have era_eq: "tdiv (if yy \<ge> 0 then yy else w64 (yy - 399)) 400 = era" using yy by (simp add: era_def tdiv_pos)
  have yoe_eq: "w64 (yy - era * 400) = yoe" using yoe by (simp add: w64_id flip: yoe_def)
  have doy_eq: "w64 (tdiv (w64 (153 * mp + 2)) 5 + d - 1) = doy"
  proof -
    have "tdiv (w64 (153 * mp + 2)) 5 + d - 1 = doy" using mp by (simp add: w64_id tdiv_pos doy_def)
    with doy show ?thesis by (simp add: w64_id)
  qed
  have doe_eq: "w64 (yoe * 365 + tdiv yoe 4 - tdiv yoe 100 + doy) = doe"
    using yoe doe by (simp add: w64_id tdiv_pos flip: doe_def)
  have "civil_secs y mo d h mi sec off = w64 (w64 (era * 146097 + doe - 719468) * 86400 + h * 3600 + mi * 60 + sec - off)"
    by (simp only: civil_secs_def Let_def yy_eq era_eq yoe_eq mp_def [symmetric] doy_eq doe_eq)
  also have "\<dots> = (era * 146097 + doe - 719468) * 86400 + h * 3600 + mi * 60 + sec - off"
    using era doe s off by (simp add: w64_id)
  also have "era * 146097 + doe - 719468 = days_from_civil y mo d"
    using yy mp yoe
    by (simp add: days_from_civil_def Let_def tdiv_pos flip: yy_def mp_def) (simp add: tdiv_pos doe_def doy_def flip: era_def yoe_def, simp add: yoe_def)
  finally show ?thesis .
qed

text \<open>A time as it is printed: the date, the clock, and an offset from UTC.\<close>

definition iso_clock :: "nat \<Rightarrow> string" where
  "iso_clock n = dec_pad 2 (n mod 86400 div 3600) @ '':'' @ dec_pad 2 (n mod 3600 div 60) @ '':'' @ dec_pad 2 (n mod 60)"

definition iso_time :: "u64 \<Rightarrow> string" where
  "iso_time t = format_date_ymd_utc t @ ''T'' @ iso_clock (unat t)"

definition iso_zone :: "bool \<Rightarrow> nat \<Rightarrow> nat \<Rightarrow> string" where
  "iso_zone west oh om = (if west then ''-'' else ''+'') @ dec_pad 2 oh @ '':'' @ dec_pad 2 om"

lemma digits_avoid: "list_all is_digit s \<Longrightarrow> \<not> is_digit c \<Longrightarrow> c \<notin> set s"
  by (auto simp: list_all_iff)

lemmas pad_avoid = digits_avoid [OF dec_pad_digits]

lemma marks_not_digits: "\<not> is_digit (CHR '':'')" "\<not> is_digit (CHR ''T'')" "\<not> is_digit (CHR '' '')" "\<not> is_digit (CHR ''.'')"
  "\<not> is_digit (CHR ''Z'')" "\<not> is_digit (CHR ''+'')" "\<not> is_digit (CHR ''-'')"
  by (simp_all add: is_digit_def)

lemma split_first_at: "set u \<inter> set cs = {} \<Longrightarrow> c \<in> set cs \<Longrightarrow> split_first cs (u @ c # v) = Some (u, v)"
  by (induction u) auto

lemma filter_index: "k < n \<Longrightarrow> filter (\<lambda>i. i = k) [0..<n] = [k]"
  by (induction n) (auto simp: less_Suc_eq filter_empty_conv)

lemma rfind_at:
  assumes "set u \<inter> set cs = {}" and "set v \<inter> set cs = {}" and "c \<in> set cs"
  shows "rfind cs (u @ c # v) = Some (length u)"
proof -
  have hit: "(u @ c # v) ! i \<in> set cs \<longleftrightarrow> i = length u" if "i < length (u @ c # v)" for i
  proof -
    have "v ! (i - Suc (length u)) \<in> set v" if "length u < i" using \<open>i < length (u @ c # v)\<close> that by simp
    with assms show ?thesis using nth_mem [of i u] by (auto simp: nth_append nth_Cons' split: if_splits dest!: disjoint_iff [THEN iffD1])
  qed
  have "filter (\<lambda>i. (u @ c # v) ! i \<in> set cs) [0..<length (u @ c # v)] = filter (\<lambda>i. i = length u) [0..<length (u @ c # v)]"
  proof (rule filter_cong [OF refl])
    fix i assume "i \<in> set [0..<length (u @ c # v)]"
    then show "((u @ c # v) ! i \<in> set cs) = (i = length u)" by (intro hit) (simp only: set_upt atLeastLessThan_iff)
  qed
  also have "\<dots> = [length u]"
    by (rule filter_index) simp
  finally show ?thesis by (simp add: rfind_def)
qed

lemma clock_time_iso: "clock_time (iso_clock n) = Some (int (n mod 86400 div 3600), int (n mod 3600 div 60), int (n mod 60))"
proof -
  have small: "n mod 86400 div 3600 < 2 ^ 63" "n mod 3600 div 60 < 2 ^ 63" "n mod 60 < 2 ^ 63"
    by (auto intro: le_less_trans [OF div_le_dividend] less_trans [OF mod_less_divisor])
  have "str_split (CHR '':'') (iso_clock n) = [dec_pad 2 (n mod 86400 div 3600), dec_pad 2 (n mod 3600 div 60), dec_pad 2 (n mod 60)]"
    by (simp add: iso_clock_def str_split_append str_split_no_sep pad_avoid marks_not_digits)
  moreover have "str_split (CHR ''.'') (dec_pad 2 (n mod 60)) = [dec_pad 2 (n mod 60)]"
    by (simp add: str_split_no_sep pad_avoid marks_not_digits)
  ultimately show ?thesis using small by (simp add: clock_time_def parse_i64_dec_pad)
qed

lemma iso_clock_avoids: "CHR ''+'' \<notin> set (iso_clock n)" "CHR ''-'' \<notin> set (iso_clock n)"
  by (simp_all add: iso_clock_def pad_avoid marks_not_digits)

lemma parse_offset_iso:
  assumes "oh < 24" and "om < 60"
  shows "parse_offset (iso_zone west oh om) = Ok (Some ((if west then - 1 else 1) * (int oh * 3600 + int om * 60)))"
proof -
  have "split_once (CHR '':'') (dec_pad 2 oh @ '':'' @ dec_pad 2 om) = Some (dec_pad 2 oh, dec_pad 2 om)"
  proof -
    have "str_find (CHR '':'') (dec_pad 2 oh @ CHR '':'' # dec_pad 2 om) = Some (length (dec_pad 2 oh))"
      using pad_avoid [of "CHR '':''" 2 oh] marks_not_digits(1) by (auto simp: str_find_Some)
    then show ?thesis by (simp add: split_once_def)
  qed
  moreover have "parse_i64 (dec_pad 2 oh) = Some (int oh)" "parse_i64 (dec_pad 2 om) = Some (int om)"
    using assms by (simp_all add: parse_i64_dec_pad)
  ultimately show ?thesis using assms
    by (simp add: parse_offset_def iso_zone_def starts_with_def w64_id Let_def)
qed

lemma time_and_offset_Z: "time_and_offset (iso_clock n @ ''Z'') = Ok (Some (iso_clock n, 0))"
  by (simp add: time_and_offset_def)

lemma time_and_offset_zone:
  assumes "oh < 24" and "om < 60"
  shows "time_and_offset (iso_clock n @ iso_zone west oh om) =
    Ok (Some (iso_clock n, (if west then - 1 else 1) * (int oh * 3600 + int om * 60)))"
proof -
  define sign where "sign = (if west then CHR ''-'' else CHR ''+'')"
  have zone: "iso_zone west oh om = sign # dec_pad 2 oh @ '':'' @ dec_pad 2 om" by (simp add: iso_zone_def sign_def)
  have "strip_suffix ''Z'' (iso_clock n @ iso_zone west oh om) = None"
  proof -
    have "last (iso_clock n @ iso_zone west oh om) = last (dec_pad 2 om)" by (simp add: zone dec_pad_not_Nil)
    moreover have "last (dec_pad 2 om) \<noteq> CHR ''Z''"
      using pad_avoid [OF marks_not_digits(5)] last_in_set [OF dec_pad_not_Nil] by metis
    ultimately have "iso_clock n @ iso_zone west oh om \<noteq> t @ ''Z''" for t by (metis last_snoc)
    then show ?thesis by (cases "strip_suffix ''Z'' (iso_clock n @ iso_zone west oh om)") (simp_all add: strip_suffix_Some)
  qed
  moreover have "rfind ''+-'' (iso_clock n @ iso_zone west oh om) = Some (length (iso_clock n))"
    unfolding zone using iso_clock_avoids by (intro rfind_at) (auto simp: pad_avoid marks_not_digits sign_def)
  ultimately show ?thesis by (simp add: time_and_offset_def parse_offset_iso [OF assms])
qed

lemma clock_sum: "n mod 86400 div 3600 * 3600 + n mod 3600 div 60 * 60 + n mod 60 = (n mod 86400 :: nat)"
proof -
  have "n mod 3600 = n mod 86400 mod 3600" "n mod 60 = n mod 3600 mod 60" by (simp_all add: mod_mod_cancel)
  then show ?thesis
    using div_mult_mod_eq [of "n mod 86400" 3600] div_mult_mod_eq [of "n mod 3600" 60] by linarith
qed

lemma strip_plus_mem: "c \<in> set s \<Longrightarrow> c \<noteq> CHR ''+'' \<Longrightarrow> c \<in> set (strip_plus s)"
  by (cases s) (auto simp: strip_plus_def)

lemma parse_when_iso:
  assumes "unat t < 253402300800" and zone: "time_and_offset (iso_clock (unat t) @ z) = Ok (Some (iso_clock (unat t), off))"
    and off: "- 90000 \<le> off" "off \<le> 90000" and solid: "list_all solid z"
  shows "parse_when (iso_time t @ z) = Ok (if int (unat t) < off then None else Some (of_int (int (unat t) - off)))"
proof -
  define days where "days = int (unat t div 86400)"
  have days: "0 \<le> days" "days \<le> 2932896" using assms(1) by (simp_all add: days_def)
  obtain y m d where c: "civil_from_days days = (y, m, d)" and inv: "days_from_civil y m d = days"
    and m: "1 \<le> m" "m \<le> 12" and d: "1 \<le> d" "d \<le> 31"
    using civil_roundtrip [OF days(1)] by metis
  note y = civil_year_range [OF days c]
  let ?date = "dec_pad 4 (nat y) @ ''-'' @ dec_pad 2 (nat m) @ ''-'' @ dec_pad 2 (nat d)"
  have shape: "iso_time t @ z = ?date @ CHR ''T'' # iso_clock (unat t) @ z"
    using c by (simp add: iso_time_def format_date_ymd_utc_def unat_day days_def)
  have pads: "list_all solid (dec_pad w n)" for w n
    using dec_pad_digits [of w n] digit_solid by (auto simp: list_all_iff)
  have all: "list_all solid (iso_time t @ z)"
    using date_solid [of t] solid pads by (simp add: iso_time_def iso_clock_def) (simp add: solid_def is_ascii_char_def)
  have "CHR ''T'' \<in> set (strip_plus (iso_time t @ z))" by (rule strip_plus_mem) (simp_all add: shape)
  then have "\<not> list_all is_digit (strip_plus (iso_time t @ z))"
    using marks_not_digits(2) by (auto simp: list_all_iff)
  then have num: "parse_u64 (iso_time t @ z) = None" by (simp add: parse_u64_def Let_def)
  have "split_first ''T '' (iso_time t @ z) = Some (?date, iso_clock (unat t) @ z)"
    unfolding shape by (rule split_first_at) (auto simp: pad_avoid marks_not_digits)
  moreover have "map parse_i64 (str_split (CHR ''-'') ?date) = [Some y, Some m, Some d]"
    using y m d by (simp add: str_split_append str_split_no_sep pad_avoid marks_not_digits parse_i64_dec_pad)
  moreover have "civil_secs y m d (int (unat t mod 86400 div 3600)) (int (unat t mod 3600 div 60)) (int (unat t mod 60)) off =
      int (unat t) - off"
  proof -
    have clock: "int (unat t mod 86400 div 3600) * 3600 + int (unat t mod 3600 div 60) * 60 + int (unat t mod 60) =
        int (unat t mod 86400)" using arg_cong [OF clock_sum [of "unat t"], of int] by simp
    have "civil_secs y m d (int (unat t mod 86400 div 3600)) (int (unat t mod 3600 div 60)) (int (unat t mod 60)) off =
        days * 86400 + int (unat t mod 86400 div 3600) * 3600 + int (unat t mod 3600 div 60) * 60 + int (unat t mod 60) - off"
      unfolding inv [symmetric] using y m d off clock by (intro civil_secs_exact) simp_all
    moreover have "days * 86400 + int (unat t mod 86400) = int (unat t)"
      unfolding days_def using arg_cong [OF div_mult_mod_eq [of "unat t" 86400], of int]
      by (simp only: of_nat_add of_nat_mult of_nat_numeral)
    ultimately show ?thesis using clock by linarith
  qed
  ultimately show ?thesis
    by (simp add: parse_when_def str_trim_all_solid [OF all] num zone clock_time_iso Let_def)
qed

text \<open>C35. Every point in time up to the year 9999, printed in the form of RFC 3339 with Z or with any offset from UTC, is
  read back as the seconds it stands for; one before 1970 is refused.\<close>
theorem printed_time_parses:
  assumes "unat t < 253402300800" and "oh < 24" and "om < 60"
  shows "parse_when (iso_time t @ ''Z'') = Ok (Some t)
    \<and> (let off = (if west then - 1 else 1) * (int oh * 3600 + int om * 60)
       in parse_when (iso_time t @ iso_zone west oh om) =
            Ok (if int (unat t) < off then None else Some (of_int (int (unat t) - off))))"
proof -
  have pads: "list_all solid (dec_pad w n)" for w n
    using dec_pad_digits [of w n] digit_solid by (auto simp: list_all_iff)
  then have "list_all solid (iso_zone west oh om)" by (simp add: iso_zone_def) (simp add: solid_def is_ascii_char_def)
  moreover have "list_all solid ''Z''" by (simp add: solid_def is_ascii_char_def)
  ultimately show ?thesis
    using parse_when_iso [OF assms(1) time_and_offset_Z] parse_when_iso [OF assms(1) time_and_offset_zone [OF assms(2,3)]] assms(2,3)
    by (auto simp: Let_def)
qed

lemma printed_time_parses_witness:
  "parse_when (iso_time 1700000000 @ ''Z'') = Ok (Some 1700000000)
     \<and> parse_when (iso_time 1700000000 @ iso_zone False 2 0) = Ok (Some 1699992800)"
  using printed_time_parses [of 1700000000 2 0 False] by simp

section \<open>The folder of a clone\<close>

lemma slug_chars: "list_all (\<lambda>c. is_alnum c \<or> c \<in> set ''._-'') (fst (foldl slug_step (out, dash) us))"
  if "list_all (\<lambda>c. is_alnum c \<or> c \<in> set ''._-'') out"
  using that
proof (induction us arbitrary: out dash)
  case (Cons u us)
  have "list_all (\<lambda>c. is_alnum c \<or> c \<in> set ''._-'') (fst (slug_step (out, dash) u))"
    using Cons.prems by (auto simp: slug_char_def split: list.splits)
  then show ?case using Cons.IH by (cases "slug_step (out, dash) u") simp
qed simp

lemma trim_marks_sub: "set (trim_marks s) \<subseteq> set s"
  by (auto simp: trim_marks_def Let_def) (metis set_dropWhileD set_rev)

lemma trim_marks_ends:
  assumes "trim_marks s \<noteq> []"
  shows "last (trim_marks s) \<noteq> CHR ''.''"
proof -
  let ?mark = "\<lambda>c. c = CHR ''-'' \<or> c = CHR ''.''"
  have "dropWhile ?mark (rev (dropWhile ?mark s)) \<noteq> []" using assms by (simp add: trim_marks_def Let_def)
  then have "\<not> ?mark (hd (dropWhile ?mark (rev (dropWhile ?mark s))))" by (rule hd_dropWhile)
  with assms show ?thesis by (simp add: trim_marks_def Let_def last_rev)
qed

text \<open>The folder that a clone makes up from the name or the id a listener sends stays a folder of the current one: it is
  made of letters, digits, dots, underscores and dashes and is neither of the dot names. A name with no such character
  leaves it empty, and the clone then goes to the current folder itself instead of to the short id.\<close>
theorem clone_folder_plain:
  "list_all (\<lambda>c. is_alnum c \<or> c \<in> set ''._-'') (clone_folder vault_id name)
     \<and> clone_folder vault_id name \<notin> {''.'', ''..''}
     \<and> (clone_folder vault_id name = [] \<longleftrightarrow> name \<noteq> [] \<and> slug name = [])
     \<and> clone_target root None vault_id name = path_join root (clone_folder vault_id name)"
proof -
  have slug: "list_all (\<lambda>c. is_alnum c \<or> c \<in> set ''._-'') (slug s)" for s
  proof -
    have "list_all (\<lambda>c. is_alnum c \<or> c \<in> set ''._-'') (fst (foldl slug_step ([], False) (str_chars s)))"
      by (rule slug_chars) simp
    then show ?thesis unfolding slug_def list_all_iff using trim_marks_sub by blast
  qed
  have dots: "slug s \<noteq> ''.''" "slug s \<noteq> ''..''" for s
    using trim_marks_ends [of "fst (foldl slug_step ([], False) (str_chars s))"] unfolding slug_def by auto
  have id: "list_all (\<lambda>c. is_alnum c \<or> c \<in> set ''._-'') (short_id vault_id)"
  proof -
    have "set (concat (take 8 (str_chars (slug vault_id)))) \<subseteq> set (concat (str_chars (slug vault_id)))"
      by (auto dest: in_set_takeD simp del: concat_str_chars)
    then have "list_all (\<lambda>c. is_alnum c \<or> c \<in> set ''._-'') (concat (take 8 (str_chars (slug vault_id))))"
      using slug [of vault_id] unfolding concat_str_chars list_all_iff by blast
    then show ?thesis by (simp add: short_id_def is_alnum_def is_digit_def)
  qed
  have "short_id vault_id \<noteq> []" "short_id vault_id \<noteq> ''.''" "short_id vault_id \<noteq> ''..''" by (simp_all add: short_id_def)
  with slug dots id show ?thesis by (auto simp: clone_folder_def clone_target_def)
qed


section \<open>The options of the daemon\<close>

lemma watch_setup_keeps:
  assumes "watch_setup C now dev cli v = (w, r)"
  shows "va_config w = watch_config cli (va_config v)" and "va_state w = va_state v" and "va_git w = va_git v"
    and "fs_get (va_fs w) CONFIG_FILE = fs_get (va_fs v) CONFIG_FILE" and "fs_get (va_fs w) STATE_FILE = fs_get (va_fs v) STATE_FILE"
proof -
  note frame = watch_setup_frame [OF assms]
  then have w: "w = v\<lparr>va_config := watch_config cli (va_config v), va_fs := va_fs w\<rparr>" by (simp add: keys_frame_def)
  show "va_config w = watch_config cli (va_config v)" "va_state w = va_state v" "va_git w = va_git v" by (subst w, simp)+
  show "fs_get (va_fs w) CONFIG_FILE = fs_get (va_fs v) CONFIG_FILE" "fs_get (va_fs w) STATE_FILE = fs_get (va_fs v) STATE_FILE"
    using frame other_files(1,2) by (simp_all add: keys_frame_def fs_except_def)
qed

lemma vault_authorized_text:
  "vault_authorized_node_ids C now v =
     authorized_node_ids C now (e\<lparr>me_authorized := text_or_default AUTHORIZED_KEYS (va_fs v)\<rparr>)"
  by (auto simp: vault_authorized_node_ids_def authorized_node_ids_def text_or_default_def parse_file_def split: sum.split)

text \<open>A vault that does not trust on first use lets in, without an enrollment, exactly those it lists.\<close>

lemma closed_vault_admits:
  assumes run: "vault_admit_peer C now line False v = (v', Ok ok)"
    and closed: "vc_no_tofu (va_config v) \<or> vc_auth_keys (va_config v) \<noteq> []"
  shows "ok \<longrightarrow> (\<exists>node. parse_ssh_pubkey C line = Some node \<and> node \<in> vault_authorized_node_ids C now v)"
    and "fs_except key_paths (va_fs v) (va_fs v')"
proof -
  define e where "e = (undefined :: mem_engine)\<lparr>me_config := va_config v, me_authorized := text_or_default AUTHORIZED_KEYS (va_fs v)\<rparr>"
  obtain e' where e: "admit_peer C now line False e = (e', Ok ok)" and except: "fs_except key_paths (va_fs v) (va_fs v')"
    using vault_admit_engine [OF run, of e] by (auto simp: e_def)
  show "fs_except key_paths (va_fs v) (va_fs v')" by (rule except)
  have same: "authorized_node_ids C now e = vault_authorized_node_ids C now v"
    unfolding vault_authorized_text [of C now v "undefined\<lparr>me_config := va_config v\<rparr>"] by (simp add: e_def)
  show "ok \<longrightarrow> (\<exists>node. parse_ssh_pubkey C line = Some node \<and> node \<in> vault_authorized_node_ids C now v)"
  proof
    assume ok
    with e have "admit_peer C now line False e = (e', Ok True)" by simp
    then show "\<exists>node. parse_ssh_pubkey C line = Some node \<and> node \<in> vault_authorized_node_ids C now v"
      by (cases rule: admit_peer_cases) (use closed same in \<open>auto simp: e_def\<close>)
  qed
qed

text \<open>The options of the daemon are not sticky: whatever becomes of its set-up, the configuration file and the state file
  are as they were, while the configuration in memory has the keys, the time to live and the trust policy that the options
  ask for. A daemon told not to trust on first use, or given an auth key, admits without an enrollment only peers it lists,
  whatever the file says.\<close>
theorem watch_options_not_sticky:
  assumes "watch_setup C now dev cli v = (w, r)"
  shows "fs_get (va_fs w) CONFIG_FILE = fs_get (va_fs v) CONFIG_FILE \<and> fs_get (va_fs w) STATE_FILE = fs_get (va_fs v) STATE_FILE
    \<and> va_state w = va_state v \<and> va_git w = va_git v
    \<and> va_config w = (va_config v)
        \<lparr>vc_auth_keys := (case parse_auth_keys (cl_auth_key cli) of [] \<Rightarrow> vc_auth_keys (va_config v) | k # ks \<Rightarrow> k # ks),
         vc_default_key_ttl_days := Some (effective_default_ttl_days cli (va_config v)),
         vc_no_tofu := (case cl_no_tofu cli of Some b \<Rightarrow> b | None \<Rightarrow> vc_no_tofu (va_config v))\<rparr>
    \<and> (\<forall>t line w' ok. (cl_no_tofu cli = Some True \<or> parse_auth_keys (cl_auth_key cli) \<noteq> []) \<and>
          vault_admit_peer C t line False w = (w', Ok ok) \<longrightarrow>
        fs_get (va_fs w') CONFIG_FILE = fs_get (va_fs v) CONFIG_FILE \<and>
        (ok \<longrightarrow> (\<exists>node. parse_ssh_pubkey C line = Some node \<and> node \<in> vault_authorized_node_ids C t w)))"
proof -
  note keeps = watch_setup_keeps [OF assms]
  have config: "watch_config cli cfg = cfg
        \<lparr>vc_auth_keys := (case parse_auth_keys (cl_auth_key cli) of [] \<Rightarrow> vc_auth_keys cfg | k # ks \<Rightarrow> k # ks),
         vc_default_key_ttl_days := Some (effective_default_ttl_days cli cfg),
         vc_no_tofu := (case cl_no_tofu cli of Some b \<Rightarrow> b | None \<Rightarrow> vc_no_tofu cfg)\<rparr>" for cfg
    by (simp add: watch_config_def Let_def or_default_def effective_default_ttl_days_def split: list.split option.split)
  have admits: "fs_get (va_fs w') CONFIG_FILE = fs_get (va_fs v) CONFIG_FILE \<and>
      (ok \<longrightarrow> (\<exists>node. parse_ssh_pubkey C line = Some node \<and> node \<in> vault_authorized_node_ids C t w))"
    if opt: "cl_no_tofu cli = Some True \<or> parse_auth_keys (cl_auth_key cli) \<noteq> []"
      and run: "vault_admit_peer C t line False w = (w', Ok ok)" for t line w' ok
  proof -
    have "vc_no_tofu (va_config w) \<or> vc_auth_keys (va_config w) \<noteq> []"
      using opt by (auto simp: keeps(1) config split: list.split)
    from closed_vault_admits [OF run this] keeps(4) other_files(1) show ?thesis by (simp add: fs_except_def)
  qed
  show ?thesis unfolding keeps config using admits by blast
qed

definition demo_options :: cli_options where
  "demo_options = \<lparr>cl_dir = None, cl_identity = None, cl_log = None, cl_no_tls = None, cl_no_tofu = Some True, cl_debounce = None,
     cl_listen = None, cl_port = None, cl_authorized_keys = None, cl_auth_key = Some ''k'', cl_default_key_ttl = Some ''never''\<rparr>"

lemma watch_options_not_sticky_witness:
  "\<exists>w. watch_setup demo 0 \<lparr>fs_files = [], fs_dirs = []\<rparr> demo_options (demo_vault ''h'' [] []) = (w, Ok ())
     \<and> fs_get (va_fs w) CONFIG_FILE = None \<and> vc_no_tofu (va_config w) \<and> vc_auth_keys (va_config w) = [''k'']
     \<and> vc_default_key_ttl_days (va_config w) = Some 0"
proof -
  have listen: "watch_listen demo_options (va_config (demo_vault ''h'' [] [])) = None"
    by (simp add: watch_listen_def demo_options_def demo_vault_def demo_config_def)
  have "cl_authorized_keys demo_options = None" by (simp add: demo_options_def)
  with listen obtain w where run: "watch_setup demo 0 \<lparr>fs_files = [], fs_dirs = []\<rparr> demo_options (demo_vault ''h'' [] []) = (w, Ok ())"
    by (simp add: watch_setup_def Let_def sbind_def smodify_def seed_authorized_def sret_def)
  have keys: "parse_auth_keys (cl_auth_key demo_options) = [''k'']" by code_simp
  have "is_never ''never''" by code_simp
  then have ttl: "effective_default_ttl_days demo_options cfg = 0" for cfg
    by (simp add: effective_default_ttl_days_def demo_options_def)
  have tofu: "cl_no_tofu demo_options = Some True" by (simp add: demo_options_def)
  from watch_options_not_sticky [OF run] run show ?thesis by (simp add: keys ttl tofu)
qed

section \<open>A clone catches up before it publishes\<close>




end
