(* ===== verification/Wasm.thy ===== *)
theory Wasm
  imports Engine
begin

text \<open>
  The bindings for plug-ins (\<open>lib.rs\<close> of crates/csp-wasm): the low-level functions on objects, and the engine
  with its one session, driven by a host that passes JSON and wire frames. The codecs of serde and rmp are the
  record \<open>web_codec\<close>; the host's randomness and the clock are arguments, and a \<open>JsError\<close> is the error whose text it
  carries. A \<open>BTreeMap\<close> is decoded by inserting its entries in their order.
\<close>

section \<open>What crosses the boundary\<close>

datatype op_json =
    WriteJson string bytes
  | RemoveJson string
  | DeferJson string
  | QuarantineJson string string

record step_json =
  sj_out :: "bytes list"
  sj_integrated :: nat
  sj_established :: bool
  sj_peer_ssh :: string

record web_codec =
  wc_msg_json :: "msg \<Rightarrow> string res"
  wc_json_msg :: "string \<Rightarrow> msg res"
  wc_encode :: "msg \<Rightarrow> bytes res"
  wc_decode :: "bytes \<Rightarrow> msg res"
  wc_config_json :: "vault_config \<Rightarrow> string res"
  wc_json_config :: "string \<Rightarrow> vault_config res"
  wc_files_json :: "files \<Rightarrow> string res"
  wc_json_entries :: "string \<Rightarrow> (string \<times> bytes) list res"
  wc_ops_json :: "op_json list \<Rightarrow> string res"
  wc_raws_json :: "bytes list \<Rightarrow> string res"
  wc_json_raws :: "string \<Rightarrow> bytes list res"
  wc_json_strings :: "string \<Rightarrow> string list res"
  wc_step_json :: "step_json \<Rightarrow> string res"
  wc_snapshots_json :: "(string \<times> snapshot) list \<Rightarrow> string res"
  wc_pack :: "persisted \<Rightarrow> bytes res"
  wc_unpack :: "bytes \<Rightarrow> persisted res"

definition json_files :: "web_codec \<Rightarrow> string \<Rightarrow> files res" where
  "json_files K s = rbind (wc_json_entries K s) (\<lambda>es. Ok (bt_collect es))"

definition seed32 :: "bytes \<Rightarrow> identity res" where
  "seed32 seed =
     (if length seed \<noteq> 32 then Err (OtherErr ''seed must be 32 bytes'') else Ok \<lparr>id_seed = seed\<rparr>)"

section \<open>The low-level functions\<close>

definition node_id_hex :: "crates \<Rightarrow> bytes \<Rightarrow> string res" where
  "node_id_hex C seed = rbind (seed32 seed) (\<lambda>i. Ok (node_to_hex C (id_node C i)))"

definition ssh_pubkey :: "crates \<Rightarrow> bytes \<Rightarrow> string \<Rightarrow> string res" where
  "ssh_pubkey C seed comment = rbind (seed32 seed) (\<lambda>i. Ok (ssh_pubkey_string C (id_node C i) comment))"

definition blob_oid :: "crates \<Rightarrow> bytes \<Rightarrow> string" where
  "blob_oid C content = to_hex C (oid_of C (Blob content))"

definition build_primitive_object ::
  "crates \<Rightarrow> bytes \<Rightarrow> string \<Rightarrow> string \<Rightarrow> u64 \<Rightarrow> u64 \<Rightarrow> string \<Rightarrow> bytes res"
where
  "build_primitive_object C seed tree_hex parent_hex counter wall_time subject =
     rbind (seed32 seed) (\<lambda>i.
     rbind (from_hex C tree_hex) (\<lambda>tree.
     rbind (from_hex C parent_hex) (\<lambda>parent.
       Ok (framed C (build_primitive C i tree parent counter wall_time subject)))))"

definition object_oid :: "crates \<Rightarrow> bytes \<Rightarrow> string res" where
  "object_oid C raw = rbind (parse_framed C raw) (\<lambda>ob. Ok (to_hex C (oid_of C ob)))"

definition verify_primitive_object :: "crates \<Rightarrow> bytes \<Rightarrow> string res" where
  "verify_primitive_object C raw =
     rbind (parse_framed C raw) (\<lambda>ob.
       case ob of
         Commit c \<Rightarrow> rbind (verify_primitive C c) (\<lambda>n. Ok (node_to_hex C n))
       | _ \<Rightarrow> Err (OtherErr ''not a commit object''))"

definition wire_encode :: "web_codec \<Rightarrow> string \<Rightarrow> bytes res" where
  "wire_encode K json = rbind (wc_json_msg K json) (wc_encode K)"

definition wire_decode :: "web_codec \<Rightarrow> bytes \<Rightarrow> string res" where
  "wire_decode K b = rbind (wc_decode K b) (wc_msg_json K)"

definition config_parse :: "web_codec \<Rightarrow> string \<Rightarrow> string res" where
  "config_parse K text = rbind (from_toml_str text) (wc_config_json K)"

definition config_to_toml :: "web_codec \<Rightarrow> string \<Rightarrow> string res" where
  "config_to_toml K json = rbind (wc_json_config K json) (\<lambda>cfg. Ok (to_toml_string cfg))"

section \<open>The engine of a plug-in\<close>

record wasm_engine =
  we_inner :: mem_engine
  we_session :: "session option"

definition on_inner :: "(mem_engine, 'a) seff \<Rightarrow> (wasm_engine, 'a) seff" where
  "on_inner m w = (case m (we_inner w) of (e, r) \<Rightarrow> (w\<lparr>we_inner := e\<rparr>, r))"

text \<open>The result of a call, put into the form that the host reads.\<close>

definition shown :: "('a \<Rightarrow> 'b res) \<Rightarrow> ('s, 'a) seff \<Rightarrow> ('s, 'b) seff" where
  "shown f m = sbind m (\<lambda>x. sread (\<lambda>_. f x))"

definition hex_opt :: "crates \<Rightarrow> oid option \<Rightarrow> string option res" where
  "hex_opt C x = Ok (map_option (to_hex C) x)"

definition wasm_create :: "crates \<Rightarrow> bytes \<Rightarrow> string \<Rightarrow> string \<Rightarrow> wasm_engine res" where
  "wasm_create C seed vault_id name =
     rbind (seed32 seed) (\<lambda>i.
     rbind (engine_create C i vault_id name) (\<lambda>e. Ok \<lparr>we_inner = e, we_session = None\<rparr>))"

definition wasm_open :: "crates \<Rightarrow> web_codec \<Rightarrow> bytes \<Rightarrow> bytes \<Rightarrow> string \<Rightarrow> wasm_engine res" where
  "wasm_open C K seed saved ignore =
     rbind (seed32 seed) (\<lambda>i.
     rbind (rbind (wc_unpack K saved) (\<lambda>p. unpersist C i p (str_lines ignore))) (\<lambda>e.
       Ok \<lparr>we_inner = e, we_session = None\<rparr>))"

definition wasm_to_bytes :: "crates \<Rightarrow> web_codec \<Rightarrow> wasm_engine \<Rightarrow> bytes res" where
  "wasm_to_bytes C K w = rbind (persist C (we_inner w)) (wc_pack K)"

definition wasm_node_ssh :: "crates \<Rightarrow> wasm_engine \<Rightarrow> string" where
  "wasm_node_ssh C w = to_ssh_string C (me_identity (we_inner w))"

definition wasm_node_id :: "crates \<Rightarrow> wasm_engine \<Rightarrow> string" where
  "wasm_node_id C w = node_to_hex C (id_node C (me_identity (we_inner w)))"

definition wasm_vault_id :: "wasm_engine \<Rightarrow> string" where
  "wasm_vault_id w = vc_vault_id (me_config (we_inner w))"

definition wasm_main :: "crates \<Rightarrow> wasm_engine \<Rightarrow> string" where
  "wasm_main C w = (case me_main (we_inner w) of None \<Rightarrow> [] | Some m \<Rightarrow> to_hex C m)"

definition wasm_set_ignore :: "string \<Rightarrow> wasm_engine \<Rightarrow> wasm_engine" where
  "wasm_set_ignore ignore w = w\<lparr>we_inner := set_ignore (str_lines ignore) (we_inner w)\<rparr>"

definition wasm_authorize :: "crates \<Rightarrow> string \<Rightarrow> wasm_engine \<Rightarrow> wasm_engine" where
  "wasm_authorize C line w = w\<lparr>we_inner := authorize C line (we_inner w)\<rparr>"

definition wasm_commit_from_files ::
  "crates \<Rightarrow> web_codec \<Rightarrow> u64 \<Rightarrow> u64 \<Rightarrow> string \<Rightarrow> (wasm_engine, string option) seff"
where
  "wasm_commit_from_files C K now wall files_json =
     sbind (sread (\<lambda>_. json_files K files_json)) (\<lambda>files.
       shown (hex_opt C) (on_inner (commit_from_files C now wall files)))"

definition wasm_stage_write :: "string \<Rightarrow> bytes \<Rightarrow> wasm_engine \<Rightarrow> wasm_engine" where
  "wasm_stage_write path content w = w\<lparr>we_inner := stage_write path content (we_inner w)\<rparr>"

definition wasm_stage_remove :: "string \<Rightarrow> wasm_engine \<Rightarrow> wasm_engine" where
  "wasm_stage_remove path w = w\<lparr>we_inner := stage_remove path (we_inner w)\<rparr>"

definition wasm_commit_staged :: "crates \<Rightarrow> u64 \<Rightarrow> u64 \<Rightarrow> (wasm_engine, string option) seff" where
  "wasm_commit_staged C now wall = shown (hex_opt C) (on_inner (commit_staged C now wall))"

definition working_files_json :: "web_codec \<Rightarrow> wasm_engine \<Rightarrow> string res" where
  "working_files_json K w = wc_files_json K (me_working (we_inner w))"

fun to_op_json :: "materialize_op \<Rightarrow> op_json" where
  "to_op_json (Write path content) = WriteJson path content"
| "to_op_json (Remove path) = RemoveJson path"
| "to_op_json (Defer path) = DeferJson path"
| "to_op_json (Quarantine from to) = QuarantineJson from to"

definition ops_json :: "web_codec \<Rightarrow> materialize_op list \<Rightarrow> string res" where
  "ops_json K ops = wc_ops_json K (map to_op_json ops)"

definition wasm_materialize_plan :: "crates \<Rightarrow> web_codec \<Rightarrow> string \<Rightarrow> (wasm_engine, string) seff" where
  "wasm_materialize_plan C K on_disk_json =
     sbind (sread (\<lambda>_. json_files K on_disk_json)) (\<lambda>on_disk.
       shown (ops_json K) (on_inner (materialize_plan C on_disk)))"

definition wasm_materialize_staged :: "crates \<Rightarrow> web_codec \<Rightarrow> (wasm_engine, string) seff" where
  "wasm_materialize_staged C K = shown (ops_json K) (on_inner (materialize_staged C))"

definition wasm_integrate :: "crates \<Rightarrow> web_codec \<Rightarrow> string \<Rightarrow> (wasm_engine, nat) seff" where
  "wasm_integrate C K raws_json =
     sbind (sread (\<lambda>_. wc_json_raws K raws_json)) (\<lambda>raws. on_inner (integrate C raws))"

definition wasm_frontier_tips :: "crates \<Rightarrow> wasm_engine \<Rightarrow> string list res" where
  "wasm_frontier_tips C w = rbind (engine_frontier_tips C (we_inner w)) (\<lambda>tips. Ok (map (to_hex C) tips))"

definition wasm_known :: "crates \<Rightarrow> wasm_engine \<Rightarrow> string list res" where
  "wasm_known C w = rbind (engine_known C (we_inner w)) (\<lambda>known. Ok (map (to_hex C) known))"

definition wasm_export_closure :: "crates \<Rightarrow> web_codec \<Rightarrow> string \<Rightarrow> wasm_engine \<Rightarrow> string res" where
  "wasm_export_closure C K tips_json w =
     rbind (wc_json_strings K tips_json) (\<lambda>hexes.
     rbind (rmap (from_hex C) hexes) (\<lambda>tips.
     rbind (export_closure C (we_inner w) tips) (wc_raws_json K)))"

definition wasm_export_primitive :: "crates \<Rightarrow> web_codec \<Rightarrow> string \<Rightarrow> wasm_engine \<Rightarrow> string res" where
  "wasm_export_primitive C K prim_hex w =
     rbind (from_hex C prim_hex) (\<lambda>x. rbind (export_primitive C (we_inner w) x) (wc_raws_json K))"

section \<open>Its session\<close>

definition wasm_session_start :: "crates \<Rightarrow> web_codec \<Rightarrow> u64 \<Rightarrow> bytes \<Rightarrow> bytes \<Rightarrow> (wasm_engine, bytes) seff" where
  "wasm_session_start C K now nonce channel_binding = (\<lambda>w.
     let s = session_new Connector channel_binding nonce;
         hello = session_start (engine_ops C now) s (we_inner w)
     in (w\<lparr>we_session := Some s\<rparr>, wc_encode K hello))"

text \<open>The session and the engine as one state, the session taken from where the host keeps it.\<close>

definition on_session :: "session \<Rightarrow> (session \<times> mem_engine, 'a) seff \<Rightarrow> (wasm_engine, session \<times> 'a) seff" where
  "on_session s m w =
     (case m (s, we_inner w) of
        ((s', e), r) \<Rightarrow> (\<lparr>we_inner = e, we_session = Some s'\<rparr>, rbind r (\<lambda>x. Ok (s', x))))"

definition step_reply :: "web_codec \<Rightarrow> session \<times> step \<Rightarrow> string res" where
  "step_reply K r =
     (case r of (s, st) \<Rightarrow>
        rbind (rmap (wc_encode K) (st_out st)) (\<lambda>out.
          wc_step_json K
            \<lparr>sj_out = out, sj_integrated = st_integrated st, sj_established = established s,
             sj_peer_ssh =
               (if established s then (case se_peer_ssh s of None \<Rightarrow> [] | Some p \<Rightarrow> p) else [])\<rparr>))"

definition wasm_session_feed :: "crates \<Rightarrow> web_codec \<Rightarrow> u64 \<Rightarrow> bytes \<Rightarrow> (wasm_engine, string) seff" where
  "wasm_session_feed C K now frame =
     sbind (sread (\<lambda>_. wc_decode K frame)) (\<lambda>m.
     sbind (sread (\<lambda>w. ok_or (OtherErr ''session not started'') (we_session w))) (\<lambda>s.
       shown (step_reply K) (on_session s (on_msg C (engine_ops C now) m))))"

section \<open>Snapshots and restores\<close>

definition wasm_snapshot :: "crates \<Rightarrow> u64 \<Rightarrow> string \<Rightarrow> (wasm_engine, unit) seff" where
  "wasm_snapshot C now name = on_inner (engine_snapshot C now name)"

definition wasm_restore_snapshot :: "crates \<Rightarrow> web_codec \<Rightarrow> string \<Rightarrow> (wasm_engine, string) seff" where
  "wasm_restore_snapshot C K name = shown (wc_files_json K) (on_inner (restore_snapshot C name))"

definition wasm_restore_time :: "crates \<Rightarrow> web_codec \<Rightarrow> u64 \<Rightarrow> (wasm_engine, string) seff" where
  "wasm_restore_time C K t = shown (wc_files_json K) (on_inner (restore_time C t))"

definition snapshots_json :: "web_codec \<Rightarrow> wasm_engine \<Rightarrow> string res" where
  "snapshots_json K w = wc_snapshots_json K (es_snapshots (me_state (we_inner w)))"

section \<open>Any sequence of calls\<close>

text \<open>One call of the host that can change the engine, with any arguments, whatever it returns.\<close>

inductive wasm_step :: "crates \<Rightarrow> web_codec \<Rightarrow> wasm_engine \<Rightarrow> wasm_engine \<Rightarrow> bool" for C K where
  ignore: "wasm_step C K w (wasm_set_ignore s w)"
| authorize: "wasm_step C K w (wasm_authorize C line w)"
| commit_files: "wasm_step C K w (fst (wasm_commit_from_files C K now wall json w))"
| stage_write: "wasm_step C K w (wasm_stage_write path content w)"
| stage_remove: "wasm_step C K w (wasm_stage_remove path w)"
| commit: "wasm_step C K w (fst (wasm_commit_staged C now wall w))"
| plan: "wasm_step C K w (fst (wasm_materialize_plan C K json w))"
| materialize: "wasm_step C K w (fst (wasm_materialize_staged C K w))"
| integrate: "wasm_step C K w (fst (wasm_integrate C K json w))"
| start: "wasm_step C K w (fst (wasm_session_start C K now nonce cb w))"
| feed: "wasm_step C K w (fst (wasm_session_feed C K now frame w))"
| snapshot: "wasm_step C K w (fst (wasm_snapshot C now name w))"
| restore: "wasm_step C K w (fst (wasm_restore_snapshot C K name w))"
| restore_to: "wasm_step C K w (fst (wasm_restore_time C K t w))"

end
