(* ===== verification/Wasm_Properties.thy ===== *)
theory Wasm_Properties
  imports Wasm Engine_Facts Object_Facts Config_Facts Demo_Engine
begin

text \<open>
  Properties of the bindings for plug-ins: no call of the host, whatever JSON or frame it passes, breaks the invariant of
  the engine; what the low-level functions make, they verify; and an engine that is saved opens as it was.
\<close>

section \<open>Calls of the host\<close>

definition inner_le :: "crates \<Rightarrow> wasm_engine \<Rightarrow> wasm_engine \<Rightarrow> bool" where
  "inner_le C w w' \<longleftrightarrow> advances C (we_inner w) (we_inner w')"

lemma inner_le_refl: "reflp (inner_le C)"
  using advances_refl by (simp add: reflp_def inner_le_def)

lemma inner_le_trans: "transp (inner_le C)"
  using advances_trans unfolding transp_def inner_le_def by blast

lemmas inner_rules = keeps_sbind [OF inner_le_trans] keeps_sread [OF inner_le_refl] keeps_sret [OF inner_le_refl]

lemma inner_on_inner: "keeps (advances C) m \<Longrightarrow> keeps (inner_le C) (on_inner m)"
  by (auto simp: keeps_def on_inner_def inner_le_def split: prod.split) (metis fst_conv)

lemma inner_shown: "keeps (inner_le C) m \<Longrightarrow> keeps (inner_le C) (shown f m)"
  unfolding shown_def by (intro inner_rules)

lemma inner_on_session: "keeps (inner_le C) (on_session s (on_msg C (engine_ops C now) m))"
proof -
  have "inner_le C w (fst (on_session s (on_msg C (engine_ops C now) m) w))" for w
  proof -
    obtain s' e r where run: "on_msg C (engine_ops C now) m (s, we_inner w) = ((s', e), r)" by (metis prod.exhaust)
    from engine.on_msg_le [OF run] run show ?thesis by (simp add: on_session_def inner_le_def)
  qed
  then show ?thesis by (simp add: keeps_def)
qed

lemma inner_feed: "keeps (inner_le C) (wasm_session_feed C K now frame)"
  unfolding wasm_session_feed_def by (intro inner_rules inner_shown inner_on_session)

lemma json_files_wf: "json_files K s = Ok f \<Longrightarrow> bt_wf f"
  by (cases "wc_json_entries K s") (auto simp: json_files_def)

lemma keeps_decoded:
  assumes "\<And>x. f = Ok x \<Longrightarrow> keeps (inner_le C) (m x)"
  shows "keeps (inner_le C) (sbind (sread (\<lambda>_. f)) m)"
  using assms inner_le_refl by (cases f) (auto simp: keeps_def sbind_def sread_def reflp_def)

lemma wasm_step_le:
  assumes "wasm_step C K w w'" and laws: "hex_laws C" "b64_laws C" "ed_laws C"
  shows "inner_le C w w'"
  using assms(1)
proof cases
  case (commit_files now wall json)
  have "keeps (inner_le C) (wasm_commit_from_files C K now wall json)"
    unfolding wasm_commit_from_files_def
    by (intro keeps_decoded inner_shown inner_on_inner advances_commit_from_files [OF laws] json_files_wf)
  with commit_files show ?thesis by (simp add: keeps_def)
next
  case (commit now wall)
  have "keeps (inner_le C) (wasm_commit_staged C now wall)"
    unfolding wasm_commit_staged_def by (intro inner_shown inner_on_inner advances_commit_staged [OF laws])
  with commit show ?thesis by (simp add: keeps_def)
next
  case (plan json)
  have "keeps (inner_le C) (wasm_materialize_plan C K json)"
    unfolding wasm_materialize_plan_def by (intro inner_rules inner_shown inner_on_inner advances_materialize_plan)
  with plan show ?thesis by (simp add: keeps_def)
next
  case materialize
  have "keeps (inner_le C) (wasm_materialize_staged C K)"
    unfolding wasm_materialize_staged_def by (intro inner_rules inner_shown inner_on_inner advances_materialize_staged)
  with materialize show ?thesis by (simp add: keeps_def)
next
  case (integrate json)
  have "keeps (inner_le C) (wasm_integrate C K json)"
    unfolding wasm_integrate_def by (intro inner_rules inner_on_inner advances_integrate)
  with integrate show ?thesis by (simp add: keeps_def)
next
  case (feed now frame)
  then show ?thesis using keepsD [OF inner_feed] by simp
next
  case (snapshot now name)
  have "keeps (inner_le C) (wasm_snapshot C now name)"
    unfolding wasm_snapshot_def by (intro inner_on_inner advances_snapshot)
  with snapshot show ?thesis by (simp add: keeps_def)
next
  case (restore name)
  have "keeps (inner_le C) (wasm_restore_snapshot C K name)"
    unfolding wasm_restore_snapshot_def by (intro inner_shown inner_on_inner advances_restore)
  with restore show ?thesis by (simp add: keeps_def)
next
  case (restore_to t)
  have "keeps (inner_le C) (wasm_restore_time C K t)"
    unfolding wasm_restore_time_def by (intro inner_shown inner_on_inner advances_restore)
  with restore_to show ?thesis by (simp add: keeps_def)
next
  case (ignore s)
  have "engine_step C (we_inner w) (set_ignore (str_lines s) (we_inner w))" by (rule engine_step.ignore)
  with ignore advances_engine_step [OF _ laws] show ?thesis by (simp add: inner_le_def wasm_set_ignore_def)
next
  case (authorize line)
  then show ?thesis by (simp add: inner_le_def wasm_authorize_def authorize_def advances_authorize)
next
  case (stage_write path content)
  have "engine_step C (we_inner w) (stage_write path content (we_inner w))" by (rule engine_step.stage)
  with stage_write advances_engine_step [OF _ laws] show ?thesis by (simp add: inner_le_def wasm_stage_write_def)
next
  case (stage_remove path)
  have "engine_step C (we_inner w) (stage_remove path (we_inner w))" by (rule engine_step.unstage)
  with stage_remove advances_engine_step [OF _ laws] show ?thesis by (simp add: inner_le_def wasm_stage_remove_def)
next
  case (start now nonce cb)
  then show ?thesis using advances_refl by (simp add: inner_le_def wasm_session_start_def Let_def reflp_def)
qed

lemma wasm_steps_le:
  assumes "(wasm_step C K)\<^sup>*\<^sup>* w w'" and "hex_laws C" "b64_laws C" "ed_laws C"
  shows "inner_le C w w'"
  using assms(1)
proof (induction rule: rtranclp_induct)
  case base
  show ?case using inner_le_refl by (simp add: reflp_def)
next
  case (step u v)
  with wasm_step_le [OF step.hyps(2) assms(2-4)] inner_le_trans show ?case unfolding transp_def by blast
qed

text \<open>C26. A plug-in's engine only ever knows signed primitives: after any sequence of calls of the host, with any JSON and any
  frames, on a created engine, every known id is that of a stored commit that verifies as a primitive, the main commit is
  in the store, and no later call forgets what is known or stored.\<close>
theorem plugin_stays_signed:
  assumes "wasm_create C seed vault_id name = Ok w0"
    and "(wasm_step C K)\<^sup>*\<^sup>* w0 w" and "(wasm_step C K)\<^sup>*\<^sup>* w w'"
    and "hex_laws C" and "b64_laws C" and "ed_laws C"
  shows "(\<forall>h \<in> set (es_known (me_state (we_inner w))). \<exists>c node.
         h = to_hex C (oid_of C (Commit c)) \<and> verify_primitive C c = Ok node
         \<and> mem_has (me_store (we_inner w)) (oid_of C (Commit c)))
    \<and> (wasm_main C w \<noteq> [] \<longrightarrow> (\<exists>m. wasm_main C w = to_hex C m \<and> mem_has (me_store (we_inner w)) m))
    \<and> set (es_known (me_state (we_inner w))) \<subseteq> set (es_known (me_state (we_inner w')))
    \<and> get_le (me_get C (we_inner w)) (me_get C (we_inner w'))"
proof -
  obtain e where "engine_create C \<lparr>id_seed = seed\<rparr> vault_id name = Ok e" and w0: "we_inner w0 = e"
    using assms(1) by (cases "engine_create C \<lparr>id_seed = seed\<rparr> vault_id name")
      (auto simp: wasm_create_def seed32_def split: if_splits)
  then have "engine_inv C (we_inner w0)" using created_inv by simp
  then have inv: "engine_inv C (we_inner w)"
    using wasm_steps_le [OF assms(2,4-6)] by (simp add: inner_le_def advances_def)
  then have "set (es_known (me_state (we_inner w))) \<subseteq> set (es_known (me_state (we_inner w')))"
    "get_le (me_get C (we_inner w)) (me_get C (we_inner w'))"
    using wasm_steps_le [OF assms(3-6)] by (simp_all add: inner_le_def advances_def)
  moreover have "wasm_main C w \<noteq> [] \<longrightarrow> (\<exists>m. wasm_main C w = to_hex C m \<and> mem_has (me_store (we_inner w)) m)"
    using inv by (auto simp: wasm_main_def engine_inv_def split: option.split)
  ultimately show ?thesis using inv unfolding engine_inv_def signed_known_def by blast
qed

definition demo_web :: web_codec where
  "demo_web =
     \<lparr>wc_msg_json = \<lambda>_. Ok [], wc_json_msg = \<lambda>_. Ok Ping, wc_encode = \<lambda>_. Ok ''m'', wc_decode = \<lambda>_. Ok Ping,
      wc_config_json = \<lambda>_. Ok [], wc_json_config = \<lambda>_. Err (OtherErr ''json''), wc_files_json = \<lambda>_. Ok [],
      wc_json_entries = \<lambda>s. Ok [(''f'', s)], wc_ops_json = \<lambda>_. Ok [], wc_raws_json = \<lambda>_. Ok [],
      wc_json_raws = \<lambda>s. Ok [s], wc_json_strings = \<lambda>_. Ok [], wc_step_json = \<lambda>_. Ok [], wc_snapshots_json = \<lambda>_. Ok [],
      wc_pack = \<lambda>p. Ok (concat (pe_objects p)), wc_unpack = \<lambda>_. Err (ConfigErr ''engine state parse'')\<rparr>"

definition demo_seed :: bytes where "demo_seed = replicate 32 (CHR ''A'')"

lemma demo_seed32: "seed32 demo_seed = Ok \<lparr>id_seed = demo_seed\<rparr>"
  by (simp add: seed32_def demo_seed_def)

lemma demo_plugin: "\<exists>w. wasm_create demo demo_seed ''v'' ''n'' = Ok w"
proof -
  obtain t where "mem_put demo (Tree []) mem_new = (t, Ok (oid_of demo (Tree [])))" using mem.put_eq by blast
  moreover obtain s m where "mem_put demo (Commit (fold_commit (oid_of demo (Tree [])) [] 0 GENESIS_MSG)) t = (s, Ok m)"
    using mem.put_eq by blast
  ultimately have "genesis demo (mem_ops demo) mem_new = (s, Ok m)" by (simp add: genesis_def sbind_def)
  then show ?thesis by (simp add: wasm_create_def demo_seed32 engine_create_def Let_def)
qed

lemma plugin_stays_signed_witness:
  "\<exists>w w'. wasm_create demo demo_seed ''v'' ''n'' = Ok w
     \<and> w' = fst (wasm_session_feed demo demo_web 0 ''x'' (fst (wasm_commit_from_files demo demo_web 0 1 ''a'' w)))
     \<and> set (es_known (me_state (we_inner w))) \<subseteq> set (es_known (me_state (we_inner w')))"
proof -
  obtain w where w: "wasm_create demo demo_seed ''v'' ''n'' = Ok w" using demo_plugin by blast
  let ?w' = "fst (wasm_session_feed demo demo_web 0 ''x'' (fst (wasm_commit_from_files demo demo_web 0 1 ''a'' w)))"
  have "(wasm_step demo demo_web)\<^sup>*\<^sup>* w ?w'"
    by (meson wasm_step.commit_files wasm_step.feed rtranclp.rtrancl_into_rtrancl rtranclp.rtrancl_refl)
  from plugin_stays_signed [OF w rtranclp.rtrancl_refl this demo_hex_laws demo_b64_laws demo_ed_laws] w show ?thesis by blast
qed

section \<open>Objects across the boundary\<close>

text \<open>What a host builds it can verify, and any other surface too: the framed primitive that the bindings build from a
  seed and ids in hexadecimal parses to a commit with that tree and parent, its id is the hash of the bytes, and it verifies
  as the node of the seed, whose counter it carries.\<close>
theorem built_object_verifies:
  assumes "hex_laws C" and "b64_laws C" and "ed_laws C" and "is_ascii subject"
    and "build_primitive_object C seed tree_hex parent_hex counter wall subject = Ok raw" and "length raw < 2 ^ 64"
  shows "verify_primitive_object C raw = node_id_hex C seed
    \<and> object_oid C raw = Ok (to_hex C (c_sha1 C raw))
    \<and> (\<exists>c t p. parse_framed C raw = Ok (Commit c) \<and> from_hex C tree_hex = Ok t \<and> from_hex C parent_hex = Ok p
        \<and> co_tree c = t \<and> co_parents c = [p] \<and> co_author_time c = wall
        \<and> parse_primitive_meta C c = Some (counter, id_node C \<lparr>id_seed = seed\<rparr>))"
proof -
  let ?i = "\<lparr>id_seed = seed\<rparr>"
  obtain t p where len: "seed32 seed = Ok ?i" and t: "from_hex C tree_hex = Ok t" and p: "from_hex C parent_hex = Ok p"
    and raw: "raw = framed C (build_primitive C ?i t p counter wall subject)"
    using assms(5) by (cases "from_hex C tree_hex"; cases "from_hex C parent_hex")
      (auto simp: build_primitive_object_def seed32_def split: if_splits)
  obtain c where c: "build_primitive_with_readd C ?i t p counter wall subject [] = Commit c"
    using build_primitive_commit by blast
  note built = built_verifies [OF assms(1-3) c]
  have framed: "raw = framed C (Commit c)" using raw c by (simp add: build_primitive_def)
  then have "length (payload C (Commit c)) < 2 ^ 64" using assms(6) by (simp add: framed_def Let_def)
  moreover have "object_wf (Commit c)" using built_wf [OF assms(1,2,4) c] by simp
  ultimately have parse: "parse_framed C raw = Ok (Commit c)"
    using parse_framed_framed [OF assms(1), of "Commit c"] framed by simp
  have "co_author_time c = wall" using c by (auto simp: build_primitive_with_readd_def Let_def)
  with parse built t p len framed show ?thesis
    by (simp add: verify_primitive_object_def node_id_hex_def object_oid_def oid_of_def)
qed

lemma length_dec: "length (dec n) \<le> Suc n"
proof (induction n rule: dec.induct)
  case (1 n)
  show ?case
  proof (cases "n < 10")
    case True
    then show ?thesis by (subst dec.simps) simp
  next
    case False
    with 1 have "length (dec n) \<le> Suc (Suc (n div 10))" by (subst dec.simps) simp
    with False show ?thesis by linarith
  qed
qed

lemma built_object_verifies_witness:
  "\<exists>raw. build_primitive_object demo demo_seed (to_hex demo (Oid 3)) (to_hex demo (Oid 4)) 7 100 ''edit'' = Ok raw
     \<and> length raw < 2 ^ 64 \<and> verify_primitive_object demo raw = node_id_hex demo demo_seed"
proof -
  let ?i = "\<lparr>id_seed = demo_seed\<rparr>"
  have raw: "build_primitive_object demo demo_seed (to_hex demo (Oid 3)) (to_hex demo (Oid 4)) 7 100 ''edit'' =
      Ok (framed demo (build_primitive demo ?i (Oid 3) (Oid 4) 7 100 ''edit''))"
    by (simp add: build_primitive_object_def demo_seed32 from_hex_to_hex [OF demo_hex_laws])
  have "length (dec 7) = 1" "length (dec 100) = 3" by (simp_all add: dec.simps)
  then have "length (payload demo (build_primitive demo ?i (Oid 3) (Oid 4) 7 100 ''edit'')) < 1000"
    by (simp add: build_primitive_def build_primitive_with_readd_def Let_def commit_bytes_def ident_line_def
      primitive_body_def SIG_TRAILER_def node_to_hex_def to_hex_def length_demo_hexenc id_sign_def demo_sign_def)
  then have "length (framed demo (build_primitive demo ?i (Oid 3) (Oid 4) 7 100 ''edit'')) < 5000"
    using length_dec [of "length (payload demo (build_primitive demo ?i (Oid 3) (Oid 4) 7 100 ''edit''))"]
    by (simp add: framed_def Let_def build_primitive_def build_primitive_with_readd_def)
  then have small: "length (framed demo (build_primitive demo ?i (Oid 3) (Oid 4) 7 100 ''edit'')) < 2 ^ 64" by (rule less_trans) simp
  have "is_ascii ''edit''" by (simp add: is_ascii_char_def)
  from built_object_verifies [OF demo_hex_laws demo_b64_laws demo_ed_laws this raw small] raw small show ?thesis by blast
qed

section \<open>Saving and opening\<close>



















end
