(* ===== verification/Messages.thy ===== *)
theory Messages
  imports Git_Pass
begin

text \<open>
  The texts of errors: those of the engine crate (\<open>error.rs\<close>) and the refusals of the git passthrough (\<open>gitpass.rs\<close>).
\<close>

text \<open>A panic and a walk that does not return have no text of their own.\<close>

fun display_error :: "csp_error \<Rightarrow> string" where
  "display_error (ObjectNotFound s) = ''object '' @ s @ '' not found''"
| "display_error (Malformed s) = ''malformed git object: '' @ s"
| "display_error (Io s) = ''io error: '' @ s"
| "display_error (BadSignature s) = ''signature verification failed: '' @ s"
| "display_error (ChannelBinding s) = ''channel binding mismatch: '' @ s"
| "display_error (Unauthorized s) = ''peer not authorized: '' @ s"
| "display_error (FoldVerify s) = ''fold verification failed: '' @ s"
| "display_error (Protocol s) = ''protocol error: '' @ s"
| "display_error (ScopeErr s) = ''scope violation: '' @ s"
| "display_error (ConfigErr s) = ''config error: '' @ s"
| "display_error (OtherErr s) = s"
| "display_error (Panic s) = s"
| "display_error Diverge = []"

definition em_dash :: string where
  "em_dash = [CHR 0xE2, CHR 0x80, CHR 0x94]"

definition allowed_verbs :: string where
  "allowed_verbs = str_join '', '' READ_ONLY"

fun refusal_text :: "refusal \<Rightarrow> string" where
  "refusal_text NoVerb = ''ctx git: a read-only subcommand is required''"
| "refusal_text (LeadingOption a) =
     ''ctx git: leading option `'' @ a @ ''` is refused '' @ em_dash @ '' the subcommand must come first '' @
     ''and global git options are not allowed (the engine owns this repo; there is no '' @
     ''write workflow through git). Allowed: '' @ allowed_verbs"
| "refusal_text (VerbRefused verb hint) =
     ''ctx git: `'' @ verb @ ''` is refused '' @ em_dash @ '' the engine repo is read-only via `ctx git` ('' @ hint @ ''). '' @
     ''Allowed: '' @ allowed_verbs"
| "refusal_text ReflogNotShow = ''ctx git: only `reflog show` is permitted (read-only)''"
| "refusal_text (FlagDangerous a) =
     ''ctx git: flag `'' @ a @ ''` is refused '' @ em_dash @ '' it can write a file, run a command, or '' @
     ''redirect the repo, which is not permitted through the read-only `ctx git` '' @
     ''passthrough (the engine owns this repo; there is no write workflow through git)''"
| "refusal_text (FlagUnlisted a) =
     ''ctx git: flag `'' @ a @ ''` is refused '' @ em_dash @ '' only an explicit allowlist of read-only '' @
     ''flags is permitted through `ctx git` (the engine owns this repo; there is '' @
     ''no write workflow through git)''"

end
