(* ===== verification/Tls.thy ===== *)
theory Tls
  imports Vault Id_Store
begin

text \<open>
  The certificate of a listener (\<open>tls.rs\<close>): a pair of certificate and key in the context directory, made once. What
  rcgen makes is an argument, and so is SHA-256; the configurations of rustls are not modelled, nor are file modes.
\<close>

definition CERT_FILE :: string where "CERT_FILE = ''tls.crt''"
definition KEY_FILE :: string where "KEY_FILE = ''tls.key''"

definition CERT_PATH :: string where "CERT_PATH = CONTEXT_DIR @ ''/'' @ CERT_FILE"
definition KEY_PATH :: string where "KEY_PATH = CONTEXT_DIR @ ''/'' @ KEY_FILE"

definition write_private :: "string \<Rightarrow> bytes \<Rightarrow> (fs, unit) seff" where
  "write_private p b = sbind (create_dir_all (parent_path p)) (\<lambda>_. fs_write p b)"

definition tls_load_or_generate :: "(bytes \<times> bytes) res \<Rightarrow> (fs, bytes \<times> bytes) seff" where
  "tls_load_or_generate generated t =
     (if path_exists t CERT_PATH \<and> path_exists t KEY_PATH
      then (t, rbind (fs_read CERT_PATH t) (\<lambda>c. rbind (fs_read KEY_PATH t) (\<lambda>k. Ok (c, k))))
      else
        sbind (sread (\<lambda>_. generated)) (\<lambda>(c, k).
        sbind (create_dir_all CONTEXT_DIR) (\<lambda>_.
        sbind (write_private KEY_PATH k) (\<lambda>_.
        sbind (fs_write CERT_PATH c) (\<lambda>_. sret (c, k))))) t)"

definition cert_fingerprint :: "(bytes \<Rightarrow> bytes) \<Rightarrow> bytes \<Rightarrow> bytes" where
  "cert_fingerprint sha256 cert = sha256 cert"

section \<open>The pair is made once\<close>

lemma tls_paths: "CERT_PATH \<noteq> KEY_PATH" "CERT_PATH = ''.context/tls.crt''" "KEY_PATH = ''.context/tls.key''"
  by (simp_all add: CERT_PATH_def KEY_PATH_def CERT_FILE_def KEY_FILE_def CONTEXT_DIR_def)

lemma tls_pair_kept:
  assumes "tls_load_or_generate generated t = (u, Ok pair)"
  shows "tls_load_or_generate other u = (u, Ok pair)"
proof (cases "path_exists t CERT_PATH \<and> path_exists t KEY_PATH")
  case True
  with assms have "u = t" by (simp add: tls_load_or_generate_def)
  with assms True show ?thesis by (simp add: tls_load_or_generate_def)
next
  case False
  obtain c k where pair: "pair = (c, k)" by fastforce
  have wrote: "fs_write p b s = (s', Ok ()) \<Longrightarrow> s' = s\<lparr>fs_files := bt_insert p b (fs_files s)\<rparr>" for p b s s'
    by (auto simp: fs_write_def split: if_splits)
  from False assms obtain r s where "fs_write KEY_PATH k r = (s, Ok ())" and "fs_write CERT_PATH c s = (u, Ok ())"
    by (auto simp: pair tls_load_or_generate_def write_private_def sbind_Ok_iff)
  note wrote [OF this(1)] wrote [OF this(2)]
  then have "fs_get u CERT_PATH = Some c" "fs_get u KEY_PATH = Some k"
    using tls_paths(1) by (simp_all add: bt_simps)
  then show ?thesis by (simp add: pair tls_load_or_generate_def path_exists_def is_file_def fs_read_def)
qed

end
