(* ===== verification/Desktop.thy ===== *)
theory Desktop
  imports Cli Messages Tls
begin

text \<open>
  The engine of the desktop application (\<open>csp.rs\<close> and \<open>types.rs\<close> of desktop/engine): a registry of folders kept in a
  configuration file, and for each enabled folder a running node with its watcher, its poller and, if asked for, its
  listener. The operations run one after the other. What a running vault keeps of its files and repository is read from
  its folder before, and left there after, each of its operations, so that several vaults over one folder see each other.
  The notifications to the user interface are not modelled; what the libraries and the system give (SHA-256, serde's JSON,
  chrono, identifiers, clocks, ports) are arguments.
\<close>

section \<open>Types of the interface\<close>

datatype error_kind = NotFoundKind | IoKind | EngineKind | NetworkKind | UnsupportedKind

record engine_error =
  ee_kind :: error_kind
  ee_message :: string

type_synonym 'a eres = "engine_error + 'a"

definition not_found :: "string \<Rightarrow> engine_error" where "not_found m = \<lparr>ee_kind = NotFoundKind, ee_message = m\<rparr>"
definition io_error :: "string \<Rightarrow> engine_error" where "io_error m = \<lparr>ee_kind = IoKind, ee_message = m\<rparr>"
definition engine_failure :: "string \<Rightarrow> engine_error" where "engine_failure m = \<lparr>ee_kind = EngineKind, ee_message = m\<rparr>"
definition network_error :: "string \<Rightarrow> engine_error" where "network_error m = \<lparr>ee_kind = NetworkKind, ee_message = m\<rparr>"
definition unsupported :: "string \<Rightarrow> engine_error" where "unsupported m = \<lparr>ee_kind = UnsupportedKind, ee_message = m\<rparr>"

definition from_csp :: "'a res \<Rightarrow> 'a eres" where
  "from_csp r = (case r of Inl e \<Rightarrow> Inl (engine_failure (display_error e)) | Inr x \<Rightarrow> Inr x)"

datatype sync_state = Disabled | Idle | Active | Failed

record app_settings =
  as_start_at_login :: bool
  as_log_level :: string
  as_listen_by_default :: bool
  as_no_tls_by_default :: bool

definition default_settings :: app_settings where
  "default_settings =
     \<lparr>as_start_at_login = True, as_log_level = ''info'', as_listen_by_default = False, as_no_tls_by_default = False\<rparr>"

record vault_view =
  vv_id :: string
  vv_display_name :: string
  vv_path :: string
  vv_enabled :: bool
  vv_allow_connections :: bool
  vv_port :: "16 word"
  vv_is_csp_vault :: bool

record listener_info =
  li_bound :: bool
  li_scheme :: string
  li_port :: "16 word"
  li_address :: string

record connect_address =
  ca_scheme :: string
  ca_lan_ip :: string
  ca_port :: "16 word"
  ca_address :: string
  ca_firewall_guidance :: string
  ca_no_authorized_keys :: bool
  ca_note :: "string option"

record authorized_key =
  ak_fingerprint :: string
  ak_openssh :: string
  ak_comment :: string

record snapshot_view =
  ss_name :: string
  ss_created_at :: string
  ss_frontier :: "string list"

datatype restore_target = Named string | AtTime string

record vault_status =
  vs_id :: string
  vs_state :: sync_state
  vs_main_short_sha :: "string option"
  vs_known_count :: "32 word"
  vs_frontier_count :: "32 word"
  vs_authorized_count :: "32 word"
  vs_listener :: "listener_info option"
  vs_configured_peers :: "string list"
  vs_last_commit :: "string option"

record aggregate_status =
  ag_state :: sync_state
  ag_vault_count :: "32 word"
  ag_active_count :: "32 word"
  ag_error_count :: "32 word"

section \<open>State\<close>

record meta =
  mt_id :: string
  mt_path :: string
  mt_display_name :: string
  mt_enabled :: bool
  mt_allow_connections :: bool
  mt_port :: "16 word"

record desk_persist =
  ps_vaults :: "meta list"
  ps_settings :: app_settings

text \<open>A running folder. \<open>mg_main\<close> is what its poller saw last; the handle of the accept loop is there or not.\<close>

record managed =
  mg_path :: string
  mg_node :: net_node
  mg_peers :: "string list"
  mg_handle :: bool
  mg_listener :: "listener_info option"
  mg_last_commit :: "string option"
  mg_main :: "string option"

text \<open>The application: the configuration file, the folders by their paths, the registry, the running folders, and the nodes
  of stopped folders whose accepted sessions go on (only the accept loop and the tasks of the folder are aborted).\<close>

record desk =
  dk_identity :: identity
  dk_file :: "string option"
  dk_folders :: "string \<Rightarrow> fs \<times> disk"
  dk_metas :: "meta list"
  dk_settings :: app_settings
  dk_running :: "string \<rightharpoonup> managed"
  dk_detached :: "(string \<times> net_node) list"

text \<open>The libraries, and what the system gives at the time of a call.\<close>

record desk_env =
  de_crates :: crates
  de_codec :: codec
  de_sha256 :: "bytes \<Rightarrow> bytes"
  de_b64_nopad :: "bytes \<Rightarrow> string"
  de_rfc3339 :: "u64 \<Rightarrow> string"
  de_parse_rfc3339 :: "string \<Rightarrow> int option"
  de_to_json :: "desk_persist \<Rightarrow> string"
  de_from_json :: "string \<Rightarrow> desk_persist option"
  de_write_config :: "string option \<Rightarrow> string \<Rightarrow> string option \<times> unit eres"
  de_server_config :: "bytes \<Rightarrow> bytes \<Rightarrow> unit res"

record moment =
  mo_now :: u64
  mo_wall :: u64
  mo_listing :: "oid list"
  mo_uuid :: string
  mo_vault_uuid :: string
  mo_time :: string
  mo_lan_ip :: string
  mo_cert :: "(bytes \<times> bytes) res"
  mo_bind :: "string + 16 word"

section \<open>Operations on the application\<close>

type_synonym ('s, 'a) deff = "'s \<Rightarrow> 's \<times> 'a eres"

definition dbind :: "('s, 'a) deff \<Rightarrow> ('a \<Rightarrow> ('s, 'b) deff) \<Rightarrow> ('s, 'b) deff" where
  "dbind m f s = (case m s of (t, Inl e) \<Rightarrow> (t, Inl e) | (t, Inr x) \<Rightarrow> f x t)"

definition dret :: "'a \<Rightarrow> ('s, 'a) deff" where "dret x s = (s, Ok x)"
definition dread :: "('s \<Rightarrow> 'a eres) \<Rightarrow> ('s, 'a) deff" where "dread f s = (s, f s)"
definition dmodify :: "('s \<Rightarrow> 's) \<Rightarrow> ('s, unit) deff" where "dmodify f s = (f s, Ok ())"

text \<open>The result of an operation taken as a value: \<open>.ok()\<close> and \<open>if let Ok\<close>.\<close>

definition dattempt :: "('s, 'a) deff \<Rightarrow> ('s, 'a eres) deff" where
  "dattempt m s = (case m s of (t, r) \<Rightarrow> (t, Ok r))"

section \<open>Folders and running vaults\<close>

definition at_folder :: "string \<Rightarrow> (fs \<times> disk, 'a) seff \<Rightarrow> (desk, 'a) deff" where
  "at_folder path m dk =
     (case m (dk_folders dk path) of
        (s, r) \<Rightarrow> (dk\<lparr>dk_folders := (dk_folders dk)(path := s)\<rparr>, from_csp r))"

definition reload :: "fs \<times> disk \<Rightarrow> net_node \<Rightarrow> net_node" where
  "reload s nd = nd\<lparr>nd_vault := (nd_vault nd)\<lparr>va_fs := fst s, va_git := snd s\<rparr>\<rparr>"

definition vault_folder :: "net_node \<Rightarrow> fs \<times> disk" where
  "vault_folder nd = (va_fs (nd_vault nd), va_git (nd_vault nd))"

definition on_managed :: "string \<Rightarrow> managed \<Rightarrow> (net_node, 'a) seff \<Rightarrow> (desk, 'a) deff" where
  "on_managed i mg m dk =
     (case m (reload (dk_folders dk (mg_path mg)) (mg_node mg)) of
        (nd, r) \<Rightarrow>
          (dk\<lparr>dk_running := (dk_running dk)(i \<mapsto> mg\<lparr>mg_node := nd\<rparr>),
              dk_folders := (dk_folders dk)(mg_path mg := vault_folder nd)\<rparr>, from_csp r))"

definition on_node_vault :: "(vault, 'a) seff \<Rightarrow> (net_node, 'a) seff" where
  "on_node_vault m nd = (case m (nd_vault nd) of (v, r) \<Rightarrow> (nd\<lparr>nd_vault := v\<rparr>, r))"

section \<open>Names, keys and identity\<close>

text \<open>The last component of a path; empty components and single dots do not count.\<close>

definition path_file_name :: "string \<Rightarrow> string option" where
  "path_file_name p =
     (case rev (filter (\<lambda>c. c \<noteq> [] \<and> c \<noteq> ''.'') (str_split (CHR ''/'') p)) of
        [] \<Rightarrow> None
      | c # _ \<Rightarrow> if c = ''..'' then None else Some c)"

definition basename :: "string \<Rightarrow> string" where
  "basename p =
     (case path_file_name p of
        Some n \<Rightarrow> (let n = from_utf8_lossy n in if n \<noteq> [] then n else ''folder'')
      | None \<Rightarrow> ''folder'')"

definition nth_word :: "nat \<Rightarrow> string \<Rightarrow> string" where
  "nth_word n line = (let ws = split_whitespace line in if n < length ws then ws ! n else [])"

definition ssh_fingerprint :: "desk_env \<Rightarrow> string \<Rightarrow> string" where
  "ssh_fingerprint E line =
     (case c_b64dec (de_crates E) (nth_word 1 line) of
        Some blob \<Rightarrow> ''SHA256:'' @ de_b64_nopad E (de_sha256 E blob)
      | None \<Rightarrow> ''SHA256:?'')"

definition read_authorized :: "desk_env \<Rightarrow> fs \<Rightarrow> authorized_key list" where
  "read_authorized E t =
     map (\<lambda>l. \<lparr>ak_fingerprint = ssh_fingerprint E l, ak_openssh = l, ak_comment = nth_word 2 l\<rparr>)
       (filter (\<lambda>l. l \<noteq> [] \<and> \<not> starts_with ''#'' l)
         (map str_trim (str_lines (text_or_default AUTHORIZED_KEYS t))))"

text \<open>The identity of the device, in the files outside the folders; \<open>fresh\<close> is a seed just generated.\<close>

definition desk_identity :: "desk_env \<Rightarrow> environment \<Rightarrow> bytes \<Rightarrow> string option \<Rightarrow> (fs, identity) deff" where
  "desk_identity E env fresh explicit t =
     (let path = (case explicit of None \<Rightarrow> default_path env | Some p \<Rightarrow> p);
          t = fst (create_dir_all (parent_path path) t)
      in if path_exists t path
         then (t,
           (case read_text path t of
              Inl _ \<Rightarrow> Err (io_error ''read'')
            | Inr hex \<Rightarrow>
                (case c_hexdec (de_crates E) (str_trim hex) of
                   None \<Rightarrow> Err (io_error ''identity hex'')
                 | Some seed \<Rightarrow>
                     if length seed \<noteq> 32 then Err (io_error ''identity must be a 32-byte seed'')
                     else Ok \<lparr>id_seed = seed\<rparr>)))
         else
           (case fs_write path (c_hexenc (de_crates E) fresh) t of
              (t, Inl _) \<Rightarrow> (t, Err (io_error ''write''))
            | (t, Inr _) \<Rightarrow> (t, Ok \<lparr>id_seed = fresh\<rparr>)))"

section \<open>The registry\<close>

definition load_persist :: "desk_env \<Rightarrow> string option \<Rightarrow> desk_persist" where
  "load_persist E file =
     (case file of
        None \<Rightarrow> \<lparr>ps_vaults = [], ps_settings = default_settings\<rparr>
      | Some s \<Rightarrow>
          (case de_from_json E s of
             None \<Rightarrow> \<lparr>ps_vaults = [], ps_settings = default_settings\<rparr>
           | Some p \<Rightarrow> p))"

text \<open>Writing the file may fail, and leave another file behind.\<close>

definition save_desk :: "desk_env \<Rightarrow> (desk, unit) deff" where
  "save_desk E = (\<lambda>dk.
     case de_write_config E (dk_file dk) (de_to_json E \<lparr>ps_vaults = dk_metas dk, ps_settings = dk_settings dk\<rparr>) of
       (file, r) \<Rightarrow> (dk\<lparr>dk_file := file\<rparr>, r))"

definition meta_of :: "string \<Rightarrow> desk \<Rightarrow> meta eres" where
  "meta_of i dk =
     (case find (\<lambda>m. mt_id m = i) (dk_metas dk) of
        None \<Rightarrow> Err (not_found (''no vault '' @ i))
      | Some m \<Rightarrow> Ok m)"

text \<open>The first entry with the identifier is changed.\<close>

fun update_meta :: "string \<Rightarrow> (meta \<Rightarrow> meta) \<Rightarrow> meta list \<Rightarrow> meta list" where
  "update_meta i f [] = []"
| "update_meta i f (m # ms) = (if mt_id m = i then f m # ms else m # update_meta i f ms)"

definition port_text :: "16 word \<Rightarrow> string" where
  "port_text p = dec (unat p)"

definition scheme_of :: "bool \<Rightarrow> string" where
  "scheme_of no_tls = (if no_tls then ''ws'' else ''wss'')"

definition address_of :: "string \<Rightarrow> string \<Rightarrow> 16 word \<Rightarrow> string" where
  "address_of scheme ip port = scheme @ ''://'' @ ip @ '':'' @ port_text port"

section \<open>Starting and stopping a folder\<close>

text \<open>A folder is opened with trust on first use turned off, in memory and on disk.\<close>

definition open_managed :: "desk_env \<Rightarrow> moment \<Rightarrow> identity \<Rightarrow> (fs \<times> disk, vault) seff" where
  "open_managed E mo ident =
     sbind (vault_open (de_crates E) (de_codec E) (mo_listing mo) ident) (\<lambda>v s.
       if vc_no_tofu (va_config v) then (s, Ok v)
       else
         (case save_config (v\<lparr>va_config := (va_config v)\<lparr>vc_no_tofu := True\<rparr>\<rparr>) of
            (v', Inl e) \<Rightarrow> ((va_fs v', va_git v'), Err e)
          | (v', Inr _) \<Rightarrow> ((va_fs v', va_git v'), Ok v')))"

definition no_tls :: "desk \<Rightarrow> bool" where
  "no_tls dk = as_no_tls_by_default (dk_settings dk)"

definition running_of :: "string \<Rightarrow> desk \<Rightarrow> managed eres" where
  "running_of i dk =
     (case dk_running dk i of None \<Rightarrow> Err (not_found ''vault not running'') | Some mg \<Rightarrow> Ok mg)"

text \<open>The certificate, unless the listener is a plain one.\<close>

definition listener_tls :: "desk_env \<Rightarrow> moment \<Rightarrow> meta \<Rightarrow> (desk, unit) deff" where
  "listener_tls E mo m =
     at_folder (mt_path m) (sbind (on_fst (tls_load_or_generate (mo_cert mo))) (\<lambda>(cert, key).
       sread (\<lambda>_. de_server_config E cert key)))"

definition start_listener :: "desk_env \<Rightarrow> moment \<Rightarrow> string \<Rightarrow> (desk, listener_info) deff" where
  "start_listener E mo i =
     dbind (dread (meta_of i)) (\<lambda>m.
     dbind (\<lambda>dk. if no_tls dk then dret () dk else listener_tls E mo m dk) (\<lambda>_.
     dbind (dread (\<lambda>dk. Ok (scheme_of (no_tls dk)))) (\<lambda>scheme.
     dbind (dread (running_of i)) (\<lambda>_.
     dbind (dread (\<lambda>_. case mo_bind mo of Inl e \<Rightarrow> Err (network_error e) | Inr p \<Rightarrow> Ok p)) (\<lambda>port.
     let info = \<lparr>li_bound = True, li_scheme = scheme, li_port = port,
                 li_address = address_of scheme (mo_lan_ip mo) port\<rparr>
     in dbind (dmodify (\<lambda>dk. dk\<lparr>
          dk_running := (case dk_running dk i of
             None \<Rightarrow> dk_running dk
           | Some mg \<Rightarrow> (dk_running dk)(i \<mapsto> mg\<lparr>mg_handle := True, mg_listener := Some info\<rparr>)),
          dk_metas := update_meta i (\<lambda>m. m\<lparr>mt_port := port\<rparr>) (dk_metas dk)\<rparr>)) (\<lambda>_.
        dbind (dattempt (save_desk E)) (\<lambda>_. dret info)))))))"

text \<open>\<open>start_managed\<close>: the folder is opened, its node starts, commits what it finds, and is then known as running.\<close>

definition start_managed :: "desk_env \<Rightarrow> moment \<Rightarrow> meta \<Rightarrow> (desk, unit) deff" where
  "start_managed E mo m =
     dbind (\<lambda>dk. at_folder (mt_path m) (open_managed E mo (dk_identity dk)) dk) (\<lambda>v.
     let mg = \<lparr>mg_path = mt_path m, mg_node = node_new v, mg_peers = vc_peers (va_config v), mg_handle = False,
               mg_listener = None, mg_last_commit = None, mg_main = None\<rparr>
     in dbind (\<lambda>dk.
          case commit_and_publish (de_crates E) (de_codec E) (mo_now mo) (mo_wall mo) (mg_node mg) of
            (nd, r) \<Rightarrow>
              (dk\<lparr>dk_running := (dk_running dk)(mt_id m \<mapsto> mg\<lparr>mg_node := nd,
                    mg_last_commit := (case r of Inr (Some _) \<Rightarrow> Some (mo_time mo) | _ \<Rightarrow> None)\<rparr>),
                  dk_folders := (dk_folders dk)(mt_path m := vault_folder nd)\<rparr>, Ok ())) (\<lambda>_.
        if mt_allow_connections m then dbind (start_listener E mo (mt_id m)) (\<lambda>_. dret ())
        else dret ()))"

text \<open>What goes on when a folder is stopped: the sessions its listener has accepted, in tasks of their own.\<close>

definition accepted_only :: "net_node \<Rightarrow> net_node" where
  "accepted_only nd = nd\<lparr>nd_conns := filter (\<lambda>c. se_role (cn_session c) = Listener) (nd_conns nd)\<rparr>"

definition stop_managed :: "string \<Rightarrow> desk \<Rightarrow> desk" where
  "stop_managed i dk =
     (case dk_running dk i of
        None \<Rightarrow> dk
      | Some mg \<Rightarrow>
          dk\<lparr>dk_running := (dk_running dk)(i := None),
             dk_detached := (mg_path mg, accepted_only (mg_node mg)) # dk_detached dk\<rparr>)"

text \<open>\<open>CspEngine::new\<close>: the registry is read, and every enabled folder is started; one that fails is left out.\<close>

definition start_all :: "desk_env \<Rightarrow> (string \<Rightarrow> moment) \<Rightarrow> meta list \<Rightarrow> desk \<Rightarrow> desk" where
  "start_all E mos = fold (\<lambda>m dk. fst (start_managed E (mos (mt_id m)) m dk))"

definition desk_new ::
  "desk_env \<Rightarrow> (string \<Rightarrow> moment) \<Rightarrow> identity \<Rightarrow> string option \<Rightarrow> (string \<Rightarrow> fs \<times> disk) \<Rightarrow> desk"
where
  "desk_new E mos ident file folders =
     (let p = load_persist E file
      in start_all E mos (filter mt_enabled (ps_vaults p))
           \<lparr>dk_identity = ident, dk_file = file, dk_folders = folders, dk_metas = ps_vaults p,
            dk_settings = ps_settings p, dk_running = Map.empty, dk_detached = []\<rparr>)"

section \<open>Vaults, running or not\<close>

definition with_vault :: "desk_env \<Rightarrow> moment \<Rightarrow> string \<Rightarrow> (vault, 'a) seff \<Rightarrow> (desk, 'a) deff" where
  "with_vault E mo i f = (\<lambda>dk.
     case dk_running dk i of
       Some mg \<Rightarrow> on_managed i mg (on_node_vault f) dk
     | None \<Rightarrow>
         dbind (dread (meta_of i)) (\<lambda>m.
           at_folder (mt_path m)
             (sbind (vault_open (de_crates E) (de_codec E) (mo_listing mo) (dk_identity dk)) (Cli.on_vault f))) dk)"

text \<open>What a vault shows: main, and how many primitives, tips and keys there are; a count that cannot be had is zero.\<close>

definition shown_counts :: "desk_env \<Rightarrow> moment \<Rightarrow> vault \<Rightarrow> string option \<times> 32 word \<times> 32 word \<times> 32 word" where
  "shown_counts E mo v =
     (let C = de_crates E; len = (\<lambda>r. case r of Inl _ \<Rightarrow> 0 | Inr xs \<Rightarrow> of_nat (length xs))
      in (map_option (to_hex C) (repo_main C (va_git v)), len (vault_known C v), len (vault_frontier_tips C v),
          of_nat (card (vault_authorized_node_ids C (mo_now mo) v))))"

definition status_parts ::
  "desk_env \<Rightarrow> moment \<Rightarrow> meta \<Rightarrow> (desk, (string option \<times> 32 word \<times> 32 word \<times> 32 word) \<times> listener_info option \<times> string option) deff"
where
  "status_parts E mo m = (\<lambda>dk.
     case dk_running dk (mt_id m) of
       Some mg \<Rightarrow>
         (dk, Ok (shown_counts E mo (nd_vault (reload (dk_folders dk (mg_path mg)) (mg_node mg))), mg_listener mg, mg_last_commit mg))
     | None \<Rightarrow>
         (case at_folder (mt_path m) (vault_open (de_crates E) (de_codec E) (mo_listing mo) (dk_identity dk)) dk of
            (dk, Inr v) \<Rightarrow> (dk, Ok (shown_counts E mo v, None, None))
          | (dk, Inl _) \<Rightarrow> (dk, Ok ((None, 0, 0, 0), None, None))))"

definition state_of :: "bool \<Rightarrow> string option \<Rightarrow> sync_state" where
  "state_of enabled main = (if \<not> enabled then Disabled else if main \<noteq> None then Active else Idle)"

definition status_of :: "desk_env \<Rightarrow> moment \<Rightarrow> meta \<Rightarrow> (desk, vault_status) deff" where
  "status_of E mo m =
     dbind (status_parts E mo m) (\<lambda>((main, known, frontier, authorized), listener, last_commit).
     dbind (\<lambda>dk. dattempt (at_folder (mt_path m)
              (vault_open (de_crates E) (de_codec E) (mo_listing mo) (dk_identity dk))) dk) (\<lambda>opened.
       dret \<lparr>vs_id = mt_id m, vs_state = state_of (mt_enabled m) main,
             vs_main_short_sha = map_option (\<lambda>s. concat (take 12 (str_chars s))) main,
             vs_known_count = known, vs_frontier_count = frontier, vs_authorized_count = authorized,
             vs_listener = listener,
             vs_configured_peers = (case opened of Inl _ \<Rightarrow> [] | Inr v \<Rightarrow> vc_peers (va_config v)),
             vs_last_commit = last_commit\<rparr>))"

definition commit_now :: "desk_env \<Rightarrow> moment \<Rightarrow> string \<Rightarrow> (desk, string option) deff" where
  "commit_now E mo i =
     dbind (dread (running_of i)) (\<lambda>mg.
       on_managed i mg (commit_and_publish (de_crates E) (de_codec E) (mo_now mo) (mo_wall mo)))"

section \<open>The operations of the interface\<close>

definition list_vaults :: "desk \<Rightarrow> vault_view list" where
  "list_vaults dk =
     map (\<lambda>m. \<lparr>vv_id = mt_id m, vv_display_name = mt_display_name m, vv_path = mt_path m, vv_enabled = mt_enabled m,
               vv_allow_connections = mt_allow_connections m, vv_port = mt_port m,
               vv_is_csp_vault = path_exists (fst (dk_folders dk (mt_path m))) CONTEXT_DIR\<rparr>) (dk_metas dk)"

definition new_meta :: "moment \<Rightarrow> string \<Rightarrow> string \<Rightarrow> meta" where
  "new_meta mo path name =
     \<lparr>mt_id = mo_uuid mo, mt_path = path, mt_display_name = name, mt_enabled = True, mt_allow_connections = False,
      mt_port = 0\<rparr>"

definition view_of :: "meta \<Rightarrow> bool \<Rightarrow> vault_view" where
  "view_of m is_csp =
     \<lparr>vv_id = mt_id m, vv_display_name = mt_display_name m, vv_path = mt_path m, vv_enabled = True,
      vv_allow_connections = False, vv_port = 0, vv_is_csp_vault = is_csp\<rparr>"

text \<open>The folder is registered, the registry saved, and the folder started.\<close>

definition register_folder :: "desk_env \<Rightarrow> moment \<Rightarrow> meta \<Rightarrow> bool \<Rightarrow> (desk, vault_view) deff" where
  "register_folder E mo m is_csp =
     dbind (dmodify (\<lambda>dk. dk\<lparr>dk_metas := dk_metas dk @ [m]\<rparr>)) (\<lambda>_.
     dbind (save_desk E) (\<lambda>_.
     dbind (start_managed E mo m) (\<lambda>_. dret (view_of m is_csp))))"

text \<open>A folder that is not a vault becomes one.\<close>

definition make_vault :: "desk_env \<Rightarrow> string \<Rightarrow> identity \<Rightarrow> string \<Rightarrow> (vault, unit) seff \<Rightarrow> (fs \<times> disk, unit) seff" where
  "make_vault E path ident vault_id setup =
     sbind (vault_create (de_crates E) (de_codec E) path ident vault_id) (Cli.on_vault setup)"

definition set_no_tofu :: "(vault, unit) seff" where
  "set_no_tofu = smodify (\<lambda>v. v\<lparr>va_config := (va_config v)\<lparr>vc_no_tofu := True\<rparr>\<rparr>)"

definition add_local_folder :: "desk_env \<Rightarrow> moment \<Rightarrow> string \<Rightarrow> (desk, vault_view) deff" where
  "add_local_folder E mo path = (\<lambda>dk.
     let is_csp = path_exists (fst (dk_folders dk path)) CONTEXT_DIR
     in dbind
          (if is_csp
           then dbind (at_folder path (vault_open (de_crates E) (de_codec E) (mo_listing mo) (dk_identity dk))) (\<lambda>v.
                  dret (if vc_name (va_config v) = [] then basename path else vc_name (va_config v)))
           else dbind (at_folder path (make_vault E path (dk_identity dk) (mo_vault_uuid mo)
                  (sbind (set_name (basename path)) (\<lambda>_. sbind set_no_tofu (\<lambda>_. save_config))))) (\<lambda>_.
                  dret (basename path)))
          (\<lambda>name. register_folder E mo (new_meta mo path name) is_csp) dk)"

definition add_peer :: "string \<Rightarrow> (vault, unit) seff" where
  "add_peer url = smodify (\<lambda>v.
     if url \<in> set (vc_peers (va_config v)) then v
     else v\<lparr>va_config := (va_config v)\<lparr>vc_peers := vc_peers (va_config v) @ [url]\<rparr>\<rparr>)"

text \<open>\<open>probed\<close> is what the listener at the address answered.\<close>

definition clone_remote ::
  "desk_env \<Rightarrow> moment \<Rightarrow> string \<Rightarrow> string \<Rightarrow> (string \<times> string \<times> string) res \<Rightarrow> (desk, vault_view) deff"
where
  "clone_remote E mo dest url probed = (\<lambda>dk.
     if path_exists (fst (dk_folders dk dest)) CONTEXT_DIR
     then (dk, Err (engine_failure (dest @ '' is already a CSP vault (refusing to clobber)'')))
     else
       (case probed of
          Inl e \<Rightarrow> (dk, Err (network_error (''probe '' @ url @ '': '' @ display_error e)))
        | Inr (vault_id, vname, server_ssh) \<Rightarrow>
            (let name = (if vname = [] then basename dest else vname)
             in dbind (at_folder dest (make_vault E dest (dk_identity dk) vault_id
                  (sbind (set_name name) (\<lambda>_.
                   sbind (vault_authorize (de_crates E) server_ssh) (\<lambda>_.
                   sbind set_no_tofu (\<lambda>_.
                   sbind (add_peer url) (\<lambda>_. save_config)))))))
                  (\<lambda>_. register_folder E mo (new_meta mo dest name) True) dk)))"

definition remove_vault :: "desk_env \<Rightarrow> string \<Rightarrow> (desk, unit) deff" where
  "remove_vault E i =
     dbind (dmodify (stop_managed i)) (\<lambda>_. \<lambda>dk.
       let kept = filter (\<lambda>m. mt_id m \<noteq> i) (dk_metas dk)
       in if length kept = length (dk_metas dk) then (dk, Err (not_found (''no vault '' @ i)))
          else save_desk E (dk\<lparr>dk_metas := kept\<rparr>))"

definition set_enabled :: "desk_env \<Rightarrow> moment \<Rightarrow> string \<Rightarrow> bool \<Rightarrow> (desk, unit) deff" where
  "set_enabled E mo i on =
     dbind (dread (meta_of i)) (\<lambda>m.
     dbind (dmodify (\<lambda>dk. dk\<lparr>dk_metas := update_meta i (\<lambda>m. m\<lparr>mt_enabled := on\<rparr>) (dk_metas dk)\<rparr>)) (\<lambda>_.
     dbind (save_desk E) (\<lambda>_. \<lambda>dk.
       if on
       then (if dk_running dk i = None then start_managed E mo (m\<lparr>mt_enabled := on\<rparr>) dk else (dk, Ok ()))
       else (stop_managed i dk, Ok ()))))"

definition set_allow_connections :: "desk_env \<Rightarrow> moment \<Rightarrow> string \<Rightarrow> bool \<Rightarrow> (desk, listener_info) deff" where
  "set_allow_connections E mo i on =
     dbind (dread (meta_of i)) (\<lambda>_.
     dbind (dmodify (\<lambda>dk. dk\<lparr>dk_metas := update_meta i (\<lambda>m. m\<lparr>mt_allow_connections := on\<rparr>) (dk_metas dk)\<rparr>)) (\<lambda>_.
     dbind (save_desk E) (\<lambda>_. \<lambda>dk.
       if on
       then (if dk_running dk i = None
             then (dk, Err (unsupported ''enable sync before allowing connections''))
             else start_listener E mo i dk)
       else
         (dk\<lparr>dk_running := (case dk_running dk i of
               None \<Rightarrow> dk_running dk
             | Some mg \<Rightarrow> (dk_running dk)(i \<mapsto> mg\<lparr>mg_handle := False, mg_listener := None\<rparr>))\<rparr>,
          Ok \<lparr>li_bound = False, li_scheme = scheme_of (no_tls dk), li_port = 0, li_address = []\<rparr>))))"

definition firewall_guidance :: string where
  "firewall_guidance =
     (let arrow = '' '' @ [CHR 0xE2, CHR 0x86, CHR 0x92] @ '' ''
      in ''macOS: the Application Firewall is per-application, not per-port. '' @
         ''On first listen, accept the OS prompt to allow incoming connections for '' @ [CHR 0x22] @ ''Context '' @
         ''Desktop'' @ [CHR 0x22] @ ''. If you previously denied it, re-enable it under System Settings'' @ arrow @
         ''Network'' @ arrow @ ''Firewall. The port itself needs no separate macOS rule.'')"

definition no_keys_note :: string where
  "no_keys_note =
     ''No authorized keys yet. With trust-on-first-use disabled (the '' @
     ''default), no peer can connect until you authorize its key below. Prefer LAN or a '' @
     ''private overlay (VPN/Tailscale) over public port-forwarding.''"

definition get_connect_address :: "desk_env \<Rightarrow> moment \<Rightarrow> string \<Rightarrow> desk \<Rightarrow> connect_address eres" where
  "get_connect_address E mo i dk =
     rbind (meta_of i dk) (\<lambda>m.
     let scheme = scheme_of (no_tls dk); ip = mo_lan_ip mo;
         port = (case dk_running dk i of
                   Some mg \<Rightarrow> (case mg_listener mg of Some l \<Rightarrow> li_port l | None \<Rightarrow> mt_port m)
                 | None \<Rightarrow> mt_port m);
         no_auth = (read_authorized E (fst (dk_folders dk (mt_path m))) = [])
     in Ok \<lparr>ca_scheme = scheme, ca_lan_ip = ip, ca_port = port, ca_address = address_of scheme ip port,
            ca_firewall_guidance = firewall_guidance, ca_no_authorized_keys = no_auth,
            ca_note = (if no_auth then Some no_keys_note else None)\<rparr>)"

definition list_authorized :: "desk_env \<Rightarrow> string \<Rightarrow> desk \<Rightarrow> authorized_key list eres" where
  "list_authorized E i dk = rbind (meta_of i dk) (\<lambda>m. Ok (read_authorized E (fst (dk_folders dk (mt_path m)))))"

definition desk_authorize :: "desk_env \<Rightarrow> moment \<Rightarrow> string \<Rightarrow> string \<Rightarrow> (desk, unit) deff" where
  "desk_authorize E mo i pubkey = with_vault E mo i (vault_authorize (de_crates E) (str_trim pubkey))"

definition desk_revoke :: "desk_env \<Rightarrow> moment \<Rightarrow> string \<Rightarrow> string \<Rightarrow> (desk, unit) deff" where
  "desk_revoke E mo i fingerprint =
     dbind (dread (\<lambda>dk. rbind (list_authorized E i dk) (\<lambda>keys.
         case find (\<lambda>k. ak_fingerprint k = fingerprint) keys of
           None \<Rightarrow> Err (not_found ''no such authorized key'')
         | Some k \<Rightarrow> Ok (ak_openssh k)))) (\<lambda>line.
       with_vault E mo i (revoke (de_crates E) line))"

definition get_identity :: "desk_env \<Rightarrow> desk \<Rightarrow> string \<times> string" where
  "get_identity E dk =
     (let openssh = to_ssh_string (de_crates E) (dk_identity dk) in (openssh, ssh_fingerprint E openssh))"

definition set_settings :: "desk_env \<Rightarrow> app_settings \<Rightarrow> (desk, app_settings) deff" where
  "set_settings E settings =
     dbind (dmodify (\<lambda>dk. dk\<lparr>dk_settings := settings\<rparr>)) (\<lambda>_. dbind (save_desk E) (\<lambda>_. dret settings))"

definition view_snapshot :: "desk_env \<Rightarrow> snapshot \<Rightarrow> snapshot_view" where
  "view_snapshot E s =
     \<lparr>ss_name = sn_label s, ss_created_at = de_rfc3339 E (sn_created s), ss_frontier = sn_frontier s\<rparr>"

definition create_snapshot :: "desk_env \<Rightarrow> moment \<Rightarrow> string \<Rightarrow> string \<Rightarrow> (desk, snapshot_view) deff" where
  "create_snapshot E mo i name =
     with_vault E mo i (
       sbind (vault_snapshot (de_crates E) (de_codec E) (mo_now mo) name) (\<lambda>_.
       sbind (sread (\<lambda>v. ok_or (OtherErr ''snapshot not recorded'') (bt_get (es_snapshots (va_state v)) name))) (\<lambda>s.
         sret (view_snapshot E s))))"

definition list_snapshots :: "desk_env \<Rightarrow> moment \<Rightarrow> string \<Rightarrow> (desk, snapshot_view list) deff" where
  "list_snapshots E mo i =
     with_vault E mo i (sread (\<lambda>v. Ok (map (\<lambda>(n, s). view_snapshot E s) (es_snapshots (va_state v)))))"

text \<open>A time is taken as an unsigned number: one before 1970 wraps around.\<close>

definition desk_restore :: "desk_env \<Rightarrow> moment \<Rightarrow> string \<Rightarrow> restore_target \<Rightarrow> (desk, unit) deff" where
  "desk_restore E mo i target =
     with_vault E mo i
       (case target of
          Named name \<Rightarrow> vault_restore_snapshot (de_crates E) (de_codec E) (mo_now mo) (mo_wall mo) name
        | AtTime text \<Rightarrow>
            sbind (sread (\<lambda>_. ok_or (OtherErr ''bad time'') (de_parse_rfc3339 E text))) (\<lambda>t.
              vault_restore_time (de_crates E) (de_codec E) (mo_now mo) (mo_wall mo) (of_int t)))"

definition get_status :: "desk_env \<Rightarrow> moment \<Rightarrow> string \<Rightarrow> (desk, vault_status) deff" where
  "get_status E mo i = dbind (dread (meta_of i)) (status_of E mo)"

record tallies =
  ta_active :: "32 word"
  ta_error :: "32 word"
  ta_any_enabled :: bool

definition tally_state :: "sync_state \<Rightarrow> tallies \<Rightarrow> tallies" where
  "tally_state s ta =
     (case s of
        Active \<Rightarrow> ta\<lparr>ta_active := ta_active ta + 1, ta_any_enabled := True\<rparr>
      | Idle \<Rightarrow> ta\<lparr>ta_any_enabled := True\<rparr>
      | Failed \<Rightarrow> ta\<lparr>ta_error := ta_error ta + 1\<rparr>
      | Disabled \<Rightarrow> ta)"

fun tally_all :: "desk_env \<Rightarrow> moment \<Rightarrow> meta list \<Rightarrow> tallies \<Rightarrow> (desk, tallies) deff" where
  "tally_all E mo [] ta = dret ta"
| "tally_all E mo (m # ms) ta = dbind (status_of E mo m) (\<lambda>s. tally_all E mo ms (tally_state (vs_state s) ta))"

definition aggregate_state :: "tallies \<Rightarrow> sync_state" where
  "aggregate_state ta =
     (if ta_error ta > 0 then Failed else if ta_active ta > 0 then Active
      else if ta_any_enabled ta then Idle else Disabled)"

definition get_aggregate_status :: "desk_env \<Rightarrow> moment \<Rightarrow> (desk, aggregate_status) deff" where
  "get_aggregate_status E mo = (\<lambda>dk.
     dbind (tally_all E mo (dk_metas dk) \<lparr>ta_active = 0, ta_error = 0, ta_any_enabled = False\<rparr>) (\<lambda>ta.
       dret \<lparr>ag_state = aggregate_state ta, ag_vault_count = of_nat (length (dk_metas dk)),
             ag_active_count = ta_active ta, ag_error_count = ta_error ta\<rparr>) dk)"

section \<open>What runs in between\<close>

text \<open>One turn of a folder's watcher, and one of its poller: the latter writes the files of a main it has not seen.\<close>

definition watch_turn :: "desk_env \<Rightarrow> moment \<Rightarrow> string \<Rightarrow> managed \<Rightarrow> desk \<Rightarrow> desk" where
  "watch_turn E mo i mg dk =
     (case on_managed i mg (commit_and_publish (de_crates E) (de_codec E) (mo_now mo) (mo_wall mo)) dk of
        (dk, r) \<Rightarrow>
          (case (r, dk_running dk i) of
             (Inr (Some x), Some mg) \<Rightarrow>
               dk\<lparr>dk_running := (dk_running dk)(i \<mapsto> mg\<lparr>mg_last_commit := Some (mo_time mo)\<rparr>)\<rparr>
           | _ \<Rightarrow> dk))"

definition poll_main :: "desk_env \<Rightarrow> managed \<Rightarrow> (net_node, string option) seff" where
  "poll_main E mg = (\<lambda>nd.
     let main = map_option (to_hex (de_crates E)) (repo_main (de_crates E) (va_git (nd_vault nd)))
     in if main = mg_main mg then (nd, Ok main)
        else (fst (on_node_vault (vault_materialize (de_crates E) (de_codec E)) nd), Ok main))"

definition poll_turn :: "desk_env \<Rightarrow> string \<Rightarrow> managed \<Rightarrow> desk \<Rightarrow> desk" where
  "poll_turn E i mg dk =
     (case on_managed i mg (poll_main E mg) dk of
        (dk, r) \<Rightarrow>
          (case (r, dk_running dk i) of
             (Inr main, Some mg) \<Rightarrow> dk\<lparr>dk_running := (dk_running dk)(i \<mapsto> mg\<lparr>mg_main := main\<rparr>)\<rparr>
           | _ \<Rightarrow> dk))"

text \<open>An event of the network at a running folder, and at a node that only goes on with its accepted sessions.\<close>

definition net_turn :: "desk_env \<Rightarrow> event \<Rightarrow> string \<Rightarrow> managed \<Rightarrow> desk \<Rightarrow> desk" where
  "net_turn E ev i mg dk =
     fst (on_managed i mg (smodify (\<lambda>nd. net_step (de_crates E) (de_codec E) nd ev)) dk)"

definition detached_turn :: "desk_env \<Rightarrow> event \<Rightarrow> nat \<Rightarrow> desk \<Rightarrow> desk" where
  "detached_turn E ev n dk =
     (if n < length (dk_detached dk)
      then
        (case dk_detached dk ! n of
           (path, nd) \<Rightarrow>
             (let nd = net_step (de_crates E) (de_codec E) (reload (dk_folders dk path) nd) ev
              in dk\<lparr>dk_detached := (dk_detached dk)[n := (path, nd)],
                    dk_folders := (dk_folders dk)(path := vault_folder nd)\<rparr>))
      else dk)"

text \<open>The application at work: its operations with any arguments and whatever they return, the turns of its tasks, the events of
  the network, the user's edits of a folder, and a restart. An identifier that is handed out is new.\<close>

definition of_net :: "event \<Rightarrow> bool" where
  "of_net ev \<longleftrightarrow> (case ev of Elsewhere f \<Rightarrow> False | _ \<Rightarrow> True)"

inductive desk_step :: "desk_env \<Rightarrow> desk \<Rightarrow> desk \<Rightarrow> bool" for E where
  add: "mo_uuid mo \<notin> mt_id ` set (dk_metas dk) \<Longrightarrow> desk_step E dk (fst (add_local_folder E mo path dk))"
| clone: "mo_uuid mo \<notin> mt_id ` set (dk_metas dk) \<Longrightarrow> desk_step E dk (fst (clone_remote E mo dest url probed dk))"
| remove: "desk_step E dk (fst (remove_vault E i dk))"
| enable: "desk_step E dk (fst (set_enabled E mo i on dk))"
| allow: "desk_step E dk (fst (set_allow_connections E mo i on dk))"
| authorize: "desk_step E dk (fst (desk_authorize E mo i key dk))"
| revoke: "desk_step E dk (fst (desk_revoke E mo i fingerprint dk))"
| settings: "desk_step E dk (fst (set_settings E s dk))"
| snapshot: "desk_step E dk (fst (create_snapshot E mo i name dk))"
| snapshots: "desk_step E dk (fst (list_snapshots E mo i dk))"
| restore: "desk_step E dk (fst (desk_restore E mo i target dk))"
| status: "desk_step E dk (fst (get_status E mo i dk))"
| aggregate: "desk_step E dk (fst (get_aggregate_status E mo dk))"
| commit: "desk_step E dk (fst (commit_now E mo i dk))"
| watch: "dk_running dk i = Some mg \<Longrightarrow> desk_step E dk (watch_turn E mo i mg dk)"
| poll: "dk_running dk i = Some mg \<Longrightarrow> desk_step E dk (poll_turn E i mg dk)"
| net: "dk_running dk i = Some mg \<Longrightarrow> of_net ev \<Longrightarrow> desk_step E dk (net_turn E ev i mg dk)"
| detached: "of_net ev \<Longrightarrow> desk_step E dk (detached_turn E ev n dk)"
| edit: "desk_step E dk (dk\<lparr>dk_folders := (dk_folders dk)(path := s)\<rparr>)"
| restart: "desk_step E dk (desk_new E mos (dk_identity dk) (dk_file dk) (dk_folders dk))"

end
