(* ===== verification/Desktop_Facts.thy ===== *)
theory Desktop_Facts
  imports Desktop Vault_Facts
begin

text \<open>
  What the operations of the desktop leave alone: no operation of a vault changes its configuration in memory but those of
  its owner, so the trust policy of a running folder stays as it was set; and the registry, the running folders and the
  configuration file stay in step.
\<close>

section \<open>The configuration in memory\<close>

definition same_conf :: "vault \<Rightarrow> vault \<Rightarrow> bool" where
  "same_conf v w \<longleftrightarrow> va_config w = va_config v"

lemma same_conf_refl: "reflp same_conf" by (simp add: reflp_def same_conf_def)
lemma same_conf_trans: "transp same_conf" by (simp add: transp_def same_conf_def)

named_theorems conf_rules

lemmas [conf_rules] = keeps_sbind [OF same_conf_trans] keeps_sread [OF same_conf_refl] keeps_sret [OF same_conf_refl]
  keeps_smapM [OF same_conf_refl same_conf_trans]

lemma conf_on_fs [conf_rules]: "keeps same_conf (on_fs m)"
  by (simp add: keeps_def same_conf_def on_fs_def split: prod.split)

lemma conf_on_git [conf_rules]: "keeps same_conf (on_git m)"
  by (simp add: keeps_def same_conf_def on_git_def split: prod.split)

lemma conf_on_mem [conf_rules]: "keeps same_conf (smodify (on_mem f))"
  by (simp add: keeps_def same_conf_def on_mem_def)

lemma conf_on_repo [conf_rules]: "keeps same_conf (smodify (on_repo f))"
  by (simp add: keeps_def same_conf_def on_repo_def)

lemma conf_smodify: "(\<And>v. va_config (f v) = va_config v) \<Longrightarrow> keeps same_conf (smodify f)"
  by (simp add: keeps_def same_conf_def)

lemma conf_at: "(\<And>v. va_config (fst (m v)) = va_config v) \<Longrightarrow> keeps same_conf m"
  by (simp add: keeps_def same_conf_def)

lemma conf_run: "keeps same_conf m \<Longrightarrow> va_config (fst (m v)) = va_config v"
  by (simp add: keeps_def same_conf_def)

lemma conf_save_state [conf_rules]: "keeps same_conf (save_state J)"
  unfolding save_state_def by (rule conf_at) (rule conf_run [OF conf_on_fs])

lemma conf_foldl: "(\<And>v x. va_config (f v x) = va_config v) \<Longrightarrow> va_config (foldl f v xs) = va_config v"
  by (induction xs arbitrary: v) simp_all

lemma conf_remove_stale: "va_config (remove_stale C want v p) = va_config v"
  by (simp add: remove_stale_def Let_def on_mem_def split: option.split)

lemma conf_place [conf_rules]: "keeps same_conf (place_file C p content)"
  unfolding place_file_def record_hash_def by (intro conf_rules)

lemma conf_materialize_path [conf_rules]: "keeps same_conf (materialize_path C e)"
proof (cases e)
  case (Pair p content)
  show ?thesis
    unfolding Pair materialize_path_def prod.case
    by (rule conf_at) (auto simp: conf_run [OF conf_place] record_hash_def on_mem_def split: option.split)
qed

lemma conf_materialize [conf_rules]: "keeps same_conf (vault_materialize C J)"
proof -
  have "keeps same_conf (sbind (sread (\<lambda>v. rbind (main_tree (va_get C v) m) (\<lambda>t. read_tree_to_files t (va_get C v)))) (\<lambda>want.
         sbind (smodify (\<lambda>v. foldl (remove_stale C want) v (bt_keys (es_materialized (va_state v))))) (\<lambda>_.
         sbind (smapM (materialize_path C) want) (\<lambda>_.
           save_state J))))" for m
    by (intro conf_rules conf_smodify conf_foldl conf_remove_stale)
  then show ?thesis by (simp add: vault_materialize_def keeps_def reflpD [OF same_conf_refl] split: option.split)
qed

lemma conf_recompute [conf_rules]: "keeps same_conf (recompute_and_materialize C J)"
  unfolding recompute_and_materialize_def by (intro conf_rules)

lemma conf_move: "va_config (move_quarantine v q) = va_config v"
  by (auto simp: move_quarantine_def on_fs_def on_mem_def split: materialize_op.split prod.splits sum.splits)

lemma conf_publish [conf_rules]: "keeps same_conf (vault_publish C J wall parent filtered readds)"
proof -
  have next_counter: "keeps same_conf (\<lambda>v. case next_counter (va_state v) of (st, c) \<Rightarrow> (v\<lparr>va_state := st\<rparr>, Ok c))"
    by (simp add: keeps_def same_conf_def split: prod.split)
  have put: "keeps same_conf (\<lambda>v. on_git (disk_put C (build_primitive_with_readd C (va_identity v) t parent counter wall
      ''ctx edit'' readds)) v)" for t counter by (rule conf_at) (rule conf_run [OF conf_on_git])
  show ?thesis
    unfolding vault_publish_def vault_write_tree_def
    by (intro conf_rules next_counter put conf_smodify) (auto simp: on_repo_def intro: conf_rules split: prod.split)
qed

lemma conf_commit [conf_rules]: "keeps same_conf (commit_local_changes C J now wall)"
proof -
  have guarded: "keeps same_conf (\<lambda>v. if \<not> genuine_change C (es_materialized (va_state v)) filtered
       then sbind (if quarantines \<noteq> [] then save_state J else sret ()) (\<lambda>_. sret None) v
       else vault_publish C J wall parent filtered readds v)" for filtered readds parent and quarantines :: "materialize_op list"
  proof -
    have "keeps same_conf (sbind (if quarantines \<noteq> [] then save_state J else sret ()) (\<lambda>_. sret None :: (vault, oid option) seff))"
      by (auto intro!: conf_rules)
    from conf_run [OF this] conf_run [OF conf_publish] show ?thesis by (intro conf_at) simp
  qed
  have onto: "keeps same_conf (vault_commit_onto C J now wall files parent)" for files parent
    unfolding vault_commit_onto_def
    by (auto intro!: conf_rules conf_smodify conf_foldl conf_move guarded split: prod.split)
  have base: "keeps same_conf (sbind (case repo_main C (va_git w) of Some m \<Rightarrow> sret m
      | None \<Rightarrow> on_git (unwrap (genesis C (disk_ops C)))) (vault_commit_onto C J now wall files))" for w :: vault and files
    by (auto intro!: conf_rules onto split: option.split)
  have "va_config (refresh_scope v) = va_config v" for v by (simp add: refresh_scope_def)
  with conf_run [OF base] show ?thesis by (intro conf_at) (simp add: commit_local_changes_def Let_def)
qed

lemma conf_integrate [conf_rules]: "keeps same_conf (vault_integrate C J raws)"
proof -
  have "keeps same_conf (\<lambda>v. case foldl (admit_raw C) (va_state v, 0) raws of
             (st, admitted) \<Rightarrow> (v\<lparr>va_state := st\<rparr>, Ok admitted))"
    by (simp add: keeps_def same_conf_def split: prod.split)
  then show ?thesis unfolding vault_integrate_def by (auto intro!: conf_rules)
qed

lemma conf_complete: "va_config (vault_mark_bootstrap_complete J v) = va_config v"
  by (simp add: vault_mark_bootstrap_complete_def save_state_def on_fs_def on_mem_def split: prod.split)

lemma conf_keys [conf_rules]: "keeps same_conf (with_entries C f)"
  unfolding with_entries_def by (rule conf_rules)

lemma conf_authorize [conf_rules]: "keeps same_conf (vault_authorize C line)"
  unfolding vault_authorize_def vault_authorize_with_expiry_def by (rule conf_rules)

lemma conf_revoke [conf_rules]: "keeps same_conf (revoke C line)"
  unfolding revoke_def by (rule conf_rules)

lemma conf_admit [conf_rules]: "keeps same_conf (vault_admit_peer C now line flag)"
  unfolding vault_admit_peer_def
  by (rule conf_at) (simp add: conf_run [OF conf_keys] split: option.split)

lemma conf_snapshot [conf_rules]: "keeps same_conf (vault_snapshot C J now name)"
  unfolding vault_snapshot_def by (intro conf_rules)

lemma conf_apply_restore [conf_rules]: "keeps same_conf (apply_restore C J now wall tree)"
proof -
  have "keeps same_conf (restore_file e)" for e by (auto simp: restore_file_def intro!: conf_rules split: prod.split)
  then show ?thesis unfolding apply_restore_def by (intro conf_rules conf_smodify conf_foldl) simp_all
qed

lemma conf_restore [conf_rules]:
  "keeps same_conf (vault_restore_snapshot C J now wall name)" "keeps same_conf (vault_restore_time C J now wall t)"
  unfolding vault_restore_snapshot_def vault_restore_time_def fold_over_subset_def by (intro conf_rules)+

text \<open>A session over the vault does not change it either.\<close>

interpretation conf: session_vault "disk_vault_ops C J now" same_conf
  for C J now
proof
  show "reflp same_conf" "transp same_conf" by (rule same_conf_refl same_conf_trans)+
  show "keeps same_conf (vo_integrate (disk_vault_ops C J now) raws)" for raws
    by (simp add: disk_vault_ops_def conf_rules)
  show "keeps same_conf (vo_admit_peer (disk_vault_ops C J now) peer flag)" for peer flag
    by (simp add: disk_vault_ops_def conf_rules)
  show "same_conf v (vo_mark_bootstrap_complete (disk_vault_ops C J now) v)" for v
    by (simp add: disk_vault_ops_def same_conf_def conf_complete)
qed

section \<open>The trust policy of a node\<close>

definition tofu_off :: "net_node \<Rightarrow> bool" where
  "tofu_off nd \<longleftrightarrow> vc_no_tofu (va_config (nd_vault nd))"

definition same_policy :: "net_node \<Rightarrow> net_node \<Rightarrow> bool" where
  "same_policy nd nd' \<longleftrightarrow> va_config (nd_vault nd') = va_config (nd_vault nd)"

lemma policy_on_vault: "keeps same_conf m \<Longrightarrow> keeps same_policy (on_node_vault m)"
  by (auto simp: keeps_def same_policy_def same_conf_def on_node_vault_def split: prod.split) (metis fst_conv)

lemma policy_commit: "keeps same_policy (commit_and_publish C J now wall)"
proof -
  have "va_config (nd_vault (fst (commit_and_publish C J now wall nd))) = va_config (nd_vault nd)" for nd
    using conf_run [OF conf_commit, of C J now wall "nd_vault nd"]
    by (auto simp: commit_and_publish_def bus_send_def split: prod.split sum.split option.split)
  then show ?thesis by (simp add: keeps_def same_policy_def)
qed

lemma policy_net_step:
  assumes "of_net ev"
  shows "same_policy nd (net_step C J nd ev)"
proof (cases ev)
  case (Frame i now m)
  have frame: "same_conf v (snd (fst (conn_frame C J now m (c, v))))" for c v
  proof (cases m)
    case (Some x)
    obtain s' v' r where run: "on_msg C (disk_vault_ops C J now) x (cn_session c, v) = ((s', v'), r)" by (metis prod.exhaust)
    from conf.on_msg_le [OF run] show ?thesis
      by (auto simp: Some conn_frame_def run Let_def reflpD [OF same_conf_refl] split: sum.split)
  qed (simp add: conn_frame_def reflpD [OF same_conf_refl])
  have "va_config (nd_vault (on_frame C J i now m nd)) = va_config (nd_vault nd)"
    using frame [of "nd_vault nd" "nd_conns nd ! i"]
    by (auto simp: on_frame_def same_conf_def bus_send_def Let_def split: prod.split)
  with Frame show ?thesis by (simp add: same_policy_def)
next
  case (CommitNow now wall)
  then show ?thesis using keepsD [OF policy_commit] by simp
qed (use assms in \<open>auto simp: same_policy_def of_net_def accept_ws_def connect_once_def at_conn_def split: sum.split\<close>)

section \<open>The invariant of the registry\<close>

definition meta_at :: "meta list \<Rightarrow> string \<Rightarrow> meta option" where
  "meta_at ms i = find (\<lambda>m. mt_id m = i) ms"

lemma meta_of_Ok: "meta_of i dk = Ok m \<longleftrightarrow> meta_at (dk_metas dk) i = Some m"
  by (auto simp: meta_of_def meta_at_def split: option.split)

lemma meta_at_Some: "meta_at ms i = Some m \<Longrightarrow> m \<in> set ms \<and> mt_id m = i"
  by (auto simp: meta_at_def find_Some_iff)

lemma meta_at_update:
  "(\<And>m. mt_id (f m) = mt_id m) \<Longrightarrow> meta_at (update_meta i f ms) j = (if j = i then map_option f (meta_at ms i) else meta_at ms j)"
  by (induction ms) (auto simp: meta_at_def)

lemma ids_update: "(\<And>m. mt_id (f m) = mt_id m) \<Longrightarrow> map mt_id (update_meta i f ms) = map mt_id ms"
  by (induction ms) auto

lemma meta_at_append: "meta_at (ms @ [m]) i = (case meta_at ms i of Some x \<Rightarrow> Some x | None \<Rightarrow> if mt_id m = i then Some m else None)"
  by (induction ms) (auto simp: meta_at_def)

lemma meta_at_filter: "meta_at (filter (\<lambda>m. mt_id m \<noteq> i) ms) j = (if j = i then None else meta_at ms j)"
  by (induction ms) (auto simp: meta_at_def)

lemma meta_at_None: "meta_at ms i = None \<longleftrightarrow> i \<notin> mt_id ` set ms"
  by (auto simp: meta_at_def find_None_iff)

text \<open>What is known of a running folder: it is an enabled entry of the registry, its listener is one that was asked for and
  has the port that the registry keeps, and its vault trusts nobody on first use.\<close>

definition managed_ok :: "meta list \<Rightarrow> string \<Rightarrow> managed \<Rightarrow> bool" where
  "managed_ok ms i mg \<longleftrightarrow> (\<exists>m. meta_at ms i = Some m \<and> mt_enabled m \<and> mt_path m = mg_path mg
     \<and> (\<forall>l. mg_listener mg = Some l \<longrightarrow> mt_allow_connections m \<and> li_port l = mt_port m \<and> mg_handle mg))
     \<and> tofu_off (mg_node mg)"

definition desk_ok :: "desk \<Rightarrow> bool" where
  "desk_ok dk \<longleftrightarrow> distinct (map mt_id (dk_metas dk))
     \<and> (\<forall>i mg. dk_running dk i = Some mg \<longrightarrow> managed_ok (dk_metas dk) i mg)
     \<and> (\<forall>e \<in> set (dk_detached dk). tofu_off (snd e))"

text \<open>The configuration file holds the registry: a restart finds what there was. The law of the file: what is written as JSON
  reads back, and writing it succeeds.\<close>

definition desk_saved :: "desk_env \<Rightarrow> desk \<Rightarrow> bool" where
  "desk_saved E dk \<longleftrightarrow> load_persist E (dk_file dk) = \<lparr>ps_vaults = dk_metas dk, ps_settings = dk_settings dk\<rparr>"

definition file_law :: "desk_env \<Rightarrow> bool" where
  "file_law E \<longleftrightarrow> (\<forall>p. de_from_json E (de_to_json E p) = Some p)
     \<and> (\<forall>old s. de_write_config E old s = (Some s, Ok ()))"

lemma save_law:
  assumes "file_law E"
  shows "save_desk E dk = (dk\<lparr>dk_file := Some (de_to_json E \<lparr>ps_vaults = dk_metas dk, ps_settings = dk_settings dk\<rparr>)\<rparr>, Ok ())"
  using assms by (simp add: save_desk_def file_law_def)

lemma save_desk_saves: "file_law E \<Longrightarrow> desk_saved E (fst (save_desk E dk))"
  by (simp add: save_law desk_saved_def load_persist_def) (simp add: file_law_def)

lemma save_desk_ok: "desk_ok (fst (save_desk E dk)) = desk_ok dk"
  by (simp add: save_desk_def desk_ok_def split: prod.split)

text \<open>A quiet operation leaves the registry and its file alone, and of the nodes only changes what is not the policy.\<close>

definition same_managed :: "managed \<Rightarrow> managed \<Rightarrow> bool" where
  "same_managed a b \<longleftrightarrow> mg_path b = mg_path a \<and> mg_listener b = mg_listener a \<and> mg_handle b = mg_handle a
     \<and> same_policy (mg_node a) (mg_node b)"

definition quiet :: "desk \<Rightarrow> desk \<Rightarrow> bool" where
  "quiet dk dk' \<longleftrightarrow> dk_metas dk' = dk_metas dk \<and> dk_settings dk' = dk_settings dk \<and> dk_file dk' = dk_file dk
     \<and> dk_identity dk' = dk_identity dk
     \<and> (\<forall>i. rel_option same_managed (dk_running dk i) (dk_running dk' i))
     \<and> list_all2 (\<lambda>a b. same_policy (snd a) (snd b)) (dk_detached dk) (dk_detached dk')"

lemma quiet_refl: "quiet dk dk"
  by (auto simp: quiet_def same_managed_def same_policy_def intro!: list_all2_refl rel_option_reflI)

lemma quiet_trans: "quiet a b \<Longrightarrow> quiet b c \<Longrightarrow> quiet a c"
proof -
  assume ab: "quiet a b" and bc: "quiet b c"
  have "rel_option same_managed (dk_running a i) (dk_running c i)" for i
  proof -
    have "rel_option same_managed (dk_running a i) (dk_running b i)" "rel_option same_managed (dk_running b i) (dk_running c i)"
      using ab bc by (simp_all add: quiet_def)
    then show ?thesis
      by (cases "dk_running a i"; cases "dk_running b i"; cases "dk_running c i") (auto simp: same_managed_def same_policy_def)
  qed
  moreover have "list_all2 (\<lambda>a b. same_policy (snd a) (snd b)) (dk_detached a) (dk_detached c)"
    using ab bc list_all2_trans [of "\<lambda>a b. same_policy (snd a) (snd b)" "\<lambda>a b. same_policy (snd a) (snd b)"
      "\<lambda>a b. same_policy (snd a) (snd b)" "dk_detached a" "dk_detached b" "dk_detached c"]
    by (simp add: quiet_def same_policy_def)
  ultimately show "quiet a c" using ab bc by (simp add: quiet_def)
qed

lemma quiet_ok:
  assumes "quiet dk dk'" and "desk_ok dk"
  shows "desk_ok dk'"
proof -
  have "managed_ok (dk_metas dk') i mg'" if "dk_running dk' i = Some mg'" for i mg'
  proof -
    have "rel_option same_managed (dk_running dk i) (Some mg')" using assms(1) that by (simp add: quiet_def flip: that)
    then obtain mg where "dk_running dk i = Some mg" "same_managed mg mg'" by (auto simp: option_rel_Some2)
    with assms show ?thesis
      by (auto simp: desk_ok_def managed_ok_def same_managed_def same_policy_def tofu_off_def quiet_def)
  qed
  moreover have "tofu_off (snd e)" if "e \<in> set (dk_detached dk')" for e
  proof -
    from assms(1) that obtain d where "d \<in> set (dk_detached dk)" "same_policy (snd d) (snd e)"
      unfolding quiet_def by (metis list_all2_conv_all_nth in_set_conv_nth)
    with assms(2) show ?thesis by (auto simp: desk_ok_def same_policy_def tofu_off_def)
  qed
  ultimately show ?thesis using assms by (simp add: desk_ok_def quiet_def)
qed

lemma quiet_saved: "quiet dk dk' \<Longrightarrow> desk_saved E dk' = desk_saved E dk"
  by (simp add: quiet_def desk_saved_def)

section \<open>Quiet operations\<close>

definition dquiet :: "(desk, 'a) deff \<Rightarrow> bool" where
  "dquiet m \<longleftrightarrow> (\<forall>dk. quiet dk (fst (m dk)))"

named_theorems quiet_rules

lemma dquietD: "dquiet m \<Longrightarrow> quiet dk (fst (m dk))" by (simp add: dquiet_def)

lemma dquiet_bind [quiet_rules]:
  assumes "dquiet m" and "\<And>x. dquiet (f x)"
  shows "dquiet (dbind m f)"
  unfolding dquiet_def
proof
  fix dk
  obtain t r where m: "m dk = (t, r)" by fastforce
  then have "quiet dk t" using dquietD [OF assms(1), of dk] by simp
  then show "quiet dk (fst (dbind m f dk))"
    using m dquietD [OF assms(2), where dk = t] quiet_trans by (cases r) (auto simp: dbind_def)
qed

lemma dquiet_simple [quiet_rules]: "dquiet (dret x)" "dquiet (dread f)"
  by (simp_all add: dquiet_def dret_def dread_def quiet_refl)

lemma dquiet_attempt [quiet_rules]: "dquiet m \<Longrightarrow> dquiet (dattempt m)"
  by (simp add: dquiet_def dattempt_def split: prod.split) (metis fst_conv)

lemma dquiet_at: "(\<And>dk. quiet dk (fst (m dk))) \<Longrightarrow> dquiet m"
  by (simp add: dquiet_def)

lemma quiet_folders: "quiet dk (dk\<lparr>dk_folders := f\<rparr>)"
  using quiet_refl [of dk] by (simp add: quiet_def)

lemma quiet_at_folder [quiet_rules]: "dquiet (at_folder path m)"
  by (simp add: dquiet_def at_folder_def quiet_folders split: prod.split)

lemma policy_reload: "same_policy nd (reload s nd)"
  by (simp add: same_policy_def reload_def)

lemma quiet_on_managed:
  assumes "dk_running dk i = Some mg" and "keeps same_policy m"
  shows "quiet dk (fst (on_managed i mg m dk))"
    and "\<exists>mg'. dk_running (fst (on_managed i mg m dk)) i = Some mg'"
proof -
  obtain nd r where run: "m (reload (dk_folders dk (mg_path mg)) (mg_node mg)) = (nd, r)" by fastforce
  then have "same_policy (mg_node mg) nd"
    using keepsD [OF assms(2), of "reload (dk_folders dk (mg_path mg)) (mg_node mg)"]
      policy_reload [of "mg_node mg" "dk_folders dk (mg_path mg)"] by (simp add: same_policy_def)
  with run assms(1) show "quiet dk (fst (on_managed i mg m dk))"
    using quiet_refl [of dk] by (auto simp: on_managed_def quiet_def same_managed_def)
  show "\<exists>mg'. dk_running (fst (on_managed i mg m dk)) i = Some mg'" by (simp add: on_managed_def run)
qed

lemma quiet_note:
  assumes "dk_running dk i = Some mg" and "same_managed mg mg'"
  shows "quiet dk (dk\<lparr>dk_running := (dk_running dk)(i \<mapsto> mg')\<rparr>)"
  using assms quiet_refl [of dk] by (auto simp: quiet_def)

lemma quiet_with_vault [quiet_rules]: "keeps same_conf f \<Longrightarrow> dquiet (with_vault E mo i f)"
proof (rule dquiet_at)
  fix dk :: desk
  assume f: "keeps same_conf f"
  show "quiet dk (fst (with_vault E mo i f dk))"
  proof (cases "dk_running dk i")
    case None
    have "dquiet (dbind (dread (meta_of i)) (\<lambda>m. at_folder (mt_path m)
        (sbind (vault_open (de_crates E) (de_codec E) (mo_listing mo) ident) (Cli.on_vault f))))" for ident
      by (intro quiet_rules)
    from dquietD [OF this] None show ?thesis by (simp add: with_vault_def)
  next
    case (Some mg)
    with quiet_on_managed(1) [OF Some policy_on_vault [OF f]] show ?thesis by (simp add: with_vault_def)
  qed
qed

lemma quiet_status [quiet_rules]: "dquiet (status_of E mo m)"
proof -
  have parts: "dquiet (status_parts E mo m)"
  proof (rule dquiet_at)
    fix dk :: desk
    have "quiet dk (fst (at_folder (mt_path m) (vault_open (de_crates E) (de_codec E) (mo_listing mo) (dk_identity dk)) dk))"
      by (rule dquietD [OF quiet_at_folder])
    then show "quiet dk (fst (status_parts E mo m dk))"
      by (auto simp: status_parts_def quiet_refl split: option.split prod.split sum.split)
  qed
  have opened: "dquiet (\<lambda>dk. dattempt (at_folder (mt_path m)
      (vault_open (de_crates E) (de_codec E) (mo_listing mo) (dk_identity dk))) dk)"
    by (rule dquiet_at) (rule dquietD [OF dquiet_attempt [OF quiet_at_folder]])
  show ?thesis
    unfolding status_of_def
    by (rule dquiet_bind [OF parts]) (auto intro!: quiet_rules opened simp: case_prod_beta)
qed

lemma quiet_tally [quiet_rules]: "dquiet (tally_all E mo ms ta)"
  by (induction ms arbitrary: ta) (auto intro: quiet_rules)

lemma quiet_aggregate: "dquiet (get_aggregate_status E mo)"
proof (rule dquiet_at)
  fix dk :: desk
  have "dquiet (dbind (tally_all E mo ms ta) (\<lambda>ta. dret (f ta)))" for ms ta and f :: "tallies \<Rightarrow> aggregate_status"
    by (intro quiet_rules)
  from dquietD [OF this] show "quiet dk (fst (get_aggregate_status E mo dk))" by (simp add: get_aggregate_status_def)
qed

lemma quiet_commit_now: "dquiet (commit_now E mo i)"
proof (rule dquiet_at)
  fix dk :: desk
  show "quiet dk (fst (commit_now E mo i dk))"
    using quiet_on_managed(1) [OF _ policy_commit]
    by (auto simp: commit_now_def dbind_def dread_def running_of_def quiet_refl split: option.split)
qed

lemma quiet_revoke: "dquiet (desk_revoke E mo i fingerprint)"
  unfolding desk_revoke_def by (intro quiet_rules conf_rules)

lemma quiet_snapshots: "dquiet (create_snapshot E mo i name)" "dquiet (list_snapshots E mo i)"
  unfolding create_snapshot_def list_snapshots_def by (intro quiet_rules conf_rules)+

lemma quiet_restore: "dquiet (desk_restore E mo i target)"
  unfolding desk_restore_def by (cases target) (auto intro!: quiet_rules conf_rules)

lemma quiet_turns:
  assumes "dk_running dk i = Some mg"
  shows "quiet dk (watch_turn E mo i mg dk)" and "quiet dk (poll_turn E i mg dk)"
    and "of_net ev \<Longrightarrow> quiet dk (net_turn E ev i mg dk)"
proof -
  note commit = quiet_on_managed [OF assms policy_commit]
  obtain d r where "on_managed i mg (commit_and_publish (de_crates E) (de_codec E) (mo_now mo) (mo_wall mo)) dk = (d, r)"
    by fastforce
  with commit [of "de_crates E" "de_codec E" "mo_now mo" "mo_wall mo"]
  obtain mg' where "quiet dk d" "dk_running d i = Some mg'" by auto
  moreover from this have "quiet d (d\<lparr>dk_running := (dk_running d)(i \<mapsto> mg'\<lparr>mg_last_commit := x\<rparr>)\<rparr>)" for x
    by (intro quiet_note) (simp_all add: same_managed_def same_policy_def)
  ultimately show "quiet dk (watch_turn E mo i mg dk)"
    using \<open>on_managed i mg _ dk = (d, r)\<close> quiet_trans
    by (auto simp: watch_turn_def split: sum.split option.split)
next
  have policy: "keeps same_policy (poll_main E mg)"
    using keepsD [OF policy_on_vault [OF conf_materialize]]
    by (auto simp: keeps_def poll_main_def Let_def same_policy_def)
  obtain d r where run: "on_managed i mg (poll_main E mg) dk = (d, r)" by fastforce
  with quiet_on_managed [OF assms policy] obtain mg' where "quiet dk d" "dk_running d i = Some mg'" by auto
  moreover from this have "quiet d (d\<lparr>dk_running := (dk_running d)(i \<mapsto> mg'\<lparr>mg_main := x\<rparr>)\<rparr>)" for x
    by (intro quiet_note) (simp_all add: same_managed_def same_policy_def)
  ultimately show "quiet dk (poll_turn E i mg dk)"
    using run quiet_trans by (auto simp: poll_turn_def split: sum.split option.split)
next
  assume "of_net ev"
  then have "keeps same_policy (smodify (\<lambda>nd. net_step (de_crates E) (de_codec E) nd ev))"
    by (simp add: keeps_def policy_net_step)
  from quiet_on_managed(1) [OF assms this] show "quiet dk (net_turn E ev i mg dk)" by (simp add: net_turn_def)
qed

lemma quiet_detached:
  assumes "of_net ev"
  shows "quiet dk (detached_turn E ev n dk)"
proof -
  have "same_policy nd (net_step (de_crates E) (de_codec E) (reload s nd) ev)" for nd s
    using policy_net_step [OF assms, of "reload s nd" "de_crates E" "de_codec E"] policy_reload [of nd s]
    by (simp add: same_policy_def)
  moreover have "list_all2 (\<lambda>a b. same_policy (snd a) (snd b)) xs (xs[n := (p, b)])"
    if "n < length xs" "same_policy (snd (xs ! n)) b" for xs :: "(string \<times> net_node) list" and p b
    using that by (auto simp: list_all2_conv_all_nth nth_list_update same_policy_def)
  ultimately show ?thesis
    using quiet_refl [of dk] by (auto simp: detached_turn_def Let_def quiet_def split: prod.split)
qed

section \<open>Operations on the registry\<close>

definition desk_good :: "desk_env \<Rightarrow> desk \<Rightarrow> bool" where
  "desk_good E dk \<longleftrightarrow> desk_ok dk \<and> desk_saved E dk"

lemma quiet_good: "quiet dk dk' \<Longrightarrow> desk_good E dk \<Longrightarrow> desk_good E dk'"
  using quiet_ok quiet_saved by (auto simp: desk_good_def)

lemma save_good: "file_law E \<Longrightarrow> desk_ok dk \<Longrightarrow> desk_good E (fst (save_desk E dk))"
  by (simp add: desk_good_def save_desk_ok save_desk_saves)

lemma save_desk_run: "file_law E \<Longrightarrow> save_desk E dk = (fst (save_desk E dk), Ok ())"
  by (simp add: save_law)

lemma save_desk_simps [simp]:
  "dk_metas (fst (save_desk E dk)) = dk_metas dk" "dk_running (fst (save_desk E dk)) = dk_running dk"
  by (simp_all add: save_desk_def split: prod.split)

text \<open>Entries that differ in their port only.\<close>

definition same_entry :: "meta \<Rightarrow> meta \<Rightarrow> bool" where
  "same_entry a b \<longleftrightarrow> mt_id b = mt_id a \<and> mt_path b = mt_path a \<and> mt_enabled b = mt_enabled a
     \<and> mt_allow_connections b = mt_allow_connections a"

definition same_entries :: "meta list \<Rightarrow> meta list \<Rightarrow> bool" where
  "same_entries ms ns \<longleftrightarrow> (\<forall>i. rel_option same_entry (meta_at ms i) (meta_at ns i))"

lemma same_entries_refl: "same_entries ms ms"
  by (auto simp: same_entries_def same_entry_def intro!: rel_option_reflI)

lemma same_entries_trans: "same_entries a b \<Longrightarrow> same_entries b c \<Longrightarrow> same_entries a c"
proof -
  assume ab: "same_entries a b" and bc: "same_entries b c"
  have "rel_option same_entry (meta_at a i) (meta_at c i)" for i
    using ab [unfolded same_entries_def, THEN spec, of i] bc [unfolded same_entries_def, THEN spec, of i]
    by (cases "meta_at a i"; cases "meta_at b i"; cases "meta_at c i") (auto simp: same_entry_def)
  then show "same_entries a c" by (simp add: same_entries_def)
qed

lemma same_entries_port: "same_entries ms (update_meta i (\<lambda>m. m\<lparr>mt_port := p\<rparr>) ms)"
  by (auto simp: same_entries_def same_entry_def meta_at_update option.rel_map intro!: rel_option_reflI)

lemma listener_steps:
  obtains (failed) "quiet dk (fst (start_listener E mo i dk))"
  | (bound) d mg info where "quiet dk d" and "dk_running d i = Some mg"
      and "fst (start_listener E mo i dk) = fst (save_desk E (d\<lparr>
        dk_running := (dk_running d)(i \<mapsto> mg\<lparr>mg_handle := True, mg_listener := Some info\<rparr>),
        dk_metas := update_meta i (\<lambda>m. m\<lparr>mt_port := li_port info\<rparr>) (dk_metas d)\<rparr>))"
proof (cases "meta_of i dk")
  case (Inl e)
  then have "fst (start_listener E mo i dk) = dk" by (simp add: start_listener_def dbind_def dread_def)
  with failed quiet_refl show thesis by simp
next
  case meta: (Inr m)
  obtain d r where tls: "(if no_tls dk then dret () dk else listener_tls E mo m dk) = (d, r)" by fastforce
  moreover have "dquiet (listener_tls E mo m)" unfolding listener_tls_def by (rule quiet_at_folder)
  then have "quiet dk (fst (listener_tls E mo m dk))" by (rule dquietD)
  then have "quiet dk (fst (if no_tls dk then dret () dk else listener_tls E mo m dk))"
    by (simp add: dret_def quiet_refl)
  ultimately have d: "quiet dk d" by simp
  show thesis
  proof (cases r)
    case (Inl e)
    with d tls meta show thesis by (intro failed) (simp add: start_listener_def dbind_def dread_def)
  next
    case tls_ok: (Inr u)
    show thesis
    proof (cases "running_of i d")
      case (Inl e)
      with d tls tls_ok meta show thesis by (intro failed) (simp add: start_listener_def dbind_def dread_def)
    next
      case (Inr mg)
      then have mg: "dk_running d i = Some mg" by (simp add: running_of_def split: option.splits)
      show thesis
      proof (cases "mo_bind mo")
        case (Inl e)
        with d tls tls_ok meta \<open>running_of i d = Inr mg\<close> show thesis
          by (intro failed) (simp add: start_listener_def dbind_def dread_def)
      next
        case (Inr port)
        let ?info = "\<lparr>li_bound = True, li_scheme = scheme_of (no_tls d), li_port = port,
          li_address = address_of (scheme_of (no_tls d)) (mo_lan_ip mo) port\<rparr>"
        have "fst (start_listener E mo i dk) = fst (save_desk E (d\<lparr>
            dk_running := (dk_running d)(i \<mapsto> mg\<lparr>mg_handle := True, mg_listener := Some ?info\<rparr>),
            dk_metas := update_meta i (\<lambda>m. m\<lparr>mt_port := port\<rparr>) (dk_metas d)\<rparr>))"
          using tls tls_ok meta mg Inr \<open>running_of i d = Inr mg\<close>
          by (simp add: start_listener_def dbind_def dread_def dmodify_def dattempt_def dret_def Let_def split: prod.split)
        with d mg show thesis by (intro bound [of d mg ?info]) simp_all
      qed
    qed
  qed
qed

lemma start_listener_good:
  assumes "desk_good E dk" and "file_law E" and "meta_at (dk_metas dk) i = Some m" and "mt_allow_connections m"
  shows "desk_good E (fst (start_listener E mo i dk))" and "same_entries (dk_metas dk) (dk_metas (fst (start_listener E mo i dk)))"
proof -
  have "desk_good E (fst (start_listener E mo i dk)) \<and> same_entries (dk_metas dk) (dk_metas (fst (start_listener E mo i dk)))"
  proof (cases rule: listener_steps [of dk E mo i])
    case failed
    with quiet_good [OF failed assms(1)] show ?thesis by (simp add: quiet_def same_entries_refl)
  next
    case (bound d mg info)
    let ?d = "d\<lparr>dk_running := (dk_running d)(i \<mapsto> mg\<lparr>mg_handle := True, mg_listener := Some info\<rparr>),
        dk_metas := update_meta i (\<lambda>m. m\<lparr>mt_port := li_port info\<rparr>) (dk_metas d)\<rparr>"
    have metas: "dk_metas d = dk_metas dk" using bound(1) by (simp add: quiet_def)
    have ok: "desk_ok d" using quiet_ok [OF bound(1)] assms(1) by (simp add: desk_good_def)
    have at: "meta_at (update_meta i (\<lambda>m. m\<lparr>mt_port := li_port info\<rparr>) (dk_metas dk)) j =
        (if j = i then Some (m\<lparr>mt_port := li_port info\<rparr>) else meta_at (dk_metas dk) j)" for j
      using assms(3) by (simp add: meta_at_update)
    have "managed_ok (dk_metas d) i mg" using ok bound(2) by (simp add: desk_ok_def)
    then have "managed_ok (dk_metas ?d) i (mg\<lparr>mg_handle := True, mg_listener := Some info\<rparr>)"
      using assms(3,4) by (simp add: managed_ok_def at metas)
    moreover have "managed_ok (dk_metas ?d) j mj" if "managed_ok (dk_metas d) j mj" "j \<noteq> i" for j mj
      using that by (simp add: managed_ok_def at metas)
    moreover have "distinct (map mt_id (dk_metas ?d))" using ok by (simp add: desk_ok_def ids_update)
    ultimately have "desk_ok ?d" using ok by (auto simp: desk_ok_def)
    from save_good [OF assms(2) this] show ?thesis
      unfolding bound(3) using same_entries_port metas by simp
  qed
  then show "desk_good E (fst (start_listener E mo i dk))" "same_entries (dk_metas dk) (dk_metas (fst (start_listener E mo i dk)))"
    by simp_all
qed

lemma open_managed_closed:
  assumes "open_managed E mo ident s = (s', Ok v)"
  shows "vc_no_tofu (va_config v)"
proof -
  obtain u w where w: "(if vc_no_tofu (va_config w) then (u, Ok w)
       else (case save_config (w\<lparr>va_config := (va_config w)\<lparr>vc_no_tofu := True\<rparr>\<rparr>) of
            (v', Inl e) \<Rightarrow> ((va_fs v', va_git v'), Err e)
          | (v', Inr _) \<Rightarrow> ((va_fs v', va_git v'), Ok v'))) = (s', Ok v)"
    using assms by (auto simp: open_managed_def sbind_Ok_iff)
  obtain v' r where save: "save_config (w\<lparr>va_config := (va_config w)\<lparr>vc_no_tofu := True\<rparr>\<rparr>) = (v', r)" by fastforce
  then have "va_config v' = (va_config w)\<lparr>vc_no_tofu := True\<rparr>"
    by (auto simp: save_config_def on_fs_def split: prod.splits)
  with w save show ?thesis by (cases r) (auto split: if_splits)
qed

lemma start_managed_good:
  assumes good: "desk_good E dk" and law: "file_law E"
    and at: "meta_at (dk_metas dk) (mt_id m) = Some m'" and "same_entry m m'" and "mt_enabled m"
  shows "desk_good E (fst (start_managed E mo m dk))" and "same_entries (dk_metas dk) (dk_metas (fst (start_managed E mo m dk)))"
proof -
  obtain d r where run: "at_folder (mt_path m) (open_managed E mo (dk_identity dk)) dk = (d, r)" by fastforce
  then have quiet: "quiet dk d" using dquietD [OF quiet_at_folder, of dk] by (metis fst_conv)
  have "desk_good E (fst (start_managed E mo m dk)) \<and> same_entries (dk_metas dk) (dk_metas (fst (start_managed E mo m dk)))"
  proof (cases r)
    case (Inl e)
    then have "fst (start_managed E mo m dk) = d" using run by (simp add: start_managed_def dbind_def)
    with quiet quiet_good [OF quiet good] show ?thesis by (simp add: quiet_def same_entries_refl)
  next
    case (Inr v)
    with run have closed: "vc_no_tofu (va_config v)"
      using open_managed_closed by (auto simp: at_folder_def from_csp_def split: prod.splits sum.splits)
    let ?mg = "\<lparr>mg_path = mt_path m, mg_node = node_new v, mg_peers = vc_peers (va_config v), mg_handle = False,
               mg_listener = None, mg_last_commit = None, mg_main = None\<rparr>"
    obtain nd q where commit: "commit_and_publish (de_crates E) (de_codec E) (mo_now mo) (mo_wall mo) (node_new v) = (nd, q)"
      by fastforce
    then have off: "tofu_off nd"
      using keepsD [OF policy_commit, of "node_new v" "de_crates E" "de_codec E" "mo_now mo" "mo_wall mo"] closed
      by (simp add: same_policy_def tofu_off_def node_new_def)
    define mg where "mg = ?mg\<lparr>mg_node := nd, mg_last_commit := (case q of Inr (Some _) \<Rightarrow> Some (mo_time mo) | _ \<Rightarrow> None)\<rparr>"
    define d' where "d' = d\<lparr>dk_running := (dk_running d)(mt_id m \<mapsto> mg), dk_folders := (dk_folders d)(mt_path m := vault_folder nd)\<rparr>"
    have metas: "dk_metas d' = dk_metas dk" using quiet by (simp add: quiet_def d'_def)
    have "managed_ok (dk_metas d') (mt_id m) mg"
      using at \<open>same_entry m m'\<close> \<open>mt_enabled m\<close> off by (simp add: managed_ok_def metas mg_def same_entry_def)
    then have good': "desk_good E d'"
      using quiet_good [OF quiet good] by (auto simp: desk_good_def desk_ok_def desk_saved_def d'_def)
    have start: "fst (start_managed E mo m dk) = fst ((if mt_allow_connections m
        then dbind (start_listener E mo (mt_id m)) (\<lambda>_. dret ()) else dret ()) d')"
      using run Inr commit by (simp add: start_managed_def dbind_def Let_def d'_def mg_def)
    show ?thesis
    proof (cases "mt_allow_connections m")
      case True
      have "fst (dbind (start_listener E mo (mt_id m)) (\<lambda>_. dret ()) d') = fst (start_listener E mo (mt_id m) d')"
        by (simp add: dbind_def dret_def split: prod.split sum.split)
      with start True start_listener_good [OF good' law, of "mt_id m" m' mo] at \<open>same_entry m m'\<close> show ?thesis
        by (simp add: metas same_entry_def)
    next
      case False
      with start good' show ?thesis by (simp add: dret_def metas same_entries_refl)
    qed
  qed
  then show "desk_good E (fst (start_managed E mo m dk))" "same_entries (dk_metas dk) (dk_metas (fst (start_managed E mo m dk)))"
    by simp_all
qed

lemma start_all_good:
  assumes "desk_good E dk" and "file_law E"
    and "\<forall>m \<in> set ms. mt_enabled m \<and> (\<exists>m'. meta_at (dk_metas dk) (mt_id m) = Some m' \<and> same_entry m m')"
  shows "desk_good E (start_all E mos ms dk)"
  using assms(1,3)
proof (induction ms arbitrary: dk)
  case (Cons m ms)
  then obtain m' where m': "meta_at (dk_metas dk) (mt_id m) = Some m'" "same_entry m m'" "mt_enabled m" by auto
  let ?d = "fst (start_managed E (mos (mt_id m)) m dk)"
  note step = start_managed_good [OF Cons.prems(1) assms(2) m']
  have "\<exists>n'. meta_at (dk_metas ?d) (mt_id n) = Some n' \<and> same_entry n n'" if n: "n \<in> set ms" for n
  proof -
    obtain k where k: "meta_at (dk_metas dk) (mt_id n) = Some k" "same_entry n k" using Cons.prems(2) n by auto
    have "rel_option same_entry (meta_at (dk_metas dk) (mt_id n)) (meta_at (dk_metas ?d) (mt_id n))"
      using step(2) [of "mos (mt_id m)"] by (simp add: same_entries_def)
    with k show ?thesis by (auto simp: option_rel_Some1 same_entry_def)
  qed
  with Cons.IH [OF step(1)] Cons.prems(2) show ?case by (simp add: start_all_def)
qed (simp add: start_all_def)

lemma desk_new_good:
  assumes "file_law E" and "distinct (map mt_id (ps_vaults (load_persist E file)))"
  shows "desk_good E (desk_new E mos ident file folders)"
proof -
  let ?p = "load_persist E file"
  let ?dk = "\<lparr>dk_identity = ident, dk_file = file, dk_folders = folders, dk_metas = ps_vaults ?p,
            dk_settings = ps_settings ?p, dk_running = Map.empty, dk_detached = []\<rparr>"
  have "desk_good E ?dk" using assms(2) by (simp add: desk_good_def desk_ok_def desk_saved_def)
  moreover have "meta_at ms (mt_id m) = Some m" if "distinct (map mt_id ms)" "m \<in> set ms" for m ms
    using that by (induction ms) (auto simp: meta_at_def)
  ultimately have "desk_good E (start_all E mos (filter mt_enabled (ps_vaults ?p)) ?dk)"
    using assms by (intro start_all_good) (auto simp: same_entry_def)
  then show ?thesis by (simp add: desk_new_def Let_def)
qed

lemma desk_bind_good:
  assumes "desk_good E (fst (m dk))" and "\<And>d x. m dk = (d, Ok x) \<Longrightarrow> desk_good E (fst (f x d))"
  shows "desk_good E (fst (dbind m f dk))"
  using assms by (auto simp: dbind_def split: prod.split sum.split)

lemma register_good:
  assumes "desk_good E dk" and "file_law E" and "mt_id m \<notin> mt_id ` set (dk_metas dk)" and "mt_enabled m"
  shows "desk_good E (fst (register_folder E mo m is_csp dk))"
proof -
  let ?d = "dk\<lparr>dk_metas := dk_metas dk @ [m]\<rparr>"
  have none: "meta_at (dk_metas dk) (mt_id m) = None" using assms(3) by (simp add: meta_at_None)
  have "managed_ok (dk_metas ?d) i mg" if "managed_ok (dk_metas dk) i mg" for i mg
    using that by (auto simp: managed_ok_def meta_at_append)
  then have "desk_ok ?d" using assms(1,3) by (auto simp: desk_good_def desk_ok_def)
  then have good: "desk_good E (fst (save_desk E ?d))" using save_good [OF assms(2)] by blast
  have at: "meta_at (dk_metas (fst (save_desk E ?d))) (mt_id m) = Some m" by (simp add: meta_at_append none)
  have "same_entry m m" by (simp add: same_entry_def)
  note started = start_managed_good(1) [OF good assms(2) at this assms(4), of mo]
  have "fst (register_folder E mo m is_csp dk) = fst (start_managed E mo m (fst (save_desk E ?d)))"
    using save_desk_run [OF assms(2), of ?d] by (auto simp: register_folder_def dbind_def dmodify_def dret_def split: prod.split sum.split)
  with started show ?thesis by simp
qed

lemma quiet_then_register:
  assumes "dquiet m" and "desk_good E dk" and "file_law E" and "mo_uuid mo \<notin> mt_id ` set (dk_metas dk)"
  shows "desk_good E (fst (dbind m (\<lambda>x. register_folder E mo (new_meta mo path (name x)) is_csp) dk))"
proof (rule desk_bind_good)
  show "desk_good E (fst (m dk))" using quiet_good [OF dquietD [OF assms(1)] assms(2)] .
  fix d x assume "m dk = (d, Ok x)"
  then have "quiet dk d" using dquietD [OF assms(1), of dk] by simp
  with quiet_good [OF this assms(2)] assms(3,4) show "desk_good E (fst (register_folder E mo (new_meta mo path (name x)) is_csp d))"
    by (intro register_good) (auto simp: quiet_def new_meta_def)
qed

lemma add_good:
  assumes "desk_good E dk" and "file_law E" and "mo_uuid mo \<notin> mt_id ` set (dk_metas dk)"
  shows "desk_good E (fst (add_local_folder E mo path dk))"
proof -
  have "dquiet (if is_csp
           then dbind (at_folder path (vault_open (de_crates E) (de_codec E) (mo_listing mo) ident)) (\<lambda>v.
                  dret (if vc_name (va_config v) = [] then basename path else vc_name (va_config v)))
           else dbind (at_folder path (make_vault E path ident (mo_vault_uuid mo) act)) (\<lambda>_. dret (basename path)))"
    for is_csp ident act by (auto intro: quiet_rules)
  from quiet_then_register [OF this assms, where path = path and name = "\<lambda>x. x"] show ?thesis by (simp add: add_local_folder_def Let_def)
qed

lemma clone_good:
  assumes "desk_good E dk" and "file_law E" and "mo_uuid mo \<notin> mt_id ` set (dk_metas dk)"
  shows "desk_good E (fst (clone_remote E mo dest url probed dk))"
proof -
  have "dquiet (at_folder dest (make_vault E dest ident vid act))" for ident vid act by (rule quiet_at_folder)
  from quiet_then_register [OF this assms] assms(1) show ?thesis
    by (auto simp: clone_remote_def Let_def split: sum.split prod.split)
qed

lemma stop_good: "desk_good E dk \<Longrightarrow> desk_good E (stop_managed i dk)"
  by (auto simp: stop_managed_def desk_good_def desk_ok_def desk_saved_def managed_ok_def accepted_only_def tofu_off_def
    split: option.split if_splits)

lemma stop_simps [simp]:
  "dk_metas (stop_managed i dk) = dk_metas dk" "dk_running (stop_managed i dk) i = None"
  "j \<noteq> i \<Longrightarrow> dk_running (stop_managed i dk) j = dk_running dk j"
  by (auto simp: stop_managed_def split: option.split)

lemma remove_good:
  assumes "desk_good E dk" and "file_law E"
  shows "desk_good E (fst (remove_vault E i dk))"
proof -
  let ?d = "stop_managed i dk"
  have good: "desk_good E ?d" by (rule stop_good [OF assms(1)])
  let ?k = "?d\<lparr>dk_metas := filter (\<lambda>m. mt_id m \<noteq> i) (dk_metas dk)\<rparr>"
  have "managed_ok (dk_metas ?k) j mg" if "dk_running ?d j = Some mg" for j mg
  proof -
    have "managed_ok (dk_metas dk) j mg" using good that by (simp add: desk_good_def desk_ok_def)
    moreover have "j \<noteq> i" using that by auto
    ultimately show ?thesis by (simp add: managed_ok_def meta_at_filter)
  qed
  moreover have "distinct (map mt_id (filter (\<lambda>m. mt_id m \<noteq> i) (dk_metas dk)))"
    using assms(1) by (simp add: desk_good_def desk_ok_def distinct_map_filter)
  ultimately have "desk_ok ?k" using good by (auto simp: desk_good_def desk_ok_def)
  from save_good [OF assms(2) this] good show ?thesis
    by (auto simp: remove_vault_def dbind_def dmodify_def Let_def)
qed

text \<open>A change of one entry of the registry, saved.\<close>

lemma change_good:
  assumes "desk_good E dk" and "file_law E" and "\<And>m. mt_id (f m) = mt_id m \<and> mt_path (f m) = mt_path m \<and> mt_port (f m) = mt_port m"
    and "\<And>mg m. dk_running dk i = Some mg \<Longrightarrow> mt_enabled m \<Longrightarrow> mt_enabled (f m)"
    and "\<And>mg m. dk_running dk i = Some mg \<Longrightarrow> mt_allow_connections m \<Longrightarrow> mg_listener mg \<noteq> None \<Longrightarrow> mt_allow_connections (f m)"
  shows "desk_good E (fst (save_desk E (dk\<lparr>dk_metas := update_meta i f (dk_metas dk)\<rparr>)))"
proof (rule save_good [OF assms(2)])
  have at: "meta_at (update_meta i f (dk_metas dk)) j = (if j = i then map_option f (meta_at (dk_metas dk) i) else meta_at (dk_metas dk) j)" for j
    using assms(3) by (intro meta_at_update) simp
  have "managed_ok (update_meta i f (dk_metas dk)) j mg" if "dk_running dk j = Some mg" for j mg
  proof -
    have ok: "managed_ok (dk_metas dk) j mg" using assms(1) that by (simp add: desk_good_def desk_ok_def)
    show ?thesis
    proof (cases "j = i")
      case True
      with ok that assms(3-5) show ?thesis by (auto simp: managed_ok_def at)
    qed (use ok in \<open>simp add: managed_ok_def at\<close>)
  qed
  then show "desk_ok (dk\<lparr>dk_metas := update_meta i f (dk_metas dk)\<rparr>)"
    using assms(1,3) by (simp add: desk_good_def desk_ok_def ids_update)
qed

lemma enable_good:
  assumes "desk_good E dk" and "file_law E"
  shows "desk_good E (fst (set_enabled E mo i on dk))"
proof (cases "meta_of i dk")
  case (Inl e)
  with assms(1) show ?thesis by (simp add: set_enabled_def dbind_def dread_def)
next
  case (Inr m)
  then have at: "meta_at (dk_metas dk) i = Some m" by (simp add: meta_of_Ok)
  let ?f = "\<lambda>m. m\<lparr>mt_enabled := on\<rparr>"
  let ?d = "fst (save_desk E (dk\<lparr>dk_metas := update_meta i ?f (dk_metas dk)\<rparr>))"
  have run: "fst (set_enabled E mo i on dk) = fst ((if on
      then (if dk_running ?d i = None then start_managed E mo (m\<lparr>mt_enabled := on\<rparr>) ?d else (?d, Ok ()))
      else (stop_managed i ?d, Ok ())))"
    using Inr by (simp add: set_enabled_def dbind_def dread_def dmodify_def save_law [OF assms(2)])
  show ?thesis
  proof (cases on)
    case True
    have good: "desk_good E ?d" using True by (intro change_good assms) auto
    have "meta_at (dk_metas ?d) (mt_id (m\<lparr>mt_enabled := on\<rparr>)) = Some (m\<lparr>mt_enabled := on\<rparr>)"
      using at meta_at_Some [OF at] by (simp add: meta_at_update)
    from start_managed_good(1) [OF good assms(2) this] good True show ?thesis unfolding run by (simp add: same_entry_def)
  next
    case False
    have "stop_managed i ?d = fst (save_desk E ((stop_managed i dk)\<lparr>dk_metas := update_meta i ?f (dk_metas (stop_managed i dk))\<rparr>))"
      by (simp add: stop_managed_def save_law [OF assms(2)] dmodify_def split: option.split)
    moreover have "desk_good E \<dots>" by (intro change_good stop_good assms) auto
    ultimately show ?thesis using False unfolding run by simp
  qed
qed

definition close_listener :: "string \<Rightarrow> desk \<Rightarrow> desk" where
  "close_listener i dk =
     dk\<lparr>dk_running := (case dk_running dk i of
          None \<Rightarrow> dk_running dk
        | Some mg \<Rightarrow> (dk_running dk)(i \<mapsto> mg\<lparr>mg_handle := False, mg_listener := None\<rparr>))\<rparr>"

lemma close_good:
  assumes "desk_good E dk"
  shows "desk_good E (close_listener i dk)"
proof (cases "dk_running dk i")
  case (Some mg)
  with assms have "managed_ok (dk_metas dk) i mg" by (simp add: desk_good_def desk_ok_def)
  then have "managed_ok (dk_metas dk) i (mg\<lparr>mg_handle := False, mg_listener := None\<rparr>)" by (auto simp: managed_ok_def)
  with Some assms show ?thesis by (simp add: close_listener_def desk_good_def desk_ok_def desk_saved_def)
qed (use assms in \<open>simp add: close_listener_def\<close>)

lemma allow_good:
  assumes "desk_good E dk" and "file_law E"
  shows "desk_good E (fst (set_allow_connections E mo i on dk))"
proof (cases "meta_of i dk")
  case (Inl e)
  with assms(1) show ?thesis by (simp add: set_allow_connections_def dbind_def dread_def)
next
  case (Inr m)
  then have at: "meta_at (dk_metas dk) i = Some m" by (simp add: meta_of_Ok)
  let ?f = "\<lambda>m. m\<lparr>mt_allow_connections := on\<rparr>"
  let ?d = "fst (save_desk E (dk\<lparr>dk_metas := update_meta i ?f (dk_metas dk)\<rparr>))"
  have run: "fst (set_allow_connections E mo i on dk) = (if on
      then (if dk_running ?d i = None then ?d else fst (start_listener E mo i ?d))
      else close_listener i ?d)"
    using Inr by (simp add: set_allow_connections_def dbind_def dread_def dmodify_def save_law [OF assms(2)] close_listener_def split: option.split)
  show ?thesis
  proof (cases on)
    case True
    have good: "desk_good E ?d" using True by (intro change_good assms) auto
    have "meta_at (dk_metas ?d) i = Some (m\<lparr>mt_allow_connections := on\<rparr>)" using at by (simp add: meta_at_update)
    from start_listener_good(1) [OF good assms(2) this] good True show ?thesis unfolding run by simp
  next
    case False
    have "close_listener i ?d = fst (save_desk E ((close_listener i dk)\<lparr>dk_metas := update_meta i ?f (dk_metas (close_listener i dk))\<rparr>))"
      by (simp add: close_listener_def save_law [OF assms(2)] dmodify_def split: option.split)
    moreover have "desk_good E \<dots>"
      by (intro change_good close_good assms) (auto simp: close_listener_def split: option.splits)
    ultimately show ?thesis using False unfolding run by simp
  qed
qed

lemma settings_good: "desk_good E dk \<Longrightarrow> file_law E \<Longrightarrow> desk_good E (fst (set_settings E st dk))"
proof -
  assume good: "desk_good E dk" and law: "file_law E"
  then have "desk_ok (dk\<lparr>dk_settings := st\<rparr>)" by (simp add: desk_good_def desk_ok_def)
  from save_good [OF law this] show ?thesis
    by (simp add: set_settings_def dbind_def dmodify_def dret_def save_law [OF law])
qed

lemma desk_step_good:
  assumes "desk_step E dk dk'" and "desk_good E dk" and "file_law E"
  shows "desk_good E dk'"
  using assms(1)
proof cases
  case (authorize mo i key)
  have "dquiet (desk_authorize E mo i key)" unfolding desk_authorize_def by (intro quiet_rules conf_rules)
  with authorize quiet_good [OF dquietD assms(2)] show ?thesis by blast
next
  case (status mo i)
  have "dquiet (get_status E mo i)" unfolding get_status_def by (intro quiet_rules)
  with status quiet_good [OF dquietD assms(2)] show ?thesis by blast
next
  case (restart mos)
  have "load_persist E (dk_file dk) = \<lparr>ps_vaults = dk_metas dk, ps_settings = dk_settings dk\<rparr>" "distinct (map mt_id (dk_metas dk))"
    using assms(2) by (simp_all add: desk_good_def desk_saved_def desk_ok_def)
  with restart desk_new_good [OF assms(3), of "dk_file dk"] show ?thesis by simp
next
  case (edit path s)
  then show ?thesis using quiet_good [OF quiet_folders assms(2)] by simp
qed (use assms(2,3) in \<open>auto intro: add_good clone_good remove_good enable_good allow_good settings_good
  quiet_good [OF dquietD [OF quiet_revoke]] quiet_good [OF dquietD [OF quiet_snapshots(1)]]
  quiet_good [OF dquietD [OF quiet_snapshots(2)]] quiet_good [OF dquietD [OF quiet_restore]]
  quiet_good [OF dquietD [OF quiet_aggregate]] quiet_good [OF dquietD [OF quiet_commit_now]]
  quiet_good [OF quiet_turns(1)] quiet_good [OF quiet_turns(2)] quiet_good [OF quiet_turns(3)] quiet_good [OF quiet_detached]\<close>)

lemma desk_steps_good:
  assumes "(desk_step E)\<^sup>*\<^sup>* dk dk'" and "desk_good E dk" and "file_law E"
  shows "desk_good E dk'"
  using assms(1)
proof (induction rule: rtranclp_induct)
  case base
  show ?case by (rule assms(2))
next
  case (step u v)
  from desk_step_good [OF step.hyps(2) step.IH assms(3)] show ?case .
qed

end
