(* ===== verification/Demo_Desk.thy ===== *)
theory Demo_Desk
  imports Desktop_Facts Demo_Disk
begin

text \<open>
  The libraries of the application on concrete values: a configuration file that reads back, and a folder that is a vault with
  trust on first use turned off, which the application starts.
\<close>

section \<open>A configuration file that reads back\<close>

text \<open>A list of strings as one string: each with its length before it, in marks.\<close>

definition cell :: "string \<Rightarrow> string" where
  "cell s = replicate (length s) (CHR ''#'') @ ''.'' @ s"

definition cells :: "string list \<Rightarrow> string" where
  "cells xs = concat (map cell xs)"

definition cut_cell :: "string \<Rightarrow> string \<times> string" where
  "cut_cell s = (let n = length (takeWhile (\<lambda>c. c = CHR ''#'') s); r = drop (Suc n) s in (take n r, drop n r))"

fun uncells :: "nat \<Rightarrow> string \<Rightarrow> string list" where
  "uncells 0 s = []"
| "uncells (Suc n) s = (if s = [] then [] else (case cut_cell s of (c, r) \<Rightarrow> c # uncells n r))"

lemma cut_cell: "cut_cell (cell s @ r) = (s, r)"
proof -
  have "takeWhile (\<lambda>c. c = CHR ''#'') (cell s @ r) = replicate (length s) (CHR ''#'')"
    by (simp add: cell_def takeWhile_append)
  then show ?thesis by (simp add: cut_cell_def Let_def cell_def del: replicate.simps)
qed

lemma uncells_cells: "length xs \<le> n \<Longrightarrow> uncells n (cells xs) = xs"
proof (induction xs arbitrary: n)
  case Nil
  then show ?case by (cases n) (simp_all add: cells_def)
next
  case (Cons x xs)
  then obtain m where n: "n = Suc m" "length xs \<le> m" by (cases n) simp_all
  have "cells (x # xs) = cell x @ cells xs" by (simp add: cells_def)
  then show ?case using Cons.IH [OF n(2)] by (simp add: n(1) cut_cell) (simp add: cell_def)
qed

lemma cells_longer: "length xs \<le> length (cells xs)"
  by (induction xs) (simp_all add: cells_def cell_def)

definition read_cells :: "string \<Rightarrow> string list" where
  "read_cells s = uncells (length s) s"

lemma read_cells [simp]: "read_cells (cells xs) = xs"
  by (simp add: read_cells_def uncells_cells cells_longer)

definition mark :: "bool \<Rightarrow> string" where
  "mark b = (if b then ''t'' else ''f'')"

definition meta_cells :: "meta \<Rightarrow> string" where
  "meta_cells m =
     cells [mt_id m, mt_path m, mt_display_name m, mark (mt_enabled m), mark (mt_allow_connections m),
            replicate (unat (mt_port m)) (CHR ''#'')]"

definition read_meta :: "string \<Rightarrow> meta" where
  "read_meta s =
     (let xs = read_cells s
      in \<lparr>mt_id = xs ! 0, mt_path = xs ! 1, mt_display_name = xs ! 2, mt_enabled = xs ! 3 = ''t'',
          mt_allow_connections = xs ! 4 = ''t'', mt_port = of_nat (length (xs ! 5))\<rparr>)"

lemma read_meta [simp]: "read_meta (meta_cells m) = m"
  by (simp add: read_meta_def meta_cells_def mark_def Let_def)

definition settings_cells :: "app_settings \<Rightarrow> string" where
  "settings_cells s =
     cells [mark (as_start_at_login s), as_log_level s, mark (as_listen_by_default s), mark (as_no_tls_by_default s)]"

definition read_settings :: "string \<Rightarrow> app_settings" where
  "read_settings s =
     (let xs = read_cells s
      in \<lparr>as_start_at_login = xs ! 0 = ''t'', as_log_level = xs ! 1, as_listen_by_default = xs ! 2 = ''t'',
          as_no_tls_by_default = xs ! 3 = ''t''\<rparr>)"

lemma read_settings [simp]: "read_settings (settings_cells s) = s"
  by (simp add: read_settings_def settings_cells_def mark_def Let_def)

definition demo_env :: desk_env where
  "demo_env =
     \<lparr>de_crates = demo, de_codec = demo_codec, de_sha256 = \<lambda>b. b, de_b64_nopad = \<lambda>b. b, de_rfc3339 = \<lambda>_. [],
      de_parse_rfc3339 = \<lambda>_. None,
      de_to_json = \<lambda>p. cells (settings_cells (ps_settings p) # map meta_cells (ps_vaults p)),
      de_from_json = \<lambda>s. (case read_cells s of
          [] \<Rightarrow> None
        | c # cs \<Rightarrow> Some \<lparr>ps_vaults = map read_meta cs, ps_settings = read_settings c\<rparr>),
      de_write_config = \<lambda>_ s. (Some s, Ok ()),
      de_server_config = \<lambda>_ _. Ok ()\<rparr>"

lemma demo_file_law: "file_law demo_env"
  by (simp add: file_law_def demo_env_def comp_def)

section \<open>A folder the application starts\<close>

definition shut_config :: vault_config where
  "shut_config = (new_config ''v'')\<lparr>vc_no_tofu := True\<rparr>"

definition shut_folder :: "fs \<times> disk" where
  "shut_folder = (\<lparr>fs_files = [(''.context/config'', to_toml_string shut_config)], fs_dirs = [''.context'']\<rparr>, demo_repo ''h'')"

lemma shut_config_reads:
  "from_utf8_ok (to_toml_string shut_config)" "from_toml_str (to_toml_string shut_config) = Ok shut_config"
proof -
  have "is_ascii (to_toml_string shut_config)"
    using is_ascii_solid [OF dec_solid]
    by (simp add: to_toml_string_def shut_config_def new_config_def is_ascii_char_def fmt_str_def fmt_arr_def fmt_bool_def esc_def
      esc_char_def str_chars_ascii del: str_chars.simps)
  then show "from_utf8_ok (to_toml_string shut_config)" by (rule from_utf8_ok_ascii)
  show "from_toml_str (to_toml_string shut_config) = Ok shut_config"
    by (rule reads_config)
      (simp add: strings_ok_def shut_config_def new_config_def from_utf8_ok_ascii is_ascii_char_def del: from_utf8_ok.simps)
qed

lemma shut_folder_opens:
  obtains s v where "open_managed demo_env mo ident shut_folder = (s, Ok v)"
proof -
  let ?t = "fst shut_folder"
  have dirs: "fs_dirs ?t = [''.context'']" by (simp add: shut_folder_def)
  have "config_load ?t = Ok shut_config"
    using shut_config_reads
    by (simp add: config_load_def read_text_def fs_read_def CONFIG_FILE_def CONTEXT_DIR_def shut_folder_def
      del: from_utf8_ok.simps)
  moreover obtain st where "state_load demo_codec ?t = Ok st"
  proof -
    have "\<not> is_file ?t ''.context/state''" by (simp add: shut_folder_def is_file_def)
    moreover have "\<not> is_dir ?t ''.context/state''" using demo_dirs [OF dirs] by simp
    ultimately show thesis using that by (simp add: state_load_def state_names)
  qed
  moreover obtain u where "state_save demo_codec (foldl (take_in demo (snd shut_folder)) st
      (scan_primitives demo (mo_listing mo) (snd shut_folder))) ?t = (u, Ok ())"
    by (rule state_save_ok [OF demo_writable [OF dirs]]) blast
  moreover have "''objects'' \<in> d_dirs (snd shut_folder)" by (simp add: shut_folder_def demo_repo_dirs)
  ultimately have "\<exists>s v. vault_open demo demo_codec (mo_listing mo) ident shut_folder = (s, Ok v) \<and> va_config v = shut_config"
    by (simp add: vault_open_def sbind_def on_fst_def repo_open_def disk_open_def sread_def split_beta)
  then show thesis using that by (auto simp: open_managed_def sbind_def demo_env_def shut_config_def)
qed

definition disk_none :: disk where
  "disk_none = \<lparr>d_files = Map.empty, d_dirs = {}\<rparr>"

definition demo_meta :: meta where
  "demo_meta =
     \<lparr>mt_id = ''i'', mt_path = ''/p'', mt_display_name = ''p'', mt_enabled = True, mt_allow_connections = False, mt_port = 0\<rparr>"

definition demo_desk_file :: "string option" where
  "demo_desk_file = Some (de_to_json demo_env \<lparr>ps_vaults = [demo_meta], ps_settings = default_settings\<rparr>)"

lemma demo_desk_loads: "load_persist demo_env demo_desk_file = \<lparr>ps_vaults = [demo_meta], ps_settings = default_settings\<rparr>"
  using demo_file_law by (simp add: demo_desk_file_def load_persist_def file_law_def)

lemma demo_desk_runs:
  obtains mg where "dk_running (desk_new demo_env mos ident demo_desk_file (\<lambda>_. shut_folder)) ''i'' = Some mg"
    and "dk_metas (desk_new demo_env mos ident demo_desk_file (\<lambda>_. shut_folder)) = [demo_meta]"
proof -
  let ?d = "desk_new demo_env mos ident demo_desk_file (\<lambda>_. shut_folder)"
  obtain s v where "open_managed demo_env (mos ''i'') ident shut_folder = (s, Ok v)" by (rule shut_folder_opens)
  then have "dk_running ?d ''i'' \<noteq> None \<and> dk_metas ?d = [demo_meta]"
    by (auto simp: desk_new_def demo_desk_loads start_all_def demo_meta_def start_managed_def dbind_def at_folder_def from_csp_def
        Let_def dret_def split: prod.split)
  then show thesis using that by blast
qed

end
