(* ===== verification/Desktop_Properties.thy ===== *)
theory Desktop_Properties
  imports Demo_Desk Cli_Properties
begin

text \<open>
  What the desktop application keeps while it works, whom it lets in, and what its status shows.
\<close>

section \<open>The application\<close>



text \<open>The files of a folder that lists no key, its lock file there already.\<close>

definition locked_keys :: fs where
  "locked_keys = \<lparr>fs_files = [(AUTHORIZED_LOCK, [])], fs_dirs = [''.context'']\<rparr>"

lemma locked_keys_text: "text_or_default AUTHORIZED_KEYS locked_keys = []"
  by (simp add: text_or_default_def read_text_def fs_read_def locked_keys_def AUTHORIZED_KEYS_def AUTHORIZED_LOCK_def)

lemma locked_keys_run:
  assumes "va_fs v = locked_keys" and "vc_no_tofu (va_config v)"
  obtains v' ok where "vault_admit_peer demo 0 (key_words demo (node_of_bytes ''B'') []) False v = (v', Ok ok)"
proof -
  have dirs: "create_dir_all CONTEXT_DIR locked_keys = (locked_keys, Ok ())"
    by (simp add: create_dir_all_def CONTEXT_DIR_def demo_names is_dir_def is_file_def locked_keys_def AUTHORIZED_LOCK_def)
  have lock: "open_or_create AUTHORIZED_LOCK locked_keys = (locked_keys, Ok ())"
    by (simp add: open_or_create_def is_file_def locked_keys_def)
  have none: "parse_file demo [] = []" by (simp add: parse_file_def)
  have "\<exists>v'. vault_admit_peer demo 0 (key_words demo (node_of_bytes ''B'') []) False v = (v', Ok False)"
    using assms by (cases "parse_ssh_pubkey demo (key_words demo (node_of_bytes ''B'') [])")
      (simp_all add: vault_admit_peer_def with_entries_def with_authorized_lock_def on_fs_def sbind_def sret_def dirs lock
        locked_keys_text none Let_def)
  then show thesis using that by blast
qed

lemma locked_keys_none:
  assumes "va_fs v = locked_keys"
  shows "vault_authorized_node_ids demo 0 v = {}"
  by (simp add: vault_authorized_node_ids_def assms read_text_def fs_read_def locked_keys_def AUTHORIZED_KEYS_def
    AUTHORIZED_LOCK_def)

text \<open>C29. No folder of the application trusts on first use: at every running folder, and at every stopped one whose accepted
  sessions still go on, a peer that shows no enrollment key is let in only when its key is listed in the folder's own files and
  has not expired, and deciding so writes the files of the keys at most.\<close>
theorem desk_admits_listed_only:
  assumes "(desk_step E)\<^sup>*\<^sup>* (desk_new E mos ident file folders) dk"
    and "distinct (map mt_id (ps_vaults (load_persist E file)))" and "file_law E"
    and "(\<exists>i mg. dk_running dk i = Some mg \<and> nd = mg_node mg) \<or> nd \<in> snd ` set (dk_detached dk)"
    and "v = nd_vault (reload s nd)" and "vault_admit_peer (de_crates E) now line False v = (v', Ok ok)"
  shows "(ok \<longrightarrow> (\<exists>node. parse_ssh_pubkey (de_crates E) line = Some node \<and> node \<in> vault_authorized_node_ids (de_crates E) now v))
    \<and> fs_except key_paths (fst s) (va_fs v')"
proof -
  have good: "desk_good E dk" by (rule desk_steps_good [OF assms(1) desk_new_good [OF assms(3,2)] assms(3)])
  then have "tofu_off nd"
    using assms(4) by (auto simp: desk_good_def desk_ok_def managed_ok_def)
  then have "vc_no_tofu (va_config v)" by (simp add: assms(5) tofu_off_def reload_def)
  with closed_vault_admits [OF assms(6)] show ?thesis by (simp add: assms(5) reload_def)
qed

lemma desk_admits_listed_only_witness:
  "\<forall>(mos :: string \<Rightarrow> moment) (ident :: identity) (d :: disk).
     \<exists>dk mg ok. (desk_step demo_env)\<^sup>*\<^sup>* (desk_new demo_env mos ident demo_desk_file (\<lambda>_. shut_folder)) dk
     \<and> dk_running dk ''i'' = Some mg
     \<and> snd (vault_admit_peer demo 0 (key_words demo (node_of_bytes ''B'') []) False (nd_vault (reload (locked_keys, d) (mg_node mg)))) = Ok ok \<and> \<not> ok"
proof (intro allI)
  fix mos :: "string \<Rightarrow> moment" and ident :: identity and d :: disk
  let ?dk = "desk_new demo_env mos ident demo_desk_file (\<lambda>_. shut_folder)"
  obtain mg where mg: "dk_running ?dk ''i'' = Some mg" by (rule demo_desk_runs)
  let ?v = "nd_vault (reload (locked_keys, d) (mg_node mg))"
  have fs: "va_fs ?v = locked_keys" by (simp add: reload_def)
  have "desk_good demo_env ?dk" by (rule desk_new_good [OF demo_file_law]) (simp add: demo_desk_loads)
  then have closed: "vc_no_tofu (va_config ?v)"
    using mg by (auto simp: desk_good_def desk_ok_def managed_ok_def tofu_off_def reload_def)
  obtain v' ok where run: "vault_admit_peer demo 0 (key_words demo (node_of_bytes ''B'') []) False ?v = (v', Ok ok)" by (rule locked_keys_run [OF fs closed])
  have start: "distinct (map mt_id (ps_vaults (load_persist demo_env demo_desk_file)))" by (simp add: demo_desk_loads)
  have at: "(\<exists>i m. dk_running ?dk i = Some m \<and> mg_node mg = mg_node m) \<or> mg_node mg \<in> snd ` set (dk_detached ?dk)"
    using mg by blast
  have crates: "de_crates demo_env = demo" by (simp add: demo_env_def)
  have "ok \<longrightarrow> (\<exists>node. parse_ssh_pubkey demo (key_words demo (node_of_bytes ''B'') []) = Some node \<and> node \<in> vault_authorized_node_ids demo 0 ?v)"
    using desk_admits_listed_only [OF rtranclp.rtrancl_refl start demo_file_law at refl,
      where now = 0 and line = "key_words demo (node_of_bytes ''B'') []" and v' = v' and ok = ok and s = "(locked_keys, d)"] run
    unfolding crates by simp
  moreover have "vault_authorized_node_ids demo 0 ?v = {}" by (rule locked_keys_none [OF fs])
  ultimately have "\<not> ok" by simp
  with mg run show "\<exists>dk mg ok. (desk_step demo_env)\<^sup>*\<^sup>* (desk_new demo_env mos ident demo_desk_file (\<lambda>_. shut_folder)) dk
       \<and> dk_running dk ''i'' = Some mg
       \<and> snd (vault_admit_peer demo 0 (key_words demo (node_of_bytes ''B'') []) False (nd_vault (reload (locked_keys, d) (mg_node mg)))) = Ok ok \<and> \<not> ok" by (intro exI [of _ ?dk] exI [of _ mg] exI [of _ ok]) simp
qed

section \<open>The status\<close>

text \<open>A folder that is not running and does not open.\<close>

definition broken :: "desk_env \<Rightarrow> moment \<Rightarrow> meta \<Rightarrow> desk \<Rightarrow> bool" where
  "broken E mo m dk \<longleftrightarrow> dk_running dk (mt_id m) = None
     \<and> (\<exists>s e. vault_open (de_crates E) (de_codec E) (mo_listing mo) (dk_identity dk) (dk_folders dk (mt_path m)) = (s, Err e))"

lemma parts_run:
  "\<exists>d main counts l c. status_parts E mo m dk = (d, Ok ((main, counts), l, c)) \<and> (broken E mo m dk \<longrightarrow> main = None)"
proof (cases "dk_running dk (mt_id m)")
  case (Some mg)
  then show ?thesis
    by (cases "shown_counts E mo (nd_vault (reload (dk_folders dk (mg_path mg)) (mg_node mg)))")
      (simp add: status_parts_def broken_def)
next
  case None
  obtain s r where run: "vault_open (de_crates E) (de_codec E) (mo_listing mo) (dk_identity dk) (dk_folders dk (mt_path m)) = (s, r)"
    by fastforce
  show ?thesis
  proof (cases r)
    case (Inl x)
    with None run show ?thesis by (simp add: status_parts_def broken_def at_folder_def from_csp_def)
  next
    case (Inr v)
    with None run show ?thesis
      by (cases "shown_counts E mo v") (simp add: status_parts_def broken_def at_folder_def from_csp_def)
  qed
qed

lemma status_run:
  "\<exists>d st main. status_of E mo m dk = (d, Ok st) \<and> vs_id st = mt_id m \<and> vs_state st = state_of (mt_enabled m) main
     \<and> (broken E mo m dk \<longrightarrow> main = None)"
proof -
  obtain d main counts l c where parts: "status_parts E mo m dk = (d, Ok ((main, counts), l, c))" "broken E mo m dk \<longrightarrow> main = None"
    using parts_run by blast
  obtain k f a where "counts = (k, f, a)" by (cases counts) auto
  with parts show ?thesis
    by (cases "at_folder (mt_path m) (vault_open (de_crates E) (de_codec E) (mo_listing mo) (dk_identity d)) d")
      (auto simp: status_of_def dbind_def dattempt_def dret_def)
qed

lemma state_of_simps [simp]:
  "state_of on main \<noteq> Failed" "state_of on main = Disabled \<longleftrightarrow> \<not> on" "on \<Longrightarrow> state_of on None = Idle"
  by (simp_all add: state_of_def)

lemma tally_run:
  assumes "ta_active ta > 0 \<longrightarrow> ta_any_enabled ta"
  shows "\<exists>d ta'. tally_all E mo ms ta dk = (d, Ok ta') \<and> ta_error ta' = ta_error ta
    \<and> (ta_any_enabled ta' \<longleftrightarrow> ta_any_enabled ta \<or> (\<exists>m \<in> set ms. mt_enabled m)) \<and> (ta_active ta' > 0 \<longrightarrow> ta_any_enabled ta')"
  using assms
proof (induction ms arbitrary: ta dk)
  case Nil
  then show ?case by (simp add: dret_def)
next
  case (Cons m ms)
  obtain d st main where st: "status_of E mo m dk = (d, Ok st)" "vs_state st = state_of (mt_enabled m) main"
    using status_run by blast
  let ?ta = "tally_state (vs_state st) ta"
  have step: "ta_error ?ta = ta_error ta" "ta_any_enabled ?ta \<longleftrightarrow> ta_any_enabled ta \<or> mt_enabled m"
    "ta_active ?ta > 0 \<longrightarrow> ta_any_enabled ?ta"
    using Cons.prems by (simp_all add: tally_state_def st(2) state_of_def)
  from Cons.IH [OF step(3), of d] st(1) step(1,2) show ?case by (auto simp: dbind_def)
qed

text \<open>The status never shows a failure: the status of a folder is always given, and it is disabled exactly when the entry is;
  an enabled folder that is not running because it does not open shows as idle, not as failed. So the status of all
  counts no failure, and is disabled exactly when no entry is enabled.\<close>
theorem status_hides_failures:
  "(\<exists>ag. snd (get_aggregate_status E mo dk) = Ok ag \<and> ag_error_count ag = 0 \<and> ag_state ag \<noteq> Failed
      \<and> ag_vault_count ag = of_nat (length (dk_metas dk))
      \<and> (ag_state ag = Disabled \<longleftrightarrow> (\<forall>m \<in> set (dk_metas dk). \<not> mt_enabled m)))
    \<and> (case meta_of i dk of
         Inl e \<Rightarrow> snd (get_status E mo i dk) = Err e
       | Inr m \<Rightarrow> (\<exists>st. snd (get_status E mo i dk) = Ok st \<and> vs_id st = i \<and> vs_state st \<noteq> Failed
           \<and> (vs_state st = Disabled \<longleftrightarrow> \<not> mt_enabled m)
           \<and> (mt_enabled m \<and> broken E mo m dk \<longrightarrow> vs_state st = Idle)))"
proof
  obtain d ta where ta: "tally_all E mo (dk_metas dk) \<lparr>ta_active = 0, ta_error = 0, ta_any_enabled = False\<rparr> dk = (d, Ok ta)"
    "ta_error ta = 0" "ta_any_enabled ta \<longleftrightarrow> (\<exists>m \<in> set (dk_metas dk). mt_enabled m)" "ta_active ta > 0 \<longrightarrow> ta_any_enabled ta"
    using tally_run [of "\<lparr>ta_active = 0, ta_error = 0, ta_any_enabled = False\<rparr>" E mo "dk_metas dk" dk] by auto
  then show "\<exists>ag. snd (get_aggregate_status E mo dk) = Ok ag \<and> ag_error_count ag = 0 \<and> ag_state ag \<noteq> Failed
      \<and> ag_vault_count ag = of_nat (length (dk_metas dk))
      \<and> (ag_state ag = Disabled \<longleftrightarrow> (\<forall>m \<in> set (dk_metas dk). \<not> mt_enabled m))"
    by (auto simp: get_aggregate_status_def dbind_def dret_def aggregate_state_def)
  show "case meta_of i dk of
         Inl e \<Rightarrow> snd (get_status E mo i dk) = Err e
       | Inr m \<Rightarrow> (\<exists>st. snd (get_status E mo i dk) = Ok st \<and> vs_id st = i \<and> vs_state st \<noteq> Failed
           \<and> (vs_state st = Disabled \<longleftrightarrow> \<not> mt_enabled m)
           \<and> (mt_enabled m \<and> broken E mo m dk \<longrightarrow> vs_state st = Idle))"
  proof (cases "meta_of i dk")
    case (Inr m)
    then have "mt_id m = i" using meta_at_Some by (simp add: meta_of_Ok)
    moreover obtain d st main where "status_of E mo m dk = (d, Ok st)" "vs_id st = mt_id m"
      "vs_state st = state_of (mt_enabled m) main" "broken E mo m dk \<longrightarrow> main = None"
      using status_run by blast
    ultimately show ?thesis using Inr by (auto simp: get_status_def dbind_def dread_def)
  qed (simp add: get_status_def dbind_def dread_def)
qed

lemma status_hides_failures_witness:
  "\<forall>(mos :: string \<Rightarrow> moment) (ident :: identity) (mo :: moment).
     \<exists>dk m st. dk = desk_new demo_env mos ident demo_desk_file (\<lambda>_. (\<lparr>fs_files = [], fs_dirs = []\<rparr>, disk_none))
     \<and> meta_of ''i'' dk = Ok m \<and> mt_enabled m \<and> snd (get_status demo_env mo ''i'' dk) = Ok st \<and> vs_state st = Idle"
proof (intro allI)
  fix mos :: "string \<Rightarrow> moment" and ident :: identity and mo :: moment
  let ?s = "(\<lparr>fs_files = [], fs_dirs = []\<rparr>, disk_none)"
  let ?dk = "desk_new demo_env mos ident demo_desk_file (\<lambda>_. ?s)"
  have shut: "vault_open C J listing who ?s = (?s, Err (Io ''no engine repo''))" for C J listing who
    by (simp add: vault_open_def sbind_def sread_def repo_open_def disk_open_def disk_none_def)
  moreover have "(\<lambda>_. ?s)(p := ?s) = (\<lambda>_. ?s)" for p :: string by (rule ext) simp
  ultimately have "?dk = \<lparr>dk_identity = ident, dk_file = demo_desk_file, dk_folders = \<lambda>_. ?s, dk_metas = [demo_meta],
      dk_settings = default_settings, dk_running = Map.empty, dk_detached = []\<rparr>"
    by (simp add: desk_new_def demo_desk_loads start_all_def start_managed_def dbind_def at_folder_def from_csp_def open_managed_def
      sbind_def demo_meta_def Let_def)
  then have m: "meta_of ''i'' ?dk = Ok demo_meta" "broken demo_env mo demo_meta ?dk" "mt_enabled demo_meta"
    using shut by (simp_all add: meta_of_def demo_meta_def broken_def)
  from status_hides_failures [of demo_env mo ?dk "''i''"] m show "\<exists>dk m st. dk = desk_new demo_env mos ident demo_desk_file (\<lambda>_. (\<lparr>fs_files = [], fs_dirs = []\<rparr>, disk_none))
       \<and> meta_of ''i'' dk = Ok m \<and> mt_enabled m \<and> snd (get_status demo_env mo ''i'' dk) = Ok st \<and> vs_state st = Idle" by auto
qed

end
