(* ===== verification/Ctx.thy ===== *)
theory Ctx
  imports Cli Messages Tls
begin

text \<open>
  The program ctx as a whole (\<open>main.rs\<close>, \<open>cli.rs\<close> of crates/ctx): its subcommands, what each does to the device's own
  files and to the folder it works on, the daemon, and the exit code. What a command prints is its result; clap's parser
  stands before it. The surroundings of a run (clocks, identifiers, the agent, the probed listener, git, the
  network while the daemon runs) are an argument.
\<close>

section \<open>The subcommands\<close>

datatype auth_action = AuthList bool | AuthExtend string string | AuthMigrate
datatype scope_action = ScopeIgnore string | ScopeInclude string

datatype ctx_cmd =
    CmdInit "string option" "string option" "string option" bool
  | CmdClone string "string option" bool
  | CmdWatch "string list" bool
  | CmdKey
  | CmdAuthorize string "string option"
  | CmdRevoke string
  | CmdAuth auth_action
  | CmdStatus bool
  | CmdSnapshot string
  | CmdRestore string
  | CmdLog bool "string list"
  | CmdGit "string list"
  | CmdScope bool "scope_action option"
  | CmdCompletions string

text \<open>What is printed: only what depends on the state.\<close>

datatype ctx_output =
    Finished
  | KeyShown string string
  | KeysShown "(string option \<times> string \<times> string \<times> string option \<times> u64 option) list"
  | Changed nat
  | StatusShown vault_config "string \<times> string list \<times> nat \<times> nat"
  | ScopeShown "string list \<times> string list"
  | LogShown "(string \<times> string \<times> string \<times> string) list" int
  | GitExit int

section \<open>The surroundings of a run\<close>

text \<open>
  \<open>su_before\<close> and the lists after it are what happens at the daemon's node before its first commit, between its commits and
  after its last one. \<open>su_address\<close> parses the address to listen at, with the port to use instead; \<open>su_serve\<close> is whether it can
  be bound.
\<close>

record surroundings =
  su_crates :: crates
  su_codec :: codec
  su_outside :: outside
  su_fresh :: bytes
  su_now :: u64
  su_wall :: u64
  su_listing :: "oid list"
  su_uuid :: string
  su_probe :: "identity \<Rightarrow> string \<Rightarrow> string option \<Rightarrow> (string \<times> string \<times> string) res"
  su_git :: "string list \<Rightarrow> fs \<times> disk \<Rightarrow> (int \<times> bytes) res"
  su_before :: "event list"
  su_between :: "event list"
  su_after :: "event list"
  su_cert :: "(bytes \<times> bytes) res"
  su_server_config :: "bytes \<Rightarrow> bytes \<Rightarrow> unit res"
  su_address :: "string \<Rightarrow> 16 word option \<Rightarrow> unit res"
  su_serve :: "unit res"

text \<open>The device: its own files, and the folders by their paths.\<close>

record host =
  ho_dev :: fs
  ho_folders :: "string \<Rightarrow> fs \<times> disk"

definition on_dev :: "(fs, 'a) seff \<Rightarrow> (host, 'a) seff" where
  "on_dev m h = (case m (ho_dev h) of (t, r) \<Rightarrow> (h\<lparr>ho_dev := t\<rparr>, r))"

definition in_folder :: "string \<Rightarrow> (fs \<Rightarrow> (fs \<times> disk, 'a) seff) \<Rightarrow> (host, 'a) seff" where
  "in_folder p m h =
     (case m (ho_dev h) (ho_folders h p) of (s, r) \<Rightarrow> (h\<lparr>ho_folders := (ho_folders h)(p := s)\<rparr>, r))"

definition own_identity :: "surroundings \<Rightarrow> cli_options \<Rightarrow> (host, identity) seff" where
  "own_identity E cli = on_dev (device_identity (su_crates E) (su_outside E) (su_fresh E) cli)"

text \<open>A command on the opened vault of a folder.\<close>

definition at_vault :: "surroundings \<Rightarrow> cli_options \<Rightarrow> string \<Rightarrow> (vault, 'a) seff \<Rightarrow> (host, 'a) seff" where
  "at_vault E cli root m =
     sbind (own_identity E cli) (\<lambda>ident.
       in_folder root (\<lambda>_. opened (su_crates E) (su_codec E) (su_listing E) ident m))"

section \<open>The daemon\<close>

text \<open>Listening: the address is parsed, the certificate loaded or made, and the port bound.\<close>

definition serve_setup :: "surroundings \<Rightarrow> cli_options \<Rightarrow> (vault, unit) seff" where
  "serve_setup E cli = (\<lambda>v.
     case watch_listen cli (va_config v) of
       None \<Rightarrow> (v, Ok ())
     | Some addr \<Rightarrow>
         sbind (with_context ''parse listen addr'' (sread (\<lambda>_. su_address E addr (cl_port cli)))) (\<lambda>_.
         sbind (if watch_no_tls cli (va_config v) then sret ()
                else sbind (on_fs (tls_load_or_generate (su_cert E))) (\<lambda>(cert, key).
                       sread (\<lambda>_. su_server_config E cert key))) (\<lambda>_.
           sread (\<lambda>_. su_serve E))) v)"

definition daemon_events :: "surroundings \<Rightarrow> bool \<Rightarrow> event list" where
  "daemon_events E once =
     su_before E @ [CommitNow (su_now E) (su_wall E)] @
     (if once then su_between E @ [CommitNow (su_now E) (su_wall E)] else []) @ su_after E"

definition daemon_turns :: "surroundings \<Rightarrow> event list \<Rightarrow> vault \<Rightarrow> vault" where
  "daemon_turns E evs v = nd_vault (foldl (net_step (su_crates E) (su_codec E)) (node_new v) evs)"

definition watch_run :: "surroundings \<Rightarrow> cli_options \<Rightarrow> bool \<Rightarrow> identity \<Rightarrow> fs \<Rightarrow> (fs \<times> disk, unit) seff" where
  "watch_run E cli once ident dev =
     sbind (with_context ''open vault (run `ctx init`?)'' (vault_open (su_crates E) (su_codec E) (su_listing E) ident))
       (on_vault (
         sbind (watch_setup (su_crates E) (su_now E) dev cli) (\<lambda>_.
         sbind (serve_setup E cli) (\<lambda>_.
           smodify (daemon_turns E (daemon_events E once))))))"

section \<open>The commands that make a vault\<close>

definition run_init ::
  "surroundings \<Rightarrow> cli_options \<Rightarrow> string \<Rightarrow> string option \<Rightarrow> string option \<Rightarrow> bool \<Rightarrow> (host, ctx_output) seff"
where
  "run_init E cli root vault_id name watch =
     sbind (own_identity E cli) (\<lambda>ident.
     let vid = (case vault_id of None \<Rightarrow> su_uuid E | Some v \<Rightarrow> v);
         nm = (case name of None \<Rightarrow> derive_name (ou_env (su_outside E)) root | Some n \<Rightarrow> n)
     in sbind (in_folder root (\<lambda>dev. cmd_init (su_crates E) (su_codec E) root ident vid nm dev cli)) (\<lambda>_.
        if watch
        then sbind (own_identity E cli) (\<lambda>ident. sbind (in_folder root (watch_run E cli False ident)) (\<lambda>_. sret Finished))
        else sret Finished))"

text \<open>The bounded catch-up of a clone: the vault is opened again, synchronized for a while and materialized.\<close>

definition catch_up :: "surroundings \<Rightarrow> identity \<Rightarrow> (fs \<times> disk, unit) seff" where
  "catch_up E ident =
     sbind (vault_open (su_crates E) (su_codec E) (su_listing E) ident) (\<lambda>v s.
       let w = fst (vault_materialize (su_crates E) (su_codec E) (daemon_turns E (su_after E) v))
       in ((va_fs w, va_git w), Ok ()))"

definition run_clone ::
  "surroundings \<Rightarrow> cli_options \<Rightarrow> string \<Rightarrow> string \<Rightarrow> string option \<Rightarrow> bool \<Rightarrow> (host, ctx_output) seff"
where
  "run_clone E cli root url into watch =
     sbind (own_identity E cli) (\<lambda>ident.
     sbind (with_context ''probe listener for vault id'' (sread (\<lambda>_. su_probe E ident url (client_auth_key cli)))) (\<lambda>probed.
     let target = clone_target root into (fst probed) (fst (snd probed))
     in sbind (sread (\<lambda>h. clone_allowed (fst (ho_folders h target)) target into (fst probed))) (\<lambda>_.
        sbind (in_folder target (\<lambda>dev. cmd_clone (su_crates E) (su_codec E) target ident probed url dev cli)) (\<lambda>_.
        sbind (in_folder target (if watch then watch_run E cli False ident else (\<lambda>_. catch_up E ident))) (\<lambda>_.
          sret Finished)))))"

section \<open>The program\<close>

definition git_dir_of :: "string \<Rightarrow> string" where
  "git_dir_of root = path_join root ''.context/git''"

text \<open>git is run with the arguments that the guard lets through.\<close>

definition run_git :: "surroundings \<Rightarrow> string \<Rightarrow> string list \<Rightarrow> (host, int \<times> bytes) seff" where
  "run_git E root args =
     sread (\<lambda>h.
       case git_command (git_dir_of root) root args of
         Inl r \<Rightarrow> Err (OtherErr (refusal_text r))
       | Inr line \<Rightarrow> su_git E line (ho_folders h root))"

definition log_format :: string where
  "log_format = ''--pretty=format:%H'' @ [CHR 0x1F] @ ''%an'' @ [CHR 0x1F] @ ''%aI'' @ [CHR 0x1F] @ ''%s'' @ [CHR 0x1E]"

definition run_ctx :: "surroundings \<Rightarrow> cli_options \<Rightarrow> string \<Rightarrow> ctx_cmd \<Rightarrow> (host, ctx_output) seff" where
  "run_ctx E cli cwd cmd =
     (let C = su_crates E; J = su_codec E; now = su_now E; wall = su_wall E; root = root_dir cli cwd
      in case cmd of
           CmdInit path vault_id name watch \<Rightarrow>
             run_init E cli (case path of None \<Rightarrow> root | Some p \<Rightarrow> p) vault_id name watch
         | CmdKey \<Rightarrow>
             sbind (on_dev (load_or_create C (su_outside E) (su_fresh E) (cl_identity cli))) (\<lambda>(signer, path).
               sret (KeyShown (signer_ssh_string C signer) path))
         | CmdAuthorize pubkey ttl \<Rightarrow> sbind (at_vault E cli root (cmd_authorize C cli now pubkey ttl)) (\<lambda>_. sret Finished)
         | CmdRevoke pubkey \<Rightarrow> sbind (at_vault E cli root (revoke C pubkey)) (\<lambda>_. sret Finished)
         | CmdAuth (AuthList json) \<Rightarrow>
             sbind (at_vault E cli root (sread (\<lambda>v. Ok (cmd_auth_list C now v)))) (\<lambda>ks. sret (KeysShown ks))
         | CmdAuth (AuthExtend target duration) \<Rightarrow>
             sbind (at_vault E cli root (cmd_auth_extend C now target duration)) (\<lambda>n. sret (Changed n))
         | CmdAuth AuthMigrate \<Rightarrow> sbind (at_vault E cli root (migrate_default_expiry C now)) (\<lambda>n. sret (Changed n))
         | CmdStatus json \<Rightarrow>
             sbind (at_vault E cli root (sread (\<lambda>v. rbind (cmd_status C now v) (\<lambda>s. Ok (va_config v, s))))) (\<lambda>(cfg, s).
               sret (StatusShown cfg s))
         | CmdSnapshot name \<Rightarrow> sbind (at_vault E cli root (vault_snapshot C J now name)) (\<lambda>_. sret Finished)
         | CmdRestore target \<Rightarrow> sbind (at_vault E cli root (cmd_restore C J now wall target)) (\<lambda>_. sret Finished)
         | CmdLog json args \<Rightarrow>
             if json
             then sbind (run_git E root [''log'', log_format]) (\<lambda>(code, out).
                    sret (LogShown (log_records (from_utf8_lossy out)) code))
             else sbind (run_git E root (''log'' # args)) (\<lambda>(code, _). sret (GitExit code))
         | CmdGit args \<Rightarrow> sbind (run_git E root args) (\<lambda>(code, _). sret (GitExit code))
         | CmdScope json None \<Rightarrow> sbind (at_vault E cli root (sread (\<lambda>v. Ok (scope_summary v)))) (\<lambda>s. sret (ScopeShown s))
         | CmdScope json (Some (ScopeIgnore pattern)) \<Rightarrow> sbind (at_vault E cli root (add_ignore_pattern pattern)) (\<lambda>_. sret Finished)
         | CmdScope json (Some (ScopeInclude pattern)) \<Rightarrow> sbind (at_vault E cli root (add_include_pattern pattern)) (\<lambda>_. sret Finished)
         | CmdCompletions shell \<Rightarrow> sret Finished
         | CmdClone url into watch \<Rightarrow> run_clone E cli root url into watch
         | CmdWatch peers once \<Rightarrow>
             sbind (own_identity E cli) (\<lambda>ident. sbind (in_folder root (watch_run E cli once ident)) (\<lambda>_. sret Finished)))"

text \<open>The exit code: 3 when the error mentions that a vault was to be opened, 1 for any other, 101 for a panic; a run that does
  not end has none.\<close>

fun exit_code :: "ctx_output res \<Rightarrow> int option" where
  "exit_code (Inr (GitExit n)) = Some n"
| "exit_code (Inr (LogShown records n)) = Some n"
| "exit_code (Inr _) = Some 0"
| "exit_code (Inl (Panic s)) = Some 101"
| "exit_code (Inl Diverge) = None"
| "exit_code (Inl e) = Some (if str_contains ''open vault'' (display_error e) then 3 else 1)"

end
