(* ===== verification/Ctx_Facts.thy ===== *)
theory Ctx_Facts
  imports Ctx Cli_Facts
begin

text \<open>
  What a run of ctx can change, by the calls it is made of, and what it does where there is no vault.
\<close>

section \<open>Where a run writes\<close>

definition confined :: "string \<Rightarrow> string set \<Rightarrow> host \<Rightarrow> host \<Rightarrow> bool" where
  "confined key P h h' \<longleftrightarrow> fs_except {key} (ho_dev h) (ho_dev h') \<and> (\<forall>p. p \<notin> P \<longrightarrow> ho_folders h' p = ho_folders h p)"

lemma confined_refl: "reflp (confined key P)"
  by (simp add: reflp_def confined_def fs_except_def)

lemma confined_trans: "transp (confined key P)"
  by (auto simp: transp_def confined_def fs_except_def)

lemma keeps_sbind_result:
  assumes "transp R" and "keeps R m" and "\<And>s t x. m s = (t, Ok x) \<Longrightarrow> keeps R (f x)"
  shows "keeps R (sbind m f)"
  unfolding keeps_def
proof
  fix s
  obtain t r where m: "m s = (t, r)" by fastforce
  then have "R s t" using keepsD2 [OF assms(2)] by simp
  show "R s (fst (sbind m f s))"
  proof (cases r)
    case (Inr x)
    then have "R t (fst (f x t))" using keepsD [OF assms(3)] m by simp
    then show ?thesis using transpD [OF assms(1) \<open>R s t\<close>] m Inr by (simp add: sbind_def)
  qed (use m \<open>R s t\<close> in \<open>simp add: sbind_def\<close>)
qed

definition key_file :: "surroundings \<Rightarrow> cli_options \<Rightarrow> string" where
  "key_file E cli = (case cl_identity cli of None \<Rightarrow> default_path (ou_env (su_outside E)) | Some p \<Rightarrow> p)"

lemma confined_in_folder: "p \<in> P \<Longrightarrow> keeps (confined key P) (in_folder p m)"
  by (auto simp: keeps_def confined_def in_folder_def fs_except_def split: prod.split)

lemma except_load: "fs_except {key_file E cli} t (fst (load_or_create C (su_outside E) fresh (cl_identity cli) t))"
proof -
  let ?p = "key_file E cli"
  define u where "u = fst (create_dir_all (parent_path ?p) t)"
  have u: "fs_except {?p} t u" unfolding u_def by (rule except_create_dir_all)
  have "fs_except {?p} u (fst (fs_write ?p (c_hexenc C fresh) u))" by (rule except_fs_write)
  with u have w: "fs_except {?p} t (fst (fs_write ?p (c_hexenc C fresh) u))" by (simp add: fs_except_def)
  have path: "(case cl_identity cli of None \<Rightarrow> default_path (ou_env (su_outside E)) | Some p \<Rightarrow> p) = ?p"
    by (simp add: key_file_def)
  have t: "fs_except {?p} t t" by (simp add: fs_except_def)
  show ?thesis
    using u w t by (auto simp: load_or_create_def Let_def path u_def sbind_def sret_def split: prod.splits sum.splits)
qed

lemma confined_on_dev: "(\<And>t. fs_except {key} t (fst (m t))) \<Longrightarrow> keeps (confined key P) (on_dev m)"
  by (auto simp: keeps_def confined_def on_dev_def split: prod.split) (metis fst_conv)

lemma confined_load: "keeps (confined (key_file E cli) P) (on_dev (load_or_create C (su_outside E) fresh (cl_identity cli)))"
  by (rule confined_on_dev [OF except_load])

lemma confined_identity: "keeps (confined (key_file E cli) P) (own_identity E cli)"
proof -
  have "fs_except {key_file E cli} t (fst (device_identity C (su_outside E) fresh cli t))" for C fresh t
    using except_load [of E cli t C fresh]
    by (auto simp: device_identity_def sbind_def sread_def split: prod.splits sum.splits)
  then show ?thesis unfolding own_identity_def by (intro confined_on_dev)
qed

lemmas confined_rules = keeps_sbind [OF confined_trans] keeps_sread [OF confined_refl] keeps_sret [OF confined_refl]
  confined_identity confined_load confined_in_folder

lemma confined_at_vault: "root \<in> P \<Longrightarrow> keeps (confined (key_file E cli) P) (at_vault E cli root m)"
  unfolding at_vault_def by (intro confined_rules)

text \<open>The folder that a command works on.\<close>

definition ctx_targets :: "surroundings \<Rightarrow> cli_options \<Rightarrow> string \<Rightarrow> ctx_cmd \<Rightarrow> string set" where
  "ctx_targets E cli cwd cmd =
     (case cmd of
        CmdInit (Some p) vault_id name watch \<Rightarrow> {p}
      | CmdClone url into watch \<Rightarrow>
          {clone_target (root_dir cli cwd) into vid name | vid name ssh ident.
             su_probe E ident url (client_auth_key cli) = Ok (vid, name, ssh)}
      | _ \<Rightarrow> {root_dir cli cwd})"

lemma confined_init: "root \<in> P \<Longrightarrow> keeps (confined (key_file E cli) P) (run_init E cli root vault_id name watch)"
  unfolding run_init_def Let_def by (auto intro!: confined_rules)

lemma confined_clone:
  assumes "P = {clone_target root into vid name | vid name ssh ident.
             su_probe E ident url (client_auth_key cli) = Ok (vid, name, ssh)}"
  shows "keeps (confined (key_file E cli) P) (run_clone E cli root url into watch)"
  unfolding run_clone_def
proof (rule keeps_sbind [OF confined_trans confined_identity])
  fix ident
  show "keeps (confined (key_file E cli) P)
     (sbind (with_context ''probe listener for vault id'' (sread (\<lambda>_. su_probe E ident url (client_auth_key cli)))) (\<lambda>probed.
     let target = clone_target root into (fst probed) (fst (snd probed))
     in sbind (sread (\<lambda>h. clone_allowed (fst (ho_folders h target)) target into (fst probed))) (\<lambda>_.
        sbind (in_folder target (\<lambda>dev. cmd_clone (su_crates E) (su_codec E) target ident probed url dev cli)) (\<lambda>_.
        sbind (in_folder target (if watch then watch_run E cli False ident else (\<lambda>_. catch_up E ident))) (\<lambda>_.
          sret Finished)))))"
  proof (rule keeps_sbind_result [OF confined_trans keeps_with_context [OF keeps_sread [OF confined_refl]]])
    fix s t :: host and probed
    assume "with_context ''probe listener for vault id'' (sread (\<lambda>_. su_probe E ident url (client_auth_key cli))) s = (t, Ok probed)"
    then have "su_probe E ident url (client_auth_key cli) = Ok probed" by (simp add: sread_def)
    then have "clone_target root into (fst probed) (fst (snd probed)) \<in> P"
      unfolding assms by (cases probed) auto
    then show "keeps (confined (key_file E cli) P)
       (let target = clone_target root into (fst probed) (fst (snd probed))
        in sbind (sread (\<lambda>h. clone_allowed (fst (ho_folders h target)) target into (fst probed))) (\<lambda>_.
           sbind (in_folder target (\<lambda>dev. cmd_clone (su_crates E) (su_codec E) target ident probed url dev cli)) (\<lambda>_.
           sbind (in_folder target (if watch then watch_run E cli False ident else (\<lambda>_. catch_up E ident))) (\<lambda>_.
             sret Finished))))"
      unfolding Let_def by (intro confined_rules)
  qed
qed

lemma confined_run: "keeps (confined (key_file E cli) (ctx_targets E cli cwd cmd)) (run_ctx E cli cwd cmd)"
proof (cases cmd)
  case (CmdInit path vault_id name watch)
  then show ?thesis by (cases path) (auto simp: run_ctx_def ctx_targets_def intro!: confined_init)
next
  case (CmdClone url into watch)
  then show ?thesis by (auto simp: run_ctx_def ctx_targets_def intro!: confined_clone)
next
  case (CmdAuth action)
  then show ?thesis
    by (cases action) (auto simp: run_ctx_def ctx_targets_def intro!: confined_rules confined_at_vault)
next
  case (CmdScope json action)
  then show ?thesis
    by (cases action; cases "the action") (auto simp: run_ctx_def ctx_targets_def intro!: confined_rules confined_at_vault)
qed (auto simp: run_ctx_def ctx_targets_def run_git_def Let_def intro!: confined_rules confined_at_vault split: prod.split)

section \<open>Commands that only look\<close>

definition state_files :: "string set" where
  "state_files = {STATE_LOCK, with_extension ''tmp'' STATE_FILE, STATE_FILE}"

lemma except_state_save: "fs_except state_files t (fst (state_save J st t))"
proof -
  have "keeps (fs_except state_files) (open_or_create STATE_LOCK)"
    unfolding keeps_def by (intro allI fs_except_mono [OF except_open_or_create]) (simp add: state_files_def)
  moreover have "keeps (fs_except state_files) (write_atomic (with_extension ''tmp'' STATE_FILE) STATE_FILE b)" for b
    unfolding keeps_def by (intro allI fs_except_mono [OF except_write_atomic]) (simp add: state_files_def)
  ultimately have "keeps (fs_except state_files) (state_save J st)"
    unfolding state_save_def by (intro keeps_sbind [OF fs_except_trans] keeps_sread [OF fs_except_refl])
  then show ?thesis by (rule keepsD)
qed

text \<open>A folder whose repository stays, and of whose files only those of the engine's state change.\<close>

definition looked_at :: "fs \<times> disk \<Rightarrow> fs \<times> disk \<Rightarrow> bool" where
  "looked_at s s' \<longleftrightarrow> snd s' = snd s \<and> fs_except state_files (fst s) (fst s')"

lemma looked_at_open:
  assumes "vault_open C J listing ident s = (s', r)"
  shows "looked_at s s'" and "r = Ok v \<Longrightarrow> s' = (va_fs v, va_git v)"
proof -
  obtain t d where s: "s = (t, d)" by fastforce
  have here: "looked_at s s" by (simp add: looked_at_def fs_except_def)
  have "keeps looked_at (on_fst (state_save J st))" for st :: engine_state
    using except_state_save [of _ J st]
    by (auto simp: keeps_def on_fst_def looked_at_def split: prod.split) (metis fst_conv)
  then have save: "looked_at s (fst (on_fst (state_save J st) s))" for st by (rule keepsD)
  show "looked_at s s'"
    using assms here save unfolding vault_open_def
    by (auto simp: sbind_def sread_def split: prod.splits sum.splits) (metis fst_conv)+
  show "s' = (va_fs v, va_git v)" if "r = Ok v"
    using assms that s by (auto elim!: vault_open_Ok)
qed

lemma looked_at_opened:
  assumes "\<And>v. fst (m v) = v"
  shows "looked_at s (fst (opened C J listing ident m s))"
proof -
  obtain s' r where run: "vault_open C J listing ident s = (s', r)" by fastforce
  show ?thesis
  proof (cases r)
    case (Inl e)
    with run looked_at_open(1) [OF run] show ?thesis by (simp add: opened_def sbind_def with_context_def)
  next
    case (Inr v)
    obtain r' where m: "m v = (v, r')" using assms [of v] by (cases "m v") auto
    with Inr run looked_at_open(1) [OF run] looked_at_open(2) [OF run Inr] show ?thesis
      by (simp add: opened_def sbind_def with_context_def on_vault_def)
  qed
qed

definition looks :: "ctx_cmd \<Rightarrow> bool" where
  "looks cmd \<longleftrightarrow>
     (case cmd of
        CmdKey \<Rightarrow> True
      | CmdAuth (AuthList json) \<Rightarrow> True
      | CmdStatus json \<Rightarrow> True
      | CmdLog json args \<Rightarrow> True
      | CmdGit args \<Rightarrow> True
      | CmdScope json None \<Rightarrow> True
      | CmdCompletions shell \<Rightarrow> True
      | _ \<Rightarrow> False)"

definition host_looked :: "host \<Rightarrow> host \<Rightarrow> bool" where
  "host_looked h h' \<longleftrightarrow> (\<forall>p. looked_at (ho_folders h p) (ho_folders h' p))"

lemma host_looked_refl: "reflp host_looked"
  by (simp add: reflp_def host_looked_def looked_at_def fs_except_def)

lemma host_looked_trans: "transp host_looked"
  by (auto simp: transp_def host_looked_def looked_at_def fs_except_def)

lemma looked_on_dev: "keeps host_looked (on_dev m)"
  by (simp add: keeps_def host_looked_def on_dev_def looked_at_def fs_except_def split: prod.split)

lemma looked_at_vault: "(\<And>v. fst (m v) = v) \<Longrightarrow> keeps host_looked (at_vault E cli root m)"
  unfolding at_vault_def own_identity_def
proof (intro keeps_sbind [OF host_looked_trans] looked_on_dev)
  fix ident
  assume m: "\<And>v. fst (m v) = v"
  let ?m = "opened (su_crates E) (su_codec E) (su_listing E) ident m"
  have "looked_at s (fst (?m s))" for s by (rule looked_at_opened [OF m])
  moreover have "looked_at s s" for s by (simp add: looked_at_def fs_except_def)
  ultimately show "keeps host_looked (in_folder root (\<lambda>_. ?m))"
    by (simp add: keeps_def host_looked_def in_folder_def split_beta)
qed

lemmas looked_rules = keeps_sbind [OF host_looked_trans] keeps_sread [OF host_looked_refl] keeps_sret [OF host_looked_refl]
  looked_on_dev

lemma looks_only:
  assumes "looks cmd"
  shows "keeps host_looked (run_ctx E cli cwd cmd)"
proof (cases cmd)
  case (CmdAuth action)
  with assms show ?thesis
    by (cases action) (auto simp: looks_def run_ctx_def sread_def intro!: looked_rules looked_at_vault)
next
  case (CmdScope json action)
  with assms show ?thesis
    by (cases action) (auto simp: looks_def run_ctx_def sread_def intro!: looked_rules looked_at_vault)
next
  case (CmdStatus json)
  then show ?thesis by (auto simp: run_ctx_def sread_def intro!: looked_rules looked_at_vault split: prod.split)
qed (use assms in \<open>auto simp: looks_def run_ctx_def run_git_def Let_def intro!: looked_rules split: prod.split\<close>)

section \<open>Exit codes\<close>

lemma contains_middle: "str_contains p (a @ p @ b)"
proof (induction a)
  case Nil
  have "starts_with p (p @ b)" by (simp add: starts_with_def)
  then show ?case by (cases "p @ b") auto
qed simp

lemma contains_start: "str_contains p (p @ b)"
  using contains_middle [of p "[]" b] by (simp only: append_Nil)

lemma contains_split: "str_contains p s \<Longrightarrow> \<exists>a b. s = a @ p @ b"
proof (induction s)
  case Nil
  then show ?case by simp
next
  case (Cons x s)
  show ?case
  proof (cases "starts_with p (x # s)")
    case True
    then obtain t where "strip_prefix p (x # s) = Some t" by (auto simp: starts_with_def)
    then have "x # s = [] @ p @ t" using strip_prefix_Some by fastforce
    then show ?thesis by blast
  next
    case False
    with Cons obtain a b where "s = a @ p @ b" by auto
    then have "x # s = (x # a) @ p @ b" by simp
    then show ?thesis by blast
  qed
qed

lemma contains_around: "str_contains p t \<Longrightarrow> str_contains p (a @ t @ b)"
  using contains_split [of p t] contains_middle [of p "a @ _" "_ @ b"] by force

text \<open>The commands that open the vault of the folder they work on.\<close>

definition opens_vault :: "ctx_cmd \<Rightarrow> bool" where
  "opens_vault cmd \<longleftrightarrow>
     (case cmd of
        CmdInit path vault_id name watch \<Rightarrow> False
      | CmdClone url into watch \<Rightarrow> False
      | CmdKey \<Rightarrow> False
      | CmdLog json args \<Rightarrow> False
      | CmdGit args \<Rightarrow> False
      | CmdCompletions shell \<Rightarrow> False
      | _ \<Rightarrow> True)"

lemma no_repo_fails:
  assumes "''objects'' \<notin> d_dirs (snd s)"
  shows "vault_open C J listing ident s = (s, Err (Io ''no engine repo''))"
  using assms by (cases s) (simp add: vault_open_def sbind_def sread_def repo_open_def disk_open_def)

lemma at_no_vault:
  assumes "device_identity (su_crates E) (su_outside E) (su_fresh E) cli (ho_dev h) = (t, Ok ident)"
    and "''objects'' \<notin> d_dirs (snd (ho_folders h root))"
  shows "at_vault E cli root m h = (h\<lparr>ho_dev := t\<rparr>, Err (OtherErr ''open vault''))"
  using assms by (simp add: at_vault_def own_identity_def on_dev_def sbind_def in_folder_def opened_def with_context_def no_repo_fails)

lemma watch_no_vault:
  assumes "''objects'' \<notin> d_dirs (snd s)"
  shows "watch_run E cli once ident dev s = (s, Err (OtherErr ''open vault (run `ctx init`?)''))"
  using assms by (simp add: watch_run_def sbind_def with_context_def no_repo_fails)

lemma fails_open:
  assumes "opens_vault cmd"
    and "device_identity (su_crates E) (su_outside E) (su_fresh E) cli (ho_dev h) = (t, Ok ident)"
    and "''objects'' \<notin> d_dirs (snd (ho_folders h (root_dir cli cwd)))"
  shows "\<exists>s. run_ctx E cli cwd cmd h = (h\<lparr>ho_dev := t\<rparr>, Err (OtherErr (''open vault'' @ s)))"
proof -
  note at = at_no_vault [OF assms(2,3)]
  show ?thesis
  proof (cases cmd)
    case (CmdWatch peers once)
    then show ?thesis
      using assms(2,3) by (simp add: run_ctx_def own_identity_def on_dev_def sbind_def in_folder_def watch_no_vault)
  next
    case (CmdAuth action)
    then show ?thesis by (cases action) (simp_all add: run_ctx_def sbind_def at)
  next
    case (CmdScope json action)
    show ?thesis
    proof (cases action)
      case (Some a)
      with CmdScope show ?thesis by (cases a) (simp_all add: run_ctx_def sbind_def at)
    qed (use CmdScope in \<open>simp add: run_ctx_def sbind_def at\<close>)
  qed (use assms(1) in \<open>simp_all add: opens_vault_def run_ctx_def sbind_def at\<close>)
qed

lemma exit_three: "exit_code (Err (OtherErr e)) = Some 3 \<longleftrightarrow> str_contains ''open vault'' e"
  by simp

end
