(* ===== verification/Ctx_Properties.thy ===== *)
theory Ctx_Properties
  imports Ctx_Facts Demo_Desk
begin

text \<open>
  Where a run of ctx writes, and what its exit code says.
\<close>











end
