(* ===== verification/Spec2Isabelle.thy ===== *)
theory Spec2Isabelle
  imports Merge_Properties Trust_Properties Fold_Properties Sync_Properties Engine_Properties Vault_Properties
    Net_Properties Git_Pass Exclude_Properties Id_Store Cli_Properties Wasm_Properties
    Desktop_Properties Ctx_Properties
begin

text \<open>
  Context Sync Protocol: a model of the engine crate, crates/csp-core, and of the command line, the plug-in
  bindings and the desktop application's engine over it, crates/ctx, crates/csp-wasm and desktop/engine, and what is
  proved of them.

  The engine keeps a vault of text files in step between peers without a server. Every local edit is
  committed as a signed git commit, a primitive; peers exchange primitives and the objects they need; and
  every peer computes the same main commit from the same set of primitives by a deterministic fold.

  Theories, in the order of the dependencies:
  \<^item> Prelude: machine integers, the error type, the error and state monads and their rules.
  \<^item> BTree_Map: ordered maps as sorted association lists, a locale and its interpretation.
  \<^item> Rust_Str: strings as byte lists with UTF-8, lines, trimming, numbers (what the sources use of std).
  \<^item> Ids: oid.rs and order.rs, and the record of third-party functions (sha1, hex, base64, zlib, ed25519,
    similar) with their documented laws as named hypotheses.
  \<^item> Object: object.rs. Store: store.rs, the locale object_store, interpreted by both stores.
  \<^item> Merge: merge.rs. Fold: fold.rs. Graph_Facts, Frontier, Fold_Facts: the commit graph, the frontier, and
    in the locale engine_store (interpreted by both stores) the fold and its verification.
  \<^item> State: state.rs. Identity: identity.rs. Scope: scope.rs. Authkeys: authkeys.rs. Config, Config_Facts:
    config.rs.
  \<^item> Object_Facts: the encoding of objects is inverted by the parser.
  \<^item> Session: wire.rs (the messages) and session.rs. Session_Facts: the invariant of the handshake, the cases of each
    handler, and the locale session_vault of what a session relies on in its vault.
  \<^item> Engine: engine.rs, the in-memory engine, its operations, and the record engine_ops by which it serves a
    session. Engine_Facts: its invariant, that every operation advances it (interpreting session_vault), and the
    step relation of all its calls. Commit_Facts, Materialize_Facts, Admission_Facts: what a commit publishes, what
    a materialize plan does to each path, who is authorized after an admission. Publish_Facts: what reaches the other
    peers, and when a commit publishes nothing.
  \<^item> File_Tree: a tree of files and directories and the file operations of std::fs the sources use. Repo: repo.rs,
    the refs, the scan for primitives and the garbage collection over the store of store.rs. Vault: vault.rs, every
    operation of the vault on disk. Tree_Facts: the type of the file tree and what each file operation changes.
  \<^item> Vault_Facts: the step relation of all calls of the vault, its invariant, and the interpretations of
    engine_store and session_vault on it. Vault_Materialize, Vault_Admission: what materializing does to each path,
    how the lists of keys are rewritten. Walk_Facts: when the walks over trees return.
  \<^item> Net: net.rs, the check of an auth key, the addresses dialled, and a node as a vault with its connections and the
    relay bus, whose runs are lists of events (frames, timeouts, commits, other calls). Net_Facts: the invariant of
    every connection of a run. Gossip_Facts: how much is relayed.
  \<^item> Git_Pass: gitpass.rs of crates/ctx, the guard of ctx git, with its properties: what it lets through.
  \<^item> Ssh_Agent: sshagent.rs of crates/ctx, the client of an ssh agent, a function from requests to replies. Id_Store:
    idstore.rs, which key a device signs with, with its properties.
  \<^item> Cli: main.rs and cli.rs of crates/ctx, the options with their precedence, points in time, names of folders, and
    each command as an operation on a vault. Cli_Facts: what the commands leave alone. Cli_Properties: the properties.
  \<^item> Messages: the texts of error.rs and of the refusals of gitpass.rs. Ctx: the program of main.rs, which takes a
    subcommand of cli.rs to the device's key file, the folder it works on, git or the daemon, and its exit code; what the
    surroundings give to a run is the record surroundings. Ctx_Facts: where each command writes, which ones only look.
    Ctx_Properties: the properties.
  \<^item> Wasm: lib.rs of crates/csp-wasm, the engine and its session behind JSON and wire frames; the codecs are the record
    web_codec. Wasm_Properties: its properties, by the step relation of all calls of a host.
  \<^item> Tls: tls.rs, the certificate and key of a listener, made once and kept. Desktop: csp.rs and types.rs of
    desktop/engine, the registry of folders, its configuration file, the running nodes with their watchers, pollers and
    listeners, and the step relation of the application at work; what the libraries and the system give is the record
    desk_env and, per call, the record moment. Desktop_Facts: what keeps a vault's policy, which operations leave the
    registry alone, and the invariant of every step. Desktop_Properties: the properties.
  \<^item> Demo, Demo_Vault, Demo_Engine, Demo_Disk, Demo_Clone, Demo_Desk: a concrete value of the third-party functions, a small vault, an
    engine over it with its first commit and a first received batch, and the same vault on disk, created, opened,
    materialized, cloned and started by the desktop application, on which the hypotheses of the properties hold.
  \<^item> Merge_Properties, Trust_Properties, Fold_Properties, Sync_Properties, Engine_Properties, Vault_Properties,
    Net_Properties, Exclude_Properties, and those named above: the properties, named C1 to C40.

  How the parts interact: the engine's recompute calls the fold over the known primitives and keeps the main
  commit; a commit writes the tree of the working files, signs a primitive over it with Identity and recomputes;
  integrate puts received objects, verifies fold commits and admits signed primitives; the session is a state
  machine over messages that asks a vault (any record of its operations, the engine being one) to sign, admit,
  export and integrate. The vault on disk keeps the same engine state with its files and its repository in two
  trees: a commit scans the files, a materialize writes them, and opening it scans the repository for primitives.

  Walks over the object graph recurse without a bound in the sources; here they are bounded by the finitely
  many 160-bit object ids, and a walk that would not return is the error value Diverge. The model follows the
  release profile: u64 addition wraps. Methods on a mutable self are functions from a state to a state and a
  result, and the state is kept when the result is an error, as it is in the sources. The clock is an argument of
  the operations that read it. The per-thread caches of fold.rs are modelled, and proved not to change a verdict;
  the other definitions use the uncached walk.

  In the vault on disk paths are text relative to the root; the context directory and the root are fixed. The git
  directory is a tree of its own, in which no path of the working files lies. serde's encoding of the state file is
  an argument (the record codec), and so is the order in which a directory of the repository is listed. A lock file is
  created and held by the operation: operations of several processes on one directory are steps one after the other.

  A run of a node is any sequence of its events, so every schedule of the tasks is covered; the order in which
  select prefers frames to relays, the deadline of the handshake and the reconnects are not timed.

  The desktop application runs one operation after the other; a running vault reads its folder before each of its
  operations and leaves it there after, and of a stopped folder the sessions its listener has accepted go on, as the
  tasks they run in are not aborted. Its invariant takes the identifiers it hands out as new and its configuration
  file as writable and read back as written (file_law).

  Not modelled: sockets and timers, the certificates of rcgen and the configurations of rustls, clap's parser and what the
  commands print, the events to the user interface and the desktop's shell (Tauri commands and a tray menu, which only
  forward to the engine), serde's encoding of the saved engine, the wire codec of rmp. The file tree has no symbolic links, no components . or .. and no
  leading slash, and the machine's own input and output failures (a full disk, missing permissions) do not occur:
  an operation fails only where the tree makes it fail.
\<close>

end
